(* ===== verification/Py_Prelude.thy ===== *)
theory Py_Prelude
  imports Main "HOL-Library.AList" "HOL-Library.Multiset"
begin

text \<open>
  What the Python tools of ns-3 share with each other: the errors the interpreter raises as
  values, the \<open>for\<close> loop whose body may raise, dictionaries in insertion order, slices with
  Python's negative indices, and the handful of string methods the tools call. The generic
  lemmas about them are collected in \<open>py_simps\<close> or declared \<open>[simp]\<close>. Two interfaces are
  stated as locales: \<open>loop_invariant\<close> (a loop body that keeps a predicate) and
  \<open>py_map\<close> (what a dictionary promises), the second interpreted here.
\<close>

named_theorems py_simps \<open>equations of the Python layer that proofs unfold\<close>

section \<open>Errors as values\<close>

datatype py_error =
    IndexError | KeyError | ValueError | TypeError | ZeroDivisionError
  | AttributeError | UnboundLocalError | AssertionError
  | SystemExit int | OtherError string

definition rbind :: "'e + 'a \<Rightarrow> ('a \<Rightarrow> 'e + 'b) \<Rightarrow> 'e + 'b" where
  "rbind r f = (case r of Inl e \<Rightarrow> Inl e | Inr x \<Rightarrow> f x)"

lemma rbind_simps [simp]:
  "rbind (Inl e) f = Inl e"
  "rbind (Inr x) f = f x"
  by (simp_all add: rbind_def)

lemma rbind_cong [fundef_cong]:
  "r = r' \<Longrightarrow> (\<And>x. r' = Inr x \<Longrightarrow> f x = f' x) \<Longrightarrow> rbind r f = rbind r' f'"
  by (simp add: rbind_def split: sum.splits)

lemma rbind_Inr_iff: "rbind r f = Inr y \<longleftrightarrow> (\<exists>x. r = Inr x \<and> f x = Inr y)"
  by (cases r) auto

lemma rbind_Inl_iff: "rbind r f = Inl e \<longleftrightarrow> r = Inl e \<or> (\<exists>x. r = Inr x \<and> f x = Inl e)"
  by (cases r) auto

lemmas rbind_iffs = rbind_Inr_iff rbind_Inl_iff

subsection \<open>A \<open>for\<close> loop whose body may raise\<close>

fun rfold :: "('s \<Rightarrow> 'a \<Rightarrow> 'e + 's) \<Rightarrow> 's \<Rightarrow> 'a list \<Rightarrow> 'e + 's" where
  "rfold f s [] = Inr s"
| "rfold f s (x # xs) = rbind (f s x) (\<lambda>s'. rfold f s' xs)"

lemma rfold_append: "rfold f s (xs @ ys) = rbind (rfold f s xs) (\<lambda>s'. rfold f s' ys)"
  by (induction xs arbitrary: s) (auto simp: rbind_def split: sum.splits)

lemma rfold_cong [fundef_cong]:
  "s = s' \<Longrightarrow> xs = ys \<Longrightarrow> (\<And>t x. x \<in> set ys \<Longrightarrow> f t x = g t x) \<Longrightarrow> rfold f s xs = rfold g s' ys"
proof (induction xs arbitrary: s s' ys)
  case (Cons x xs)
  then show ?case by (fastforce intro: rbind_cong)
qed simp

fun rmap :: "('a \<Rightarrow> 'e + 'b) \<Rightarrow> 'a list \<Rightarrow> 'e + 'b list" where
  "rmap f [] = Inr []"
| "rmap f (x # xs) = rbind (f x) (\<lambda>y. rbind (rmap f xs) (\<lambda>ys. Inr (y # ys)))"

lemma rmap_cong [fundef_cong]:
  "xs = ys \<Longrightarrow> (\<And>x. x \<in> set ys \<Longrightarrow> f x = g x) \<Longrightarrow> rmap f xs = rmap g ys"
proof (induction xs arbitrary: ys)
  case (Cons x xs)
  then show ?case by (fastforce intro: rbind_cong)
qed simp

lemma rmap_length: "rmap f xs = Inr ys \<Longrightarrow> length ys = length xs"
  by (induction xs arbitrary: ys) (auto simp: rbind_iffs)

lemma rmap_map: "rmap f (map g xs) = rmap (\<lambda>x. f (g x)) xs"
  by (induction xs) auto

lemma rmap_total: "(\<And>x. x \<in> set xs \<Longrightarrow> f x = Inr (g x)) \<Longrightarrow> rmap f xs = Inr (map g xs)"
  by (induction xs) auto

text \<open>
  The contract of a loop body: on an element that satisfies \<open>ok\<close>, whenever it returns, it
  keeps the predicate \<open>inv\<close>. The components that are a run of operations over a list
  interpret it.
\<close>

locale loop_invariant =
  fixes step :: "'s \<Rightarrow> 'a \<Rightarrow> 'e + 's" and inv :: "'s \<Rightarrow> bool" and ok :: "'a \<Rightarrow> bool"
  assumes step_keeps: "inv s \<Longrightarrow> ok x \<Longrightarrow> step s x = Inr s' \<Longrightarrow> inv s'"
begin

lemma run_keeps: "inv s \<Longrightarrow> \<forall>x \<in> set xs. ok x \<Longrightarrow> rfold step s xs = Inr s' \<Longrightarrow> inv s'"
  by (induction xs arbitrary: s) (auto simp: rbind_iffs dest: step_keeps)

lemma prefix_keeps:
  "inv s \<Longrightarrow> \<forall>x \<in> set xs. ok x \<Longrightarrow> rfold step s (xs @ ys) = Inr s' \<Longrightarrow>
     \<exists>t. rfold step s xs = Inr t \<and> inv t"
  by (auto simp: rfold_append rbind_iffs intro: run_keeps)

end

text \<open>A body that also never raises from a state of the invariant.\<close>

locale total_loop = loop_invariant +
  assumes step_total: "inv s \<Longrightarrow> ok x \<Longrightarrow> \<exists>s'. step s x = Inr s'"
begin

lemma run_total: "inv s \<Longrightarrow> \<forall>x \<in> set xs. ok x \<Longrightarrow> \<exists>s'. rfold step s xs = Inr s' \<and> inv s'"
proof (induction xs arbitrary: s)
  case (Cons x xs)
  then obtain t where "step s x = Inr t" "inv t" using step_total step_keeps by (metis list.set_intros(1))
  then show ?case using Cons by simp
qed simp

end

section \<open>Dictionaries\<close>

text \<open>
  A \<open>dict\<close> is an association list with distinct keys in insertion order: \<open>AList.update\<close>
  replaces the entry of a present key where it stands and appends a new one, as
  \<open>d[k] = v\<close> does; \<open>map_of d k\<close> is \<open>d.get(k)\<close>; \<open>AList.delete\<close> is \<open>del d[k]\<close> (the
  caller checks presence, since Python raises \<open>KeyError\<close>).
\<close>

type_synonym ('k, 'v) dict = "('k \<times> 'v) list"

abbreviation dkeys :: "('k, 'v) dict \<Rightarrow> 'k list" where
  "dkeys d \<equiv> map fst d"

abbreviation has_key :: "('k, 'v) dict \<Rightarrow> 'k \<Rightarrow> bool" where
  "has_key d k \<equiv> map_of d k \<noteq> None"

definition dget_or :: "'v \<Rightarrow> 'k \<Rightarrow> ('k, 'v) dict \<Rightarrow> 'v" where
  "dget_or v k d = (case map_of d k of None \<Rightarrow> v | Some w \<Rightarrow> w)"

lemma has_key_iff: "has_key d k \<longleftrightarrow> k \<in> set (dkeys d)"
  by (metis map_of_eq_None_iff list.set_map)

lemma dkeys_update [simp]:
  "dkeys (AList.update k v d) = (if k \<in> set (dkeys d) then dkeys d else dkeys d @ [k])"
  by (simp add: update_keys)

lemma map_of_update [simp]: "map_of (AList.update k v d) = (map_of d)(k \<mapsto> v)"
  by (rule update_conv')

lemma map_of_delete_eq: "map_of (AList.delete k d) = (map_of d)(k := None)"
  by (rule delete_conv')

lemma dkeys_delete: "dkeys (AList.delete k d) = removeAll k (dkeys d)"
  by (rule delete_keys)

lemma length_delete_less: "has_key d k \<Longrightarrow> length (AList.delete k d) < length d"
proof (induction d)
  case (Cons e d)
  show ?case
  proof (cases "fst e = k")
    case True
    then have "AList.delete k (e # d) = AList.delete k d" by (cases e) simp
    then show ?thesis using length_delete_le [of k d] by simp
  next
    case False
    with Cons show ?thesis by (cases e) auto
  qed
qed simp

lemma map_of_keys_Some: "k \<in> set (dkeys d) \<Longrightarrow> \<exists>v. map_of d k = Some v"
  using has_key_iff [of d k] by auto

text \<open>The interface of a dictionary, by what its lookups return after each operation.\<close>

locale py_map =
  fixes empty :: "'m" and get :: "'m \<Rightarrow> 'k \<Rightarrow> 'v option"
    and put :: "'k \<Rightarrow> 'v \<Rightarrow> 'm \<Rightarrow> 'm" and del :: "'k \<Rightarrow> 'm \<Rightarrow> 'm"
    and keys :: "'m \<Rightarrow> 'k list" and ok :: "'m \<Rightarrow> bool"
  assumes get_empty: "get empty k = None"
    and get_put: "get (put k v m) k' = (if k' = k then Some v else get m k')"
    and get_del: "get (del k m) k' = (if k' = k then None else get m k')"
    and keys_get: "k \<in> set (keys m) \<longleftrightarrow> get m k \<noteq> None"
    and keys_distinct: "ok m \<Longrightarrow> distinct (keys m)"
    and ok_empty: "ok empty"
    and ok_put: "ok m \<Longrightarrow> ok (put k v m)"
    and ok_del: "ok m \<Longrightarrow> ok (del k m)"
begin

lemma keys_put: "set (keys (put k v m)) = insert k (set (keys m))"
  by (auto simp: keys_get get_put split: if_splits)

lemma keys_del: "set (keys (del k m)) = set (keys m) - {k}"
  by (auto simp: keys_get get_del split: if_splits)

lemma fold_put_get:
  "get (fold (\<lambda>k m. put k (f k) m) ks m) x = (if x \<in> set ks then Some (f x) else get m x)"
  by (induction ks arbitrary: m) (auto simp: get_put)

lemma fold_put_keys: "set (keys (fold (\<lambda>k m. put k (f k) m) ks m)) = set (keys m) \<union> set ks"
  by (induction ks arbitrary: m) (auto simp: keys_put)

lemma fold_put_ok: "ok m \<Longrightarrow> ok (fold (\<lambda>k m. put k (f k) m) ks m)"
  by (induction ks arbitrary: m) (auto intro: ok_put)

end

interpretation dict: py_map "[]" map_of AList.update AList.delete dkeys "\<lambda>d. distinct (dkeys d)"
proof
  fix m :: "('a, 'b) dict" and k
  show "k \<in> set (dkeys m) \<longleftrightarrow> map_of m k \<noteq> None" by (rule has_key_iff [symmetric])
qed (auto simp: map_of_delete_eq dkeys_delete distinct_removeAll)

section \<open>Sequences\<close>

text \<open>Where a slice bound \<open>k\<close> falls in a sequence of length \<open>n\<close>.\<close>

definition slice_pos :: "nat \<Rightarrow> int \<Rightarrow> nat" where
  "slice_pos n k = (if k < 0 then nat (int n + k) else min n (nat k))"

definition slice_to :: "'a list \<Rightarrow> int \<Rightarrow> 'a list" where
  \<comment> \<open>\<open>xs[:k]\<close>\<close>
  "slice_to xs k = take (slice_pos (length xs) k) xs"

definition slice_from :: "'a list \<Rightarrow> int \<Rightarrow> 'a list" where
  \<comment> \<open>\<open>xs[k:]\<close>\<close>
  "slice_from xs k = drop (slice_pos (length xs) k) xs"

definition slice :: "'a list \<Rightarrow> int \<Rightarrow> int \<Rightarrow> 'a list" where
  \<comment> \<open>\<open>xs[a:b]\<close>\<close>
  "slice xs a b = drop (slice_pos (length xs) a) (take (slice_pos (length xs) b) xs)"

definition py_index :: "'a list \<Rightarrow> int \<Rightarrow> py_error + 'a" where
  \<comment> \<open>\<open>xs[k]\<close>\<close>
  "py_index xs k =
     (let n = int (length xs); j = (if k < 0 then n + k else k)
      in if 0 \<le> j \<and> j < n then Inr (xs ! nat j) else Inl IndexError)"

lemma slice_to_nat [simp]: "slice_to xs (int k) = take k xs"
  by (simp add: slice_to_def slice_pos_def min_def)

lemma slice_from_nat [simp]: "slice_from xs (int k) = drop k xs"
  by (simp add: slice_from_def slice_pos_def min_def)

lemma slice_nat [simp]: "slice xs (int a) (int b) = drop a (take b xs)"
proof -
  have "drop (min (length xs) a) (take (min (length xs) b) xs) = drop a (take b xs)"
    by (cases "a \<le> length xs") (auto simp: min_def)
  then show ?thesis by (simp add: slice_def slice_pos_def)
qed

lemma slice_to_append_from: "slice_to xs k @ slice_from xs k = xs"
  by (simp add: slice_to_def slice_from_def)

lemma py_index_nat [simp]:
  "py_index xs (int k) = (if k < length xs then Inr (xs ! k) else Inl IndexError)"
  by (simp add: py_index_def)

text \<open>\<open>list.remove\<close> drops the first occurrence; the caller checks presence.\<close>

lemma remove1_mset: "x \<in> set xs \<Longrightarrow> mset (remove1 x xs) + {#x#} = mset xs"
  by simp

section \<open>Strings\<close>

text \<open>A Python \<open>str\<close> of ASCII text is a \<^typ>\<open>string\<close>.\<close>

definition NL :: char where "NL = CHR 0x0A"
definition TAB :: char where "TAB = CHR 0x09"

definition is_space :: "char \<Rightarrow> bool" where
  "is_space c \<longleftrightarrow> c \<in> {CHR '' '', CHR 0x09, CHR 0x0A, CHR 0x0B, CHR 0x0C, CHR 0x0D}"

definition lstrip :: "string \<Rightarrow> string" where "lstrip = dropWhile is_space"
definition rstrip :: "string \<Rightarrow> string" where "rstrip s = rev (dropWhile is_space (rev s))"
definition strip :: "string \<Rightarrow> string" where "strip s = rstrip (lstrip s)"

definition startswith :: "string \<Rightarrow> string \<Rightarrow> bool" where
  "startswith s p \<longleftrightarrow> take (length p) s = p"

definition endswith :: "string \<Rightarrow> string \<Rightarrow> bool" where
  "endswith s p \<longleftrightarrow> length p \<le> length s \<and> drop (length s - length p) s = p"

text \<open>\<open>p in s\<close>: \<open>p\<close> occurs as a substring.\<close>

fun contains :: "string \<Rightarrow> string \<Rightarrow> bool" where
  "contains [] p \<longleftrightarrow> p = []"
| "contains (c # s) p \<longleftrightarrow> startswith (c # s) p \<or> contains s p"

text \<open>\<open>s.split(c)\<close> for a one-character separator; never empty.\<close>

fun split_on :: "char \<Rightarrow> string \<Rightarrow> string list" where
  "split_on c [] = [[]]"
| "split_on c (x # xs) =
     (if x = c then [] # split_on c xs
      else (case split_on c xs of [] \<Rightarrow> [[x]] | y # ys \<Rightarrow> (x # y) # ys))"

text \<open>\<open>s.split(c, 1)\<close>: at most one cut, at the first separator.\<close>

definition split_once :: "char \<Rightarrow> string \<Rightarrow> string list" where
  "split_once c s =
     (if c \<in> set s then [takeWhile (\<lambda>x. x \<noteq> c) s, tl (dropWhile (\<lambda>x. x \<noteq> c) s)] else [s])"

fun join :: "string \<Rightarrow> string list \<Rightarrow> string" where
  "join sep [] = []"
| "join sep [x] = x"
| "join sep (x # y # ys) = x @ sep @ join sep (y # ys)"

lemma cut_at_first:
  "c \<notin> set w \<Longrightarrow> takeWhile (\<lambda>x. x \<noteq> c) (w @ c # s) = w \<and> dropWhile (\<lambda>x. x \<noteq> c) (w @ c # s) = c # s"
  by (induction w) auto

lemma split_once_app: "c \<notin> set w \<Longrightarrow> split_once c (w @ c # s) = [w, s]"
  using cut_at_first [of c w s] by (simp add: split_once_def)

lemma split_once_nosep [simp]: "c \<notin> set w \<Longrightarrow> split_once c w = [w]"
  by (simp add: split_once_def)

lemma split_on_nonempty [simp]: "split_on c s \<noteq> []"
  by (induction s) (auto split: list.splits)

lemma split_on_nosep: "c \<notin> set s \<Longrightarrow> split_on c s = [s]"
  by (induction s) auto

lemma split_on_app: "c \<notin> set w \<Longrightarrow> split_on c (w @ c # s) = w # split_on c s"
  by (induction w) auto

lemma split_on_no_sep_in: "w \<in> set (split_on c s) \<Longrightarrow> c \<notin> set w"
proof (induction s arbitrary: w)
  case (Cons x xs)
  then show ?case by (cases "split_on c xs") (auto split: if_splits)
qed simp

lemma join_split: "join [c] (split_on c s) = s"
proof (induction s)
  case (Cons x xs)
  obtain w ws where e: "split_on c xs = w # ws" by (cases "split_on c xs") auto
  with Cons show ?case by (cases ws) auto
qed simp

lemma split_join:
  "ws \<noteq> [] \<Longrightarrow> (\<And>w. w \<in> set ws \<Longrightarrow> c \<notin> set w) \<Longrightarrow> split_on c (join [c] ws) = ws"
proof (induction "[c]" ws rule: join.induct)
  case (3 x y ys)
  then show ?case by (simp add: split_on_app)
qed (auto simp: split_on_nosep)

lemma startswith_append [simp]: "startswith (p @ s) p"
  by (simp add: startswith_def)

lemma startswith_conv: "startswith s p \<longleftrightarrow> (\<exists>r. s = p @ r)"
  by (auto simp: startswith_def) (metis append_take_drop_id)

lemma contains_conv: "contains s p \<longleftrightarrow> (\<exists>a b. s = a @ p @ b)"
proof (induction s)
  case IH: (Cons c s)
  show ?case
  proof
    assume "contains (c # s) p"
    then show "\<exists>a b. c # s = a @ p @ b"
      using IH.IH by (auto simp: startswith_conv) (metis append_Cons append_Nil)+
  next
    assume "\<exists>a b. c # s = a @ p @ b"
    then obtain a b where e: "c # s = a @ p @ b" by blast
    show "contains (c # s) p"
    proof (cases a)
      case Nil
      with e have "startswith (c # s) p" by (simp add: startswith_def)
      then show ?thesis by simp
    next
      case (Cons x a')
      with e have "s = a' @ p @ b" by simp
      with IH.IH show ?thesis by auto
    qed
  qed
qed auto

definition unlines_py :: "string list \<Rightarrow> string" where
  \<comment> \<open>a triple-quoted text of whole lines\<close>
  "unlines_py ls = concat (map (\<lambda>l. l @ [NL]) ls)"

text \<open>\<open>str.upper\<close>, \<open>str.lower\<close> and \<open>str.capitalize\<close> of ASCII text.\<close>

definition upper_char :: "char \<Rightarrow> char" where
  "upper_char ch = (let n = (of_char ch :: nat) in if 97 \<le> n \<and> n \<le> 122 then char_of (n - 32) else ch)"

definition lower_char :: "char \<Rightarrow> char" where
  "lower_char ch = (let n = (of_char ch :: nat) in if 65 \<le> n \<and> n \<le> 90 then char_of (n + 32) else ch)"

definition capitalize :: "string \<Rightarrow> string" where
  "capitalize s = (case s of [] \<Rightarrow> [] | c # r \<Rightarrow> upper_char c # map lower_char r)"

text \<open>Decimal digits and the \<open>%d\<close> conversion.\<close>

definition digit_char :: "nat \<Rightarrow> char" where "digit_char d = ''0123456789'' ! d"

fun show_nat :: "nat \<Rightarrow> string" where
  "show_nat n = (if n < 10 then [digit_char n] else show_nat (n div 10) @ [digit_char (n mod 10)])"

declare show_nat.simps [simp del]

definition show_int :: "int \<Rightarrow> string" where
  "show_int i = (if i < 0 then CHR ''-'' # show_nat (nat (- i)) else show_nat (nat i))"

definition is_digit :: "char \<Rightarrow> bool" where "is_digit c \<longleftrightarrow> c \<in> set ''0123456789''"

definition digit_val :: "char \<Rightarrow> nat" where
  "digit_val c = length (takeWhile (\<lambda>d. d \<noteq> c) ''0123456789'')"

definition read_nat :: "string \<Rightarrow> nat" where
  \<comment> \<open>\<open>int(s)\<close> of a string of digits\<close>
  "read_nat s = foldl (\<lambda>n c. 10 * n + digit_val c) 0 s"

lemma digit_val_char: "d < 10 \<Longrightarrow> digit_val (digit_char d) = d"
proof -
  assume "d < 10"
  then have "d \<in> {0, 1, 2, 3, 4, 5, 6, 7, 8, 9}" by auto
  then show ?thesis by (auto simp: digit_val_def digit_char_def)
qed

lemma is_digit_char: "d < 10 \<Longrightarrow> is_digit (digit_char d)"
  unfolding is_digit_def digit_char_def by (rule nth_mem) simp

lemma read_nat_snoc: "read_nat (s @ [c]) = 10 * read_nat s + digit_val c"
  by (simp add: read_nat_def)

lemma read_show_nat [simp]: "read_nat (show_nat n) = n"
proof (induction n rule: show_nat.induct)
  case (1 n)
  show ?case
  proof (cases "n < 10")
    case True
    then show ?thesis by (simp add: show_nat.simps [of n] read_nat_def digit_val_char)
  next
    case False
    with 1 show ?thesis by (simp add: show_nat.simps [of n] read_nat_snoc digit_val_char)
  qed
qed

lemma show_nat_digits: "list_all is_digit (show_nat n) \<and> show_nat n \<noteq> []"
proof (induction n rule: show_nat.induct)
  case (1 n)
  show ?case
  proof (cases "n < 10")
    case True
    then show ?thesis by (simp add: show_nat.simps [of n] is_digit_char)
  next
    case False
    with 1 show ?thesis by (simp add: show_nat.simps [of n] is_digit_char)
  qed
qed

text \<open>
  \<open>for line in file\<close>: the lines of a text, each with its newline; the last one without when
  the text does not end in one.
\<close>

definition lines_of :: "string \<Rightarrow> string list" where
  "lines_of s = (let ws = split_on NL s in
     map (\<lambda>w. w @ [NL]) (butlast ws) @ (if last ws = [] then [] else [last ws]))"

lemma lines_of_Nil [simp]: "lines_of [] = []"
  by (simp add: lines_of_def)

lemma concat_newlines: "ws \<noteq> [] \<Longrightarrow> concat (map (\<lambda>w. w @ [NL]) (butlast ws)) @ last ws = join [NL] ws"
  by (induction "[NL]" ws rule: join.induct) auto

lemma split_on_snoc: "split_on c (s @ [c]) = split_on c s @ [[]]"
proof (induction s)
  case (Cons x s)
  then show ?case by (cases "split_on c s") auto
qed simp

lemma lines_of_snoc: "lines_of (s @ [NL]) = map (\<lambda>w. w @ [NL]) (split_on NL s)"
  by (simp add: lines_of_def split_on_snoc Let_def)

lemma hd_split_on: "c \<notin> set w \<Longrightarrow> \<exists>r. hd (split_on c (w @ s)) = w @ r"
proof (induction w)
  case (Cons x w)
  then show ?case by (cases "split_on c (w @ s)") auto
qed simp

lemma last_split_on: "d \<noteq> c \<Longrightarrow> \<exists>v. last (split_on c (s @ [d])) = v @ [d]"
proof (induction s)
  case (Cons x s)
  then show ?case by (cases "split_on c (s @ [d])") (auto split: if_splits)
qed simp

lemma concat_lines_of [simp]: "concat (lines_of s) = s"
  using concat_newlines [of "split_on NL s"] join_split [of NL s]
  by (auto simp: lines_of_def Let_def)

lemma lines_of_app: "NL \<notin> set w \<Longrightarrow> lines_of (w @ NL # s) = (w @ [NL]) # lines_of s"
  by (simp add: lines_of_def split_on_app Let_def)

lemma lines_of_chars: "l \<in> set (lines_of s) \<Longrightarrow> set l \<subseteq> set s"
  by (metis concat_lines_of set_concat UN_upper)

section \<open>Values\<close>

text \<open>The values the tools get from \<open>eval\<close>, and what Python takes for true.\<close>

datatype py_value = VNone | VBool bool | VInt int | VStr string
  | VList "py_value list" | VTuple "py_value list"

fun truthy :: "py_value \<Rightarrow> bool" where
  "truthy VNone = False"
| "truthy (VBool b) = b"
| "truthy (VInt i) = (i \<noteq> 0)"
| "truthy (VStr s) = (s \<noteq> [])"
| "truthy (VList vs) = (vs \<noteq> [])"
| "truthy (VTuple vs) = (vs \<noteq> [])"

text \<open>\<open>for x in v\<close>\<close>

fun items :: "py_value \<Rightarrow> py_error + py_value list" where
  "items (VList vs) = Inr vs"
| "items (VTuple vs) = Inr vs"
| "items (VStr s) = Inr (map (\<lambda>c. VStr [c]) s)"
| "items _ = Inl TypeError"

end
