(* ===== verification/Py_State.thy ===== *)
theory Py_State
  imports Py_Prelude
begin

text \<open>
  Procedures of the scripts that work on files and print: a procedure maps the state of the
  world to its outcome, a value or the exception it raised, and the state it leaves, also
  when it raises. The contract \<open>keeps P m\<close> says that \<open>m\<close> never leaves a state outside \<open>P\<close>,
  whether it returns or raises; \<open>keeps_intros\<close> collects its rules.
\<close>

named_theorems keeps_intros \<open>rules that show that a procedure keeps a predicate\<close>

section \<open>Procedures\<close>

type_synonym ('s, 'a) proc = "'s \<Rightarrow> (py_error + 'a) \<times> 's"

definition ret :: "'a \<Rightarrow> ('s, 'a) proc" where "ret x s = (Inr x, s)"
definition fail :: "py_error \<Rightarrow> ('s, 'a) proc" where "fail e s = (Inl e, s)"
definition gets :: "('s \<Rightarrow> 'a) \<Rightarrow> ('s, 'a) proc" where "gets f s = (Inr (f s), s)"
definition modify :: "('s \<Rightarrow> 's) \<Rightarrow> ('s, unit) proc" where "modify f s = (Inr (), f s)"
definition lift :: "py_error + 'a \<Rightarrow> ('s, 'a) proc" where "lift r s = (r, s)"

definition sbind :: "('s, 'a) proc \<Rightarrow> ('a \<Rightarrow> ('s, 'b) proc) \<Rightarrow> ('s, 'b) proc" where
  "sbind m f s = (case m s of (Inl e, t) \<Rightarrow> (Inl e, t) | (Inr x, t) \<Rightarrow> f x t)"

abbreviation seq :: "('s, unit) proc \<Rightarrow> ('s, 'b) proc \<Rightarrow> ('s, 'b) proc" where
  "seq m n \<equiv> sbind m (\<lambda>_. n)"

text \<open>\<open>if c: m\<close>\<close>

definition do_if :: "bool \<Rightarrow> ('s, unit) proc \<Rightarrow> ('s, unit) proc" where
  "do_if c m = (if c then m else ret ())"

text \<open>\<open>try: m except: h\<close> for the exceptions that \<open>caught\<close> selects.\<close>

definition try_except ::
  "(py_error \<Rightarrow> bool) \<Rightarrow> ('s, 'a) proc \<Rightarrow> (py_error \<Rightarrow> ('s, 'a) proc) \<Rightarrow> ('s, 'a) proc" where
  "try_except caught m h s =
     (case m s of (Inl e, t) \<Rightarrow> (if caught e then h e t else (Inl e, t)) | (Inr x, t) \<Rightarrow> (Inr x, t))"

text \<open>\<open>for x in xs: m x\<close>, and the same loop collecting a list.\<close>

fun sfor :: "('a \<Rightarrow> ('s, unit) proc) \<Rightarrow> 'a list \<Rightarrow> ('s, unit) proc" where
  "sfor m [] = ret ()"
| "sfor m (x # xs) = seq (m x) (sfor m xs)"

fun smap :: "('a \<Rightarrow> ('s, 'b) proc) \<Rightarrow> 'a list \<Rightarrow> ('s, 'b list) proc" where
  "smap m [] = ret []"
| "smap m (x # xs) = sbind (m x) (\<lambda>y. sbind (smap m xs) (\<lambda>ys. ret (y # ys)))"

lemma proc_simps [simp]:
  "ret x s = (Inr x, s)"
  "fail e s = (Inl e, s)"
  "gets f s = (Inr (f s), s)"
  "modify g s = (Inr (), g s)"
  "lift r s = (r, s)"
  "do_if True m = m"
  "do_if False m = ret ()"
  by (simp_all add: ret_def fail_def gets_def modify_def lift_def do_if_def)

lemma sbind_ret: "m s = (Inr x, t) \<Longrightarrow> sbind m f s = f x t"
  by (simp add: sbind_def)

lemma sbind_fail: "m s = (Inl e, t) \<Longrightarrow> sbind m f s = (Inl e, t)"
  by (simp add: sbind_def)

lemma sbind_base [simp]:
  "sbind (ret x) f s = f x s"
  "sbind (fail e) f s = (Inl e, s)"
  "sbind (gets h) f s = f (h s) s"
  "sbind (modify g) f' s = f' () (g s)"
  "sbind (Pair (Inr x)) f s = f x s"
  "sbind (lift (Inr x)) f s = f x s"
  "sbind (lift (Inl e)) f s = (Inl e, s)"
  by (simp_all add: sbind_def)

lemma sbind_Inr:
  "sbind m f s = (Inr y, u) \<longleftrightarrow> (\<exists>x t. m s = (Inr x, t) \<and> f x t = (Inr y, u))"
  by (auto simp: sbind_def split: prod.splits sum.splits)

lemma sbind_Inl:
  "sbind m f s = (Inl e, u) \<longleftrightarrow> m s = (Inl e, u) \<or> (\<exists>x t. m s = (Inr x, t) \<and> f x t = (Inl e, u))"
  by (auto simp: sbind_def split: prod.splits sum.splits)

lemma sbind_assoc: "sbind (sbind m f) g = sbind m (\<lambda>x. sbind (f x) g)"
  by (rule ext) (auto simp: sbind_def split: prod.splits sum.splits)

lemma sfor_append: "sfor m (xs @ ys) = seq (sfor m xs) (sfor m ys)"
proof (induction xs)
  case Nil
  show ?case by (rule ext) simp
qed (simp add: sbind_assoc)

lemma smap_length: "smap m xs s = (Inr ys, t) \<Longrightarrow> length ys = length xs"
  by (induction xs arbitrary: s ys t) (auto simp: sbind_Inr)

section \<open>Procedures that keep a predicate\<close>

definition keeps :: "('s \<Rightarrow> bool) \<Rightarrow> ('s, 'a) proc \<Rightarrow> bool" where
  "keeps P m \<longleftrightarrow> (\<forall>s. P s \<longrightarrow> P (snd (m s)))"

lemma keepsI: "(\<And>s. P s \<Longrightarrow> P (snd (m s))) \<Longrightarrow> keeps P m"
  by (simp add: keeps_def)

lemma keepsD: "keeps P m \<Longrightarrow> P s \<Longrightarrow> m s = (r, t) \<Longrightarrow> P t"
  unfolding keeps_def by (metis snd_conv)

lemma keeps_snd: "keeps P m \<Longrightarrow> P s \<Longrightarrow> P (snd (m s))"
  by (simp add: keeps_def)

lemma keeps_base [keeps_intros]:
  "keeps P (ret x)" "keeps P (fail e)" "keeps P (gets f)" "keeps P (lift r)"
  by (simp_all add: keeps_def)

lemma keeps_modify [keeps_intros]: "(\<And>s. P s \<Longrightarrow> P (g s)) \<Longrightarrow> keeps P (modify g)"
  by (simp add: keeps_def)

lemma keeps_sbind [keeps_intros]:
  "keeps P m \<Longrightarrow> (\<And>x. keeps P (f x)) \<Longrightarrow> keeps P (sbind m f)"
  unfolding keeps_def sbind_def by (auto split: prod.split sum.split )

lemma keeps_do_if [keeps_intros]: "(c \<Longrightarrow> keeps P m) \<Longrightarrow> keeps P (do_if c m)"
  by (auto simp: do_if_def keeps_base)

lemma keeps_if [keeps_intros]:
  "(c \<Longrightarrow> keeps P m) \<Longrightarrow> (\<not> c \<Longrightarrow> keeps P n) \<Longrightarrow> keeps P (if c then m else n)"
  by simp

lemma keeps_cases [keeps_intros]:
  "(\<And>a b. keeps P (f a b)) \<Longrightarrow> keeps P (case p of (a, b) \<Rightarrow> f a b)"
  "keeps P m \<Longrightarrow> (\<And>x xs. keeps P (g x xs)) \<Longrightarrow> keeps P (case l of [] \<Rightarrow> m | x # xs \<Rightarrow> g x xs)"
  by (simp_all split: prod.split list.split)

lemma keeps_try [keeps_intros]:
  "keeps P m \<Longrightarrow> (\<And>e. keeps P (h e)) \<Longrightarrow> keeps P (try_except c m h)"
  unfolding keeps_def try_except_def by (auto split: prod.split sum.split)

lemma keeps_sfor [keeps_intros]: "(\<And>x. x \<in> set xs \<Longrightarrow> keeps P (m x)) \<Longrightarrow> keeps P (sfor m xs)"
  by (induction xs) (auto intro!: keeps_intros)

lemma keeps_smap [keeps_intros]: "(\<And>x. x \<in> set xs \<Longrightarrow> keeps P (m x)) \<Longrightarrow> keeps P (smap m xs)"
  by (induction xs) (auto intro!: keeps_intros)

text \<open>The same with a predicate on the value returned.\<close>

definition gives :: "('s \<Rightarrow> bool) \<Rightarrow> ('s, 'a) proc \<Rightarrow> ('a \<Rightarrow> bool) \<Rightarrow> bool" where
  "gives P m Q \<longleftrightarrow> (\<forall>s. P s \<longrightarrow> P (snd (m s)) \<and> (\<forall>x. fst (m s) = Inr x \<longrightarrow> Q x))"

lemma gives_keeps: "gives P m Q \<Longrightarrow> keeps P m"
  by (simp add: gives_def keeps_def)

lemma keeps_gives: "keeps P m \<Longrightarrow> gives P m (\<lambda>_. True)"
  by (simp add: gives_def keeps_def)

lemma givesD: "gives P m Q \<Longrightarrow> P s \<Longrightarrow> m s = (Inr x, t) \<Longrightarrow> P t \<and> Q x"
  unfolding gives_def by (metis fst_conv snd_conv)

lemma gives_ret: "Q x \<Longrightarrow> gives P (ret x) Q"
  by (simp add: gives_def)

lemma gives_sbind: "gives P m Q \<Longrightarrow> (\<And>x. Q x \<Longrightarrow> gives P (f x) R) \<Longrightarrow> gives P (sbind m f) R"
  unfolding gives_def sbind_def by (auto split: prod.split sum.split)

lemma gives_seq: "keeps P m \<Longrightarrow> gives P n R \<Longrightarrow> gives P (seq m n) R"
  by (rule gives_sbind [where Q = "\<lambda>_. True"]) (simp_all add: gives_def keeps_def)

lemma gives_any: "keeps P m \<Longrightarrow> (\<And>x. gives P (f x) R) \<Longrightarrow> gives P (sbind m f) R"
  by (rule gives_sbind [where Q = "\<lambda>_. True"]) (simp_all add: gives_def keeps_def)

lemma gives_smap: "(\<And>x. x \<in> set xs \<Longrightarrow> gives P (m x) Q) \<Longrightarrow> gives P (smap m xs) (list_all Q)"
proof (induction xs)
  case (Cons x xs)
  show ?case unfolding smap.simps
    by (rule gives_sbind [where Q = Q], simp add: Cons.prems,
        rule gives_sbind [where Q = "list_all Q"], rule Cons.IH, simp add: Cons.prems, simp add: gives_ret)
qed (simp add: gives_def)

section \<open>The exceptions a procedure may raise\<close>

named_theorems raises_intros \<open>rules that bound the exceptions of a procedure\<close>

definition raises :: "(py_error \<Rightarrow> bool) \<Rightarrow> ('s, 'a) proc \<Rightarrow> bool" where
  "raises E m \<longleftrightarrow> (\<forall>s e. fst (m s) = Inl e \<longrightarrow> E e)"

lemma raisesD: "raises E m \<Longrightarrow> m s = (Inl e, t) \<Longrightarrow> E e"
  unfolding raises_def by (metis fst_conv)

lemma raises_base [raises_intros]:
  "raises E (ret x)" "raises E (gets f)" "raises E (modify g)"
  by (simp_all add: raises_def)

lemma raises_fail [raises_intros]: "E e \<Longrightarrow> raises E (fail e)"
  by (simp add: raises_def)

lemma raises_lift [raises_intros]: "(\<And>e. r = Inl e \<Longrightarrow> E e) \<Longrightarrow> raises E (lift r)"
  by (simp add: raises_def)

lemma raises_sbind [raises_intros]: "raises E m \<Longrightarrow> (\<And>x. raises E (f x)) \<Longrightarrow> raises E (sbind m f)"
  unfolding raises_def sbind_def by (auto split: prod.splits sum.splits) (metis fst_conv)+

lemma raises_do_if [raises_intros]: "(c \<Longrightarrow> raises E m) \<Longrightarrow> raises E (do_if c m)"
  by (auto simp: do_if_def raises_base)

lemma raises_if [raises_intros]:
  "(c \<Longrightarrow> raises E m) \<Longrightarrow> (\<not> c \<Longrightarrow> raises E n) \<Longrightarrow> raises E (if c then m else n)"
  by simp

lemma raises_try [raises_intros]:
  "raises E m \<Longrightarrow> (\<And>e. raises E (h e)) \<Longrightarrow> raises E (try_except c m h)"
  unfolding raises_def try_except_def by (auto split: prod.splits sum.splits if_splits) (metis fst_conv)+

lemma raises_sfor [raises_intros]: "(\<And>x. x \<in> set xs \<Longrightarrow> raises E (m x)) \<Longrightarrow> raises E (sfor m xs)"
  by (induction xs) (auto intro!: raises_intros)

lemma raises_smap [raises_intros]: "(\<And>x. x \<in> set xs \<Longrightarrow> raises E (m x)) \<Longrightarrow> raises E (smap m xs)"
  by (induction xs) (auto intro!: raises_intros)

end
