(* ===== verification/Os_Path.thy ===== *)
theory Os_Path
  imports Py_Prelude
begin

text \<open>
  The parts of Python's \<^verbatim>\<open>os.path\<close> (its POSIX version) and \<^verbatim>\<open>fnmatch\<close> that \<^verbatim>\<open>test.py\<close> and
  \<^verbatim>\<open>create-module.py\<close> call: joining, base names, normalising and relative paths, and shell
  patterns.
\<close>

section \<open>join, basename, split\<close>

abbreviation SLASH :: char where "SLASH \<equiv> CHR ''/''"

definition path_join2 :: "string \<Rightarrow> string \<Rightarrow> string" where
  "path_join2 a b =
     (if startswith b [SLASH] then b
      else if a = [] \<or> endswith a [SLASH] then a @ b
      else a @ SLASH # b)"

definition path_join :: "string \<Rightarrow> string list \<Rightarrow> string" where
  "path_join a ps = foldl path_join2 a ps"

definition basename :: "string \<Rightarrow> string" where
  "basename p = last (split_on SLASH p)"

lemma basename_plain: "SLASH \<notin> set p \<Longrightarrow> basename p = p"
  by (simp add: basename_def split_on_nosep)

lemma split_on_append_sep: "split_on c (a @ c # b) = split_on c a @ split_on c b"
proof (induction a)
  case (Cons x a)
  then show ?case by (cases "split_on c a") auto
qed simp

lemma basename_app [simp]: "SLASH \<notin> set b \<Longrightarrow> basename (a @ SLASH # b) = b"
  by (simp add: basename_def split_on_append_sep split_on_nosep)

lemma basename_no_slash: "SLASH \<notin> set (basename p)"
  using split_on_no_sep_in [of "last (split_on SLASH p)" SLASH p] by (simp add: basename_def)

lemma basename_join: "b \<noteq> [] \<Longrightarrow> SLASH \<notin> set b \<Longrightarrow> basename (path_join2 a b) = b"
proof -
  assume b: "b \<noteq> []" "SLASH \<notin> set b"
  have "\<not> startswith b [SLASH]" using b by (cases b) (auto simp: startswith_def)
  moreover have "basename (a @ b) = b" if "a = [] \<or> endswith a [SLASH]"
  proof (cases "a = []")
    case False
    with that have "a = butlast a @ [SLASH]"
      by (metis append_butlast_last_id endswith_def append_take_drop_id length_butlast butlast_conv_take
          length_Cons list.size(3) One_nat_def)
    then have "a @ b = butlast a @ SLASH # b" by (metis append.assoc append_Cons append_Nil)
    then show ?thesis using b(2) basename_app by metis
  qed (use b basename_plain in simp)
  ultimately show ?thesis using b by (simp add: path_join2_def)
qed

section \<open>normpath and relpath\<close>

text \<open>One component of the loop of \<open>normpath\<close>; \<open>new_comps\<close> is kept reversed.\<close>

definition norm_step :: "bool \<Rightarrow> string list \<Rightarrow> string \<Rightarrow> string list" where
  "norm_step rooted new_comps cmp =
     (if cmp = [] \<or> cmp = ''.'' then new_comps
      else if cmp \<noteq> ''..'' \<or> (\<not> rooted \<and> new_comps = []) \<or>
              (new_comps \<noteq> [] \<and> hd new_comps = ''..'') then cmp # new_comps
      else tl new_comps)"

definition initial_slashes :: "string \<Rightarrow> nat" where
  "initial_slashes p =
     (if startswith p ''/'' then (if startswith p ''//'' \<and> \<not> startswith p ''///'' then 2 else 1) else 0)"

definition norm_comps :: "string \<Rightarrow> string list" where
  "norm_comps p = rev (foldl (norm_step (initial_slashes p \<noteq> 0)) [] (split_on SLASH p))"

definition normpath :: "string \<Rightarrow> string" where
  "normpath p =
     (let r = replicate (initial_slashes p) SLASH @ join [SLASH] (norm_comps p)
      in if r = [] then ''.'' else r)"

definition abspath :: "string \<Rightarrow> string \<Rightarrow> string" where
  "abspath cwd p = normpath (if startswith p ''/'' then p else path_join2 cwd p)"

fun common_len :: "'a list \<Rightarrow> 'a list \<Rightarrow> nat" where
  "common_len (x # xs) (y # ys) = (if x = y then Suc (common_len xs ys) else 0)"
| "common_len _ _ = 0"

definition path_list :: "string \<Rightarrow> string list" where
  "path_list p = filter (\<lambda>x. x \<noteq> []) (split_on SLASH p)"

text \<open>\<open>os.path.relpath(path, start)\<close>; an empty path raises \<open>ValueError\<close>.\<close>

definition relpath :: "string \<Rightarrow> string \<Rightarrow> string \<Rightarrow> py_error + string" where
  "relpath cwd path start =
     (if path = [] then Inl ValueError
      else
        (let start_list = path_list (abspath cwd start);
             path_list' = path_list (abspath cwd path);
             i = common_len start_list path_list';
             rel_list = replicate (length start_list - i) ''..'' @ drop i path_list'
         in Inr (if rel_list = [] then ''.'' else join [SLASH] rel_list)))"

text \<open>A component that normalising keeps.\<close>

definition plain_comp :: "string \<Rightarrow> bool" where
  "plain_comp c \<longleftrightarrow> c \<noteq> [] \<and> c \<noteq> ''.'' \<and> c \<noteq> ''..'' \<and> SLASH \<notin> set c"

text \<open>The absolute path with the given components.\<close>

definition abs_path :: "string list \<Rightarrow> string" where
  "abs_path cs = SLASH # join [SLASH] cs"

lemma norm_step_plain [simp]: "plain_comp c \<Longrightarrow> norm_step r acc c = c # acc"
  by (simp add: norm_step_def plain_comp_def)

lemma foldl_norm_plain: "\<forall>c \<in> set cs. plain_comp c \<Longrightarrow> foldl (norm_step r) acc cs = rev cs @ acc"
  by (induction cs arbitrary: acc) auto

lemma split_abs_path:
  assumes "\<forall>c \<in> set cs. plain_comp c"
  shows "split_on SLASH (abs_path cs) = [] # (if cs = [] then [[]] else cs)"
  using split_join [of cs SLASH] assms by (auto simp: abs_path_def plain_comp_def)

lemma path_list_abs_path: "\<forall>c \<in> set cs. plain_comp c \<Longrightarrow> path_list (abs_path cs) = cs"
  by (auto simp: path_list_def split_abs_path filter_id_conv plain_comp_def)

lemma initial_abs_path:
  assumes "\<forall>c \<in> set cs. plain_comp c" shows "initial_slashes (abs_path cs) = 1"
proof (cases cs)
  case (Cons c cs')
  then obtain x c' where c: "c = x # c'" "x \<noteq> SLASH" using assms by (cases c) (auto simp: plain_comp_def)
  then have "\<exists>r. join [SLASH] cs = x # r" using Cons by (cases cs') auto
  then show ?thesis using c(2) by (auto simp: initial_slashes_def abs_path_def startswith_def)
qed (simp add: initial_slashes_def abs_path_def startswith_def)

lemma norm_comps_abs_path: "\<forall>c \<in> set cs. plain_comp c \<Longrightarrow> norm_comps (abs_path cs) = cs"
  unfolding norm_comps_def by (simp add: split_abs_path foldl_norm_plain norm_step_def)

lemma normpath_abs_path: "\<forall>c \<in> set cs. plain_comp c \<Longrightarrow> normpath (abs_path cs) = abs_path cs"
  unfolding normpath_def norm_comps_abs_path initial_abs_path by (simp add: abs_path_def)

lemma abspath_abs_path: "\<forall>c \<in> set cs. plain_comp c \<Longrightarrow> abspath cwd (abs_path cs) = abs_path cs"
  by (simp add: abspath_def normpath_abs_path) (simp add: abs_path_def startswith_def)

lemma common_len_append: "common_len xs (xs @ ys) = length xs"
  by (induction xs) simp_all

text \<open>The path of something below a directory, relative to that directory.\<close>

lemma relpath_below:
  assumes "\<forall>c \<in> set (cs @ ds). plain_comp c" "ds \<noteq> []"
  shows "relpath cwd (abs_path (cs @ ds)) (abs_path cs) = Inr (join [SLASH] ds)"
  using assms by (simp add: relpath_def abspath_abs_path path_list_abs_path common_len_append Let_def
      abs_path_def [of "cs @ ds", THEN arg_cong [of _ _ "\<lambda>p. p = []"]])

lemma join_snoc: "ws \<noteq> [] \<Longrightarrow> join s (ws @ [w]) = join s ws @ s @ w"
  by (induction s ws rule: join.induct) auto

lemma join_append: "vs \<noteq> [] \<Longrightarrow> ws \<noteq> [] \<Longrightarrow> join s (vs @ ws) = join s vs @ s @ join s ws"
proof (induction s vs rule: join.induct)
  case (2 s x)
  then show ?case by (cases ws) auto
qed auto

lemma last_of_join: "ws \<noteq> [] \<Longrightarrow> last ws \<noteq> [] \<Longrightarrow> last (join s ws) = last (last ws) \<and> join s ws \<noteq> []"
  by (induction s ws rule: join.induct) auto

lemma join_below:
  assumes "\<forall>c \<in> set (cs @ ds). plain_comp c" "cs \<noteq> []" "ds \<noteq> []"
  shows "path_join2 (abs_path cs) (join [SLASH] ds) = abs_path (cs @ ds)"
proof -
  have "last cs \<noteq> []" "SLASH \<notin> set (last cs)" using assms(1,2) by (auto simp: plain_comp_def)
  then have "last (abs_path cs) \<noteq> SLASH"
    using last_of_join [OF assms(2), of "[SLASH]"] last_in_set [of "last cs"]
    by (metis abs_path_def last_ConsR)
  then have "\<not> endswith (abs_path cs) [SLASH]"
    by (metis endswith_def append_take_drop_id last_snoc)
  moreover have "\<not> startswith (join [SLASH] ds) [SLASH]"
  proof -
    obtain d ds' where ds: "ds = d # ds'" using assms(3) by (cases ds) auto
    then obtain x d' where "d = x # d'" "x \<noteq> SLASH" using assms(1) by (cases d) (auto simp: plain_comp_def)
    then show ?thesis using ds by (cases ds') (auto simp: startswith_def)
  qed
  ultimately show ?thesis using assms(2,3) by (simp add: path_join2_def abs_path_def join_append)
qed

section \<open>fnmatch\<close>

datatype glob = Star | AnyChar | OneOf bool "(char \<times> char) list" | Lit char

fun class_ranges :: "string \<Rightarrow> (char \<times> char) list" where
  "class_ranges [] = []"
| "class_ranges [a] = [(a, a)]"
| "class_ranges [a, b] = [(a, a), (b, b)]"
| "class_ranges (a # d # b # s) =
     (if d = CHR ''-'' then (a, b) # class_ranges s else (a, a) # class_ranges (d # b # s))"

text \<open>What follows an opening bracket: negated or not, the characters, the rest of the pattern.\<close>

definition bracket :: "string \<Rightarrow> (bool \<times> string \<times> string) option" where
  "bracket s =
     (let neg = startswith s ''!''; s1 = (if neg then tl s else s);
          close = startswith s1 '']''; s2 = (if close then tl s1 else s1)
      in if CHR '']'' \<in> set s2
         then Some (neg, (if close then '']'' else []) @ takeWhile (\<lambda>c. c \<noteq> CHR '']'') s2,
                    tl (dropWhile (\<lambda>c. c \<noteq> CHR '']'') s2))
         else None)"

lemma length_dropWhile_tl: "length (tl (dropWhile P s)) \<le> length s"
  by (metis dual_order.trans length_dropWhile_le length_tl diff_le_self)

lemma bracket_shorter: "bracket s = Some (neg, body, rest) \<Longrightarrow> length rest \<le> length s"
  using length_dropWhile_tl [of "\<lambda>c. c \<noteq> CHR '']''" s] length_dropWhile_tl [of "\<lambda>c. c \<noteq> CHR '']''" "tl s"]
    length_dropWhile_tl [of "\<lambda>c. c \<noteq> CHR '']''" "tl (tl s)"]
  by (auto simp: bracket_def Let_def split: if_splits)

function glob_of :: "string \<Rightarrow> glob list" where
  "glob_of [] = []"
| "glob_of (c # s) =
     (if c = CHR ''*'' then Star # glob_of s
      else if c = CHR ''?'' then AnyChar # glob_of s
      else if c = CHR ''['' then
        (case bracket s of
           None \<Rightarrow> Lit c # glob_of s
         | Some (neg, body, rest) \<Rightarrow> OneOf neg (class_ranges body) # glob_of rest)
      else Lit c # glob_of s)"
  by pat_completeness auto
termination
  by (relation "measure length") (auto dest: bracket_shorter)

definition in_class :: "bool \<Rightarrow> (char \<times> char) list \<Rightarrow> char \<Rightarrow> bool" where
  "in_class neg rs c \<longleftrightarrow>
     neg \<noteq> list_ex (\<lambda>(a, b). (of_char a :: nat) \<le> of_char c \<and> (of_char c :: nat) \<le> of_char b) rs"

fun glob_match :: "glob list \<Rightarrow> string \<Rightarrow> bool" where
  "glob_match [] s \<longleftrightarrow> s = []"
| "glob_match (Star # g) [] \<longleftrightarrow> glob_match g []"
| "glob_match (Star # g) (c # s) \<longleftrightarrow> glob_match g (c # s) \<or> glob_match (Star # g) s"
| "glob_match (AnyChar # g) s \<longleftrightarrow> s \<noteq> [] \<and> glob_match g (tl s)"
| "glob_match (OneOf neg rs # g) s \<longleftrightarrow> s \<noteq> [] \<and> in_class neg rs (hd s) \<and> glob_match g (tl s)"
| "glob_match (Lit c # g) s \<longleftrightarrow> s \<noteq> [] \<and> hd s = c \<and> glob_match g (tl s)"

definition fnmatch_filter :: "string list \<Rightarrow> string \<Rightarrow> string list" where
  "fnmatch_filter names pat = filter (glob_match (glob_of pat)) names"

lemma glob_match_star: "glob_match (Star # g) s \<longleftrightarrow> (\<exists>a b. s = a @ b \<and> glob_match g b)"
proof (induction s)
  case (Cons c s)
  have "(\<exists>a b. c # s = a @ b \<and> glob_match g b) \<longleftrightarrow>
      glob_match g (c # s) \<or> (\<exists>a b. s = a @ b \<and> glob_match g b)"
    by (metis append_eq_Cons_conv)
  with Cons show ?case by simp
qed simp

text \<open>A pattern without special characters matches only itself.\<close>

definition no_glob :: "string \<Rightarrow> bool" where
  "no_glob p \<longleftrightarrow> CHR ''*'' \<notin> set p \<and> CHR ''?'' \<notin> set p \<and> CHR ''['' \<notin> set p"

lemma glob_of_plain: "no_glob p \<Longrightarrow> glob_of p = map Lit p"
  by (induction p) (auto simp: no_glob_def)

lemma glob_match_lits: "glob_match (map Lit p) s \<longleftrightarrow> s = p"
  by (induction p arbitrary: s) (case_tac [2] s, auto)

lemma fnmatch_plain: "no_glob p \<Longrightarrow> fnmatch_filter names p = filter (\<lambda>n. n = p) names"
  by (simp add: fnmatch_filter_def glob_of_plain glob_match_lits [abs_def])

end
