(* ===== verification/Ns3_Programs.thy ===== *)
theory Ns3_Programs
  imports Py_State Os_Path
begin

text \<open>
  The tables of the front end \<^verbatim>\<open>ns3\<close>: the names under which programs can be run
  (\<open>get_program_shortcuts\<close> and the check of \<open>main\<close> for ambiguous ones), the name of the CMake target that
  builds a program (\<open>get_target_to_build\<close>), the modules that can be built (\<open>check_lock_data\<close>) and the
  search for CMake's cache (\<open>search_cmake_cache\<close>). What the lock file assigns is a record; the files that exist
  are an argument.
\<close>

section \<open>Texts\<close>

text \<open>\<open>s.replace(old, new)\<close> of a text \<open>old\<close> that is not empty.\<close>

function replace_text :: "string \<Rightarrow> string \<Rightarrow> string \<Rightarrow> string" where
  "replace_text old new s =
     (if old \<noteq> [] \<and> startswith s old then new @ replace_text old new (drop (length old) s)
      else (case s of [] \<Rightarrow> [] | c # r \<Rightarrow> c # replace_text old new r))"
  by auto
termination
proof (relation "measure (\<lambda>(_, _, s). length s)")
  fix old new s :: string
  assume "old \<noteq> [] \<and> startswith s old"
  then have "s \<noteq> []" "old \<noteq> []" by (auto simp: startswith_def)
  then show "((old, new, drop (length old) s), old, new, s) \<in> measure (\<lambda>(_, _, s). length s)" by simp
qed auto

declare replace_text.simps [simp del]

lemma replace_text_set: "c \<in> set (replace_text old [] s) \<Longrightarrow> c \<in> set s"
proof (induction s rule: length_induct)
  case (1 s)
  show ?case
  proof (cases "old \<noteq> [] \<and> startswith s old")
    case True
    then have "length (drop (length old) s) < length s" by (cases s) (auto simp: startswith_def)
    moreover have "c \<in> set (replace_text old [] (drop (length old) s))"
      using 1(2) True by (simp add: replace_text.simps [of old "[]" s])
    ultimately show ?thesis using 1(1) by (meson in_set_dropD)
  next
    case False
    then have "replace_text old [] s = (case s of [] \<Rightarrow> [] | c # r \<Rightarrow> c # replace_text old [] r)"
      by (subst replace_text.simps) (simp only: if_False)
    with 1 show ?thesis by (cases s) auto
  qed
qed

abbreviation cut_path :: "string \<Rightarrow> string list" where "cut_path s \<equiv> split_on (CHR ''/'') s"
abbreviation join_path :: "string list \<Rightarrow> string" where "join_path ps \<equiv> join ''/'' ps"

section \<open>What the lock file assigns\<close>

record lock_data =
  enabled_modules :: "string list"
  contributed_modules :: "string list"
  build_profile :: "string option"
  ns3_version :: "string option"
  enable_examples :: bool
  enable_sudo :: bool
  enable_tests :: bool
  enable_bindings :: bool
  enable_scan :: bool
  lock_out_dir :: string
  runnable_programs :: "string list"
  runnable_scripts :: "string list"

text \<open>The values of \<open>build_info\<close> before the lock file is executed.\<close>

definition no_lock :: lock_data where
  "no_lock = \<lparr> enabled_modules = [], contributed_modules = [], build_profile = None, ns3_version = None,
     enable_examples = False, enable_sudo = False, enable_tests = False, enable_bindings = False, enable_scan = False,
     lock_out_dir = [], runnable_programs = [], runnable_scripts = [] \<rparr>"

text \<open>None for the modules without a lock file.\<close>

definition check_lock_data :: "lock_data option \<Rightarrow> lock_data \<times> string list option" where
  "check_lock_data lock = (case lock of
       None \<Rightarrow> (no_lock, None)
     | Some b \<Rightarrow> (b, (case enabled_modules b of
           [] \<Rightarrow> Some []
         | ms \<Rightarrow> (let ms = ms @ contributed_modules b;
               suffixed = (\<lambda>on suffix. if on then map (\<lambda>x. x @ suffix) ms else []) in
             Some (ms @ suffixed (enable_tests b) ''-test'' @ suffixed (enable_scan b) ''-apiscan''
               @ suffixed (enable_bindings b) ''-bindings'')))))"

section \<open>Names of programs\<close>

type_synonym program_map = "(string, string list) dict"

text \<open>
  The components of a program's path below the output directory, without the version and the profile in its
  name; in a directory below \<open>scratch\<close> also without the prefix made of the directories.
\<close>

definition plain_name :: "string \<Rightarrow> string \<Rightarrow> string \<Rightarrow> string" where
  "plain_name profile version name =
     replace_text (''ns'' @ version @ ''-'') [] (replace_text (CHR ''-'' # profile) [] name)"

definition program_path :: "string \<Rightarrow> string \<Rightarrow> string \<Rightarrow> string \<Rightarrow> py_error + string list" where
  "program_path out_dir profile version program = (let parts = tl (cut_path (replace_text out_dir [] program)) in
     if parts = [] then Inl IndexError
     else (let p = butlast parts @ [plain_name profile version (last parts)] in
       Inr (if ''scratch'' \<in> set p \<and> 3 < length p
         then butlast p @ [replace_text (join ''_'' (butlast (drop 2 p) @ [[]])) [] (last p)] else p)))"

text \<open>The dictionaries \<open>ns3_program_map\<close> and \<open>longest_shortcut_map\<close>.\<close>

definition note_shortcut :: "string \<Rightarrow> string \<Rightarrow> string \<Rightarrow> program_map \<times> program_map \<Rightarrow> program_map \<times> program_map" where
  "note_shortcut program longest s maps = (case maps of (m, l) \<Rightarrow>
     (AList.update s [program] m, AList.update s (dget_or [] s l @ [longest]) l))"

fun add_shortcuts :: "bool \<Rightarrow> string \<Rightarrow> string \<Rightarrow> string list \<Rightarrow> program_map \<times> program_map \<Rightarrow> program_map \<times> program_map" where
  "add_shortcuts source program longest [] maps = maps"
| "add_shortcuts source program longest (t # ts) maps = (let s = join_path (t # ts);
      longest' = (if longest = [] then s else longest);
      maps = note_shortcut program longest' s maps;
      maps = (if source then note_shortcut program longest' (s @ ''.cc'') maps else maps)
    in add_shortcuts source program longest' ts maps)"

text \<open>A source file beside the path counts as a name of the program.\<close>

definition has_source :: "(string \<Rightarrow> bool) \<Rightarrow> string \<Rightarrow> string list \<Rightarrow> bool" where
  "has_source file_exists ns3_path p = file_exists (path_join2 ns3_path (join_path p @ ''.cc''))"

definition add_program ::
  "(string \<Rightarrow> bool) \<Rightarrow> string \<Rightarrow> string \<Rightarrow> string \<Rightarrow> string \<Rightarrow> program_map \<times> program_map \<Rightarrow> string
     \<Rightarrow> py_error + program_map \<times> program_map" where
  "add_program file_exists ns3_path out_dir profile version maps program =
     (if contains program ''pch_exec'' then Inr maps
      else rbind (program_path out_dir profile version program) (\<lambda>p.
        Inr (add_shortcuts (has_source file_exists ns3_path p) (strip program) [] p maps)))"

definition filter_collisions :: "program_map \<times> program_map \<Rightarrow> program_map" where
  "filter_collisions maps = (case maps of (m, l) \<Rightarrow>
     fold (\<lambda>(s, ls) m. if 1 < length ls then AList.update s ls m else m) l m)"

fun add_script_names :: "string \<Rightarrow> string list \<Rightarrow> program_map \<Rightarrow> program_map" where
  "add_script_names program [] m = m"
| "add_script_names program (t # ts) m = add_script_names program ts (AList.update (join_path (t # ts)) [program] m)"

text \<open>The first component of a script's path is not taken off.\<close>

definition add_script :: "string \<Rightarrow> string \<Rightarrow> program_map \<Rightarrow> program_map" where
  "add_script ns3_path script m = add_script_names (strip script) (cut_path (replace_text ns3_path [] script)) m"

definition all_scripts :: "lock_data \<Rightarrow> string list \<Rightarrow> string list" where
  "all_scripts lock scratch_scripts =
     (if runnable_scripts lock = [] then [] else runnable_scripts lock @ scratch_scripts)"

definition get_program_shortcuts ::
  "(string \<Rightarrow> bool) \<Rightarrow> string list \<Rightarrow> string \<Rightarrow> string \<Rightarrow> lock_data \<Rightarrow> string \<Rightarrow> string \<Rightarrow> py_error + program_map" where
  "get_program_shortcuts file_exists scratch_scripts ns3_path out_dir lock profile version =
     rbind (rfold (add_program file_exists ns3_path out_dir profile version) ([], []) (runnable_programs lock)) (\<lambda>maps.
     Inr (fold (add_script ns3_path) (all_scripts lock scratch_scripts) (filter_collisions maps)))"

text \<open>A target that several programs answer to is refused with the longest names of each.\<close>

definition check_ambiguous_target :: "string \<Rightarrow> program_map \<Rightarrow> py_error + string" where
  "check_ambiguous_target t programs = (case map_of programs t of
       None \<Rightarrow> Inl KeyError
     | Some ps \<Rightarrow> if 1 < length ps then Inl (SystemExit 1) else py_index ps 0)"

definition find_program :: "(string \<Rightarrow> bool) \<Rightarrow> program_map \<Rightarrow> string \<Rightarrow> py_error + string" where
  "find_program file_exists programs t =
     (if has_key programs t then check_ambiguous_target t programs
      else if contains t ''.py'' \<and> file_exists t then Inr t
      else Inl (OtherError ''Couldn't find the specified program''))"

section \<open>CMake targets\<close>

text \<open>
  A pattern in which a dot stands for any character other than a newline, at the start of a text: what follows.
  The version goes into the pattern as it is.
\<close>

fun match_start :: "string \<Rightarrow> string \<Rightarrow> string option" where
  "match_start [] s = Some s"
| "match_start (c # p) [] = None"
| "match_start (c # p) (d # s) = (if d = c \<or> c = CHR ''.'' \<and> d \<noteq> NL then match_start p s else None)"

text \<open>\<open>(.*)p\<close> takes the last place where the pattern and what must follow it match.\<close>

definition last_match :: "string \<Rightarrow> (string \<Rightarrow> bool) \<Rightarrow> string \<Rightarrow> (string \<times> string) option" where
  "last_match p follows s =
     (case find (\<lambda>i. case match_start p (drop i s) of None \<Rightarrow> False | Some r \<Rightarrow> follows r) (rev [0..<Suc (length s)]) of
        None \<Rightarrow> None
      | Some i \<Rightarrow> map_option (\<lambda>r. (take i s, r)) (match_start p (drop i s)))"

definition profile_suffix :: "string \<Rightarrow> string" where
  "profile_suffix profile = (if profile = ''release'' then [] else CHR ''-'' # profile)"

text \<open>The two groups of \<open>(.*)ns\<open>version\<close>-(.*)\<open>suffix\<close>\<close>, for a text without a newline.\<close>

definition split_program_name :: "string \<Rightarrow> string \<Rightarrow> string \<Rightarrow> (string \<times> string) option" where
  "split_program_name version suffix path =
     (case last_match (''ns'' @ version @ ''-'') (\<lambda>r. last_match suffix (\<lambda>_. True) r \<noteq> None) path of
        None \<Rightarrow> None
      | Some (a, r) \<Rightarrow> map_option (\<lambda>(b, _). (a, b)) (last_match suffix (\<lambda>_. True) r))"

definition get_target_to_build :: "string \<Rightarrow> string \<Rightarrow> string \<Rightarrow> string \<Rightarrow> py_error + string option" where
  "get_target_to_build out_dir path version profile =
     (if contains path ''.py'' then Inr None
      else (case split_program_name version (profile_suffix profile) path of
          None \<Rightarrow> Inl (SystemExit 1)
        | Some (a, b) \<Rightarrow>
            if contains path ''scratch''
            then Inr (Some (tl (map (\<lambda>c. if c = CHR ''/'' then CHR ''_'' else c) (replace_text out_dir [] (a @ b)))))
            else Inr (Some (last (cut_path (a @ b))))))"

text \<open>The targets that are not programs, and the ones built for the elements of \<open>args.build\<close>, which grows in the loop.\<close>

definition non_executable_targets :: "string list" where
  "non_executable_targets = [''apiscan-all'', ''check-version'', ''cmake-format'', ''docs'', ''doxygen'', ''doxygen-no-build'',
     ''sphinx'', ''manual'', ''models'', ''timeTraceReport'', ''tutorial'', ''contributing'', ''install'', ''uninstall'']"

definition plain_target :: "string \<Rightarrow> string" where
  "plain_target t = (if t \<in> {''contributing'', ''manual'', ''models'', ''tutorial''} then ''sphinx_'' @ t
     else if t = ''docs'' then ''sphinx'' else t)"

definition target_for :: "string list \<Rightarrow> string \<Rightarrow> string \<Rightarrow> string \<Rightarrow> string \<Rightarrow> py_error + string option" where
  "target_for modules out_dir version profile t =
     (if t \<in> set modules then Inr (Some (''lib'' @ t))
      else if t \<notin> set non_executable_targets then get_target_to_build out_dir t version profile
      else Inr (Some (plain_target t)))"

function build_list :: "string list \<Rightarrow> string list \<Rightarrow> string list" where
  "build_list modules [] = []"
| "build_list modules (t # ts) =
     t # build_list modules (if t = ''docs'' \<and> t \<notin> set modules then ts @ [''doxygen''] else ts)"
  by pat_completeness auto
termination
  by (relation "measure (\<lambda>(_, ts). length ts + count_list ts ''docs'')") auto

section \<open>The cache of CMake\<close>

text \<open>One line, for a profile that the lock file gives or not; \<open>here\<close> is the directory of the file.\<close>

type_synonym cache_state = "string option \<times> string option"

definition given :: "string option \<Rightarrow> bool" where
  "given x = (case x of None \<Rightarrow> False | Some s \<Rightarrow> s \<noteq> [])"

definition scan_line :: "string option \<Rightarrow> string \<Rightarrow> cache_state \<Rightarrow> string \<Rightarrow> cache_state" where
  "scan_line profile here s line = (case s of (folder, gen) \<Rightarrow> (let value = last (split_on (CHR ''='') line) in
     (if contains line ''build_profile:INTERNAL'' \<and> (given profile \<longrightarrow> profile = Some value) then Some here else folder,
      if contains line ''CMAKE_GENERATOR:'' then Some value else gen)))"

definition complete :: "cache_state \<Rightarrow> bool" where
  "complete s = (given (fst s) \<and> given (snd s))"

fun scan_lines :: "string option \<Rightarrow> string \<Rightarrow> cache_state \<Rightarrow> string list \<Rightarrow> cache_state" where
  "scan_lines profile here s [] = s"
| "scan_lines profile here s (line # ls) = (if complete s then s else scan_lines profile here (scan_line profile here s line) ls)"

text \<open>The folder of a file is what \<open>dirname\<close> makes of its path.\<close>

fun scan_caches :: "string option \<Rightarrow> cache_state \<Rightarrow> (string \<times> string) list \<Rightarrow> cache_state" where
  "scan_caches profile s [] = s"
| "scan_caches profile s ((here, text) # fs) = (if complete s then s
     else scan_caches profile (scan_lines profile here (None, None) (split_on NL text)) fs)"

definition cmake_generators :: "(string \<times> string) list" where
  "cmake_generators = [(''ninja'', ''Ninja''), (''make'', ''Unix Makefiles''), (''xcodebuild'', ''Xcode'')]"

definition search_cmake_cache ::
  "(string \<Rightarrow> string option) \<Rightarrow> string option \<Rightarrow> (string \<times> string) list \<Rightarrow> py_error + string option \<times> string" where
  "search_cmake_cache which profile files = (case scan_caches profile (None, None) files of (folder, gen) \<Rightarrow>
     if given gen then Inr (folder, the gen)
     else (case filter (\<lambda>(program, _). given (which program)) cmake_generators of
         [] \<Rightarrow> Inl (OtherError ''No generator available.'')
       | (_, g) # _ \<Rightarrow> Inr (folder, g)))"

section \<open>What a name runs\<close>

fun tails :: "'a list \<Rightarrow> 'a list list" where
  "tails [] = []"
| "tails (x # xs) = (x # xs) # tails xs"

text \<open>The names a program of the given path answers to.\<close>

definition names :: "bool \<Rightarrow> string list \<Rightarrow> string list" where
  "names source p = concat (map (\<lambda>t. join_path t # (if source then [join_path t @ ''.cc''] else [])) (tails p))"

lemma names_simps [simp]:
  "names source [] = []"
  "names source (t # ts) = join_path (t # ts) # (if source then [join_path (t # ts) @ ''.cc''] else []) @ names source ts"
  by (simp_all add: names_def)

lemma add_shortcuts_later:
  "longest \<noteq> [] \<Longrightarrow> add_shortcuts source program longest p maps = fold (note_shortcut program longest) (names source p) maps"
  by (induction p arbitrary: maps) (simp_all add: Let_def)

lemma join_path_Nil: "join_path (t # ts) = [] \<longleftrightarrow> t = [] \<and> ts = []"
  by (cases ts) auto

lemma add_shortcuts_eq:
  "add_shortcuts source program [] p maps = fold (note_shortcut program (join_path p)) (names source p) maps"
proof (cases p)
  case (Cons t ts)
  show ?thesis
  proof (cases "join_path p = []")
    case True
    with Cons show ?thesis by (simp add: join_path_Nil)
  next
    case False
    with Cons show ?thesis by (simp add: add_shortcuts_later Let_def)
  qed
qed simp

text \<open>What the two dictionaries hold after a list of entries (name, program, longest name).\<close>

lemma noted:
  fixes xs :: "(string \<times> string \<times> string) list"
  defines "maps \<equiv> fold (\<lambda>(s, q, L). note_shortcut q L s) xs ([], [])"
  shows "map_of (fst maps) s = (case filter (\<lambda>x. fst x = s) xs of [] \<Rightarrow> None | hs \<Rightarrow> Some [fst (snd (last hs))])"
    and "map_of (snd maps) s = (case filter (\<lambda>x. fst x = s) xs of [] \<Rightarrow> None | hs \<Rightarrow> Some (map (snd \<circ> snd) hs))"
    and "distinct (dkeys (snd maps))"
proof -
  have "map_of (fst (fold (\<lambda>(s, q, L). note_shortcut q L s) xs ([], []))) s
        = (case filter (\<lambda>x. fst x = s) xs of [] \<Rightarrow> None | hs \<Rightarrow> Some [fst (snd (last hs))])
      \<and> map_of (snd (fold (\<lambda>(s, q, L). note_shortcut q L s) xs ([], []))) s
        = (case filter (\<lambda>x. fst x = s) xs of [] \<Rightarrow> None | hs \<Rightarrow> Some (map (snd \<circ> snd) hs))
      \<and> distinct (dkeys (snd (fold (\<lambda>(s, q, L). note_shortcut q L s) xs ([], []))))"
  proof (induction xs rule: rev_induct)
    case (snoc x xs)
    then show ?case
      by (auto simp: note_shortcut_def dget_or_def distinct_update split: prod.split list.splits)
  qed simp
  then show "map_of (fst maps) s = (case filter (\<lambda>x. fst x = s) xs of [] \<Rightarrow> None | hs \<Rightarrow> Some [fst (snd (last hs))])"
    "map_of (snd maps) s = (case filter (\<lambda>x. fst x = s) xs of [] \<Rightarrow> None | hs \<Rightarrow> Some (map (snd \<circ> snd) hs))"
    "distinct (dkeys (snd maps))"
    unfolding maps_def by blast+
qed

lemma filter_collisions_lookup:
  "distinct (dkeys l) \<Longrightarrow> map_of (filter_collisions (m, l)) s =
     (case map_of l s of None \<Rightarrow> map_of m s | Some ls \<Rightarrow> if 1 < length ls then Some ls else map_of m s)"
proof (induction l arbitrary: m)
  case (Cons x l)
  obtain k ls where x: "x = (k, ls)" by (cases x)
  have "map_of l k = None" using Cons.prems x by (metis has_key_iff distinct.simps(2) fst_conv list.simps(9))
  with Cons x show ?case by (auto simp: filter_collisions_def split: option.split)
qed (simp add: filter_collisions_def)

text \<open>A program answers to a name once: its names differ in the number of their components, or in the suffix.\<close>

abbreviation depth :: "string \<Rightarrow> nat" where "depth s \<equiv> count_list s (CHR ''/'')"

lemma depth_join: "p \<noteq> [] \<Longrightarrow> \<forall>w \<in> set p. CHR ''/'' \<notin> set w \<Longrightarrow> Suc (depth (join_path p)) = length p"
  by (induction "''/''" p rule: join.induct) (auto simp: count_notin)

lemma names_depth: "\<forall>w \<in> set p. CHR ''/'' \<notin> set w \<Longrightarrow> s \<in> set (names source p) \<Longrightarrow> depth s < length p"
proof (induction p)
  case (Cons t ts)
  have "depth (join_path (t # ts)) < length (t # ts)" using depth_join [of "t # ts"] Cons.prems(1) by simp
  with Cons show ?case by (auto split: if_splits)
qed simp

lemma program_names_distinct: "\<forall>w \<in> set p. CHR ''/'' \<notin> set w \<Longrightarrow> distinct (names source p)"
proof (induction p)
  case (Cons t ts)
  have d: "depth (join_path (t # ts)) = length ts" using depth_join [of "t # ts"] Cons.prems by simp
  moreover have "depth s < length ts" if "s \<in> set (names source ts)" for s
    using names_depth [OF _ that] Cons.prems by simp
  ultimately have "join_path (t # ts) \<notin> set (names source ts)" "join_path (t # ts) @ ''.cc'' \<notin> set (names source ts)"
    by (fastforce dest: names_depth)+
  with Cons show ?case by (cases source) simp_all
qed simp

lemma program_path_plain:
  assumes "program_path out_dir profile version program = Inr p" "w \<in> set p"
  shows "CHR ''/'' \<notin> set w"
proof -
  let ?parts = "tl (cut_path (replace_text out_dir [] program))"
  have part: "CHR ''/'' \<notin> set v" if "v \<in> set ?parts" for v
    using that split_on_no_sep_in by (metis list.set_sel(2) split_on_nonempty)
  have ne: "?parts \<noteq> []" using assms(1) by (auto simp: program_path_def Let_def)
  have "CHR ''/'' \<notin> set (plain_name profile version (last ?parts))"
    using part [of "last ?parts"] ne by (auto simp: plain_name_def dest!: replace_text_set)
  with part have q: "CHR ''/'' \<notin> set v" if "v \<in> set (butlast ?parts @ [plain_name profile version (last ?parts)])" for v
    using that by (auto dest: in_set_butlastD)
  have "CHR ''/'' \<notin> set (replace_text old [] (plain_name profile version (last ?parts)))" for old
    using \<open>CHR ''/'' \<notin> set (plain_name _ _ _)\<close> by (auto dest: replace_text_set)
  with q assms ne show ?thesis
    by (auto simp: program_path_def Let_def split: if_splits)
qed

text \<open>The programs that answer to a name, and the longest name of each.\<close>

definition answers :: "(string \<Rightarrow> bool) \<Rightarrow> string \<Rightarrow> string \<Rightarrow> string \<Rightarrow> string \<Rightarrow> string \<Rightarrow> string \<Rightarrow> bool" where
  "answers file_exists ns3_path out_dir profile version s program =
     (\<not> contains program ''pch_exec'' \<and> (case program_path out_dir profile version program of
        Inl _ \<Rightarrow> False
      | Inr p \<Rightarrow> s \<in> set (names (has_source file_exists ns3_path p) p)))"

definition longest_name :: "string \<Rightarrow> string \<Rightarrow> string \<Rightarrow> string \<Rightarrow> string" where
  "longest_name out_dir profile version program = (case program_path out_dir profile version program of
       Inl _ \<Rightarrow> []
     | Inr p \<Rightarrow> join_path p)"

definition script_answers :: "string \<Rightarrow> string \<Rightarrow> string \<Rightarrow> bool" where
  "script_answers ns3_path s script \<longleftrightarrow> s \<in> join_path ` set (tails (cut_path (replace_text ns3_path [] script)))"

definition entries ::
  "(string \<Rightarrow> bool) \<Rightarrow> string \<Rightarrow> string \<Rightarrow> string \<Rightarrow> string \<Rightarrow> string \<Rightarrow> (string \<times> string \<times> string) list" where
  "entries file_exists ns3_path out_dir profile version program =
     (if contains program ''pch_exec'' then [] else (case program_path out_dir profile version program of
        Inl _ \<Rightarrow> []
      | Inr p \<Rightarrow> map (\<lambda>s. (s, strip program, join_path p)) (names (has_source file_exists ns3_path p) p)))"

lemma add_programs_entries:
  assumes "rfold (add_program file_exists ns3_path out_dir profile version) maps ps = Inr maps'"
  shows "maps' = fold (\<lambda>(s, q, L). note_shortcut q L s)
      (concat (map (entries file_exists ns3_path out_dir profile version) ps)) maps"
  using assms
proof (induction ps arbitrary: maps)
  case (Cons q ps)
  then obtain m where m: "add_program file_exists ns3_path out_dir profile version maps q = Inr m"
    "rfold (add_program file_exists ns3_path out_dir profile version) m ps = Inr maps'" by (auto simp: rbind_iffs)
  then have "m = fold (\<lambda>(s, q, L). note_shortcut q L s) (entries file_exists ns3_path out_dir profile version q) maps"
    by (auto simp: add_program_def entries_def rbind_iffs add_shortcuts_eq fold_map o_def split: if_splits)
  with Cons.IH [OF m(2)] show ?case by simp
qed simp

lemma filter_distinct: "distinct xs \<Longrightarrow> filter (\<lambda>x. x = y) xs = (if y \<in> set xs then [y] else [])"
  by (induction xs) auto

lemma entries_for:
  "filter (\<lambda>x. fst x = s) (entries file_exists ns3_path out_dir profile version q) =
     (if answers file_exists ns3_path out_dir profile version s q
      then [(s, strip q, longest_name out_dir profile version q)] else [])"
proof -
  have "filter (\<lambda>x. x = s) (names b p) = (if s \<in> set (names b p) then [s] else [])"
    if "program_path out_dir profile version q = Inr p" for b p
    using program_path_plain [OF that] by (intro filter_distinct program_names_distinct) auto
  then show ?thesis
    by (auto simp: entries_def answers_def longest_name_def filter_map o_def split: sum.split)
qed

lemma all_entries_for:
  "filter (\<lambda>x. fst x = s) (concat (map (entries file_exists ns3_path out_dir profile version) ps)) =
     map (\<lambda>q. (s, strip q, longest_name out_dir profile version q))
       (filter (answers file_exists ns3_path out_dir profile version s) ps)"
  by (induction ps) (simp_all add: entries_for)

lemma add_script_lookup:
  "map_of (add_script ns3_path script m) s =
     (if script_answers ns3_path s script then Some [strip script] else map_of m s)"
proof -
  have "map_of (add_script_names q p m) s = (if s \<in> join_path ` set (tails p) then Some [q] else map_of m s)" for q p
    by (induction p arbitrary: m) auto
  then show ?thesis by (simp add: add_script_def script_answers_def)
qed

lemma add_scripts_lookup:
  "map_of (fold (add_script ns3_path) scripts m) s =
     (case rev (filter (script_answers ns3_path s) scripts) of [] \<Rightarrow> map_of m s | script # _ \<Rightarrow> Some [strip script])"
  by (induction scripts rule: rev_induct) (auto simp: add_script_lookup)

text \<open>
  What a name stands for: the last script that answers to it, if there is one; otherwise the program
  that answers to it if there is exactly one, and the longest names of all of them, in their order, if there
  are several.
\<close>

lemma shortcuts_resolve_lemma:
  assumes "get_program_shortcuts file_exists scratch_scripts ns3_path out_dir lock profile version = Inr programs"
  shows "map_of programs s =
     (case rev (filter (script_answers ns3_path s) (all_scripts lock scratch_scripts)) of
        script # _ \<Rightarrow> Some [strip script]
      | [] \<Rightarrow> (case filter (answers file_exists ns3_path out_dir profile version s) (runnable_programs lock) of
            [] \<Rightarrow> None
          | [q] \<Rightarrow> Some [strip q]
          | qs \<Rightarrow> Some (map (longest_name out_dir profile version) qs)))"
proof -
  let ?xs = "concat (map (entries file_exists ns3_path out_dir profile version) (runnable_programs lock))"
  let ?maps = "fold (\<lambda>(s, q, L). note_shortcut q L s) ?xs ([], [])"
  obtain maps where "rfold (add_program file_exists ns3_path out_dir profile version) ([], []) (runnable_programs lock) = Inr maps"
    and p: "programs = fold (add_script ns3_path) (all_scripts lock scratch_scripts) (filter_collisions maps)"
    using assms by (auto simp: get_program_shortcuts_def rbind_iffs)
  then have "maps = (fst ?maps, snd ?maps)" using add_programs_entries by simp
  then have "map_of (filter_collisions maps) s =
      (case map_of (snd ?maps) s of None \<Rightarrow> map_of (fst ?maps) s
       | Some ls \<Rightarrow> if 1 < length ls then Some ls else map_of (fst ?maps) s)"
    using filter_collisions_lookup [OF noted(3)] by metis
  then have "map_of (filter_collisions maps) s =
      (case filter (answers file_exists ns3_path out_dir profile version s) (runnable_programs lock) of
         [] \<Rightarrow> None | [q] \<Rightarrow> Some [strip q] | qs \<Rightarrow> Some (map (longest_name out_dir profile version) qs))"
    unfolding noted(1,2) all_entries_for by (auto split: list.split)
  with p show ?thesis by (simp add: add_scripts_lookup split: list.split)
qed

text \<open>The table is made whenever each program lies below the output directory.\<close>

lemma shortcuts_total:
  "(\<exists>programs. get_program_shortcuts file_exists scratch_scripts ns3_path out_dir lock profile version = Inr programs)
     \<longleftrightarrow> (\<forall>q \<in> set (runnable_programs lock). contains q ''pch_exec'' \<or> SLASH \<in> set (replace_text out_dir [] q))"
proof -
  have cut: "tl (cut_path x) \<noteq> [] \<longleftrightarrow> SLASH \<in> set x" for x
  proof
    show "SLASH \<in> set x \<Longrightarrow> tl (cut_path x) \<noteq> []"
      by (metis split_list split_on_append_sep append_is_Nil_conv split_on_nonempty tl_append2)
  next
    show "tl (cut_path x) \<noteq> [] \<Longrightarrow> SLASH \<in> set x" by (metis list.sel(3) split_on_nosep)
  qed
  have "(\<exists>m. add_program file_exists ns3_path out_dir profile version maps q = Inr m)
      \<longleftrightarrow> contains q ''pch_exec'' \<or> SLASH \<in> set (replace_text out_dir [] q)" for maps q
    by (auto simp: add_program_def program_path_def Let_def cut [symmetric] rbind_iffs)
  then have "(\<exists>m. rfold (add_program file_exists ns3_path out_dir profile version) maps qs = Inr m)
      \<longleftrightarrow> (\<forall>q \<in> set qs. contains q ''pch_exec'' \<or> SLASH \<in> set (replace_text out_dir [] q))" for maps qs
    by (induction qs arbitrary: maps) (auto simp: rbind_iffs, metis+)
  then show ?thesis by (auto simp: get_program_shortcuts_def rbind_iffs)
qed

text \<open>
  What is run: a target that names one program, or a script, gives its path; one that names several programs is
  refused with exit status 1, whatever their number.
\<close>

lemma find_program_cases:
  assumes "get_program_shortcuts file_exists scratch_scripts ns3_path out_dir lock profile version = Inr programs"
    and "filter (script_answers ns3_path s) (all_scripts lock scratch_scripts) = []"
  shows "find_program file_exists programs s =
     (case filter (answers file_exists ns3_path out_dir profile version s) (runnable_programs lock) of
        [] \<Rightarrow> if contains s ''.py'' \<and> file_exists s then Inr s
             else Inl (OtherError ''Couldn't find the specified program'')
      | [q] \<Rightarrow> Inr (strip q)
      | _ \<Rightarrow> Inl (SystemExit 1))"
proof -
  have "map_of programs s = (case filter (answers file_exists ns3_path out_dir profile version s) (runnable_programs lock) of
            [] \<Rightarrow> None | [q] \<Rightarrow> Some [strip q] | qs \<Rightarrow> Some (map (longest_name out_dir profile version) qs))"
    using shortcuts_resolve_lemma [OF assms(1), of s] assms(2) by simp
  then show ?thesis
    by (auto simp: find_program_def check_ambiguous_target_def py_index_def split: list.split)
qed

section \<open>The target of a program\<close>

lemma match_start_refl: "NL \<notin> set p \<Longrightarrow> match_start p (p @ s) = Some s"
  by (induction p) auto

lemma match_start_short: "match_start p s = Some r \<Longrightarrow> length s = length p + length r"
  by (induction p s rule: match_start.induct) (auto split: if_splits)

lemma find_last:
  "i \<le> n \<Longrightarrow> P i \<Longrightarrow> (\<And>j. i < j \<Longrightarrow> j \<le> n \<Longrightarrow> \<not> P j) \<Longrightarrow> find P (rev [0..<Suc n]) = Some i"
proof (induction n)
  case (Suc n)
  have "rev [0..<Suc (Suc n)] = Suc n # rev [0..<Suc n]" by simp
  then show ?case using Suc by (cases "i = Suc n") (auto simp del: upt_Suc simp: le_Suc_eq)
qed simp

lemma last_matchI:
  assumes "i \<le> length s" "match_start p (drop i s) = Some r" "follows r"
    and "\<And>j r'. i < j \<Longrightarrow> j \<le> length s \<Longrightarrow> match_start p (drop j s) = Some r' \<Longrightarrow> \<not> follows r'"
  shows "last_match p follows s = Some (take i s, r)"
proof -
  have "find (\<lambda>i. case match_start p (drop i s) of None \<Rightarrow> False | Some r \<Rightarrow> follows r) (rev [0..<Suc (length s)]) = Some i"
    using assms by (intro find_last) (auto split: option.split)
  then show ?thesis using assms(2) by (simp add: last_match_def del: upt_Suc)
qed

text \<open>At the end of a text its suffix is the last match of the suffix.\<close>

lemma last_match_suffix:
  assumes "NL \<notin> set q"
  shows "last_match q (\<lambda>_. True) (b @ q) = Some (b, [])"
proof -
  have "last_match q (\<lambda>_. True) (b @ q) = Some (take (length b) (b @ q), [])"
  proof (rule last_matchI)
    show "match_start q (drop (length b) (b @ q)) = Some []" using match_start_refl [OF assms, of "[]"] by simp
  qed (auto dest!: match_start_short)
  then show ?thesis by simp
qed

lemma split_program_name_parts:
  assumes "NL \<notin> set version" "NL \<notin> set suffix"
    and "\<forall>j. 0 < j \<longrightarrow> match_start (''ns'' @ version @ ''-'') (drop j (''ns'' @ version @ ''-'' @ name @ suffix)) = None"
  shows "split_program_name version suffix (dir @ ''ns'' @ version @ ''-'' @ name @ suffix) = Some (dir, name)"
proof -
  let ?p = "''ns'' @ version @ ''-''" and ?s = "dir @ ''ns'' @ version @ ''-'' @ name @ suffix"
  let ?follows = "\<lambda>r. last_match suffix (\<lambda>_. True) r \<noteq> None"
  have p: "NL \<notin> set ?p" using assms(1) by (simp add: NL_def)
  have f: "last_match suffix (\<lambda>_. True) (name @ suffix) = Some (name, [])" by (rule last_match_suffix [OF assms(2)])
  have "last_match ?p ?follows ?s = Some (take (length dir) ?s, name @ suffix)"
  proof (rule last_matchI)
    show "match_start ?p (drop (length dir) ?s) = Some (name @ suffix)"
      using match_start_refl [OF p, of "name @ suffix"] by simp
    show "?follows (name @ suffix)" using f by simp
    fix j r
    assume "length dir < j" "match_start ?p (drop j ?s) = Some r"
    moreover from this(1) have "drop j ?s = drop (j - length dir) (''ns'' @ version @ ''-'' @ name @ suffix)" by simp
    ultimately show "\<not> ?follows r" using assms(3) by simp
  qed simp
  then show ?thesis by (simp add: split_program_name_def f)
qed

lemma not_contains_tail: "\<not> contains (c # s) old \<Longrightarrow> \<not> startswith (c # s) old \<and> \<not> contains s old"
  by simp

lemma replace_absent: "\<not> contains s old \<Longrightarrow> replace_text old new s = s"
  by (induction s) (simp_all add: replace_text.simps [of old new "[]"] replace_text.simps [of old new "_ # _"] startswith_def)

lemma replace_prefix: "old \<noteq> [] \<Longrightarrow> \<not> contains s old \<Longrightarrow> replace_text old [] (old @ s) = s"
  by (simp add: replace_text.simps [of old "[]" "old @ s"] replace_absent)

text \<open>
  The target of a program is its plain name; below \<open>scratch\<close> it is the whole path below the output directory with
  underscores, so that scratch programs of one name in two directories have two targets.
\<close>

lemma program_target:
  assumes "NL \<notin> set version" "NL \<notin> set profile"
    and "\<forall>j. 0 < j \<longrightarrow> match_start (''ns'' @ version @ ''-'')
        (drop j (''ns'' @ version @ ''-'' @ name @ profile_suffix profile)) = None"
    and path: "path = dir @ ''/ns'' @ version @ ''-'' @ name @ profile_suffix profile" "\<not> contains path ''.py''"
  shows "\<not> contains path ''scratch'' \<Longrightarrow> SLASH \<notin> set name \<Longrightarrow> get_target_to_build out_dir path version profile = Inr (Some name)"
    and "contains path ''scratch'' \<Longrightarrow> dir = out_dir @ SLASH # sub \<Longrightarrow> out_dir \<noteq> [] \<Longrightarrow> \<not> contains (SLASH # sub @ SLASH # name) out_dir \<Longrightarrow>
      get_target_to_build out_dir path version profile =
        Inr (Some (map (\<lambda>c. if c = SLASH then CHR ''_'' else c) (sub @ SLASH # name)))"
proof -
  have "NL \<notin> set (profile_suffix profile)" using assms(2) by (auto simp: profile_suffix_def NL_def)
  from split_program_name_parts [OF assms(1) this assms(3), of "dir @ [SLASH]"] path(1)
  have s: "split_program_name version (profile_suffix profile) path = Some (dir @ [SLASH], name)" by simp
  show "\<not> contains path ''scratch'' \<Longrightarrow> SLASH \<notin> set name \<Longrightarrow> get_target_to_build out_dir path version profile = Inr (Some name)"
    using path(2) by (simp add: get_target_to_build_def s split_on_append_sep split_on_nosep)
  assume "contains path ''scratch''" and d: "dir = out_dir @ SLASH # sub" "out_dir \<noteq> []"
    "\<not> contains (SLASH # sub @ SLASH # name) out_dir"
  then have "replace_text out_dir [] (dir @ SLASH # name) = SLASH # sub @ SLASH # name"
    using replace_prefix [of out_dir "SLASH # sub @ SLASH # name"] by simp
  with \<open>contains path ''scratch''\<close> path(2)
  show "get_target_to_build out_dir path version profile =
      Inr (Some (map (\<lambda>c. if c = SLASH then CHR ''_'' else c) (sub @ SLASH # name)))"
    by (simp add: get_target_to_build_def s)
qed

lemma build_list_eq:
  "''docs'' \<notin> set modules \<Longrightarrow> build_list modules ts = ts @ replicate (count_list ts ''docs'') ''doxygen''"
proof (induction modules ts rule: build_list.induct)
  case (2 modules t ts)
  then show ?case by (auto simp: replicate_append_same)
qed simp

section \<open>Which cache is found\<close>

definition cache_of :: "string option \<Rightarrow> string \<times> string \<Rightarrow> cache_state" where
  "cache_of profile f = scan_lines profile (fst f) (None, None) (split_on NL (snd f))"

text \<open>The first file that gives both the folder and a generator, and else what the last file gives.\<close>

lemma scan_caches_eq:
  "scan_caches profile (None, None) files = (case find (\<lambda>f. complete (cache_of profile f)) files of
     Some f \<Rightarrow> cache_of profile f
   | None \<Rightarrow> if files = [] then (None, None) else cache_of profile (last files))"
proof -
  have "scan_caches profile s files = (case find (\<lambda>f. complete (cache_of profile f)) files of
      Some f \<Rightarrow> cache_of profile f
    | None \<Rightarrow> if files = [] then s else cache_of profile (last files))" if "\<not> complete s" for s
    using that
  proof (induction files arbitrary: s)
    case (Cons f fs)
    obtain here content where f: "f = (here, content)" by (cases f)
    show ?case
    proof (cases "complete (cache_of profile f)")
      case True
      with Cons.prems f show ?thesis by (cases fs) (auto simp: cache_of_def)
    next
      case False
      with Cons f show ?thesis by (auto simp: cache_of_def split: option.split)
    qed
  qed simp
  then show ?thesis by (simp add: complete_def given_def)
qed

text \<open>A folder that is found is that of a cache with a line for the profile asked for.\<close>

definition has_profile :: "string option \<Rightarrow> string \<Rightarrow> bool" where
  "has_profile profile text \<longleftrightarrow> (\<exists>line \<in> set (split_on NL text). contains line ''build_profile:INTERNAL'' \<and>
     (given profile \<longrightarrow> profile = Some (last (split_on (CHR ''='') line))))"

lemma cache_of_folder:
  assumes "fst (cache_of profile (here, text)) = Some d"
  shows "d = here \<and> has_profile profile text"
proof -
  have "fst (scan_lines profile here s ls) = Some d \<Longrightarrow> fst s = Some d \<or> d = here \<and> (\<exists>line \<in> set ls.
      contains line ''build_profile:INTERNAL'' \<and> (given profile \<longrightarrow> profile = Some (last (split_on (CHR ''='') line))))" for s ls
  proof (induction ls arbitrary: s)
    case (Cons l ls)
    show ?case
    proof (cases "complete s")
      case False
      with Cons.prems have "fst (scan_lines profile here (scan_line profile here s l) ls) = Some d" by simp
      from Cons.IH [OF this] show ?thesis by (auto simp: scan_line_def Let_def split: prod.splits if_splits)
    qed (use Cons.prems in simp)
  qed simp
  from this [of "(None, None)" "split_on NL text"] assms show ?thesis by (auto simp: cache_of_def has_profile_def)
qed

lemma cache_found:
  assumes "search_cmake_cache which_program profile files = Inr (Some d, g)"
  shows "\<exists>text. (d, text) \<in> set files \<and> has_profile profile text"
proof -
  have "fst (scan_caches profile (None, None) files) = Some d"
    using assms by (auto simp: search_cmake_cache_def split: prod.splits if_splits list.splits)
  moreover have "scan_caches profile (None, None) files = (None, None) \<or>
      (\<exists>f \<in> set files. scan_caches profile (None, None) files = cache_of profile f)"
    unfolding scan_caches_eq by (auto split: option.split simp: find_Some_iff intro: last_in_set nth_mem)
  ultimately obtain f where "f \<in> set files" "fst (cache_of profile f) = Some d" by auto
  then show ?thesis using cache_of_folder [of profile "fst f" "snd f" d] by (metis prod.collapse)
qed

section \<open>Names as the user sees them\<close>

text \<open>
  Claim C39. What a name stands for: the last script that answers to it, if there is one; otherwise the program
  that answers to it if there is exactly one, and the longest names of all of them, in their order, if there
  are several.
\<close>

theorem shortcuts_resolve:
  assumes "get_program_shortcuts file_exists scratch_scripts ns3_path out_dir lock profile version = Inr programs"
  shows "map_of programs s =
     (case rev (filter (script_answers ns3_path s) (all_scripts lock scratch_scripts)) of
        script # _ \<Rightarrow> Some [strip script]
      | [] \<Rightarrow> (case filter (answers file_exists ns3_path out_dir profile version s) (runnable_programs lock) of
            [] \<Rightarrow> None
          | [q] \<Rightarrow> Some [strip q]
          | qs \<Rightarrow> Some (map (longest_name out_dir profile version) qs)))"
  using shortcuts_resolve_lemma [OF assms] .

text \<open>A project with a scratch program, two programs of one name, and a script.\<close>

definition sample_lock :: lock_data where
  "sample_lock = \<lparr> enabled_modules = [''core''], contributed_modules = [], build_profile = Some ''debug'', ns3_version = Some ''3'',
     enable_examples = True, enable_sudo = False, enable_tests = False, enable_bindings = False, enable_scan = False,
     lock_out_dir = ''/n/build'',
     runnable_programs = [''/n/build/scratch/ns3-hi-debug'', ''/n/build/src/aodv/ns3-go-debug'', ''/n/build/src/olsr/ns3-go-debug''],
     runnable_scripts = [''/n/src/aodv/run.py''] \<rparr>"

lemma sample_programs:
  "get_program_shortcuts (\<lambda>p. p = ''/n/scratch/hi.cc'') [] ''/n'' ''/n/build'' sample_lock ''debug'' ''3'' = Inr
     [(''scratch/hi'', [''/n/build/scratch/ns3-hi-debug'']), (''scratch/hi.cc'', [''/n/build/scratch/ns3-hi-debug'']),
      (''hi'', [''/n/build/scratch/ns3-hi-debug'']), (''hi.cc'', [''/n/build/scratch/ns3-hi-debug'']),
      (''src/aodv/go'', [''/n/build/src/aodv/ns3-go-debug'']), (''aodv/go'', [''/n/build/src/aodv/ns3-go-debug'']),
      (''go'', [''src/aodv/go'', ''src/olsr/go'']), (''src/olsr/go'', [''/n/build/src/olsr/ns3-go-debug'']),
      (''olsr/go'', [''/n/build/src/olsr/ns3-go-debug'']), (''/src/aodv/run.py'', [''/n/src/aodv/run.py'']),
      (''src/aodv/run.py'', [''/n/src/aodv/run.py'']), (''aodv/run.py'', [''/n/src/aodv/run.py'']), (''run.py'', [''/n/src/aodv/run.py''])]"
  by code_simp

theorem shortcuts_resolve_witness:
  "\<exists>programs. get_program_shortcuts (\<lambda>p. p = ''/n/scratch/hi.cc'') [] ''/n'' ''/n/build'' sample_lock ''debug'' ''3'' = Inr programs
     \<and> map_of programs ''go'' = (case rev (filter (script_answers ''/n'' ''go'') (all_scripts sample_lock [])) of
        script # _ \<Rightarrow> Some [strip script]
      | [] \<Rightarrow> (case filter (answers (\<lambda>p. p = ''/n/scratch/hi.cc'') ''/n'' ''/n/build'' ''debug'' ''3'' ''go'') (runnable_programs sample_lock) of
            [] \<Rightarrow> None
          | [q] \<Rightarrow> Some [strip q]
          | qs \<Rightarrow> Some (map (longest_name ''/n/build'' ''debug'' ''3'') qs)))
     \<and> map_of programs ''go'' = Some [''src/aodv/go'', ''src/olsr/go'']"
  using shortcuts_resolve [OF sample_programs, of "''go''"] sample_programs by auto

text \<open>A script hides a program of its name, and an earlier script, without a word.\<close>

lemma script_hides_program:
  assumes "get_program_shortcuts file_exists scratch_scripts ns3_path out_dir lock profile version = Inr programs"
    and "filter (script_answers ns3_path s) (all_scripts lock scratch_scripts) = [a, b]"
  shows "map_of programs s = Some [strip b]"
  using shortcuts_resolve_lemma [OF assms(1), of s] assms(2) by simp

end
