(* ===== verification/Py_Number.thy ===== *)
theory Py_Number
  imports Complex_Main Py_Prelude
begin

text \<open>
  \<open>int\<close> and \<open>float\<close> of a text in decimal notation, and that they read back what is printed. Floats are rational
  numbers; the texts of infinities and of \<open>nan\<close> are left out.
\<close>

section \<open>\<open>int\<close> and \<open>float\<close> of a text\<close>

text \<open>Digits, with single underscores between them.\<close>

definition digit_part :: "string \<Rightarrow> string option" where
  "digit_part s = (let gs = split_on (CHR ''_'') s in
     if list_all (\<lambda>g. g \<noteq> [] \<and> list_all is_digit g) gs then Some (concat gs) else None)"

definition sign_of :: "string \<Rightarrow> int \<times> string" where
  "sign_of s = (case s of [] \<Rightarrow> (1, [])
     | c # r \<Rightarrow> if c = CHR ''-'' then (- 1, r) else if c = CHR ''+'' then (1, r) else (1, s))"

definition signed_digits :: "string \<Rightarrow> int option" where
  "signed_digits s = (case sign_of s of (g, d) \<Rightarrow> map_option (\<lambda>w. g * int (read_nat w)) (digit_part d))"

definition py_int :: "string \<Rightarrow> py_error + int" where
  "py_int s = (case signed_digits (strip s) of None \<Rightarrow> Inl ValueError | Some i \<Rightarrow> Inr i)"

definition fraction_part :: "string \<Rightarrow> string option" where
  "fraction_part s = (if s = [] then Some [] else digit_part s)"

definition mantissa :: "string \<Rightarrow> rat option" where
  "mantissa s = (case split_on (CHR ''.'') s of
       [a] \<Rightarrow> map_option (\<lambda>w. of_nat (read_nat w)) (digit_part a)
     | [a, b] \<Rightarrow> if a = [] \<and> b = [] then None else (case (fraction_part a, fraction_part b) of
           (Some v, Some w) \<Rightarrow> Some (of_nat (read_nat (v @ w)) / 10 ^ length w)
         | _ \<Rightarrow> None)
     | _ \<Rightarrow> None)"

definition exponent_sign :: "char \<Rightarrow> bool" where
  "exponent_sign c \<longleftrightarrow> c = CHR ''e'' \<or> c = CHR ''E''"

definition exponent :: "string \<Rightarrow> int option" where
  "exponent s = (case s of [] \<Rightarrow> Some 0 | _ # r \<Rightarrow> signed_digits r)"

definition scaled :: "rat \<Rightarrow> int \<Rightarrow> rat" where
  "scaled v e = (if 0 \<le> e then v * 10 ^ nat e else v / 10 ^ nat (- e))"

definition py_float :: "string \<Rightarrow> py_error + rat" where
  "py_float s = (case sign_of (strip s) of (g, b) \<Rightarrow>
     (case (mantissa (takeWhile (\<lambda>c. \<not> exponent_sign c) b), exponent (dropWhile (\<lambda>c. \<not> exponent_sign c) b)) of
        (Some v, Some e) \<Rightarrow> Inr (of_int g * scaled v e)
      | _ \<Rightarrow> Inl ValueError))"

section \<open>Numbers read back\<close>

lemma digit_not:
  assumes "is_digit c" shows "\<not> is_space c" "c \<noteq> CHR ''_''" "c \<noteq> CHR ''-''" "c \<noteq> CHR ''+''" "c \<noteq> CHR ''.''" "\<not> exponent_sign c"
  using assms by (auto simp: is_digit_def is_space_def exponent_sign_def)

lemma strip_word: "w \<noteq> [] \<Longrightarrow> list_all (\<lambda>c. \<not> is_space c) w \<Longrightarrow> strip w = w"
  by (cases w; cases "rev w") (auto simp: strip_def lstrip_def rstrip_def list_all_iff append_eq_Cons_conv)

lemma digits_without:
  "list_all is_digit w \<Longrightarrow> CHR ''_'' \<notin> set w"
  "list_all is_digit w \<Longrightarrow> CHR ''.'' \<notin> set w"
  "list_all is_digit w \<Longrightarrow> list_all (\<lambda>c. \<not> is_space c) w"
  "list_all is_digit w \<Longrightarrow> c \<in> set w \<Longrightarrow> \<not> exponent_sign c"
  by (auto simp: list_all_iff dest: digit_not)

lemma digit_part_digits: "list_all is_digit w \<Longrightarrow> w \<noteq> [] \<Longrightarrow> digit_part w = Some w"
  by (simp add: digit_part_def split_on_nosep digits_without(1))

lemma sign_of_digits: "list_all is_digit w \<Longrightarrow> sign_of w = (1, w)"
  by (cases w) (auto simp: sign_of_def dest: digit_not)

lemma no_exponent:
  assumes "list_all is_digit w"
  shows "takeWhile (\<lambda>c. \<not> exponent_sign c) w = w" "dropWhile (\<lambda>c. \<not> exponent_sign c) w = []"
  using digits_without(4) [OF assms] by (auto simp: takeWhile_eq_all_conv dropWhile_eq_Nil_conv)

lemma py_int_show [simp]: "py_int (show_nat n) = Inr (int n)"
proof -
  have d: "list_all is_digit (show_nat n)" "show_nat n \<noteq> []" using show_nat_digits [of n] by auto
  show ?thesis using d
    by (simp add: py_int_def signed_digits_def strip_word digits_without(3) sign_of_digits digit_part_digits)
qed

lemma mantissa_digits: "list_all is_digit w \<Longrightarrow> w \<noteq> [] \<Longrightarrow> mantissa w = Some (of_nat (read_nat w))"
  by (simp add: mantissa_def split_on_nosep digits_without(2) digit_part_digits)

lemma py_float_digits:
  "sign_of (strip s) = (g, w) \<Longrightarrow> list_all is_digit w \<Longrightarrow> w \<noteq> [] \<Longrightarrow> py_float s = Inr (of_int g * of_nat (read_nat w))"
  by (simp add: py_float_def no_exponent mantissa_digits exponent_def scaled_def)

lemma py_float_show [simp]: "py_float (show_nat n) = Inr (of_nat n)"
proof -
  have d: "list_all is_digit (show_nat n)" "show_nat n \<noteq> []" using show_nat_digits [of n] by auto
  then have "sign_of (strip (show_nat n)) = (1, show_nat n)" by (simp add: strip_word digits_without(3) sign_of_digits)
  from py_float_digits [OF this d] show ?thesis by simp
qed

lemma py_float_plus: "py_float (CHR ''+'' # show_nat n) = Inr (of_nat n)"
proof -
  have d: "list_all is_digit (show_nat n)" "show_nat n \<noteq> []" using show_nat_digits [of n] by auto
  have "\<not> is_space (CHR ''+'')" by (simp add: is_space_def)
  with d(1) have "sign_of (strip (CHR ''+'' # show_nat n)) = (1, show_nat n)"
    by (simp add: strip_word digits_without(3)) (simp add: sign_of_def)
  from py_float_digits [OF this d] show ?thesis by simp
qed

end
