(* ===== verification/Ns3_Driver.thy ===== *)
theory Ns3_Driver
  imports Ns3_Programs Py_Number
begin

text \<open>
  The steps of the front end \<^verbatim>\<open>ns3\<close>: cleaning, configuring, building, running, setting the owner of programs,
  and \<open>main\<close>, which chooses among them. The system they act on has a state of its own: a record of functions
  says what is read of it and what the operations make of it. What argparse returns is the record \<open>options\<close>.
  \<open>exit\<close> is the exception \<open>SystemExit\<close>. A command that is announced to the user is the command itself, with
  absolute paths where the text has paths relative to the directory of ns-3.
\<close>

section \<open>The system\<close>

record 'w system =
  which :: "'w \<Rightarrow> string \<Rightarrow> string option"
  file_exists :: "'w \<Rightarrow> string \<Rightarrow> bool"
  read_text :: "'w \<Rightarrow> string \<Rightarrow> string option"
  cache_files :: "'w \<Rightarrow> (string \<times> string) list"
  scratch_sources :: "'w \<Rightarrow> string list"
  scratch_scripts :: "'w \<Rightarrow> string list"
  lock_file :: "'w \<Rightarrow> lock_data option"
  cmake_version :: "'w \<Rightarrow> string"
  is_suid :: "'w \<Rightarrow> string \<Rightarrow> bool"
  run_command :: "string list \<Rightarrow> string \<Rightarrow> 'w \<Rightarrow> int \<times> 'w"
  sudo_command :: "string list \<Rightarrow> 'w \<Rightarrow> (py_error + string) \<times> 'w"
  rmtree :: "string \<Rightarrow> 'w \<Rightarrow> 'w"
  remove_file :: "string \<Rightarrow> 'w \<Rightarrow> 'w"
  make_dir :: "string \<Rightarrow> 'w \<Rightarrow> 'w"
  write_file :: "string \<Rightarrow> string \<Rightarrow> 'w \<Rightarrow> 'w"
  json_dump :: "(string, string) dict \<Rightarrow> string"
  json_load :: "string \<Rightarrow> (string, string) dict"

text \<open>Announced commands, the elements of \<open>print_buffer\<close>.\<close>

datatype announced =
    Rm_Tree string | Rm_File string | Make_Dir string
  | In_Dir string "string list"
  | Run_In string "(string \<times> string) list" "string list"
  | Own_Suid string

record 'w front =
  sys :: 'w
  printed :: "string list"
  print_buffer :: "announced list"
  verbose_run :: bool
  out_dir :: string

type_synonym ('w, 'a) step = "('w front, 'a) proc"

definition print_line :: "string \<Rightarrow> ('w, unit) step" where
  "print_line s = modify (\<lambda>f. f\<lparr>printed := printed f @ [s]\<rparr>)"

definition announce :: "announced \<Rightarrow> ('w, unit) step" where
  "announce c = modify (\<lambda>f. f\<lparr>print_buffer := print_buffer f @ [c]\<rparr>)"

definition change :: "('w \<Rightarrow> 'w) \<Rightarrow> ('w, unit) step" where
  "change g = modify (\<lambda>f. f\<lparr>sys := g (sys f)\<rparr>)"

definition look :: "('w \<Rightarrow> 'a) \<Rightarrow> ('w, 'a) step" where
  "look g = gets (\<lambda>f. g (sys f))"

definition exit_with :: "int \<Rightarrow> ('w, 'a) step" where
  "exit_with n = fail (SystemExit n)"

definition run_process :: "'w system \<Rightarrow> string list \<Rightarrow> string \<Rightarrow> ('w, int) step" where
  "run_process S cmd dir f = (case run_command S cmd dir (sys f) of (rc, w) \<Rightarrow> (Inr rc, f\<lparr>sys := w\<rparr>))"

section \<open>Options\<close>

record options =
  dry_run :: bool
  verbose :: bool
  jobs :: nat
  build :: "string list option"
  clean :: bool
  configure :: bool
  install :: bool
  uninstall :: bool
  docs :: "string option"
  run_target :: "string option"
  shell :: bool
  show_what :: "string option"
  run_verbose :: bool
  no_build :: bool
  run_cwd :: "string option"
  valgrind :: bool
  gdb :: bool
  lldb :: bool
  visualize :: bool
  command_template :: "(string \<Rightarrow> string) option"
  sudo_option :: bool
  force_refresh :: bool
  program_args :: "string list"
  profile_option :: "string option"
  cxx_standard :: "string option"
  enabled_disabled :: "string \<Rightarrow> bool option \<times> bool option"
  lcov_zerocounters :: "bool option"
  output_directory :: "string option"
  with_brite :: "string option"
  with_click :: "string option"
  with_openflow :: "string option"
  install_prefix :: "string option"
  enable_modules :: "string option"
  disable_modules :: "string option"
  generator :: "string option"
  trace_cmake_perf :: bool

text \<open>The end of \<open>parse_args\<close>: what follows \<open>--\<close> when argparse did not know all arguments.\<close>

definition args_after :: "string list \<Rightarrow> string list \<Rightarrow> py_error + string list" where
  "args_after argv unknown = (if unknown = [] then Inr []
     else if ''--'' \<in> set argv then Inr (tl (dropWhile (\<lambda>a. a \<noteq> ''--'') argv))
     else Inl (OtherError ''Unknown options were given''))"

definition on_off :: "bool \<Rightarrow> string" where
  "on_off c = (if c then ''ON'' else ''OFF'')"

definition on_off_condition :: "options \<Rightarrow> string \<Rightarrow> string \<Rightarrow> string option" where
  "on_off_condition args cmake_flag option_name = (case enabled_disabled args option_name of (en, dis) \<Rightarrow>
     if en \<noteq> None \<or> dis \<noteq> None
     then Some (''-DNS3_'' @ cmake_flag @ ''='' @ on_off (en = Some True \<and> dis \<noteq> Some True)) else None)"

section \<open>Cleaning\<close>

definition unless_dry :: "bool \<Rightarrow> ('w, unit) step \<Rightarrow> ('w, unit) step" where
  "unless_dry dry m = do_if (\<not> dry) m"

text \<open>The files of the caches are found once the output directory is gone.\<close>

definition clean_cmake_artifacts :: "'w system \<Rightarrow> string \<Rightarrow> bool \<Rightarrow> ('w, unit) step" where
  "clean_cmake_artifacts S lock_path dry =
     sbind (gets out_dir) (\<lambda>out.
     seq (announce (Rm_Tree out))
    (seq (unless_dry dry (change (rmtree S out)))
    (sbind (look (cache_files S)) (\<lambda>caches.
     seq (sfor (\<lambda>(dir, _). seq (announce (Rm_Tree dir)) (unless_dry dry (change (rmtree S dir)))) caches)
    (sbind (look (lock_file S)) (\<lambda>lock.
     do_if (lock \<noteq> None) (seq (announce (Rm_File lock_path)) (unless_dry dry (change (remove_file S lock_path))))))))))"

section \<open>Versions of CMake\<close>

definition parse_version :: "string \<Rightarrow> py_error + int list" where
  "parse_version s = rmap py_int (split_on (CHR ''.'') s)"

text \<open>The order of tuples.\<close>

fun tuple_less :: "int list \<Rightarrow> int list \<Rightarrow> bool" where
  "tuple_less _ [] = False"
| "tuple_less [] (y # ys) = True"
| "tuple_less (x # xs) (y # ys) = (x < y \<or> x = y \<and> tuple_less xs ys)"

definition cmake_check_version :: "'w system \<Rightarrow> ('w, string \<times> int list) step" where
  "cmake_check_version S =
     sbind (look (\<lambda>w. which S w ''cmake'')) (\<lambda>cmake. case cmake of
       None \<Rightarrow> seq (print_line ''Error:  CMake not found'') (exit_with 1)
     | Some c \<Rightarrow>
         sbind (look (cmake_version S)) (\<lambda>v.
         sbind (lift (parse_version v)) (\<lambda>version.
         if tuple_less version [3, 10, 0] then seq (print_line ''Error:  CMake is older than 3.10'') (exit_with 1)
         else ret (c, version))))"

section \<open>Configuring\<close>

definition project_not_configured :: "('w, 'a) step" where
  "project_not_configured = seq (print_line ''You need to configure ns-3 first: try ./ns3 configure'') (exit_with 1)"

definition check_config :: "'w system \<Rightarrow> string option \<Rightarrow> ('w, unit) step" where
  "check_config S folder = (case folder of
       None \<Rightarrow> project_not_configured
     | Some d \<Rightarrow> sbind (look (\<lambda>w. read_text S w (d @ ''/ns3config.txt''))) (\<lambda>table. case table of
           None \<Rightarrow> project_not_configured
         | Some t \<Rightarrow> print_line t))"

definition project_configured :: "'w system \<Rightarrow> string option \<Rightarrow> 'w \<Rightarrow> bool" where
  "project_configured S folder w = (case folder of
       None \<Rightarrow> False
     | Some d \<Rightarrow> d \<noteq> [] \<and> file_exists S w d \<and> file_exists S w (d @ ''/CMakeCache.txt''))"

definition profile_flags :: "string \<Rightarrow> py_error + string list" where
  "profile_flags p =
     (if p \<notin> {''debug'', ''default'', ''release'', ''optimized''} then Inl (OtherError ''Unknown build type'')
      else Inr ((if p = ''debug'' then
             [''-DCMAKE_BUILD_TYPE=debug'', ''-DNS3_ASSERT=ON'', ''-DNS3_LOG=ON'', ''-DNS3_WARNINGS_AS_ERRORS=ON'']
           else if p = ''default'' then
             [''-DCMAKE_BUILD_TYPE=default'', ''-DNS3_ASSERT=ON'', ''-DNS3_LOG=ON'', ''-DNS3_WARNINGS_AS_ERRORS=OFF'']
           else [''-DCMAKE_BUILD_TYPE=release'', ''-DNS3_ASSERT=OFF'', ''-DNS3_LOG=OFF'', ''-DNS3_WARNINGS_AS_ERRORS=OFF''])
         @ [''-DNS3_NATIVE_OPTIMIZATIONS='' @ on_off (p = ''optimized'')]))"

definition cmake_options :: "(string \<times> string) list" where
  "cmake_options = [(''ASSERT'', ''asserts''), (''COVERAGE'', ''gcov''), (''DES_METRICS'', ''des_metrics''), (''DPDK'', ''dpdk''),
     (''ENABLE_BUILD_VERSION'', ''build_version''), (''ENABLE_SUDO'', ''sudo''), (''EXAMPLES'', ''examples''), (''GSL'', ''gsl''),
     (''GTK3'', ''gtk''), (''LOG'', ''logs''), (''MONOLIB'', ''monolib''), (''MPI'', ''mpi''),
     (''PYTHON_BINDINGS'', ''python_bindings''), (''SANITIZE'', ''sanitizers''), (''STATIC'', ''static''), (''TESTS'', ''tests''),
     (''VERBOSE'', ''verbose''), (''WARNINGS'', ''warnings''), (''WARNINGS_AS_ERRORS'', ''werror'')]"

definition opt_flag :: "string \<Rightarrow> string option \<Rightarrow> string list" where
  "opt_flag flag v = (case v of None \<Rightarrow> [] | Some s \<Rightarrow> [flag @ s])"

text \<open>An empty text counts as none for the modules and the generator.\<close>

definition filled_flag :: "string \<Rightarrow> string option \<Rightarrow> string list" where
  "filled_flag flag v = (if given v then opt_flag flag v else [])"

definition profile_part :: "string option \<Rightarrow> py_error + string list" where
  "profile_part p = (case p of None \<Rightarrow> Inr [] | Some q \<Rightarrow> profile_flags (map lower_char q))"

text \<open>The command line for CMake, with the profile and generator that hold once the cache has been looked at.\<close>

definition cmake_command ::
  "string \<Rightarrow> options \<Rightarrow> string option \<Rightarrow> string option \<Rightarrow> string \<Rightarrow> py_error + string list" where
  "cmake_command cmake args profile gen perf_log = rbind (profile_part profile) (\<lambda>profile_part.
     Inr ([cmake] @ opt_flag ''-DCMAKE_CXX_STANDARD='' (cxx_standard args) @ profile_part
       @ concat (map (\<lambda>(flag, name). case on_off_condition args flag name of None \<Rightarrow> [] | Some a \<Rightarrow> [a]) cmake_options)
       @ opt_flag ''-DNS3_COVERAGE_ZERO_COUNTERS='' (map_option on_off (lcov_zerocounters args))
       @ opt_flag ''-DNS3_OUTPUT_DIRECTORY='' (output_directory args)
       @ opt_flag ''-DNS3_WITH_BRITE='' (with_brite args)
       @ opt_flag ''-DNS3_WITH_CLICK='' (with_click args)
       @ opt_flag ''-DNS3_WITH_OPENFLOW='' (with_openflow args)
       @ opt_flag ''-DCMAKE_INSTALL_PREFIX='' (install_prefix args)
       @ filled_flag ''-DNS3_ENABLED_MODULES='' (enable_modules args)
       @ filled_flag ''-DNS3_DISABLED_MODULES='' (disable_modules args)
       @ (if given gen then [''-G'', the gen] else [])
       @ (if trace_cmake_perf args then [''--profiling-format=google-trace'', ''--profiling-output='' @ perf_log] else [])
       @ program_args args @ [''..'']))"

definition update_scratches_list :: "'w system \<Rightarrow> string \<Rightarrow> ('w, unit) step" where
  "update_scratches_list S folder = sbind (look (scratch_sources S)) (\<lambda>sources.
     change (write_file S (folder @ ''/ns3scratches'') (join [NL] sources)))"

definition check_status :: "int \<Rightarrow> ('w, unit) step" where
  "check_status rc = do_if (rc \<noteq> 0) (exit_with rc)"

text \<open>Where the project is not configured yet the folder is made, and profile and generator have defaults.\<close>

definition prepare_folder :: "'w system \<Rightarrow> string \<Rightarrow> options \<Rightarrow> string option \<Rightarrow> string \<Rightarrow> ('w, string \<times> string option \<times> string option) step" where
  "prepare_folder S ns3_path args folder gen = sbind (look (project_configured S folder)) (\<lambda>configured.
     if configured then ret (the folder, profile_option args, generator args)
     else (let new_folder = ns3_path @ ''/cmake-cache'' in
       sbind (look (\<lambda>w. file_exists S w new_folder)) (\<lambda>there.
       seq (do_if (\<not> there) (seq (announce (Make_Dir new_folder)) (unless_dry (dry_run args) (change (make_dir S new_folder)))))
           (ret (new_folder, Some (case profile_option args of None \<Rightarrow> ''default'' | Some p \<Rightarrow> p),
                 Some (case generator args of None \<Rightarrow> gen | Some g \<Rightarrow> g))))))"

definition configure_cmake :: "'w system \<Rightarrow> string \<Rightarrow> string \<Rightarrow> options \<Rightarrow> string option \<Rightarrow> string \<Rightarrow> ('w, unit) step" where
  "configure_cmake S ns3_path cmake args folder gen =
     sbind (prepare_folder S ns3_path args folder gen) (\<lambda>(folder, profile, gen).
     sbind (lift (rbind (relpath ns3_path ns3_path folder) (\<lambda>up.
       cmake_command cmake args profile gen (path_join2 up ''cmake_performance_trace.log'')))) (\<lambda>cmd.
     seq (announce (In_Dir folder cmd))
         (unless_dry (dry_run args)
            (sbind (run_process S cmd folder) (\<lambda>rc. seq (check_status rc) (update_scratches_list S folder))))))"

definition refresh_cmake :: "'w system \<Rightarrow> string \<Rightarrow> ('w, unit) step" where
  "refresh_cmake S folder = sbind (look (\<lambda>w. which S w ''cmake'')) (\<lambda>cmake.
     sbind (case cmake of None \<Rightarrow> fail TypeError | Some c \<Rightarrow> run_process S [c, ''..''] folder) (\<lambda>rc.
     seq (check_status rc) (update_scratches_list S folder)))"

section \<open>Building\<close>

definition cmake_build :: "'w system \<Rightarrow> string \<Rightarrow> options \<Rightarrow> string option \<Rightarrow> ('w, unit) step" where
  "cmake_build S folder args target = sbind (cmake_check_version S) (\<lambda>(_, version).
     (let cmd = [''cmake'', ''--build'', ''.''] @ (if tuple_less version [3, 12, 0] then [] else [''-j'', show_nat (jobs args)])
        @ (if given target then [''--target'', the target] else []) in
     seq (announce (In_Dir folder cmd))
         (unless_dry (dry_run args) (sbind (run_process S cmd folder) check_status))))"

text \<open>A target of the list; \<open>check-version\<close> silences the announcements.\<close>

definition build_target :: "'w system \<Rightarrow> options \<Rightarrow> string \<Rightarrow> string list \<Rightarrow> string \<Rightarrow> string \<Rightarrow> string \<Rightarrow> ('w, unit) step" where
  "build_target S args folder modules version profile t =
     seq (do_if (t = ''check-version'' \<and> t \<notin> set modules) (modify (\<lambda>f. f\<lparr>verbose_run := False\<rparr>)))
    (sbind (gets out_dir) (\<lambda>out.
     sbind (lift (target_for modules out version profile t)) (\<lambda>target.
     cmake_build S folder args target)))"

definition build_step ::
  "'w system \<Rightarrow> options \<Rightarrow> bool \<Rightarrow> string \<Rightarrow> string \<Rightarrow> string list \<Rightarrow> string \<Rightarrow> string \<Rightarrow> ('w, unit) step" where
  "build_step S args build_and_run to_run folder modules version profile =
     seq (case build args of None \<Rightarrow> ret ()
        | Some ts \<Rightarrow> seq (do_if (ts = []) (cmake_build S folder args None))
                          (sfor (build_target S args folder modules version profile) (build_list modules ts)))
         (do_if build_and_run (sbind (gets out_dir) (\<lambda>out.
            sbind (lift (get_target_to_build out to_run version profile)) (\<lambda>target.
            cmake_build S folder args target))))"

section \<open>Running\<close>

text \<open>\<open>shutil.which\<close> may find nothing, which is an element None of the command and refused when it is run.\<close>

definition debuggers :: "'w system \<Rightarrow> 'w \<Rightarrow> options \<Rightarrow> string option list" where
  "debuggers S w args =
     (if valgrind args then [which S w ''valgrind'', Some ''--leak-check=full''] else [])
     @ (if gdb args then [which S w ''gdb'', Some ''--args''] else [])
     @ (if lldb args then [which S w ''lldb'', Some ''--''] else [])"

definition mpi_arguments :: "'w system \<Rightarrow> 'w \<Rightarrow> (string \<Rightarrow> string option) \<Rightarrow> string \<Rightarrow> string list \<Rightarrow> string list" where
  "mpi_arguments S w env program args =
     (if program \<in> {''mpiexec'', ''mpirun''} \<and> given (env ''MPI_CI'')
      then ''--allow-run-as-root'' # (if given (which S w ''ompi_info'') then ''--oversubscribe'' # args else args) else args)"

text \<open>\<open>s.split()\<close>: the words of a text.\<close>

definition words_of :: "string \<Rightarrow> string list" where
  "words_of s = filter (\<lambda>w. w \<noteq> []) (split_on (CHR '' '') (map (\<lambda>c. if is_space c then CHR '' '' else c) s))"

text \<open>The program and its arguments; a template replaces the program by the words it makes.\<close>

definition run_words ::
  "'w system \<Rightarrow> 'w \<Rightarrow> (string \<Rightarrow> string option) \<Rightarrow> options \<Rightarrow> string \<Rightarrow> string list \<Rightarrow> py_error + string option list" where
  "run_words S w env args program target_args = (let as = target_args @ program_args args in
     if shell args then Inr (map Some (''bash'' # as))
     else (let (program, as) = (if contains program ''.py'' then (''python3'', program # as) else (program, as));
               as = (if visualize args then as @ [''--SimulatorImplementationType=ns3::VisualSimulatorImpl''] else as) in
       rbind (case command_template args of
           None \<Rightarrow> Inr (program, as)
         | Some fill \<Rightarrow> (case words_of (fill program) of
               [] \<Rightarrow> Inl IndexError
             | c # cs \<Rightarrow> Inr (c, mpi_arguments S w env c (cs @ as)))) (\<lambda>(program, as).
       Inr (debuggers S w args @ map Some (program # as)))))"

definition run_directory :: "string \<Rightarrow> options \<Rightarrow> string" where
  "run_directory ns3_path args = (if shell args \<or> \<not> given (run_cwd args) then ns3_path else the (run_cwd args))"

text \<open>The variables that are set, and with what they are appended to.\<close>

definition run_environment :: "string \<Rightarrow> (string \<times> string) list" where
  "run_environment out = [(''PATH'', out @ ''/lib''), (''PYTHONPATH'', out @ ''/bindings/python''), (''LD_LIBRARY_PATH'', out @ ''/lib'')]"

definition extended :: "(string \<Rightarrow> string option) \<Rightarrow> (string \<times> string) list \<Rightarrow> string \<Rightarrow> string option" where
  "extended env vars k = (case map_of vars k of None \<Rightarrow> env k
     | Some v \<Rightarrow> Some (case env k of None \<Rightarrow> v | Some old \<Rightarrow> old @ '':'' @ v))"

text \<open>With a shell only the first word is run. The exit status is that of the program.\<close>

definition run_step ::
  "'w system \<Rightarrow> string \<Rightarrow> (string \<Rightarrow> string option) \<Rightarrow> options \<Rightarrow> string \<Rightarrow> string list \<Rightarrow> ('w, unit) step" where
  "run_step S ns3_path env args program target_args =
     sbind (gets out_dir) (\<lambda>out.
     sbind (gets sys) (\<lambda>w.
     sbind (lift (run_words S w env args program target_args)) (\<lambda>words.
     sbind (gets verbose_run) (\<lambda>loud.
     seq (do_if (loud \<or> dry_run args)
           (if None \<in> set words then fail TypeError
            else announce (Run_In (run_directory ns3_path args) (run_environment out) (map the words))))
         (unless_dry (dry_run args)
           (if None \<in> set words then fail TypeError
            else sbind (run_process S (if shell args then [''bash''] else map the words) (run_directory ns3_path args)) (\<lambda>rc.
              exit_with rc)))))))"

section \<open>Programs that need root\<close>

definition own_program :: "'w system \<Rightarrow> bool \<Rightarrow> string \<Rightarrow> ('w, unit) step" where
  "own_program S dry target =
     sbind (look (\<lambda>w. file_exists S w target)) (\<lambda>there.
     sbind (look (\<lambda>w. is_suid S w target)) (\<lambda>done_before.
     do_if (there \<and> \<not> done_before)
       (seq (announce (Own_Suid target))
            (unless_dry dry
              (sfor (\<lambda>cmd f. (case sudo_command S cmd (sys f) of (r, w) \<Rightarrow> (case r of
                   Inl e \<Rightarrow> (Inl e, f\<lparr>sys := w\<rparr>)
                 | Inr out \<Rightarrow> (if out = [] then Inr () else Inl (OtherError ''Failed to chown or chmod''), f\<lparr>sys := w\<rparr>))))
                [[''chown'', ''root'', target], [''chmod'', ''u+s'', target]])))))"

text \<open>The targets are a set; they come in the order of the list.\<close>

definition sudo_step :: "'w system \<Rightarrow> bool \<Rightarrow> string option \<Rightarrow> string list \<Rightarrow> ('w, unit) step" where
  "sudo_step S dry to_run targets = sbind (look (\<lambda>w. which S w ''sudo'')) (\<lambda>sudo.
     if \<not> given sudo then fail (OtherError ''Sudo is required by --enable-sudo, but it was not found'')
     else sfor (own_program S dry)
       (remdups (targets @ (if given to_run then [the to_run] else []))))"

section \<open>Configuring anew\<close>

text \<open>The settings in the lines of a cache: \<open>(NS3_.*):.*=(.*)\<close>, and \<open>(KEY):.*=(.*)\<close> for the keys of CMake.\<close>

fun from_first :: "string \<Rightarrow> string \<Rightarrow> string option" where
  "from_first p [] = (if p = [] then Some [] else None)"
| "from_first p (c # s) = (if startswith (c # s) p then Some (c # s) else from_first p s)"

definition cut_last :: "char \<Rightarrow> string \<Rightarrow> (string \<times> string) option" where
  "cut_last c s = (if c \<in> set s then Some (join [c] (butlast (split_on c s)), last (split_on c s)) else None)"

definition ns3_setting :: "string \<Rightarrow> (string \<times> string) list" where
  "ns3_setting line = (case from_first ''NS3_'' line of
       None \<Rightarrow> []
     | Some s \<Rightarrow> (case cut_last (CHR ''='') s of
           None \<Rightarrow> []
         | Some (a, v) \<Rightarrow> (case cut_last (CHR '':'') a of None \<Rightarrow> [] | Some (k, _) \<Rightarrow> [(k, v)])))"

definition cmake_setting :: "string \<Rightarrow> string \<Rightarrow> (string \<times> string) list" where
  "cmake_setting key line = (case from_first (key @ '':'') line of
       None \<Rightarrow> []
     | Some s \<Rightarrow> (case cut_last (CHR ''='') (drop (length key + 1) s) of None \<Rightarrow> [] | Some (_, v) \<Rightarrow> [(key, v)]))"

definition cmake_keys :: "string list" where
  "cmake_keys = [''CMAKE_BUILD_TYPE'', ''CMAKE_GENERATOR'', ''CMAKE_CXX_COMPILER'', ''CMAKE_CXX_FLAGS'', ''CMAKE_C_COMPILER'',
     ''CMAKE_C_FLAGS'', ''CMAKE_INSTALL_PREFIX'']"

definition found_settings :: "string \<Rightarrow> (string \<times> string) list" where
  "found_settings contents = (let lines = split_on NL contents in
     concat (map ns3_setting lines) @ concat (map (\<lambda>key. concat (map (cmake_setting key) lines)) cmake_keys))"

definition extract_settings :: "string \<Rightarrow> py_error + (string, string) dict" where
  "extract_settings contents = (let d = fold (\<lambda>(k, v). AList.update k v) (found_settings contents) [] in
     if has_key d ''NS3_INT64X64-STRINGS'' then Inr (AList.delete ''NS3_INT64X64-STRINGS'' d) else Inl KeyError)"

text \<open>The backup is written in the directory the script is called from, in a dry run as well.\<close>

definition saved_settings :: "'w system \<Rightarrow> string \<Rightarrow> ('w, (string, string) dict) step" where
  "saved_settings S folder = sbind (look (\<lambda>w. read_text S w ''settings.json'')) (\<lambda>saved. case saved of
       Some text \<Rightarrow> ret (json_load S text)
     | None \<Rightarrow> sbind (look (\<lambda>w. read_text S w (folder @ ''/CMakeCache.txt''))) (\<lambda>cache. case cache of
           None \<Rightarrow> fail (OtherError ''FileNotFoundError'')
         | Some text \<Rightarrow> lift (extract_settings text)))"

definition reconfigure_cmake :: "'w system \<Rightarrow> string \<Rightarrow> string option \<Rightarrow> bool \<Rightarrow> ('w, unit) step" where
  "reconfigure_cmake S cmake folder dry = (case folder of None \<Rightarrow> fail TypeError | Some d \<Rightarrow>
     sbind (saved_settings S d) (\<lambda>settings.
     seq (announce (Rm_Tree d))
    (seq (announce (Make_Dir d))
    (seq (unless_dry dry (seq (change (rmtree S d)) (change (make_dir S d))))
    (seq (change (write_file S ''settings.json'' (json_dump S settings)))
    (let cmd = [cmake] @ map (\<lambda>(k, v). ''-D'' @ k @ ''='' @ v) (filter (\<lambda>(_, v). v \<noteq> []) settings) @ [''..''] in
     seq (announce (In_Dir d cmd))
         (unless_dry dry (sbind (run_process S cmd d) (\<lambda>rc.
            seq (if rc = 0 then change (remove_file S ''settings.json'')
                 else fail (OtherError ''Reconfiguring CMake to force refresh failed''))
                (update_scratches_list S d))))))))))"

definition configuration_step :: "'w system \<Rightarrow> string \<Rightarrow> options \<Rightarrow> string option \<Rightarrow> string \<Rightarrow> ('w, unit) step" where
  "configuration_step S ns3_path args folder gen = sbind (cmake_check_version S) (\<lambda>(cmake, _).
     if force_refresh args then seq (reconfigure_cmake S cmake folder (dry_run args)) (exit_with 0)
     else seq (configure_cmake S ns3_path cmake args folder gen) (exit_with 0))"

section \<open>\<open>main\<close>\<close>

text \<open>The options that become targets. \<open>docs doxygen\<close> needs examples and tests.\<close>

definition with_build :: "options \<Rightarrow> bool \<Rightarrow> options" where
  "with_build args no_arguments =
     (let args = (if no_arguments then args\<lparr>build := Some []\<rparr> else args);
          args = (if install args then args\<lparr>build := Some [''install'']\<rparr> else args)
      in if uninstall args then args\<lparr>build := Some [''uninstall'']\<rparr> else args)"

definition docs_targets :: "string \<Rightarrow> string list" where
  "docs_targets d = (if d = ''all'' then [''sphinx'', ''doxygen''] else [d])"

definition with_docs :: "options \<Rightarrow> lock_data \<Rightarrow> ('w, options) step" where
  "with_docs args info = (case docs args of
       None \<Rightarrow> ret args
     | Some d \<Rightarrow>
         if ''doxygen'' \<in> set (docs_targets d) \<and> (\<not> enable_examples info \<or> \<not> enable_tests info)
         then seq (print_line ''The docs require examples and tests'') (exit_with 1)
         else ret (args\<lparr>build := Some (docs_targets d)\<rparr>))"

definition show_profile :: "options \<Rightarrow> lock_data \<Rightarrow> ('w, unit) step" where
  "show_profile args info = do_if (show_what args = Some ''profile'')
     (if given (build_profile info) then print_line (''Build profile: '' @ the (build_profile info)) else project_not_configured)"

text \<open>The words of the target to run, without the quotes around it. An empty target counts as none.\<close>

definition unquoted :: "string \<Rightarrow> string" where
  "unquoted s = (if hd s \<in> {CHR 0x22, CHR 0x27} \<and> last s \<in> {CHR 0x22, CHR 0x27} then butlast (tl s) else s)"

definition target_words :: "options \<Rightarrow> py_error + (string option \<times> string list)" where
  "target_words args = (if \<not> given (run_target args) then Inr (None, [])
     else (case words_of (unquoted (the (run_target args))) of [] \<Rightarrow> Inl IndexError | w # ws \<Rightarrow> Inr (Some w, ws)))"

text \<open>A list of scratch sources that is not the recorded one makes CMake run, in a dry run as well.\<close>

definition refresh_scratches :: "'w system \<Rightarrow> string option \<Rightarrow> ('w, unit) step" where
  "refresh_scratches S folder = (case folder of None \<Rightarrow> ret () | Some d \<Rightarrow>
     sbind (look (scratch_sources S)) (\<lambda>sources.
     sbind (look (\<lambda>w. read_text S w (d @ ''/ns3scratches''))) (\<lambda>recorded.
     do_if (recorded \<noteq> None \<and> split_on NL (the recorded) \<noteq> sources) (refresh_cmake S d))))"

text \<open>The components that also occur in the output directory are taken off; a path of only such ones runs out.\<close>

fun strip_overlap :: "string list \<Rightarrow> string list \<Rightarrow> py_error + string list" where
  "strip_overlap base [] = Inl IndexError"
| "strip_overlap base (c # cs) = (if c \<in> set base then strip_overlap base cs else Inr (c # cs))"

definition built_program :: "'w system \<Rightarrow> options \<Rightarrow> string option \<Rightarrow> bool \<Rightarrow> string \<Rightarrow> ('w, string) step" where
  "built_program S args folder run_only program =
     (if shell args \<or> program = [] \<or> contains program ''.py'' then ret program
      else sbind (gets out_dir) (\<lambda>out.
        sbind (lift (strip_overlap (cut_path out) (cut_path program))) (\<lambda>parts.
        sbind (gets sys) (\<lambda>w.
        (let rel = join_path parts;
             waf = replace_text (basename rel) (the (run_target args)) rel;
             rel = (if folder = None \<and> contains rel ''scratch'' \<and> run_only \<and> file_exists S w (out @ SLASH # waf)
                    then waf else rel);
             full = out @ SLASH # rel in
         if \<not> contains full ''.py'' \<and> \<not> file_exists S w full
         then fail (OtherError ''Executable has not been built yet'') else ret full)))))"

definition complete_targets :: "program_map \<Rightarrow> options \<Rightarrow> py_error + options" where
  "complete_targets programs args = (case build args of
       None \<Rightarrow> Inr args
     | Some ts \<Rightarrow> rbind (rmap (\<lambda>t. if has_key programs t then check_ambiguous_target t programs else Inr t) ts)
         (\<lambda>ts'. Inr (args\<lparr>build := Some ts'\<rparr>)))"

definition run_program ::
  "'w system \<Rightarrow> string \<Rightarrow> (string \<Rightarrow> string option) \<Rightarrow> options \<Rightarrow> lock_data \<Rightarrow> program_map \<Rightarrow> string option \<Rightarrow> bool
     \<Rightarrow> string option \<Rightarrow> string list \<Rightarrow> ('w, unit) step" where
  "run_program S ns3_path env args info programs folder run_only to_run target_args =
     sbind (case to_run of None \<Rightarrow> ret None
        | Some t \<Rightarrow> sbind (built_program S args folder run_only t) (\<lambda>p. ret (Some p))) (\<lambda>program.
     seq (do_if (enable_sudo info \<or> to_run \<noteq> None \<and> sudo_option args)
           (sudo_step S (dry_run args) program (if enable_sudo info then map (hd \<circ> snd) programs else [])))
         (do_if (shell args \<or> to_run \<noteq> None)
           (run_step S ns3_path env args (case program of None \<Rightarrow> [] | Some p \<Rightarrow> p) target_args)))"

text \<open>After the lock file was read again the table of programs is made, the target is found, built and run.\<close>

definition build_and_run ::
  "'w system \<Rightarrow> string \<Rightarrow> (string \<Rightarrow> string option) \<Rightarrow> options \<Rightarrow> lock_data \<Rightarrow> string list \<Rightarrow> string option \<Rightarrow> bool
     \<Rightarrow> string option \<Rightarrow> string list \<Rightarrow> ('w, unit) step" where
  "build_and_run S ns3_path env args info modules folder run_only to_run target_args =
     sbind (look (lock_file S)) (\<lambda>lock.
     sbind (gets out_dir) (\<lambda>out.
     sbind (look (\<lambda>w. (file_exists S w, scratch_scripts S w))) (\<lambda>(there, scripts).
     (let profile = (case build_profile info of None \<Rightarrow> [] | Some p \<Rightarrow> p);
          version = (case ns3_version info of None \<Rightarrow> [] | Some v \<Rightarrow> v) in
      sbind (case lock of None \<Rightarrow> fail (OtherError ''FileNotFoundError'')
         | Some l \<Rightarrow> lift (get_program_shortcuts there scripts ns3_path out l profile version)) (\<lambda>programs.
      sbind (case to_run of None \<Rightarrow> ret None
         | Some t \<Rightarrow> sbind (lift (find_program there programs t)) (\<lambda>p. ret (Some p))) (\<lambda>target.
      sbind (lift (complete_targets programs args)) (\<lambda>args.
      seq (do_if (\<not> run_only)
            (build_step S args (target \<noteq> None) (case target of None \<Rightarrow> [] | Some t \<Rightarrow> t)
               (case folder of None \<Rightarrow> [] | Some d \<Rightarrow> d) modules version profile))
          (run_program S ns3_path env args info programs folder run_only target target_args))))))))"

text \<open>Unless a program is only run, the cache is looked for, and the project may be configured.\<close>

definition with_cache ::
  "'w system \<Rightarrow> string \<Rightarrow> options \<Rightarrow> lock_data \<Rightarrow> (string option \<Rightarrow> ('w, unit) step) \<Rightarrow> ('w, unit) step" where
  "with_cache S ns3_path args info go_on =
     sbind (look (\<lambda>w. search_cmake_cache (which S w) (build_profile info) (cache_files S w))) (\<lambda>found.
     sbind (lift found) (\<lambda>(folder, gen).
       if show_what args = Some ''config'' then check_config S folder
       else seq (refresh_scratches S folder)
           (seq (do_if (configure args) (configuration_step S ns3_path args folder gen))
                (sbind (look (project_configured S folder)) (\<lambda>configured.
                 if configured then go_on folder else project_not_configured)))))"

definition run_or_build ::
  "'w system \<Rightarrow> string \<Rightarrow> (string \<Rightarrow> string option) \<Rightarrow> options \<Rightarrow> lock_data \<Rightarrow> string list option \<Rightarrow> ('w, unit) step" where
  "run_or_build S ns3_path env args info modules =
     (let running = given (run_target args); run_only = (running \<and> no_build args) in
     seq (do_if running (modify (\<lambda>f. f\<lparr>verbose_run := run_verbose args\<rparr>)))
    (sbind (lift (target_words args)) (\<lambda>(to_run, target_args).
      (let go_on = (\<lambda>folder. case modules of
             None \<Rightarrow> project_not_configured
           | Some ms \<Rightarrow>
               build_and_run S ns3_path env args info (map (replace_text ''ns3-'' []) ms) folder run_only to_run target_args) in
       if run_only then go_on None else with_cache S ns3_path args info go_on))))"

text \<open>
  \<open>main\<close>, from the options on. \<open>no_arguments\<close> is \<open>len(sys.argv) == 1\<close>; \<open>env\<close> is the environment, of which the
  user, and the colour and path that \<open>main\<close> itself sets, are left out.
\<close>

definition main ::
  "'w system \<Rightarrow> string \<Rightarrow> string \<Rightarrow> (string \<Rightarrow> string option) \<Rightarrow> bool \<Rightarrow> options \<Rightarrow> ('w, unit) step" where
  "main S ns3_path lock_path env no_arguments args0 =
     sbind (look (lock_file S)) (\<lambda>lock.
     seq (case lock of None \<Rightarrow> ret () | Some l \<Rightarrow> modify (\<lambda>f. f\<lparr>out_dir := lock_out_dir l\<rparr>))
    (if clean args0 then clean_cmake_artifacts S lock_path (dry_run args0)
     else (case check_lock_data lock of (info, modules) \<Rightarrow>
       sbind (with_docs (with_build args0 no_arguments) info) (\<lambda>args.
       seq (show_profile args info)
           (run_or_build S ns3_path env
              (if show_what args = Some ''version'' then args\<lparr>build := Some [''check-version'']\<rparr> else args) info modules)))))"

section \<open>A dry run\<close>

lemma sees_look: "keeps (\<lambda>f. sys f = w) (m (g w)) \<Longrightarrow> keeps (\<lambda>f. sys f = w) (sbind (look g) m)"
  by (simp add: keeps_def look_def sbind_def)

lemma sees_sys: "keeps (\<lambda>f. sys f = w) (m w) \<Longrightarrow> keeps (\<lambda>f. sys f = w) (sbind (gets sys) m)"
  by (simp add: keeps_def sbind_def)

lemma keeps_lift_bind: "(\<And>x. r = Inr x \<Longrightarrow> keeps P (m x)) \<Longrightarrow> keeps P (sbind (lift r) m)"
  by (cases r) (simp_all add: keeps_def)

lemma keeps_opt [keeps_intros]:
  "keeps P m \<Longrightarrow> (\<And>x. keeps P (n x)) \<Longrightarrow> keeps P (case o' of None \<Rightarrow> m | Some x \<Rightarrow> n x)"
  by (simp split: option.split)

lemma keeps_talk [keeps_intros]:
  "keeps (\<lambda>f. sys f = w) (print_line s)" "keeps (\<lambda>f. sys f = w) (announce c)" "keeps (\<lambda>f. sys f = w) (exit_with n)"
  "keeps (\<lambda>f. sys f = w) project_not_configured"
  by (simp_all add: keeps_def print_line_def announce_def exit_with_def project_not_configured_def sbind_def)

lemma unless_dry_True [simp]: "unless_dry True m = ret ()"
  by (simp add: unless_dry_def)

lemmas looking = keeps_intros sees_look sees_sys keeps_lift_bind

lemma dry_clean: "keeps (\<lambda>f. sys f = w) (clean_cmake_artifacts S lock_path True)"
  unfolding clean_cmake_artifacts_def by (auto intro!: looking)

lemma dry_check: "keeps (\<lambda>f. sys f = w) (cmake_check_version S)"
  unfolding cmake_check_version_def by (auto intro!: looking)

lemma dry_cmake_build: "dry_run args \<Longrightarrow> keeps (\<lambda>f. sys f = w) (cmake_build S folder args t)"
  unfolding cmake_build_def Let_def by (auto intro!: looking dry_check)

lemma dry_build_step: "dry_run args \<Longrightarrow> keeps (\<lambda>f. sys f = w) (build_step S args b t folder ms version profile)"
  unfolding build_step_def build_target_def by (auto intro!: looking dry_cmake_build)

lemma dry_configure:
  assumes "dry_run args" "\<not> force_refresh args"
  shows "keeps (\<lambda>f. sys f = w) (configuration_step S ns3_path args folder gen)"
  unfolding configuration_step_def configure_cmake_def prepare_folder_def Let_def
  using assms by (auto intro!: looking dry_check)

lemma dry_sudo: "keeps (\<lambda>f. sys f = w) (sudo_step S True t ts)"
  unfolding sudo_step_def own_program_def by (auto intro!: looking)

lemma dry_run_step: "dry_run args \<Longrightarrow> keeps (\<lambda>f. sys f = w) (run_step S ns3_path env args program as)"
  unfolding run_step_def by (auto intro!: looking)

lemma dry_built_program: "keeps (\<lambda>f. sys f = w) (built_program S args folder run_only program)"
  unfolding built_program_def Let_def by (auto intro!: looking)

lemma dry_run_program: "dry_run args \<Longrightarrow> keeps (\<lambda>f. sys f = w) (run_program S ns3_path env args info programs folder ro t as)"
  unfolding run_program_def by (auto intro!: looking dry_built_program dry_sudo dry_run_step simp: comp_def)

lemma dry_build_and_run:
  assumes "dry_run args"
  shows "keeps (\<lambda>f. sys f = w) (build_and_run S ns3_path env args info ms folder ro t as)"
proof -
  have "complete_targets programs args = Inr args' \<Longrightarrow> dry_run args'" for programs args'
    using assms by (auto simp: complete_targets_def rbind_iffs split: option.splits)
  then show ?thesis unfolding build_and_run_def Let_def
    by (auto intro!: looking dry_build_step dry_run_program)
qed

lemma dry_refresh:
  "(\<And>d t. read_text S w (d @ ''/ns3scratches'') = Some t \<Longrightarrow> split_on NL t = scratch_sources S w)
     \<Longrightarrow> keeps (\<lambda>f. sys f = w) (refresh_scratches S folder)"
  unfolding refresh_scratches_def by (auto intro!: looking)

text \<open>
  Claim C40. A dry run changes nothing: with \<open>--dry-run\<close>, without \<open>--force-refresh\<close> and as long as the recorded list
  of scratch programs is the present one, the system is left as it was, whatever the other options are and also
  when the script ends with an exception.
\<close>

theorem dry_run_changes_nothing:
  assumes "dry_run args" "\<not> force_refresh args"
    and "\<forall>d t. read_text S (sys f) (d @ ''/ns3scratches'') = Some t \<longrightarrow> split_on NL t = scratch_sources S (sys f)"
  shows "sys (snd (main S ns3_path lock_path env no_arguments args f)) = sys f"
proof -
  let ?P = "\<lambda>g. sys g = sys f"
  have go: "keeps ?P (run_or_build S ns3_path env as info ms)" if "dry_run as" "\<not> force_refresh as" for as info ms
    unfolding run_or_build_def with_cache_def check_config_def Let_def
    using that assms(3) by (auto intro!: looking dry_build_and_run dry_refresh dry_configure)
  have same: "dry_run (with_build args b) = dry_run args" "force_refresh (with_build args b) = force_refresh args" for b
    by (simp_all add: with_build_def Let_def)
  have docs: "keeps ?P (sbind (with_docs as info) m)"
    if "dry_run as" "\<not> force_refresh as" "\<And>bs. dry_run bs \<Longrightarrow> \<not> force_refresh bs \<Longrightarrow> keeps ?P (m bs)" for as info m
    using that by (auto simp: with_docs_def exit_with_def print_line_def keeps_def sbind_def split: option.split)
  have rest: "keeps ?P (sbind (with_docs (with_build args no_arguments) info) (\<lambda>as. seq (show_profile as info)
      (run_or_build S ns3_path env
        (if show_what as = Some ''version'' then as\<lparr>build := Some [''check-version'']\<rparr> else as) info ms)))" for info ms
    by (rule docs) (use assms(1,2) in \<open>auto intro!: looking go simp: same show_profile_def\<close>)
  have "keeps ?P (if clean args then clean_cmake_artifacts S lock_path (dry_run args)
     else (case check_lock_data lock of (info, ms) \<Rightarrow> sbind (with_docs (with_build args no_arguments) info)
       (\<lambda>as. seq (show_profile as info) (run_or_build S ns3_path env
          (if show_what as = Some ''version'' then as\<lparr>build := Some [''check-version'']\<rparr> else as) info ms))))" for lock
    using rest dry_clean assms(1) by (auto split: prod.split)
  then have "keeps ?P (main S ns3_path lock_path env no_arguments args)"
    unfolding main_def by (intro sees_look keeps_sbind) (auto intro!: looking)
  then show ?thesis by (simp add: keeps_def)
qed

section \<open>Order and exit status\<close>

text \<open>A build that fails ends the script with its status: what follows it is not done.\<close>

lemma build_failure_stops:
  assumes "cmake_check_version S f = (Inr (c, version), f)" "\<not> dry_run args"
    and "\<And>cmd w. run_command S cmd folder w = (rc, g w)" "rc \<noteq> 0"
  shows "\<exists>f'. seq (cmake_build S folder args t) m f = (Inl (SystemExit rc), f') \<and> sys f' = g (sys f)"
  using assms by (simp add: cmake_build_def Let_def sbind_def unless_dry_def announce_def run_process_def check_status_def exit_with_def)

text \<open>The exit status is that of the program that was run.\<close>

lemma run_step_status:
  assumes "\<not> dry_run args" "run_words S (sys f) env args program as = Inr words" "None \<notin> set words"
    and "run_command S (if shell args then [''bash''] else map the words) (run_directory ns3_path args) (sys f) = (rc, w)"
  shows "\<exists>f'. run_step S ns3_path env args program as f = (Inl (SystemExit rc), f') \<and> sys f' = w"
  using assms by (simp add: run_step_def sbind_def unless_dry_def do_if_def announce_def run_process_def exit_with_def)

lemma on_off_cases:
  "enabled_disabled args name = (None, None) \<Longrightarrow> on_off_condition args flag name = None"
  "enabled_disabled args name = (en, Some True) \<Longrightarrow> on_off_condition args flag name = Some (''-DNS3_'' @ flag @ ''=OFF'')"
  "enabled_disabled args name = (Some True, None) \<Longrightarrow> on_off_condition args flag name = Some (''-DNS3_'' @ flag @ ''=ON'')"
  by (auto simp: on_off_condition_def on_off_def)

text \<open>
  A program is found again below the output directory as long as no component that leads to it occurs in the path
  of that directory. Where ns-3 lies in a directory called \<open>src\<close>, the programs below \<open>build/src\<close> are not found.
\<close>

lemma overlap_removed: "c \<notin> set base \<Longrightarrow> strip_overlap base (base @ c # cs) = Inr (c # cs)"
proof -
  have "set b \<subseteq> set base \<Longrightarrow> c \<notin> set base \<Longrightarrow> strip_overlap base (b @ c # cs) = Inr (c # cs)" for b
    by (induction b) auto
  then show "c \<notin> set base \<Longrightarrow> ?thesis" by simp
qed

lemma source_directory_lost:
  "strip_overlap (cut_path ''/home/src/ns3/build'') (cut_path ''/home/src/ns3/build/src/aodv/ns3-go-debug'')
     = Inr [''aodv'', ''ns3-go-debug'']"
  by simp

text \<open>Without scratch programs the recorded list is never the present one, so that CMake runs at every call.\<close>

lemma empty_scratch_list: "split_on NL (join [NL] []) \<noteq> []"
  by simp

section \<open>A sample project\<close>

text \<open>Every operation on the sample system counts.\<close>

definition sample_system :: "nat system" where
  "sample_system = \<lparr> which = (\<lambda>_ p. Some (''/bin/'' @ p)), file_exists = (\<lambda>_ p. p \<noteq> []), read_text = (\<lambda>_ _. None),
     cache_files = (\<lambda>_. [(''/n/cmake-cache'', ''build_profile:INTERNAL=debug'' @ [NL] @ ''CMAKE_GENERATOR:INTERNAL=Ninja'')]),
     scratch_sources = (\<lambda>_. []), scratch_scripts = (\<lambda>_. []), lock_file = (\<lambda>_. Some sample_lock),
     cmake_version = (\<lambda>_. ''3.22.1''), is_suid = (\<lambda>_ _. False), run_command = (\<lambda>_ _ n. (0, n + 1)),
     sudo_command = (\<lambda>_ n. (Inr [], n + 1)), rmtree = (\<lambda>_. Suc), remove_file = (\<lambda>_. Suc), make_dir = (\<lambda>_. Suc),
     write_file = (\<lambda>_ _. Suc), json_dump = (\<lambda>_. []), json_load = (\<lambda>_. []) \<rparr>"

definition sample_options :: "bool \<Rightarrow> options" where
  "sample_options dry = \<lparr> dry_run = dry, verbose = False, jobs = 2, build = None, clean = False, configure = False, install = False,
     uninstall = False, docs = None, run_target = Some ''hi --x=1'', shell = False, show_what = None, run_verbose = True,
     no_build = False, run_cwd = None, valgrind = False, gdb = False, lldb = False, visualize = False, command_template = None,
     sudo_option = False, force_refresh = False, program_args = [], profile_option = None, cxx_standard = None,
     enabled_disabled = (\<lambda>_. (None, None)), lcov_zerocounters = None, output_directory = None, with_brite = None,
     with_click = None, with_openflow = None, install_prefix = None, enable_modules = None, disable_modules = None,
     generator = None, trace_cmake_perf = False \<rparr>"

definition sample_front :: "nat front" where
  "sample_front = \<lparr> sys = 0, printed = [], print_buffer = [], verbose_run = True, out_dir = ''/n/build'' \<rparr>"

lemma sample_real_run:
  "fst (main sample_system ''/n'' ''/n/.lock'' (\<lambda>_. None) False (sample_options False) sample_front) = Inl (SystemExit 0)
   \<and> sys (snd (main sample_system ''/n'' ''/n/.lock'' (\<lambda>_. None) False (sample_options False) sample_front)) = 2"
  by code_simp

theorem dry_run_changes_nothing_witness:
  "sys (snd (main sample_system ''/n'' ''/n/.lock'' (\<lambda>_. None) False (sample_options True) sample_front)) = 0"
  using dry_run_changes_nothing [of "sample_options True" sample_system sample_front "''/n''" "''/n/.lock''" "\<lambda>_. None" False]
  by (simp add: sample_options_def sample_system_def sample_front_def)

end
