(* ===== verification/Xml_Element.thy ===== *)
theory Xml_Element
  imports Py_Prelude
begin

text \<open>
  What the scripts use of \<^verbatim>\<open>xml.etree.ElementTree\<close>: an element with its tag, attributes, text and children, and
  the searches among its children. The reports of the test runner and the flow monitor's parser share it.
\<close>

datatype element = Element (tag: string) (attribs: "(string \<times> string) list")
  (content: "string option") (children: "element list")

definition find_child :: "string \<Rightarrow> element \<Rightarrow> element option" where
  "find_child t e = find (\<lambda>c. tag c = t) (children e)"

definition findall :: "string \<Rightarrow> element \<Rightarrow> element list" where
  "findall t e = filter (\<lambda>c. tag c = t) (children e)"

text \<open>\<open>e.find(t).text\<close>; \<open>None\<close> has no attribute \<open>text\<close>.\<close>

definition child_text :: "string \<Rightarrow> element \<Rightarrow> py_error + string option" where
  "child_text t e = (case find_child t e of None \<Rightarrow> Inl AttributeError | Some c \<Rightarrow> Inr (content c))"

text \<open>\<open>"%s" % x\<close> of a string or \<open>None\<close>.\<close>

definition str :: "string option \<Rightarrow> string" where
  "str x = (case x of None \<Rightarrow> ''None'' | Some s \<Rightarrow> s)"

lemma findall_smaller [termination_simp]: "c \<in> set (findall t e) \<Longrightarrow> size c < size e"
proof -
  assume "c \<in> set (findall t e)"
  then have "c \<in> set (children e)" by (simp add: findall_def)
  then have "size c \<le> size_list size (children e)" by (induction "children e" arbitrary: e) (auto intro: size_list_estimation')
  then show ?thesis by (cases e) simp
qed

text \<open>\<open>findall("A/B")\<close>\<close>

definition findall2 :: "string \<Rightarrow> string \<Rightarrow> element \<Rightarrow> element list" where
  "findall2 t u e = concat (map (findall u) (findall t e))"

abbreviation attr :: "element \<Rightarrow> string \<Rightarrow> string option" where
  "attr e k \<equiv> map_of (attribs e) k"

lemma findall_same: "(\<And>c. c \<in> set cs \<Longrightarrow> tag c = t) \<Longrightarrow> findall t (Element u as x cs) = cs"
  by (simp add: findall_def filter_id_conv)

end
