(* ===== verification/Flow_Monitor.thy ===== *)
theory Flow_Monitor
  imports Py_Number Py_State Xml_Element
begin

text \<open>
  The parser of the flow monitor's results, \<^verbatim>\<open>src/flow-monitor/examples/flowmon-parse-results.py\<close>: its
  classes \<open>FiveTuple\<close>, \<open>Histogram\<close>, \<open>Flow\<close>, \<open>ProbeFlowStats\<close> and \<open>Simulation\<close> as records read from the
  elements of a document, and \<open>main\<close> over the events of the XML parser with what it prints. The flows of a
  simulation are a list, which \<open>flow_map\<close> refers to by position: two elements of one number share an entry.
  Floats are rational numbers, so that the texts \<open>inf\<close> and \<open>nan\<close>, which \<open>float\<close> accepts, are left out.

  The second half is the other side of the file: the document as \<open>FlowMonitor::SerializeToXmlStream\<close> of
  \<^verbatim>\<open>src/flow-monitor/model/flow-monitor.cc\<close> writes it, so that one theorem says what the parser finds in it.
\<close>

section \<open>Attributes\<close>

definition py_div :: "rat \<Rightarrow> rat \<Rightarrow> py_error + rat" where
  "py_div a b = (if b = 0 then Inl ZeroDivisionError else Inr (a / b))"

text \<open>\<open>int(el.get(k))\<close> and \<open>float(el.get(k))\<close>: both refuse None.\<close>

definition int_attr :: "element \<Rightarrow> string \<Rightarrow> py_error + int" where
  "int_attr e k = (case attr e k of None \<Rightarrow> Inl TypeError | Some s \<Rightarrow> py_int s)"

definition float_attr :: "element \<Rightarrow> string \<Rightarrow> py_error + rat" where
  "float_attr e k = (case attr e k of None \<Rightarrow> Inl TypeError | Some s \<Rightarrow> py_float s)"

definition parse_time_ns :: "string option \<Rightarrow> py_error + rat" where
  "parse_time_ns tm = (case tm of
       None \<Rightarrow> Inl AttributeError
     | Some s \<Rightarrow> if endswith s ''ns'' then py_float (slice_to s (- 2)) else Inl ValueError)"

section \<open>The classes\<close>

record five_tuple =
  sourceAddress :: "string option"
  destinationAddress :: "string option"
  sourcePort :: int
  destinationPort :: int
  protocol :: int

definition new_five_tuple :: "element \<Rightarrow> py_error + five_tuple" where
  "new_five_tuple el =
     rbind (int_attr el ''sourcePort'') (\<lambda>sp.
     rbind (int_attr el ''destinationPort'') (\<lambda>dp.
     rbind (int_attr el ''protocol'') (\<lambda>pr.
     Inr \<lparr> sourceAddress = attr el ''sourceAddress'', destinationAddress = attr el ''destinationAddress'',
           sourcePort = sp, destinationPort = dp, protocol = pr \<rparr>)))"

type_synonym bin = "rat \<times> rat \<times> int"

definition read_bin :: "element \<Rightarrow> py_error + bin" where
  "read_bin b = rbind (float_attr b ''start'') (\<lambda>s. rbind (float_attr b ''width'') (\<lambda>w.
     rbind (int_attr b ''count'') (\<lambda>c. Inr (s, w, c))))"

text \<open>A histogram has the field \<open>bins\<close> only: the line that sets \<open>nbins\<close> is a comment.\<close>

definition new_histogram :: "element option \<Rightarrow> py_error + bin list" where
  "new_histogram el = (case el of None \<Rightarrow> Inr [] | Some e \<Rightarrow> rmap read_bin (findall ''bin'' e))"

record probe_flow_stats =
  probeId :: int
  packets :: int
  probe_bytes :: rat
  delayFromFirstProbe :: rat

text \<open>\<open>fiveTuple\<close> is None for the attribute that \<open>__init__\<close> does not set.\<close>

record flow =
  flowId :: int
  hopCount :: rat
  delayMean :: "rat option"
  packetSizeMean :: "rat option"
  rxBitrate :: "rat option"
  txBitrate :: "rat option"
  packetLossRatio :: "rat option"
  rx_duration :: rat
  flowInterruptionsHistogram :: "bin list option"
  fiveTuple :: "five_tuple option"
  probe_stats_unsorted :: "probe_flow_stats list"

definition duration :: "element \<Rightarrow> string \<Rightarrow> string \<Rightarrow> py_error + rat" where
  "duration el later earlier =
     rbind (parse_time_ns (attr el later)) (\<lambda>l.
     rbind (parse_time_ns (attr el earlier)) (\<lambda>f. Inr ((l - f) / 10 ^ 9)))"

definition hop_count :: "element \<Rightarrow> rat \<Rightarrow> py_error + rat" where
  "hop_count el rx =
     (if rx \<noteq> 0 then rbind (float_attr el ''timesForwarded'') (\<lambda>n. Inr (n / rx + 1)) else Inr (- 1000))"

definition delay_mean :: "element \<Rightarrow> rat \<Rightarrow> py_error + rat" where
  "delay_mean el rx = rbind (case attr el ''delaySum'' of None \<Rightarrow> Inl TypeError | Some s \<Rightarrow> py_float (slice_to s (- 2)))
     (\<lambda>d. Inr (d / rx / 10 ^ 9))"

definition means :: "element \<Rightarrow> rat \<Rightarrow> py_error + (rat option \<times> rat option)" where
  "means el rx =
     (if rx \<noteq> 0 then rbind (delay_mean el rx) (\<lambda>d.
        rbind (float_attr el ''rxBytes'') (\<lambda>b. Inr (Some d, Some (b / rx)))) else Inr (None, None))"

definition bitrate :: "element \<Rightarrow> string \<Rightarrow> rat \<Rightarrow> py_error + rat option" where
  "bitrate el k d = (if 0 < d then rbind (float_attr el k) (\<lambda>b. Inr (Some (b * 8 / d))) else Inr None)"

definition loss_ratio :: "rat \<Rightarrow> rat \<Rightarrow> py_error + rat option" where
  "loss_ratio rx lost = (if rx = 0 then Inr None else rbind (py_div lost (rx + lost)) (\<lambda>q. Inr (Some q)))"

definition interruptions :: "element \<Rightarrow> py_error + bin list option" where
  "interruptions el = (case find_child ''flowInterruptionsHistogram'' el of
       None \<Rightarrow> Inr None
     | Some h \<Rightarrow> rbind (new_histogram (Some h)) (\<lambda>bs. Inr (Some bs)))"

definition new_flow :: "element \<Rightarrow> py_error + flow" where
  "new_flow el =
     rbind (int_attr el ''flowId'') (\<lambda>i.
     rbind (float_attr el ''rxPackets'') (\<lambda>rx.
     rbind (float_attr el ''txPackets'') (\<lambda>_.
     rbind (duration el ''timeLastTxPacket'' ''timeFirstTxPacket'') (\<lambda>txd.
     rbind (duration el ''timeLastRxPacket'' ''timeFirstRxPacket'') (\<lambda>rxd.
     rbind (hop_count el rx) (\<lambda>hops.
     rbind (means el rx) (\<lambda>(d, size).
     rbind (bitrate el ''rxBytes'' rxd) (\<lambda>rxb.
     rbind (bitrate el ''txBytes'' txd) (\<lambda>txb.
     rbind (float_attr el ''lostPackets'') (\<lambda>lost.
     rbind (loss_ratio rx lost) (\<lambda>ratio.
     rbind (interruptions el) (\<lambda>h.
     Inr \<lparr> flowId = i, hopCount = hops, delayMean = d, packetSizeMean = size, rxBitrate = rxb, txBitrate = txb,
           packetLossRatio = ratio, rx_duration = rxd, flowInterruptionsHistogram = h,
           fiveTuple = None, probe_stats_unsorted = [] \<rparr>))))))))))))"

section \<open>\<open>Simulation\<close>\<close>

type_synonym flow_refs = "(int, nat) dict"

definition add_flow :: "flow list \<times> flow_refs \<Rightarrow> element \<Rightarrow> py_error + flow list \<times> flow_refs" where
  "add_flow s el = (case s of (fs, m) \<Rightarrow> rbind (new_flow el) (\<lambda>f.
     Inr (fs @ [f], AList.update (flowId f) (length fs) m)))"

text \<open>\<open>flow_map[i].x = \<dots>\<close>: the object is changed where it stands.\<close>

definition with_flow :: "flow_refs \<Rightarrow> int \<Rightarrow> (flow \<Rightarrow> flow) \<Rightarrow> flow list \<Rightarrow> py_error + flow list" where
  "with_flow m i u fs = (case map_of m i of None \<Rightarrow> Inl KeyError | Some k \<Rightarrow> Inr (fs[k := u (fs ! k)]))"

text \<open>The right-hand side is evaluated before the look-up.\<close>

definition classify_flow :: "flow_refs \<Rightarrow> flow list \<Rightarrow> element \<Rightarrow> py_error + flow list" where
  "classify_flow m fs el = rbind (int_attr el ''flowId'') (\<lambda>i. rbind (new_five_tuple el) (\<lambda>t.
     with_flow m i (fiveTuple_update (\<lambda>_. Some t)) fs))"

definition new_probe_stats :: "int \<Rightarrow> element \<Rightarrow> py_error + probe_flow_stats" where
  "new_probe_stats probe el =
     rbind (int_attr el ''packets'') (\<lambda>n.
     rbind (float_attr el ''bytes'') (\<lambda>b.
     rbind (if 0 < n then rbind (parse_time_ns (attr el ''delayFromFirstProbeSum'')) (\<lambda>d. Inr (d / of_int n)) else Inr 0) (\<lambda>d.
     Inr \<lparr> probeId = probe, packets = n, probe_bytes = b, delayFromFirstProbe = d \<rparr>)))"

definition add_probe_stats :: "flow_refs \<Rightarrow> int \<Rightarrow> flow list \<Rightarrow> element \<Rightarrow> py_error + flow list" where
  "add_probe_stats m probe fs el = rbind (int_attr el ''flowId'') (\<lambda>i. rbind (new_probe_stats probe el) (\<lambda>s.
     with_flow m i (probe_stats_unsorted_update (\<lambda>ss. ss @ [s])) fs))"

definition add_probe :: "flow_refs \<Rightarrow> flow list \<Rightarrow> element \<Rightarrow> py_error + flow list" where
  "add_probe m fs el = rbind (int_attr el ''index'') (\<lambda>probe.
     rfold (add_probe_stats m probe) fs (findall ''FlowStats'' el))"

text \<open>The unpacking \<open>FlowClassifier_el, = \<dots>\<close> asks for exactly one element.\<close>

definition new_simulation :: "element \<Rightarrow> py_error + flow list" where
  "new_simulation el = (case findall ''Ipv4FlowClassifier'' el of
       [classifier] \<Rightarrow>
         rbind (rfold add_flow ([], []) (findall2 ''FlowStats'' ''Flow'' el)) (\<lambda>(fs, m).
         rbind (rfold (classify_flow m) fs (findall ''Flow'' classifier)) (\<lambda>fs'.
         rfold (add_probe m) fs' (findall2 ''FlowProbes'' ''FlowProbe'' el)))
     | _ \<Rightarrow> Inl ValueError)"

section \<open>\<open>main\<close>\<close>

text \<open>What is printed is the state.\<close>

type_synonym 'a printing = "(string, 'a) proc"

definition print_text :: "string \<Rightarrow> unit printing" where
  "print_text s = modify (\<lambda>out. out @ s)"

text \<open>\<open>%.2f\<close>: rounded to the nearer number of hundredths, ties to even.\<close>

definition round_half_even :: "rat \<Rightarrow> int" where
  "round_half_even x = (let f = \<lfloor>x\<rfloor>; d = x - of_int f in
     if d < 1 / 2 then f else if 1 / 2 < d then f + 1 else if even f then f else f + 1)"

definition show_hundredths :: "nat \<Rightarrow> string" where
  "show_hundredths n = show_nat (n div 100) @ ''.'' @ [digit_char (n div 10 mod 10), digit_char (n mod 10)]"

definition show_fixed2 :: "rat \<Rightarrow> string" where
  "show_fixed2 x = (if x < 0 then ''-'' else []) @ show_hundredths (nat (round_half_even (\<bar>x\<bar> * 100)))"

definition proto_name :: "int \<Rightarrow> py_error + string" where
  "proto_name p = (if p = 6 then Inr ''TCP'' else if p = 17 then Inr ''UDP'' else Inl KeyError)"

definition flow_header :: "flow \<Rightarrow> py_error + string" where
  "flow_header f = (case fiveTuple f of
       None \<Rightarrow> Inl AttributeError
     | Some t \<Rightarrow> rbind (proto_name (protocol t)) (\<lambda>proto.
         Inr (''FlowID: '' @ show_int (flowId f) @ '' ('' @ proto @ '' '' @ str (sourceAddress t) @ ''/''
           @ show_int (sourcePort t) @ '' --> '' @ str (destinationAddress t) @ ''/''
           @ show_int (destinationPort t) @ '')'' @ [NL])))"

text \<open>One of the four lines below it: a name, the value or None, a factor and a unit.\<close>

definition figure_line :: "string \<Rightarrow> rat option \<Rightarrow> rat \<Rightarrow> string \<Rightarrow> string" where
  "figure_line name v k u = TAB # name @ '': '' @
     (case v of None \<Rightarrow> ''None'' | Some x \<Rightarrow> show_fixed2 (x * k) @ u) @ [NL]"

definition show_flow :: "flow \<Rightarrow> unit printing" where
  "show_flow f =
     seq (sbind (lift (flow_header f)) print_text)
    (seq (print_text (figure_line ''TX bitrate'' (txBitrate f) (1 / 1000) '' kbit/s''))
    (seq (print_text (figure_line ''RX bitrate'' (rxBitrate f) (1 / 1000) '' kbit/s''))
    (seq (print_text (figure_line ''Mean Delay'' (delayMean f) 1000 '' ms''))
         (print_text (figure_line ''Packet Loss Ratio'' (packetLossRatio f) 100 '' %'')))))"

datatype xml_event = Start_Event | End_Event element

text \<open>The body of the loop over the events: the level of nesting and the simulations read so far.\<close>

definition take_event :: "int \<times> flow list list \<Rightarrow> xml_event \<Rightarrow> (int \<times> flow list list) printing" where
  "take_event s ev = (case s of (level, sims) \<Rightarrow> (case ev of
       Start_Event \<Rightarrow> ret (level + 1, sims)
     | End_Event el \<Rightarrow>
         if level - 1 = 0 \<and> tag el = ''FlowMonitor'' then
           sbind (lift (new_simulation el)) (\<lambda>sim. seq (print_text ''.'') (ret (level - 1, sims @ [sim])))
         else ret (level - 1, sims)))"

fun take_events :: "int \<times> flow list list \<Rightarrow> xml_event list \<Rightarrow> (int \<times> flow list list) printing" where
  "take_events s [] = ret s"
| "take_events s (ev # evs) = sbind (take_event s ev) (\<lambda>s'. take_events s' evs)"

text \<open>
  \<open>iterparse\<close> gives the events of the document and, when the document ends badly, the error it raises after
  them; \<open>open_file\<close> opens the file named by the first argument.
\<close>

definition main :: "(string \<Rightarrow> py_error + 'f) \<Rightarrow> ('f \<Rightarrow> xml_event list \<times> py_error option) \<Rightarrow> string list \<Rightarrow> unit printing" where
  "main open_file iterparse argv =
     sbind (lift (py_index argv 1)) (\<lambda>name.
     sbind (lift (open_file name)) (\<lambda>file_obj.
     seq (print_text ''Reading XML file  '')
    (case iterparse file_obj of (evs, broken) \<Rightarrow>
       sbind (take_events (0, []) evs) (\<lambda>(_, sims).
       seq (case broken of None \<Rightarrow> ret () | Some e \<Rightarrow> fail e)
      (seq (print_text ('' done.'' @ [NL]))
           (sfor (sfor show_flow) sims))))))"

section \<open>The document of the flow monitor\<close>

text \<open>
  \<open>FlowMonitor::FlowStats\<close> with its identifier. Times are in nanoseconds. How C++ prints a number and a time
  (six significant digits, a sign in front of a time) are the arguments \<open>num_text\<close> and \<open>time_text\<close>; all that
  is asked of them is that \<open>float\<close> reads the rounded value \<open>rd v\<close> back.
\<close>

record hist =
  binWidth :: rat
  bin_counts :: "nat list"

record flow_stats =
  stats_id :: nat
  timeFirstTxPacket :: rat
  timeFirstRxPacket :: rat
  timeLastTxPacket :: rat
  timeLastRxPacket :: rat
  delaySum :: rat
  jitterSum :: rat
  lastDelay :: rat
  txBytes :: nat
  rxBytes :: nat
  txPackets :: nat
  rxPackets :: nat
  lostPackets :: nat
  timesForwarded :: nat
  packetsDropped :: "nat list"
  bytesDropped :: "nat list"
  delayHistogram :: hist
  jitterHistogram :: hist
  packetSizeHistogram :: hist
  interruptionsHistogram :: hist

text \<open>White space between the tags is left out.\<close>

abbreviation node :: "string \<Rightarrow> (string \<times> string) list \<Rightarrow> element list \<Rightarrow> element" where
  "node t as cs \<equiv> Element t as None cs"

definition dropped_elements :: "string \<Rightarrow> string \<Rightarrow> nat list \<Rightarrow> element list" where
  "dropped_elements t k ns =
     map (\<lambda>(r, n). node t [(''reasonCode'', show_nat r), (k, show_nat n)] []) (enumerate 0 ns)"

definition bin_element :: "(rat \<Rightarrow> string) \<Rightarrow> rat \<Rightarrow> nat \<times> nat \<Rightarrow> element" where
  "bin_element num_text w b = (case b of (i, c) \<Rightarrow> node ''bin''
     [(''index'', show_nat i), (''start'', num_text (of_nat i * w)), (''width'', num_text w), (''count'', show_nat c)] [])"

definition histogram_element :: "(rat \<Rightarrow> string) \<Rightarrow> string \<Rightarrow> hist \<Rightarrow> element" where
  "histogram_element num_text t h = node t [(''nBins'', show_nat (length (bin_counts h)))]
     (map (bin_element num_text (binWidth h)) (filter (\<lambda>(_, c). c \<noteq> 0) (enumerate 0 (bin_counts h))))"

definition ns_text :: "(rat \<Rightarrow> string) \<Rightarrow> rat \<Rightarrow> string" where
  "ns_text time_text t = time_text t @ ''ns''"

definition flow_element :: "(rat \<Rightarrow> string) \<Rightarrow> (rat \<Rightarrow> string) \<Rightarrow> bool \<Rightarrow> flow_stats \<Rightarrow> element" where
  "flow_element num_text time_text histograms s = node ''Flow''
     [(''flowId'', show_nat (stats_id s)),
      (''timeFirstTxPacket'', ns_text time_text (timeFirstTxPacket s)),
      (''timeFirstRxPacket'', ns_text time_text (timeFirstRxPacket s)),
      (''timeLastTxPacket'', ns_text time_text (timeLastTxPacket s)),
      (''timeLastRxPacket'', ns_text time_text (timeLastRxPacket s)),
      (''delaySum'', ns_text time_text (delaySum s)),
      (''jitterSum'', ns_text time_text (jitterSum s)),
      (''lastDelay'', ns_text time_text (lastDelay s)),
      (''txBytes'', show_nat (txBytes s)), (''rxBytes'', show_nat (rxBytes s)),
      (''txPackets'', show_nat (txPackets s)), (''rxPackets'', show_nat (rxPackets s)),
      (''lostPackets'', show_nat (lostPackets s)), (''timesForwarded'', show_nat (timesForwarded s))]
     (dropped_elements ''packetsDropped'' ''number'' (packetsDropped s)
      @ dropped_elements ''bytesDropped'' ''bytes'' (bytesDropped s)
      @ (if histograms then
           [histogram_element num_text ''delayHistogram'' (delayHistogram s),
            histogram_element num_text ''jitterHistogram'' (jitterHistogram s),
            histogram_element num_text ''packetSizeHistogram'' (packetSizeHistogram s),
            histogram_element num_text ''flowInterruptionsHistogram'' (interruptionsHistogram s)] else []))"

text \<open>An entry of a classifier's map of flows, with the code points seen.\<close>

record classified =
  cls_id :: nat
  cls_source :: string
  cls_destination :: string
  cls_protocol :: nat
  cls_source_port :: nat
  cls_destination_port :: nat
  cls_dscp :: "(nat \<times> nat) list"

fun show_hex :: "nat \<Rightarrow> string" where
  "show_hex n = (if n < 16 then [''0123456789abcdef'' ! n] else show_hex (n div 16) @ [''0123456789abcdef'' ! (n mod 16)])"

declare show_hex.simps [simp del]

definition dscp_element :: "nat \<times> nat \<Rightarrow> element" where
  "dscp_element d = (case d of (v, n) \<Rightarrow> node ''Dscp'' [(''value'', ''0x'' @ show_hex v), (''packets'', show_nat n)] [])"

definition classified_element :: "classified \<Rightarrow> element" where
  "classified_element c = node ''Flow''
     [(''flowId'', show_nat (cls_id c)), (''sourceAddress'', cls_source c), (''destinationAddress'', cls_destination c),
      (''protocol'', show_nat (cls_protocol c)), (''sourcePort'', show_nat (cls_source_port c)),
      (''destinationPort'', show_nat (cls_destination_port c))] (map dscp_element (cls_dscp c))"

text \<open>The tag of a classifier is \<open>Ipv4FlowClassifier\<close> or \<open>Ipv6FlowClassifier\<close>.\<close>

definition classifier_element :: "string \<times> classified list \<Rightarrow> element" where
  "classifier_element c = node (fst c) [] (map classified_element (snd c))"

record probed =
  prb_id :: nat
  prb_packets :: nat
  prb_bytes :: nat
  delayFromFirstProbeSum :: rat
  prb_packets_dropped :: "nat list"
  prb_bytes_dropped :: "nat list"

text \<open>A time is printed in the unit of the simulator's resolution.\<close>

definition probed_element :: "string \<Rightarrow> (rat \<Rightarrow> string) \<Rightarrow> probed \<Rightarrow> element" where
  "probed_element unit time_text p = node ''FlowStats''
     [(''flowId'', show_nat (prb_id p)), (''packets'', show_nat (prb_packets p)), (''bytes'', show_nat (prb_bytes p)),
      (''delayFromFirstProbeSum'', time_text (delayFromFirstProbeSum p) @ unit)]
     (dropped_elements ''packetsDropped'' ''number'' (prb_packets_dropped p)
      @ dropped_elements ''bytesDropped'' ''bytes'' (prb_bytes_dropped p))"

definition probe_element :: "string \<Rightarrow> (rat \<Rightarrow> string) \<Rightarrow> nat \<times> probed list \<Rightarrow> element" where
  "probe_element unit time_text p = (case p of (i, ps) \<Rightarrow>
     node ''FlowProbe'' [(''index'', show_nat i)] (map (probed_element unit time_text) ps))"

definition monitor_element ::
  "(rat \<Rightarrow> string) \<Rightarrow> (rat \<Rightarrow> string) \<Rightarrow> string \<Rightarrow> bool \<Rightarrow> bool \<Rightarrow> flow_stats list \<Rightarrow> (string \<times> classified list) list
     \<Rightarrow> probed list list \<Rightarrow> element" where
  "monitor_element num_text time_text unit histograms probes flows classifiers flow_probes =
     node ''FlowMonitor'' []
       (node ''FlowStats'' [] (map (flow_element num_text time_text histograms) flows)
        # map classifier_element classifiers
        @ (if probes then [node ''FlowProbes'' [] (map (probe_element unit time_text) (enumerate 0 flow_probes))] else []))"

text \<open>The events of \<open>iterparse\<close> for a document.\<close>

fun events_of :: "element \<Rightarrow> xml_event list" where
  "events_of (Element t as x cs) = Start_Event # concat (map events_of cs) @ [End_Event (Element t as x cs)]"

section \<open>Numbers read back\<close>

definition reads :: "(rat \<Rightarrow> string) \<Rightarrow> (rat \<Rightarrow> rat) \<Rightarrow> bool" where
  "reads text_of rd \<longleftrightarrow> (\<forall>v. py_float (text_of v) = Inr (rd v))"

lemma readsD: "reads text_of rd \<Longrightarrow> py_float (text_of v) = Inr (rd v)"
  by (simp add: reads_def)

lemma slice_off_unit [simp]: "slice_to (s @ [a, b]) (- 2) = s"
  by (simp add: slice_to_def slice_pos_def)

lemma parse_ns_text: "reads time_text rd \<Longrightarrow> parse_time_ns (Some (ns_text time_text t)) = Inr (rd t)"
  by (simp add: parse_time_ns_def ns_text_def endswith_def readsD)

section \<open>What is read from an element of the flow monitor\<close>

definition read_bins :: "(rat \<Rightarrow> rat) \<Rightarrow> hist \<Rightarrow> bin list" where
  "read_bins rd h = map (\<lambda>(i, c). (rd (of_nat i * binWidth h), rd (binWidth h), int c))
     (filter (\<lambda>(_, c). c \<noteq> 0) (enumerate 0 (bin_counts h)))"

definition elapsed :: "(rat \<Rightarrow> rat) \<Rightarrow> rat \<Rightarrow> rat \<Rightarrow> rat" where
  "elapsed rd later earlier = (rd later - rd earlier) / 10 ^ 9"

definition per_second :: "nat \<Rightarrow> rat \<Rightarrow> rat option" where
  "per_second b d = (if 0 < d then Some (of_nat b * 8 / d) else None)"

definition figures :: "(rat \<Rightarrow> rat) \<Rightarrow> bool \<Rightarrow> flow_stats \<Rightarrow> flow" where
  "figures rd histograms s = (let rx = of_nat (rxPackets s); got = (\<lambda>x. if rxPackets s = 0 then None else Some x);
       rxd = elapsed rd (timeLastRxPacket s) (timeFirstRxPacket s) in
     \<lparr> flowId = int (stats_id s),
       hopCount = (if rxPackets s = 0 then - 1000 else of_nat (timesForwarded s) / rx + 1),
       delayMean = got (rd (delaySum s) / rx / 10 ^ 9),
       packetSizeMean = got (of_nat (rxBytes s) / rx),
       rxBitrate = per_second (rxBytes s) rxd,
       txBitrate = per_second (txBytes s) (elapsed rd (timeLastTxPacket s) (timeFirstTxPacket s)),
       packetLossRatio = got (of_nat (lostPackets s) / of_nat (rxPackets s + lostPackets s)),
       rx_duration = rxd,
       flowInterruptionsHistogram = (if histograms then Some (read_bins rd (interruptionsHistogram s)) else None),
       fiveTuple = None, probe_stats_unsorted = [] \<rparr>)"

lemma read_bin_element:
  "reads num_text rd \<Longrightarrow> read_bin (bin_element num_text w b) = Inr (rd (of_nat (fst b) * w), rd w, int (snd b))"
  by (simp add: read_bin_def bin_element_def float_attr_def int_attr_def readsD split: prod.split)

lemma new_histogram_reads:
  assumes "reads num_text rd"
  shows "new_histogram (Some (histogram_element num_text t h)) = Inr (read_bins rd h)"
proof -
  have "findall ''bin'' (histogram_element num_text t h)
      = map (bin_element num_text (binWidth h)) (filter (\<lambda>(_, c). c \<noteq> 0) (enumerate 0 (bin_counts h)))"
    unfolding histogram_element_def by (rule findall_same) (auto simp: bin_element_def)
  then show ?thesis
    by (simp add: new_histogram_def rmap_map read_bins_def read_bin_element [OF assms] case_prod_beta rmap_total)
qed

lemma dropped_tags: "c \<in> set (dropped_elements t k ns) \<Longrightarrow> tag c = t"
  by (auto simp: dropped_elements_def)

lemma find_filter: "find P xs = (case filter P xs of [] \<Rightarrow> None | x # _ \<Rightarrow> Some x)"
  by (induction xs) auto

lemma find_interruptions:
  "find_child ''flowInterruptionsHistogram'' (flow_element num_text time_text h s) =
     (if h then Some (histogram_element num_text ''flowInterruptionsHistogram'' (interruptionsHistogram s)) else None)"
proof -
  have d: "filter (\<lambda>c. tag c = ''flowInterruptionsHistogram'') (dropped_elements t k ns) = []"
    if "t \<noteq> ''flowInterruptionsHistogram''" for t k ns
    using that by (auto simp: filter_empty_conv dest: dropped_tags)
  show ?thesis by (simp add: find_child_def find_filter flow_element_def d histogram_element_def)
qed

lemma flow_attrs:
  "attr (flow_element num_text time_text h s) ''flowId'' = Some (show_nat (stats_id s))"
  "attr (flow_element num_text time_text h s) ''timeFirstTxPacket'' = Some (ns_text time_text (timeFirstTxPacket s))"
  "attr (flow_element num_text time_text h s) ''timeFirstRxPacket'' = Some (ns_text time_text (timeFirstRxPacket s))"
  "attr (flow_element num_text time_text h s) ''timeLastTxPacket'' = Some (ns_text time_text (timeLastTxPacket s))"
  "attr (flow_element num_text time_text h s) ''timeLastRxPacket'' = Some (ns_text time_text (timeLastRxPacket s))"
  "attr (flow_element num_text time_text h s) ''delaySum'' = Some (ns_text time_text (delaySum s))"
  "attr (flow_element num_text time_text h s) ''txBytes'' = Some (show_nat (txBytes s))"
  "attr (flow_element num_text time_text h s) ''rxBytes'' = Some (show_nat (rxBytes s))"
  "attr (flow_element num_text time_text h s) ''txPackets'' = Some (show_nat (txPackets s))"
  "attr (flow_element num_text time_text h s) ''rxPackets'' = Some (show_nat (rxPackets s))"
  "attr (flow_element num_text time_text h s) ''lostPackets'' = Some (show_nat (lostPackets s))"
  "attr (flow_element num_text time_text h s) ''timesForwarded'' = Some (show_nat (timesForwarded s))"
  by (simp_all add: flow_element_def)

lemma new_flow_reads:
  assumes "reads num_text rd" "reads time_text rd"
  shows "new_flow (flow_element num_text time_text h s) = Inr (figures rd h s)"
proof -
  let ?e = "flow_element num_text time_text h s"
  note a = flow_attrs [of num_text time_text h s] parse_ns_text [OF assms(2)]
  note d = int_attr_def float_attr_def duration_def a
  have hops: "hop_count ?e (of_nat (rxPackets s)) = Inr (hopCount (figures rd h s))"
    by (simp add: hop_count_def d figures_def Let_def)
  have means: "means ?e (of_nat (rxPackets s)) = Inr (delayMean (figures rd h s), packetSizeMean (figures rd h s))"
    by (simp add: means_def delay_mean_def d figures_def Let_def ns_text_def readsD [OF assms(2)])
  have rate: "bitrate ?e ''rxBytes'' x = Inr (per_second (rxBytes s) x)"
    "bitrate ?e ''txBytes'' x = Inr (per_second (txBytes s) x)" for x
    by (simp_all add: bitrate_def per_second_def d)
  have loss: "loss_ratio (of_nat (rxPackets s)) (of_nat (lostPackets s)) = Inr (packetLossRatio (figures rd h s))"
    by (auto simp: loss_ratio_def py_div_def figures_def Let_def add_nonneg_eq_0_iff)
  have hist: "interruptions ?e = Inr (flowInterruptionsHistogram (figures rd h s))"
    by (simp add: interruptions_def find_interruptions figures_def Let_def new_histogram_reads [OF assms(1)])
  show ?thesis
    by (simp add: new_flow_def d hops means rate loss hist) (simp add: figures_def elapsed_def Let_def)
qed

section \<open>What is read from a document\<close>

definition tuple_of :: "classified \<Rightarrow> five_tuple" where
  "tuple_of c = \<lparr> sourceAddress = Some (cls_source c), destinationAddress = Some (cls_destination c),
     sourcePort = int (cls_source_port c), destinationPort = int (cls_destination_port c),
     protocol = int (cls_protocol c) \<rparr>"

definition tuple_for :: "classified list \<Rightarrow> nat \<Rightarrow> five_tuple option" where
  "tuple_for cs i = (let own = filter (\<lambda>c. cls_id c = i) cs in if own = [] then None else Some (tuple_of (last own)))"

definition read_probed :: "(rat \<Rightarrow> rat) \<Rightarrow> nat \<Rightarrow> probed \<Rightarrow> probe_flow_stats" where
  "read_probed rd n p = \<lparr> probeId = int n, packets = int (prb_packets p), probe_bytes = of_nat (prb_bytes p),
     delayFromFirstProbe = (if prb_packets p = 0 then 0 else rd (delayFromFirstProbeSum p) / of_nat (prb_packets p)) \<rparr>"

definition probe_stats_for :: "(rat \<Rightarrow> rat) \<Rightarrow> probed list list \<Rightarrow> nat \<Rightarrow> probe_flow_stats list" where
  "probe_stats_for rd probes i =
     concat (map (\<lambda>(n, ps). map (read_probed rd n) (filter (\<lambda>p. prb_id p = i) ps)) (enumerate 0 probes))"

definition read_flow :: "(rat \<Rightarrow> rat) \<Rightarrow> bool \<Rightarrow> classified list \<Rightarrow> probed list list \<Rightarrow> flow_stats \<Rightarrow> flow" where
  "read_flow rd h cs probes s = (figures rd h s)
     \<lparr> fiveTuple := tuple_for cs (stats_id s), probe_stats_unsorted := probe_stats_for rd probes (stats_id s) \<rparr>"

definition flow_refs_of :: "flow_stats list \<Rightarrow> flow_refs" where
  "flow_refs_of flows = zip (map (\<lambda>s. int (stats_id s)) flows) [0..<length flows]"

lemma update_fresh: "k \<notin> fst ` set d \<Longrightarrow> AList.update k v d = d @ [(k, v)]"
  by (induction d) auto

lemma add_flows_read:
  assumes "reads num_text rd" "reads time_text rd" "distinct (map stats_id flows)"
  shows "rfold add_flow ([], []) (map (flow_element num_text time_text h) flows)
       = Inr (map (figures rd h) flows, flow_refs_of flows)"
  using assms(3)
proof (induction flows rule: rev_induct)
  case (snoc s flows)
  have "int (stats_id s) \<notin> fst ` set (flow_refs_of flows)"
    using snoc.prems by (auto simp: flow_refs_of_def dest!: set_zip_leftD)
  then have "AList.update (int (stats_id s)) (length flows) (flow_refs_of flows) = flow_refs_of (flows @ [s])"
    by (simp add: update_fresh) (simp add: flow_refs_of_def)
  moreover have "flowId (figures rd h s) = int (stats_id s)" by (simp add: figures_def Let_def)
  ultimately show ?case using snoc by (simp add: rfold_append add_flow_def new_flow_reads [OF assms(1,2)])
qed (simp add: flow_refs_of_def)

lemma flow_ref:
  assumes "distinct (map stats_id flows)" "k < length flows"
  shows "map_of (flow_refs_of flows) (int (stats_id (flows ! k))) = Some k"
proof -
  have "distinct (map (\<lambda>s. int (stats_id s)) flows)" using assms(1) by (simp add: distinct_map inj_on_def)
  from map_of_zip_nth [OF _ this, of "[0..<length flows]" k] assms(2) show ?thesis by (simp add: flow_refs_of_def)
qed

lemma with_flow_map:
  assumes "distinct (map stats_id flows)" "i \<in> stats_id ` set flows"
  shows "with_flow (flow_refs_of flows) (int i) u (map g flows)
       = Inr (map (\<lambda>s. if stats_id s = i then u (g s) else g s) flows)"
proof -
  from assms(2) obtain k where k: "k < length flows" "stats_id (flows ! k) = i" by (auto simp: in_set_conv_nth)
  have "stats_id (flows ! j) = i \<longleftrightarrow> j = k" if "j < length flows" for j
    using nth_eq_iff_index_eq [OF assms(1), of j k] that k by simp
  then have "(map g flows)[k := u (map g flows ! k)] = map (\<lambda>s. if stats_id s = i then u (g s) else g s) flows"
    using k(1) by (intro nth_equalityI) (auto simp: nth_list_update)
  with flow_ref [OF assms(1) k(1)] k(2) show ?thesis by (simp add: with_flow_def)
qed

lemma run_each:
  assumes "\<And>x g. x \<in> set xs \<Longrightarrow> step (map g flows) (e x) = Inr (map (\<lambda>s. v x s (g s)) flows)"
  shows "rfold step (map g flows) (map e xs) = Inr (map (\<lambda>s. fold (\<lambda>x. v x s) xs (g s)) flows)"
  using assms by (induction xs arbitrary: g) auto

lemma classified_attrs:
  "attr (classified_element c) ''flowId'' = Some (show_nat (cls_id c))"
  "attr (classified_element c) ''sourceAddress'' = Some (cls_source c)"
  "attr (classified_element c) ''destinationAddress'' = Some (cls_destination c)"
  "attr (classified_element c) ''protocol'' = Some (show_nat (cls_protocol c))"
  "attr (classified_element c) ''sourcePort'' = Some (show_nat (cls_source_port c))"
  "attr (classified_element c) ''destinationPort'' = Some (show_nat (cls_destination_port c))"
  by (simp_all add: classified_element_def)

lemma classify_flow_reads:
  "classify_flow m fs (classified_element c) =
     with_flow m (int (cls_id c)) (fiveTuple_update (\<lambda>_. Some (tuple_of c))) fs"
  by (simp add: classify_flow_def new_five_tuple_def int_attr_def classified_attrs tuple_of_def)

lemma fold_tuples:
  "fold (\<lambda>c y. if cls_id c = i then fiveTuple_update (\<lambda>_. Some (tuple_of c)) y else y) cs f
     = (case tuple_for cs i of None \<Rightarrow> f | Some t \<Rightarrow> f \<lparr> fiveTuple := Some t \<rparr>)"
  by (induction cs rule: rev_induct) (auto simp: tuple_for_def Let_def)

lemma classified_reads:
  assumes "distinct (map stats_id flows)" "cls_id ` set cs \<subseteq> stats_id ` set flows"
  shows "rfold (classify_flow (flow_refs_of flows)) (map g flows) (map classified_element cs)
       = Inr (map (\<lambda>s. case tuple_for cs (stats_id s) of None \<Rightarrow> g s | Some t \<Rightarrow> (g s) \<lparr> fiveTuple := Some t \<rparr>) flows)"
proof -
  have "classify_flow (flow_refs_of flows) (map g flows) (classified_element c)
      = Inr (map (\<lambda>s. if cls_id c = stats_id s then fiveTuple_update (\<lambda>_. Some (tuple_of c)) (g s) else g s) flows)"
    if "c \<in> set cs" for c g
    using that assms by (subst classify_flow_reads, subst with_flow_map) (auto simp: eq_commute)
  note run_each [where step = "classify_flow (flow_refs_of flows)" and e = classified_element and v = "\<lambda>c s y. if cls_id c = stats_id s then fiveTuple_update (\<lambda>_. Some (tuple_of c)) y else y", OF this]
  then show ?thesis by (simp add: fold_tuples)
qed

lemma probed_attrs:
  "attr (probed_element unit time_text p) ''flowId'' = Some (show_nat (prb_id p))"
  "attr (probed_element unit time_text p) ''packets'' = Some (show_nat (prb_packets p))"
  "attr (probed_element unit time_text p) ''bytes'' = Some (show_nat (prb_bytes p))"
  "attr (probed_element unit time_text p) ''delayFromFirstProbeSum'' = Some (time_text (delayFromFirstProbeSum p) @ unit)"
  by (simp_all add: probed_element_def)

lemma add_probe_stats_reads:
  assumes "reads time_text rd"
  shows "add_probe_stats m (int n) fs (probed_element ''ns'' time_text p) =
     with_flow m (int (prb_id p)) (probe_stats_unsorted_update (\<lambda>ss. ss @ [read_probed rd n p])) fs"
  using parse_ns_text [OF assms]
  by (simp add: add_probe_stats_def new_probe_stats_def int_attr_def float_attr_def probed_attrs read_probed_def ns_text_def)

lemma fold_probed:
  "fold (\<lambda>p y. if prb_id p = i then probe_stats_unsorted_update (\<lambda>ss. ss @ [r p]) y else y) ps f
     = probe_stats_unsorted_update (\<lambda>ss. ss @ map r (filter (\<lambda>p. prb_id p = i) ps)) f"
  by (induction ps arbitrary: f) auto

lemma fold_probes:
  "fold (\<lambda>x. probe_stats_unsorted_update (\<lambda>ss. ss @ r x)) xs f
     = probe_stats_unsorted_update (\<lambda>ss. ss @ concat (map r xs)) f"
  by (induction xs arbitrary: f) auto

lemma probes_read:
  assumes "reads time_text rd" "distinct (map stats_id flows)" "prb_id ` set (concat probes) \<subseteq> stats_id ` set flows"
  shows "rfold (add_probe (flow_refs_of flows)) (map g flows) (map (probe_element ''ns'' time_text) (enumerate 0 probes))
       = Inr (map (\<lambda>s. probe_stats_unsorted_update (\<lambda>ss. ss @ probe_stats_for rd probes (stats_id s)) (g s)) flows)"
proof -
  have one: "rfold (add_probe_stats (flow_refs_of flows) (int n)) (map g flows) (map (probed_element ''ns'' time_text) ps)
      = Inr (map (\<lambda>s. probe_stats_unsorted_update
          (\<lambda>ss. ss @ map (read_probed rd n) (filter (\<lambda>p. prb_id p = stats_id s) ps)) (g s)) flows)"
    if "prb_id ` set ps \<subseteq> stats_id ` set flows" for n ps g
  proof -
    have "add_probe_stats (flow_refs_of flows) (int n) (map g flows) (probed_element ''ns'' time_text p)
        = Inr (map (\<lambda>s. if prb_id p = stats_id s then probe_stats_unsorted_update (\<lambda>ss. ss @ [read_probed rd n p]) (g s)
            else g s) flows)" if "p \<in> set ps" for p g
      using that \<open>prb_id ` set ps \<subseteq> stats_id ` set flows\<close> assms(2)
      by (subst add_probe_stats_reads [OF assms(1)], subst with_flow_map) (auto simp: eq_commute)
    note run_each [where step = "add_probe_stats (flow_refs_of flows) (int n)" and e = "probed_element ''ns'' time_text"
        and v = "\<lambda>p s y. if prb_id p = stats_id s
        then probe_stats_unsorted_update (\<lambda>ss. ss @ [read_probed rd n p]) y else y", OF this]
    then show ?thesis by (simp add: fold_probed)
  qed
  have "findall ''FlowStats'' (probe_element ''ns'' time_text x) = map (probed_element ''ns'' time_text) (snd x)"
    "attr (probe_element ''ns'' time_text x) ''index'' = Some (show_nat (fst x))" for x
    by (simp_all add: probe_element_def findall_def filter_map o_def probed_element_def split: prod.split)
  then have "add_probe (flow_refs_of flows) (map g flows) (probe_element ''ns'' time_text x)
      = Inr (map (\<lambda>s. probe_stats_unsorted_update
          (\<lambda>ss. ss @ map (read_probed rd (fst x)) (filter (\<lambda>p. prb_id p = stats_id s) (snd x))) (g s)) flows)"
    if "x \<in> set (enumerate 0 probes)" for x g
  proof -
    have "snd x \<in> set probes" using that by (auto simp: in_set_enumerate_eq dest: nth_mem)
    with assms(3) have "prb_id ` set (snd x) \<subseteq> stats_id ` set flows" by auto
    from one [OF this] show ?thesis
      by (simp add: add_probe_def int_attr_def \<open>\<And>x. findall _ (probe_element _ _ x) = _\<close> \<open>\<And>x. attr (probe_element _ _ x) _ = _\<close>)
  qed
  note run_each [where step = "add_probe (flow_refs_of flows)" and e = "probe_element ''ns'' time_text" and v = "\<lambda>x s. probe_stats_unsorted_update
      (\<lambda>ss. ss @ map (read_probed rd (fst x)) (filter (\<lambda>p. prb_id p = stats_id s) (snd x)))", OF this]
  then show ?thesis by (simp add: fold_probes probe_stats_for_def case_prod_unfold)
qed

lemma findall2_part:
  assumes "findall t (Element u as x cs) = [p]"
  shows "findall2 t v (Element u as x cs) = findall v p"
  using assms by (simp add: findall2_def)

lemma parts_of_document:
  assumes "filter (\<lambda>c. fst c = ''Ipv4FlowClassifier'') classifiers = [(t, cs)]"
    "\<forall>c \<in> set classifiers. fst c = ''Ipv4FlowClassifier'' \<or> fst c = ''Ipv6FlowClassifier''"
    and doc_def: "doc = monitor_element num_text time_text unit h p flows classifiers probes"
  shows "findall ''Ipv4FlowClassifier'' doc = [classifier_element (t, cs)]"
    and "findall2 ''FlowStats'' ''Flow'' doc = map (flow_element num_text time_text h) flows"
    and "findall2 ''FlowProbes'' ''FlowProbe'' doc = (if p then map (probe_element unit time_text) (enumerate 0 probes) else [])"
proof -
  have tag: "tag (classifier_element c) = fst c" for c by (simp add: classifier_element_def)
  have f: "filter (\<lambda>c. tag c = x) (map classifier_element classifiers) = map classifier_element (filter (\<lambda>c. fst c = x) classifiers)"
    for x by (simp add: filter_map o_def tag)
  show "findall ''Ipv4FlowClassifier'' doc = [classifier_element (t, cs)]"
    using assms(1) by (simp add: doc_def monitor_element_def findall_def f)
  have "filter (\<lambda>c. fst c = x) classifiers = []" if "x = ''FlowStats'' \<or> x = ''FlowProbes''" for x
    using assms(2) that by (fastforce simp: filter_empty_conv)
  note none = this
  have tags: "filter (\<lambda>c. tag c = ''Flow'') (map (flow_element num_text time_text h) flows) = map (flow_element num_text time_text h) flows"
    "filter (\<lambda>c. tag c = ''FlowProbe'') (map (probe_element unit time_text) ps) = map (probe_element unit time_text) ps" for ps
    by (simp_all add: filter_id_conv flow_element_def probe_element_def case_prod_unfold)
  from none show "findall2 ''FlowStats'' ''Flow'' doc = map (flow_element num_text time_text h) flows"
    "findall2 ''FlowProbes'' ''FlowProbe'' doc = (if p then map (probe_element unit time_text) (enumerate 0 probes) else [])"
    by (simp_all add: doc_def monitor_element_def findall2_def findall_def f tags del: filter_map)
qed

text \<open>
  Claim C34. What the flow monitor writes the parser reads: with one IPv4 classifier, distinct flow numbers,
  times in nanoseconds, and classified and probed flows among those with statistics, \<open>Simulation\<close> returns, in
  the order of the document, each flow with the figures of its counters and times, the five-tuple that the
  classifier gives it (if any), and its statistics at each probe in order.
\<close>

theorem monitor_document_read:
  assumes "reads num_text rd" "reads time_text rd" "distinct (map stats_id flows)"
    and "\<forall>c \<in> set classifiers. fst c = ''Ipv4FlowClassifier'' \<or> fst c = ''Ipv6FlowClassifier''"
    and "filter (\<lambda>c. fst c = ''Ipv4FlowClassifier'') classifiers = [(t, cs)]"
    and "cls_id ` set cs \<subseteq> stats_id ` set flows" "prb_id ` set (concat probes) \<subseteq> stats_id ` set flows"
  shows "new_simulation (monitor_element num_text time_text ''ns'' h p flows classifiers probes)
       = Inr (map (read_flow rd h cs (if p then probes else [])) flows)"
proof -
  let ?m = "flow_refs_of flows"
  let ?g = "\<lambda>s. case tuple_for cs (stats_id s) of None \<Rightarrow> figures rd h s | Some t \<Rightarrow> (figures rd h s) \<lparr> fiveTuple := Some t \<rparr>"
  have cls: "findall ''Flow'' (classifier_element (t, cs)) = map classified_element cs"
    unfolding classifier_element_def fst_conv snd_conv by (rule findall_same) (auto simp: classified_element_def)
  have new: "probe_stats_unsorted_update (\<lambda>ss. ss @ x) (?g s)
      = (figures rd h s) \<lparr> fiveTuple := tuple_for cs (stats_id s), probe_stats_unsorted := x \<rparr>" for s x
    by (simp add: figures_def Let_def split: option.split)
  have none: "?g s = (figures rd h s) \<lparr> fiveTuple := tuple_for cs (stats_id s), probe_stats_unsorted := [] \<rparr>" for s
    by (simp add: figures_def Let_def split: option.split)
  have "rfold (add_probe ?m) (map ?g flows) (if p then map (probe_element ''ns'' time_text) (enumerate 0 probes) else [])
      = Inr (map (read_flow rd h cs (if p then probes else [])) flows)"
  proof (cases p)
    case True
    then show ?thesis using probes_read [OF assms(2,3,7), of ?g] by (simp add: new read_flow_def)
  next
    case False
    then show ?thesis by (simp add: none read_flow_def probe_stats_for_def)
  qed
  with parts_of_document [OF assms(5,4) refl] show ?thesis
    by (simp add: new_simulation_def add_flows_read [OF assms(1-3)] cls classified_reads [OF assms(3,6)])
qed

section \<open>What \<open>main\<close> prints\<close>

definition printable :: "flow \<Rightarrow> bool" where
  "printable f = (case fiveTuple f of None \<Rightarrow> False | Some t \<Rightarrow> protocol t = 6 \<or> protocol t = 17)"

definition flow_text :: "flow \<Rightarrow> string" where
  "flow_text f = (case flow_header f of Inl _ \<Rightarrow> [] | Inr h \<Rightarrow> h
     @ figure_line ''TX bitrate'' (txBitrate f) (1 / 1000) '' kbit/s''
     @ figure_line ''RX bitrate'' (rxBitrate f) (1 / 1000) '' kbit/s''
     @ figure_line ''Mean Delay'' (delayMean f) 1000 '' ms''
     @ figure_line ''Packet Loss Ratio'' (packetLossRatio f) 100 '' %'')"

lemma header_cases:
  "printable f \<Longrightarrow> \<exists>h. flow_header f = Inr h"
  "\<not> printable f \<Longrightarrow> flow_header f = Inl (if fiveTuple f = None then AttributeError else KeyError)"
  by (auto simp: printable_def flow_header_def proto_name_def split: option.splits)

lemma show_flow_cases:
  "printable f \<Longrightarrow> show_flow f out = (Inr (), out @ flow_text f)"
  "\<not> printable f \<Longrightarrow> show_flow f out = (Inl (if fiveTuple f = None then AttributeError else KeyError), out)"
proof -
  show "show_flow f out = (Inr (), out @ flow_text f)" if "printable f"
    using header_cases(1) [OF that] by (auto simp: show_flow_def print_text_def flow_text_def sbind_def)
  show "show_flow f out = (Inl (if fiveTuple f = None then AttributeError else KeyError), out)" if "\<not> printable f"
    using header_cases(2) [OF that] by (simp add: show_flow_def sbind_def)
qed

lemma show_flows:
  "sfor show_flow fs out = (case dropWhile printable fs of [] \<Rightarrow> Inr ()
       | f # _ \<Rightarrow> Inl (if fiveTuple f = None then AttributeError else KeyError),
     out @ concat (map flow_text (takeWhile printable fs)))"
proof (induction fs arbitrary: out)
  case (Cons f fs)
  then show ?case by (cases "printable f") (simp_all add: sbind_def show_flow_cases)
qed simp

text \<open>Below the root nothing is read, whatever its tag: the level comes back without having been 0.\<close>

lemma take_events_append: "take_events s (xs @ ys) = sbind (take_events s xs) (\<lambda>s'. take_events s' ys)"
proof (induction xs arbitrary: s)
  case Nil
  show ?case by (rule ext) simp
qed (simp add: sbind_assoc)

lemma inner_events: "0 < level \<Longrightarrow> take_events (level, sims) (events_of e) = ret (level, sims)"
proof (induction e arbitrary: level)
  case (Element t as x cs)
  have "take_events (level + 1, sims) (concat (map events_of ds)) = ret (level + 1, sims)" if "set ds \<subseteq> set cs" for ds
    using that
  proof (induction ds)
    case (Cons d ds)
    then have "take_events (level + 1, sims) (events_of d) = ret (level + 1, sims)"
      using Element.prems by (intro Element.IH) auto
    with Cons show ?case by (intro ext) (simp add: take_events_append)
  qed simp
  from this [of cs] show ?case
    using Element.prems by (intro ext) (simp add: take_event_def take_events_append)
qed

lemma sbind_ret_right: "sbind m ret = m"
  by (rule ext) (simp add: sbind_def split: prod.split sum.split)

lemma document_events:
  assumes "tag doc = ''FlowMonitor''"
  shows "take_events (0, []) (events_of doc)
       = sbind (lift (new_simulation doc)) (\<lambda>sim. seq (print_text ''.'') (ret (0, [sim])))"
proof (cases doc)
  case (Element t as x cs)
  have "take_events (1, []) (concat (map events_of cs)) = ret (1, [])"
  proof (induction cs)
    case (Cons c cs)
    then show ?case by (intro ext) (simp add: take_events_append inner_events)
  qed simp
  with Element assms show ?thesis by (intro ext) (simp add: take_event_def take_events_append sbind_assoc sbind_ret_right)
qed

text \<open>
  Claim C35. For a document of the flow monitor, wherever elements of the same name are nested in it, \<open>main\<close>
  prints the reading line, then the lines of each flow up to the first that cannot be named, and ends there: with
  AttributeError for a flow that no classifier names, with KeyError for a protocol other than TCP and UDP.
\<close>

theorem main_reports:
  assumes "open_file name = Inr file" "iterparse file = (events_of doc, None)"
    and "tag doc = ''FlowMonitor''" "new_simulation doc = Inr fs"
  shows "main open_file iterparse (program # name # rest) [] =
     (case dropWhile printable fs of [] \<Rightarrow> Inr ()
        | f # _ \<Rightarrow> Inl (if fiveTuple f = None then AttributeError else KeyError),
      ''Reading XML file  . done.'' @ [NL] @ concat (map flow_text (takeWhile printable fs)))"
proof -
  have "py_index (program # name # rest) 1 = Inr name" by (simp add: py_index_def)
  with assms show ?thesis
    by (simp add: main_def document_events print_text_def show_flows sbind_def split: list.split)
qed

text \<open>
  The ranges of the figures. A flow without received packets has the hop count \<open>- 1000\<close> and no loss ratio, also
  when all its packets were lost.
\<close>

lemma figures_ranges:
  "packetLossRatio (figures rd h s) = Some q \<Longrightarrow> 0 \<le> q \<and> q < 1"
  "hopCount (figures rd h s) = - 1000 \<and> rxPackets s = 0 \<or> 1 \<le> hopCount (figures rd h s)"
  "rxBitrate (figures rd h s) = Some b \<Longrightarrow> 0 < rx_duration (figures rd h s) \<and> 0 \<le> b"
  by (auto simp: figures_def Let_def per_second_def split: if_splits)

text \<open>Where the resolution of the simulator is finer the times of the probes are in picoseconds, which is refused.\<close>

lemma picoseconds_refused:
  assumes "0 < prb_packets p"
  shows "add_probe_stats m n fs (probed_element ''ps'' time_text p) = Inl ValueError"
  using assms by (simp add: add_probe_stats_def new_probe_stats_def int_attr_def float_attr_def probed_attrs
      parse_time_ns_def endswith_def)

section \<open>An example\<close>

text \<open>A printer of whole nanoseconds, two flows of which one was lost, and a probe.\<close>

definition whole_text :: "rat \<Rightarrow> string" where
  "whole_text v = CHR ''+'' # show_nat (nat \<lfloor>v\<rfloor>)"

definition whole_read :: "rat \<Rightarrow> rat" where
  "whole_read v = of_nat (nat \<lfloor>v\<rfloor>)"

lemma whole_reads: "reads whole_text whole_read"
  by (simp add: reads_def whole_text_def whole_read_def py_float_plus)

definition no_hist :: hist where
  "no_hist = \<lparr> binWidth = 1 / 2, bin_counts = [] \<rparr>"

definition sample_flow :: "nat \<Rightarrow> nat \<Rightarrow> nat \<Rightarrow> flow_stats" where
  "sample_flow i got lost = \<lparr> stats_id = i, timeFirstTxPacket = 0, timeFirstRxPacket = 1000000000,
     timeLastTxPacket = 4000000000, timeLastRxPacket = (if got = 0 then 1000000000 else 5000000000),
     delaySum = of_nat got * 1000000000, jitterSum = 0, lastDelay = 0, txBytes = 100 * (got + lost), rxBytes = 100 * got,
     txPackets = got + lost, rxPackets = got, lostPackets = lost, timesForwarded = got, packetsDropped = [0, lost],
     bytesDropped = [0, 100 * lost], delayHistogram = no_hist, jitterHistogram = no_hist,
     packetSizeHistogram = no_hist, interruptionsHistogram = \<lparr> binWidth = 2, bin_counts = [0, 3] \<rparr> \<rparr>"

definition sample_classified :: "nat \<Rightarrow> nat \<Rightarrow> classified" where
  "sample_classified i proto = \<lparr> cls_id = i, cls_source = ''10.1.1.1'', cls_destination = ''10.1.1.2'',
     cls_protocol = proto, cls_source_port = 49153, cls_destination_port = 9, cls_dscp = [(46, 3)] \<rparr>"

definition sample_probed :: "nat \<Rightarrow> nat \<Rightarrow> probed" where
  "sample_probed i n = \<lparr> prb_id = i, prb_packets = n, prb_bytes = 100 * n, delayFromFirstProbeSum = of_nat n * 500,
     prb_packets_dropped = [], prb_bytes_dropped = [] \<rparr>"

abbreviation sample_run :: "flow_stats list" where
  "sample_run \<equiv> [sample_flow 1 3 1, sample_flow 2 0 4]"

theorem monitor_document_read_witness:
  "new_simulation (monitor_element whole_text whole_text ''ns'' True True sample_run
       [(''Ipv6FlowClassifier'', []), (''Ipv4FlowClassifier'', [sample_classified 1 17])] [[sample_probed 1 2], [sample_probed 1 0]])
     = Inr (map (read_flow whole_read True [sample_classified 1 17] [[sample_probed 1 2], [sample_probed 1 0]]) sample_run)"
  using monitor_document_read [of whole_text whole_read whole_text sample_run
      "[(''Ipv6FlowClassifier'', []), (''Ipv4FlowClassifier'', [sample_classified 1 17])]" "''Ipv4FlowClassifier''"
      "[sample_classified 1 17]" "[[sample_probed 1 2], [sample_probed 1 0]]" True True]
  by (simp add: whole_reads sample_flow_def sample_classified_def sample_probed_def)

text \<open>What the first flow reports: a quarter lost, a second of delay, six hundred bits a second received.\<close>

lemma sample_figures:
  "packetLossRatio (figures whole_read True (sample_flow 1 3 1)) = Some (1 / 4)"
  "delayMean (figures whole_read True (sample_flow 1 3 1)) = Some 1"
  "rxBitrate (figures whole_read True (sample_flow 1 3 1)) = Some 600"
  "hopCount (figures whole_read True (sample_flow 2 0 4)) = - 1000"
  by (simp_all add: figures_def Let_def sample_flow_def whole_read_def per_second_def elapsed_def)

text \<open>
  A document as the flow monitor prints it, with a flow that no classifier names: \<open>main\<close> prints the first
  flow and ends with the exception at the second.
\<close>

definition small_flow :: "string \<Rightarrow> element" where
  "small_flow i = node ''Flow'' [(''flowId'', i), (''timeFirstTxPacket'', ''+0ns''), (''timeFirstRxPacket'', ''+5e+08ns''),
     (''timeLastTxPacket'', ''+4e+09ns''), (''timeLastRxPacket'', ''+4.5e+09ns''), (''delaySum'', ''+1.5e+09ns''),
     (''txBytes'', ''400''), (''rxBytes'', ''300''), (''txPackets'', ''4''), (''rxPackets'', ''3''), (''lostPackets'', ''1''),
     (''timesForwarded'', ''0'')] []"

definition small_document :: element where
  "small_document = node ''FlowMonitor'' []
     [node ''FlowStats'' [] [small_flow ''1'', small_flow ''2''],
      node ''Ipv4FlowClassifier'' [] [node ''Flow'' [(''flowId'', ''1''), (''sourceAddress'', ''10.1.1.1''),
        (''destinationAddress'', ''10.1.1.2''), (''protocol'', ''17''), (''sourcePort'', ''49153''), (''destinationPort'', ''9'')] []]]"

lemma small_numbers:
  "py_int ''1'' = Inr 1" "py_int ''2'' = Inr 2" "py_int ''17'' = Inr 17" "py_int ''49153'' = Inr 49153" "py_int ''9'' = Inr 9"
  "py_float ''+0'' = Inr 0" "py_float ''+5e+08'' = Inr 500000000" "py_float ''+4e+09'' = Inr 4000000000"
  "py_float ''+4.5e+09'' = Inr 4500000000" "py_float ''+1.5e+09'' = Inr 1500000000"
  "py_float ''400'' = Inr 400" "py_float ''300'' = Inr 300" "py_float ''4'' = Inr 4" "py_float ''3'' = Inr 3"
  "py_float ''1'' = Inr 1" "py_float ''0'' = Inr 0"
  by (simp_all add: py_int_def py_float_def strip_def lstrip_def rstrip_def is_space_def signed_digits_def sign_of_def
      digit_part_def is_digit_def read_nat_def digit_val_def mantissa_def fraction_part_def exponent_sign_def exponent_def scaled_def)


lemma small_times:
  "parse_time_ns (Some ''+0ns'') = Inr 0" "parse_time_ns (Some ''+5e+08ns'') = Inr 500000000"
  "parse_time_ns (Some ''+4e+09ns'') = Inr 4000000000" "parse_time_ns (Some ''+4.5e+09ns'') = Inr 4500000000"
  by (simp_all add: parse_time_ns_def endswith_def slice_to_def slice_pos_def small_numbers)

definition small_figures :: "int \<Rightarrow> flow" where
  "small_figures i = \<lparr> flowId = i, hopCount = 1, delayMean = Some (1 / 2), packetSizeMean = Some 100,
     rxBitrate = Some 600, txBitrate = Some 800, packetLossRatio = Some (1 / 4), rx_duration = 4,
     flowInterruptionsHistogram = None, fiveTuple = None, probe_stats_unsorted = [] \<rparr>"

lemma small_flow_read:
  assumes "py_int t = Inr i" shows "new_flow (small_flow t) = Inr (small_figures i)"
  by (simp add: new_flow_def small_flow_def int_attr_def float_attr_def duration_def small_numbers small_times assms
      hop_count_def means_def delay_mean_def slice_to_def slice_pos_def bitrate_def loss_ratio_def py_div_def
      interruptions_def find_child_def findall_def small_figures_def)

lemma small_read:
  "new_simulation small_document = Inr [(small_figures 1) \<lparr> fiveTuple := Some \<lparr> sourceAddress = Some ''10.1.1.1'',
     destinationAddress = Some ''10.1.1.2'', sourcePort = 49153, destinationPort = 9, protocol = 17 \<rparr> \<rparr>, small_figures 2]"
proof -
  have f: "findall ''Ipv4FlowClassifier'' small_document = [children small_document ! 1]"
    "findall2 ''FlowStats'' ''Flow'' small_document = [small_flow ''1'', small_flow ''2'']"
    "findall2 ''FlowProbes'' ''FlowProbe'' small_document = []"
    by (simp_all add: small_document_def findall_def findall2_def small_flow_def)
  have "flowId (small_figures i) = i" for i by (simp add: small_figures_def)
  then have "rfold add_flow ([], []) [small_flow ''1'', small_flow ''2'']
      = Inr ([small_figures 1, small_figures 2], [(1, 0), (2, 1)])"
    by (simp add: add_flow_def small_flow_read small_numbers)
  then show ?thesis unfolding new_simulation_def f
    by (simp add: small_document_def findall_def classify_flow_def new_five_tuple_def int_attr_def small_numbers with_flow_def)
qed

theorem main_reports_witness:
  "main (\<lambda>_. Inr small_document) (\<lambda>d. (events_of d, None)) [''flowmon-parse-results.py'', ''run.xml''] [] =
    (Inl AttributeError, ''Reading XML file  . done.'' @ [NL] @ ''FlowID: 1 (UDP 10.1.1.1/49153 --> 10.1.1.2/9)'' @ [NL]
      @ TAB # ''TX bitrate: 0.80 kbit/s'' @ [NL] @ TAB # ''RX bitrate: 0.60 kbit/s'' @ [NL]
      @ TAB # ''Mean Delay: 500.00 ms'' @ [NL] @ TAB # ''Packet Loss Ratio: 25.00 %'' @ [NL])"
  using main_reports [where open_file = "\<lambda>_. Inr small_document" and iterparse = "\<lambda>d. (events_of d, None)"
      and program = "''flowmon-parse-results.py''" and name = "''run.xml''" and rest = "[]", OF refl refl _ small_read]
  by (simp add: small_document_def printable_def small_figures_def flow_text_def flow_header_def proto_name_def str_def
      figure_line_def show_fixed2_def show_hundredths_def round_half_even_def show_int_def show_nat.simps digit_char_def)

end
