(* ===== verification/Console_View.thy ===== *)
theory Console_View
  imports Py_State "HOL-Library.Sublist"
begin

text \<open>
  The shell of the visualizer, \<^verbatim>\<open>src/visualizer/visualizer/ipython_view.py\<close>: history, completion and
  execution of \<open>IterableIPShell\<close>, what \<open>ConsoleView\<close> does to its text buffer, and the keys of both views.
  The buffer belongs to the tool kit: the calls made on it are recorded, and of its marks the offsets are kept.
  IPython is a record of functions on a state of its own. What is queued with \<open>idle_add\<close> is a list of
  callbacks, each of which gives the calls it makes.
\<close>

section \<open>History\<close>

text \<open>\<open>self.IP.user_ns['In'][self.history_level].strip('\n')\<close>, and the empty text out of range.\<close>

definition strip_newlines :: "string \<Rightarrow> string" where
  "strip_newlines s = rev (dropWhile (\<lambda>c. c = NL) (rev (dropWhile (\<lambda>c. c = NL) s)))"

definition get_history :: "string list \<Rightarrow> int \<Rightarrow> string" where
  "get_history inputs level = (case py_index inputs level of Inl _ \<Rightarrow> [] | Inr s \<Rightarrow> strip_newlines s)"

text \<open>What is returned, and the level left.\<close>

definition history_back :: "string list \<Rightarrow> int \<Rightarrow> string \<times> int" where
  "history_back inputs level = (let l = level - 1; l' = (if get_history inputs l = [] then l + 1 else l)
     in (get_history inputs l', l'))"

definition history_forward :: "string list \<Rightarrow> int \<Rightarrow> string \<times> int" where
  "history_forward inputs level = (let l = (if level < 0 then level + 1 else level) in (get_history inputs l, l))"

section \<open>Completion\<close>

definition complete_sep :: "char \<Rightarrow> bool" where
  "complete_sep c \<longleftrightarrow> is_space c \<or> c \<in> set ''{}[]()''"

text \<open>\<open>split_line[-1]\<close>\<close>

definition last_word :: "string \<Rightarrow> string" where
  "last_word line = rev (takeWhile (\<lambda>c. \<not> complete_sep c) (rev line))"

definition common_prefix :: "string \<Rightarrow> string \<Rightarrow> string" where
  "common_prefix s1 s2 = (case find (\<lambda>i. \<not> startswith s2 (take (i + 1) s1)) [0..<length s1] of
       Some i \<Rightarrow> take i s1
     | None \<Rightarrow> s1)"

text \<open>
  The completer gives the possibilities for a word. The list is empty, or its common prefix, or else the last
  character of the line, takes the place of the word.
\<close>

definition complete_line :: "(string \<Rightarrow> string list) \<Rightarrow> string \<Rightarrow> string \<times> string list" where
  "complete_line completer line = (let w = last_word line; ps = (if w = [] then [] else completer w) in
     (case ps of
        [] \<Rightarrow> line
      | p # qs \<Rightarrow> (let c = foldl common_prefix p qs in
          slice_to line (- int (length w)) @ (if c = [] then [last line] else c)), ps))"

section \<open>Writing to the buffer\<close>

text \<open>
  \<open>\x01?\x1b\[(.*?)m\x02?\<close> at the start of a text: the code, and what follows. The dot matches no newline.
\<close>

definition code_at :: "string \<Rightarrow> (string \<times> string) option" where
  "code_at s = (case (case s of c # r \<Rightarrow> if c = CHR 0x01 then r else s | [] \<Rightarrow> s) of
       e # b # r \<Rightarrow>
         if e = CHR 0x1B \<and> b = CHR ''['' then
           (case dropWhile (\<lambda>c. c \<noteq> CHR ''m'' \<and> c \<noteq> NL) r of
              m # q \<Rightarrow> if m = CHR ''m'' then
                  Some (takeWhile (\<lambda>c. c \<noteq> CHR ''m'' \<and> c \<noteq> NL) r,
                    case q of c # q' \<Rightarrow> if c = CHR 0x02 then q' else q | [] \<Rightarrow> q)
                else None
            | [] \<Rightarrow> None)
         else None
     | _ \<Rightarrow> None)"

lemma code_at_shorter: "code_at s = Some (t, r) \<Longrightarrow> length r < length s"
proof -
  assume "code_at s = Some (t, r)"
  moreover have "length (dropWhile P x) = Suc n \<Longrightarrow> n < length x" for P and x :: string and n
    using length_dropWhile_le [of P x] by simp
  ultimately show "length r < length s"
    by (force simp: code_at_def split: list.splits if_splits dest!: arg_cong [of "dropWhile _ _" _ length])
qed

text \<open>\<open>color_pat.split\<close>: the text before the first code, and each code with the text after it.\<close>

function split_codes :: "string \<Rightarrow> string \<times> (string \<times> string) list" where
  "split_codes s = (case code_at s of
       Some (t, r) \<Rightarrow> (case split_codes r of (a, ps) \<Rightarrow> ([], (t, a) # ps))
     | None \<Rightarrow> (case s of [] \<Rightarrow> ([], []) | c # r \<Rightarrow> (case split_codes r of (a, ps) \<Rightarrow> (c # a, ps))))"
  by auto
termination by (relation "measure length") (auto simp: code_at_shorter)

declare split_codes.simps [simp del]

datatype buffer_call =
    Create_Start_Mark | Insert_End string | Insert_Tagged string string | No_Touch_From_Start
  | Delete_Start_Mark | Scroll_To_Mark
  | Move_Line_Start_To_End | Delete_Command_Line | No_Touch_Command_Line | Place_Cursor_At_End
  | Insert_At_Cursor string

text \<open>\<open>segments\<close> as a list of codes and texts in turn, the way \<open>split\<close> gives it.\<close>

definition segment_list :: "(string \<times> string) list \<Rightarrow> string list" where
  "segment_list ps = concat (map (\<lambda>(t, a). [t, a]) ps)"

definition index_of :: "'a \<Rightarrow> 'a list \<Rightarrow> nat option" where
  "index_of x xs = find (\<lambda>i. xs ! i = x) [0..<length xs]"

definition insert_segment :: "string list \<times> buffer_call list \<Rightarrow> string \<Rightarrow> py_error + string list \<times> buffer_call list" where
  "insert_segment s t = (case s of (segments, out) \<Rightarrow> (case index_of t segments of
       None \<Rightarrow> Inl ValueError
     | Some i \<Rightarrow> if i + 1 < length segments then
           Inr (take i segments @ drop (i + 1) segments, out @ [Insert_Tagged (segments ! (i + 1)) t])
         else Inl IndexError))"

definition write_calls :: "string \<Rightarrow> bool \<Rightarrow> py_error + buffer_call list" where
  "write_calls text editable = (case split_codes text of (segment, ps) \<Rightarrow>
     rbind (rfold insert_segment (segment_list ps, []) (map fst ps)) (\<lambda>(_, tagged).
     Inr ([Create_Start_Mark, Insert_End segment] @ tagged
       @ (if editable then [] else [No_Touch_From_Start]) @ [Delete_Start_Mark, Scroll_To_Mark])))"

text \<open>The callbacks that are queued.\<close>

datatype idle = Write string bool | Show_Prompt string | Change_Line string | Show_Returned string

definition show_prompt_calls :: "string \<Rightarrow> py_error + buffer_call list" where
  "show_prompt_calls p = rbind (write_calls p False) (\<lambda>cs. Inr (cs @ [Move_Line_Start_To_End]))"

definition change_line_calls :: "string \<Rightarrow> py_error + buffer_call list" where
  "change_line_calls t = rbind (write_calls t True) (\<lambda>cs. Inr (Delete_Command_Line # cs))"

text \<open>The prompt and the indentation are those at the time the callback runs.\<close>

definition show_returned_calls :: "string \<Rightarrow> nat option \<Rightarrow> string \<Rightarrow> py_error + buffer_call list" where
  "show_returned_calls prompt indent text =
     rbind (write_calls (NL # text) False) (\<lambda>a.
     rbind (if text = [] then Inr [] else write_calls [NL] False) (\<lambda>b.
     rbind (show_prompt_calls prompt) (\<lambda>c.
     Inr (No_Touch_Command_Line # a @ b @ c @ [Move_Line_Start_To_End, Place_Cursor_At_End]
       @ (case indent of None \<Rightarrow> [] | Some n \<Rightarrow> [Insert_At_Cursor (replicate n (CHR '' ''))])))))"

definition idle_calls :: "string \<Rightarrow> nat option \<Rightarrow> idle \<Rightarrow> py_error + buffer_call list" where
  "idle_calls prompt indent i = (case i of
       Write t e \<Rightarrow> write_calls t e
     | Show_Prompt p \<Rightarrow> show_prompt_calls p
     | Change_Line t \<Rightarrow> change_line_calls t
     | Show_Returned t \<Rightarrow> show_returned_calls prompt indent t)"

section \<open>Executing a line\<close>

text \<open>
  What is used of IPython, on a state of its own: the prompt, the hooks, the splitter of input into cells, and
  running a cell, which prints.
\<close>

record 'i ipython =
  render_prompt :: "'i \<Rightarrow> bool \<Rightarrow> string"
  pre_prompt :: "'i \<Rightarrow> 'i"
  autoindent :: "'i \<Rightarrow> bool"
  set_do_indent :: "bool \<Rightarrow> 'i \<Rightarrow> 'i"
  do_indent :: "'i \<Rightarrow> bool"
  indent_spaces :: "'i \<Rightarrow> nat"
  splitter_reset :: "'i \<Rightarrow> 'i"
  splitter_push :: "string \<Rightarrow> 'i \<Rightarrow> 'i"
  push_accepts_more :: "'i \<Rightarrow> bool"
  wants_edit :: "'i \<Rightarrow> bool"
  edit_syntax_error :: "'i \<Rightarrow> 'i"
  source_reset :: "'i \<Rightarrow> string \<times> 'i"
  run_cell :: "string \<Rightarrow> 'i \<Rightarrow> 'i \<times> string"
  user_inputs :: "'i \<Rightarrow> string list"
  completions :: "'i \<Rightarrow> string \<Rightarrow> string list"

record 'i shell =
  ip :: 'i
  iter_more :: bool
  history_level :: int
  prompt :: string
  interrupt :: bool
  cout :: string
  queue :: "idle list"

definition on_ip :: "('i \<Rightarrow> 'i) \<Rightarrow> 'i shell \<Rightarrow> 'i shell" where
  "on_ip f s = s\<lparr>ip := f (ip s)\<rparr>"

definition generate_prompt :: "'i ipython \<Rightarrow> bool \<Rightarrow> 'i shell \<Rightarrow> 'i shell" where
  "generate_prompt I is_more s = s\<lparr>prompt := render_prompt I (ip s) is_more\<rparr>"

text \<open>Before the line is read.\<close>

definition prepare :: "'i ipython \<Rightarrow> 'i shell \<Rightarrow> 'i shell" where
  "prepare I s = (let s = generate_prompt I (iter_more s) (s\<lparr>history_level := 0\<rparr>); s = on_ip (pre_prompt I) s in
     if iter_more s then
       (let s = generate_prompt I True s in if autoindent I (ip s) then on_ip (set_do_indent I True) s else s)
     else s)"

definition run_source :: "'i ipython \<Rightarrow> 'i shell \<Rightarrow> 'i shell" where
  "run_source I s = (case source_reset I (ip s) of (source, i) \<Rightarrow> (case run_cell I source i of (i', out) \<Rightarrow>
     s\<lparr>ip := set_do_indent I False i', cout := cout s @ out\<rparr>))"

definition take_line :: "'i ipython \<Rightarrow> string \<Rightarrow> 'i shell \<Rightarrow> 'i shell" where
  "take_line I line s = (let s = on_ip (splitter_push I line) s; s = s\<lparr>iter_more := push_accepts_more I (ip s)\<rparr>;
       s = generate_prompt I (iter_more s) s;
       s = (if wants_edit I (ip s) then on_ip (edit_syntax_error I) s else s)
     in if iter_more s then on_ip (set_do_indent I True) s else run_source I s)"

definition interrupted :: "'i ipython \<Rightarrow> 'i shell \<Rightarrow> 'i shell" where
  "interrupted I s = on_ip (splitter_reset I) (s\<lparr>interrupt := False, cout := cout s @ NL # ''KeyboardInterrupt'' @ [NL]\<rparr>)"

text \<open>\<open>raw_input\<close> raises KeyboardInterrupt once after Ctrl-C, and otherwise gives the current line.\<close>

definition execute :: "'i ipython \<Rightarrow> string \<Rightarrow> 'i shell \<Rightarrow> 'i shell" where
  "execute I line s = (let s = prepare I s in if interrupt s then interrupted I s else take_line I line s)"

definition process_line :: "'i ipython \<Rightarrow> string \<Rightarrow> 'i shell \<Rightarrow> 'i shell" where
  "process_line I line s = (let s = execute I line s in
     s\<lparr>queue := queue s @ [Show_Returned (strip_newlines (cout s))], cout := []\<rparr>)"

section \<open>Keys\<close>

datatype key = Key_Home | Key_Left | Key_Return | Key_Up | Key_Down | Key_Tab | Key_Other nat

record key_event =
  keyval :: key
  with_control :: bool
  with_mod1 :: bool
  with_shift :: bool
  key_string :: string

text \<open>The offsets of the cursor, of the other end of the selection and of the command line.\<close>

record marks =
  insert_at :: nat
  selection_at :: nat
  line_start :: nat

definition place_cursor :: "nat \<Rightarrow> marks \<Rightarrow> marks" where
  "place_cursor n m = m\<lparr>insert_at := n, selection_at := n\<rparr>"

text \<open>\<open>ConsoleView.onKeyPress\<close>: the marks, and whether the event ends there. \<open>left_editable\<close>: the place left of the cursor is.\<close>

definition console_key :: "bool \<Rightarrow> key_event \<Rightarrow> marks \<Rightarrow> marks \<times> bool" where
  "console_key left_editable e m = (let s = line_start m in
     if keyval e = Key_Home then
       (if with_control e \<or> with_mod1 e then (m, False)
        else if with_shift e then (m\<lparr>insert_at := s\<rparr>, True)
        else (place_cursor s m, True))
     else if keyval e = Key_Left then (m, \<not> left_editable)
     else if key_string e = [] then (m, False)
     else if s \<le> insert_at m \<and> s \<le> selection_at m then (m, False)
     else if insert_at m < s \<and> selection_at m < s then (place_cursor s m, False)
     else if insert_at m < selection_at m then (m\<lparr>insert_at := s\<rparr>, False)
     else if selection_at m < insert_at m then (m\<lparr>selection_at := s\<rparr>, False)
     else (m, False))"

definition enqueue :: "idle list \<Rightarrow> 'i shell \<Rightarrow> 'i shell" where
  "enqueue is s = s\<lparr>queue := queue s @ is\<rparr>"

definition recall :: "string \<times> int \<Rightarrow> 'i shell \<Rightarrow> 'i shell" where
  "recall r s = enqueue [Change_Line (fst r)] (s\<lparr>history_level := snd r\<rparr>)"

text \<open>
  The possibilities are listed when there are several. \<open>completed or slice\<close>: \<open>slice\<close> is bound only when they
  were listed.
\<close>

definition complete_key :: "'i ipython \<Rightarrow> string \<Rightarrow> 'i shell \<Rightarrow> py_error + bool option \<times> 'i shell" where
  "complete_key I line s =
     (if strip line = [] then Inr (Some False, s)
      else (case complete_line (completions I (ip s)) line of (completed, ps) \<Rightarrow>
        (let s = (if 1 < length ps
           then enqueue (Write [NL] False # map (\<lambda>p. Write (p @ [NL]) False) ps @ [Show_Prompt (prompt s)]) s else s) in
         if completed \<noteq> [] then Inr (Some True, enqueue [Change_Line completed] s)
         else if 1 < length ps then Inr (Some True, enqueue [Change_Line line] s)
         else Inl UnboundLocalError)))"

text \<open>\<open>IPythonView.onKeyPressExtend\<close>, with the text of the current line; the method returns None for other keys.\<close>

definition view_key :: "'i ipython \<Rightarrow> string \<Rightarrow> key_event \<Rightarrow> 'i shell \<Rightarrow> py_error + bool option \<times> 'i shell" where
  "view_key I line e s =
     (if with_control e \<and> keyval e = Key_Other 99 then Inr (Some True, process_line I line (s\<lparr>interrupt := True\<rparr>))
      else if keyval e = Key_Return then Inr (Some True, process_line I line s)
      else if keyval e = Key_Up then Inr (Some True, recall (history_back (user_inputs I (ip s)) (history_level s)) s)
      else if keyval e = Key_Down then Inr (Some True, recall (history_forward (user_inputs I (ip s)) (history_level s)) s)
      else if keyval e = Key_Tab then complete_key I line s
      else Inr (None, s))"

definition key_press ::
  "'i ipython \<Rightarrow> bool \<Rightarrow> string \<Rightarrow> key_event \<Rightarrow> marks \<Rightarrow> 'i shell \<Rightarrow> py_error + bool option \<times> marks \<times> 'i shell" where
  "key_press I left_editable line e m s = (case console_key left_editable e m of (m', handled) \<Rightarrow>
     if handled then Inr (Some True, m', s)
     else rbind (view_key I line e s) (\<lambda>(r, s'). Inr (r, m', s')))"


section \<open>Moving in the history\<close>

text \<open>
  With non-empty entries behind the empty first one, the level is a cursor \<open>p\<close> entries back from the line being
  typed, which stops at the oldest entry and at the line.
\<close>

definition entries_ok :: "string list \<Rightarrow> bool" where
  "entries_ok es \<longleftrightarrow> (\<forall>e \<in> set es. strip_newlines e \<noteq> [])"

definition entry_back :: "string list \<Rightarrow> nat \<Rightarrow> string" where
  "entry_back es p = (if p = 0 then [] else strip_newlines (es ! (length es - p)))"

lemma strip_newlines_Nil [simp]: "strip_newlines [] = []"
  by (simp add: strip_newlines_def)

lemma get_history_back:
  assumes "p \<le> length es"
  shows "get_history ([] # es) (- int p) = entry_back es p"
proof (cases "p = 0")
  case False
  with assms have "nat (int (Suc (length es)) + - int p) = Suc (length es - p)" by simp
  with False assms show ?thesis by (simp add: get_history_def py_index_def Let_def entry_back_def)
qed (simp add: get_history_def py_index_def entry_back_def)

lemma get_history_oldest: "get_history ([] # es) (- int (Suc (length es))) = []"
  by (simp add: get_history_def py_index_def)

lemma history_cursor:
  assumes "entries_ok es" "p \<le> length es"
  shows "history_back ([] # es) (- int p) = (let q = min (p + 1) (length es) in (entry_back es q, - int q))"
    and "history_forward ([] # es) (- int p) = (entry_back es (p - 1), - int (p - 1))"
proof -
  have ne: "entry_back es q \<noteq> []" if "0 < q" "q \<le> length es" for q
    using assms(1) that by (simp add: entries_ok_def entry_back_def)
  show "history_back ([] # es) (- int p) = (let q = min (p + 1) (length es) in (entry_back es q, - int q))"
  proof (cases "p = length es")
    case True
    have "- int p - 1 = - int (Suc (length es))" using True by simp
    then have o: "get_history ([] # es) (- int p - 1) = []" by (simp only: get_history_oldest)
    have "history_back ([] # es) (- int p) = (get_history ([] # es) (- int p), - int p)"
      unfolding history_back_def Let_def o by simp
    then show ?thesis using get_history_back [OF assms(2)] True by (simp add: Let_def)
  next
    case False
    then have q: "p + 1 \<le> length es" using assms(2) by simp
    have "- int p - 1 = - int (p + 1)" by simp
    then have "get_history ([] # es) (- int p - 1) = entry_back es (p + 1)" by (simp only: get_history_back [OF q])
    then have "history_back ([] # es) (- int p) = (entry_back es (p + 1), - int (p + 1))"
      using ne [of "p + 1"] q by (simp add: history_back_def Let_def)
    then show ?thesis using q by (simp add: Let_def min_def)
  qed
  have "(if - int p < 0 then - int p + 1 else - int p) = - int (p - 1)" by (cases p) auto
  then show "history_forward ([] # es) (- int p) = (entry_back es (p - 1), - int (p - 1))"
    using get_history_back [of "p - 1" es] assms(2) by (simp add: history_forward_def)
qed

text \<open>A key back followed by a key forward returns to the entry, and an empty entry is a wall.\<close>

lemma back_and_forward:
  assumes "entries_ok es" "p < length es"
  shows "history_forward ([] # es) (snd (history_back ([] # es) (- int p))) = (entry_back es p, - int p)"
proof -
  have "snd (history_back ([] # es) (- int p)) = - int (p + 1)"
    using history_cursor(1) [of es p] assms by (simp add: min_def)
  then show ?thesis using history_cursor(2) [of es "p + 1"] assms by simp
qed

lemma empty_entry_stops: "history_back [''''  , ''a = 1'', ''''] 0 = ('''', 0)"
  by (simp add: history_back_def get_history_def py_index_def)

text \<open>The keys Up and Down move the cursor and queue the entry as the new line.\<close>

lemma history_keys:
  assumes "entries_ok es" "p \<le> length es" "user_inputs I (ip s) = [] # es" "history_level s = - int p" "\<not> with_control e"
  shows "keyval e = Key_Up \<Longrightarrow> view_key I line e s = Inr (Some True,
      recall (entry_back es (min (p + 1) (length es)), - int (min (p + 1) (length es))) s)"
    and "keyval e = Key_Down \<Longrightarrow> view_key I line e s = Inr (Some True, recall (entry_back es (p - 1), - int (p - 1)) s)"
  using history_cursor [OF assms(1,2)] assms(3-5) by (simp_all add: view_key_def Let_def)

text \<open>A line that was executed, or interrupted, leaves no interrupt behind and the history at the line typed.\<close>

lemma process_line_resets:
  "interrupt (process_line I line s) = False" "history_level (process_line I line s) = 0" "cout (process_line I line s) = []"
  by (simp_all add: process_line_def execute_def interrupted_def take_line_def run_source_def prepare_def on_ip_def
      generate_prompt_def Let_def split: prod.split)

section \<open>Completion is what the possibilities share\<close>

lemma find_first: "find P [0..<n] = Some i \<longleftrightarrow> i < n \<and> P i \<and> (\<forall>j<i. \<not> P j)"
  by (auto simp: find_Some_iff nth_upt)

lemma find_shift: "find P [0..<Suc n] = (if P 0 then Some 0 else map_option Suc (find (\<lambda>i. P (Suc i)) [0..<n]))"
proof -
  have "find P (map Suc xs) = map_option Suc (find (\<lambda>i. P (Suc i)) xs)" for xs by (induction xs) auto
  from this [of "[0..<n]"] show ?thesis by (simp add: upt_conv_Cons map_Suc_upt del: upt_Suc)
qed

lemma common_prefix_eq: "common_prefix s t = longest_common_prefix s t"
proof (induction s arbitrary: t)
  case (Cons x xs)
  show ?case
  proof (cases t)
    case Nil
    then show ?thesis by (simp add: common_prefix_def startswith_def find_shift del: upt_Suc)
  next
    case (Cons y ys)
    with Cons.IH [of ys] show ?thesis
      by (auto simp: common_prefix_def startswith_def find_shift simp del: upt_Suc split: option.split)
  qed
qed (simp add: common_prefix_def)

lemma shared_prefix: "prefix (foldl common_prefix p qs) p \<and> (\<forall>q \<in> set qs. prefix (foldl common_prefix p qs) q)"
proof (induction qs arbitrary: p)
  case (Cons r qs)
  from Cons [of "common_prefix p r"] show ?case
    using longest_common_prefix_prefix1 [of p r] longest_common_prefix_prefix2 [of p r]
    by (simp add: common_prefix_eq) (meson prefix_order.trans)
qed simp

lemma shared_longest:
  "prefix x p \<Longrightarrow> \<forall>q \<in> set qs. prefix x q \<Longrightarrow> prefix x (foldl common_prefix p qs)"
  by (induction qs arbitrary: p) (simp_all add: common_prefix_eq longest_common_prefix_max_prefix)

lemma word_at_end:
  assumes "last_word line \<noteq> []"
  shows "slice_to line (- int (length (last_word line))) @ last_word line = line"
proof -
  have "rev line = takeWhile (\<lambda>c. \<not> complete_sep c) (rev line) @ dropWhile (\<lambda>c. \<not> complete_sep c) (rev line)" by simp
  then have "line = rev (dropWhile (\<lambda>c. \<not> complete_sep c) (rev line)) @ last_word line"
    unfolding last_word_def by (metis rev_append rev_rev_ident)
  then obtain a where a: "line = a @ last_word line" ..
  have "slice_to (a @ b) (- int (length b)) = a" if "b \<noteq> []" for b
    using that by (simp add: slice_to_def slice_pos_def)
  from this [OF assms] a show ?thesis by metis
qed

text \<open>
  When every possibility extends the word, the line grows to its longest extension that all possibilities share.
\<close>

lemma completion_extends:
  assumes "w = last_word line" "w \<noteq> []" "completer w \<noteq> []" "\<forall>p \<in> set (completer w). prefix w p"
  shows "\<exists>c. fst (complete_line completer line) = line @ c \<and> (\<forall>p \<in> set (completer w). prefix (w @ c) p)
       \<and> (\<forall>d. (\<forall>p \<in> set (completer w). prefix (w @ d) p) \<longrightarrow> prefix d c)"
proof -
  obtain p qs where ps: "completer w = p # qs" using assms(3) by (cases "completer w") auto
  let ?g = "foldl common_prefix p qs"
  have "prefix w ?g" using assms(4) ps by (intro shared_longest) auto
  then obtain c where c: "?g = w @ c" by (auto simp: prefix_def)
  have "fst (complete_line completer line) = slice_to line (- int (length w)) @ w @ c"
    using assms(1,2) ps c by (simp add: complete_line_def Let_def)
  then have "fst (complete_line completer line) = line @ c"
    using word_at_end [of line] assms(1,2) by (metis append_assoc)
  moreover have "prefix (w @ c) q" if "q \<in> set (p # qs)" for q using shared_prefix [of p qs] that c by auto
  moreover have "prefix d c" if "\<forall>q \<in> set (p # qs). prefix (w @ d) q" for d
    using shared_longest [of "w @ d" p qs] that c by simp
  ultimately show ?thesis unfolding ps by blast
qed

lemma completed_not_empty: "line \<noteq> [] \<Longrightarrow> fst (complete_line completer line) \<noteq> []"
  by (auto simp: complete_line_def Let_def split: list.split)

lemma strip_Nil [simp]: "strip [] = []"
  by (simp add: strip_def lstrip_def rstrip_def)

lemma slice_never_unbound: "complete_key I line s \<noteq> Inl UnboundLocalError"
proof (cases "strip line = []")
  case False
  then have "line \<noteq> []" by auto
  then show ?thesis using completed_not_empty [of line "completions I (ip s)"] False
    by (cases "complete_line (completions I (ip s)) line") (simp add: complete_key_def Let_def)
qed (simp add: complete_key_def)

section \<open>What is written\<close>

lemma segment_list_simps [simp]:
  "segment_list [] = []" "segment_list ((t, a) # ps) = t # a # segment_list ps"
  by (simp_all add: segment_list_def)

lemma index_of_Some: "index_of x xs = Some i \<longleftrightarrow> i < length xs \<and> xs ! i = x \<and> x \<notin> set (take i xs)"
  by (auto simp: index_of_def find_first in_set_conv_nth)

lemma index_of_split: "index_of x (ys @ x # zs) = (case index_of x ys of None \<Rightarrow> Some (length ys) | Some i \<Rightarrow> Some i)"
proof (cases "x \<in> set ys")
  case True
  then obtain i where i: "index_of x ys = Some i"
    by (cases "index_of x ys") (auto simp: index_of_def find_None_iff in_set_conv_nth)
  then have "index_of x (ys @ x # zs) = Some i" by (simp add: index_of_Some nth_append)
  with i show ?thesis by simp
next
  case False
  then have "index_of x ys = None" by (auto simp: index_of_def find_None_iff)
  moreover from False have "index_of x (ys @ x # zs) = Some (length ys)" by (simp add: index_of_Some)
  ultimately show ?thesis by simp
qed

text \<open>Every code is found and has a text after it: writing raises nothing.\<close>

lemma insert_segments_total:
  "\<exists>r. rfold insert_segment (xs @ segment_list ps, out) (map fst ps) = Inr r"
proof (induction ps arbitrary: xs out)
  case (Cons p ps)
  obtain t a where p: "p = (t, a)" by (cases p)
  show ?case
  proof (cases "index_of t xs")
    case None
    then show ?thesis using Cons.IH [of "xs @ [a]"] by (simp add: p insert_segment_def index_of_split nth_append)
  next
    case (Some i)
    then have "i < length xs" by (simp add: index_of_Some)
    then show ?thesis using Some Cons.IH [of "take i xs @ drop (Suc i) xs @ [t, a]"]
      by (simp add: p insert_segment_def index_of_split)
  qed
qed simp

lemma write_total: "\<exists>cs. write_calls text editable = Inr cs"
proof -
  obtain a ps where s: "split_codes text = (a, ps)" by (cases "split_codes text")
  obtain r where "rfold insert_segment (segment_list ps, []) (map fst ps) = Inr r"
    using insert_segments_total [of "[]" ps "[]"] by auto
  then show ?thesis by (simp add: write_calls_def s case_prod_beta)
qed

text \<open>The texts come out under their codes as long as no text reads like a later code.\<close>

lemma insert_segments_in_order:
  assumes "\<forall>j < length ps. fst (ps ! j) \<notin> set xs" "\<forall>i j. i < j \<longrightarrow> j < length ps \<longrightarrow> snd (ps ! i) \<noteq> fst (ps ! j)"
  shows "rfold insert_segment (xs @ segment_list ps, out) (map fst ps)
       = Inr (xs @ map snd ps, out @ map (\<lambda>(t, a). Insert_Tagged a t) ps)"
  using assms
proof (induction ps arbitrary: xs out)
  case (Cons p ps)
  obtain t a where p: "p = (t, a)" by (cases p)
  have t: "t \<notin> set xs" using Cons.prems(1) p by (metis fst_conv length_pos_if_in_set list.set_intros(1) nth_Cons_0)
  then have "index_of t xs = None" by (auto simp: index_of_def find_None_iff)
  moreover have "fst (ps ! j) \<notin> set (xs @ [a])" if "j < length ps" for j
    using that Cons.prems(1) [rule_format, of "Suc j"] Cons.prems(2) [rule_format, of 0 "Suc j"] p by auto
  moreover have "snd (ps ! i) \<noteq> fst (ps ! j)" if "i < j" "j < length ps" for i j
    using that Cons.prems(2) [rule_format, of "Suc i" "Suc j"] by simp
  ultimately show ?case using Cons.IH [of "xs @ [a]"] by (simp add: p insert_segment_def index_of_split nth_append)
qed simp

section \<open>Typing behind the prompt\<close>

lemma typing_after_prompt:
  assumes "keyval e \<noteq> Key_Home" "keyval e \<noteq> Key_Left" "key_string e \<noteq> []"
    and "console_key left_editable e m = (m', handled)"
  shows "line_start m \<le> insert_at m' \<and> line_start m \<le> selection_at m' \<and> line_start m' = line_start m \<and> \<not> handled"
  using assms by (auto simp: console_key_def place_cursor_def Let_def split: if_splits)

lemma write_in_order:
  assumes "split_codes text = (a, ps)" "\<forall>i j. i < j \<longrightarrow> j < length ps \<longrightarrow> snd (ps ! i) \<noteq> fst (ps ! j)"
  shows "write_calls text editable = Inr ([Create_Start_Mark, Insert_End a] @ map (\<lambda>(t, b). Insert_Tagged b t) ps
     @ (if editable then [] else [No_Touch_From_Start]) @ [Delete_Start_Mark, Scroll_To_Mark])"
  using insert_segments_in_order [of ps "[]" "[]"] assms by (simp add: write_calls_def)

text \<open>
  A text that reads like a later code takes its place: the digit 0 in red, followed by the code 0, is written
  twice, and what follows the code is lost.
\<close>

definition red_zero :: string where
  "red_zero = CHR 0x1B # ''[0;31m0'' @ CHR 0x1B # ''[0m end''"

lemma red_zero_split: "split_codes red_zero = ([], [(''0;31'', ''0''), (''0'', '' end'')])"
  by (simp add: red_zero_def split_codes.simps code_at_def NL_def)

lemma red_zero_written:
  "write_calls red_zero True = Inr [Create_Start_Mark, Insert_End [], Insert_Tagged ''0'' ''0;31'', Insert_Tagged ''0'' ''0'',
     Delete_Start_Mark, Scroll_To_Mark]"
  by (simp add: write_calls_def red_zero_split insert_segment_def index_of_def upt_rec)

end
