(* ===== verification/Rad_Seq.thy ===== *)
theory Rad_Seq
  imports Py_Prelude "HOL-Library.Sublist"
begin

text \<open>
  The sequence functions of \<^verbatim>\<open>bindings/python/rad_util.py\<close>: \<open>reverse\<close>, \<open>transpose\<close>,
  \<open>permutations\<close>, \<open>uniquify\<close>, \<open>reverse_dict\<close>, \<open>find_common_fixes\<close>, \<open>is_rotated\<close> and
  \<open>get_args\<close>. The file is written for Python 2, whose \<open>map\<close>, \<open>zip\<close> and \<open>keys\<close> return
  lists. \<open>is_rotated\<close> is what \<^verbatim>\<open>topsort.py\<close> calls.
\<close>

section \<open>reverse and transpose\<close>

definition reverse :: "string \<Rightarrow> string" where
  "reverse input_string = rev input_string"

text \<open>\<open>zip(*matrix)\<close>: as many columns as the shortest row has; none for no rows.\<close>

function zip_rows :: "'a list list \<Rightarrow> 'a list list" where
  "zip_rows m = (if m = [] \<or> [] \<in> set m then [] else map hd m # zip_rows (map tl m))"
  by pat_completeness auto
termination
proof (relation "measure (\<lambda>m. length (hd m))")
  fix m :: "'a list list"
  assume "\<not> (m = [] \<or> [] \<in> set m)"
  then show "(map tl m, m) \<in> measure (\<lambda>m. length (hd m))"
    by (cases m) (auto intro: diff_less)
qed auto

declare zip_rows.simps [simp del]

definition transpose :: "'a list list \<Rightarrow> 'a list list" where
  "transpose matrix = zip_rows matrix"

definition rectangular :: "nat \<Rightarrow> nat \<Rightarrow> 'a list list \<Rightarrow> bool" where
  "rectangular r c m \<longleftrightarrow> length m = r \<and> (\<forall>row \<in> set m. length row = c)"

lemma zip_rows_entries:
  "rectangular r c m \<Longrightarrow> 0 < r \<Longrightarrow> zip_rows m = map (\<lambda>j. map (\<lambda>row. row ! j) m) [0..<c]"
proof (induction c arbitrary: m)
  case 0
  then have "[] \<in> set m" by (cases m) (auto simp: rectangular_def)
  then show ?case by (simp add: zip_rows.simps)
next
  case (Suc c)
  have rows: "\<And>row. row \<in> set m \<Longrightarrow> length row = Suc c" using Suc.prems by (simp add: rectangular_def)
  have ne: "\<not> (m = [] \<or> [] \<in> set m)" using Suc.prems rows [of "[]"] by (auto simp: rectangular_def)
  have "rectangular r c (map tl m)" using Suc.prems by (auto simp: rectangular_def)
  then have "zip_rows (map tl m) = map (\<lambda>j. map (\<lambda>row. row ! j) (map tl m)) [0..<c]"
    using Suc by blast
  also have "\<dots> = map (\<lambda>j. map (\<lambda>row. row ! Suc j) m) [0..<c]"
    using rows by (auto simp: nth_tl)
  finally have tl_part: "zip_rows (map tl m) = map (\<lambda>j. map (\<lambda>row. row ! Suc j) m) [0..<c]" .
  have hd_part: "map hd m = map (\<lambda>row. row ! 0) m"
    using ne by (intro map_cong refl) (metis hd_conv_nth)
  have "zip_rows m = map hd m # zip_rows (map tl m)"
    using ne by (subst zip_rows.simps) simp
  also have "\<dots> = map (\<lambda>j. map (\<lambda>row. row ! j) m) (0 # map Suc [0..<c])"
    by (simp add: tl_part hd_part)
  also have "0 # map Suc [0..<c] = [0..<Suc c]"
    by (simp only: upt_conv_Cons [of 0 "Suc c"] map_Suc_upt zero_less_Suc)
  finally show ?case .
qed

lemma transpose_rectangular: "rectangular r c m \<Longrightarrow> 0 < r \<Longrightarrow> rectangular c r (transpose m)"
  using zip_rows_entries [of r c m] by (auto simp: transpose_def rectangular_def)

lemma transpose_twice:
  assumes "rectangular r c m" "0 < r" "0 < c"
  shows "transpose (transpose m) = m"
proof -
  have t: "rectangular c r (transpose m)" using assms transpose_rectangular by blast
  have "transpose (transpose m) = map (\<lambda>i. map (\<lambda>row. row ! i) (transpose m)) [0..<r]"
    unfolding transpose_def [of "transpose m"] by (rule zip_rows_entries [OF t \<open>0 < c\<close>])
  also have "\<dots> = map (\<lambda>i. map (\<lambda>j. m ! i ! j) [0..<c]) [0..<r]"
    using assms by (simp add: transpose_def zip_rows_entries [OF assms(1,2)] comp_def)
       (simp add: rectangular_def list_eq_iff_nth_eq)
  also have "\<dots> = map (\<lambda>i. m ! i) [0..<r]"
    using assms by (intro map_cong refl) (auto simp: rectangular_def intro!: nth_equalityI)
  also have "\<dots> = m" using assms by (auto simp: rectangular_def map_nth)
  finally show ?thesis .
qed

section \<open>permutations\<close>

definition insert_at :: "nat \<Rightarrow> 'a \<Rightarrow> 'a list \<Rightarrow> 'a list" where
  \<comment> \<open>\<open>new_list.insert(i, item)\<close>\<close>
  "insert_at i item l = take i l @ item # drop i l"

fun permutations :: "'a list \<Rightarrow> 'a list list" where
  "permutations (item # y # rest) =
     concat (map (\<lambda>sub_list. map (\<lambda>i. insert_at i item sub_list) [0..<length (item # y # rest)])
       (permutations (y # rest)))"
| "permutations l = [l]"

lemma insert_at_mset: "mset (insert_at i x l) = add_mset x (mset l)"
  unfolding insert_at_def mset_append mset.simps
  by (metis append_take_drop_id mset_append union_mset_add_mset_right)

lemma insert_at_length [simp]: "length (insert_at i x l) = Suc (length l)"
  by (simp add: insert_at_def)

lemma insert_at_nth: "i \<le> length l \<Longrightarrow> insert_at i x l ! i = x"
  by (simp add: insert_at_def nth_append)

lemma permutations_mset: "p \<in> set (permutations l) \<Longrightarrow> mset p = mset l"
  by (induction l arbitrary: p rule: permutations.induct) (auto simp: insert_at_mset)

lemma in_concat_map: "p \<in> set (concat (map f xs)) \<longleftrightarrow> (\<exists>x \<in> set xs. p \<in> set (f x))"
  by auto

lemma permutations_all: "mset p = mset l \<Longrightarrow> p \<in> set (permutations l)"
proof (induction l arbitrary: p rule: permutations.induct)
  case (1 item y rest)
  then have "item \<in> set p" by (metis list.set_intros(1) set_mset_mset)
  then obtain a b where p: "p = a @ item # b" by (meson split_list)
  with "1.prems" have "mset (a @ b) = mset (y # rest)" by auto
  then have sub: "a @ b \<in> set (permutations (y # rest))" by (rule "1.IH")
  have ins: "p = insert_at (length a) item (a @ b)" by (simp add: p insert_at_def)
  have "length (a @ b) = length (y # rest)"
    using \<open>mset (a @ b) = mset (y # rest)\<close> by (rule mset_eq_length)
  then have "length a \<in> set [0..<length (item # y # rest)]" by auto
  then have "p \<in> set (map (\<lambda>i. insert_at i item (a @ b)) [0..<length (item # y # rest)])"
    unfolding set_map by (rule image_eqI [where x = "length a", rotated]) (rule ins)
  then show ?case unfolding permutations.simps in_concat_map using sub by (rule bexI)
qed auto

lemma permutations_length: "length (permutations l) = fact (length l)"
proof (induction l rule: permutations.induct)
  case (1 item y rest)
  have "length (permutations (item # y # rest)) =
      (\<Sum>sub\<leftarrow>permutations (y # rest). length (item # y # rest))"
    by (simp add: length_concat comp_def del: length_Cons)
  also have "\<dots> = length (permutations (y # rest)) * length (item # y # rest)"
    by (simp add: sum_list_triv)
  finally show ?case using 1 by (simp add: algebra_simps)
qed auto

lemma distinct_insert_at_rows:
  assumes "x \<notin> set sub" and "length sub = n"
  shows "distinct (map (\<lambda>i. insert_at i x sub) [0..<Suc n])"
proof -
  have neq: "insert_at i x sub \<noteq> insert_at j x sub" if "i < j" "j \<le> n" for i j
  proof
    assume e: "insert_at i x sub = insert_at j x sub"
    have "insert_at i x sub ! i = x" using that assms(2) by (simp add: insert_at_nth)
    moreover have "insert_at j x sub ! i = sub ! i"
      using that assms(2) by (simp add: insert_at_def nth_append)
    ultimately have "sub ! i = x" using e by simp
    moreover have "i < length sub" using that assms(2) by simp
    ultimately show False using assms(1) nth_mem by fastforce
  qed
  have "inj_on (\<lambda>i. insert_at i x sub) (set [0..<Suc n])"
  proof (rule inj_onI)
    fix i j assume "i \<in> set [0..<Suc n]" "j \<in> set [0..<Suc n]"
      and e: "insert_at i x sub = insert_at j x sub"
    then show "i = j" using neq [of i j] neq [of j i] by (cases i j rule: linorder_cases) auto
  qed
  then show ?thesis by (simp add: distinct_map)
qed

lemma permutations_distinct: "distinct l \<Longrightarrow> distinct (permutations l)"
proof (induction l rule: permutations.induct)
  case (1 item y rest)
  let ?row = "\<lambda>sub. map (\<lambda>i. insert_at i item sub) [0..<length (item # y # rest)]"
  let ?ps = "permutations (y # rest)"
  have ps: "item \<notin> set sub \<and> length sub = length (y # rest)" if "sub \<in> set ?ps" for sub
    using permutations_mset [OF that] "1.prems" by (metis distinct.simps(2) mset_eq_length set_mset_mset)
  have rem: "remove1 item (insert_at i item sub) = sub" if "item \<notin> set sub" for i sub
  proof -
    have "item \<notin> set (take i sub)" using that by (meson in_set_takeD)
    then show ?thesis by (simp add: insert_at_def remove1_append)
  qed
  have dis: "set (?row s) \<inter> set (?row t) = {}" if "s \<in> set ?ps" "t \<in> set ?ps" "s \<noteq> t" for s t
  proof -
    have "item \<notin> set s" "item \<notin> set t" using ps that by auto
    then have "insert_at i item s \<noteq> insert_at j item t" for i j
      using rem [of s i] rem [of t j] \<open>s \<noteq> t\<close> by metis
    then show ?thesis unfolding set_map by blast
  qed
  have rows: "distinct (?row s)" if "s \<in> set ?ps" for s
    using distinct_insert_at_rows [of item s "length (y # rest)"] ps [OF that] by simp
  have "inj_on ?row (set ?ps)"
  proof (rule inj_onI)
    fix s t assume s: "s \<in> set ?ps" and t: "t \<in> set ?ps" and e: "?row s = ?row t"
    have "set (?row s) \<noteq> {}" by simp
    with e dis [OF s t] show "s = t" by auto
  qed
  moreover have "distinct ?ps" using 1 by simp
  ultimately have "distinct (map ?row ?ps)" by (simp add: distinct_map)
  then show ?case unfolding permutations.simps
  proof (rule distinct_concat)
    fix ys assume "ys \<in> set (map ?row ?ps)"
    then obtain s where "s \<in> set ?ps" "ys = ?row s" unfolding set_map by blast
    with rows show "distinct ys" by blast
  next
    fix ys zs assume "ys \<in> set (map ?row ?ps)" "zs \<in> set (map ?row ?ps)" "ys \<noteq> zs"
    then obtain s t where "s \<in> set ?ps" "t \<in> set ?ps" "s \<noteq> t" "ys = ?row s" "zs = ?row t"
      unfolding set_map by blast
    with dis show "set ys \<inter> set zs = {}" by blast
  qed
qed auto

section \<open>uniquify and reverse_dict\<close>

text \<open>The dictionary-filtered comprehension of the order-preserving branch.\<close>

fun uniquify_scan :: "('a, int) dict \<Rightarrow> 'a list \<Rightarrow> 'a list" where
  "uniquify_scan d [] = []"
| "uniquify_scan d (x # seq) =
     (if has_key d x then uniquify_scan d seq else x # uniquify_scan (AList.update x 0 d) seq)"

text \<open>The slow branch, for items that cannot be hashed.\<close>

fun uniquify_slow :: "'a list \<Rightarrow> 'a list \<Rightarrow> 'a list" where
  "uniquify_slow result [] = result"
| "uniquify_slow result (x # seq) =
     uniquify_slow (if x \<in> set result then result else result @ [x]) seq"

definition uniquify :: "bool \<Rightarrow> 'a list \<Rightarrow> bool \<Rightarrow> 'a list" where
  "uniquify hashable seq preserve_order =
     (if hashable then
        (if preserve_order then uniquify_scan [] seq
         else dkeys (fold (\<lambda>x d. AList.update x (0 :: int) d) seq []))
      else uniquify_slow [] seq)"

text \<open>The first occurrences, in order.\<close>

fun first_occurrences :: "'a list \<Rightarrow> 'a list" where
  "first_occurrences [] = []"
| "first_occurrences (x # xs) = x # removeAll x (first_occurrences xs)"

lemma first_occurrences_set: "set (first_occurrences xs) = set xs"
  by (induction xs) auto

lemma first_occurrences_distinct: "distinct (first_occurrences xs)"
  by (induction xs) (auto simp: distinct_removeAll)

definition without :: "'a set \<Rightarrow> 'a list \<Rightarrow> 'a list" where
  "without A xs = filter (\<lambda>x. x \<notin> A) xs"

lemma without_simps [simp]:
  "without A [] = []"
  "without A (x # xs) = (if x \<in> A then without A xs else x # without A xs)"
  by (simp_all add: without_def)

lemma without_removeAll [simp]: "without A (removeAll x xs) = without (insert x A) xs"
  by (induction xs) auto

lemma without_empty [simp]: "without {} xs = xs"
  by (simp add: without_def)

lemma uniquify_scan_eq: "uniquify_scan d seq = without (set (dkeys d)) (first_occurrences seq)"
proof (induction seq arbitrary: d)
  case (Cons x seq)
  show ?case
  proof (cases "has_key d x")
    case True
    then have "x \<in> set (dkeys d)" using has_key_iff by metis
    with True Cons show ?thesis by (simp add: insert_absorb)
  next
    case False
    then have "x \<notin> set (dkeys d)" using has_key_iff by metis
    with False Cons show ?thesis by (simp add: dom_update)
  qed
qed simp

lemma uniquify_slow_eq: "uniquify_slow r seq = r @ without (set r) (first_occurrences seq)"
  by (induction seq arbitrary: r) (auto simp: insert_absorb)

lemma uniquify_keys_eq:
  "dkeys (fold (\<lambda>x d. AList.update x (0 :: int) d) seq d) =
     dkeys d @ without (set (dkeys d)) (first_occurrences seq)"
  by (induction seq arbitrary: d) (auto simp: dom_update insert_absorb)

lemma uniquify_eq: "uniquify h seq p = first_occurrences seq"
  using uniquify_keys_eq [of seq "[]"]
  by (simp add: uniquify_def uniquify_scan_eq uniquify_slow_eq)

definition reverse_dict :: "('k, 'v) dict \<Rightarrow> ('v, 'k) dict" where
  "reverse_dict d = fold (\<lambda>(key, v) result. AList.update v key result) d []"

lemma reverse_dict_fold:
  "distinct (map snd d) \<Longrightarrow> set (map snd d) \<inter> set (dkeys r) = {} \<Longrightarrow>
     fold (\<lambda>(key, v) result. AList.update v key result) d r = r @ map prod.swap d"
proof (induction d arbitrary: r)
  case (Cons e d)
  obtain k v where e: "e = (k, v)" by (cases e)
  have new: "AList.update v k r = r @ [(v, k)]" if "v \<notin> set (dkeys r)" for r
    using that by (induction r) auto
  from Cons e show ?case by (auto simp: new)
qed simp

lemma reverse_dict_swap: "distinct (map snd d) \<Longrightarrow> reverse_dict d = map prod.swap d"
  by (simp add: reverse_dict_def reverse_dict_fold)

lemma reverse_dict_twice:
  assumes "distinct (dkeys d)" "distinct (map snd d)"
  shows "reverse_dict (reverse_dict d) = d"
proof -
  have "distinct (map snd (map prod.swap d))" using assms(1) by (simp add: comp_def)
  then show ?thesis using assms(2) by (simp add: reverse_dict_swap comp_def)
qed

section \<open>find_common_fixes\<close>

function fix_prefix :: "'a list \<Rightarrow> 'a list \<Rightarrow> nat \<Rightarrow> nat \<Rightarrow> 'a list" where
  \<comment> \<open>the first \<open>while\<close> loop, from index \<open>i\<close>\<close>
  "fix_prefix s1 s2 common_len i =
     (if i < common_len then
        (if s1 ! i \<noteq> s2 ! i then [] else s1 ! i # fix_prefix s1 s2 common_len (Suc i))
      else [])"
  by pat_completeness auto
termination by (relation "measure (\<lambda>(s1, s2, n, i). n - i)") auto

function fix_suffix :: "'a list \<Rightarrow> 'a list \<Rightarrow> nat \<Rightarrow> nat \<Rightarrow> 'a list" where
  \<comment> \<open>the second loop: \<open>s1[-i]\<close> is \<open>s1 ! (len(s1) - i)\<close>\<close>
  "fix_suffix s1 s2 common_len i =
     (if i < common_len + 1 then
        (if s1 ! (length s1 - i) \<noteq> s2 ! (length s2 - i) then []
         else s1 ! (length s1 - i) # fix_suffix s1 s2 common_len (Suc i))
      else [])"
  by pat_completeness auto
termination by (relation "measure (\<lambda>(s1, s2, n, i). n + 1 - i)") auto

declare fix_prefix.simps [simp del] fix_suffix.simps [simp del]

definition find_common_fixes :: "'a list \<Rightarrow> 'a list \<Rightarrow> 'a list \<times> 'a list" where
  "find_common_fixes s1 s2 =
     (let common_len = min (length s1) (length s2)
      in (fix_prefix s1 s2 common_len 0, rev (fix_suffix s1 s2 common_len 1)))"

lemma fix_prefix_eq:
  "i \<le> length s1 \<Longrightarrow> i \<le> length s2 \<Longrightarrow>
     fix_prefix s1 s2 (min (length s1) (length s2)) i = longest_common_prefix (drop i s1) (drop i s2)"
proof (induction s1 s2 "min (length s1) (length s2)" i rule: fix_prefix.induct)
  case (1 s1 s2 i)
  show ?case
  proof (cases "i < min (length s1) (length s2)")
    case True
    then have d: "drop i s1 = s1 ! i # drop (Suc i) s1" "drop i s2 = s2 ! i # drop (Suc i) s2"
      by (simp_all add: Cons_nth_drop_Suc)
    show ?thesis
    proof (cases "s1 ! i = s2 ! i")
      case eq: True
      with "1.hyps" True show ?thesis by (simp add: d fix_prefix.simps [of s1 s2 _ i])
    next
      case False
      with True show ?thesis by (simp add: d fix_prefix.simps [of s1 s2 _ i])
    qed
  next
    case False
    then have "drop i s1 = [] \<or> drop i s2 = []" by auto
    then have "longest_common_prefix (drop i s1) (drop i s2) = []"
      by (cases "drop i s1") auto
    with False show ?thesis by (simp add: fix_prefix.simps [of s1 s2 _ i])
  qed
qed

lemma fix_suffix_as_prefix:
  "fix_suffix s1 s2 (min (length s1) (length s2)) (Suc i) =
     fix_prefix (rev s1) (rev s2) (min (length s1) (length s2)) i"
proof (induction "rev s1" "rev s2" "min (length s1) (length s2)" i rule: fix_prefix.induct)
  case (1 i)
  show ?case
  proof (cases "i < min (length s1) (length s2)")
    case True
    then have n: "s1 ! (length s1 - Suc i) = rev s1 ! i" "s2 ! (length s2 - Suc i) = rev s2 ! i"
      by (simp_all add: rev_nth)
    show ?thesis
      using True 1
      by (subst fix_suffix.simps, subst fix_prefix.simps) (simp add: n)
  next
    case False
    then show ?thesis by (subst fix_suffix.simps, subst fix_prefix.simps) auto
  qed
qed

lemma find_common_fixes_eq:
  "find_common_fixes s1 s2 =
     (longest_common_prefix s1 s2, rev (longest_common_prefix (rev s1) (rev s2)))"
  using fix_prefix_eq [of 0 s1 s2] fix_prefix_eq [of 0 "rev s1" "rev s2"]
    fix_suffix_as_prefix [of s1 s2 0]
  by (simp add: find_common_fixes_def)

section \<open>is_rotated\<close>

definition is_rotated :: "'a list \<Rightarrow> 'a list \<Rightarrow> py_error + bool" where
  "is_rotated seq1 seq2 =
     (if length seq1 \<noteq> length seq2 then Inr False
      else rbind (py_index seq2 0) (\<lambda>head_item.
        let start_indexes = filter (\<lambda>index1. seq1 ! index1 = head_item) [0..<length seq1];
            double_seq1 = seq1 @ seq1
        in Inr (list_ex (\<lambda>index1.
             slice double_seq1 (int index1) (int (index1 + length seq1)) = seq2) start_indexes)))"

lemma doubled_slice:
  "i < length xs \<Longrightarrow> slice (xs @ xs) (int i) (int (i + length xs)) = rotate i xs"
proof -
  assume "i < length xs"
  then have "rotate i xs = drop i xs @ take i xs" by (simp add: rotate_drop_take)
  moreover have "drop i (take (i + length xs) (xs @ xs)) = drop i xs @ take i xs"
    using \<open>i < length xs\<close> by (simp add: take_add)
  ultimately show ?thesis by (simp only: slice_nat)
qed

lemma is_rotated_iff:
  assumes "seq2 \<noteq> []"
  shows "is_rotated seq1 seq2 = Inr (\<exists>n. seq2 = rotate n seq1)"
proof (cases "length seq1 = length seq2")
  case True
  then have ne: "seq1 \<noteq> []" using assms by auto
  let ?hit = "\<lambda>i. slice (seq1 @ seq1) (int i) (int (i + length seq1)) = seq2"
  have "list_ex ?hit (filter (\<lambda>i. seq1 ! i = seq2 ! 0) [0..<length seq1]) \<longleftrightarrow> (\<exists>n. seq2 = rotate n seq1)"
    (is "?L \<longleftrightarrow> ?R")
  proof
    assume ?L
    then obtain i where "i < length seq1" "?hit i" unfolding list_ex_iff by auto
    then show ?R using doubled_slice [of i seq1] by metis
  next
    assume ?R
    then obtain n where n: "seq2 = rotate n seq1" by blast
    let ?i = "n mod length seq1"
    have i: "?i < length seq1" using ne by simp
    have r: "seq2 = rotate ?i seq1" using n by (simp only: rotate_conv_mod [of n])
    have "seq2 ! 0 = seq1 ! ?i" using ne by (simp add: n nth_rotate)
    then have "?i \<in> set (filter (\<lambda>i. seq1 ! i = seq2 ! 0) [0..<length seq1])" using i by simp
    moreover have "?hit ?i" using doubled_slice [OF i] r by (rule trans [OF _ sym])
    ultimately show ?L unfolding list_ex_iff by blast
  qed
  moreover have "py_index seq2 0 = Inr (seq2 ! 0)" using assms by (simp add: py_index_def)
  ultimately show ?thesis using True by (simp only: is_rotated_def Let_def rbind_simps) simp
next
  case False
  then show ?thesis by (auto simp: is_rotated_def)
qed

text \<open>Two empty sequences: the head of the second is read before anything else.\<close>

lemma is_rotated_empty: "is_rotated [] [] = Inl IndexError"
  by (simp add: is_rotated_def py_index_def)

section \<open>get_args\<close>

datatype arg_value = Flag | Text string | Positional "string list"

definition strip_dashes :: "string \<Rightarrow> string" where
  \<comment> \<open>\<open>re.sub(r'^-+', '', arg)\<close>\<close>
  "strip_dashes arg = dropWhile (\<lambda>c. c = CHR ''-'') arg"

definition take_arg ::
    "(string, arg_value) dict \<times> string list \<Rightarrow> string \<Rightarrow> (string, arg_value) dict \<times> string list" where
  "take_arg st arg =
     (case st of (d, args) \<Rightarrow>
        if startswith arg ''-'' then
          (case split_on (CHR ''='') (strip_dashes arg) of
             [name, v] \<Rightarrow> (AList.update name (Text v) d, args)
           | name # _ \<Rightarrow> (AList.update name Flag d, args)
           | [] \<Rightarrow> (d, args))
        else (d, args @ [arg]))"

definition get_args :: "string list \<Rightarrow> (string, arg_value) dict" where
  "get_args argv = (case foldl take_arg ([], []) argv of (d, args) \<Rightarrow>
     AList.update ''args'' (Positional args) d)"

lemma take_args_positional:
  "snd (foldl take_arg (d, args) argv) = args @ filter (\<lambda>a. \<not> startswith a ''-'') argv"
proof (induction argv arbitrary: d args)
  case (Cons a argv)
  have "snd (take_arg (d, args) a) = (if startswith a ''-'' then args else args @ [a])"
    by (auto simp: take_arg_def split: list.splits)
  moreover obtain d' args' where "take_arg (d, args) a = (d', args')" by fastforce
  ultimately show ?case using Cons by simp
qed simp

lemma get_args_positional:
  "map_of (get_args argv) ''args'' = Some (Positional (filter (\<lambda>a. \<not> startswith a ''-'') argv))"
  using take_args_positional [of "[]" "[]" argv] by (auto simp: get_args_def split: prod.splits)

lemma get_args_value_last:
  assumes "name \<noteq> ''args''" "CHR ''='' \<notin> set name" "CHR ''='' \<notin> set v"
    "\<not> startswith name ''-''"
  shows "map_of (get_args (argv @ [''--'' @ name @ ''='' @ v])) name = Some (Text v)"
proof -
  have "strip_dashes (name @ ''='' @ v) = name @ ''='' @ v"
    using assms(4) by (cases name) (auto simp: strip_dashes_def startswith_def)
  then have "strip_dashes (''--'' @ name @ ''='' @ v) = name @ ''='' @ v"
    by (simp add: strip_dashes_def)
  moreover have "split_on (CHR ''='') (name @ CHR ''='' # v) = [name, v]"
    using assms by (simp add: split_on_app split_on_nosep)
  ultimately show ?thesis
    using assms(1) by (auto simp: get_args_def take_arg_def startswith_def split: prod.splits)
qed

section \<open>Properties\<close>

text \<open>
  \<open>permutations\<close> returns \<open>n!\<close> lists, which are exactly the rearrangements of the
  input; none occurs twice when the items are distinct.
\<close>

theorem permutations_enumerate:
  "set (permutations l) = {p. mset p = mset l} \<and> length (permutations l) = fact (length l) \<and>
   (distinct l \<longrightarrow> distinct (permutations l))"
  using permutations_mset permutations_all permutations_length permutations_distinct by blast

theorem permutations_enumerate_witness:
  "distinct (permutations [1, 2, 3 :: int]) \<and> length (permutations [1, 2, 3 :: int]) = 6"
  using permutations_enumerate [of "[1, 2, 3 :: int]"] by (simp add: fact_numeral)

text \<open>
  \<open>find_common_fixes\<close> returns the longest common prefix and the longest common
  suffix of the two sequences.
\<close>

theorem find_common_fixes_longest:
  assumes "find_common_fixes s1 s2 = (p, q)"
  shows "prefix p s1 \<and> prefix p s2 \<and> suffix q s1 \<and> suffix q s2 \<and>
    (\<forall>r. prefix r s1 \<and> prefix r s2 \<longrightarrow> prefix r p) \<and> (\<forall>r. suffix r s1 \<and> suffix r s2 \<longrightarrow> suffix r q)"
proof -
  have p: "p = longest_common_prefix s1 s2" and q: "rev q = longest_common_prefix (rev s1) (rev s2)"
    using assms find_common_fixes_eq [of s1 s2] by auto
  have "prefix (rev q) (rev s1)" "prefix (rev q) (rev s2)"
    unfolding q by (rule longest_common_prefix_prefix1 longest_common_prefix_prefix2)+
  moreover have "prefix (rev r) (rev q)" if "suffix r s1" "suffix r s2" for r
    unfolding q using that by (intro longest_common_prefix_max_prefix) (simp_all add: suffix_to_prefix)
  ultimately show ?thesis
    unfolding p by (auto simp: suffix_to_prefix longest_common_prefix_prefix1
        longest_common_prefix_prefix2 intro: longest_common_prefix_max_prefix)
qed

theorem find_common_fixes_longest_witness:
  "find_common_fixes ''abcxyz'' ''abqyz'' = (''ab'', ''yz'') \<and> prefix ''ab'' ''abcxyz'' \<and> suffix ''yz'' ''abqyz''"
proof -
  have h: "find_common_fixes ''abcxyz'' ''abqyz'' = (''ab'', ''yz'')" by code_simp
  from h find_common_fixes_longest [OF h] show ?thesis by blast
qed

text \<open>
  \<open>is_rotated\<close> decides whether one sequence is a rotation of the other; on two empty
  sequences, which are, it raises \<open>IndexError\<close>.
\<close>

theorem is_rotated_decides:
  "is_rotated seq1 seq2 =
     (if seq1 = [] \<and> seq2 = [] then Inl IndexError else Inr (\<exists>n. seq2 = rotate n seq1))"
proof (cases "seq2 = []")
  case True
  have "\<not> (\<exists>n. seq2 = rotate n seq1)" if "seq1 \<noteq> []"
    using that True rotate_is_Nil_conv by metis
  then show ?thesis using True is_rotated_empty by (cases seq1) (auto simp: is_rotated_def)
qed (simp add: is_rotated_iff)

end
