(* ===== verification/Topsort.thy ===== *)
theory Topsort
  imports Rad_Seq
begin

text \<open>
  \<^verbatim>\<open>bindings/python/topsort.py\<close>: \<open>topsort\<close>, \<open>topsort_levels\<close> and
  \<open>topsort_levels_core\<close>. The two dictionaries the functions share (\<open>num_parents\<close>: element
  to number of unprocessed predecessors; \<open>children\<close>: element to list of successors) are
  association lists in insertion order; every \<open>KeyError\<close> the code could raise is a value
  of the model. The correctness argument is one invariant, \<open>kahn\<close>, of the pair of
  dictionaries relative to the set of elements already taken out; the locale \<open>retirement\<close>
  states what taking out one element promises, and both sorting functions rest on it.
\<close>

section \<open>The code\<close>

type_synonym 'a counts = "('a, int) dict"
type_synonym 'a succs = "('a, 'a list) dict"

datatype 'a topsort_error =
    CycleError "'a list" "'a counts" "'a succs"
  | CycleErrorLevels "'a counts" "'a succs"
  | KeyErrorAt 'a

text \<open>\<open>if not num_parents.has_key(x): num_parents[x] = 0\<close>\<close>

definition ensure_key :: "'a \<Rightarrow> 'a counts \<Rightarrow> 'a counts" where
  "ensure_key x np = (if has_key np x then np else AList.update x 0 np)"

text \<open>\<open>num_parents[x] += k\<close>\<close>

definition incr :: "'a \<Rightarrow> int \<Rightarrow> 'a counts \<Rightarrow> 'a topsort_error + 'a counts" where
  "incr x k np = (case map_of np x of
     None \<Rightarrow> Inl (KeyErrorAt x)
   | Some n \<Rightarrow> Inr (AList.update x (n + k) np))"

definition add_pair ::
    "'a counts \<times> 'a succs \<Rightarrow> 'a \<times> 'a \<Rightarrow> 'a topsort_error + 'a counts \<times> 'a succs" where
  "add_pair st pair = (case (st, pair) of ((num_parents, children), (parent, child)) \<Rightarrow>
     rbind (incr child 1 (ensure_key child (ensure_key parent num_parents))) (\<lambda>num_parents'.
       Inr (num_parents', AList.update parent (dget_or [] parent children @ [child]) children)))"

definition build_graph :: "('a \<times> 'a) list \<Rightarrow> 'a topsort_error + 'a counts \<times> 'a succs" where
  "build_graph pairlist = rfold add_pair ([], []) pairlist"

text \<open>
  The inner loop of \<open>topsort\<close>: knock the parent count down on each child, collecting the
  children whose count reaches zero (they are appended to \<open>answer\<close>).
\<close>

fun knock_down :: "'a counts \<Rightarrow> 'a list \<Rightarrow> 'a topsort_error + 'a counts \<times> 'a list" where
  "knock_down num_parents [] = Inr (num_parents, [])"
| "knock_down num_parents (child # cs) =
     rbind (incr child (- 1) num_parents) (\<lambda>num_parents'.
       rbind (knock_down num_parents' cs) (\<lambda>(num_parents'', zero).
         Inr (num_parents'', if map_of num_parents' child = Some 0 then child # zero else zero)))"

text \<open>The body of the outer loop of \<open>topsort\<close> for one parent of \<open>answer\<close>.\<close>

definition retire :: "'a \<Rightarrow> 'a counts \<Rightarrow> 'a succs \<Rightarrow>
    'a topsort_error + 'a counts \<times> 'a succs \<times> 'a list" where
  "retire parent num_parents children =
     (case map_of num_parents parent of
        None \<Rightarrow> Inl (KeyErrorAt parent)
      | Some _ \<Rightarrow>
          (case map_of children parent of
             None \<Rightarrow> Inr (AList.delete parent num_parents, children, [])
           | Some cs \<Rightarrow>
               rbind (knock_down (AList.delete parent num_parents) cs) (\<lambda>(num_parents', zero).
                 Inr (num_parents', AList.delete parent children, zero))))"

lemma incr_length: "incr x k np = Inr np' \<Longrightarrow> length np' = length np"
proof -
  have "length (AList.update x v np) = length np" if "map_of np x = Some w" for v w
    using that by (induction np) auto
  then show "incr x k np = Inr np' \<Longrightarrow> length np' = length np"
    by (auto simp: incr_def split: option.splits)
qed

lemma knock_down_length: "knock_down np cs = Inr (np', zero) \<Longrightarrow> length np' = length np"
  by (induction np cs arbitrary: np' zero rule: knock_down.induct)
     (auto simp: rbind_iffs dest: incr_length)

lemma retire_shrinks: "retire p np ch = Inr (np', ch', zero) \<Longrightarrow> length np' < length np"
  using length_delete_less [of np p]
  by (auto simp: retire_def rbind_iffs split: option.splits dest!: knock_down_length)

text \<open>
  \<open>for parent in answer\<close>, where \<open>answer\<close> grows in the loop: \<open>taken\<close> is the part the
  loop has been through and \<open>rest\<close> the part it has not. Each round deletes a key of
  \<open>num_parents\<close> or raises, so the loop ends.
\<close>

function topsort_loop :: "'a list \<Rightarrow> 'a list \<Rightarrow> 'a counts \<Rightarrow> 'a succs \<Rightarrow>
    'a topsort_error + 'a list \<times> 'a counts \<times> 'a succs" where
  "topsort_loop taken [] num_parents children = Inr (taken, num_parents, children)"
| "topsort_loop taken (parent # rest) num_parents children =
     rbind (retire parent num_parents children) (\<lambda>(num_parents', children', zero).
       topsort_loop (taken @ [parent]) (rest @ zero) num_parents' children')"
  by pat_completeness auto
termination
  by (relation "measure (\<lambda>(taken, rest, np, ch). length np)") (auto dest: retire_shrinks)

definition parentless :: "'a counts \<Rightarrow> 'a list" where
  \<comment> \<open>\<open>[x for x in num_parents.keys() if num_parents[x] == 0]\<close>\<close>
  "parentless num_parents = filter (\<lambda>x. map_of num_parents x = Some 0) (dkeys num_parents)"

definition topsort :: "('a \<times> 'a) list \<Rightarrow> 'a topsort_error + 'a list" where
  "topsort pairlist =
     rbind (build_graph pairlist) (\<lambda>(num_parents, children).
       rbind (topsort_loop [] (parentless num_parents) num_parents children)
         (\<lambda>(answer, num_parents', children').
            if num_parents' \<noteq> [] then Inl (CycleError answer num_parents' children')
            else Inr answer))"

text \<open>
  \<open>topsort_levels_core\<close>: its inner loop only decrements. The generator yields a list of
  levels and then ends (\<open>StopIteration\<close>, here \<open>Inr ()\<close>) or raises.
\<close>

definition retire_in_level :: "'a counts \<times> 'a succs \<Rightarrow> 'a \<Rightarrow>
    'a topsort_error + 'a counts \<times> 'a succs" where
  "retire_in_level st level_parent = (case st of (num_parents, children) \<Rightarrow>
     (case map_of num_parents level_parent of
        None \<Rightarrow> Inl (KeyErrorAt level_parent)
      | Some _ \<Rightarrow>
          (case map_of children level_parent of
             None \<Rightarrow> Inr (AList.delete level_parent num_parents, children)
           | Some cs \<Rightarrow>
               rbind (rfold (\<lambda>np c. incr c (- 1) np) (AList.delete level_parent num_parents) cs)
                 (\<lambda>num_parents'. Inr (num_parents', AList.delete level_parent children)))))"

lemma knock_down_decr:
  "rfold (\<lambda>np c. incr c (- 1) np) np cs = rbind (knock_down np cs) (\<lambda>(np', zero). Inr np')"
  by (induction np cs rule: knock_down.induct) (auto simp: rbind_def split: sum.splits)

lemma retire_in_level_eq:
  "retire_in_level (np, ch) p = rbind (retire p np ch) (\<lambda>(np', ch', zero). Inr (np', ch'))"
  by (auto simp: retire_in_level_def retire_def knock_down_decr rbind_def
      split: option.splits sum.splits)

lemma retire_level_length:
  "rfold retire_in_level (np, ch) ps = Inr (np', ch') \<Longrightarrow> length np' + length ps \<le> length np"
proof (induction ps arbitrary: np ch)
  case (Cons p ps)
  from Cons.prems obtain np1 ch1 zero where
    r: "retire p np ch = Inr (np1, ch1, zero)" and
    "rfold retire_in_level (np1, ch1) ps = Inr (np', ch')"
    by (auto simp: retire_in_level_eq rbind_iffs)
  with Cons.IH [of np1 ch1] retire_shrinks [OF r] show ?case by simp
qed simp

function topsort_levels_core :: "'a counts \<Rightarrow> 'a succs \<Rightarrow>
    'a list list \<times> ('a topsort_error + unit)" where
  "topsort_levels_core num_parents children =
     (let level_parents = parentless num_parents in
      if level_parents = [] then
        ([], if num_parents \<noteq> [] then Inl (CycleErrorLevels num_parents children) else Inr ())
      else
        (case rfold retire_in_level (num_parents, children) level_parents of
           Inl e \<Rightarrow> ([level_parents], Inl e)
         | Inr (num_parents', children') \<Rightarrow>
             (case topsort_levels_core num_parents' children' of
                (levels, outcome) \<Rightarrow> (level_parents # levels, outcome))))"
  by pat_completeness auto
termination
proof (relation "measure (\<lambda>(np, ch). length np)")
  fix np :: "'a counts" and ch :: "'a succs" and ps y np' ch'
  assume "ps = parentless np" "ps \<noteq> []" "rfold retire_in_level (np, ch) ps = Inr y" "(np', ch') = y"
  then show "((np', ch'), (np, ch)) \<in> measure (\<lambda>(np, ch). length np)"
    using retire_level_length [of np ch ps np' ch'] by (auto simp flip: length_greater_0_conv)
qed simp

declare topsort_levels_core.simps [simp del]

definition topsort_levels :: "('a \<times> 'a) list \<Rightarrow> 'a list list \<times> ('a topsort_error + unit)" where
  "topsort_levels pairlist =
     (case build_graph pairlist of
        Inl e \<Rightarrow> ([], Inl e)
      | Inr (num_parents, children) \<Rightarrow> topsort_levels_core num_parents children)"

section \<open>The invariant of the two dictionaries\<close>

definition elements :: "('a \<times> 'a) list \<Rightarrow> 'a set" where
  "elements ps = fst ` set ps \<union> snd ` set ps"

definition succs_of :: "('a \<times> 'a) list \<Rightarrow> 'a \<Rightarrow> 'a list" where
  "succs_of ps p = map snd (filter (\<lambda>e. fst e = p) ps)"

text \<open>How many pairs still count as predecessors of \<open>x\<close> when \<open>D\<close> has been taken out.\<close>

definition indeg :: "('a \<times> 'a) list \<Rightarrow> 'a set \<Rightarrow> 'a \<Rightarrow> int" where
  "indeg ps D x = int (length (filter (\<lambda>e. snd e = x \<and> fst e \<notin> D) ps))"

definition ready :: "('a \<times> 'a) list \<Rightarrow> 'a set \<Rightarrow> 'a set" where
  "ready ps D = {x \<in> elements ps - D. \<forall>p. (p, x) \<in> set ps \<longrightarrow> p \<in> D}"

definition kahn :: "('a \<times> 'a) list \<Rightarrow> 'a set \<Rightarrow> 'a counts \<times> 'a succs \<Rightarrow> bool" where
  "kahn ps D st \<longleftrightarrow>
     distinct (dkeys (fst st)) \<and> set (dkeys (fst st)) = elements ps - D \<and>
     (\<forall>x \<in> elements ps - D. map_of (fst st) x = Some (indeg ps D x)) \<and>
     (\<forall>p. map_of (snd st) p = (if p \<in> D \<or> succs_of ps p = [] then None else Some (succs_of ps p))) \<and>
     (\<forall>(p, x) \<in> set ps. x \<in> D \<longrightarrow> p \<in> D) \<and> D \<subseteq> elements ps"

lemma elements_simps [simp]:
  "elements [] = {}"
  "elements ((p, c) # ps) = insert p (insert c (elements ps))"
  "elements (ps @ qs) = elements ps \<union> elements qs"
  by (auto simp: elements_def)

lemma elementsI: "(p, c) \<in> set ps \<Longrightarrow> p \<in> elements ps \<and> c \<in> elements ps"
  by (force simp: elements_def)

lemma succs_of_simps [simp]:
  "succs_of [] p = []"
  "succs_of ((q, c) # ps) p = (if q = p then c # succs_of ps p else succs_of ps p)"
  "succs_of (ps @ qs) p = succs_of ps p @ succs_of qs p"
  by (simp_all add: succs_of_def)

lemma succs_of_set: "c \<in> set (succs_of ps p) \<longleftrightarrow> (p, c) \<in> set ps"
  by (force simp: succs_of_def)

lemma indeg_simps [simp]:
  "indeg [] D x = 0"
  "indeg ((p, c) # ps) D x = (if c = x \<and> p \<notin> D then 1 else 0) + indeg ps D x"
  "indeg (ps @ qs) D x = indeg ps D x + indeg qs D x"
  by (simp_all add: indeg_def)

lemma indeg_nonneg [simp]: "0 \<le> indeg ps D x"
  by (simp add: indeg_def)

lemma indeg_zero_iff: "indeg ps D x = 0 \<longleftrightarrow> (\<forall>p. (p, x) \<in> set ps \<longrightarrow> p \<in> D)"
  by (auto simp: indeg_def filter_empty_conv)

lemma indeg_insert:
  "p \<notin> D \<Longrightarrow> indeg ps (insert p D) x = indeg ps D x - int (count_list (succs_of ps p) x)"
proof (induction ps)
  case (Cons e ps)
  then show ?case by (cases e) auto
qed simp

lemma indeg_outside: "x \<notin> elements ps \<Longrightarrow> indeg ps D x = 0"
  using elementsI by (fastforce simp: indeg_zero_iff)

lemma ready_iff: "x \<in> ready ps D \<longleftrightarrow> x \<in> elements ps - D \<and> indeg ps D x = 0"
  by (auto simp: ready_def indeg_zero_iff)

lemma kahnD:
  assumes "kahn ps D (np, ch)"
  shows "distinct (dkeys np)" and "set (dkeys np) = elements ps - D"
    and "\<And>x. x \<in> elements ps - D \<Longrightarrow> map_of np x = Some (indeg ps D x)"
    and "\<And>q. map_of ch q = (if q \<in> D \<or> succs_of ps q = [] then None else Some (succs_of ps q))"
    and "\<And>q x. (q, x) \<in> set ps \<Longrightarrow> x \<in> D \<Longrightarrow> q \<in> D"
    and "D \<subseteq> elements ps"
  using assms unfolding kahn_def fst_conv snd_conv by blast+

lemma kahnI:
  assumes "distinct (dkeys np)" and "set (dkeys np) = elements ps - D"
    and "\<And>x. x \<in> elements ps - D \<Longrightarrow> map_of np x = Some (indeg ps D x)"
    and "\<And>q. map_of ch q = (if q \<in> D \<or> succs_of ps q = [] then None else Some (succs_of ps q))"
    and "\<And>q x. (q, x) \<in> set ps \<Longrightarrow> x \<in> D \<Longrightarrow> q \<in> D"
    and "D \<subseteq> elements ps"
  shows "kahn ps D (np, ch)"
  using assms unfolding kahn_def fst_conv snd_conv by blast

lemma kahn_parentless: "kahn ps D (np, ch) \<Longrightarrow> set (parentless np) = ready ps D"
  using kahnD(2,3) [of ps D np ch]
  by (auto simp: parentless_def ready_iff simp del: set_map map_of_eq_Some_iff)

lemma kahn_parentless_distinct: "kahn ps D (np, ch) \<Longrightarrow> distinct (parentless np)"
  by (simp add: kahn_def parentless_def)

subsection \<open>The dictionaries as built\<close>

lemma ensure_key_get: "map_of (ensure_key x np) y = (if y = x \<and> map_of np x = None then Some 0 else map_of np y)"
  by (auto simp: ensure_key_def)

lemma ensure_key_keys: "set (dkeys (ensure_key x np)) = insert x (set (dkeys np))"
  using has_key_iff [of np x] by (cases "has_key np x") (auto simp: ensure_key_def dom_update)

lemma ensure_key_distinct: "distinct (dkeys np) \<Longrightarrow> distinct (dkeys (ensure_key x np))"
  by (simp only: ensure_key_def distinct_update split: if_split) simp

lemma kahn_add_pair:
  assumes "kahn ps {} (np, ch)"
  shows "\<exists>np' ch'. add_pair (np, ch) (p, c) = Inr (np', ch') \<and> kahn (ps @ [(p, c)]) {} (np', ch')"
proof -
  let ?np1 = "ensure_key c (ensure_key p np)"
  have keys: "distinct (dkeys np)" "set (dkeys np) = elements ps"
    and cnt: "\<And>x. x \<in> elements ps \<Longrightarrow> map_of np x = Some (indeg ps {} x)"
    and ch: "\<And>q. map_of ch q = (if succs_of ps q = [] then None else Some (succs_of ps q))"
    using kahnD [OF assms] by auto
  have none: "map_of np x = None" if "x \<notin> elements ps" for x
    using that keys(2) by (metis map_of_eq_None_iff list.set_map)
  have get1: "map_of ?np1 x = Some (indeg ps {} x)" if "x \<in> insert p (insert c (elements ps))" for x
    using that cnt none indeg_outside [of x ps "{}"] by (cases "x \<in> elements ps") (auto simp: ensure_key_get)
  let ?np' = "AList.update c (indeg ps {} c + 1) ?np1"
  let ?ch' = "AList.update p (dget_or [] p ch @ [c]) ch"
  have add: "add_pair (np, ch) (p, c) = Inr (?np', ?ch')"
    using get1 [of c] by (simp add: add_pair_def incr_def)
  have d': "distinct (dkeys ?np')"
    using keys(1) by (intro distinct_update ensure_key_distinct)
  have k': "set (dkeys ?np') = elements (ps @ [(p, c)]) - {}"
    using keys(2) by (auto simp: ensure_key_keys simp del: set_map)
  have c': "map_of ?np' x = Some (indeg (ps @ [(p, c)]) {} x)" if "x \<in> insert p (insert c (elements ps))" for x
    using get1 [OF that] by auto
  have h': "map_of ?ch' q = (if q \<in> {} \<or> succs_of (ps @ [(p, c)]) q = [] then None
      else Some (succs_of (ps @ [(p, c)]) q))" for q
    using ch by (auto simp: dget_or_def)
  have "kahn (ps @ [(p, c)]) {} (?np', ?ch')"
    by (rule kahnI [OF d' k' _ h']) (use c' in auto)
  with add show ?thesis by blast
qed

lemma kahn_build: "\<exists>np ch. build_graph ps = Inr (np, ch) \<and> kahn ps {} (np, ch)"
proof (induction ps rule: rev_induct)
  case Nil
  show ?case by (simp add: build_graph_def kahn_def)
next
  case (snoc e ps)
  then obtain np ch where b: "rfold add_pair ([], []) ps = Inr (np, ch)" "kahn ps {} (np, ch)"
    by (auto simp: build_graph_def)
  obtain p c where e: "e = (p, c)" by (cases e)
  from kahn_add_pair [OF b(2), of p c] b(1) show ?case
    by (auto simp: build_graph_def rfold_append e)
qed

subsection \<open>Taking one element out\<close>

lemma knock_down_spec:
  assumes "\<And>c. c \<in> set cs \<Longrightarrow> \<exists>n. map_of np c = Some n \<and> int (count_list cs c) \<le> n"
  shows "\<exists>np' zero. knock_down np cs = Inr (np', zero) \<and> dkeys np' = dkeys np \<and>
    (\<forall>x. map_of np' x = map_option (\<lambda>n. n - int (count_list cs x)) (map_of np x)) \<and>
    distinct zero \<and> set zero = {x \<in> set cs. map_of np' x = Some 0}"
  using assms
proof (induction np cs rule: knock_down.induct)
  case (1 np)
  then show ?case by (simp add: option.map_ident)
next
  case (2 np c cs)
  from "2.prems" [of c] obtain n where n: "map_of np c = Some n" "1 + int (count_list cs c) \<le> n"
    by auto
  let ?np1 = "AList.update c (n - 1) np"
  have inc: "incr c (- 1) np = Inr ?np1" using n by (simp add: incr_def)
  have in_np: "c \<in> set (dkeys np)" using n(1) has_key_iff [of np c] by simp
  have "\<exists>m. map_of ?np1 x = Some m \<and> int (count_list cs x) \<le> m" if "x \<in> set cs" for x
    using that "2.prems" [of x] n by (auto split: if_splits)
  from "2.IH" [OF inc this] obtain np' zero where
    k: "knock_down ?np1 cs = Inr (np', zero)" and keys: "dkeys np' = dkeys ?np1"
    and get: "\<forall>x. map_of np' x = map_option (\<lambda>n. n - int (count_list cs x)) (map_of ?np1 x)"
    and z: "distinct zero" "set zero = {x \<in> set cs. map_of np' x = Some 0}" by blast
  have get': "map_of np' x = map_option (\<lambda>n. n - int (count_list (c # cs) x)) (map_of np x)" for x
    using get n by auto
  have mem: "n - 1 = 0 \<Longrightarrow> c \<notin> set cs" using n(2) by (auto simp: count_list_0_iff)
  have "c \<in> set cs \<Longrightarrow> n - 1 \<noteq> 0" using mem by blast
  moreover have "c \<notin> set cs \<Longrightarrow> map_of np' c = Some (n - 1)"
    using get n by (simp add: count_list_0_iff)
  ultimately show ?case
    using inc k keys in_np get' z mem by (auto simp del: set_map)
qed

lemma kahn_retire:
  assumes inv: "kahn ps D (np, ch)" and p: "p \<in> ready ps D"
  shows "\<exists>np' ch' zero. retire p np ch = Inr (np', ch', zero) \<and> kahn ps (insert p D) (np', ch') \<and>
    distinct zero \<and> set zero = ready ps (insert p D) - ready ps D"
proof -
  let ?D' = "insert p D"
  let ?np1 = "AList.delete p np"
  let ?cs = "succs_of ps p"
  have keys: "distinct (dkeys np)" "set (dkeys np) = elements ps - D"
    and cnt: "\<And>x. x \<in> elements ps - D \<Longrightarrow> map_of np x = Some (indeg ps D x)"
    and ch: "\<And>q. map_of ch q = (if q \<in> D \<or> succs_of ps q = [] then None else Some (succs_of ps q))"
    and closed: "\<And>q x. (q, x) \<in> set ps \<Longrightarrow> x \<in> D \<Longrightarrow> q \<in> D"
    using kahnD [OF inv] by auto
  have pD: "p \<in> elements ps" "p \<notin> D" "indeg ps D p = 0" using p by (auto simp: ready_iff)
  have outs: "c \<in> elements ps - ?D'" if "c \<in> set ?cs" for c
    using that pD closed elementsI [of p c ps] by (auto simp: succs_of_set indeg_zero_iff)
  have np1: "map_of ?np1 x = Some (indeg ps D x)" if "x \<in> elements ps - ?D'" for x
    using that cnt by (auto simp: map_of_delete_eq)
  have k1: "distinct (dkeys ?np1)" "set (dkeys ?np1) = elements ps - ?D'"
    using keys by (auto simp: dkeys_delete distinct_removeAll simp del: set_map)
  have closed': "q \<in> ?D'" if "(q, x) \<in> set ps" "x \<in> ?D'" for q x
    using that closed pD(3) by (auto simp: indeg_zero_iff)
  have inside: "?D' \<subseteq> elements ps" using pD(1) kahnD(6) [OF inv] by simp
  have got: "map_of np p = Some 0" using cnt pD by simp
  have newly: "ready ps ?D' - ready ps D = {x \<in> set ?cs. indeg ps ?D' x = 0}"
  proof (intro set_eqI iffI)
    fix x assume x: "x \<in> ready ps ?D' - ready ps D"
    then have "indeg ps ?D' x = 0" "indeg ps D x \<noteq> 0" by (auto simp: ready_iff)
    then have "count_list ?cs x \<noteq> 0" using indeg_insert [of p D ps x] pD by simp
    then have "x \<in> set ?cs" by (simp add: count_list_0_iff)
    with \<open>indeg ps ?D' x = 0\<close> show "x \<in> {x \<in> set ?cs. indeg ps ?D' x = 0}" by simp
  next
    fix x assume "x \<in> {x \<in> set ?cs. indeg ps ?D' x = 0}"
    then have x: "x \<in> set ?cs" "indeg ps ?D' x = 0" by auto
    then have "count_list ?cs x \<noteq> 0" by (simp add: count_list_0_iff)
    then have "indeg ps D x \<noteq> 0" using x indeg_insert [of p D ps x] pD by simp
    with x outs show "x \<in> ready ps ?D' - ready ps D" by (simp add: ready_iff)
  qed
  show ?thesis
  proof (cases "?cs = []")
    case True
    then have "map_of ch p = None" using ch by simp
    then have r: "retire p np ch = Inr (?np1, ch, [])" using got by (simp add: retire_def)
    have "indeg ps ?D' x = indeg ps D x" for x using indeg_insert [of p D ps x] pD True by simp
    moreover have "map_of ch q = (if q \<in> ?D' \<or> succs_of ps q = [] then None else Some (succs_of ps q))" for q
      using ch True by auto
    ultimately have "kahn ps ?D' (?np1, ch)"
      using k1 np1 closed' inside by (intro kahnI) (simp_all del: set_map)
    with r newly True show ?thesis by auto
  next
    case False
    then have chp: "map_of ch p = Some ?cs" using ch pD by simp
    have "\<exists>n. map_of ?np1 c = Some n \<and> int (count_list ?cs c) \<le> n" if "c \<in> set ?cs" for c
      using np1 [OF outs [OF that]] indeg_insert [of p D ps c] indeg_nonneg [of ps ?D' c] pD by auto
    from knock_down_spec [OF this] obtain np' zero where
      k: "knock_down ?np1 ?cs = Inr (np', zero)" "dkeys np' = dkeys ?np1"
      and get: "\<And>x. map_of np' x = map_option (\<lambda>n. n - int (count_list ?cs x)) (map_of ?np1 x)"
      and z: "distinct zero" "set zero = {x \<in> set ?cs. map_of np' x = Some 0}" by blast
    have get': "map_of np' x = Some (indeg ps ?D' x)" if "x \<in> elements ps - ?D'" for x
      using get np1 [OF that] indeg_insert [of p D ps x] pD by simp
    have "set zero = ready ps ?D' - ready ps D" unfolding z(2) newly using outs get' by auto
    moreover have "kahn ps ?D' (np', AList.delete p ch)"
    proof (rule kahnI)
      show "map_of (AList.delete p ch) q = (if q \<in> ?D' \<or> succs_of ps q = [] then None
          else Some (succs_of ps q))" for q
        using ch by (auto simp: map_of_delete_eq)
    qed (use k k1 get' closed' inside in \<open>simp_all del: set_map\<close>)
    moreover have "retire p np ch = Inr (np', AList.delete p ch, zero)"
      using got chp k by (simp add: retire_def)
    ultimately show ?thesis using z(1) by blast
  qed
qed

section \<open>What taking elements out promises\<close>

text \<open>
  The interface both sorting functions use: an operation that takes one ready element out
  of the state succeeds and leaves the state described by the larger set, and the other ready
  elements stay ready.
\<close>

locale retirement =
  fixes take_out :: "'s \<Rightarrow> 'a \<Rightarrow> 'e + 's" and describes :: "'a set \<Rightarrow> 's \<Rightarrow> bool"
    and available :: "'a set \<Rightarrow> 'a set"
  assumes taken_out: "describes D s \<Longrightarrow> x \<in> available D \<Longrightarrow>
      \<exists>s'. take_out s x = Inr s' \<and> describes (insert x D) s'"
    and others_stay: "x \<in> available D \<Longrightarrow> y \<in> available D \<Longrightarrow> y \<noteq> x \<Longrightarrow> y \<in> available (insert x D)"
begin

lemma take_out_all:
  "describes D s \<Longrightarrow> distinct xs \<Longrightarrow> set xs \<subseteq> available D \<Longrightarrow>
     \<exists>s'. rfold take_out s xs = Inr s' \<and> describes (D \<union> set xs) s'"
proof (induction xs arbitrary: D s)
  case (Cons x xs)
  then obtain s1 where s1: "take_out s x = Inr s1" "describes (insert x D) s1"
    using taken_out [of D s x] by auto
  have "set xs \<subseteq> available (insert x D)"
  proof
    fix y assume "y \<in> set xs"
    with Cons.prems show "y \<in> available (insert x D)" by (intro others_stay) auto
  qed
  with Cons s1 show ?case by fastforce
qed simp

end

lemma ready_mono: "x \<in> ready ps D \<Longrightarrow> y \<in> ready ps D \<Longrightarrow> y \<noteq> x \<Longrightarrow> y \<in> ready ps (insert x D)"
  by (auto simp: ready_def)

interpretation level: retirement retire_in_level "kahn ps" "ready ps" for ps
proof
  fix D st and x :: 'a
  assume k: "kahn ps D st" and x: "x \<in> ready ps D"
  obtain np ch where st: "st = (np, ch)" by (cases st)
  from kahn_retire [OF k [unfolded st] x] show "\<exists>s'. retire_in_level st x = Inr s' \<and> kahn ps (insert x D) s'"
    by (auto simp: st retire_in_level_eq)
qed (rule ready_mono)

section \<open>Orders and cycles\<close>

definition precedes :: "'a list \<Rightarrow> 'a \<Rightarrow> 'a \<Rightarrow> bool" where
  "precedes xs a b \<longleftrightarrow> a \<in> set (takeWhile (\<lambda>x. x \<noteq> b) xs)"

definition parents_first :: "('a \<times> 'a) list \<Rightarrow> 'a list \<Rightarrow> bool" where
  \<comment> \<open>every listed element comes after all its predecessors\<close>
  "parents_first ps xs \<longleftrightarrow> (\<forall>(p, c) \<in> set ps. c \<in> set xs \<longrightarrow> precedes xs p c)"

lemma precedes_append: "precedes (xs @ ys) a b \<longleftrightarrow>
    (if b \<in> set xs then precedes xs a b else a \<in> set xs \<or> precedes ys a b)"
  by (auto simp: precedes_def takeWhile_append)

lemma parents_first_extend:
  assumes "parents_first ps xs" "\<And>q c. c \<in> set zs \<Longrightarrow> (q, c) \<in> set ps \<Longrightarrow> q \<in> set xs"
  shows "parents_first ps (xs @ zs)"
  unfolding parents_first_def
proof (intro ballI, clarify)
  fix q c assume qc: "(q, c) \<in> set ps" "c \<in> set (xs @ zs)"
  show "precedes (xs @ zs) q c"
  proof (cases "c \<in> set xs")
    case True
    with assms(1) qc(1) show ?thesis by (auto simp: parents_first_def precedes_append)
  next
    case False
    with qc assms(2) show ?thesis by (simp add: precedes_append)
  qed
qed

lemma precedes_position:
  assumes "precedes xs a b" "b \<in> set xs"
  shows "length (takeWhile (\<lambda>x. x \<noteq> a) xs) < length (takeWhile (\<lambda>x. x \<noteq> b) xs)"
proof -
  let ?w = "takeWhile (\<lambda>x. x \<noteq> b) xs"
  have "a \<in> set ?w" using assms(1) by (simp add: precedes_def)
  then obtain u v where uv: "?w = u @ a # v" "a \<notin> set u" by (meson split_list_first)
  obtain r where "xs = u @ a # v @ r"
    using takeWhile_dropWhile_id [of "\<lambda>x. x \<noteq> b" xs] uv by (metis append.assoc append_Cons)
  then have "takeWhile (\<lambda>x. x \<noteq> a) xs = u" using uv(2) by (simp, subst takeWhile_append2) auto
  with uv show ?thesis by simp
qed

lemma order_acyclic:
  assumes "parents_first ps xs" "elements ps \<subseteq> set xs"
  shows "acyclic (set ps)"
proof -
  have "set ps \<subseteq> measure (\<lambda>x. length (takeWhile (\<lambda>y. y \<noteq> x) xs))"
  proof (clarsimp)
    fix p c assume e: "(p, c) \<in> set ps"
    then have "c \<in> set xs" using elementsI [OF e] assms(2) by blast
    with e assms(1) have "precedes xs p c" by (auto simp: parents_first_def)
    then show "length (takeWhile (\<lambda>y. y \<noteq> p) xs) < length (takeWhile (\<lambda>y. y \<noteq> c) xs)"
      using \<open>c \<in> set xs\<close> by (rule precedes_position)
  qed
  then have "wf (set ps)" by (rule wf_subset [OF wf_measure])
  then show ?thesis by (rule wf_acyclic)
qed

lemma stuck_cyclic:
  assumes "ready ps D = {}" "elements ps - D \<noteq> {}"
  shows "\<not> acyclic (set ps)"
proof
  assume "acyclic (set ps)"
  then have "wf (set ps)" by (intro finite_acyclic_wf) auto
  with assms(2) obtain z where z: "z \<in> elements ps - D" "\<And>y. (y, z) \<in> set ps \<Longrightarrow> y \<notin> elements ps - D"
    by (metis (no_types, lifting) all_not_in_conv wfE_min)
  then have "z \<in> ready ps D" using elementsI by (fastforce simp: ready_def)
  with assms(1) show False by simp
qed

lemma stuck_has_parent:
  assumes "ready ps D = {}" "x \<in> elements ps - D"
  shows "\<exists>p \<in> elements ps - D. (p, x) \<in> set ps"
  using assms elementsI by (fastforce simp: ready_def)

section \<open>topsort\<close>

lemma topsort_loop_correct:
  assumes "kahn ps (set taken) (np, ch)" "distinct (taken @ rest)"
    and "set rest = ready ps (set taken)" "parents_first ps (taken @ rest)"
  shows "\<exists>ans np' ch'. topsort_loop taken rest np ch = Inr (ans, np', ch') \<and>
    kahn ps (set ans) (np', ch') \<and> ready ps (set ans) = {} \<and> distinct ans \<and> parents_first ps ans"
  using assms
proof (induction taken rest np ch rule: topsort_loop.induct)
  case (1 taken np ch)
  then show ?case by auto
next
  case (2 taken p rest np ch)
  let ?D = "set taken" and ?D' = "insert p (set taken)"
  have p: "p \<in> ready ps ?D" using "2.prems"(3) by auto
  from kahn_retire [OF "2.prems"(1) p] obtain np1 ch1 zero where
    r: "retire p np ch = Inr (np1, ch1, zero)" and k: "kahn ps ?D' (np1, ch1)"
    and z: "distinct zero" "set zero = ready ps ?D' - ready ps ?D" by blast
  have D': "set (taken @ [p]) = ?D'" by auto
  have rest: "set rest \<subseteq> ready ps ?D'"
    using "2.prems"(2,3) ready_mono [OF p] by auto
  have gone: "x \<noteq> p \<and> x \<notin> ?D" if "x \<in> ready ps ?D'" for x using that by (auto simp: ready_def)
  have old: "ready ps ?D \<inter> ready ps ?D' \<subseteq> set rest" using "2.prems"(3) gone by auto
  have zs: "x \<notin> set (taken @ p # rest)" if "x \<in> set zero" for x
    using that z(2) gone "2.prems"(3) by auto
  have "distinct ((taken @ [p]) @ (rest @ zero))" using "2.prems"(2) z(1) zs by auto
  moreover have "set (rest @ zero) = ready ps (set (taken @ [p]))"
    unfolding D' using rest z(2) old by auto
  moreover have "parents_first ps ((taken @ p # rest) @ zero)"
  proof (rule parents_first_extend [OF "2.prems"(4)])
    fix q c assume "c \<in> set zero" "(q, c) \<in> set ps"
    then have "q \<in> ?D'" unfolding z(2) ready_def by blast
    then show "q \<in> set (taken @ p # rest)" by auto
  qed
  then have "parents_first ps ((taken @ [p]) @ (rest @ zero))" by simp
  ultimately have "\<exists>ans np' ch'. topsort_loop (taken @ [p]) (rest @ zero) np1 ch1 = Inr (ans, np', ch') \<and>
    kahn ps (set ans) (np', ch') \<and> ready ps (set ans) = {} \<and> distinct ans \<and> parents_first ps ans"
    using k "2.IH" [OF r refl refl] by (simp only: D')
  with r show ?case by simp
qed

lemma topsort_run:
  "\<exists>ans np ch. topsort ps = (if np \<noteq> [] then Inl (CycleError ans np ch) else Inr ans) \<and>
    kahn ps (set ans) (np, ch) \<and> ready ps (set ans) = {} \<and> distinct ans \<and> parents_first ps ans"
proof -
  obtain np ch where b: "build_graph ps = Inr (np, ch)" and k: "kahn ps {} (np, ch)"
    using kahn_build by blast
  have "parents_first ps (parentless np)"
    using kahn_parentless [OF k] by (auto simp: parents_first_def ready_def)
  then obtain ans np' ch' where
    "topsort_loop [] (parentless np) np ch = Inr (ans, np', ch')"
    "kahn ps (set ans) (np', ch')" "ready ps (set ans) = {}" "distinct ans" "parents_first ps ans"
    using topsort_loop_correct [of ps "[]" np ch "parentless np"] k
      kahn_parentless [OF k] kahn_parentless_distinct [OF k] by auto
  then show ?thesis using b by (auto simp: topsort_def)
qed

lemma kahn_done: "kahn ps D (np, ch) \<Longrightarrow> np = [] \<longleftrightarrow> elements ps \<subseteq> D"
  using kahnD(2) [of ps D np ch] by (cases np) auto

text \<open>
  Claim C12. When \<open>topsort\<close> returns, the answer lists every element of the pairs exactly once,
  and each child after all of its parents.
\<close>

theorem topsort_order:
  assumes "topsort pairlist = Inr answer"
  shows "distinct answer \<and> set answer = elements pairlist \<and>
    (\<forall>(parent, child) \<in> set pairlist. precedes answer parent child)"
proof -
  obtain np ch where k: "kahn pairlist (set answer) (np, ch)" "np = []" and
    d: "distinct answer" and f: "parents_first pairlist answer"
    using topsort_run [of pairlist] assms by (auto split: if_splits)
  have "set answer \<subseteq> elements pairlist \<and> elements pairlist \<subseteq> set answer"
    using kahnD(6) [OF k(1)] kahn_done [OF k(1)] k(2) by blast
  then show ?thesis using d f elementsI by (fastforce simp: parents_first_def)
qed

theorem topsort_order_witness:
  "topsort [(1 :: nat, 2), (1, 3), (2, 4), (3, 4)] = Inr [1, 2, 3, 4] \<and>
     distinct [1, 2, 3, 4 :: nat] \<and> precedes [1, 2, 3, 4 :: nat] 3 4"
proof -
  have h: "topsort [(1 :: nat, 2), (1, 3), (2, 4), (3, 4)] = Inr [1, 2, 3, 4]" by code_simp
  from h topsort_order [OF h] show ?thesis by simp
qed

text \<open>
  Claim C13. \<open>topsort\<close> returns exactly when the pairs have no cycle; otherwise it raises
  \<open>CycleError\<close> (never a \<open>KeyError\<close>), and what it reports as left over is not empty and
  every element left over has a parent left over.
\<close>

theorem topsort_cycle_error:
  "if acyclic (set pairlist) then \<exists>answer. topsort pairlist = Inr answer
   else \<exists>answer num_parents children.
     topsort pairlist = Inl (CycleError answer num_parents children) \<and> num_parents \<noteq> [] \<and>
     (\<forall>x \<in> set (dkeys num_parents). \<exists>p \<in> set (dkeys num_parents). (p, x) \<in> set pairlist)"
proof -
  obtain ans np ch where t: "topsort pairlist = (if np \<noteq> [] then Inl (CycleError ans np ch) else Inr ans)"
    and k: "kahn pairlist (set ans) (np, ch)" and r: "ready pairlist (set ans) = {}"
    and f: "parents_first pairlist ans"
    using topsort_run [of pairlist] by blast
  have left: "set (dkeys np) = elements pairlist - set ans" using kahnD(2) [OF k] .
  show ?thesis
  proof (cases "np = []")
    case True
    then have "acyclic (set pairlist)" using kahn_done [OF k] order_acyclic [OF f] by simp
    with t True show ?thesis by simp
  next
    case False
    then have "elements pairlist - set ans \<noteq> {}" using kahn_done [OF k] by blast
    then have "\<not> acyclic (set pairlist)" using stuck_cyclic [OF r] by blast
    moreover have "\<forall>x \<in> set (dkeys np). \<exists>p \<in> set (dkeys np). (p, x) \<in> set pairlist"
      unfolding left using stuck_has_parent [OF r] by blast
    ultimately show ?thesis using t False by (simp del: set_map)
  qed
qed

theorem topsort_cycle_error_witness:
  "topsort [(1 :: nat, 2), (2, 3), (3, 2)] = Inl (CycleError [1] [(2, 1), (3, 1)] [(2, [3]), (3, [2])]) \<and>
     \<not> acyclic (set [(1 :: nat, 2), (2, 3), (3, 2)])"
proof -
  have h: "topsort [(1 :: nat, 2), (2, 3), (3, 2)] =
      Inl (CycleError [1] [(2, 1), (3, 1)] [(2, [3]), (3, [2])])" by code_simp
  from topsort_cycle_error [of "[(1 :: nat, 2), (2, 3), (3, 2)]"] show ?thesis
    unfolding h by (auto split: if_splits)
qed

section \<open>topsort_levels\<close>

text \<open>Each level is exactly the set of elements whose parents are all in earlier levels.\<close>

fun levels_from :: "('a \<times> 'a) list \<Rightarrow> 'a set \<Rightarrow> 'a list list \<Rightarrow> bool" where
  "levels_from ps D [] \<longleftrightarrow> ready ps D = {}"
| "levels_from ps D (l # ls) \<longleftrightarrow>
     l \<noteq> [] \<and> distinct l \<and> set l = ready ps D \<and> levels_from ps (D \<union> set l) ls"

lemma levels_core_correct:
  assumes "kahn ps D (np, ch)" "topsort_levels_core np ch = (levels, outcome)"
  shows "levels_from ps D levels \<and>
    (outcome = Inr () \<longleftrightarrow> elements ps \<subseteq> D \<union> set (concat levels)) \<and>
    (outcome = Inr () \<or> (\<exists>np' ch'. outcome = Inl (CycleErrorLevels np' ch')))"
  using assms
proof (induction "length np" arbitrary: np ch D levels outcome rule: less_induct)
  case less
  let ?l = "parentless np"
  show ?case
  proof (cases "?l = []")
    case True
    then have "ready ps D = {}" using kahn_parentless [OF less.prems(1)] by simp
    moreover have "levels = [] \<and> outcome = (if np \<noteq> [] then Inl (CycleErrorLevels np ch) else Inr ())"
      using True less.prems(2) by (simp add: topsort_levels_core.simps [of np ch])
    ultimately show ?thesis using kahn_done [OF less.prems(1)] by (cases "np = []") auto
  next
    case False
    have l: "distinct ?l" "set ?l = ready ps D"
      using kahn_parentless_distinct [OF less.prems(1)] kahn_parentless [OF less.prems(1)] by auto
    then obtain np1 ch1 where r: "rfold retire_in_level (np, ch) ?l = Inr (np1, ch1)"
      and k: "kahn ps (D \<union> set ?l) (np1, ch1)"
      using level.take_out_all [OF less.prems(1), of ?l] by auto
    have shorter: "length np1 < length np"
      using retire_level_length [OF r] False by (cases ?l) auto
    obtain ls out where rest: "topsort_levels_core np1 ch1 = (ls, out)" by fastforce
    have eqs: "levels = ?l # ls" "outcome = out"
      using less.prems(2) False r rest by (simp_all add: topsort_levels_core.simps [of np ch])
    note ih = less.hyps [OF shorter k rest]
    have "levels_from ps D levels" using ih l False unfolding eqs levels_from.simps by blast
    moreover have "D \<union> set (concat levels) = D \<union> set ?l \<union> set (concat ls)" unfolding eqs by auto
    ultimately show ?thesis using ih unfolding eqs(2) by metis
  qed
qed

lemma topsort_levels_run:
  assumes "topsort_levels ps = (levels, outcome)"
  shows "levels_from ps {} levels \<and> (outcome = Inr () \<longleftrightarrow> elements ps \<subseteq> set (concat levels)) \<and>
    (outcome = Inr () \<or> (\<exists>np' ch'. outcome = Inl (CycleErrorLevels np' ch')))"
proof -
  obtain np ch where b: "build_graph ps = Inr (np, ch)" and k: "kahn ps {} (np, ch)"
    using kahn_build by blast
  have "topsort_levels_core np ch = (levels, outcome)"
    using assms unfolding topsort_levels_def b sum.case prod.case .
  from levels_core_correct [OF k this] show ?thesis unfolding Un_empty_left .
qed

lemma levels_from_distinct:
  "levels_from ps D ls \<Longrightarrow> distinct (concat ls) \<and> set (concat ls) \<subseteq> elements ps - D"
proof (induction ls arbitrary: D)
  case (Cons l ls)
  have "ready ps D \<subseteq> elements ps - D" by (auto simp: ready_def)
  then have l: "set l \<subseteq> elements ps - D" "distinct l" using Cons.prems unfolding levels_from.simps by blast+
  have "levels_from ps (D \<union> set l) ls" using Cons.prems unfolding levels_from.simps by blast
  note ih = Cons.IH [OF this]
  have "distinct (concat ls)" "set (concat ls) \<subseteq> elements ps - (D \<union> set l)" using ih by blast+
  moreover from this(2) have "set l \<inter> set (concat ls) = {}" by blast
  ultimately show ?case using l unfolding concat.simps distinct_append set_append by blast
qed simp

lemma levels_from_end: "levels_from ps D ls \<Longrightarrow> ready ps (D \<union> set (concat ls)) = {}"
proof (induction ls arbitrary: D)
  case (Cons l ls)
  then show ?case by (metis levels_from.simps(2) Un_assoc concat.simps(2) set_append)
qed simp

lemma levels_from_parents:
  "levels_from ps D ls \<Longrightarrow> k < length ls \<Longrightarrow> x \<in> set (ls ! k) \<Longrightarrow> (p, x) \<in> set ps \<Longrightarrow>
     p \<in> D \<or> (\<exists>j < k. p \<in> set (ls ! j))"
proof (induction ls arbitrary: D k)
  case (Cons l ls)
  show ?case
  proof (cases k)
    case 0
    with Cons.prems show ?thesis by (auto simp: ready_def)
  next
    case (Suc k')
    with Cons.prems Cons.IH [of "D \<union> set l" k'] have "p \<in> D \<or> p \<in> set l \<or> (\<exists>j < k'. p \<in> set (ls ! j))"
      by auto
    then show ?thesis using Suc by (metis Suc_less_eq nth_Cons_0 nth_Cons_Suc zero_less_Suc)
  qed
qed simp

lemma levels_from_previous:
  "levels_from ps D ls \<Longrightarrow> Suc k < length ls \<Longrightarrow> x \<in> set (ls ! Suc k) \<Longrightarrow>
     \<exists>p \<in> set (ls ! k). (p, x) \<in> set ps"
proof (induction ls arbitrary: D k)
  case (Cons l ls)
  show ?case
  proof (cases k)
    case 0
    with Cons.prems obtain l2 ls' where ls: "ls = l2 # ls'" by (cases ls) auto
    with Cons.prems 0 have "x \<in> ready ps (D \<union> set l)" "set l = ready ps D" by auto
    then have "x \<notin> ready ps D" "x \<in> elements ps - D" "\<And>p. (p, x) \<in> set ps \<Longrightarrow> p \<in> D \<union> set l"
      by (auto simp: ready_def)
    then obtain p where "(p, x) \<in> set ps" "p \<notin> D" by (auto simp: ready_def)
    with \<open>\<And>p. (p, x) \<in> set ps \<Longrightarrow> p \<in> D \<union> set l\<close> 0 show ?thesis by auto
  next
    case (Suc k')
    with Cons.prems Cons.IH [of "D \<union> set l" k'] show ?thesis by auto
  qed
qed simp

text \<open>
  Claim C37. \<open>topsort_levels\<close> yields disjoint levels without repetition and then ends normally
  exactly when the pairs have no cycle, in which case the levels hold every element; with a
  cycle it raises its two-argument \<open>CycleError\<close>.
\<close>

theorem topsort_levels_complete:
  assumes "topsort_levels pairlist = (levels, outcome)"
  shows "distinct (concat levels) \<and> set (concat levels) \<subseteq> elements pairlist \<and>
    (if acyclic (set pairlist) then outcome = Inr () \<and> set (concat levels) = elements pairlist
     else \<exists>num_parents children. outcome = Inl (CycleErrorLevels num_parents children))"
proof -
  note run = topsort_levels_run [OF assms]
  have lv: "levels_from pairlist {} levels" using run by blast
  have stuck: "ready pairlist (set (concat levels)) = {}" using levels_from_end [OF lv] by simp
  have sub: "set (concat levels) \<subseteq> elements pairlist" using levels_from_distinct [OF lv] by simp
  show ?thesis
  proof (cases "acyclic (set pairlist)")
    case True
    then have "elements pairlist - set (concat levels) = {}" using stuck_cyclic [OF stuck] by blast
    with True run sub levels_from_distinct [OF lv] show ?thesis by auto
  next
    case False
    have "\<not> elements pairlist \<subseteq> set (concat levels)"
    proof
      assume all: "elements pairlist \<subseteq> set (concat levels)"
      define rank where "rank x = (LEAST k. k < length levels \<and> x \<in> set (levels ! k))" for x
      have at: "rank x < length levels \<and> x \<in> set (levels ! rank x)" if "x \<in> elements pairlist" for x
      proof -
        from that all have "\<exists>k. k < length levels \<and> x \<in> set (levels ! k)"
          by (fastforce simp: in_set_conv_nth)
        then show ?thesis unfolding rank_def by (rule LeastI_ex)
      qed
      have "set pairlist \<subseteq> measure rank"
      proof clarsimp
        fix p c assume pc: "(p, c) \<in> set pairlist"
        from levels_from_parents [OF lv _ _ pc, of "rank c"] at [of c] elementsI [OF pc]
        obtain j where j: "j < rank c" "p \<in> set (levels ! j)" by auto
        have "rank p \<le> j" unfolding rank_def
          by (rule Least_le) (use j at [of c] elementsI [OF pc] in auto)
        with j show "rank p < rank c" by simp
      qed
      then have "wf (set pairlist)" by (rule wf_subset [OF wf_measure])
      with False show False by (simp add: wf_acyclic)
    qed
    with False run sub levels_from_distinct [OF lv] show ?thesis by auto
  qed
qed

theorem topsort_levels_complete_witness:
  "\<exists>np ch. topsort_levels [(1 :: nat, 2), (2, 3), (3, 2)] = ([[1]], Inl (CycleErrorLevels np ch)) \<and>
     \<not> acyclic (set [(1 :: nat, 2), (2, 3), (3, 2)])"
proof -
  have h: "topsort_levels [(1 :: nat, 2), (2, 3), (3, 2)] =
      ([[1]], Inl (CycleErrorLevels [(2, 1), (3, 1)] [(2, [3]), (3, [2])]))" by code_simp
  from topsort_levels_complete [OF h] show ?thesis unfolding h by (auto split: if_splits)
qed

text \<open>
  Claim C14. The level of an element is its depth: all parents of an element of level \<open>k\<close> are
  in earlier levels, and for \<open>k > 0\<close> at least one is in level \<open>k - 1\<close>.
\<close>

theorem topsort_levels_depth:
  assumes "topsort_levels pairlist = (levels, outcome)" "k < length levels" "x \<in> set (levels ! k)"
  shows "(\<forall>p. (p, x) \<in> set pairlist \<longrightarrow> (\<exists>j < k. p \<in> set (levels ! j))) \<and>
    (0 < k \<longrightarrow> (\<exists>p \<in> set (levels ! (k - 1)). (p, x) \<in> set pairlist))"
proof -
  have lv: "levels_from pairlist {} levels" using topsort_levels_run [OF assms(1)] by blast
  show ?thesis
    using levels_from_parents [OF lv assms(2,3)] levels_from_previous [OF lv, of "k - 1" x] assms(2,3)
    by (cases k) auto
qed

theorem topsort_levels_depth_witness:
  "topsort_levels [(1 :: nat, 2), (2, 3), (1, 3)] = ([[1], [2], [3]], Inr ()) \<and>
     (\<exists>p \<in> set [2 :: nat]. (p, 3) \<in> set [(1 :: nat, 2), (2, 3), (1, 3)])"
proof -
  have h: "topsort_levels [(1 :: nat, 2), (2, 3), (1, 3)] = ([[1], [2], [3]], Inr ())" by code_simp
  from h topsort_levels_depth [OF h, of 2 3] show ?thesis by simp
qed

end
