(* ===== verification/Find_Cycles.thy ===== *)
theory Find_Cycles
  imports Topsort "HOL-Library.Multiset"
begin

text \<open>
  \<^verbatim>\<open>bindings/python/topsort.py\<close>: \<open>find_cycles\<close>, the generator that walks every simple path
  with a stack of paths and yields the cycles it closes. The stack is a list with its top at
  the head; \<open>parent_children\<close> is an association list, and a child that is not a key is the
  code's \<open>except KeyError: continue\<close>. The generator is modelled by the list of everything it
  yields (a consumer that changes a yielded list in place while the generator runs is outside
  the model).
\<close>

section \<open>The code\<close>

fun known_cycle :: "'a list list \<Rightarrow> 'a list \<Rightarrow> py_error + bool" where
  "known_cycle [] cycle = Inr False"
| "known_cycle (other_cycle # cycles) cycle =
     rbind (is_rotated other_cycle cycle) (\<lambda>r. if r then Inr True else known_cycle cycles cycle)"

definition path_index :: "'a list \<Rightarrow> 'a \<Rightarrow> nat" where
  \<comment> \<open>\<open>path.index(child)\<close> of a member\<close>
  "path_index path child = length (takeWhile (\<lambda>x. x \<noteq> child) path)"

type_synonym 'a search = "'a list list \<times> 'a list list \<times> 'a set"

text \<open>The body of the loop over \<open>children\<close>; the state is \<open>(cycles, paths, visited_nodes)\<close>.\<close>

definition visit_child :: "'a list \<Rightarrow> 'a search \<Rightarrow> 'a \<Rightarrow> py_error + 'a search" where
  "visit_child path st child = (case st of (cycles, paths, visited_nodes) \<Rightarrow>
     if child \<in> set path then
       (let cycle = slice_from path (int (path_index path child)) in
        rbind (known_cycle cycles cycle) (\<lambda>is_dup.
          Inr (if is_dup then cycles else cycles @ [cycle], paths, visited_nodes)))
     else Inr (cycles, (path @ [child]) # paths, insert child visited_nodes))"

definition graph_nodes :: "('a, 'a list) dict \<Rightarrow> 'a set" where
  "graph_nodes g = set (concat (map snd g))"

lemma visit_child_on_path:
  "visit_child path (cs, ps, vis) c = Inr st \<Longrightarrow> c \<in> set path \<Longrightarrow> \<exists>cs'. st = (cs', ps, vis)"
  by (auto simp: visit_child_def rbind_iffs Let_def)

lemma visit_child_new [simp]:
  "c \<notin> set path \<Longrightarrow> visit_child path (cs, ps, vis) c = Inr (cs, (path @ [c]) # ps, insert c vis)"
  by (simp add: visit_child_def)

lemma visit_children_paths:
  "rfold (visit_child path) (cs, ps, vis) children = Inr (cs', ps', vis') \<Longrightarrow>
     ps' = rev (map (\<lambda>c. path @ [c]) (filter (\<lambda>c. c \<notin> set path) children)) @ ps \<and>
     vis' = vis \<union> (set children - set path)"
proof (induction children arbitrary: cs ps vis)
  case (Cons c children)
  show ?case
  proof (cases "c \<in> set path")
    case True
    with Cons.prems obtain cs1 where
      "rfold (visit_child path) (cs1, ps, vis) children = Inr (cs', ps', vis')"
      by (auto simp: rbind_iffs dest!: visit_child_on_path)
    from Cons.IH [OF this] True show ?thesis by auto
  next
    case False
    with Cons.prems Cons.IH [of cs "(path @ [c]) # ps" "insert c vis"] show ?thesis by auto
  qed
qed simp

lemma shorter_left:
  assumes "c \<in> graph_nodes g" "c \<notin> set path"
  shows "card (graph_nodes g - set (path @ [c])) < card (graph_nodes g - set path)"
  by (rule psubset_card_mono) (use assms in \<open>auto simp: graph_nodes_def\<close>)

lemma children_nodes: "map_of g x = Some children \<Longrightarrow> c \<in> set children \<Longrightarrow> c \<in> graph_nodes g"
  by (force simp: graph_nodes_def dest: map_of_SomeD)

abbreviation left_over :: "('a, 'a list) dict \<times> 'a search \<Rightarrow> nat multiset" where
  "left_over \<equiv> \<lambda>(g, cs, ps, vis). mset (map (\<lambda>p. card (graph_nodes g - set p)) ps)"

lemma replace_top_smaller:
  "\<forall>q \<in> set qs. f q < (f p :: nat) \<Longrightarrow>
    (mset (map f (qs @ ps)), mset (map f (p # ps))) \<in> mult less_than"
  by (auto simp: add.commute intro!: one_step_implies_mult
      [of "{#f p#}" "mset (map f qs)" less_than "mset (map f ps)", simplified])

text \<open>The loop \<open>while paths\<close>; a pushed path leaves fewer nodes outside it than the popped one.\<close>

function search_paths :: "('a, 'a list) dict \<Rightarrow> 'a search \<Rightarrow> py_error + 'a list list \<times> 'a set" where
  "search_paths parent_children (cycles, [], visited_nodes) = Inr (cycles, visited_nodes)"
| "search_paths parent_children (cycles, path # paths, visited_nodes) =
     (case map_of parent_children (last path) of
        None \<Rightarrow> search_paths parent_children (cycles, paths, visited_nodes)
      | Some children \<Rightarrow>
          rbind (rfold (visit_child path) (cycles, paths, visited_nodes) children)
            (search_paths parent_children))"
  by pat_completeness auto

termination
proof (relation "inv_image (mult less_than) left_over")
  fix g :: "('a, 'a list) dict" and cs path paths vis
  show "((g, cs, paths, vis), (g, cs, path # paths, vis)) \<in> inv_image (mult less_than) left_over"
    using replace_top_smaller [of "[]" "\<lambda>p. card (graph_nodes g - set p)" path paths] by simp
next
  fix g :: "('a, 'a list) dict" and cs path paths vis children st
  assume some: "map_of g (last path) = Some children"
    and run: "rfold (visit_child path) (cs, paths, vis) children = Inr st"
  obtain cs' ps' vis' where st: "st = (cs', ps', vis')" by (cases st)
  let ?new = "rev (map (\<lambda>c. path @ [c]) (filter (\<lambda>c. c \<notin> set path) children))"
  have "ps' = ?new @ paths" using visit_children_paths run unfolding st by fast
  moreover have "\<forall>q \<in> set ?new. card (graph_nodes g - set q) < card (graph_nodes g - set path)"
    using shorter_left children_nodes [OF some] by fastforce
  ultimately show "((g, st), (g, cs, path # paths, vis)) \<in> inv_image (mult less_than) left_over"
    using replace_top_smaller [of ?new "\<lambda>p. card (graph_nodes g - set p)" path paths]
    unfolding st by simp
qed (simp add: wf_mult)

definition start_at :: "('a, 'a list) dict \<Rightarrow> 'a list list \<times> 'a set \<Rightarrow> 'a \<Rightarrow>
    py_error + 'a list list \<times> 'a set" where
  "start_at parent_children st parent = (case st of (cycles, visited_nodes) \<Rightarrow>
     if parent \<in> visited_nodes then Inr (cycles, visited_nodes)
     else search_paths parent_children (cycles, [[parent]], visited_nodes))"

definition find_cycles :: "('a, 'a list) dict \<Rightarrow> py_error + 'a list list" where
  "find_cycles parent_children =
     rbind (rfold (start_at parent_children) ([], {}) (dkeys parent_children))
       (\<lambda>(cycles, visited_nodes). Inr cycles)"

section \<open>Paths and cycles of the graph\<close>

definition edge :: "('a, 'a list) dict \<Rightarrow> 'a \<Rightarrow> 'a \<Rightarrow> bool" where
  "edge g u v \<longleftrightarrow> (case map_of g u of None \<Rightarrow> False | Some cs \<Rightarrow> v \<in> set cs)"

definition simple_path :: "('a, 'a list) dict \<Rightarrow> 'a list \<Rightarrow> bool" where
  "simple_path g p \<longleftrightarrow> p \<noteq> [] \<and> distinct p \<and> successively (edge g) p"

text \<open>The last item of a cycle is a parent of its first.\<close>

definition is_cycle :: "('a, 'a list) dict \<Rightarrow> 'a list \<Rightarrow> bool" where
  "is_cycle g c \<longleftrightarrow> simple_path g c \<and> edge g (last c) (hd c)"

definition same_cycle :: "'a list \<Rightarrow> 'a list \<Rightarrow> bool" where
  "same_cycle c d \<longleftrightarrow> (\<exists>n. d = rotate n c)"

lemma same_cycle_refl [simp]: "same_cycle c c"
  unfolding same_cycle_def by (rule exI [of _ 0]) simp

lemma same_cycle_sym: "same_cycle c d \<Longrightarrow> same_cycle d c"
proof -
  assume "same_cycle c d"
  then obtain n where d: "d = rotate n c" by (auto simp: same_cycle_def)
  have "rotate (length c - n mod length c) (rotate (n mod length c) c) = c"
    by (cases "c = []") (simp_all add: rotate_rotate)
  then have "c = rotate (length c - n mod length c) d" using d rotate_conv_mod by metis
  then show ?thesis unfolding same_cycle_def by blast
qed

lemma same_cycle_trans: "same_cycle c d \<Longrightarrow> same_cycle d e \<Longrightarrow> same_cycle c e"
  by (auto simp: same_cycle_def rotate_rotate)

lemma same_cycle_append: "same_cycle (a @ b) (b @ a)"
  unfolding same_cycle_def by (rule exI [of _ "length a"]) (simp add: rotate_append)

lemma is_cycle_turn:
  assumes "is_cycle g (a @ b)" shows "is_cycle g (b @ a)"
  using assms by (cases "a = []"; cases "b = []")
    (auto simp: is_cycle_def simple_path_def successively_append_iff)

text \<open>Every member of a cycle can be made its first item.\<close>

lemma is_cycle_from:
  assumes "is_cycle g c" "v \<in> set c"
  obtains d where "is_cycle g d" "same_cycle c d" "hd d = v" "set d = set c"
proof -
  obtain a b where c: "c = a @ v # b" using assms(2) by (auto simp: in_set_conv_decomp)
  have "is_cycle g ((v # b) @ a)" using is_cycle_turn assms(1) unfolding c by blast
  moreover have "same_cycle c ((v # b) @ a)" unfolding c by (rule same_cycle_append)
  ultimately show thesis using that [of "(v # b) @ a"] c by auto
qed

section \<open>What one popped path contributes\<close>

definition cycle_at :: "'a list \<Rightarrow> 'a \<Rightarrow> 'a list" where
  "cycle_at path v = dropWhile (\<lambda>x. x \<noteq> v) path"

lemma slice_cycle_at: "slice_from path (int (path_index path v)) = cycle_at path v"
  by (simp add: path_index_def cycle_at_def dropWhile_eq_drop)

lemma cycle_at_append: "v \<notin> set a \<Longrightarrow> cycle_at (a @ v # b) v = v # b"
  by (induction a) (auto simp: cycle_at_def)

lemma cycle_at_is_cycle:
  assumes "simple_path g path" "v \<in> set path" "edge g (last path) v"
  shows "is_cycle g (cycle_at path v)"
proof -
  obtain a b where p: "path = a @ v # b" and "v \<notin> set a"
    using split_list_first [OF assms(2)] by blast
  then show ?thesis using assms(1,3)
    by (auto simp: cycle_at_append is_cycle_def simple_path_def successively_append_iff)
qed

lemma known_cycle_eq:
  "cycle \<noteq> [] \<Longrightarrow> known_cycle cycles cycle = Inr (\<exists>c \<in> set cycles. same_cycle c cycle)"
  by (induction cycles) (simp_all add: is_rotated_iff same_cycle_def)

lemma visit_child_closing:
  "v \<in> set path \<Longrightarrow> visit_child path (cycles, paths, vis) v =
     Inr (if \<exists>c \<in> set cycles. same_cycle c (cycle_at path v) then cycles
          else cycles @ [cycle_at path v], paths, vis)"
proof -
  assume v: "v \<in> set path"
  then have "cycle_at path v \<noteq> []" by (auto simp: cycle_at_def dropWhile_eq_Nil_conv)
  then show ?thesis unfolding visit_child_def prod.case slice_cycle_at Let_def
    using v by (simp add: known_cycle_eq)
qed

definition good_cycles :: "('a, 'a list) dict \<Rightarrow> 'a list list \<Rightarrow> bool" where
  "good_cycles g cs \<longleftrightarrow> (\<forall>c \<in> set cs. is_cycle g c) \<and> sorted_wrt (\<lambda>c d. \<not> same_cycle c d) cs"

definition search_ok :: "('a, 'a list) dict \<Rightarrow> 'a list \<Rightarrow> 'a search \<Rightarrow> bool" where
  "search_ok g path st \<longleftrightarrow> simple_path g path \<and> good_cycles g (fst st) \<and>
     (\<forall>p \<in> set (fst (snd st)). simple_path g p)"

lemma simple_path_extend:
  "simple_path g p \<Longrightarrow> c \<notin> set p \<Longrightarrow> edge g (last p) c \<Longrightarrow> simple_path g (p @ [c])"
  by (auto simp: simple_path_def successively_append_iff)

lemma visit_child_keeps:
  assumes "search_ok g path st" "edge g (last path) c"
  shows "\<exists>st'. visit_child path st c = Inr st' \<and> search_ok g path st'"
proof -
  obtain cs ps vis where st: "st = (cs, ps, vis)" by (cases st)
  show ?thesis
  proof (cases "c \<in> set path")
    case True
    with assms cycle_at_is_cycle [of g path c] show ?thesis
      by (auto simp: st visit_child_closing search_ok_def good_cycles_def sorted_wrt_append)
  next
    case False
    with assms simple_path_extend [of g path c] show ?thesis by (auto simp: st search_ok_def)
  qed
qed

interpretation visit: total_loop "visit_child path" "search_ok g path" "edge g (last path)"
  for path g
  by unfold_locales (use visit_child_keeps in force)+

lemma edge_children: "map_of g x = Some children \<Longrightarrow> \<forall>c \<in> set children. edge g x c"
  by (simp add: edge_def)

lemma search_total:
  "good_cycles g cs \<Longrightarrow> \<forall>p \<in> set ps. simple_path g p \<Longrightarrow>
     \<exists>cs' vis'. search_paths g (cs, ps, vis) = Inr (cs', vis') \<and> good_cycles g cs'"
proof (induction g "(cs, ps, vis)" arbitrary: cs ps vis rule: search_paths.induct)
  case (2 g cs path paths vis)
  show ?case
  proof (cases "map_of g (last path)")
    case None
    with 2 show ?thesis by simp
  next
    case (Some children)
    have "search_ok g path (cs, paths, vis)" using "2.prems" by (simp add: search_ok_def)
    from visit.run_total [OF this edge_children [OF Some]] obtain cs1 ps1 vis1 where
      r: "rfold (visit_child path) (cs, paths, vis) children = Inr (cs1, ps1, vis1)"
      and ok: "search_ok g path (cs1, ps1, vis1)" by (metis prod_cases3)
    from "2.hyps"(2) [OF Some r] ok show ?thesis using Some r by (simp add: search_ok_def)
  qed
qed simp

interpretation starts: total_loop "start_at g" "\<lambda>st. good_cycles g (fst st)" "\<lambda>_. True" for g
proof
  fix st parent
  have *: "\<exists>st'. start_at g st parent = Inr st' \<and> good_cycles g (fst st')" if "good_cycles g (fst st)"
    using that search_total [of g "fst st" "[[parent]]" "snd st"]
    by (cases st) (auto simp: start_at_def simple_path_def)
  then show "\<exists>st'. start_at g st parent = Inr st'" if "good_cycles g (fst st)" using that by blast
  show "good_cycles g (fst st')" if "good_cycles g (fst st)" "start_at g st parent = Inr st'" for st'
    using * that by force
qed

text \<open>
  Claim C11. \<open>find_cycles\<close> always ends without an error, everything it yields is a cycle of
  the graph (distinct items, each a child of the one before, the first a child of the last),
  and no two of the yielded lists are rotations of each other.
\<close>

theorem find_cycles_sound:
  "\<exists>cycles. find_cycles g = Inr cycles \<and> (\<forall>c \<in> set cycles. is_cycle g c) \<and>
     sorted_wrt (\<lambda>c d. \<not> (\<exists>n. d = rotate n c)) cycles"
proof -
  have "good_cycles g (fst ([], {}))" by (simp add: good_cycles_def)
  from starts.run_total [OF this, of "dkeys g"] show ?thesis
    by (auto simp: find_cycles_def good_cycles_def same_cycle_def)
qed

theorem find_cycles_sound_witness:
  "find_cycles [(1 :: nat, [2, 3]), (2, [1]), (3, [3])] = Inr [[3], [1, 2]] \<and>
     is_cycle [(1 :: nat, [2, 3]), (2, [1]), (3, [3])] [1, 2]"
proof -
  have h: "find_cycles [(1 :: nat, [2, 3]), (2, [1]), (3, [3])] = Inr [[3], [1, 2]]" by code_simp
  from h find_cycles_sound [of "[(1 :: nat, [2, 3]), (2, [1]), (3, [3])]"] show ?thesis by force
qed

section \<open>Completeness\<close>

text \<open>What is known of every simple continuation of a path once the path has been popped.\<close>

definition closed_at :: "('a, 'a list) dict \<Rightarrow> 'a list list \<Rightarrow> 'a list \<Rightarrow> bool" where
  "closed_at g cs q \<longleftrightarrow> (\<forall>v \<in> set q. edge g (last q) v \<longrightarrow> (\<exists>c \<in> set cs. same_cycle c (cycle_at q v)))"

definition covers :: "('a, 'a list) dict \<Rightarrow> 'a list list \<times> 'a set \<Rightarrow> 'a list \<Rightarrow> bool" where
  "covers g st p \<longleftrightarrow>
     (\<forall>r. simple_path g (p @ r) \<longrightarrow> set r \<subseteq> snd st \<and> closed_at g (fst st) (p @ r))"

lemma covers_mono:
  "covers g (cs, vis) p \<Longrightarrow> set cs \<subseteq> set cs' \<Longrightarrow> vis \<subseteq> vis' \<Longrightarrow> covers g (cs', vis') p"
  unfolding covers_def closed_at_def by fastforce

lemma visit_child_records:
  assumes "v \<in> set path"
  shows "\<exists>cs'. visit_child path (cs, ps, vis) v = Inr (cs', ps, vis) \<and> set cs \<subseteq> set cs' \<and>
    (\<exists>d \<in> set cs'. same_cycle d (cycle_at path v))"
proof (cases "\<exists>d \<in> set cs. same_cycle d (cycle_at path v)")
  case True
  then show ?thesis by (intro exI [of _ cs]) (simp only: visit_child_closing [OF assms] if_True, blast)
next
  case False
  then show ?thesis unfolding visit_child_closing [OF assms] if_not_P [OF False]
    by (intro exI [of _ "cs @ [cycle_at path v]"]) (simp, blast)
qed

lemma visit_children_cycles:
  "rfold (visit_child path) (cs, ps, vis) children = Inr (cs', ps', vis') \<Longrightarrow>
     set cs \<subseteq> set cs' \<and>
     (\<forall>v \<in> set children \<inter> set path. \<exists>c \<in> set cs'. same_cycle c (cycle_at path v))"
proof (induction children arbitrary: cs ps vis)
  case (Cons c children)
  show ?case
  proof (cases "c \<in> set path")
    case True
    obtain cs1 where 1: "visit_child path (cs, ps, vis) c = Inr (cs1, ps, vis)" "set cs \<subseteq> set cs1"
      "\<exists>d \<in> set cs1. same_cycle d (cycle_at path c)"
      using visit_child_records [OF True] by blast
    with Cons.prems have "rfold (visit_child path) (cs1, ps, vis) children = Inr (cs', ps', vis')"
      by simp
    from Cons.IH [OF this] 1 show ?thesis by auto
  next
    case False
    with Cons.prems Cons.IH [of cs "(path @ [c]) # ps" "insert c vis"] show ?thesis by auto
  qed
qed simp

lemma search_covers:
  "search_paths g (cs, ps, vis) = Inr (cs', vis') \<Longrightarrow> \<forall>p \<in> set ps. p \<noteq> [] \<Longrightarrow>
     set cs \<subseteq> set cs' \<and> vis \<subseteq> vis' \<and> (\<forall>p \<in> set ps. covers g (cs', vis') p)"
proof (induction g "(cs, ps, vis)" arbitrary: cs ps vis rule: search_paths.induct)
  case (2 g cs path paths vis)
  show ?case
  proof (cases "map_of g (last path)")
    case None
    then have dead: "\<not> edge g (last path) v" for v by (simp add: edge_def)
    have "covers g (cs', vis') path"
      unfolding covers_def closed_at_def using dead "2.prems"(2)
      by (auto simp: simple_path_def successively_append_iff)
    with 2 None show ?thesis by simp
  next
    case (Some children)
    with "2.prems" obtain cs1 ps1 vis1 where
      r: "rfold (visit_child path) (cs, paths, vis) children = Inr (cs1, ps1, vis1)"
      and rest: "search_paths g (cs1, ps1, vis1) = Inr (cs', vis')"
      by (auto simp: rbind_iffs)
    note ps1 = visit_children_paths [OF r]
    note cyc = visit_children_cycles [OF r]
    from ps1 "2.prems" have ne: "\<forall>p \<in> set ps1. p \<noteq> []" by auto
    note ih = "2.hyps"(2) [OF Some r rest ne]
    have "covers g (cs', vis') path"
      unfolding covers_def
    proof (intro allI impI)
      fix r assume sp: "simple_path g (path @ r)"
      show "set r \<subseteq> snd (cs', vis') \<and> closed_at g (fst (cs', vis')) (path @ r)"
      proof (cases r)
        case Nil
        then show ?thesis using cyc ih Some unfolding closed_at_def edge_def by fastforce
      next
        case (Cons c r')
        then have c: "c \<in> set children" "c \<notin> set path"
          using sp Some "2.prems"(2) by (auto simp: simple_path_def successively_append_iff edge_def)
        then have "path @ [c] \<in> set ps1" "c \<in> vis1" using ps1 by auto
        then have "covers g (cs', vis') (path @ [c])" "c \<in> vis'" using ih by auto
        with sp Cons show ?thesis unfolding covers_def by (auto dest!: spec [of _ r'])
      qed
    qed
    then show ?thesis using ih cyc ps1 by auto
  qed
qed simp

lemma search_stays:
  assumes "\<And>u v. u \<in> X \<Longrightarrow> edge g u v \<Longrightarrow> v \<in> X"
  shows "search_paths g (cs, ps, vis) = Inr (cs', vis') \<Longrightarrow> vis \<subseteq> X \<Longrightarrow> last ` set ps \<subseteq> X \<Longrightarrow> vis' \<subseteq> X"
  using assms
proof (induction g "(cs, ps, vis)" arbitrary: cs ps vis rule: search_paths.induct)
  case (2 g cs path paths vis)
  show ?case
  proof (cases "map_of g (last path)")
    case (Some children)
    with "2.prems"(1) obtain cs1 ps1 vis1 where
      r: "rfold (visit_child path) (cs, paths, vis) children = Inr (cs1, ps1, vis1)"
      and rest: "search_paths g (cs1, ps1, vis1) = Inr (cs', vis')"
      by (auto simp: rbind_iffs)
    have kids: "set children \<subseteq> X"
      using Some "2.prems"(3) "2.prems"(4) [of "last path"] by (auto simp: edge_def)
    have "vis1 \<subseteq> X" "last ` set ps1 \<subseteq> X"
      using visit_children_paths [OF r] kids "2.prems"(2,3) by auto
    from "2.hyps"(2) [OF Some r rest this "2.prems"(4)] show ?thesis .
  qed (use 2 in auto)
qed simp

definition reach :: "('a, 'a list) dict \<Rightarrow> 'a \<Rightarrow> 'a \<Rightarrow> bool" where
  "reach g = (edge g)\<^sup>*\<^sup>*"

text \<open>From a node that reaches the cycle there is a simple path that meets it only at its end.\<close>

lemma first_hit:
  assumes "reach g s v" "v \<in> C"
  shows "\<exists>p. simple_path g p \<and> hd p = s \<and> last p \<in> C \<and> set (butlast p) \<inter> C = {}"
  using assms unfolding reach_def
proof (induction rule: converse_rtranclp_induct)
  case base
  then show ?case by (intro exI [of _ "[v]"]) (simp add: simple_path_def)
next
  case (step s t)
  then obtain p where p: "simple_path g p" "hd p = t" "last p \<in> C" "set (butlast p) \<inter> C = {}" by auto
  consider "s \<in> C" | "s \<notin> C" "s \<in> set p" | "s \<notin> C" "s \<notin> set p" by blast
  then show ?case
  proof cases
    case 1
    then show ?thesis by (intro exI [of _ "[s]"]) (simp add: simple_path_def)
  next
    case 2
    then obtain a b where e: "p = a @ s # b" by (meson split_list)
    with p have "simple_path g (s # b)" "last (s # b) \<in> C" "set (butlast (s # b)) \<inter> C = {}"
      by (auto simp: simple_path_def successively_append_iff butlast_append split: if_splits)
    then show ?thesis by (intro exI [of _ "s # b"]) simp
  next
    case 3
    with p step.hyps(1) have "simple_path g (s # p)" "p \<noteq> []"
      by (auto simp: simple_path_def successively_Cons)
    with p 3 show ?thesis by (intro exI [of _ "s # p"]) auto
  qed
qed

text \<open>A cycle that a started node reaches has been closed.\<close>

lemma reached_cycle_found:
  assumes "covers g (cs, vis) [s]" "reach g s v" "v \<in> set c" "is_cycle g c"
  shows "\<exists>d \<in> set cs. same_cycle d c"
proof -
  obtain p where p: "simple_path g p" "hd p = s" "last p \<in> set c" "set (butlast p) \<inter> set c = {}"
    using first_hit [OF assms(2,3)] by blast
  obtain d where d: "is_cycle g d" "same_cycle c d" "hd d = last p" "set d = set c"
    using is_cycle_from [OF assms(4) p(3)] .
  obtain x d' where dx: "d = x # d'" using d(1) by (cases d) (auto simp: is_cycle_def simple_path_def)
  obtain a where pa: "p = a @ [x]" using p(1) d(3) dx
    by (metis append_butlast_last_id list.sel(1) simple_path_def)
  have q: "simple_path g (a @ d)"
    using p(1,4) d dx pa by (auto simp: is_cycle_def simple_path_def successively_append_iff)
  have "hd (a @ d) = s" using p(2) pa dx by (cases a) auto
  then obtain r where r: "a @ d = [s] @ r" using dx by (cases "a @ d") auto
  have "closed_at g cs (a @ d)" using assms(1) q unfolding covers_def r by simp
  moreover have "x \<in> set (a @ d)" "edge g (last (a @ d)) x" using d(1) dx by (auto simp: is_cycle_def)
  ultimately obtain e where e: "e \<in> set cs" "same_cycle e (cycle_at (a @ d) x)"
    unfolding closed_at_def by blast
  have "x \<notin> set a" using p(1) pa by (simp add: simple_path_def)
  then have "cycle_at (a @ d) x = d" using cycle_at_append dx by metis
  with e d(2) show ?thesis using same_cycle_trans same_cycle_sym by metis
qed

text \<open>Every key the outer loop has been through is reached from a started one.\<close>

definition started :: "('a, 'a list) dict \<Rightarrow> 'a set \<Rightarrow> 'a list list \<times> 'a set \<Rightarrow> bool" where
  "started g D st \<longleftrightarrow> (\<exists>S. (\<forall>s \<in> S. covers g st [s]) \<and> (\<forall>u \<in> snd st \<union> D. \<exists>s \<in> S. reach g s u))"

lemma start_step:
  assumes "started g D st" "start_at g st k = Inr st'"
  shows "started g (insert k D) st'"
proof -
  obtain cs vis where st: "st = (cs, vis)" by (cases st)
  obtain S where S: "\<forall>s \<in> S. covers g (cs, vis) [s]" "\<forall>u \<in> vis \<union> D. \<exists>s \<in> S. reach g s u"
    using assms(1) by (auto simp: started_def st)
  show ?thesis
  proof (cases "k \<in> vis")
    case True
    with assms S show ?thesis by (auto simp: started_def start_at_def st)
  next
    case False
    obtain cs' vis' where st': "st' = (cs', vis')" by (cases st')
    with False assms(2) have run: "search_paths g (cs, [[k]], vis) = Inr (cs', vis')"
      by (simp add: start_at_def st)
    have cov: "set cs \<subseteq> set cs'" "vis \<subseteq> vis'" "covers g (cs', vis') [k]"
      using search_covers [OF run] by auto
    let ?X = "{u. \<exists>s \<in> insert k S. reach g s u}"
    have "v \<in> ?X" if "u \<in> ?X" "edge g u v" for u v
      using that unfolding reach_def by (blast intro: rtranclp.rtrancl_into_rtrancl)
    moreover have "vis \<subseteq> ?X" "last ` set [[k]] \<subseteq> ?X" using S(2) by (auto simp: reach_def)
    ultimately have "vis' \<subseteq> ?X" using search_stays [OF _ run, of ?X] by blast
    moreover have "covers g (cs', vis') [s]" if "s \<in> insert k S" for s
      using S(1) cov(3) covers_mono [OF _ cov(1,2)] that by blast
    moreover have "\<forall>u \<in> insert k D. u \<in> ?X" using S(2) by (auto simp: reach_def)
    ultimately show ?thesis unfolding started_def st' by (intro exI [of _ "insert k S"]) auto
  qed
qed

lemma start_run:
  "started g D st \<Longrightarrow> rfold (start_at g) st ks = Inr st' \<Longrightarrow> started g (D \<union> set ks) st'"
proof (induction ks arbitrary: D st)
  case (Cons k ks)
  then obtain st1 where 1: "start_at g st k = Inr st1" "rfold (start_at g) st1 ks = Inr st'"
    by (auto simp: rbind_iffs)
  from Cons.IH [OF start_step [OF Cons.prems(1) 1(1)] 1(2)] show ?case by simp
qed simp

text \<open>
  Claim C10. \<open>find_cycles\<close> misses no cycle: every cycle of the graph is, up to rotation, one of
  the lists it yields, and exactly one.
\<close>

theorem find_cycles_complete:
  assumes "find_cycles g = Inr cycles" "is_cycle g c"
  shows "\<exists>!d. d \<in> set cycles \<and> (\<exists>n. c = rotate n d)"
proof -
  obtain vis where run: "rfold (start_at g) ([], {}) (dkeys g) = Inr (cycles, vis)"
    using assms(1) by (auto simp: find_cycles_def rbind_iffs)
  have "started g {} ([], {})" unfolding started_def by (intro exI [of _ "{}"]) simp
  from start_run [OF this run] obtain S where
    S: "\<forall>s \<in> S. covers g (cycles, vis) [s]" "\<forall>u \<in> set (dkeys g). \<exists>s \<in> S. reach g s u"
    by (auto simp: started_def)
  have "last c \<in> set c" "last c \<in> set (dkeys g)"
    using assms(2) has_key_iff [of g "last c"]
    by (auto simp: is_cycle_def simple_path_def edge_def split: option.splits)
  with S obtain s where "covers g (cycles, vis) [s]" "reach g s (last c)" by blast
  from reached_cycle_found [OF this \<open>last c \<in> set c\<close> assms(2)]
  obtain d where d: "d \<in> set cycles" "same_cycle d c" by blast
  have "good_cycles g (fst ([], {}))" by (simp add: good_cycles_def)
  from starts.run_keeps [OF this _ run] have "good_cycles g cycles" by simp
  then have apart: "e = d" if "e \<in> set cycles" "same_cycle e c" for e
  proof -
    have "same_cycle d e" "same_cycle e d" using that d same_cycle_sym same_cycle_trans by metis+
    then show ?thesis using \<open>good_cycles g cycles\<close> d(1) that(1)
      unfolding good_cycles_def sorted_wrt_iff_nth_less in_set_conv_nth by (metis nat_neq_iff)
  qed
  show ?thesis using d apart unfolding same_cycle_def by blast
qed

theorem find_cycles_complete_witness:
  "find_cycles [(1 :: nat, [2]), (2, [3, 1]), (3, [2])] = Inr [[1, 2], [2, 3]] \<and>
     (\<exists>!d. d \<in> set [[1, 2], [2, 3]] \<and> (\<exists>n. [3, 2 :: nat] = rotate n d))"
proof -
  let ?g = "[(1 :: nat, [2]), (2, [3, 1]), (3, [2])]"
  have h: "find_cycles ?g = Inr [[1, 2], [2, 3]]" by code_simp
  have "is_cycle ?g [3, 2]" by (simp add: is_cycle_def simple_path_def edge_def)
  from h find_cycles_complete [OF h this] show ?thesis by blast
qed

end
