(* ===== verification/Rad_Num.thy ===== *)
theory Rad_Num
  imports Complex_Main Py_Prelude
begin

unbundle bit_operations_syntax

text \<open>
  \<^verbatim>\<open>bindings/python/rad_util.py\<close>, the numeric functions: \<open>int2bin\<close>, \<open>bin2int\<close>, \<open>gcf\<close>,
  \<open>lcm\<close>, \<open>reduce_fraction\<close>, \<open>lsb\<close>, \<open>gray_encode\<close>, \<open>binary_range\<close>, \<open>quantile\<close>, \<open>trim\<close>,
  \<open>float_range\<close>, \<open>round_grid\<close> and \<open>polygon_area\<close>. Integers are Python's, unbounded, and \<open>/\<close>
  of integers is Python 2's floor division; a float is the rational number it stands for and
  the rounding of float arithmetic is not modelled.
\<close>

section \<open>int2bin and bin2int\<close>

text \<open>The hexadecimal digits of a number, most significant first; \<open>hex(0)\<close> has one.\<close>

fun hex_digits :: "nat \<Rightarrow> nat list" where
  "hex_digits n = (if n < 16 then [n] else hex_digits (n div 16) @ [n mod 16])"

declare hex_digits.simps [simp del]

definition bit_char :: "bool \<Rightarrow> char" where
  "bit_char b = (if b then CHR ''1'' else CHR ''0'')"

text \<open>The table \<open>hex2bin\<close>.\<close>

definition hex2bin :: "nat \<Rightarrow> string" where
  "hex2bin d = [bit_char (odd (d div 8)), bit_char (odd (d div 4)), bit_char (odd (d div 2)), bit_char (odd d)]"

text \<open>
  A negative number starts with \<^verbatim>\<open>-0x\<close>, so that the \<^verbatim>\<open>x\<close> is looked up and raises
  \<open>KeyError\<close>.
\<close>

definition int2bin :: "int \<Rightarrow> int \<Rightarrow> py_error + string" where
  "int2bin i n =
     (if i < 0 then Inl KeyError
      else
        let result = concat (map hex2bin (hex_digits (nat i))) in
        if CHR ''1'' \<in> set (slice_to result (- n)) then Inl ValueError
        else let result' = slice_from result (- n) in
          Inr (replicate (nat (n - int (length result'))) CHR ''0'' @ result'))"

definition bin_value :: "string \<Rightarrow> nat" where
  "bin_value s = foldl (\<lambda>v c. 2 * v + (if c = CHR ''1'' then 1 else 0)) 0 s"

text \<open>\<open>int(bin_string, 2)\<close>: blanks around, a sign and a \<^verbatim>\<open>0b\<close> are allowed.\<close>

definition bin2int :: "string \<Rightarrow> py_error + int" where
  "bin2int bin_string =
     (let s = strip bin_string;
          neg = startswith s ''-'';
          s1 = (if neg \<or> startswith s ''+'' then tl s else s);
          s2 = (if startswith s1 ''0b'' \<or> startswith s1 ''0B'' then drop 2 s1 else s1)
      in if s2 \<noteq> [] \<and> set s2 \<subseteq> {CHR ''0'', CHR ''1''}
         then Inr ((if neg then - 1 else 1) * int (bin_value s2)) else Inl ValueError)"

text \<open>The \<open>n\<close> binary digits of a number.\<close>

fun bits_of :: "nat \<Rightarrow> nat \<Rightarrow> string" where
  "bits_of 0 x = []"
| "bits_of (Suc n) x = bits_of n (x div 2) @ [bit_char (odd x)]"

lemma bits_of_length [simp]: "length (bits_of n x) = n"
  by (induction n arbitrary: x) auto

lemma bits_of_set: "set (bits_of n x) \<subseteq> {CHR ''0'', CHR ''1''}"
  by (induction n arbitrary: x) (auto simp: bit_char_def)

lemma bin_value_snoc: "bin_value (s @ [bit_char b]) = 2 * bin_value s + of_bool b"
  by (simp add: bin_value_def bit_char_def)

lemma bin_value_bits_of: "bin_value (bits_of n x) = x mod 2 ^ n"
proof (induction n arbitrary: x)
  case (Suc n)
  have "x mod 2 ^ Suc n = 2 * (x div 2 mod 2 ^ n) + x mod 2"
    by (metis mod_mult2_eq power_Suc add.commute)
  then show ?case using Suc [of "x div 2"] by (simp add: bin_value_snoc mod2_eq_if)
qed (simp add: bin_value_def)

lemma bits_of_append: "bits_of (m + n) x = bits_of m (x div 2 ^ n) @ bits_of n x"
proof (induction n arbitrary: x)
  case (Suc n)
  have "x div 2 div 2 ^ n = x div 2 ^ Suc n" by (simp add: div_mult2_eq)
  with Suc [of "x div 2"] show ?case by simp
qed simp

lemma bits_of_mod: "n \<le> m \<Longrightarrow> bits_of n (x mod 2 ^ m) = bits_of n x"
proof (induction n arbitrary: x m)
  case (Suc n)
  then obtain k where m: "m = Suc k" "n \<le> k" by (cases m) auto
  have "x mod 2 ^ m div 2 = x div 2 mod 2 ^ k" "odd (x mod 2 ^ m) = odd x"
    using m by (auto simp: mod_mult2_eq)
  with Suc.IH [of k "x div 2"] m show ?case by simp
qed simp

lemma bits_of_zero: "CHR ''1'' \<in> set (bits_of n x) \<longleftrightarrow> x mod 2 ^ n \<noteq> 0"
proof (induction n arbitrary: x)
  case (Suc n)
  have "x mod 2 ^ Suc n = 2 * (x div 2 mod 2 ^ n) + x mod 2"
    by (metis mod_mult2_eq power_Suc add.commute)
  then show ?case using Suc [of "x div 2"] by (auto simp: bit_char_def mod2_eq_if)
qed simp

lemma hex2bin_bits: "hex2bin d = bits_of 4 d"
proof -
  have e: "(4 :: nat) = Suc (Suc (Suc (Suc 0)))" by simp
  have "bits_of 4 d = bits_of (Suc (Suc (Suc (Suc 0)))) d" by (subst e) (rule refl)
  also have "\<dots> = hex2bin d" by (simp add: hex2bin_def div_mult2_eq [symmetric])
  finally show ?thesis by simp
qed

lemma hex_digits_bits: "\<exists>k. 0 < k \<and> n < 2 ^ (4 * k) \<and> concat (map hex2bin (hex_digits n)) = bits_of (4 * k) n"
proof (induction n rule: hex_digits.induct)
  case (1 n)
  show ?case
  proof (cases "n < 16")
    case True
    then show ?thesis by (intro exI [of _ 1]) (simp add: hex_digits.simps [of n] hex2bin_bits)
  next
    case False
    then obtain k where k: "n div 16 < 2 ^ (4 * k)"
      "concat (map hex2bin (hex_digits (n div 16))) = bits_of (4 * k) (n div 16)" using 1 by auto
    have "hex2bin (n mod 16) = bits_of 4 n" using bits_of_mod [of 4 4 n] by (simp add: hex2bin_bits)
    moreover have "bits_of (4 * k + 4) n = bits_of (4 * k) (n div 16) @ bits_of 4 n"
      using bits_of_append [of "4 * k" 4 n] by simp
    moreover have "n < 2 ^ (4 * Suc k)" using k(1) by (simp add: div_less_iff_less_mult power_add)
    ultimately show ?thesis using False k(2)
      by (intro exI [of _ "Suc k"]) (simp add: hex_digits.simps [of n] add.commute)
  qed
qed

lemma bits_of_pad: "x < 2 ^ n \<Longrightarrow> bits_of (m + n) x = replicate m CHR ''0'' @ bits_of n x"
proof -
  assume "x < 2 ^ n"
  moreover have "bits_of m 0 = replicate m CHR ''0''"
    by (induction m) (auto simp: bit_char_def replicate_append_same)
  ultimately show ?thesis by (simp add: bits_of_append)
qed

lemma int2bin_eq:
  assumes "0 \<le> i" "0 < n"
  shows "int2bin i (int n) = (if i < 2 ^ n then Inr (bits_of n (nat i)) else Inl ValueError)"
proof -
  obtain k where k: "nat i < 2 ^ (4 * k)" "concat (map hex2bin (hex_digits (nat i))) = bits_of (4 * k) (nat i)"
    using hex_digits_bits by blast
  let ?L = "4 * k"
  have small: "i < 2 ^ n \<longleftrightarrow> nat i < 2 ^ n" using assms(1) by (simp add: nat_less_iff)
  show ?thesis
  proof (cases "n \<le> ?L")
    case True
    then have b: "bits_of ?L (nat i) = bits_of (?L - n) (nat i div 2 ^ n) @ bits_of n (nat i)"
      using bits_of_append [of "?L - n" n "nat i"] by simp
    have p: "slice_pos ?L (- int n) = ?L - n" using True assms(2) by (simp add: slice_pos_def)
    have "nat i div 2 ^ n < 2 ^ (?L - n)"
      using k(1) True by (simp add: div_less_iff_less_mult power_add [symmetric])
    then have "CHR ''1'' \<in> set (bits_of (?L - n) (nat i div 2 ^ n)) \<longleftrightarrow> \<not> nat i < 2 ^ n"
      using div_eq_0_iff [of "nat i" "2 ^ n"] by (simp only: bits_of_zero mod_less) simp
    then have c: "CHR ''1'' \<in> set (slice_to (bits_of ?L (nat i)) (- int n)) \<longleftrightarrow> \<not> nat i < 2 ^ n"
      unfolding slice_to_def bits_of_length p by (subst b) simp
    have "slice_from (bits_of ?L (nat i)) (- int n) = bits_of n (nat i)"
      unfolding slice_from_def bits_of_length p by (subst b) simp
    then show ?thesis using assms(1) small unfolding int2bin_def Let_def k(2) c by simp
  next
    case False
    have "(2 :: nat) ^ ?L \<le> 2 ^ n" by (rule power_increasing) (use False in simp_all)
    then have lt: "nat i < 2 ^ n" using k(1) by linarith
    have p: "slice_pos ?L (- int n) = 0" using False assms(2) by (simp add: slice_pos_def)
    have "int2bin i (int n) = Inr (replicate (nat (int n - int ?L)) CHR ''0'' @ bits_of ?L (nat i))"
      using assms(1) unfolding int2bin_def Let_def k(2) slice_to_def slice_from_def bits_of_length p by simp
    also have "nat (int n - int ?L) = n - ?L" by simp
    finally show ?thesis using bits_of_pad [OF k(1), of "n - ?L"] False small lt by simp
  qed
qed

lemma bin2int_bits: "0 < n \<Longrightarrow> bin2int (bits_of n x) = Inr (int (x mod 2 ^ n))"
proof -
  assume n: "0 < n"
  have sp: "\<not> is_space CHR ''0''" "\<not> is_space CHR ''1''" by (simp_all add: is_space_def)
  have ns: "\<forall>c \<in> set s. \<not> is_space c" if "set s \<subseteq> {CHR ''0'', CHR ''1''}" for s using that sp by auto
  have st: "strip s = s" if "set s \<subseteq> {CHR ''0'', CHR ''1''}" for s
  proof -
    have *: "dropWhile is_space t = t" if "\<forall>c \<in> set t. \<not> is_space c" for t
      using that by (cases t) auto
    have "dropWhile is_space s = s" "dropWhile is_space (rev s) = rev s"
      using ns [OF that] by (simp_all add: *)
    then show ?thesis by (simp add: strip_def lstrip_def rstrip_def)
  qed
  obtain c s where cs: "bits_of n x = c # s" using n by (cases "bits_of n x") (auto dest: arg_cong [of _ _ length])
  have "\<not> startswith (bits_of n x) ''-''" "\<not> startswith (bits_of n x) ''+''"
    "\<not> startswith (bits_of n x) ''0b''" "\<not> startswith (bits_of n x) ''0B''"
    using bits_of_set [of n x] by (auto simp: cs startswith_def Cons_eq_append_conv take_Cons' split: if_splits)
      (cases s; auto)+
  then show ?thesis using bits_of_set [of n x] bin_value_bits_of [of n x] cs
    by (simp add: bin2int_def st Let_def)
qed

text \<open>
  For a non-negative number and a positive width, \<open>int2bin\<close> returns exactly \<open>n\<close> binary
  digits from which \<open>bin2int\<close> reads the number back when it fits, and raises \<open>ValueError\<close>
  when it does not.
\<close>

theorem int2bin_roundtrip:
  assumes "0 \<le> i" "0 < n"
  shows "if i < 2 ^ n
    then \<exists>s. int2bin i (int n) = Inr s \<and> length s = n \<and> set s \<subseteq> {CHR ''0'', CHR ''1''} \<and> bin2int s = Inr i
    else int2bin i (int n) = Inl ValueError"
proof (cases "i < 2 ^ n")
  case True
  then have "nat i < 2 ^ n" using assms(1) by (simp add: nat_less_iff)
  then show ?thesis using True assms int2bin_eq [OF assms] bin2int_bits [OF assms(2), of "nat i"]
      bits_of_set [of n "nat i"] by simp
qed (use int2bin_eq [OF assms] in simp)

theorem int2bin_roundtrip_witness:
  "\<exists>s. int2bin 123 8 = Inr s \<and> length s = 8 \<and> bin2int s = Inr 123"
  using int2bin_roundtrip [of 123 8] by auto

section \<open>gcf, lcm, reduce_fraction\<close>

function gcf_loop :: "int \<Rightarrow> int \<Rightarrow> int" where
  "gcf_loop result remainder =
     (if remainder = 0 then \<bar>result\<bar> else gcf_loop remainder (result mod remainder))"
  by pat_completeness auto
termination
  by (relation "measure (\<lambda>(result, remainder). nat \<bar>remainder\<bar>)") (auto intro: abs_mod_less)

declare gcf_loop.simps [simp del]

definition gcf :: "int \<Rightarrow> int \<Rightarrow> int" where
  "gcf a b = gcf_loop (max a b) (min a b)"

definition lcm_of :: "int \<Rightarrow> int \<Rightarrow> int" where
  \<comment> \<open>\<open>lcm\<close>\<close>
  "lcm_of a b = (let denom = gcf a b in if denom = 0 then 0 else a * (b div denom))"

definition reduce_fraction :: "int \<times> int \<Rightarrow> py_error + int \<times> int" where
  "reduce_fraction fraction = (case fraction of (numerator, denominator) \<Rightarrow>
     let common_factor = \<bar>gcf numerator denominator\<bar> in
     if common_factor = 0 then Inl ZeroDivisionError
     else Inr (numerator div common_factor, denominator div common_factor))"

lemma gcf_loop_gcd: "gcf_loop a b = gcd a b"
proof (induction a b rule: gcf_loop.induct)
  case (1 a b)
  show ?case by (subst gcf_loop.simps) (use 1 in \<open>simp add: gcd_red_int [of a b, symmetric]\<close>)
qed

lemma gcf_gcd: "gcf a b = gcd a b"
  by (simp add: gcf_def gcf_loop_gcd max_def min_def gcd.commute)

text \<open>
  \<open>gcf\<close> is the greatest common divisor, \<open>lcm\<close> is up to sign the least common multiple,
  and \<open>reduce_fraction\<close> returns the equal fraction in lowest terms, failing only for \<open>(0, 0)\<close>.
\<close>

theorem gcf_lcm_reduce:
  "gcf a b = gcd a b \<and> \<bar>lcm_of a b\<bar> = lcm a b \<and>
   (if a = 0 \<and> b = 0 then reduce_fraction (a, b) = Inl ZeroDivisionError
    else \<exists>p q. reduce_fraction (a, b) = Inr (p, q) \<and> coprime p q \<and> a * q = p * b \<and>
      a = p * gcd a b \<and> b = q * gcd a b)"
proof (intro conjI)
  show "gcf a b = gcd a b" by (rule gcf_gcd)
  have "a * (b div gcd a b) = a * b div gcd a b" by (simp add: div_mult_swap)
  then have "\<bar>a * (b div gcd a b)\<bar> = lcm a b" by (simp add: lcm_int_def [symmetric] lcm_gcd abs_div abs_mult)
  then show "\<bar>lcm_of a b\<bar> = lcm a b" by (cases "gcd a b = 0") (auto simp: lcm_of_def gcf_gcd Let_def)
next
  show "if a = 0 \<and> b = 0 then reduce_fraction (a, b) = Inl ZeroDivisionError
    else \<exists>p q. reduce_fraction (a, b) = Inr (p, q) \<and> coprime p q \<and> a * q = p * b \<and>
      a = p * gcd a b \<and> b = q * gcd a b"
  proof (cases "a = 0 \<and> b = 0")
    case True
    then show ?thesis by (simp add: reduce_fraction_def gcf_gcd)
  next
    case False
    let ?p = "a div gcd a b" and ?q = "b div gcd a b"
    have "coprime ?p ?q" using False by (intro div_gcd_coprime) auto
    moreover have "a = ?p * gcd a b" "b = ?q * gcd a b" by simp_all
    moreover from this have "a * ?q = ?p * b" by (metis mult.assoc mult.commute)
    moreover have "reduce_fraction (a, b) = Inr (?p, ?q)" using False by (auto simp: reduce_fraction_def gcf_gcd Let_def)
    ultimately show ?thesis unfolding if_not_P [OF False] by blast
  qed
qed

section \<open>lsb and gray_encode\<close>

definition lsb :: "int \<Rightarrow> nat \<Rightarrow> int" where
  "lsb x n = x AND (2 ^ n - 1)"

definition gray_encode :: "int \<Rightarrow> int" where
  "gray_encode i = i XOR drop_bit 1 i"

lemma lsb_mod: "lsb x n = x mod 2 ^ n"
  by (simp add: lsb_def take_bit_eq_mask [symmetric] mask_eq_exp_minus_1 [symmetric] take_bit_eq_mod)

lemma gray_rec: "gray_encode i = of_bool (odd i \<noteq> odd (i div 2)) + 2 * gray_encode (i div 2)"
  unfolding gray_encode_def by (subst xor_int_rec) (simp add: drop_bit_eq_div)

lemma gray_div2: "gray_encode i div 2 = gray_encode (i div 2)"
  by (subst gray_rec) simp

lemma gray_odd: "odd (gray_encode i) \<longleftrightarrow> odd i \<noteq> odd (i div 2)"
  by (subst gray_rec) simp

lemma gray_step: "\<exists>k. gray_encode (int n) XOR gray_encode (int n + 1) = 2 ^ k"
proof (induction n rule: less_induct)
  case (less n)
  have r: "gray_encode (int n) XOR gray_encode (int n + 1) =
      of_bool (odd (gray_encode (int n)) \<noteq> odd (gray_encode (int n + 1))) +
      2 * (gray_encode (int n div 2) XOR gray_encode ((int n + 1) div 2))"
    by (subst xor_int_rec) (simp add: gray_div2)
  show ?case
  proof (cases "even n")
    case True
    then have d: "(int n + 1) div 2 = int n div 2" by simp
    have "odd (gray_encode (int n)) \<noteq> odd (gray_encode (int n + 1))" using True by (simp add: gray_odd d)
    then show ?thesis unfolding r d by (intro exI [of _ 0]) simp
  next
    case False
    then have d: "(int n + 1) div 2 = int (n div 2) + 1" "int n div 2 = int (n div 2)"
      by (auto elim!: oddE)
    have "n div 2 < n" using False by (cases n) auto
    from less [OF this] obtain k where k: "gray_encode (int (n div 2)) XOR gray_encode (int (n div 2) + 1) = 2 ^ k" ..
    have "odd (gray_encode (int n)) = odd (gray_encode (int n + 1))" using False by (simp add: gray_odd d)
    then show ?thesis unfolding r d k by (intro exI [of _ "Suc k"]) simp
  qed
qed

lemma gray_inj: "0 \<le> i \<Longrightarrow> 0 \<le> j \<Longrightarrow> gray_encode i = gray_encode j \<Longrightarrow> i = j"
proof (induction "nat i" arbitrary: i j rule: less_induct)
  case less
  have h: "gray_encode (i div 2) = gray_encode (j div 2)" using less.prems(3) gray_div2 by metis
  have p: "odd i \<noteq> odd (i div 2) \<longleftrightarrow> odd j \<noteq> odd (j div 2)" using less.prems(3) gray_odd by metis
  show ?case
  proof (cases "i = 0")
    case True
    have "j = 0"
    proof (rule ccontr)
      assume "j \<noteq> 0"
      then have "0 < j" using less.prems(2) by simp
      then have "gray_encode j \<noteq> 0"
      proof (induction "nat j" arbitrary: j rule: less_induct)
        case (less j)
        show ?case
        proof (cases "j = 1")
          case False
          then have "gray_encode (j div 2) \<noteq> 0" using less by (intro less.hyps) auto
          then show ?thesis using gray_div2 [of j] by auto
        qed (simp add: gray_encode_def)
      qed
      with less.prems(3) True show False by (simp add: gray_encode_def)
    qed
    with True show ?thesis by simp
  next
    case False
    then have d: "i div 2 = j div 2" using less.prems(1,2)
      by (intro less.hyps [OF _ _ _ h]) auto
    with p have "i mod 2 = j mod 2" unfolding mod2_eq_if by auto
    then show ?thesis using d by (metis div_mult_mod_eq)
  qed
qed

text \<open>
  The Gray codes of neighbouring non-negative numbers differ in exactly one bit, and
  different numbers have different codes.
\<close>

theorem gray_code:
  assumes "0 \<le> i"
  shows "(\<exists>k. gray_encode i XOR gray_encode (i + 1) = 2 ^ k) \<and>
    (\<forall>j \<ge> 0. gray_encode i = gray_encode j \<longrightarrow> i = j)"
  using assms gray_step [of "nat i"] gray_inj [of i] by simp

theorem gray_code_witness: "\<exists>k. gray_encode 7 XOR gray_encode 8 = 2 ^ k"
  using gray_code [of 7] by simp

section \<open>binary_range\<close>

text \<open>
  The inner loop: \<open>v\<close> has its least significant digit first; the second result is the value of
  \<open>toggle[bits]\<close>.
\<close>

fun ripple :: "string \<Rightarrow> string \<times> bool" where
  "ripple [] = ([], True)"
| "ripple (c # v) =
     (if c = CHR ''0'' then (CHR ''1'' # v, False)
      else case ripple v of (v', k) \<Rightarrow> (CHR ''0'' # v', k))"

fun ripple_value :: "string \<Rightarrow> nat" where
  "ripple_value [] = 0"
| "ripple_value (c # v) = (if c = CHR ''0'' then 0 else 1) + 2 * ripple_value v"

lemma ripple_length: "ripple v = (v', k) \<Longrightarrow> length v' = length v"
  by (induction v arbitrary: v' k) (auto split: if_splits prod.splits)

lemma ripple_value_step:
  "ripple v = (v', k) \<Longrightarrow> if k then Suc (ripple_value v) = 2 ^ length v else ripple_value v' = Suc (ripple_value v)"
proof (induction v arbitrary: v' k)
  case (Cons c v)
  obtain w j where w: "ripple v = (w, j)" by fastforce
  from Cons.IH [OF w] Cons.prems w show ?case by (auto split: if_splits)
qed simp

lemma ripple_value_less: "ripple_value v < 2 ^ length v"
  by (induction v) auto

function binary_loop :: "string \<Rightarrow> string list" where
  "binary_loop v = rev v # (case ripple v of (v', k) \<Rightarrow> if k then [] else binary_loop v')"
  by pat_completeness auto
termination
proof (relation "measure (\<lambda>v. 2 ^ length v - ripple_value v)")
  fix v v' k assume "(v', k) = ripple v" "\<not> k"
  then have "ripple v = (v', k)" "\<not> k" by simp_all
  then show "(v', v) \<in> measure (\<lambda>v. 2 ^ length v - ripple_value v)"
    using ripple_length [of v v' k] ripple_value_step [of v v' k] ripple_value_less [of v] by simp
qed simp

declare binary_loop.simps [simp del]

definition binary_range :: "nat \<Rightarrow> string list" where
  "binary_range bits = (if bits = 0 then [] else binary_loop (replicate bits CHR ''0''))"

lemma ripple_set: "ripple v = (v', k) \<Longrightarrow> set v \<subseteq> {CHR ''0'', CHR ''1''} \<Longrightarrow> set v' \<subseteq> {CHR ''0'', CHR ''1''}"
  by (induction v arbitrary: v' k) (auto split: if_splits prod.splits)

lemma rev_bits_of: "set v \<subseteq> {CHR ''0'', CHR ''1''} \<Longrightarrow> rev v = bits_of (length v) (ripple_value v)"
  by (induction v) (auto simp: bit_char_def)

lemma binary_loop_eq:
  "set v \<subseteq> {CHR ''0'', CHR ''1''} \<Longrightarrow>
     binary_loop v = map (bits_of (length v)) [ripple_value v ..< 2 ^ length v]"
proof (induction v rule: binary_loop.induct)
  case (1 v)
  obtain v' k where r: "ripple v = (v', k)" by fastforce
  note st = ripple_value_step [OF r] ripple_length [OF r]
  show ?case
  proof (cases k)
    case True
    then have e: "[ripple_value v ..< 2 ^ length v] = [ripple_value v]" using st(1) by (simp flip: st(1))
    show ?thesis using True r rev_bits_of [OF "1.prems"] unfolding e by (simp add: binary_loop.simps [of v])
  next
    case False
    then have "binary_loop v' = map (bits_of (length v)) [Suc (ripple_value v) ..< 2 ^ length v]"
      using "1.IH" [OF r [symmetric] False] ripple_set [OF r "1.prems"] st r by simp
    then show ?thesis using False r rev_bits_of [OF "1.prems"] ripple_value_less [of v]
      by (simp add: binary_loop.simps [of v] upt_conv_Cons)
  qed
qed

text \<open>
  For a positive width \<open>binary_range\<close> lists what \<open>int2bin\<close> gives for \<open>0\<close>, \<open>1\<close>, ...,
  \<open>2 ^ bits - 1\<close>, in this order; for width \<open>0\<close> the list is empty.
\<close>

theorem binary_range_counts:
  "map Inr (binary_range bits) =
     (if bits = 0 then [] else map (\<lambda>i. int2bin (int i) (int bits)) [0 ..< 2 ^ bits])"
proof (cases "bits = 0")
  case False
  have z: "ripple_value (replicate n CHR ''0'') = 0" for n by (induction n) auto
  have "binary_range bits = map (bits_of bits) [0 ..< 2 ^ bits]"
    using False binary_loop_eq [of "replicate bits CHR ''0''"] by (simp add: binary_range_def z set_replicate_conv_if)
  moreover have "int2bin (int i) (int bits) = Inr (bits_of bits i)" if "i < 2 ^ bits" for i
  proof -
    have "int i < 2 ^ bits" using that by (metis of_nat_less_iff of_nat_numeral of_nat_power)
    then show ?thesis using int2bin_eq [of "int i" bits] False by simp
  qed
  ultimately show ?thesis using False by simp
qed (simp add: binary_range_def)

section \<open>quantile and trim\<close>

text \<open>\<open>int(x)\<close> of a float drops the fraction.\<close>

definition trunc :: "rat \<Rightarrow> int" where
  "trunc x = (if 0 \<le> x then floor x else ceiling x)"

definition quantile :: "rat list \<Rightarrow> rat \<Rightarrow> py_error + rat" where
  "quantile l p =
     (let l_sort = sort l; n = int (length l); r = 1 + (of_int (n - 1) * p); i = trunc r; f = r - of_int i in
      if i < n then
        rbind (py_index l_sort (i - 1)) (\<lambda>a.
        rbind (py_index l_sort i) (\<lambda>b. Inr ((1 - f) * a + f * b)))
      else py_index l_sort (i - 1))"

text \<open>The median is computed, and may fail, but is not used.\<close>

definition trim :: "rat list \<Rightarrow> py_error + rat list" where
  "trim l =
     (let l_sort = sort l; index = int (length l_sort) div 2 in
      rbind (if even (length l_sort)
             then rbind (py_index l_sort index) (\<lambda>a. rbind (py_index l_sort (index - 1)) (\<lambda>b. Inr ((a + b) / 2)))
             else py_index l_sort index) (\<lambda>median.
      rbind (quantile l_sort (1 / 4)) (\<lambda>q1.
      rbind (quantile l_sort (3 / 4)) (\<lambda>q3.
        let iqr_extra = (q3 - q1) * (3 / 2) in
        Inr (filter (\<lambda>x. q1 - iqr_extra \<le> x \<and> x \<le> q3 + iqr_extra) l_sort)))))"

text \<open>The position of the quantile in the sorted list.\<close>

lemma quantile_between:
  assumes "l \<noteq> []" "0 \<le> p" "p \<le> 1"
  shows "\<exists>j < length l. \<exists>q. quantile l p = Inr q \<and> of_nat j \<le> of_int (int (length l) - 1) * p \<and>
    sort l ! j \<le> q \<and> q \<le> sort l ! min (length l - 1) (Suc j)"
proof -
  let ?n = "int (length l)"
  let ?t = "of_int (?n - 1) * p"
  have n: "1 \<le> ?n" using assms(1) by (cases l) auto
  have t: "0 \<le> ?t" "?t \<le> of_int (?n - 1)" using n assms(2,3) mult_left_le [of p "of_int (?n - 1)"] by auto
  define j where "j = nat (floor ?t)"
  have fl: "0 \<le> floor ?t" "floor ?t \<le> ?n - 1" using t by (simp_all add: le_floor_iff floor_le_iff) linarith
  then have j: "int j = floor ?t" "j < length l" using n by (auto simp: j_def)
  have tr: "trunc (1 + ?t) = int j + 1" using t j(1) by (simp add: trunc_def)
  have jt: "of_nat j \<le> ?t" "?t < of_nat j + 1"
    using j(1) by (metis of_int_floor_le of_int_of_nat_eq) (metis floor_correct of_int_add of_int_of_nat_eq of_int_1 j(1))
  let ?f = "1 + ?t - of_int (int j + 1)"
  have f: "0 \<le> ?f" "?f < 1" using jt by auto
  have jl: "py_index (sort l) (int j) = Inr (sort l ! j)" using j(2) by simp
  show ?thesis
  proof (cases "int j + 1 < ?n")
    case True
    then have jl1: "py_index (sort l) (int j + 1) = Inr (sort l ! Suc j)"
      using py_index_nat [of "sort l" "Suc j"] by (simp add: add.commute)
    let ?q = "(1 - ?f) * sort l ! j + ?f * sort l ! Suc j"
    have q: "quantile l p = Inr ?q" unfolding quantile_def Let_def tr using True jl jl1 by simp
    have le: "sort l ! j \<le> sort l ! Suc j" using True by (intro sorted_nth_mono) auto
    have "?q = sort l ! j + ?f * (sort l ! Suc j - sort l ! j)" by (simp add: algebra_simps)
    moreover have "0 \<le> ?f * (sort l ! Suc j - sort l ! j)" using f le by simp
    moreover have "?f * (sort l ! Suc j - sort l ! j) \<le> sort l ! Suc j - sort l ! j"
      using f le by (intro mult_left_le_one_le) auto
    ultimately have "sort l ! j \<le> ?q" "?q \<le> sort l ! Suc j" by linarith+
    moreover have "min (length l - 1) (Suc j) = Suc j" using True by simp
    ultimately show ?thesis using q j(2) jt(1) by auto
  next
    case False
    then have "quantile l p = Inr (sort l ! j)" unfolding quantile_def Let_def tr using jl by simp
    moreover have "min (length l - 1) (Suc j) = j" using False j(2) by simp
    ultimately show ?thesis using j(2) jt(1) by auto
  qed
qed

lemma trim_total:
  assumes "l \<noteq> []"
  shows "\<exists>q1 q3. quantile l (1 / 4) = Inr q1 \<and> quantile l (3 / 4) = Inr q3 \<and>
    trim l = Inr (filter (\<lambda>x. q1 - (q3 - q1) * (3 / 2) \<le> x \<and> x \<le> q3 + (q3 - q1) * (3 / 2)) (sort l))"
proof -
  obtain q1 q3 where q: "quantile l (1 / 4) = Inr q1" "quantile l (3 / 4) = Inr q3"
    using quantile_between [OF assms, of "1 / 4"] quantile_between [OF assms, of "3 / 4"] by auto
  moreover have "quantile (sort l) p = quantile l p" for p by (simp add: quantile_def sorted_sort_id)
  moreover have "\<exists>m. (if even (length (sort l))
      then rbind (py_index (sort l) (int (length (sort l)) div 2)) (\<lambda>a.
        rbind (py_index (sort l) (int (length (sort l)) div 2 - 1)) (\<lambda>b. Inr ((a + b) / 2)))
      else py_index (sort l) (int (length (sort l)) div 2)) = Inr m"
  proof (cases "even (length (sort l))")
    case True
    then have "2 \<le> length l" using assms by (cases l; cases "tl l") auto
    then have "0 \<le> int (length (sort l)) div 2 - 1" "int (length (sort l)) div 2 < int (length (sort l))" by auto
    then obtain x y where "py_index (sort l) (int (length (sort l)) div 2) = Inr x"
      "py_index (sort l) (int (length (sort l)) div 2 - 1) = Inr y" by (auto simp: py_index_def Let_def)
    then show ?thesis unfolding if_P [OF True] by (intro exI [of _ "(x + y) / 2"]) simp
  next
    case False
    have half: "n div 2 < n" if "0 < n" for n :: int using that by presburger
    have "0 \<le> int (length (sort l)) div 2" "int (length (sort l)) div 2 < int (length (sort l))"
      using half [of "int (length l)"] assms by auto
    then show ?thesis using False by (auto simp: py_index_def Let_def)
  qed
  ultimately show ?thesis by (auto simp: trim_def Let_def)
qed

text \<open>
  For a non-empty list and \<open>0 \<le> p \<le> 1\<close>, \<open>quantile\<close> succeeds and lies between the two
  neighbouring order statistics around position \<open>(n - 1) p\<close>; \<open>trim\<close> then succeeds as well and
  returns, sorted and with multiplicity, exactly the values inside its interval.
\<close>

theorem quantile_trim:
  assumes "l \<noteq> []" "0 \<le> p" "p \<le> 1"
  shows "(\<exists>j < length l. \<exists>q. quantile l p = Inr q \<and> of_nat j \<le> of_int (int (length l) - 1) * p \<and>
      sort l ! j \<le> q \<and> q \<le> sort l ! min (length l - 1) (Suc j)) \<and>
    (\<exists>q1 q3. quantile l (1 / 4) = Inr q1 \<and> quantile l (3 / 4) = Inr q3 \<and>
      trim l = Inr (filter (\<lambda>x. q1 - (q3 - q1) * (3 / 2) \<le> x \<and> x \<le> q3 + (q3 - q1) * (3 / 2)) (sort l)))"
  using quantile_between [OF assms] trim_total [OF assms(1)] by blast

theorem quantile_trim_witness:
  "\<exists>q. quantile [3, 1, 2] (1 / 2) = Inr q \<and> sort [3, 1, 2] ! 0 \<le> q"
proof -
  have "[3, 1, 2] \<noteq> ([] :: rat list)" "(0 :: rat) \<le> 1 / 2" "1 / 2 \<le> (1 :: rat)" by simp_all
  from conjunct1 [OF quantile_trim [OF this]] obtain j q where
    q: "j < length [3, 1, 2 :: rat]" "quantile [3, 1, 2] (1 / 2) = Inr q" "sort [3, 1, 2] ! j \<le> q" by blast
  have "sort [3, 1, 2] ! 0 \<le> sort [3, 1, 2 :: rat] ! j" using q(1) by (intro sorted_nth_mono) auto
  with q show ?thesis by (metis order_trans)
qed

section \<open>float_range\<close>

text \<open>\<open>None\<close> is a loop that does not end.\<close>

partial_function (option) float_loop :: "rat \<Rightarrow> rat \<Rightarrow> rat \<Rightarrow> rat list option" where
  "float_loop cur stop step =
     (if cur < stop then Option.bind (float_loop (cur + step) stop step) (\<lambda>l. Some (cur # l)) else Some [])"

declare float_loop.simps [code]

definition float_range :: "rat \<Rightarrow> rat option \<Rightarrow> rat option \<Rightarrow> rat list option" where
  "float_range start stop step =
     (case stop of
        None \<Rightarrow> float_loop 0 start (case step of None \<Rightarrow> 1 | Some s \<Rightarrow> s)
      | Some e \<Rightarrow> float_loop start e (case step of None \<Rightarrow> 1 | Some s \<Rightarrow> s))"

lemma float_loop_stuck:
  assumes "float_loop cur stop step = Some l" shows "cur < stop \<longrightarrow> 0 < step"
proof (rule float_loop.raw_induct [OF _ assms])
  fix rec :: "rat \<Rightarrow> rat \<Rightarrow> rat \<Rightarrow> rat list option" and cur stop step :: rat and l
  assume ih: "\<And>cur stop step l. rec cur stop step = Some l \<Longrightarrow> cur < stop \<longrightarrow> 0 < step"
    and body: "(if cur < stop then Option.bind (rec (cur + step) stop step) (\<lambda>l. Some (cur # l)) else Some []) = Some l"
  show "cur < stop \<longrightarrow> 0 < step"
  proof
    assume lt: "cur < stop"
    with body obtain l' where "rec (cur + step) stop step = Some l'" by (auto split: bind_splits)
    show "0 < step"
    proof (rule ccontr)
      assume neg: "\<not> 0 < step"
      then have "cur + step < stop" using lt by linarith
      with ih [OF \<open>rec (cur + step) stop step = Some l'\<close>] neg show False by blast
    qed
  qed
qed

lemma float_loop_steps:
  "(\<And>k. k < n \<Longrightarrow> cur + of_nat k * step < stop) \<Longrightarrow> \<not> cur + of_nat n * step < stop \<Longrightarrow>
     float_loop cur stop step = Some (map (\<lambda>k. cur + of_nat k * step) [0 ..< n])"
proof (induction n arbitrary: cur)
  case 0
  then show ?case by (simp add: float_loop.simps [of cur])
next
  case (Suc n)
  have "cur < stop" using Suc.prems(1) [of 0] by simp
  moreover have "float_loop (cur + step) stop step = Some (map (\<lambda>k. cur + step + of_nat k * step) [0 ..< n])"
  proof (rule Suc.IH)
    show "cur + step + of_nat k * step < stop" if "k < n" for k
      using Suc.prems(1) [of "Suc k"] that by (simp add: algebra_simps)
    show "\<not> cur + step + of_nat n * step < stop" using Suc.prems(2) by (simp add: algebra_simps)
  qed
  moreover have "map (\<lambda>k. cur + of_nat k * step) [0 ..< Suc n] =
      cur # map (\<lambda>k. cur + step + of_nat k * step) [0 ..< n]"
    by (simp add: upt_conv_Cons map_Suc_upt [symmetric] comp_def algebra_simps del: upt_Suc)
  ultimately show ?case by (simp add: float_loop.simps [of cur])
qed

text \<open>
  With a positive step \<open>float_range\<close> returns the arithmetic progression from \<open>start\<close>
  below \<open>stop\<close>; with a step of zero or less it returns the empty list when \<open>start\<close> is not below
  \<open>stop\<close> and never returns otherwise.
\<close>

theorem float_range_progression:
  "float_range start (Some stop) (Some step) =
     (if 0 < step then
        Some (map (\<lambda>k. start + of_nat k * step) [0 ..< nat (ceiling ((stop - start) / step))])
      else if start < stop then None else Some [])"
proof (cases "0 < step")
  case True
  let ?n = "nat (ceiling ((stop - start) / step))"
  have lt: "start + of_nat k * step < stop \<longleftrightarrow> k < ?n" for k
  proof -
    have "start + of_nat k * step < stop \<longleftrightarrow> of_nat k < (stop - start) / step"
      using True by (simp add: pos_less_divide_eq algebra_simps)
    also have "\<dots> \<longleftrightarrow> int k < ceiling ((stop - start) / step)" by (simp add: less_ceiling_iff)
    finally show ?thesis by (simp add: zless_nat_eq_int_zless)
  qed
  from float_loop_steps [of ?n start step stop] lt True show ?thesis by (simp add: float_range_def)
next
  case False
  then have n: "float_loop start stop step = None" if "start < stop"
    using float_loop_stuck [of start stop step] that by (cases "float_loop start stop step") auto
  show ?thesis using False n
    by (cases "start < stop") (simp_all add: float_range_def float_loop.simps [of start stop step])
qed

section \<open>round_grid\<close>

text \<open>\<open>value % grid\<close> of floats takes the sign of the grid.\<close>

definition float_mod :: "rat \<Rightarrow> rat \<Rightarrow> rat" where
  "float_mod x g = x - g * of_int (floor (x / g))"

definition round_grid :: "rat \<Rightarrow> rat \<Rightarrow> int \<Rightarrow> py_error + rat" where
  "round_grid val grid mode =
     (if grid = 0 then Inl ZeroDivisionError
      else
        let off_grid = float_mod val grid in
        rbind (if mode = 0 then Inr (if grid / 2 \<le> off_grid then 1 else 0)
               else if mode = 1 \<and> off_grid \<noteq> 0 then Inr 1
               else if mode = - 1 \<and> off_grid \<noteq> 0 then Inr 0
               else Inl UnboundLocalError) (\<lambda>add_one :: int.
        Inr (of_int (trunc (val / grid) + add_one) * grid)))"

lemma float_mod_bounds: "0 < g \<Longrightarrow> 0 \<le> float_mod x g \<and> float_mod x g < g"
proof -
  assume g: "0 < g"
  have "of_int (floor (x / g)) * g \<le> x" "x < (of_int (floor (x / g)) + 1) * g"
    using pos_le_divide_eq [OF g] pos_divide_less_eq [OF g] of_int_floor_le [of "x / g"]
      floor_correct [of "x / g"] by (blast, simp)
  then show ?thesis by (simp add: float_mod_def algebra_simps)
qed

text \<open>
  For a value that is not negative and a positive grid, \<open>round_grid\<close> returns a multiple
  of the grid, the nearest in mode \<open>0\<close>, the next above in mode \<open>1\<close> and the next below in mode
  \<open>-1\<close>; in the last two modes a value on the grid raises \<open>UnboundLocalError\<close>.
\<close>

theorem round_grid_rounds:
  assumes "0 \<le> val" "0 < grid"
  shows "(\<exists>k. round_grid val grid 0 = Inr (of_int k * grid) \<and> \<bar>of_int k * grid - val\<bar> \<le> grid / 2) \<and>
    (if \<exists>k. val = of_int k * grid
     then round_grid val grid 1 = Inl UnboundLocalError \<and> round_grid val grid (- 1) = Inl UnboundLocalError
     else \<exists>k. round_grid val grid (- 1) = Inr (of_int k * grid) \<and>
       round_grid val grid 1 = Inr (of_int (k + 1) * grid) \<and>
       of_int k * grid < val \<and> val < of_int (k + 1) * grid)"
proof -
  let ?k = "floor (val / grid)"
  let ?off = "float_mod val grid"
  have t: "trunc (val / grid) = ?k" using assms by (simp add: trunc_def)
  have v: "val = of_int ?k * grid + ?off" by (simp add: float_mod_def)
  note b = float_mod_bounds [OF assms(2), of val]
  have on: "?off = 0 \<longleftrightarrow> (\<exists>k. val = of_int k * grid)"
  proof
    assume "\<exists>k. val = of_int k * grid"
    then obtain k where "val = of_int k * grid" by blast
    then have "val / grid = of_int k" using assms(2) by simp
    then show "?off = 0" using \<open>val = of_int k * grid\<close> by (simp only: float_mod_def floor_of_int) simp
  qed (use v in auto)
  have zero: "\<exists>k. round_grid val grid 0 = Inr (of_int k * grid) \<and> \<bar>of_int k * grid - val\<bar> \<le> grid / 2"
  proof (cases "grid / 2 \<le> ?off")
    case True
    then show ?thesis using assms t b v
      by (intro exI [of _ "?k + 1"]) (simp add: round_grid_def Let_def algebra_simps abs_if)
  next
    case False
    then show ?thesis using assms t b v
      by (intro exI [of _ ?k]) (simp add: round_grid_def Let_def algebra_simps abs_if)
  qed
  have "if ?off = 0
     then round_grid val grid 1 = Inl UnboundLocalError \<and> round_grid val grid (- 1) = Inl UnboundLocalError
     else \<exists>k. round_grid val grid (- 1) = Inr (of_int k * grid) \<and>
       round_grid val grid 1 = Inr (of_int (k + 1) * grid) \<and>
       of_int k * grid < val \<and> val < of_int (k + 1) * grid"
  proof (cases "?off = 0")
    case False
    then have "of_int ?k * grid < val" "val < of_int (?k + 1) * grid" using b v by (simp_all add: algebra_simps)
    then show ?thesis using False assms t by (auto simp: round_grid_def Let_def)
  qed (use assms in \<open>simp add: round_grid_def Let_def\<close>)
  with zero show ?thesis unfolding on by blast
qed

theorem round_grid_rounds_witness:
  "\<exists>k. round_grid (15 / 2) 5 0 = Inr (of_int k * 5) \<and> \<bar>of_int k * 5 - 15 / 2\<bar> \<le> (5 :: rat) / 2"
  using round_grid_rounds [of "15 / 2" 5] by simp

text \<open>
  Negative values are truncated towards zero by \<open>int\<close>: \<open>-3\<close> on a grid of \<open>5\<close> goes to \<open>0\<close>, although
  \<open>-5\<close> is nearer, and \<open>round_grid(-3.0, 5, -1)\<close> is above its argument.
\<close>

lemma round_grid_negative: "round_grid (- 3) 5 0 = Inr 0 \<and> round_grid (- 3) 5 (- 1) = Inr 0"
  by code_simp

section \<open>polygon_area\<close>

definition shoelace :: "(int \<times> int) list \<Rightarrow> int" where
  "shoelace ps = foldl (\<lambda>area i. case (ps ! i, ps ! Suc i) of ((x, y), (x', y')) \<Rightarrow> area + x' * y - y' * x)
     0 [0 ..< length ps - 1]"

definition polygon_area :: "(rat \<times> rat) list \<Rightarrow> int \<Rightarrow> py_error + rat" where
  "polygon_area points_list precision =
     (let scaled = map (\<lambda>(x, y). (trunc (x * of_int precision), trunc (y * of_int precision))) points_list in
      if scaled = [] then Inl IndexError
      else
        let closed = (if last scaled \<noteq> hd scaled then scaled @ [hd scaled] else scaled);
            area = \<bar>shoelace closed div 2\<bar> in
        if precision = 0 then Inl ZeroDivisionError
        else Inr (of_int area / of_int (precision ^ 2)))"

text \<open>
  The floor division comes before the absolute value, so that the direction in which an odd
  polygon is listed changes the result.
\<close>

lemma polygon_area_direction:
  "polygon_area [(0, 0), (1, 0), (0, 1)] 1 = Inr 1 \<and> polygon_area [(0, 1), (1, 0), (0, 0)] 1 = Inr 0"
  by code_simp

lemma polygon_area_doctest:
  "polygon_area [(0, 0), (0, 1), (1, 1), (1, 2), (2, 2), (2, 0), (0, 0)] 100 = Inr 3"
  by code_simp

end
