(* ===== verification/Transitions.thy ===== *)
theory Transitions
  imports Main
begin

text \<open>
  Two contracts of a step relation, used by every component that is a state machine: an
  invariant that all steps keep, and a weight that all steps lower. What follows from them
  (the invariant holds in every reachable state; runs are bounded and can always be driven to
  a state without successors) is proved here once.
\<close>

locale invariant_system =
  fixes step :: "'s \<Rightarrow> 's \<Rightarrow> bool" and inv :: "'s \<Rightarrow> bool"
  assumes inv_step: "inv s \<Longrightarrow> step s t \<Longrightarrow> inv t"
begin

lemma inv_run: "step\<^sup>*\<^sup>* s t \<Longrightarrow> inv s \<Longrightarrow> inv t"
  by (induction rule: rtranclp_induct) (auto dest: inv_step)

end

locale weighted_system =
  fixes step :: "'s \<Rightarrow> 's \<Rightarrow> bool" and weight :: "'s \<Rightarrow> nat"
  assumes weight_step: "step s t \<Longrightarrow> weight t < weight s"
begin

lemma run_bound: "(step ^^ n) s t \<Longrightarrow> n + weight t \<le> weight s"
proof (induction n arbitrary: t)
  case (Suc n)
  then obtain u where "(step ^^ n) s u" "step u t" by auto
  with Suc.IH [of u] weight_step [of u t] show ?case by simp
qed simp

lemma no_infinite_run: "\<not> (\<exists>f. f 0 = s \<and> (\<forall>i. step (f i) (f (Suc i))))"
proof
  assume "\<exists>f. f 0 = s \<and> (\<forall>i. step (f i) (f (Suc i)))"
  then obtain f where f: "\<forall>i. step (f i) (f (Suc i))" by blast
  have "i + weight (f i) \<le> weight (f 0)" for i
  proof (induction i)
    case (Suc i)
    then show ?case using weight_step [of "f i" "f (Suc i)"] f by fastforce
  qed simp
  from this [of "Suc (weight (f 0))"] show False by simp
qed

lemma run_ends: "\<exists>t. step\<^sup>*\<^sup>* s t \<and> \<not> (\<exists>u. step t u)"
proof (induction "weight s" arbitrary: s rule: less_induct)
  case less
  show ?case
  proof (cases "\<exists>u. step s u")
    case True
    then obtain u where "step s u" by blast
    with less.hyps [OF weight_step [OF this]] show ?thesis
      by (meson converse_rtranclp_into_rtranclp)
  qed blast
qed

end

text \<open>Replacing one entry of a list changes a sum over it by the difference at the entry.\<close>

lemma sum_list_upd:
  fixes f :: "'a \<Rightarrow> 'b :: comm_monoid_add"
  assumes "i < length xs"
  shows "sum_list (map f (xs[i := x])) + f (xs ! i) = sum_list (map f xs) + f x"
proof -
  have "sum_list (map f xs) = sum_list (map f (take i xs)) + (f (xs ! i) + sum_list (map f (drop (Suc i) xs)))"
    by (subst id_take_nth_drop [OF assms]) simp
  moreover have "sum_list (map f (xs[i := x])) =
      sum_list (map f (take i xs)) + (f x + sum_list (map f (drop (Suc i) xs)))"
    by (subst upd_conv_take_nth_drop [OF assms]) simp
  ultimately show ?thesis by (simp add: ac_simps)
qed

lemma sum_list_zero_all:
  fixes f :: "'a \<Rightarrow> nat" shows "sum_list (map f xs) = 0 \<longleftrightarrow> (\<forall>x \<in> set xs. f x = 0)"
  by (induction xs) auto

end
