(* ===== verification/Config_Files.thy ===== *)
theory Config_Files
  imports Py_Prelude
begin

text \<open>
  \<^verbatim>\<open>utils.py\<close>: the three functions that look for a Python list or boolean by name in a text
  file. A file system is a function from a path to the text of the file, if it exists;
  \<open>eval\<close> is the argument \<open>ev\<close> of the definitions.
\<close>

type_synonym files = "string \<Rightarrow> string option"
type_synonym evaluator = "string \<Rightarrow> py_error + py_value"

section \<open>The code\<close>

text \<open>\<open>if '#' in line: (line, comment) = line.split('#', 1)\<close>\<close>

definition drop_comment :: "string \<Rightarrow> string" where
  "drop_comment line = (if CHR ''#'' \<in> set line then hd (split_once (CHR ''#'') line) else line)"

text \<open>\<open>eval(s.split('=', 1)[1].strip())\<close>\<close>

definition eval_rhs :: "evaluator \<Rightarrow> string \<Rightarrow> py_error + py_value" where
  "eval_rhs ev s = rbind (py_index (split_once (CHR ''='') s) 1) (\<lambda>rhs. ev (strip rhs))"

fun scan_list :: "evaluator \<Rightarrow> string \<Rightarrow> string \<Rightarrow> bool \<Rightarrow> string list \<Rightarrow> py_error + py_value" where
  "scan_list ev list_name list_string multiline [] = Inr (VList [])"
| "scan_list ev list_name list_string multiline (line # lines) =
     (if contains (drop_comment line) list_name \<or> multiline then
        (let list_string' = list_string @ drop_comment line in
         if CHR '']'' \<notin> set list_string' then scan_list ev list_name list_string' True lines
         else eval_rhs ev list_string')
      else scan_list ev list_name list_string multiline lines)"

definition get_list_from_file :: "evaluator \<Rightarrow> files \<Rightarrow> string \<Rightarrow> string \<Rightarrow> py_error + py_value" where
  "get_list_from_file ev fs file_path list_name =
     (case fs file_path of
        None \<Rightarrow> Inr (VList [])
      | Some text \<Rightarrow> scan_list ev list_name [] False (lines_of text))"

fun scan_bool :: "evaluator \<Rightarrow> string \<Rightarrow> string list \<Rightarrow> py_error + py_value option" where
  "scan_bool ev bool_name [] = Inr None"
| "scan_bool ev bool_name (line # lines) =
     (if contains (drop_comment line) bool_name
      then rbind (eval_rhs ev (drop_comment line)) (\<lambda>v. Inr (Some v))
      else scan_bool ev bool_name lines)"

text \<open>\<open>bool_found\<close> is assigned only when the file exists.\<close>

definition get_bool_from_file ::
    "evaluator \<Rightarrow> files \<Rightarrow> string \<Rightarrow> string \<Rightarrow> py_value \<Rightarrow> py_error + py_value" where
  "get_bool_from_file ev fs file_path bool_name value_if_missing =
     (case fs file_path of
        None \<Rightarrow> Inl UnboundLocalError
      | Some text \<Rightarrow>
          rbind (scan_bool ev bool_name (lines_of text)) (\<lambda>found.
            Inr (case found of Some v \<Rightarrow> v | None \<Rightarrow> value_if_missing)))"

record ns3rc =
  config_file_exists :: bool
  modules_enabled :: py_value
  examples_enabled :: py_value
  tests_enabled :: py_value

definition all_modules :: py_value where
  "all_modules = VList [VStr ''all_modules'']"

definition read_config_file :: "evaluator \<Rightarrow> files \<Rightarrow> string \<Rightarrow> py_error + ns3rc" where
  "read_config_file ev fs home =
     (let here = ''.ns3rc''; there = home @ ''.ns3rc'';
          path = (if fs here \<noteq> None then Some here else if fs there \<noteq> None then Some there else None)
      in case path of
        None \<Rightarrow> Inr \<lparr>config_file_exists = False, modules_enabled = all_modules,
                     examples_enabled = VBool False, tests_enabled = VBool False\<rparr>
      | Some p \<Rightarrow>
          rbind (get_list_from_file ev fs p ''modules_enabled'') (\<lambda>mods.
          rbind (get_bool_from_file ev fs p ''examples_enabled'' (VBool False)) (\<lambda>examples.
          rbind (get_bool_from_file ev fs p ''tests_enabled'' (VBool False)) (\<lambda>tests.
            Inr \<lparr>config_file_exists = True, modules_enabled = (if truthy mods then mods else all_modules),
                 examples_enabled = examples, tests_enabled = tests\<rparr>))))"

section \<open>What is found\<close>

lemma drop_comment_eq: "drop_comment line = takeWhile (\<lambda>c. c \<noteq> CHR ''#'') line"
proof (cases "CHR ''#'' \<in> set line")
  case True
  then show ?thesis by (simp add: drop_comment_def split_once_def)
next
  case False
  then have "takeWhile (\<lambda>c. c \<noteq> CHR ''#'') line = line"
    by (simp only: takeWhile_eq_all_conv) auto
  then show ?thesis unfolding drop_comment_def if_not_P [OF False] by (rule sym)
qed

lemma drop_comment_plain [simp]: "CHR ''#'' \<notin> set line \<Longrightarrow> drop_comment line = line"
  by (simp add: drop_comment_def)

lemma scan_list_skip:
  "\<forall>l \<in> set before. \<not> contains (drop_comment l) list_name \<Longrightarrow>
     scan_list ev list_name [] False (before @ lines) = scan_list ev list_name [] False lines"
  by (induction before) auto

text \<open>Once the name has been seen, lines are collected up to the first that has a bracket.\<close>

lemma scan_list_collect:
  assumes "CHR '']'' \<notin> set (acc @ concat (map drop_comment body))" "CHR '']'' \<in> set (drop_comment final)"
  shows "scan_list ev name acc True (body @ final # after) =
    eval_rhs ev (acc @ concat (map drop_comment body) @ drop_comment final)"
  using assms by (induction body arbitrary: acc) (auto simp: Let_def)

lemma scan_list_from_name:
  assumes "contains (drop_comment (hd (body @ [final]))) name"
    and "CHR '']'' \<notin> set (concat (map drop_comment body))" "CHR '']'' \<in> set (drop_comment final)"
  shows "scan_list ev name [] False (body @ final # after) =
    eval_rhs ev (concat (map drop_comment (body @ [final])))"
proof (cases body)
  case Nil
  with assms show ?thesis by simp
next
  case (Cons l ls)
  with assms scan_list_collect [of "drop_comment l" ls final ev name after] show ?thesis
    by (simp add: Let_def)
qed

text \<open>A text without comments: its lines are collected as they stand.\<close>

lemma plain_lines:
  "CHR ''#'' \<notin> set s \<Longrightarrow> map drop_comment (lines_of s) = lines_of s"
proof (rule map_idI)
  fix l assume "CHR ''#'' \<notin> set s" "l \<in> set (lines_of s)"
  then show "drop_comment l = l" using lines_of_chars [of l s] by (intro drop_comment_plain) blast
qed

text \<open>The lines of a text whose last character before the final newline is its only bracket.\<close>

lemma bracket_lines:
  assumes "u \<noteq> []" "CHR '']'' \<notin> set u"
  obtains front final where "lines_of (u @ '']'' @ [NL]) = front @ [final]" "CHR '']'' \<in> set final"
    "CHR '']'' \<notin> set (concat front)"
proof -
  let ?t = "u @ '']''" and ?ws = "split_on NL (u @ '']'')"
  obtain v where v: "last ?ws = v @ '']''" using last_split_on [of "CHR '']''" NL u] by (auto simp: NL_def)
  let ?front = "map (\<lambda>w. w @ [NL]) (butlast ?ws)"
  have "concat ?front @ v @ '']'' = u @ '']''"
    using concat_newlines [of ?ws] join_split [of NL ?t] v by simp
  then have "concat ?front @ v = u" by simp
  then have "CHR '']'' \<notin> set (concat ?front)" using assms(2) by (metis UnI1 set_append)
  moreover have "lines_of (u @ '']'' @ [NL]) = ?front @ [last ?ws @ [NL]]"
    using lines_of_snoc [of ?t] append_butlast_last_id [of ?ws]
    by (metis (no_types, lifting) append.assoc list.simps(8,9) map_append split_on_nonempty)
  ultimately show thesis using that [of ?front "last ?ws @ [NL]"] v by simp
qed

text \<open>
  \<open>get_list_from_file\<close> reads back an assignment \<open>name = [...]\<close> that spans any number
  of lines: when no earlier line mentions the name outside a comment and the list has no
  comment and no inner bracket, the result is exactly what \<open>eval\<close> makes of the text after
  the \<open>=\<close>, stripped, whatever follows.
\<close>

theorem get_list_reads_assignment:
  assumes "fs file_path = Some text"
    and "lines_of text = before @ lines_of (list_name @ '' = ['' @ body @ '']'' @ [NL]) @ after"
    and "\<forall>l \<in> set before. \<not> contains (drop_comment l) list_name"
    and "list_name \<noteq> []" "set list_name \<inter> {NL, CHR ''='', CHR ''#'', CHR '']''} = {}"
    and "CHR ''#'' \<notin> set body" "CHR '']'' \<notin> set body"
  shows "get_list_from_file ev fs file_path list_name = ev (CHR ''['' # body @ '']'')"
proof -
  let ?u = "list_name @ '' = ['' @ body"
  let ?text = "?u @ '']'' @ [NL]"
  have nb: "CHR '']'' \<notin> set ?u" and ne: "?u \<noteq> []" using assms(4,5,7) by auto
  obtain front final where l: "lines_of ?text = front @ [final]" and e: "CHR '']'' \<in> set final"
    and f: "CHR '']'' \<notin> set (concat front)" using bracket_lines [OF ne nb] .
  have plain: "map drop_comment (front @ [final]) = front @ [final]"
    unfolding l [symmetric] by (rule plain_lines) (use assms(5,6) in \<open>auto simp: NL_def\<close>)
  obtain r where "hd (split_on NL (list_name @ '' = ['' @ body @ '']'')) = list_name @ r"
    using hd_split_on [of NL list_name] assms(5) by blast
  then have "hd (front @ [final]) = list_name @ r @ [NL]"
    using lines_of_snoc [of "list_name @ '' = ['' @ body @ '']''"] l hd_map
    by (metis (no_types, lifting) append.assoc split_on_nonempty)
  then have c: "contains (drop_comment (hd (front @ [final]))) list_name"
    using plain contains_conv by (metis append_Nil list.map_sel(1) snoc_eq_iff_butlast)
  have pf: "map drop_comment front = front" "drop_comment final = final" using plain by auto
  have "lines_of text = before @ front @ final # after" using assms(2) l by simp
  moreover have "scan_list ev list_name [] False (front @ final # after) =
      eval_rhs ev (concat (map drop_comment (front @ [final])))"
    using c by (rule scan_list_from_name) (use e f pf in simp_all)
  ultimately have "scan_list ev list_name [] False (lines_of text) = eval_rhs ev (concat (front @ [final]))"
    using scan_list_skip [OF assms(3)] plain by simp
  also have "concat (front @ [final]) = (list_name @ '' '') @ CHR ''='' # '' ['' @ body @ '']'' @ [NL]"
    using concat_lines_of [of ?text] unfolding l by simp
  also have "eval_rhs ev \<dots> = ev (strip ('' ['' @ body @ '']'' @ [NL]))"
    unfolding eval_rhs_def by (subst split_once_app) (use assms(5) in \<open>auto simp: py_index_def\<close>)
  also have "strip ('' ['' @ body @ '']'' @ [NL]) = CHR ''['' # body @ '']''"
    by (simp add: strip_def lstrip_def rstrip_def is_space_def NL_def)
  finally show ?thesis using assms(1) by (simp add: get_list_from_file_def)
qed

theorem get_list_reads_assignment_witness:
  "get_list_from_file (\<lambda>s. Inr (VStr s))
     (\<lambda>p. if p = ''f'' then Some (''# mods of the day'' @ [NL] @ ''mods = [1,'' @ [NL] @ '' 2]'' @ [NL] @ ''x'') else None)
     ''f'' ''mods'' = Inr (VStr (''[1,'' @ [NL] @ '' 2]''))"
proof -
  let ?text = "''# mods of the day'' @ [NL] @ ''mods = [1,'' @ [NL] @ '' 2]'' @ [NL] @ ''x''"
  have "lines_of ?text = [''# mods of the day'' @ [NL]] @
      lines_of (''mods'' @ '' = ['' @ (''1,'' @ [NL] @ '' 2'') @ '']'' @ [NL]) @ [''x'']" by code_simp
  from get_list_reads_assignment [OF _ this, of "\<lambda>p. if p = ''f'' then Some ?text else None" "''f''"
      "\<lambda>s. Inr (VStr s)"]
  show ?thesis by (simp add: drop_comment_def split_once_def startswith_def NL_def)
qed

lemma scan_bool_first:
  "scan_bool ev name lines =
     (case dropWhile (\<lambda>l. \<not> contains (drop_comment l) name) lines of
        [] \<Rightarrow> Inr None
      | l # _ \<Rightarrow> rbind (eval_rhs ev (drop_comment l)) (\<lambda>v. Inr (Some v)))"
  by (induction lines) auto

lemma eval_rhs_total:
  assumes "\<And>s. \<exists>v. ev s = Inr v" "CHR ''='' \<in> set s"
  shows "\<exists>v. eval_rhs ev s = Inr v"
  using assms by (auto simp: eval_rhs_def split_once_def py_index_def)

text \<open>
  \<open>get_bool_from_file\<close> raises \<open>UnboundLocalError\<close> exactly on a missing file when
  \<open>eval\<close> and the assignment syntax do not fail; on an existing file it returns the value of
  the first line that mentions the name outside a comment, and \<open>value_if_missing\<close> when no
  line does.
\<close>

theorem get_bool_cases:
  assumes "\<And>s. \<exists>v. ev s = Inr v"
    and "\<And>text l. fs path = Some text \<Longrightarrow> l \<in> set (lines_of text) \<Longrightarrow> contains (drop_comment l) name \<Longrightarrow>
      CHR ''='' \<in> set (drop_comment l)"
  shows "(get_bool_from_file ev fs path name dflt = Inl UnboundLocalError \<longleftrightarrow> fs path = None) \<and>
    (\<forall>text. fs path = Some text \<longrightarrow>
       (case filter (\<lambda>l. contains (drop_comment l) name) (lines_of text) of
          [] \<Rightarrow> get_bool_from_file ev fs path name dflt = Inr dflt
        | l # _ \<Rightarrow> get_bool_from_file ev fs path name dflt = eval_rhs ev (drop_comment l) \<and>
            (\<exists>v. eval_rhs ev (drop_comment l) = Inr v)))"
proof (cases "fs path")
  case None
  then show ?thesis by (simp add: get_bool_from_file_def)
next
  case (Some content)
  let ?mentions = "\<lambda>l. contains (drop_comment l) name"
  show ?thesis
  proof (cases "filter ?mentions (lines_of content)")
    case Nil
    then have d: "dropWhile (\<lambda>l. \<not> ?mentions l) (lines_of content) = []" by (simp add: filter_empty_conv)
    have "scan_bool ev name (lines_of content) = Inr None" unfolding scan_bool_first d by simp
    then show ?thesis using Some Nil by (simp add: get_bool_from_file_def)
  next
    case (Cons l ls)
    then obtain rest where d: "dropWhile (\<lambda>l. \<not> ?mentions l) (lines_of content) = l # rest"
      by (auto simp: filter_eq_Cons_iff dropWhile_append3)
    have "l \<in> set (filter ?mentions (lines_of content))" using Cons by simp
    then have "CHR ''='' \<in> set (drop_comment l)" using assms(2) [OF Some] by simp
    from eval_rhs_total [of ev, OF assms(1) this] obtain v where "eval_rhs ev (drop_comment l) = Inr v" ..
    then show ?thesis using Some Cons d by (simp add: get_bool_from_file_def scan_bool_first)
  qed
qed

theorem get_bool_cases_witness:
  "get_bool_from_file (\<lambda>s. Inr (VBool (s = ''True''))) (\<lambda>p. Some ''tests = True # tests'') ''f'' ''tests''
     (VBool False) = Inr (VBool True)"
proof -
  have l: "lines_of ''tests = True # tests'' = [''tests = True # tests'']" by code_simp
  have d: "drop_comment ''tests = True # tests'' = ''tests = True ''" by code_simp
  have e: "eval_rhs (\<lambda>s. Inr (VBool (s = ''True''))) ''tests = True '' = Inr (VBool True)" by code_simp
  have m: "CHR ''='' \<in> set (drop_comment k)"
    if "(\<lambda>p :: string. Some ''tests = True # tests'') ''f'' = Some t" "k \<in> set (lines_of t)" for t k
    using that l d by auto
  from get_bool_cases [of "\<lambda>s. Inr (VBool (s = ''True''))" "\<lambda>p. Some ''tests = True # tests''" "''f''"
      "''tests''" "VBool False", OF _ m]
  show ?thesis by (simp add: l d e startswith_def)
qed

lemma read_config_defaults:
  "fs ''.ns3rc'' = None \<Longrightarrow> fs (home @ ''.ns3rc'') = None \<Longrightarrow>
     read_config_file ev fs home = Inr \<lparr>config_file_exists = False, modules_enabled = all_modules,
       examples_enabled = VBool False, tests_enabled = VBool False\<rparr>"
  by (simp add: read_config_file_def)

end
