(* ===== verification/Test_Config.thy ===== *)
theory Test_Config
  imports Config_Files Os_Path
begin

text \<open>
  \<^verbatim>\<open>test.py\<close>, what happens before any test is chosen: \<open>read_ns3_config\<close> (the lock file that
  \<^verbatim>\<open>ns3 configure\<close> leaves), \<open>make_paths\<close> (the environment of the test processes),
  \<open>parse_examples_to_run_file\<close> (which examples exist) and the build command \<open>run_tests\<close>
  starts. \<open>eval\<close> and \<open>exec\<close> are the arguments \<open>ev\<close> and \<open>ex\<close>.
\<close>

section \<open>Options and configuration\<close>

record options =
  buildpath :: string
  constrain :: string
  duration :: bool
  example :: string
  update_data :: bool
  fullness :: string
  valgrind :: bool
  kinds :: bool
  list_tests :: bool
  multiple :: bool
  no_build :: bool
  pyexample :: string
  retain :: bool
  suite :: string
  text_file :: string
  verbose :: bool
  html :: string
  xml :: string
  nocolor :: bool
  process_limit :: int

definition default_options :: options where
  "default_options = \<lparr>buildpath = [], constrain = [], duration = False, example = [],
     update_data = False, fullness = ''QUICK'', valgrind = False, kinds = False, list_tests = False,
     multiple = False, no_build = False, pyexample = [], retain = False, suite = [], text_file = [],
     verbose = False, html = [], xml = [], nocolor = False, process_limit = 0\<rparr>"

record ns3_config =
  NS3_BASEDIR :: string
  NS3_BUILDDIR :: string
  NS3_MODULE_PATH :: "string list"
  APPNAME :: string
  VERSION :: string
  BUILD_PROFILE :: string
  PYTHON :: "string list"
  ENABLE_EXAMPLES :: bool
  ENABLE_TESTS :: bool
  ENABLE_PYTHON_BINDINGS :: bool
  VALGRIND_FOUND :: bool

definition BUILD_PROFILE_SUFFIX :: "ns3_config \<Rightarrow> string" where
  "BUILD_PROFILE_SUFFIX c = (if BUILD_PROFILE c = ''release'' then [] else CHR ''-'' # BUILD_PROFILE c)"

text \<open>\<open>"%s%s-%s%s" % (APPNAME, VERSION, name, BUILD_PROFILE_SUFFIX)\<close>\<close>

definition program_name :: "ns3_config \<Rightarrow> string \<Rightarrow> string" where
  "program_name c name = APPNAME c @ VERSION c @ ''-'' @ name @ BUILD_PROFILE_SUFFIX c"

definition core_kinds :: "string list" where
  "core_kinds = [''core'', ''performance'', ''system'', ''unit'']"

definition core_valgrind_skip_tests :: "string list" where
  "core_valgrind_skip_tests =
     [''routing-click'', ''lte-rr-ff-mac-scheduler'', ''lte-tdmt-ff-mac-scheduler'',
      ''lte-fdmt-ff-mac-scheduler'', ''lte-pf-ff-mac-scheduler'', ''lte-tta-ff-mac-scheduler'',
      ''lte-fdbet-ff-mac-scheduler'', ''lte-ttbet-ff-mac-scheduler'', ''lte-fdtbfq-ff-mac-scheduler'',
      ''lte-tdtbfq-ff-mac-scheduler'', ''lte-pss-ff-mac-scheduler'']"

text \<open>The command that builds what the options can need.\<close>

definition build_cmd :: "options \<Rightarrow> string \<Rightarrow> string \<Rightarrow> string" where
  "build_cmd opts platform executable =
     (let cmd =
        (if kinds opts \<or> list_tests opts \<or> (constrain opts \<noteq> [] \<and> constrain opts \<in> set core_kinds)
         then ''./ns3 build test-runner''
         else if example opts \<noteq> [] then ''./ns3 build '' @ basename (example opts)
         else ''./ns3'')
      in if platform = ''win32'' then executable @ '' '' @ cmd else cmd)"

section \<open>read_ns3_config\<close>

definition interesting_config_items :: "string list" where
  "interesting_config_items =
     [''NS3_ENABLED_MODULES'', ''NS3_ENABLED_CONTRIBUTED_MODULES'', ''NS3_MODULE_PATH'',
      ''ENABLE_REAL_TIME'', ''ENABLE_EXAMPLES'', ''ENABLE_TESTS'', ''EXAMPLE_DIRECTORIES'',
      ''ENABLE_PYTHON_BINDINGS'', ''NSCLICK'', ''ENABLE_BRITE'', ''ENABLE_OPENFLOW'', ''APPNAME'',
      ''BUILD_PROFILE'', ''VERSION'', ''PYTHON'', ''VALGRIND_FOUND'']"

type_synonym globals = "(string, py_value) dict"

definition initial_globals :: globals where
  "initial_globals =
     [(''ENABLE_REAL_TIME'', VBool False), (''ENABLE_EXAMPLES'', VBool True),
      (''ENABLE_TESTS'', VBool True), (''NSCLICK'', VBool False), (''ENABLE_BRITE'', VBool False),
      (''ENABLE_OPENFLOW'', VBool False), (''EXAMPLE_DIRECTORIES'', VList []), (''APPNAME'', VStr []),
      (''BUILD_PROFILE'', VStr []), (''BUILD_PROFILE_SUFFIX'', VStr []), (''VERSION'', VStr []),
      (''PYTHON'', VStr []), (''VALGRIND_FOUND'', VBool True)]"

text \<open>\<open>key, val = line.split('='); eval(val.strip())\<close>\<close>

definition split_assignment :: "evaluator \<Rightarrow> string \<Rightarrow> py_error + py_value" where
  "split_assignment ev line =
     (case split_on (CHR ''='') line of
        [key, val] \<Rightarrow> ev (strip val)
      | _ \<Rightarrow> Inl ValueError)"

definition scan_dir_line ::
    "evaluator \<Rightarrow> py_value option \<times> py_value option \<Rightarrow> string \<Rightarrow>
     py_error + py_value option \<times> py_value option" where
  "scan_dir_line ev dirs line = (case dirs of (top_dir, out_dir) \<Rightarrow>
     rbind (if startswith line ''top_dir ='' then rbind (split_assignment ev line) (\<lambda>v. Inr (Some v))
            else Inr top_dir) (\<lambda>top_dir'.
     rbind (if startswith line ''out_dir ='' then rbind (split_assignment ev line) (\<lambda>v. Inr (Some v))
            else Inr out_dir) (\<lambda>out_dir'. Inr (top_dir', out_dir'))))"

text \<open>One line of the second pass: executed once for every item it starts with.\<close>

definition exec_line ::
    "(string \<Rightarrow> globals \<Rightarrow> py_error + globals) \<Rightarrow> globals \<Rightarrow> string \<Rightarrow> py_error + globals" where
  "exec_line ex g line =
     rfold (\<lambda>g item. if startswith line item then ex line g else Inr g) g interesting_config_items"

definition lock_filename :: "string \<Rightarrow> string" where
  "lock_filename platform = ''.lock-ns3_'' @ platform @ ''_build''"

definition read_ns3_config ::
    "evaluator \<Rightarrow> (string \<Rightarrow> globals \<Rightarrow> py_error + globals) \<Rightarrow> files \<Rightarrow> string \<Rightarrow> bool \<Rightarrow> globals \<Rightarrow>
     py_error + globals" where
  "read_ns3_config ev ex fs platform verb g =
     (case fs (lock_filename platform) of
        None \<Rightarrow> Inl (SystemExit 2)
      | Some content \<Rightarrow>
          rbind (rfold (scan_dir_line ev) (None, None) (lines_of content)) (\<lambda>dirs.
          case dirs of
            (Some top_dir, Some out_dir) \<Rightarrow>
              rbind (rfold (exec_line ex)
                  (AList.update ''NS3_BUILDDIR'' out_dir (AList.update ''NS3_BASEDIR'' top_dir g))
                  (lines_of content)) (\<lambda>g'.
              if verb \<and> \<not> list_all (has_key g') interesting_config_items
              then Inl (OtherError ''NameError'') else Inr g')
          | _ \<Rightarrow> Inl UnboundLocalError))"

text \<open>
  A key that no executed line can touch keeps its value, and the two directories come from
  the lock file. \<open>ex\<close> is only asked to leave alone the keys that do not start the line.
\<close>

lemma exec_line_keeps:
  assumes "\<And>l h h'. ex l h = Inr h' \<Longrightarrow> \<not> startswith l k \<Longrightarrow> map_of h' k = map_of h k"
    and "\<not> startswith line k"
  shows "exec_line ex g line = Inr g' \<Longrightarrow> map_of g' k = map_of g k"
proof -
  have "rfold (\<lambda>g item. if startswith line item then ex line g else Inr g) g items = Inr g' \<Longrightarrow>
      map_of g' k = map_of g k" for items
    by (induction items arbitrary: g) (auto simp: rbind_iffs assms split: if_splits)
  then show "exec_line ex g line = Inr g' \<Longrightarrow> map_of g' k = map_of g k" by (simp add: exec_line_def)
qed

section \<open>make_paths\<close>

type_synonym environ = "(string, string) dict"

text \<open>\<open>if not have_VAR: os.environ[VAR] = ""\<close>, then one \<open>+= sep + path\<close> per module path.\<close>

definition append_paths :: "string \<Rightarrow> char \<Rightarrow> string list \<Rightarrow> environ \<Rightarrow> environ" where
  "append_paths var sep paths env =
     foldl (\<lambda>env path. AList.update var (dget_or [] var env @ sep # path) env)
       (if has_key env var then env else AList.update var [] env) paths"

definition library_var :: "string \<Rightarrow> string \<times> char" where
  "library_var platform =
     (if platform = ''darwin'' then (''DYLD_LIBRARY_PATH'', CHR '':'')
      else if platform = ''win32'' then (''PATH'', CHR '';'')
      else if platform = ''cygwin'' then (''PATH'', CHR '':'')
      else (''LD_LIBRARY_PATH'', CHR '':''))"

definition make_paths :: "ns3_config \<Rightarrow> string \<Rightarrow> environ \<Rightarrow> environ" where
  "make_paths c platform env =
     (let have_PYTHONPATH = has_key env ''PYTHONPATH'';
          pypath = path_join (NS3_BUILDDIR c) [''bindings'', ''python''];
          env1 = AList.update ''PYTHONPATH'' pypath env;
          env2 = (if \<not> have_PYTHONPATH then AList.update ''PYTHONPATH'' pypath env1
                  else AList.update ''PYTHONPATH'' (dget_or [] ''PYTHONPATH'' env1 @ '':'' @ pypath) env1)
      in case library_var platform of (var, sep) \<Rightarrow> append_paths var sep (NS3_MODULE_PATH c) env2)"

lemma append_paths_get:
  "map_of (append_paths var sep paths env) k =
     (if k = var then Some (dget_or [] var env @ concat (map (\<lambda>p. sep # p) paths)) else map_of env k)"
proof -
  have "map_of (foldl (\<lambda>env path. AList.update var (dget_or [] var env @ sep # path) env) e paths) k =
      (if k = var then Some (dget_or [] var e @ concat (map (\<lambda>p. sep # p) paths)) else map_of e k)"
    if "has_key e var" for e
    using that by (induction paths arbitrary: e) (auto simp: dget_or_def split: option.splits)
  from this [of "if has_key env var then env else AList.update var [] env"] show ?thesis
    by (auto simp: append_paths_def dget_or_def split: option.splits)
qed

text \<open>
  After \<open>make_paths\<close> the platform's library variable holds its old value (or
  nothing) followed by every module path behind a separator; \<open>PYTHONPATH\<close> holds the bindings
  directory, twice when the variable existed before, and nothing of its old value; every
  other variable is as it was.
\<close>

theorem make_paths_environment:
  "let p = path_join (NS3_BUILDDIR c) [''bindings'', ''python'']; (var, sep) = library_var platform;
       env' = make_paths c platform env
   in map_of env' var = Some (dget_or [] var env @ concat (map (\<lambda>m. sep # m) (NS3_MODULE_PATH c))) \<and>
      map_of env' ''PYTHONPATH'' = Some (if has_key env ''PYTHONPATH'' then p @ '':'' @ p else p) \<and>
      (\<forall>k. k \<noteq> var \<longrightarrow> k \<noteq> ''PYTHONPATH'' \<longrightarrow> map_of env' k = map_of env k)"
proof -
  obtain var sep where v: "library_var platform = (var, sep)" by fastforce
  then have "var \<noteq> ''PYTHONPATH''" by (auto simp: library_var_def split: if_splits)
  then show ?thesis by (simp add: make_paths_def v append_paths_get Let_def dget_or_def)
qed

theorem make_paths_environment_witness:
  "let c = \<lparr>NS3_BASEDIR = ''/r'', NS3_BUILDDIR = ''/r/b'', NS3_MODULE_PATH = [''/l1'', ''/l2''], APPNAME = [],
       VERSION = [], BUILD_PROFILE = [], PYTHON = [], ENABLE_EXAMPLES = True, ENABLE_TESTS = True,
       ENABLE_PYTHON_BINDINGS = True, VALGRIND_FOUND = True\<rparr>;
     env' = make_paths c ''linux'' [(''HOME'', ''/h''), (''PYTHONPATH'', ''/mine'')]
   in map_of env' ''HOME'' = Some ''/h'' \<and> map_of env' ''LD_LIBRARY_PATH'' = Some '':/l1:/l2'' \<and>
      map_of env' ''PYTHONPATH'' = Some ''/r/b/bindings/python:/r/b/bindings/python''"
proof -
  have "path_join ''/r/b'' [''bindings'', ''python''] = ''/r/b/bindings/python''" by code_simp
  then show ?thesis
    using make_paths_environment [of "\<lparr>NS3_BASEDIR = ''/r'', NS3_BUILDDIR = ''/r/b'',
       NS3_MODULE_PATH = [''/l1'', ''/l2''], APPNAME = [], VERSION = [], BUILD_PROFILE = [], PYTHON = [],
       ENABLE_EXAMPLES = True, ENABLE_TESTS = True, ENABLE_PYTHON_BINDINGS = True, VALGRIND_FOUND = True\<rparr>"
       "''linux''" "[(''HOME'', ''/h''), (''PYTHONPATH'', ''/mine'')]"]
    by (simp add: library_var_def Let_def dget_or_def)
qed

end
