(* ===== verification/Test_Examples.thy ===== *)
theory Test_Examples
  imports Test_Config
begin

text \<open>
  \<^verbatim>\<open>test.py\<close>: \<open>parse_examples_to_run_file\<close>, which appends the C++ and Python examples one
  \<^verbatim>\<open>examples-to-run.py\<close> lists, as far as they have been built, to the lists of examples, and
  the loops of \<open>run_tests\<close> over the example directories and modules that call it.
\<close>

section \<open>The code\<close>

record example_lists =
  example_tests :: "(string \<times> string \<times> py_value \<times> py_value) list"
  example_names_original :: "string list"
  python_tests :: "(string \<times> py_value) list"

definition no_examples :: example_lists where
  "no_examples = \<lparr>example_tests = [], example_names_original = [], python_tests = []\<rparr>"

text \<open>Unpacking a tuple of \<open>n\<close> names.\<close>

definition unpack :: "nat \<Rightarrow> py_value \<Rightarrow> py_error + py_value list" where
  "unpack n v = rbind (items v) (\<lambda>vs. if length vs = n then Inr vs else Inl ValueError)"

text \<open>\<open>v.split(' ', 1)\<close>: the name and, if there is a blank, the arguments.\<close>

definition split_args :: "py_value \<Rightarrow> py_error + string \<times> string option" where
  "split_args v = (case v of
     VStr s \<Rightarrow> (case split_once (CHR '' '') s of
        [name, args] \<Rightarrow> Inr (name, Some args)
      | _ \<Rightarrow> Inr (s, None))
   | _ \<Rightarrow> Inl AttributeError)"

definition with_args :: "string \<Rightarrow> string option \<Rightarrow> string" where
  "with_args s args = (case args of None \<Rightarrow> s | Some a \<Rightarrow> s @ '' '' @ a)"

definition add_cpp_example ::
    "ns3_config \<Rightarrow> files \<Rightarrow> string \<Rightarrow> string \<Rightarrow> example_lists \<Rightarrow> py_value \<Rightarrow> py_error + example_lists" where
  "add_cpp_example c fs cwd cpp_executable_dir ls entry =
     rbind (unpack 3 entry) (\<lambda>vs.
     rbind (split_args (vs ! 0)) (\<lambda>(name, args).
     let example_path = path_join2 cpp_executable_dir (program_name c name) in
     rbind (relpath cwd cpp_executable_dir (NS3_BUILDDIR c)) (\<lambda>rel.
       if fs example_path \<noteq> None then
         Inr (ls\<lparr>example_tests := example_tests ls @
                   [(with_args (path_join2 rel name) args, with_args example_path args, vs ! 1, vs ! 2)],
                 example_names_original := example_names_original ls @ [with_args name args]\<rparr>)
       else Inr ls)))"

definition add_python_example ::
    "files \<Rightarrow> string \<Rightarrow> example_lists \<Rightarrow> py_value \<Rightarrow> py_error + example_lists" where
  "add_python_example fs python_script_dir ls entry =
     rbind (unpack 2 entry) (\<lambda>vs.
     rbind (split_args (vs ! 0)) (\<lambda>(name, args).
       let example_path = path_join2 python_script_dir name in
       if fs example_path \<noteq> None then
         Inr (ls\<lparr>python_tests := python_tests ls @ [(with_args example_path args, vs ! 1)]\<rparr>)
       else Inr ls))"

definition parse_examples_to_run_file ::
    "ns3_config \<Rightarrow> evaluator \<Rightarrow> files \<Rightarrow> string \<Rightarrow> string \<Rightarrow> string \<Rightarrow> string \<Rightarrow> example_lists \<Rightarrow>
     py_error + example_lists" where
  "parse_examples_to_run_file c ev fs cwd examples_to_run_path cpp_executable_dir python_script_dir ls =
     (if fs examples_to_run_path = None then Inr ls
      else
        rbind (get_list_from_file ev fs examples_to_run_path ''cpp_examples'') (\<lambda>v.
        rbind (items v) (\<lambda>cpp_examples.
        rbind (rfold (add_cpp_example c fs cwd cpp_executable_dir) ls cpp_examples) (\<lambda>ls'.
        rbind (get_list_from_file ev fs examples_to_run_path ''python_examples'') (\<lambda>w.
        rbind (items w) (\<lambda>python_examples.
          rfold (add_python_example fs python_script_dir) ls' python_examples))))))"

text \<open>
  The three loops of \<open>run_tests\<close>: example directories, enabled modules, contributed modules;
  \<open>module[len("ns3-"):]\<close> drops four characters whatever they are.
\<close>

definition directory_examples ::
    "ns3_config \<Rightarrow> evaluator \<Rightarrow> files \<Rightarrow> string \<Rightarrow> example_lists \<Rightarrow> string \<Rightarrow> py_error + example_lists" where
  "directory_examples c ev fs cwd ls directory =
     (let example_directory = path_join2 ''examples'' directory in
      parse_examples_to_run_file c ev fs cwd (path_join2 example_directory ''examples-to-run.py'')
        (path_join2 (NS3_BUILDDIR c) example_directory) example_directory ls)"

definition module_examples ::
    "string \<Rightarrow> ns3_config \<Rightarrow> evaluator \<Rightarrow> files \<Rightarrow> string \<Rightarrow> example_lists \<Rightarrow> string \<Rightarrow>
     py_error + example_lists" where
  "module_examples root c ev fs cwd ls module =
     (let module_directory = path_join2 root (slice_from module 4);
          example_directory = path_join2 module_directory ''examples'' in
      parse_examples_to_run_file c ev fs cwd
        (path_join module_directory [''test'', ''examples-to-run.py''])
        (path_join2 (NS3_BUILDDIR c) example_directory) example_directory ls)"

definition collect_examples ::
    "ns3_config \<Rightarrow> evaluator \<Rightarrow> files \<Rightarrow> string \<Rightarrow> string list \<Rightarrow> string list \<Rightarrow> string list \<Rightarrow>
     py_error + example_lists" where
  "collect_examples c ev fs cwd dirs modules contributed =
     rbind (rfold (directory_examples c ev fs cwd) no_examples dirs) (\<lambda>l1.
     rbind (rfold (module_examples ''src'' c ev fs cwd) l1 modules) (\<lambda>l2.
       rfold (module_examples ''contrib'' c ev fs cwd) l2 contributed))"

section \<open>What ends up in the lists\<close>

text \<open>
  Every entry is that of a file that exists, and there is one original name per C++ example.
\<close>

definition runs_file :: "files \<Rightarrow> string \<Rightarrow> bool" where
  "runs_file fs path \<longleftrightarrow> (\<exists>p args. fs p \<noteq> None \<and> path = with_args p args)"

lemma runs_file_args [simp]: "fs p \<noteq> None \<Longrightarrow> runs_file fs (with_args p args)"
  by (auto simp: runs_file_def)

definition lists_ok :: "files \<Rightarrow> example_lists \<Rightarrow> bool" where
  "lists_ok fs ls \<longleftrightarrow>
     length (example_names_original ls) = length (example_tests ls) \<and>
     list_all (\<lambda>t. runs_file fs (fst (snd t))) (example_tests ls) \<and>
     list_all (\<lambda>t. runs_file fs (fst t)) (python_tests ls)"

lemma add_cpp_keeps:
  "lists_ok fs ls \<Longrightarrow> add_cpp_example c fs cwd d ls e = Inr ls' \<Longrightarrow> lists_ok fs ls'"
  by (auto simp: add_cpp_example_def rbind_iffs lists_ok_def Let_def split: if_splits)

lemma add_python_keeps:
  "lists_ok fs ls \<Longrightarrow> add_python_example fs d ls e = Inr ls' \<Longrightarrow> lists_ok fs ls'"
  by (auto simp: add_python_example_def rbind_iffs lists_ok_def Let_def split: if_splits)

interpretation cpp_entries: loop_invariant "add_cpp_example c fs cwd d" "lists_ok fs" "\<lambda>_. True"
  for c fs cwd d
  by unfold_locales (rule add_cpp_keeps)

interpretation python_entries: loop_invariant "add_python_example fs d" "lists_ok fs" "\<lambda>_. True"
  for fs d
  by unfold_locales (rule add_python_keeps)

lemma parse_keeps:
  assumes "lists_ok fs ls" "parse_examples_to_run_file c ev fs cwd p cd pd ls = Inr ls'"
  shows "lists_ok fs ls'"
proof (cases "fs p = None")
  case False
  with assms(2) obtain cpp py ls1 where "rfold (add_cpp_example c fs cwd cd) ls cpp = Inr ls1"
    "rfold (add_python_example fs pd) ls1 py = Inr ls'"
    by (auto simp: parse_examples_to_run_file_def rbind_iffs)
  then show ?thesis using cpp_entries.run_keeps python_entries.run_keeps assms(1) by (metis (full_types))
qed (use assms in \<open>simp add: parse_examples_to_run_file_def\<close>)

interpretation directories: loop_invariant "directory_examples c ev fs cwd" "lists_ok fs" "\<lambda>_. True"
  for c ev fs cwd
  by unfold_locales (auto simp: directory_examples_def Let_def dest: parse_keeps)

interpretation modules: loop_invariant "module_examples root c ev fs cwd" "lists_ok fs" "\<lambda>_. True"
  for root c ev fs cwd
  by unfold_locales (auto simp: module_examples_def Let_def dest: parse_keeps)

text \<open>
  Whatever the example files say, when \<open>collect_examples\<close> returns, every example it
  lists, C++ or Python, is an existing file with optional arguments, and \<open>test.py --list\<close>
  has one name for each C++ example.
\<close>

theorem collect_examples_exist:
  assumes "collect_examples c ev fs cwd dirs modules contributed = Inr ls"
  shows "(\<forall>(name, path, r, v) \<in> set (example_tests ls). \<exists>p args. fs p \<noteq> None \<and> path = with_args p args) \<and>
    (\<forall>(path, r) \<in> set (python_tests ls). \<exists>p args. fs p \<noteq> None \<and> path = with_args p args) \<and>
    length (example_names_original ls) = length (example_tests ls)"
proof -
  have "lists_ok fs no_examples" by (simp add: lists_ok_def no_examples_def)
  moreover obtain l1 l2 where "rfold (directory_examples c ev fs cwd) no_examples dirs = Inr l1"
    "rfold (module_examples ''src'' c ev fs cwd) l1 modules = Inr l2"
    "rfold (module_examples ''contrib'' c ev fs cwd) l2 contributed = Inr ls"
    using assms by (auto simp: collect_examples_def rbind_iffs)
  ultimately have "lists_ok fs ls"
    using directories.run_keeps modules.run_keeps by (metis (full_types))
  then show ?thesis by (force simp: lists_ok_def runs_file_def list_all_iff)
qed

text \<open>A tree with one Python example, evaluated, and the property at it.\<close>

definition sample_tree :: files where
  "sample_tree p =
     (if p = ''examples/udp/examples-to-run.py''
      then Some (''cpp_examples = []'' @ [NL] @ ''python_examples = [x]'' @ [NL])
      else if p = ''examples/udp/echo.py'' then Some [] else None)"

definition sample_eval :: evaluator where
  "sample_eval s = Inr (VList (if s = ''[x]'' then [VTuple [VStr ''echo.py'', VStr ''True'']] else []))"

theorem collect_examples_exist_witness:
  "\<exists>ls p args. collect_examples \<lparr>NS3_BASEDIR = ''/r'', NS3_BUILDDIR = ''/r/b'', NS3_MODULE_PATH = [],
       APPNAME = ''ns'', VERSION = ''3'', BUILD_PROFILE = ''debug'', PYTHON = [], ENABLE_EXAMPLES = True,
       ENABLE_TESTS = True, ENABLE_PYTHON_BINDINGS = True, VALGRIND_FOUND = True\<rparr>
       sample_eval sample_tree ''/r'' [''udp''] [] [] = Inr ls \<and>
     python_tests ls = [(''examples/udp/echo.py'', VStr ''True'')] \<and>
     sample_tree p \<noteq> None \<and> ''examples/udp/echo.py'' = with_args p args"
proof -
  let ?c = "\<lparr>NS3_BASEDIR = ''/r'', NS3_BUILDDIR = ''/r/b'', NS3_MODULE_PATH = [],
       APPNAME = ''ns'', VERSION = ''3'', BUILD_PROFILE = ''debug'', PYTHON = [], ENABLE_EXAMPLES = True,
       ENABLE_TESTS = True, ENABLE_PYTHON_BINDINGS = True, VALGRIND_FOUND = True\<rparr>"
  let ?ls = "\<lparr>example_tests = [], example_names_original = [],
       python_tests = [(''examples/udp/echo.py'', VStr ''True'')]\<rparr>"
  have h: "collect_examples ?c sample_eval sample_tree ''/r'' [''udp''] [] [] = Inr ?ls" by code_simp
  from collect_examples_exist [OF h] h show ?thesis by fastforce
qed

text \<open>One C++ entry of an example directory below the build directory.\<close>

lemma split_args_plain: "CHR '' '' \<notin> set s \<Longrightarrow> split_args (VStr s) = Inr (s, None)"
  by (simp add: split_args_def)

lemma split_args_app: "CHR '' '' \<notin> set s \<Longrightarrow> split_args (VStr (s @ '' '' @ a)) = Inr (s, Some a)"
  by (simp add: split_args_def split_once_app)

text \<open>
  An entry \<open>(name args, do_run, do_valgrind_run)\<close> of a C++ example directory that was
  built is listed under the directory relative to the build directory, runs the program
  \<open>APPNAME VERSION-name-PROFILE\<close> in that directory, and keeps its arguments in both.
\<close>

theorem add_cpp_example_paths:
  assumes "\<forall>x \<in> set (base @ dir). plain_comp x" "base \<noteq> []" "dir \<noteq> []" "NS3_BUILDDIR c = abs_path base"
    and "CHR '' '' \<notin> set name"
    and "fs (path_join2 (abs_path (base @ dir)) (program_name c name)) = Some binary"
  shows "add_cpp_example c fs cwd (path_join2 (NS3_BUILDDIR c) (join ''/'' dir)) ls
      (VTuple [VStr (name @ '' '' @ args), r, v]) =
    Inr (ls\<lparr>example_tests := example_tests ls @
          [(path_join2 (join ''/'' dir) name @ '' '' @ args,
            path_join2 (abs_path (base @ dir)) (program_name c name) @ '' '' @ args, r, v)],
        example_names_original := example_names_original ls @ [name @ '' '' @ args]\<rparr>)"
  using assms relpath_below [OF assms(1,3), of cwd] split_args_app [OF assms(5), of args]
  by (simp add: add_cpp_example_def unpack_def join_below with_args_def)

theorem add_cpp_example_paths_witness:
  "add_cpp_example \<lparr>NS3_BASEDIR = ''/r'', NS3_BUILDDIR = ''/r/build'', NS3_MODULE_PATH = [],
       APPNAME = ''ns'', VERSION = ''3'', BUILD_PROFILE = ''debug'', PYTHON = [], ENABLE_EXAMPLES = True,
       ENABLE_TESTS = True, ENABLE_PYTHON_BINDINGS = True, VALGRIND_FOUND = True\<rparr>
     (\<lambda>p. if p = ''/r/build/examples/udp/ns3-echo-debug'' then Some [] else None) ''/r''
     ''/r/build/examples/udp'' no_examples (VTuple [VStr ''echo --n=1'', VStr ''True'', VStr ''False'']) =
   Inr \<lparr>example_tests = [(''examples/udp/echo --n=1'', ''/r/build/examples/udp/ns3-echo-debug --n=1'',
           VStr ''True'', VStr ''False'')],
        example_names_original = [''echo --n=1''], python_tests = []\<rparr>"
proof -
  let ?c = "\<lparr>NS3_BASEDIR = ''/r'', NS3_BUILDDIR = ''/r/build'', NS3_MODULE_PATH = [],
       APPNAME = ''ns'', VERSION = ''3'', BUILD_PROFILE = ''debug'', PYTHON = [], ENABLE_EXAMPLES = True,
       ENABLE_TESTS = True, ENABLE_PYTHON_BINDINGS = True, VALGRIND_FOUND = True\<rparr>"
  let ?fs = "\<lambda>p. if p = ''/r/build/examples/udp/ns3-echo-debug'' then Some ([] :: string) else None"
  have "\<forall>x \<in> set ([''r'', ''build''] @ [''examples'', ''udp'']). plain_comp x"
    "NS3_BUILDDIR ?c = abs_path [''r'', ''build'']" "CHR '' '' \<notin> set ''echo''"
    by (auto simp: plain_comp_def abs_path_def)
  moreover have "path_join2 (abs_path ([''r'', ''build''] @ [''examples'', ''udp''])) (program_name ?c ''echo'') =
      ''/r/build/examples/udp/ns3-echo-debug''"
    "path_join2 (NS3_BUILDDIR ?c) (join ''/'' [''examples'', ''udp'']) = ''/r/build/examples/udp''"
    "path_join2 (join ''/'' [''examples'', ''udp'']) ''echo'' = ''examples/udp/echo''" by code_simp+
  ultimately show ?thesis
    using add_cpp_example_paths [of "[''r'', ''build'']" "[''examples'', ''udp'']" ?c "''echo''" ?fs "[]"
      "''/r''" no_examples "''--n=1''" "VStr ''True''" "VStr ''False''"] by (simp add: no_examples_def)
qed

end
