(* ===== verification/Test_Jobs.thy ===== *)
theory Test_Jobs
  imports Complex_Main Test_Examples
begin

text \<open>
  \<^verbatim>\<open>test.py\<close>: the \<open>Job\<close> class, \<open>run_job_synchronously\<close>, the choice of the test suites and
  the loops of \<open>run_tests\<close> that build the jobs. What a shell command does is the argument
  \<open>run\<close> of the definitions: the return code, the output (\<open>None\<close> where the bytes do not
  decode) and the elapsed time.
\<close>

section \<open>Job\<close>

record Job =
  is_break :: bool
  is_skip :: bool
  skip_reason :: string
  is_example :: bool
  is_pyexample :: bool
  shell_command :: string
  display_name :: string
  basedir :: string
  tempdir :: string
  job_cwd :: string
  tmp_file_name :: string
  returncode :: int
  elapsed_time :: rat
  build_path :: string

text \<open>The constructor; its \<open>returncode = False\<close> compares equal to \<open>0\<close>.\<close>

definition new_job :: Job where
  "new_job = \<lparr>is_break = False, is_skip = False, skip_reason = [], is_example = False,
     is_pyexample = False, shell_command = [], display_name = [], basedir = [], tempdir = [],
     job_cwd = [], tmp_file_name = [], returncode = 0, elapsed_time = 0, build_path = []\<rparr>"

definition break_job :: Job where
  "break_job = new_job\<lparr>is_break := True\<rparr>"

section \<open>run_job_synchronously\<close>

record proc_result =
  proc_code :: int
  proc_out :: "string option"
  proc_err :: "string option"
  proc_time :: rat

type_synonym shell = "string \<Rightarrow> string \<Rightarrow> proc_result"

definition VALGRIND_SUPPRESSIONS_FILE :: string where
  "VALGRIND_SUPPRESSIONS_FILE = ''testpy.supp''"

definition job_cmd :: "ns3_config \<Rightarrow> string \<Rightarrow> bool \<Rightarrow> bool \<Rightarrow> string \<Rightarrow> py_error + string" where
  "job_cmd c command grind is_python bpath =
     rbind
       (if is_python then
          rbind (py_index (PYTHON c) 0) (\<lambda>python. Inr (python @ '' '' @ path_join2 (NS3_BASEDIR c) command))
        else if bpath \<noteq> [] then Inr (path_join2 bpath command)
        else Inr (path_join2 (NS3_BUILDDIR c) command))
       (\<lambda>path_cmd.
         Inr (if grind
           then ''valgrind --suppressions='' @ path_join2 (NS3_BASEDIR c) VALGRIND_SUPPRESSIONS_FILE @
             '' --leak-check=full --show-reachable=yes --error-exitcode=2 --errors-for-leak-kinds=all '' @ path_cmd
           else path_cmd))"

definition run_job_synchronously ::
    "ns3_config \<Rightarrow> shell \<Rightarrow> string \<Rightarrow> string \<Rightarrow> bool \<Rightarrow> bool \<Rightarrow> string \<Rightarrow> py_error + proc_result" where
  "run_job_synchronously c run command directory grind is_python bpath =
     rbind (job_cmd c command grind is_python bpath) (\<lambda>cmd.
       let r = run cmd directory in
       Inr (r\<lparr>proc_code := (if proc_out r = None \<or> proc_err r = None then 1 else proc_code r)\<rparr>))"

text \<open>What a worker does with a job that is neither a break nor to be skipped.\<close>

definition execute_job :: "ns3_config \<Rightarrow> options \<Rightarrow> shell \<Rightarrow> Job \<Rightarrow> py_error + Job" where
  "execute_job c opts run job =
     rbind
       (if is_example job \<or> is_pyexample job then
          run_job_synchronously c run (shell_command job) (job_cwd job) (valgrind opts)
            (is_pyexample job) (build_path job)
        else
          run_job_synchronously c run
            (shell_command job @ '' --xml --tempdir='' @ tempdir job @ '' --out='' @ tmp_file_name job @
             '' '' @ (if update_data opts then ''--update-data'' else []))
            (job_cwd job) (valgrind opts) False [])
       (\<lambda>r. Inr (job\<lparr>returncode := proc_code r, elapsed_time := proc_time r\<rparr>))"

section \<open>Which suites\<close>

definition test_runner_name :: "ns3_config \<Rightarrow> string" where
  "test_runner_name c = program_name c ''test-runner''"

text \<open>The standard output of the test runner with the given arguments, decoded.\<close>

definition ask_runner :: "ns3_config \<Rightarrow> shell \<Rightarrow> string \<Rightarrow> string \<Rightarrow> py_error + string" where
  "ask_runner c run cwd args =
     rbind (run_job_synchronously c run (path_join2 ''utils'' (test_runner_name c @ args)) cwd False False [])
       (\<lambda>r. case proc_out r of None \<Rightarrow> Inl (OtherError ''UnicodeDecodeError'') | Some s \<Rightarrow> Inr s)"

definition LIST_ARG :: string where "LIST_ARG = '' --print-test-name-list''"

definition chosen_suites :: "ns3_config \<Rightarrow> options \<Rightarrow> shell \<Rightarrow> string \<Rightarrow> py_error + bool \<times> string" where
  "chosen_suites c opts run cwd =
     (if suite opts \<noteq> [] then
        rbind (ask_runner c run cwd LIST_ARG) (\<lambda>suites.
          let suites_found = fnmatch_filter (split_on NL suites) (suite opts) in
          if suites_found = [] then Inl (SystemExit 2)
          else Inr (length suites_found = 1, join [NL] suites_found))
      else if example opts = [] \<and> pyexample opts = [] then
        rbind (ask_runner c run cwd
            (if constrain opts \<noteq> [] then LIST_ARG @ '' --test-type='' @ constrain opts else LIST_ARG))
          (\<lambda>suites. Inr (False, suites))
      else Inr (False, []))"

definition suite_list :: "ns3_config \<Rightarrow> options \<Rightarrow> shell \<Rightarrow> string \<Rightarrow> py_error + string list" where
  "suite_list c opts run cwd =
     rbind (chosen_suites c opts run cwd) (\<lambda>(single_suite, suites).
       if \<not> single_suite \<and> constrain opts \<noteq> ''performance'' then
         rbind (ask_runner c run cwd (LIST_ARG @ '' --test-type=performance'')) (\<lambda>performance_tests.
           Inr (foldl (\<lambda>l t. if t \<in> set l then remove1 t l else l)
             (split_on NL suites) (split_on NL performance_tests)))
       else Inr (split_on NL suites))"

section \<open>The jobs\<close>

definition suite_job :: "ns3_config \<Rightarrow> options \<Rightarrow> string \<Rightarrow> string \<Rightarrow> string \<Rightarrow> Job" where
  "suite_job c opts out_dir cwd test =
     (let multi = (if multiple opts then [] else '' --stop-on-failure'');
          full = (if fullness opts \<noteq> [] then '' --fullness='' @ map upper_char (fullness opts)
                  else '' --fullness=QUICK'');
          skip = valgrind opts \<and> test \<in> set core_valgrind_skip_tests
      in new_job\<lparr>display_name := test, tmp_file_name := path_join2 out_dir (test @ ''.xml''),
           job_cwd := cwd, basedir := cwd, tempdir := out_dir,
           shell_command := path_join2 ''utils'' (test_runner_name c @ '' --test-name='' @ test @ multi @ full),
           is_skip := skip, skip_reason := (if skip then ''crashes valgrind'' else [])\<rparr>)"

definition suite_jobs :: "ns3_config \<Rightarrow> options \<Rightarrow> string \<Rightarrow> string \<Rightarrow> string list \<Rightarrow> Job list" where
  "suite_jobs c opts out_dir cwd suites =
     map (suite_job c opts out_dir cwd) (filter (\<lambda>t. t \<noteq> []) (map strip suites))"

text \<open>\<open>os.path.basename(test.split(' ', 1)[0])\<close>\<close>

definition test_base :: "string \<Rightarrow> string" where
  "test_base test = basename (hd (split_once (CHR '' '') test))"

definition eval_cond :: "evaluator \<Rightarrow> py_value \<Rightarrow> py_error + bool" where
  "eval_cond ev v = (case v of
     VStr s \<Rightarrow> rbind (ev s) (\<lambda>r. Inr (truthy r)) | _ \<Rightarrow> Inl TypeError)"

definition example_job :: "options \<Rightarrow> string \<Rightarrow> string \<Rightarrow> string \<Rightarrow> string \<Rightarrow> Job" where
  "example_job opts out_dir cwd name command =
     new_job\<lparr>is_example := True, display_name := name, job_cwd := out_dir, basedir := cwd,
       tempdir := out_dir, shell_command := command, build_path := buildpath opts\<rparr>"

definition pyexample_job :: "string \<Rightarrow> string \<Rightarrow> string \<Rightarrow> Job" where
  "pyexample_job out_dir cwd command =
     new_job\<lparr>is_pyexample := True, display_name := command, job_cwd := out_dir, basedir := cwd,
       tempdir := out_dir, shell_command := command\<rparr>"

definition skipped :: "string \<Rightarrow> Job \<Rightarrow> Job" where
  "skipped reason job = job\<lparr>is_skip := True, skip_reason := reason\<rparr>"

definition add_example ::
    "options \<Rightarrow> evaluator \<Rightarrow> (string, string) dict \<Rightarrow> string \<Rightarrow> string \<Rightarrow> Job list \<Rightarrow>
     string \<times> string \<times> py_value \<times> py_value \<Rightarrow> py_error + Job list" where
  "add_example opts ev programs out_dir cwd jobs entry = (case entry of (name, test, do_run, do_valgrind_run) \<Rightarrow>
     if \<not> has_key programs (test_base test) then Inr jobs
     else rbind (eval_cond ev do_run) (\<lambda>run_it.
       if \<not> run_it then Inr jobs
       else let job = example_job opts out_dir cwd name test in
         if valgrind opts then
           rbind (eval_cond ev do_valgrind_run) (\<lambda>ok.
             Inr (jobs @ [if ok then job else skipped ''skip in valgrind runs'' job]))
         else Inr (jobs @ [job])))"

definition add_pyexample ::
    "ns3_config \<Rightarrow> options \<Rightarrow> evaluator \<Rightarrow> string list \<Rightarrow> string \<Rightarrow> string \<Rightarrow> Job list \<Rightarrow>
     string \<times> py_value \<Rightarrow> py_error + Job list" where
  "add_pyexample c opts ev scripts out_dir cwd jobs entry = (case entry of (test, do_run) \<Rightarrow>
     if test_base test \<notin> set scripts then Inr jobs
     else rbind (eval_cond ev do_run) (\<lambda>run_it.
       if \<not> run_it then Inr jobs
       else let job = pyexample_job out_dir cwd test;
                job1 = (if valgrind opts then skipped ''skip in valgrind runs'' job else job);
                job2 = (if \<not> ENABLE_PYTHON_BINDINGS c then skipped ''requires Python bindings'' job1 else job1)
            in Inr (jobs @ [job2])))"

definition nothing_named :: "options \<Rightarrow> bool" where
  "nothing_named opts \<longleftrightarrow> suite opts = [] \<and> example opts = [] \<and> pyexample opts = []"

definition example_jobs ::
    "ns3_config \<Rightarrow> options \<Rightarrow> evaluator \<Rightarrow> (string, string) dict \<Rightarrow> string \<Rightarrow> string \<Rightarrow>
     (string \<times> string \<times> py_value \<times> py_value) list \<Rightarrow> py_error + Job list" where
  "example_jobs c opts ev programs out_dir cwd tests =
     (if nothing_named opts then
        (if (constrain opts = [] \<or> constrain opts = ''example'') \<and> ENABLE_EXAMPLES c
         then rfold (add_example opts ev programs out_dir cwd) [] tests
         else Inr [])
      else if example opts \<noteq> [] then
        Inr (map (\<lambda>key. let path = abspath cwd (the (map_of programs key)) in
                   example_job opts out_dir cwd path path)
               (fnmatch_filter (dkeys programs) (program_name c (example opts))))
      else Inr [])"

definition pyexample_jobs ::
    "ns3_config \<Rightarrow> options \<Rightarrow> evaluator \<Rightarrow> string list \<Rightarrow> string \<Rightarrow> string \<Rightarrow>
     (string \<times> py_value) list \<Rightarrow> py_error + Job list" where
  "pyexample_jobs c opts ev scripts out_dir cwd tests =
     (if nothing_named opts then
        (if (constrain opts = [] \<or> constrain opts = ''pyexample'') \<and> ENABLE_EXAMPLES c
         then rfold (add_pyexample c opts ev scripts out_dir cwd) [] tests
         else Inr [])
      else if pyexample opts \<noteq> [] then
        (if basename (pyexample opts) \<notin> set scripts then Inr []
         else Inr [pyexample_job out_dir cwd (pyexample opts)])
      else Inr [])"

text \<open>Program name to path; a later program of the same base name wins.\<close>

definition programs_dictionary :: "string list \<Rightarrow> (string, string) dict" where
  "programs_dictionary programs = foldl (\<lambda>d p. AList.update (basename p) p d) [] programs"

text \<open>Everything \<open>run_tests\<close> puts on the input queue before the break jobs.\<close>

definition all_jobs ::
    "ns3_config \<Rightarrow> options \<Rightarrow> evaluator \<Rightarrow> shell \<Rightarrow> string list \<Rightarrow> string list \<Rightarrow> string \<Rightarrow> string \<Rightarrow>
     example_lists \<Rightarrow> py_error + Job list" where
  "all_jobs c opts ev run programs scripts out_dir cwd ls =
     rbind (suite_list c opts run cwd) (\<lambda>suites.
     rbind (example_jobs c opts ev (programs_dictionary programs) out_dir cwd (example_tests ls)) (\<lambda>examples.
     rbind (pyexample_jobs c opts ev (map basename scripts) out_dir cwd (python_tests ls)) (\<lambda>pyexamples.
       Inr (suite_jobs c opts out_dir cwd suites @ examples @ pyexamples))))"

section \<open>Which suites run\<close>

lemma remove_one: "(if t \<in> set xs then remove1 t xs else xs) = remove1 t xs"
  by (simp add: remove1_idem)

lemma remove1_filter: "distinct xs \<Longrightarrow> remove1 t xs = filter (\<lambda>x. x \<noteq> t) xs"
  unfolding removeAll_filter_not_eq distinct_remove1_removeAll by (rule filter_cong) auto

lemma remove_all_listed:
  "distinct xs \<Longrightarrow> foldl (\<lambda>l t. if t \<in> set l then remove1 t l else l) xs ts = filter (\<lambda>x. x \<notin> set ts) xs"
proof (induction ts arbitrary: xs)
  case (Cons t ts)
  have "filter (\<lambda>x. x \<notin> set ts) (remove1 t xs) = filter (\<lambda>x. x \<notin> set (t # ts)) xs"
    unfolding remove1_filter [OF Cons.prems] filter_filter by (rule filter_cong) auto
  then show ?case using Cons.IH [of "remove1 t xs"] Cons.prems
    unfolding foldl.simps remove_one by simp
qed simp

lemma filter_one: "distinct xs \<Longrightarrow> filter (\<lambda>n. n = p) xs = (if p \<in> set xs then [p] else [])"
  by (induction xs) auto

lemma remove_from_blank:
  "set (foldl (\<lambda>l t. if t \<in> set l then remove1 t l else l) xs ts) \<subseteq> set xs"
  unfolding remove_one
proof (induction ts arbitrary: xs)
  case (Cons t ts)
  show ?case unfolding foldl.simps
    using Cons.IH [of "remove1 t xs"] set_remove1_subset [of t xs] by (rule order_trans)
qed simp

text \<open>
  Claim C33. With no suite, example or constraint named, the suites are the runner's list in
  its order without its performance tests; a suite named without wildcards is run alone, a
  performance test too, and an unknown one exits with 2; naming only an example runs no suite.
\<close>

theorem suite_list_selects:
  assumes "ask_runner c run cwd LIST_ARG = Inr names"
    and "ask_runner c run cwd (LIST_ARG @ '' --test-type=performance'') = Inr perf"
    and "distinct (split_on NL names)"
  shows "(nothing_named opts \<and> constrain opts = [] \<longrightarrow>
        suite_list c opts run cwd = Inr (filter (\<lambda>t. t \<notin> set (split_on NL perf)) (split_on NL names))) \<and>
    (suite opts \<noteq> [] \<and> no_glob (suite opts) \<longrightarrow>
        suite_list c opts run cwd =
          (if suite opts \<in> set (split_on NL names) then Inr [suite opts] else Inl (SystemExit 2))) \<and>
    (suite opts = [] \<and> (example opts \<noteq> [] \<or> pyexample opts \<noteq> []) \<longrightarrow>
        (\<exists>l. suite_list c opts run cwd = Inr l \<and> suite_jobs c opts out_dir cwd l = []))"
proof (intro conjI impI)
  assume "nothing_named opts \<and> constrain opts = []"
  then show "suite_list c opts run cwd = Inr (filter (\<lambda>t. t \<notin> set (split_on NL perf)) (split_on NL names))"
    using assms by (simp add: suite_list_def chosen_suites_def nothing_named_def remove_all_listed)
next
  assume s: "suite opts \<noteq> [] \<and> no_glob (suite opts)"
  show "suite_list c opts run cwd =
      (if suite opts \<in> set (split_on NL names) then Inr [suite opts] else Inl (SystemExit 2))"
  proof (cases "suite opts \<in> set (split_on NL names)")
    case True
    then have "split_on NL (suite opts) = [suite opts]"
      using split_on_no_sep_in split_on_nosep by metis
    with s assms True show ?thesis
      by (simp add: suite_list_def chosen_suites_def fnmatch_plain filter_one)
  qed (use s assms in \<open>simp add: suite_list_def chosen_suites_def fnmatch_plain filter_one\<close>)
next
  assume "suite opts = [] \<and> (example opts \<noteq> [] \<or> pyexample opts \<noteq> [])"
  then obtain l where l: "suite_list c opts run cwd = Inr l" "set l \<subseteq> {[]}"
    using assms(2) remove_from_blank [of "[[]]" "split_on NL perf"]
    by (cases "constrain opts = ''performance''") (auto simp: suite_list_def chosen_suites_def)
  have "suite_jobs c opts out_dir cwd l = []"
    using l(2) by (auto simp: suite_jobs_def filter_empty_conv strip_def lstrip_def rstrip_def)
  with l show "\<exists>l. suite_list c opts run cwd = Inr l \<and> suite_jobs c opts out_dir cwd l = []" by blast
qed

definition sample_config :: ns3_config where
  "sample_config = \<lparr>NS3_BASEDIR = ''/r'', NS3_BUILDDIR = ''/r/build'', NS3_MODULE_PATH = [],
     APPNAME = ''ns'', VERSION = ''3'', BUILD_PROFILE = ''debug'', PYTHON = [''python3''],
     ENABLE_EXAMPLES = True, ENABLE_TESTS = True, ENABLE_PYTHON_BINDINGS = True, VALGRIND_FOUND = True\<rparr>"

definition sample_shell :: shell where
  "sample_shell cmd cwd = \<lparr>proc_code = 0,
     proc_out = Some (if contains cmd ''performance'' then ''perf'' @ [NL] else join [NL] [''a'', ''perf'', ''b'', []]),
     proc_err = Some [], proc_time = 0\<rparr>"

theorem suite_list_selects_witness:
  "suite_list sample_config default_options sample_shell ''/r'' = Inr [''a'', ''b''] \<and>
   suite_list sample_config (default_options\<lparr>suite := ''perf''\<rparr>) sample_shell ''/r'' = Inr [''perf'']"
proof -
  let ?names = "join [NL] [''a'', ''perf'', ''b'', []]" and ?perf = "''perf'' @ [NL]"
  have a: "ask_runner sample_config sample_shell ''/r'' LIST_ARG = Inr ?names" by code_simp
  have p: "ask_runner sample_config sample_shell ''/r'' (LIST_ARG @ '' --test-type=performance'') = Inr ?perf"
    by code_simp
  have n: "split_on NL ?names = [''a'', ''perf'', ''b'', []]" "split_on NL ?perf = [''perf'', []]" by code_simp+
  then have d: "distinct (split_on NL ?names)" by simp
  show ?thesis
    using suite_list_selects [OF a p d, of default_options]
      suite_list_selects [OF a p d, of "default_options\<lparr>suite := ''perf''\<rparr>"]
    unfolding n by (simp add: nothing_named_def default_options_def no_glob_def)
qed

section \<open>What the jobs are\<close>

definition fresh_job :: "ns3_config \<Rightarrow> options \<Rightarrow> Job \<Rightarrow> bool" where
  "fresh_job c opts j \<longleftrightarrow> \<not> is_break j \<and> \<not> (is_example j \<and> is_pyexample j) \<and> returncode j = 0 \<and>
     (is_skip j \<longrightarrow> valgrind opts \<or> (is_pyexample j \<and> \<not> ENABLE_PYTHON_BINDINGS c))"

lemma suite_jobs_fresh:
  "j \<in> set (suite_jobs c opts out_dir cwd l) \<Longrightarrow>
     fresh_job c opts j \<and> \<not> is_example j \<and> \<not> is_pyexample j \<and> display_name j \<noteq> []"
  by (auto simp: suite_jobs_def suite_job_def new_job_def fresh_job_def Let_def)

definition examples_ok :: "ns3_config \<Rightarrow> options \<Rightarrow> Job list \<Rightarrow> bool" where
  "examples_ok c opts = list_all (\<lambda>j. fresh_job c opts j \<and> is_example j)"

definition pyexamples_ok :: "ns3_config \<Rightarrow> options \<Rightarrow> Job list \<Rightarrow> bool" where
  "pyexamples_ok c opts = list_all (\<lambda>j. fresh_job c opts j \<and> is_pyexample j)"

lemmas job_defs = fresh_job_def example_job_def pyexample_job_def skipped_def new_job_def Let_def

interpretation examples_loop: loop_invariant "add_example opts ev programs out_dir cwd"
    "examples_ok c opts" "\<lambda>_. True"
  for opts ev programs out_dir cwd c
  by unfold_locales
    (auto simp: add_example_def examples_ok_def rbind_iffs job_defs split: if_splits prod.splits)

interpretation pyexamples_loop: loop_invariant "add_pyexample c opts ev scripts out_dir cwd"
    "pyexamples_ok c opts" "\<lambda>_. True"
  for c opts ev scripts out_dir cwd
  by unfold_locales
    (auto simp: add_pyexample_def pyexamples_ok_def rbind_iffs job_defs split: if_splits prod.splits)

lemma example_jobs_fresh:
  assumes "example_jobs c opts ev programs out_dir cwd tests = Inr jobs"
  shows "examples_ok c opts jobs \<and> (jobs \<noteq> [] \<longrightarrow> example opts \<noteq> [] \<or>
    nothing_named opts \<and> constrain opts \<in> {[], ''example''} \<and> ENABLE_EXAMPLES c)"
proof -
  have "examples_ok c opts []" by (simp add: examples_ok_def)
  with assms show ?thesis
    by (auto simp: example_jobs_def split: if_splits dest: examples_loop.run_keeps)
      (auto simp: examples_ok_def list_all_iff job_defs)
qed

lemma pyexample_jobs_fresh:
  assumes "pyexample_jobs c opts ev scripts out_dir cwd tests = Inr jobs"
  shows "pyexamples_ok c opts jobs \<and> (jobs \<noteq> [] \<longrightarrow> pyexample opts \<noteq> [] \<or>
    nothing_named opts \<and> constrain opts \<in> {[], ''pyexample''} \<and> ENABLE_EXAMPLES c)"
proof -
  have "pyexamples_ok c opts []" by (simp add: pyexamples_ok_def)
  with assms show ?thesis
    by (auto simp: pyexample_jobs_def split: if_splits dest: pyexamples_loop.run_keeps)
      (auto simp: pyexamples_ok_def list_all_iff job_defs)
qed

lemma all_jobs_lemma:
  assumes "all_jobs c opts ev run programs scripts out_dir cwd ls = Inr jobs"
  shows "(\<forall>j \<in> set jobs. fresh_job c opts j) \<and>
    ((\<exists>j \<in> set jobs. is_example j) \<longrightarrow> example opts \<noteq> [] \<or>
       nothing_named opts \<and> constrain opts \<in> {[], ''example''} \<and> ENABLE_EXAMPLES c) \<and>
    ((\<exists>j \<in> set jobs. is_pyexample j) \<longrightarrow> pyexample opts \<noteq> [] \<or>
       nothing_named opts \<and> constrain opts \<in> {[], ''pyexample''} \<and> ENABLE_EXAMPLES c)"
proof -
  obtain suites ex py where
    e: "example_jobs c opts ev (programs_dictionary programs) out_dir cwd (example_tests ls) = Inr ex"
    and p: "pyexample_jobs c opts ev (map basename scripts) out_dir cwd (python_tests ls) = Inr py"
    and jobs: "jobs = suite_jobs c opts out_dir cwd suites @ ex @ py"
    using assms by (auto simp: all_jobs_def rbind_iffs)
  have s: "\<forall>j \<in> set (suite_jobs c opts out_dir cwd suites).
      fresh_job c opts j \<and> \<not> is_example j \<and> \<not> is_pyexample j"
    using suite_jobs_fresh by blast
  have "\<forall>j \<in> set ex. fresh_job c opts j \<and> is_example j \<and> \<not> is_pyexample j"
    using example_jobs_fresh [OF e] by (auto simp: examples_ok_def list_all_iff fresh_job_def)
  moreover have "\<forall>j \<in> set py. fresh_job c opts j \<and> is_pyexample j \<and> \<not> is_example j"
    using pyexample_jobs_fresh [OF p] by (auto simp: pyexamples_ok_def list_all_iff fresh_job_def)
  ultimately show ?thesis
    using s example_jobs_fresh [OF e] pyexample_jobs_fresh [OF p] unfolding jobs
    by (intro conjI) (auto simp del: not_None_eq)
qed

lemma all_jobs_fresh:
  "all_jobs c opts ev run programs scripts out_dir cwd ls = Inr jobs \<Longrightarrow> \<forall>j \<in> set jobs. fresh_job c opts j"
  using all_jobs_lemma by blast

text \<open>
  Every queued job is a real job that starts with return code \<open>0\<close>, is at most one
  of C++ and Python example, and is skipped only under valgrind or for missing bindings; C++
  (Python) examples are queued only when one is named, or when nothing is named, the constraint
  is empty or \<open>example\<close> (\<open>pyexample\<close>) and examples are enabled.
\<close>

theorem all_jobs_kinds:
  assumes "all_jobs c opts ev run programs scripts out_dir cwd ls = Inr jobs"
  shows "(\<forall>j \<in> set jobs. fresh_job c opts j) \<and>
    ((\<exists>j \<in> set jobs. is_example j) \<longrightarrow> example opts \<noteq> [] \<or>
       nothing_named opts \<and> constrain opts \<in> {[], ''example''} \<and> ENABLE_EXAMPLES c) \<and>
    ((\<exists>j \<in> set jobs. is_pyexample j) \<longrightarrow> pyexample opts \<noteq> [] \<or>
       nothing_named opts \<and> constrain opts \<in> {[], ''pyexample''} \<and> ENABLE_EXAMPLES c)"
  using all_jobs_lemma [OF assms] .

theorem all_jobs_kinds_witness:
  "all_jobs sample_config (default_options\<lparr>constrain := ''unit''\<rparr>) (\<lambda>s. Inr (VBool True)) sample_shell
      [''/b/ns3-echo-debug''] [] ''/tmp'' ''/r''
      \<lparr>example_tests = [(''echo'', ''/b/ns3-echo-debug'', VStr ''True'', VStr ''True'')],
       example_names_original = [''echo''], python_tests = []\<rparr> =
    Inr (suite_jobs sample_config default_options ''/tmp'' ''/r'' [''a'', ''b'']) \<and>
   \<not> (\<exists>j \<in> set (suite_jobs sample_config default_options ''/tmp'' ''/r'' [''a'', ''b'']). is_example j)"
proof -
  let ?ls = "\<lparr>example_tests = [(''echo'', ''/b/ns3-echo-debug'', VStr ''True'', VStr ''True'')],
       example_names_original = [''echo''], python_tests = []\<rparr>"
  have h: "all_jobs sample_config (default_options\<lparr>constrain := ''unit''\<rparr>) (\<lambda>s. Inr (VBool True)) sample_shell
      [''/b/ns3-echo-debug''] [] ''/tmp'' ''/r'' ?ls =
    Inr (suite_jobs sample_config default_options ''/tmp'' ''/r'' [''a'', ''b''])" by code_simp
  from h all_jobs_kinds [OF h] show ?thesis by (simp add: default_options_def)
qed

end
