(* ===== verification/Test_Collect.thy ===== *)
theory Test_Collect
  imports Test_Jobs "HOL-Library.List_Lexorder" "HOL-Library.Char_ord"
begin

text \<open>
  \<^verbatim>\<open>test.py\<close>: what \<open>run_tests\<close> does with the finished jobs. \<open>account\<close> is the body of the
  loop that takes jobs off the output queue (the counters and name lists, the progress line,
  the entry in the XML results file); \<open>summary\<close> is the text printed at the end and
  \<open>exit_code\<close> the value returned. The results files the suites leave are the argument \<open>tmp\<close>.
\<close>

section \<open>Colours and numbers\<close>

definition colors_lst :: "(string \<times> string) list" where
  "colors_lst =
     [(''BOLD'', CHR 0x1B # ''[01;1m''), (''RED'', CHR 0x1B # ''[01;31m''), (''GREEN'', CHR 0x1B # ''[32m''),
      (''YELLOW'', CHR 0x1B # ''[33m''), (''PINK'', CHR 0x1B # ''[35m''), (''BLUE'', CHR 0x1B # ''[01;34m''),
      (''CYAN'', CHR 0x1B # ''[36m''), (''GREY'', CHR 0x1B # ''[37m''), (''NORMAL'', CHR 0x1B # ''[0m''),
      (''cursor_on'', CHR 0x1B # ''[?25h''), (''cursor_off'', CHR 0x1B # ''[?25l'')]"

definition get_color :: "bool \<Rightarrow> string \<Rightarrow> string" where
  "get_color use cl = (if use then dget_or [] cl colors_lst else [])"

text \<open>\<open>main\<close>: \<open>os.environ.get('NOCOLOR','') and 'no' or 'auto' or 'yes'\<close>\<close>

definition use_colors :: "options \<Rightarrow> environ \<Rightarrow> bool" where
  "use_colors opts env =
     (let envcolor = (if dget_or [] ''NOCOLOR'' env \<noteq> [] then ''no'' else ''auto'')
      in \<not> (nocolor opts \<or> envcolor = ''no''))"

text \<open>\<open>"%.3f"\<close>: thousandths, a tie going to the even one.\<close>

definition round_even :: "rat \<Rightarrow> int" where
  "round_even x =
     (let n = floor x; d = x - of_int n in
      if d < 1 / 2 then n else if d > 1 / 2 then n + 1 else if even n then n else n + 1)"

definition show_3f :: "rat \<Rightarrow> string" where
  "show_3f x =
     (let n = nat (round_even (\<bar>x\<bar> * 1000)); f = n mod 1000 in
      (if x < 0 then ''-'' else []) @ show_nat (n div 1000) @ ''.'' @
      [digit_char (f div 100), digit_char (f div 10 mod 10), digit_char (f mod 10)])"

section \<open>One finished job\<close>

datatype status = PASS | FAIL | VALGR | CRASH | SKIP

fun status_text :: "status \<Rightarrow> string" where
  "status_text PASS = ''PASS''"
| "status_text FAIL = ''FAIL''"
| "status_text VALGR = ''VALGR''"
| "status_text CRASH = ''CRASH''"
| "status_text SKIP = ''SKIP''"

fun status_color :: "status \<Rightarrow> string" where
  "status_color PASS = ''GREEN''"
| "status_color FAIL = ''RED''"
| "status_color VALGR = ''CYAN''"
| "status_color CRASH = ''PINK''"
| "status_color SKIP = ''GREY''"

definition status_of :: "Job \<Rightarrow> status" where
  "status_of job =
     (if is_skip job then SKIP
      else if returncode job = 0 then PASS
      else if returncode job = 1 then FAIL
      else if returncode job = 2 then VALGR
      else CRASH)"

record tally =
  passed_tests :: int
  failed_tests :: int
  skipped_tests :: int
  crashed_tests :: int
  valgrind_errors :: int
  skipped_testnames :: "string list"
  failed_testnames :: "string list"
  crashed_testnames :: "string list"
  valgrind_testnames :: "string list"
  printed :: "string list"
  xml_results :: string

definition empty_tally :: tally where
  "empty_tally = \<lparr>passed_tests = 0, failed_tests = 0, skipped_tests = 0, crashed_tests = 0,
     valgrind_errors = 0, skipped_testnames = [], failed_testnames = [], crashed_testnames = [],
     valgrind_testnames = [], printed = [],
     xml_results = ''<?xml version=\"1.0\"?>'' @ [NL] @ ''<Results>'' @ [NL]\<rparr>"

fun count_status :: "status \<Rightarrow> Job \<Rightarrow> tally \<Rightarrow> tally" where
  "count_status PASS job st = st\<lparr>passed_tests := passed_tests st + 1\<rparr>"
| "count_status FAIL job st = st\<lparr>failed_tests := failed_tests st + 1,
     failed_testnames := failed_testnames st @ [display_name job]\<rparr>"
| "count_status VALGR job st = st\<lparr>valgrind_errors := valgrind_errors st + 1,
     valgrind_testnames := valgrind_testnames st @ [display_name job]\<rparr>"
| "count_status CRASH job st = st\<lparr>crashed_tests := crashed_tests st + 1,
     crashed_testnames := crashed_testnames st @ [display_name job]\<rparr>"
| "count_status SKIP job st = st\<lparr>skipped_tests := skipped_tests st + 1,
     skipped_testnames := skipped_testnames st @ [display_name job @ '' ('' @ skip_reason job @ '')'']\<rparr>"

definition kind_of :: "Job \<Rightarrow> string" where
  "kind_of job = (if is_example job \<or> is_pyexample job then ''Example'' else ''TestSuite'')"

text \<open>\<open>"[%d/%d]"\<close> and the line after it; valgrind errors are not in the first number.\<close>

definition progress_line :: "options \<Rightarrow> bool \<Rightarrow> int \<Rightarrow> tally \<Rightarrow> Job \<Rightarrow> string" where
  "progress_line opts use total_tests st job =
     (let status = status_of job;
          status_print = get_color use (status_color status) @ status_text status @ get_color use ''NORMAL'';
          time = (if duration opts \<or> constrain opts = ''performance''
                  then '' ('' @ show_3f (elapsed_time job) @ '')'' else [])
      in ''['' @ show_int (passed_tests st + failed_tests st + skipped_tests st + crashed_tests st) @ ''/'' @
         show_int total_tests @ ''] '' @ status_print @ time @ '': '' @ kind_of job @ '' '' @ display_name job)"

definition example_entry :: "Job \<Rightarrow> string" where
  "example_entry job =
     ''<Example>'' @ [NL] @ ''  <Name>'' @ display_name job @ ''</Name>'' @ [NL] @
     ''  <Result>'' @ status_text (status_of job) @ ''</Result>'' @ [NL] @
     ''  <Time real=\"'' @ show_3f (elapsed_time job) @ ''\"/>'' @ [NL] @ ''</Example>'' @ [NL]"

definition skip_entry :: "Job \<Rightarrow> string" where
  "skip_entry job =
     ''<Test>'' @ [NL] @ ''  <Name>'' @ display_name job @ ''</Name>'' @ [NL] @
     ''  <Result>SKIP</Result>'' @ [NL] @ ''  <Reason>'' @ skip_reason job @ ''</Reason>'' @ [NL] @
     ''</Test>'' @ [NL]"

definition crash_entry :: "Job \<Rightarrow> string" where
  "crash_entry job =
     ''<Test>'' @ [NL] @ ''  <Name>'' @ display_name job @ ''</Name>'' @ [NL] @
     ''  <Result>CRASH</Result>'' @ [NL] @ ''</Test>'' @ [NL]"

definition job_entry :: "files \<Rightarrow> Job \<Rightarrow> py_error + string" where
  "job_entry tmp job =
     (if is_example job \<or> is_pyexample job then Inr (example_entry job)
      else if is_skip job then Inr (skip_entry job)
      else if returncode job = 0 \<or> returncode job = 1 \<or> returncode job = 2 then
        (case tmp (tmp_file_name job) of
           None \<Rightarrow> Inl (OtherError ''FileNotFoundError'') | Some s \<Rightarrow> Inr s)
      else Inr (crash_entry job))"

definition account :: "options \<Rightarrow> bool \<Rightarrow> int \<Rightarrow> files \<Rightarrow> tally \<Rightarrow> Job \<Rightarrow> py_error + tally" where
  "account opts use total_tests tmp st job =
     (if is_break job then Inr st
      else
        let st1 = count_status (status_of job) job st;
            st2 = st1\<lparr>printed := printed st1 @ [progress_line opts use total_tests st1 job]\<rparr>
        in rbind (job_entry tmp job) (\<lambda>entry. Inr (st2\<lparr>xml_results := xml_results st2 @ entry\<rparr>)))"

section \<open>The summary\<close>

definition name_list :: "string \<Rightarrow> string list \<Rightarrow> string list" where
  "name_list title names =
     (if names = [] then [] else [title @ [NL] @ ''    '' @ join (NL # ''    '') (sort names)])"

definition summary :: "int \<Rightarrow> tally \<Rightarrow> string list" where
  "summary total_tests st =
     [show_int (passed_tests st) @ '' of '' @ show_int total_tests @ '' tests passed ('' @
      show_int (passed_tests st) @ '' passed, '' @ show_int (skipped_tests st) @ '' skipped, '' @
      show_int (failed_tests st) @ '' failed, '' @ show_int (crashed_tests st) @ '' crashed, '' @
      show_int (valgrind_errors st) @ '' valgrind errors)''] @
     name_list ''List of SKIPped tests:'' (skipped_testnames st) @
     name_list ''List of FAILed tests:'' (failed_testnames st) @
     name_list ''List of CRASHed tests:'' (crashed_testnames st) @
     name_list ''List of VALGR failures:'' (valgrind_testnames st)"

definition exit_code :: "int \<Rightarrow> tally \<Rightarrow> int" where
  "exit_code total_tests st = (if passed_tests st + skipped_tests st = total_tests then 0 else 1)"

section \<open>What the counters count\<close>

definition with_status :: "status \<Rightarrow> Job list \<Rightarrow> Job list" where
  "with_status s js = filter (\<lambda>j. \<not> is_break j \<and> status_of j = s) js"

definition names_with :: "status \<Rightarrow> Job list \<Rightarrow> string list" where
  "names_with s js = map (\<lambda>j. display_name j @
     (if s = SKIP then '' ('' @ skip_reason j @ '')'' else [])) (with_status s js)"

definition counts_of :: "Job list \<Rightarrow> tally \<Rightarrow> bool" where
  "counts_of js st \<longleftrightarrow>
     passed_tests st = int (length (with_status PASS js)) \<and>
     failed_tests st = int (length (with_status FAIL js)) \<and>
     skipped_tests st = int (length (with_status SKIP js)) \<and>
     crashed_tests st = int (length (with_status CRASH js)) \<and>
     valgrind_errors st = int (length (with_status VALGR js)) \<and>
     skipped_testnames st = names_with SKIP js \<and> failed_testnames st = names_with FAIL js \<and>
     crashed_testnames st = names_with CRASH js \<and> valgrind_testnames st = names_with VALGR js"

lemma with_status_snoc:
  "with_status s (js @ [j]) = with_status s js @ (if \<not> is_break j \<and> status_of j = s then [j] else [])"
  by (simp add: with_status_def)

lemma count_status_counts:
  assumes "counts_of js st" "\<not> is_break j"
  shows "counts_of (js @ [j]) (count_status (status_of j) j st)"
  using assms by (cases "status_of j") (simp_all add: counts_of_def names_with_def with_status_snoc)

lemma counts_of_output [simp]:
  "counts_of js (st\<lparr>printed := p\<rparr>) = counts_of js st"
  "counts_of js (st\<lparr>xml_results := x\<rparr>) = counts_of js st"
  by (simp_all add: counts_of_def)

lemma counts_of_break: "is_break j \<Longrightarrow> counts_of (js @ [j]) st = counts_of js st"
  by (simp add: counts_of_def names_with_def with_status_snoc)

lemma account_counts:
  "counts_of js st \<Longrightarrow> account opts use total_tests tmp st j = Inr st' \<Longrightarrow> counts_of (js @ [j]) st'"
  by (auto simp: account_def rbind_iffs Let_def counts_of_break count_status_counts split: if_splits)

lemma account_run:
  "counts_of js st \<Longrightarrow> rfold (account opts use total_tests tmp) st ks = Inr st' \<Longrightarrow> counts_of (js @ ks) st'"
proof (induction ks arbitrary: js st)
  case (Cons k ks)
  then obtain st1 where "account opts use total_tests tmp st k = Inr st1"
    "rfold (account opts use total_tests tmp) st1 ks = Inr st'" by (auto simp: rbind_iffs)
  from Cons.IH [OF account_counts [OF Cons.prems(1) this(1)] this(2)] show ?case by simp
qed simp

lemma counts_of_empty: "counts_of [] empty_tally"
  by (simp add: counts_of_def empty_tally_def names_with_def with_status_def)

lemma collected_counts:
  "rfold (account opts use total_tests tmp) empty_tally js = Inr st \<Longrightarrow> counts_of js st"
  using account_run [OF counts_of_empty] by fastforce

lemma status_partition:
  "length (with_status PASS js) + length (with_status FAIL js) + length (with_status SKIP js) +
   length (with_status CRASH js) + length (with_status VALGR js) = length (filter (\<lambda>j. \<not> is_break j) js)"
proof (induction js)
  case (Cons j js)
  then show ?case by (cases "status_of j") (auto simp: with_status_def)
qed (simp add: with_status_def)

text \<open>The loop raises only for a missing results file.\<close>

definition has_entry :: "files \<Rightarrow> Job \<Rightarrow> bool" where
  "has_entry tmp j \<longleftrightarrow> is_break j \<or> is_example j \<or> is_pyexample j \<or> is_skip j \<or>
     returncode j \<notin> {0, 1, 2} \<or> tmp (tmp_file_name j) \<noteq> None"

lemma account_total: "has_entry tmp j \<longleftrightarrow> (\<exists>st'. account opts use total_tests tmp st j = Inr st')"
  by (auto simp: has_entry_def account_def job_entry_def Let_def rbind_iffs split: option.splits)

lemma collect_total:
  "(\<forall>j \<in> set js. has_entry tmp j) \<longleftrightarrow> (\<exists>st'. rfold (account opts use total_tests tmp) st js = Inr st')"
proof (induction js arbitrary: st)
  case (Cons j js)
  have "(\<exists>st'. rfold (account opts use total_tests tmp) st (j # js) = Inr st') \<longleftrightarrow>
      (\<exists>st1. account opts use total_tests tmp st j = Inr st1 \<and>
        (\<exists>st'. rfold (account opts use total_tests tmp) st1 js = Inr st'))" by (auto simp: rbind_iffs)
  also have "\<dots> \<longleftrightarrow> (\<exists>st1. account opts use total_tests tmp st j = Inr st1) \<and> (\<forall>j \<in> set js. has_entry tmp j)"
    using Cons.IH by blast
  finally show ?case using account_total [of tmp j opts use total_tests st] by auto
qed simp

text \<open>
  Claim C31. Each counter is the number of non-break jobs of its status, the five counters add
  up to the number of non-break jobs, and the name lists are the display names in the order
  of arrival; the loop fails exactly when the results file of a suite that returned \<open>0\<close>, \<open>1\<close>
  or \<open>2\<close> is missing.
\<close>

theorem collect_counts:
  "(\<forall>st. rfold (account opts use total_tests tmp) empty_tally js = Inr st \<longrightarrow> counts_of js st \<and>
     passed_tests st + failed_tests st + skipped_tests st + crashed_tests st + valgrind_errors st =
       int (length (filter (\<lambda>j. \<not> is_break j) js))) \<and>
   ((\<exists>e. rfold (account opts use total_tests tmp) empty_tally js = Inl e) \<longleftrightarrow>
     (\<exists>j \<in> set js. \<not> is_break j \<and> \<not> is_example j \<and> \<not> is_pyexample j \<and> \<not> is_skip j \<and>
        returncode j \<in> {0, 1, 2} \<and> tmp (tmp_file_name j) = None))"
proof (intro conjI allI impI)
  fix st assume "rfold (account opts use total_tests tmp) empty_tally js = Inr st"
  from collected_counts [OF this] status_partition [of js]
  show "counts_of js st" "passed_tests st + failed_tests st + skipped_tests st + crashed_tests st +
      valgrind_errors st = int (length (filter (\<lambda>j. \<not> is_break j) js))"
    by (simp_all add: counts_of_def)
next
  have "(\<exists>e. r = Inl e) \<longleftrightarrow> \<not> (\<exists>x. r = Inr x)" for r :: "py_error + tally" by (cases r) auto
  from this [of "rfold (account opts use total_tests tmp) empty_tally js"]
  have "(\<exists>e. rfold (account opts use total_tests tmp) empty_tally js = Inl e) \<longleftrightarrow>
      \<not> (\<forall>j \<in> set js. has_entry tmp j)" unfolding collect_total [symmetric] .
  then show "(\<exists>e. rfold (account opts use total_tests tmp) empty_tally js = Inl e) \<longleftrightarrow>
     (\<exists>j \<in> set js. \<not> is_break j \<and> \<not> is_example j \<and> \<not> is_pyexample j \<and> \<not> is_skip j \<and>
        returncode j \<in> {0, 1, 2} \<and> tmp (tmp_file_name j) = None)"
    by (auto simp: has_entry_def)
qed

theorem collect_counts_witness:
  "counts_of [new_job\<lparr>is_example := True, returncode := 139\<rparr>]
    (count_status CRASH (new_job\<lparr>is_example := True, returncode := 139\<rparr>) empty_tally
      \<lparr>printed := [''[1/1] CRASH: Example ''],
       xml_results := xml_results empty_tally @ example_entry (new_job\<lparr>is_example := True, returncode := 139\<rparr>)\<rparr>)"
proof -
  let ?j = "new_job\<lparr>is_example := True, returncode := 139\<rparr>"
  have "rfold (account default_options False 1 (\<lambda>_. None)) empty_tally [?j] =
    Inr (count_status CRASH ?j empty_tally\<lparr>printed := [''[1/1] CRASH: Example ''],
       xml_results := xml_results empty_tally @ example_entry ?j\<rparr>)" by code_simp
  with collect_counts [of default_options False 1 "\<lambda>_. None" "[?j]"] show ?thesis by blast
qed

text \<open>The order in which the workers hand the jobs back does not matter.\<close>

lemma with_status_mset: "mset js = mset ks \<Longrightarrow> mset (with_status s js) = mset (with_status s ks)"
  by (simp add: with_status_def mset_filter)

lemma names_with_mset: "mset js = mset ks \<Longrightarrow> mset (names_with s js) = mset (names_with s ks)"
  using with_status_mset [of js ks s] by (simp add: names_with_def)

lemma counts_of_mset:
  assumes "counts_of js st" "counts_of ks st'" "mset js = mset ks"
  shows "summary total_tests st = summary total_tests st' \<and> exit_code total_tests st = exit_code total_tests st'"
proof -
  have l: "length (with_status s js) = length (with_status s ks)" for s
    using with_status_mset [OF assms(3), of s] by (metis size_mset)
  have n: "name_list t (names_with s js) = name_list t (names_with s ks)" for t s
    using names_with_mset [OF assms(3), of s] by (auto simp: name_list_def dest: properties_for_sort mset_eq_setD)
      (metis properties_for_sort sorted_sort mset_sort)
  show ?thesis using assms(1,2) by (simp add: counts_of_def summary_def exit_code_def l n)
qed

text \<open>
  Claim C32. Two runs in which the same finished jobs arrive in different orders print the same
  summary and exit with the same code.
\<close>

theorem collect_order_independent:
  assumes "rfold (account opts use total_tests tmp) empty_tally js = Inr st" "mset js = mset ks"
  shows "\<exists>st'. rfold (account opts use total_tests tmp) empty_tally ks = Inr st' \<and>
    summary total_tests st' = summary total_tests st \<and> exit_code total_tests st' = exit_code total_tests st"
proof -
  have "\<forall>j \<in> set ks. has_entry tmp j"
    using collect_total assms by (metis mset_eq_setD)
  then obtain st' where "rfold (account opts use total_tests tmp) empty_tally ks = Inr st'"
    using collect_total by blast
  with counts_of_mset [OF collected_counts collected_counts] assms show ?thesis by metis
qed

theorem collect_order_independent_witness:
  "\<exists>st'. rfold (account default_options False 2 (\<lambda>_. None)) empty_tally
      [new_job\<lparr>is_example := True, display_name := ''b'', returncode := 1\<rparr>,
       new_job\<lparr>is_example := True, display_name := ''a'', returncode := 1\<rparr>] = Inr st' \<and>
    summary 2 st' = [''0 of 2 tests passed (0 passed, 0 skipped, 2 failed, 0 crashed, 0 valgrind errors)'',
      ''List of FAILed tests:'' @ [NL] @ ''    a'' @ [NL] @ ''    b'']"
proof -
  let ?a = "new_job\<lparr>is_example := True, display_name := ''a'', returncode := 1\<rparr>"
  let ?b = "new_job\<lparr>is_example := True, display_name := ''b'', returncode := 1\<rparr>"
  obtain st where st: "rfold (account default_options False 2 (\<lambda>_. None)) empty_tally [?a, ?b] = Inr st"
    using collect_total [THEN iffD1, of "[?a, ?b]"] by (force simp: has_entry_def)
  have m: "mset [?a, ?b] = mset [?b, ?a]" by simp
  have c: "(case rfold (account default_options False 2 (\<lambda>_. None)) empty_tally [?a, ?b] of
      Inl e \<Rightarrow> [] | Inr st \<Rightarrow> summary 2 st) =
    [''0 of 2 tests passed (0 passed, 0 skipped, 2 failed, 0 crashed, 0 valgrind errors)'',
      ''List of FAILed tests:'' @ [NL] @ ''    a'' @ [NL] @ ''    b'']" by code_simp
  from collect_order_independent [OF st m] show ?thesis using c unfolding st sum.case by metis
qed

lemma all_pass: "length (filter P xs) = length xs \<longleftrightarrow> (\<forall>x \<in> set xs. P x)"
proof (induction xs)
  case (Cons x xs)
  then show ?case using le_imp_less_Suc [OF length_filter_le [of P xs]] by (cases "P x") auto
qed simp

lemma exit_zero_lemma:
  assumes "rfold (account opts use total_tests tmp) empty_tally js = Inr st"
    and "int (length js) \<le> total_tests"
  shows "exit_code total_tests st = 0 \<longleftrightarrow>
    total_tests = int (length js) \<and> (\<forall>j \<in> set js. \<not> is_break j \<and> (is_skip j \<or> returncode j = 0))"
proof -
  let ?good = "\<lambda>j. \<not> is_break j \<and> (is_skip j \<or> returncode j = 0)"
  have "length (with_status PASS js) + length (with_status SKIP js) = length (filter ?good js)"
    by (induction js) (auto simp: with_status_def status_of_def)
  moreover have "length (filter ?good js) \<le> length js" by (rule length_filter_le)
  moreover have "length (filter ?good js) = length js \<longleftrightarrow> (\<forall>j \<in> set js. ?good j)"
    by (rule all_pass)
  moreover have "passed_tests st = int (length (with_status PASS js))"
    "skipped_tests st = int (length (with_status SKIP js))"
    using collected_counts [OF assms(1)] by (auto simp: counts_of_def)
  ultimately have e: "passed_tests st + skipped_tests st = int (length (filter ?good js))"
    "length (filter ?good js) \<le> length js"
    "length (filter ?good js) = length js \<longleftrightarrow> (\<forall>j \<in> set js. ?good j)" by linarith+
  then have "passed_tests st + skipped_tests st = total_tests \<longleftrightarrow>
      total_tests = int (length js) \<and> length (filter ?good js) = length js"
    using assms(2) by linarith
  then show ?thesis using e(3) by (simp add: exit_code_def)
qed

text \<open>
  With \<open>total_tests\<close> at least the number of finished jobs (it counts every queued job), the
  exit code is \<open>0\<close> exactly when no queued job was dropped by an interrupt and every one passed
  or was skipped.
\<close>

theorem exit_code_zero:
  assumes "rfold (account opts use total_tests tmp) empty_tally js = Inr st"
    and "int (length js) \<le> total_tests"
  shows "exit_code total_tests st = 0 \<longleftrightarrow>
    total_tests = int (length js) \<and> (\<forall>j \<in> set js. \<not> is_break j \<and> (is_skip j \<or> returncode j = 0))"
  using exit_zero_lemma [OF assms] .

theorem exit_code_zero_witness:
  "\<exists>st. rfold (account default_options False 1 (\<lambda>_. None)) empty_tally [new_job\<lparr>is_skip := True\<rparr>] = Inr st \<and>
     exit_code 1 st = 0"
proof -
  obtain st where st: "rfold (account default_options False 1 (\<lambda>_. None)) empty_tally
      [new_job\<lparr>is_skip := True\<rparr>] = Inr st"
    using collect_total [THEN iffD1, of "[new_job\<lparr>is_skip := True\<rparr>]"] by (force simp: has_entry_def)
  from st exit_code_zero [OF st] show ?thesis by (simp add: new_job_def)
qed

end
