(* ===== verification/Test_Workers.thy ===== *)
theory Test_Workers
  imports Transitions Test_Collect
begin

text \<open>
  \<^verbatim>\<open>test.py\<close>: the worker threads (\<open>worker_thread.run\<close>), the main thread of \<open>run_tests\<close> from
  the dispatch of the jobs to the exit code, and \<open>sigint_hook\<close>, as one step relation over the
  shared state: the two queues, what each worker is doing, where the main thread is, and the
  global \<open>thread_exit\<close>. One step is one queue operation, one test of \<open>thread_exit\<close>, the end of
  one child process, or the signal; steps of different threads interleave freely.
\<close>

section \<open>The state\<close>

datatype worker =
    Getting                 \<comment> \<open>in \<open>input_queue.get()\<close>\<close>
  | Holding Job             \<comment> \<open>has taken a job, nothing tested yet\<close>
  | Running Job             \<comment> \<open>past the test of \<open>thread_exit\<close>, the child process is running\<close>
  | Stopped                 \<comment> \<open>returned from \<open>run\<close>\<close>
  | Dead py_error           \<comment> \<open>an exception left \<open>run\<close>\<close>

datatype main_thread =
    Dispatching "Job list"  \<comment> \<open>the jobs and break jobs still to be put on the input queue\<close>
  | Collecting nat tally    \<comment> \<open>how many jobs are still to be taken off the output queue\<close>
  | Joining nat tally       \<comment> \<open>in \<open>threads[i].join()\<close>\<close>
  | Exited int
  | Raised py_error

record sys =
  main :: main_thread
  input_queue :: "Job list"
  output_queue :: "Job list"
  workers :: "worker list"
  thread_exit :: bool

text \<open>What does not change while the jobs run.\<close>

record run_env =
  cfg :: ns3_config
  opts :: options
  shell :: shell
  tmp :: files
  use_color :: bool
  total_jobs :: nat

abbreviation finish :: "run_env \<Rightarrow> Job \<Rightarrow> py_error + Job" where
  "finish E \<equiv> execute_job (cfg E) (opts E) (shell E)"

abbreviation take_account :: "run_env \<Rightarrow> tally \<Rightarrow> Job \<Rightarrow> py_error + tally" where
  "take_account E \<equiv> account (opts E) (use_color E) (int (total_jobs E)) (tmp E)"

text \<open>
  The number of threads: \<open>processors\<close> unless \<open>--jobs\<close> gives a smaller number; a negative one
  makes \<open>range\<close> empty.
\<close>

definition thread_count :: "int \<Rightarrow> int \<Rightarrow> nat" where
  "thread_count processors limit =
     nat (if limit \<noteq> 0 \<and> \<not> processors < limit then limit else processors)"

definition start_state :: "Job list \<Rightarrow> nat \<Rightarrow> sys" where
  "start_state jobs n = \<lparr>main = Dispatching (jobs @ replicate n break_job), input_queue = [],
     output_queue = [], workers = replicate n Getting, thread_exit = False\<rparr>"

definition set_worker :: "nat \<Rightarrow> worker \<Rightarrow> sys \<Rightarrow> sys" where
  "set_worker i w s = s\<lparr>workers := (workers s)[i := w]\<rparr>"

definition put_result :: "Job \<Rightarrow> sys \<Rightarrow> sys" where
  "put_result j s = s\<lparr>output_queue := output_queue s @ [j]\<rparr>"

section \<open>The steps\<close>

inductive step :: "run_env \<Rightarrow> sys \<Rightarrow> sys \<Rightarrow> bool" for E :: run_env where
  dispatch: "main s = Dispatching (j # js) \<Longrightarrow>
    step E s (s\<lparr>main := Dispatching js, input_queue := input_queue s @ [j]\<rparr>)"
| dispatched: "main s = Dispatching [] \<Longrightarrow> step E s (s\<lparr>main := Collecting (total_jobs E) empty_tally\<rparr>)"
| collect: "main s = Collecting (Suc k) st \<Longrightarrow> output_queue s = j # js \<Longrightarrow> take_account E st j = Inr st' \<Longrightarrow>
    step E s (s\<lparr>main := Collecting k st', output_queue := js\<rparr>)"
| collect_error: "main s = Collecting (Suc k) st \<Longrightarrow> output_queue s = j # js \<Longrightarrow>
    take_account E st j = Inl e \<Longrightarrow> step E s (s\<lparr>main := Raised e, output_queue := js\<rparr>)"
| collected: "main s = Collecting 0 st \<Longrightarrow> step E s (s\<lparr>main := Joining 0 st\<rparr>)"
| join: "main s = Joining i st \<Longrightarrow> i < length (workers s) \<Longrightarrow>
    workers s ! i = Stopped \<or> (\<exists>e. workers s ! i = Dead e) \<Longrightarrow>
    step E s (s\<lparr>main := Joining (Suc i) st\<rparr>)"
| leave: "main s = Joining i st \<Longrightarrow> i = length (workers s) \<Longrightarrow>
    step E s (s\<lparr>main := Exited (exit_code (int (total_jobs E)) st)\<rparr>)"
| get: "i < length (workers s) \<Longrightarrow> workers s ! i = Getting \<Longrightarrow> input_queue s = j # js \<Longrightarrow>
    step E s (set_worker i (Holding j) (s\<lparr>input_queue := js\<rparr>))"
| stop: "i < length (workers s) \<Longrightarrow> workers s ! i = Holding j \<Longrightarrow> is_break j \<Longrightarrow>
    step E s (set_worker i Stopped s)"
| interrupted: "i < length (workers s) \<Longrightarrow> workers s ! i = Holding j \<Longrightarrow> \<not> is_break j \<Longrightarrow>
    thread_exit s \<Longrightarrow> step E s (set_worker i Getting (put_result (j\<lparr>is_break := True\<rparr>) s))"
| skip: "i < length (workers s) \<Longrightarrow> workers s ! i = Holding j \<Longrightarrow> \<not> is_break j \<Longrightarrow>
    \<not> thread_exit s \<Longrightarrow> is_skip j \<Longrightarrow> step E s (set_worker i Getting (put_result j s))"
| launch: "i < length (workers s) \<Longrightarrow> workers s ! i = Holding j \<Longrightarrow> \<not> is_break j \<Longrightarrow>
    \<not> thread_exit s \<Longrightarrow> \<not> is_skip j \<Longrightarrow> step E s (set_worker i (Running j) s)"
| finished: "i < length (workers s) \<Longrightarrow> workers s ! i = Running j \<Longrightarrow> finish E j = Inr j' \<Longrightarrow>
    step E s (set_worker i Getting (put_result j' s))"
| died: "i < length (workers s) \<Longrightarrow> workers s ! i = Running j \<Longrightarrow> finish E j = Inl e \<Longrightarrow>
    step E s (set_worker i (Dead e) s)"
| sigint: "\<not> thread_exit s \<Longrightarrow> step E s (s\<lparr>thread_exit := True\<rparr>)"

inductive_simps step_iff: "step E s t"

abbreviation run_of :: "run_env \<Rightarrow> sys \<Rightarrow> sys \<Rightarrow> bool" where
  "run_of E \<equiv> (step E)\<^sup>*\<^sup>*"

lemmas sys_defs = set_worker_def put_result_def

section \<open>Every run ends\<close>

fun worker_weight :: "worker \<Rightarrow> nat" where
  "worker_weight (Holding j) = 3"
| "worker_weight (Running j) = 2"
| "worker_weight _ = 0"

fun main_weight :: "nat \<Rightarrow> main_thread \<Rightarrow> nat" where
  "main_weight n (Dispatching js) = n + 3 + 5 * length js"
| "main_weight n (Collecting k st) = n + 2"
| "main_weight n (Joining i st) = n + 1 - i"
| "main_weight n _ = 0"

definition weight :: "sys \<Rightarrow> nat" where
  "weight s = main_weight (length (workers s)) (main s) + 4 * length (input_queue s) +
     length (output_queue s) + sum_list (map worker_weight (workers s)) +
     (if thread_exit s then 0 else 1)"

lemma weight_worker:
  assumes "i < length (workers s)"
  shows "weight (set_worker i w s) + worker_weight (workers s ! i) = weight s + worker_weight w"
  using sum_list_upd [OF assms, of worker_weight w] by (simp add: weight_def set_worker_def)

lemma step_weight: "step E s t \<Longrightarrow> weight t < weight s"
proof (induction rule: step.induct)
  case (get i s j js)
  then show ?case using weight_worker [of i "s\<lparr>input_queue := js\<rparr>" "Holding j"] by (simp add: weight_def)
next
  case (stop i s j)
  then show ?case using weight_worker [of i s Stopped] by simp
next
  case (interrupted i s j)
  then show ?case using weight_worker [of i "put_result (j\<lparr>is_break := True\<rparr>) s" Getting]
    by (simp add: weight_def put_result_def)
next
  case (skip i s j)
  then show ?case using weight_worker [of i "put_result j s" Getting]
    by (simp add: weight_def put_result_def)
next
  case (launch i s j)
  then show ?case using weight_worker [of i s "Running j"] by simp
next
  case (finished i s j j')
  then show ?case using weight_worker [of i "put_result j' s" Getting]
    by (simp add: weight_def put_result_def)
next
  case (died i s j e)
  then show ?case using weight_worker [of i s "Dead e"] by simp
qed (simp_all add: weight_def)

interpretation runs: weighted_system "step E" weight for E
  by unfold_locales (rule step_weight)

lemma bounded_lemma:
  assumes "(step E ^^ m) (start_state jobs n) s"
  shows "m \<le> 5 * length jobs + 6 * n + 4"
proof -
  have "sum_list (map worker_weight (replicate n Getting)) = 0" by (simp add: sum_list_zero_all)
  then have "weight (start_state jobs n) = 5 * length jobs + 6 * n + 4"
    by (simp add: weight_def start_state_def)
  with runs.run_bound [OF assms] show ?thesis by simp
qed

text \<open>
  Claim C38. The run of the jobs always ends, whatever the interleaving and whether or not it is
  interrupted: with \<open>n\<close> threads and \<open>k\<close> jobs no run has more than \<open>5 k + 6 n + 4\<close> steps.
\<close>

theorem runs_are_bounded:
  assumes "(step E ^^ m) (start_state jobs n) s"
  shows "m \<le> 5 * length jobs + 6 * n + 4"
  using bounded_lemma [OF assms] .

definition sample_env :: run_env where
  "sample_env = \<lparr>cfg = sample_config, opts = default_options, shell = sample_shell, tmp = (\<lambda>_. None),
     use_color = False, total_jobs = 1\<rparr>"

section \<open>No job is lost\<close>

fun held :: "worker \<Rightarrow> Job multiset" where
  "held (Holding j) = {#j#}"
| "held (Running j) = {#j#}"
| "held _ = {#}"

fun todo :: "main_thread \<Rightarrow> Job list" where
  "todo (Dispatching js) = js"
| "todo _ = []"

text \<open>Everything on its way to a worker or at one, the break jobs too.\<close>

definition flow :: "sys \<Rightarrow> Job multiset" where
  "flow s = sum_list (map held (workers s)) + mset (input_queue s) + mset (todo (main s))"

lemma flow_worker:
  assumes "i < length (workers s)"
  shows "flow (set_worker i w s) + held (workers s ! i) = flow s + held w"
  using sum_list_upd [OF assms, of held w] by (simp add: flow_def set_worker_def ac_simps)

lemma flow_output [simp]: "flow (put_result j s) = flow s"
  by (simp add: flow_def put_result_def)

lemma set_worker_simps [simp]:
  "main (set_worker i w s) = main s" "input_queue (set_worker i w s) = input_queue s"
  "output_queue (set_worker i w s) = output_queue s" "thread_exit (set_worker i w s) = thread_exit s"
  "workers (set_worker i w s) = (workers s)[i := w]"
  by (simp_all add: set_worker_def)

lemma put_result_simps [simp]:
  "main (put_result j s) = main s" "input_queue (put_result j s) = input_queue s"
  "output_queue (put_result j s) = output_queue s @ [j]" "thread_exit (put_result j s) = thread_exit s"
  "workers (put_result j s) = workers s"
  by (simp_all add: put_result_def)

text \<open>What a job can have become when it is on the output queue.\<close>

definition outcome :: "run_env \<Rightarrow> bool \<Rightarrow> Job \<Rightarrow> Job \<Rightarrow> bool" where
  "outcome E sig j j' \<longleftrightarrow>
     (sig \<and> j' = j\<lparr>is_break := True\<rparr>) \<or> (is_skip j \<and> j' = j) \<or> (\<not> is_skip j \<and> finish E j = Inr j')"

lemma outcome_mono: "outcome E a j j' \<Longrightarrow> (a \<longrightarrow> b) \<Longrightarrow> outcome E b j j'"
  by (auto simp: outcome_def)

text \<open>What the main thread knows of the jobs it has taken, in this order.\<close>

fun progress :: "run_env \<Rightarrow> main_thread \<Rightarrow> Job list \<Rightarrow> bool" where
  "progress E (Dispatching js) fin \<longleftrightarrow> fin = []"
| "progress E (Collecting k st) fin \<longleftrightarrow>
     length fin + k = total_jobs E \<and> rfold (take_account E) empty_tally fin = Inr st"
| "progress E (Joining i st) fin \<longleftrightarrow>
     length fin = total_jobs E \<and> rfold (take_account E) empty_tally fin = Inr st"
| "progress E (Exited rc) fin \<longleftrightarrow> length fin = total_jobs E \<and>
     (\<exists>st. rfold (take_account E) empty_tally fin = Inr st \<and> rc = exit_code (int (total_jobs E)) st)"
| "progress E (Raised e) fin \<longleftrightarrow> rfold (take_account E) empty_tally fin = Inl e"

definition real_flow :: "sys \<Rightarrow> Job multiset" where
  "real_flow s = filter_mset (\<lambda>j. \<not> is_break j) (flow s)"

text \<open>No worker has died, and what runs is a real job that is not to be skipped.\<close>

fun healthy_worker :: "worker \<Rightarrow> bool" where
  "healthy_worker (Running j) \<longleftrightarrow> \<not> is_break j \<and> \<not> is_skip j"
| "healthy_worker (Dead e) \<longleftrightarrow> False"
| "healthy_worker _ \<longleftrightarrow> True"

definition healthy :: "run_env \<Rightarrow> sys \<Rightarrow> bool" where
  "healthy E s \<longleftrightarrow> PYTHON (cfg E) \<noteq> [] \<and> (\<forall>w \<in> set (workers s). healthy_worker w)"

definition conserved :: "run_env \<Rightarrow> Job list \<Rightarrow> sys \<Rightarrow> bool" where
  "conserved E jobs s \<longleftrightarrow> PYTHON (cfg E) \<noteq> [] \<and>
     (\<exists>fin ps. progress E (main s) fin \<and> mset (map snd ps) = mset fin + mset (output_queue s) \<and>
        mset jobs = real_flow s + mset (map fst ps) \<and>
        (\<forall>(j, j') \<in> set ps. outcome E (thread_exit s) j j'))"

lemma finish_total: "PYTHON (cfg E) \<noteq> [] \<Longrightarrow> \<exists>j'. finish E j = Inr j'"
  by (cases "PYTHON (cfg E)") (auto simp: execute_job_def run_job_synchronously_def job_cmd_def
      py_index_def Let_def rbind_Inr_iff)

lemma conservedE:
  assumes "conserved E jobs s"
  obtains fin ps where "PYTHON (cfg E) \<noteq> []" "progress E (main s) fin"
    "mset (map snd ps) = mset fin + mset (output_queue s)" "mset jobs = real_flow s + mset (map fst ps)"
    "\<And>j j'. (j, j') \<in> set ps \<Longrightarrow> outcome E (thread_exit s) j j'"
  using assms unfolding conserved_def by (elim conjE exE) blast

lemma conservedI:
  assumes "PYTHON (cfg E) \<noteq> []" "progress E (main s) fin"
    "mset (map snd ps) = mset fin + mset (output_queue s)" "mset jobs = real_flow s + mset (map fst ps)"
    "\<And>j j'. (j, j') \<in> set ps \<Longrightarrow> outcome E (thread_exit s) j j'"
  shows "conserved E jobs s"
  using assms unfolding conserved_def by blast

lemma healthy_set: "healthy E s \<Longrightarrow> healthy_worker w \<Longrightarrow> healthy E (set_worker i w s)"
  using set_update_subset_insert [of "workers s" i w] by (auto simp: healthy_def)

lemma healthy_nth: "healthy E s \<Longrightarrow> i < length (workers s) \<Longrightarrow> healthy_worker (workers s ! i)"
  by (simp add: healthy_def)

lemma step_healthy: "step E s t \<Longrightarrow> healthy E s \<Longrightarrow> healthy E t"
proof (induction rule: step.induct)
  case (died i s j e)
  then show ?case using finish_total [of E j] by (auto simp: healthy_def)
qed (auto simp: healthy_def dest!: set_update_subset_insert [THEN subsetD])

text \<open>A worker delivers the job it has.\<close>

lemma conserved_deliver:
  assumes "conserved E jobs s" "i < length (workers s)" "held (workers s ! i) = {#j#}" "\<not> is_break j"
    and "outcome E (thread_exit s) j j'" "held w = {#}"
  shows "conserved E jobs (set_worker i w (put_result j' s))"
proof -
  obtain fin ps where *: "PYTHON (cfg E) \<noteq> []" "progress E (main s) fin"
    "mset (map snd ps) = mset fin + mset (output_queue s)" "mset jobs = real_flow s + mset (map fst ps)"
    "\<And>j j'. (j, j') \<in> set ps \<Longrightarrow> outcome E (thread_exit s) j j'" using conservedE [OF assms(1)] by blast
  have "flow s = flow (set_worker i w (put_result j' s)) + {#j#}"
    using flow_worker [of i "put_result j' s" w] assms(2,3,6) by simp
  then have "real_flow s = real_flow (set_worker i w (put_result j' s)) + {#j#}"
    using assms(4) by (simp add: real_flow_def)
  then show ?thesis using * assms(5)
    by (intro conservedI [where fin = fin and ps = "ps @ [(j, j')]"]) (auto simp: ac_simps)
qed

text \<open>A step that leaves the real jobs, the output queue and what has been collected alone.\<close>

lemma conserved_same:
  assumes "conserved E jobs s" "real_flow t = real_flow s" "output_queue t = output_queue s"
    and "\<And>fin. progress E (main s) fin \<Longrightarrow> progress E (main t) fin" "thread_exit s \<longrightarrow> thread_exit t"
  shows "conserved E jobs t"
proof -
  obtain fin ps where *: "PYTHON (cfg E) \<noteq> []" "progress E (main s) fin"
    "mset (map snd ps) = mset fin + mset (output_queue s)" "mset jobs = real_flow s + mset (map fst ps)"
    "\<And>j j'. (j, j') \<in> set ps \<Longrightarrow> outcome E (thread_exit s) j j'" using conservedE [OF assms(1)] by blast
  show ?thesis
    by (rule conservedI [where fin = fin and ps = ps])
      (use * assms outcome_mono [OF _ assms(5)] in auto)
qed

lemma conserved_worker:
  assumes "conserved E jobs s" "i < length (workers s)" "held (workers s ! i) = held w + b"
    and "filter_mset (\<lambda>j. \<not> is_break j) b = {#}"
  shows "conserved E jobs (set_worker i w s)"
proof -
  have "flow (set_worker i w s) + b + held w = flow s + held w"
    using flow_worker [OF assms(2), of w] assms(3) by (simp add: ac_simps)
  then have "flow s = flow (set_worker i w s) + b" by simp
  then have "real_flow (set_worker i w s) = real_flow s" using assms(4) by (simp add: real_flow_def)
  then show ?thesis by (rule conserved_same [OF assms(1)]) simp_all
qed

lemma step_conserved: "step E s t \<Longrightarrow> healthy E s \<Longrightarrow> conserved E jobs s \<Longrightarrow> conserved E jobs t"
proof (induction rule: step.induct)
  case (dispatch s j js)
  show ?case by (rule conserved_same [OF dispatch(3)]) (use dispatch(1) in \<open>simp_all add: real_flow_def flow_def\<close>)
next
  case (dispatched s)
  show ?case
    by (rule conserved_same [OF dispatched(3)]) (use dispatched(1) in \<open>simp_all add: real_flow_def flow_def\<close>)
next
  case (collect s k st j js st')
  obtain fin ps where *: "PYTHON (cfg E) \<noteq> []" "progress E (main s) fin"
    "mset (map snd ps) = mset fin + mset (output_queue s)" "mset jobs = real_flow s + mset (map fst ps)"
    "\<And>j j'. (j, j') \<in> set ps \<Longrightarrow> outcome E (thread_exit s) j j'" using conservedE [OF collect(5)] by blast
  show ?case by (rule conservedI [where fin = "fin @ [j]" and ps = ps])
      (use * collect(1-3) in \<open>auto simp: rfold_append real_flow_def flow_def\<close>)
next
  case (collect_error s k st j js e)
  obtain fin ps where *: "PYTHON (cfg E) \<noteq> []" "progress E (main s) fin"
    "mset (map snd ps) = mset fin + mset (output_queue s)" "mset jobs = real_flow s + mset (map fst ps)"
    "\<And>j j'. (j, j') \<in> set ps \<Longrightarrow> outcome E (thread_exit s) j j'" using conservedE [OF collect_error(5)] by blast
  show ?case by (rule conservedI [where fin = "fin @ [j]" and ps = ps])
      (use * collect_error(1-3) in \<open>auto simp: rfold_append real_flow_def flow_def\<close>)
next
  case (get i s j js)
  have "flow (set_worker i (Holding j) (s\<lparr>input_queue := js\<rparr>)) = flow s"
    using flow_worker [of i "s\<lparr>input_queue := js\<rparr>" "Holding j"] get(1-3) by (simp add: flow_def)
  then show ?case by (intro conserved_same [OF get(5)]) (simp_all add: real_flow_def)
next
  case (stop i s j)
  then show ?case by (intro conserved_worker [where b = "{#j#}"]) simp_all
next
  case (interrupted i s j)
  then show ?case by (intro conserved_deliver [where j = j]) (simp_all add: outcome_def)
next
  case (skip i s j)
  then show ?case by (intro conserved_deliver [where j = j]) (simp_all add: outcome_def)
next
  case (launch i s j)
  then show ?case by (intro conserved_worker [where b = "{#}"]) simp_all
next
  case (finished i s j j')
  then show ?case using healthy_nth [of E s i]
    by (intro conserved_deliver [where j = j]) (simp_all add: outcome_def)
next
  case (died i s j e)
  then show ?case using finish_total [of E j] by (auto elim: conservedE)
next
  case (sigint s)
  show ?case by (rule conserved_same [OF sigint(3)]) (simp_all add: real_flow_def flow_def)
next
  case (collected s st)
  show ?case by (rule conserved_same [OF collected(3)]) (use collected(1) in \<open>simp_all add: real_flow_def flow_def\<close>)
next
  case (join s i st)
  show ?case by (rule conserved_same [OF join(5)]) (use join(1) in \<open>simp_all add: real_flow_def flow_def\<close>)
next
  case (leave s i st)
  show ?case by (rule conserved_same [OF leave(4)]) (use leave(1) in \<open>simp_all add: real_flow_def flow_def\<close>)
qed

section \<open>The break jobs reach the workers\<close>

definition stopped :: "worker \<Rightarrow> nat" where
  "stopped w = (if w = Stopped then 1 else 0)"

definition breaks_match :: "sys \<Rightarrow> bool" where
  "breaks_match s \<longleftrightarrow>
     size (filter_mset is_break (flow s)) + sum_list (map stopped (workers s)) = length (workers s)"

text \<open>The queue holds real jobs first; a worker has met a break job only when none is left.\<close>

fun met_break :: "worker \<Rightarrow> bool" where
  "met_break (Holding j) = is_break j"
| "met_break w = (w = Stopped)"

definition breaks_last :: "sys \<Rightarrow> bool" where
  "breaks_last s \<longleftrightarrow> (\<exists>rs bs. input_queue s @ todo (main s) = rs @ bs \<and>
     (\<forall>j \<in> set rs. \<not> is_break j) \<and> (\<forall>j \<in> set bs. is_break j) \<and>
     (rs \<noteq> [] \<longrightarrow> (\<forall>w \<in> set (workers s). \<not> met_break w)))"

lemma stopped_worker:
  "i < length (workers s) \<Longrightarrow> sum_list (map stopped (workers (set_worker i w s))) + stopped (workers s ! i) =
     sum_list (map stopped (workers s)) + stopped w"
  using sum_list_upd [of i "workers s" stopped w] by simp

lemma breaks_match_worker:
  assumes "breaks_match s" "i < length (workers s)" "u = put_result j s \<or> u = s"
    and "size (filter_mset is_break (held (workers s ! i))) + stopped (workers s ! i) =
      size (filter_mset is_break (held w)) + stopped w"
  shows "breaks_match (set_worker i w u)"
proof -
  have u: "workers u = workers s" "flow u = flow s" using assms(3) by auto
  have "flow (set_worker i w u) + held (workers s ! i) = flow s + held w"
    using flow_worker [of i u w] assms(2) u by simp
  then have "size (filter_mset is_break (flow (set_worker i w u))) + size (filter_mset is_break (held (workers s ! i))) =
      size (filter_mset is_break (flow s)) + size (filter_mset is_break (held w))"
    by (metis filter_union_mset size_union)
  then show ?thesis using assms(1,4) stopped_worker [of i s w] assms(2) u by (simp add: breaks_match_def)
qed

lemma step_breaks_match:
  "step E s t \<Longrightarrow> healthy E s \<Longrightarrow> breaks_match s \<Longrightarrow> breaks_match t"
proof (induction rule: step.induct)
  case (get i s j js)
  have "flow (set_worker i (Holding j) (s\<lparr>input_queue := js\<rparr>)) = flow s"
    using flow_worker [of i "s\<lparr>input_queue := js\<rparr>" "Holding j"] get(1-3) by (simp add: flow_def)
  then show ?case using get stopped_worker [of i s "Holding j"] by (simp add: breaks_match_def stopped_def)
next
  case (stop i s j)
  then show ?case by (intro breaks_match_worker) (auto simp: stopped_def)
next
  case (interrupted i s j)
  then show ?case by (intro breaks_match_worker) (auto simp: stopped_def)
next
  case (skip i s j)
  then show ?case by (intro breaks_match_worker) (auto simp: stopped_def)
next
  case (launch i s j)
  then show ?case by (intro breaks_match_worker) (auto simp: stopped_def)
next
  case (finished i s j j')
  then show ?case using healthy_nth [of E s i] by (intro breaks_match_worker) (auto simp: stopped_def)
next
  case (died i s j e)
  then show ?case using finish_total [of E j] by (auto simp: healthy_def)
qed (simp_all add: breaks_match_def flow_def)

lemma breaks_last_worker:
  assumes "breaks_last s" "input_queue t = input_queue s" "main t = main s"
    and "workers t = (workers s)[i := w]" "i < length (workers s)" "met_break w \<longrightarrow> met_break (workers s ! i)"
  shows "breaks_last t"
proof -
  obtain rs bs where *: "input_queue s @ todo (main s) = rs @ bs" "\<forall>j \<in> set rs. \<not> is_break j"
    "\<forall>j \<in> set bs. is_break j" "rs \<noteq> [] \<longrightarrow> (\<forall>w \<in> set (workers s). \<not> met_break w)"
    using assms(1) unfolding breaks_last_def by blast
  have "\<forall>w \<in> set (workers t). \<not> met_break w" if "rs \<noteq> []"
    using *(4) that assms(4-6) by (auto dest!: set_update_subset_insert [THEN subsetD])
  then show ?thesis unfolding breaks_last_def using * assms(2,3) by metis
qed

lemma step_breaks_last: "step E s t \<Longrightarrow> breaks_last s \<Longrightarrow> breaks_last t"
proof (induction rule: step.induct)
  case (get i s j js)
  obtain rs bs where *: "input_queue s @ todo (main s) = rs @ bs" "\<forall>j \<in> set rs. \<not> is_break j"
    "\<forall>j \<in> set bs. is_break j" "rs \<noteq> [] \<longrightarrow> (\<forall>w \<in> set (workers s). \<not> met_break w)"
    using get(4) unfolding breaks_last_def by blast
  show ?case
  proof (cases rs)
    case Nil
    then show ?thesis using * get(3) unfolding breaks_last_def
      by (intro exI [of _ "[]"] exI [of _ "js @ todo (main s)"]) auto
  next
    case (Cons r rs')
    then have "\<not> is_break j" "js @ todo (main s) = rs' @ bs" using * get(3) by auto
    then show ?thesis using * Cons unfolding breaks_last_def
      by (intro exI [of _ rs'] exI [of _ bs]) (auto dest!: set_update_subset_insert [THEN subsetD])
  qed
next
  case (stop i s j)
  show ?case by (rule breaks_last_worker [OF stop(4)]) (use stop in auto)
next
  case (interrupted i s j)
  show ?case by (rule breaks_last_worker [OF interrupted(5)]) (use interrupted in auto)
next
  case (skip i s j)
  show ?case by (rule breaks_last_worker [OF skip(6)]) (use skip in auto)
next
  case (launch i s j)
  show ?case by (rule breaks_last_worker [OF launch(6)]) (use launch in auto)
next
  case (finished i s j j')
  show ?case by (rule breaks_last_worker [OF finished(4)]) (use finished in auto)
next
  case (died i s j e)
  show ?case by (rule breaks_last_worker [OF died(4)]) (use died in auto)
qed (simp_all add: breaks_last_def)

text \<open>Threads already joined have stopped.\<close>

definition joined :: "sys \<Rightarrow> bool" where
  "joined s \<longleftrightarrow> (case main s of
     Joining i st \<Rightarrow> i \<le> length (workers s) \<and> (\<forall>k < i. workers s ! k = Stopped)
   | Exited rc \<Rightarrow> \<forall>w \<in> set (workers s). w = Stopped
   | _ \<Rightarrow> True)"

lemma joined_worker:
  "joined s \<Longrightarrow> workers s ! i \<noteq> Stopped \<Longrightarrow> i < length (workers s) \<Longrightarrow> main t = main s \<Longrightarrow>
     workers t = (workers s)[i := w] \<Longrightarrow> joined t"
  by (auto simp: joined_def nth_list_update split: main_thread.splits dest!: set_update_subset_insert [THEN subsetD])

lemma step_joined: "step E s t \<Longrightarrow> healthy E s \<Longrightarrow> joined s \<Longrightarrow> joined t"
proof (induction rule: step.induct)
  case (join s i st)
  have "\<not> (\<exists>e. workers s ! i = Dead e)" using healthy_nth [OF join(4,2)] by auto
  then show ?case using join by (auto simp: joined_def less_Suc_eq)
next
  case (leave s i st)
  then show ?case by (auto simp: joined_def in_set_conv_nth)
next
  case (collected s st)
  then show ?case by (simp add: joined_def)
next
  case (get i s j js)
  show ?case by (rule joined_worker [where s = s and i = i]) (use get in auto)
next
  case (stop i s j)
  show ?case by (rule joined_worker [where s = s and i = i]) (use stop in auto)
next
  case (interrupted i s j)
  show ?case by (rule joined_worker [where s = s and i = i]) (use interrupted in auto)
next
  case (skip i s j)
  show ?case by (rule joined_worker [where s = s and i = i]) (use skip in auto)
next
  case (launch i s j)
  show ?case by (rule joined_worker [where s = s and i = i]) (use launch in auto)
next
  case (finished i s j j')
  show ?case by (rule joined_worker [where s = s and i = i]) (use finished in auto)
next
  case (died i s j e)
  show ?case by (rule joined_worker [where s = s and i = i]) (use died in auto)
qed (auto simp: joined_def split: main_thread.splits)

section \<open>The invariant of the run\<close>

definition run_ok :: "run_env \<Rightarrow> Job list \<Rightarrow> sys \<Rightarrow> bool" where
  "run_ok E jobs s \<longleftrightarrow> healthy E s \<and> conserved E jobs s \<and> breaks_match s \<and> breaks_last s \<and> joined s"

interpretation run_inv: invariant_system "step E" "run_ok E jobs" for E jobs
  by unfold_locales
    (auto simp: run_ok_def intro: step_healthy step_conserved step_breaks_match step_breaks_last step_joined)

lemma start_ok:
  assumes "PYTHON (cfg E) \<noteq> []" "\<forall>j \<in> set jobs. \<not> is_break j"
  shows "run_ok E jobs (start_state jobs n)"
proof -
  have h: "sum_list (map held (replicate n Getting)) = {#}" "sum_list (map stopped (replicate n Getting)) = 0"
    by (induction n) (simp_all add: stopped_def)
  have b: "is_break break_job" by (simp add: break_job_def)
  have f: "flow (start_state jobs n) = mset jobs + replicate_mset n break_job"
    using h by (simp add: flow_def start_state_def)
  have "mset (filter (\<lambda>j. \<not> is_break j) jobs) = mset jobs" using assms(2) by simp
  moreover have "filter_mset (\<lambda>j. \<not> is_break j) (replicate_mset n break_job) = {#}"
    using b by (induction n) simp_all
  ultimately have "real_flow (start_state jobs n) = mset jobs" by (simp add: real_flow_def f mset_filter)
  then have "conserved E jobs (start_state jobs n)"
    by (intro conservedI [where fin = "[]" and ps = "[]"]) (simp_all add: assms start_state_def)
  moreover have "mset (filter is_break jobs) = {#}" "filter_mset is_break (replicate_mset n break_job) = replicate_mset n break_job"
    using assms(2) b by simp (induction n, simp_all add: b)
  then have "filter_mset is_break (flow (start_state jobs n)) = replicate_mset n break_job"
    unfolding f by (simp add: mset_filter)
  then have "breaks_match (start_state jobs n)"
    using h by (simp add: breaks_match_def start_state_def)
  moreover have "breaks_last (start_state jobs n)"
    unfolding breaks_last_def using assms(2) b
    by (intro exI [of _ jobs] exI [of _ "replicate n break_job"]) (auto simp: start_state_def)
  ultimately show ?thesis using assms(1)
    by (simp add: run_ok_def healthy_def joined_def) (simp add: start_state_def)
qed

lemma reachable_ok:
  "PYTHON (cfg E) \<noteq> [] \<Longrightarrow> \<forall>j \<in> set jobs. \<not> is_break j \<Longrightarrow> run_of E (start_state jobs n) s \<Longrightarrow>
     run_ok E jobs s"
  using run_inv.inv_run start_ok by blast

section \<open>No deadlock\<close>

text \<open>A worker that has a job, or that waits while the queue has one, can move.\<close>

definition moves :: "run_env \<Rightarrow> sys \<Rightarrow> bool" where
  "moves E s \<longleftrightarrow> (\<exists>t. step E s t \<and> thread_exit t = thread_exit s)"

lemma movesI: "step E s t \<Longrightarrow> thread_exit t = thread_exit s \<Longrightarrow> moves E s"
  by (auto simp: moves_def)

lemma busy_moves:
  assumes "i < length (workers s)" "held (workers s ! i) \<noteq> {#}"
  shows "moves E s"
proof (cases "workers s ! i")
  case (Holding j)
  note w = assms(1) Holding
  consider "is_break j" | "\<not> is_break j" "thread_exit s" | "\<not> is_break j" "\<not> thread_exit s" "is_skip j"
    | "\<not> is_break j" "\<not> thread_exit s" "\<not> is_skip j" by blast
  then show ?thesis
    by cases (use movesI [OF step.stop [OF w]] movesI [OF step.interrupted [OF w]]
        movesI [OF step.skip [OF w]] movesI [OF step.launch [OF w]] in auto)
next
  case (Running j)
  then show ?thesis
    using movesI [OF step.finished [OF assms(1) Running]] movesI [OF step.died [OF assms(1) Running]]
    by (cases "finish E j") auto
qed (use assms in auto)

lemma getter_moves:
  "i < length (workers s) \<Longrightarrow> workers s ! i = Getting \<Longrightarrow> input_queue s \<noteq> [] \<Longrightarrow> moves E s"
  using movesI [OF step.get] by (cases "input_queue s") auto

lemma sum_list_held: "sum_list (map held ws) \<noteq> {#} \<Longrightarrow> \<exists>i < length ws. held (ws ! i) \<noteq> {#}"
proof (induction ws)
  case (Cons w ws)
  then show ?case by (cases "held w = {#}") (auto intro: exI [of _ "Suc _"])
qed simp

lemma sum_list_none: "sum_list (map held ws) = {#} \<Longrightarrow> w \<in> set ws \<Longrightarrow> held w = {#}"
  by (induction ws) auto

text \<open>The jobs that the main thread still waits for are in the queues or at the workers.\<close>

lemma waiting_flow:
  assumes "conserved E jobs s" "main s = Collecting k st" "total_jobs E = length jobs" "output_queue s = []"
  shows "size (real_flow s) = k"
proof -
  obtain fin ps where *: "progress E (main s) fin" "mset (map snd ps) = mset fin + mset (output_queue s)"
    "mset jobs = real_flow s + mset (map fst ps)" using conservedE [OF assms(1)] by metis
  have "length ps = length fin" using arg_cong [OF *(2), of size] assms(4) by simp
  moreover have "length jobs = size (real_flow s) + length ps" using arg_cong [OF *(3), of size] by simp
  moreover have "length fin + k = length jobs" using *(1) assms(2,3) by simp
  ultimately show ?thesis by simp
qed

lemma all_joined_flow:
  assumes "conserved E jobs s" "main s = Joining i st \<or> main s = Exited rc" "total_jobs E = length jobs"
  shows "real_flow s = {#} \<and> output_queue s = []"
proof -
  obtain fin ps where *: "progress E (main s) fin" "mset (map snd ps) = mset fin + mset (output_queue s)"
    "mset jobs = real_flow s + mset (map fst ps)" using conservedE [OF assms(1)] by metis
  have "length ps = length fin + length (output_queue s)" using arg_cong [OF *(2), of size] by simp
  moreover have "length jobs = size (real_flow s) + length ps" using arg_cong [OF *(3), of size] by simp
  moreover have "length fin = length jobs" using *(1) assms(2,3) by auto
  ultimately show ?thesis by (simp flip: size_eq_0_iff_empty length_0_conv)
qed

lemma collecting_moves:
  assumes ok: "run_ok E jobs s" and m: "main s = Collecting k st"
    and e: "total_jobs E = length jobs" "workers s \<noteq> []"
  shows "moves E s"
proof (cases k)
  case 0
  then show ?thesis using m movesI [OF step.collected] by simp
next
  case (Suc k')
  show ?thesis
  proof (cases "output_queue s")
    case (Cons j js)
    show ?thesis using movesI [OF step.collect [OF m [unfolded Suc] Cons]]
        movesI [OF step.collect_error [OF m [unfolded Suc] Cons]]
      by (cases "take_account E st j") auto
  next
    case Nil
    then have "real_flow s \<noteq> {#}" using waiting_flow [of E jobs s] ok m e Suc by (force simp: run_ok_def)
    then obtain j where "j \<in># real_flow s" by blast
    then have j: "j \<in># flow s" "\<not> is_break j" by (simp_all add: real_flow_def)
    show ?thesis
    proof (cases "sum_list (map held (workers s)) = {#}")
      case False
      then show ?thesis using sum_list_held busy_moves by blast
    next
      case True
      then have q: "j \<in> set (input_queue s)" using j m by (simp add: flow_def)
      obtain rs bs where *: "input_queue s = rs @ bs" "\<forall>j \<in> set bs. is_break j"
        "rs \<noteq> [] \<longrightarrow> (\<forall>w \<in> set (workers s). \<not> met_break w)"
        using ok m unfolding run_ok_def breaks_last_def by auto
      with q j have none: "\<not> met_break (workers s ! 0)" using e(2) by (cases rs) auto
      have "healthy_worker (workers s ! 0)" "held (workers s ! 0) = {#}"
        using ok e(2) sum_list_none [OF True] by (auto simp: run_ok_def healthy_def)
      with none have "workers s ! 0 = Getting" by (cases "workers s ! 0") auto
      then show ?thesis using getter_moves [of 0 s] q e(2) by force
    qed
  qed
qed

lemma joining_moves:
  assumes ok: "run_ok E jobs s" and m: "main s = Joining i st" and e: "total_jobs E = length jobs"
  shows "moves E s"
proof -
  consider "i = length (workers s)" | "i < length (workers s)" using ok m by (fastforce simp: run_ok_def joined_def)
  then show ?thesis
  proof cases
    case 1
    then show ?thesis using movesI [OF step.leave [OF m]] by simp
  next
    case 2
    have h: "healthy_worker (workers s ! i)" using ok 2 healthy_nth by (auto simp: run_ok_def)
    show ?thesis
    proof (cases "held (workers s ! i) = {#}")
      case False
      then show ?thesis using busy_moves [OF 2] by blast
    next
      case True
      then consider "workers s ! i = Stopped" | "workers s ! i = Getting"
        using h by (cases "workers s ! i") auto
      then show ?thesis
      proof cases
        case 1
        then show ?thesis using movesI [OF step.join [OF m 2]] by simp
      next
        case g: 2
        show ?thesis
        proof (cases "sum_list (map held (workers s)) = {#}")
          case False
          then show ?thesis using sum_list_held busy_moves by blast
        next
          case True
          have "real_flow s = {#}" using all_joined_flow [of E jobs s] ok m e by (simp add: run_ok_def)
          have "sum_list (map stopped (workers s)) < length (workers s)"
          proof -
            have "sum_list (map stopped ((workers s)[i := Stopped])) + stopped (workers s ! i) =
                sum_list (map stopped (workers s)) + stopped Stopped" by (rule sum_list_upd [OF 2])
            moreover have "sum_list (map stopped ws) \<le> length ws" for ws
              by (induction ws) (auto simp: stopped_def)
            from this [of "(workers s)[i := Stopped]"] have
              "sum_list (map stopped ((workers s)[i := Stopped])) \<le> length (workers s)" by simp
            ultimately show ?thesis using g by (simp add: stopped_def)
          qed
          moreover have "size (filter_mset is_break (flow s)) + sum_list (map stopped (workers s)) =
              length (workers s)" using ok by (simp add: run_ok_def breaks_match_def)
          ultimately have "size (filter_mset is_break (flow s)) \<noteq> 0" by linarith
          then have "input_queue s \<noteq> []" using True m by (auto simp: flow_def)
          then show ?thesis using getter_moves [OF 2 g] by blast
        qed
      qed
    qed
  qed
qed

lemma threads_move:
  assumes "PYTHON (cfg E) \<noteq> []" "\<forall>j \<in> set jobs. \<not> is_break j" "total_jobs E = length jobs" "0 < n"
    and "run_of E (start_state jobs n) s"
  shows "(\<exists>t. step E s t \<and> thread_exit t = thread_exit s) \<or> (\<exists>rc. main s = Exited rc) \<or> (\<exists>e. main s = Raised e)"
proof -
  have ok: "run_ok E jobs s" using reachable_ok assms(1,2,5) by blast
  have "length (workers s) = n" using assms(5)
  proof (induction rule: rtranclp_induct)
    case (step t u)
    from step(2) have "length (workers u) = length (workers t)" by (cases rule: step.cases) simp_all
    with step(3) show ?case by simp
  qed (simp add: start_state_def)
  then have w: "workers s \<noteq> []" using assms(4) by auto
  have "moves E s" if "main s = Dispatching js" for js
    using that movesI [OF step.dispatch] movesI [OF step.dispatched] by (cases js) auto
  with collecting_moves [OF ok _ assms(3) w] joining_moves [OF ok _ assms(3)] show ?thesis
    unfolding moves_def by (cases "main s") blast+
qed

text \<open>
  Claim C3. There is no deadlock: with at least one worker thread, in every reachable state that
  is not the end of the main thread some thread can make a step (the signal is not needed).
\<close>

theorem no_deadlock:
  assumes "PYTHON (cfg E) \<noteq> []" "\<forall>j \<in> set jobs. \<not> is_break j" "total_jobs E = length jobs" "0 < n"
    and "run_of E (start_state jobs n) s"
  shows "(\<exists>t. step E s t \<and> thread_exit t = thread_exit s) \<or> (\<exists>rc. main s = Exited rc) \<or> (\<exists>e. main s = Raised e)"
  using threads_move [OF assms] .

text \<open>Driving the run to its end, without a signal.\<close>

lemma run_completes:
  assumes "PYTHON (cfg E) \<noteq> []" "\<forall>j \<in> set jobs. \<not> is_break j" "total_jobs E = length jobs" "0 < n"
    and "run_of E (start_state jobs n) s"
  shows "\<exists>t. run_of E s t \<and> thread_exit t = thread_exit s \<and>
    ((\<exists>rc. main t = Exited rc) \<or> (\<exists>e. main t = Raised e))"
  using assms(5)
proof (induction "weight s" arbitrary: s rule: less_induct)
  case less
  show ?case
  proof (cases "(\<exists>rc. main s = Exited rc) \<or> (\<exists>e. main s = Raised e)")
    case True
    with less.prems show ?thesis by blast
  next
    case False
    with threads_move [OF assms(1-4) less.prems] obtain t where
      t: "step E s t" "thread_exit t = thread_exit s" by blast
    with less.hyps [OF step_weight [OF t(1)]] less.prems show ?thesis
      by (metis rtranclp.rtrancl_into_rtrancl converse_rtranclp_into_rtranclp)
  qed
qed

section \<open>The exit code\<close>

text \<open>What a job has become when no signal interfered.\<close>

definition result_of :: "run_env \<Rightarrow> Job \<Rightarrow> Job" where
  "result_of E j = (if is_skip j then j else case finish E j of Inr j' \<Rightarrow> j' | Inl e \<Rightarrow> j)"

definition good_job :: "run_env \<Rightarrow> Job \<Rightarrow> bool" where
  "good_job E j \<longleftrightarrow> is_skip j \<or> (\<exists>j'. finish E j = Inr j' \<and> returncode j' = 0)"

lemma finish_keeps: "finish E j = Inr j' \<Longrightarrow> is_break j' = is_break j \<and> is_skip j' = is_skip j"
  by (auto simp: execute_job_def rbind_iffs)

lemma outcome_result: "outcome E False j j' \<Longrightarrow> j' = result_of E j"
  by (auto simp: outcome_def result_of_def)

lemma outcome_good:
  "outcome E sig j j' \<Longrightarrow> \<not> is_break j' \<Longrightarrow> is_skip j' \<or> returncode j' = 0 \<Longrightarrow> good_job E j"
  by (auto simp: outcome_def good_job_def dest: finish_keeps)

text \<open>What the main thread has when it exits.\<close>

lemma exited_state:
  assumes "PYTHON (cfg E) \<noteq> []" "\<forall>j \<in> set jobs. \<not> is_break j" "total_jobs E = length jobs"
    and "run_of E (start_state jobs n) s" "main s = Exited rc"
  obtains fin ps st where "rfold (take_account E) empty_tally fin = Inr st"
    "rc = exit_code (int (length jobs)) st" "mset fin = mset (map snd ps)" "mset jobs = mset (map fst ps)"
    "\<And>j j'. (j, j') \<in> set ps \<Longrightarrow> outcome E (thread_exit s) j j'"
    "output_queue s = []" "real_flow s = {#}" "\<forall>w \<in> set (workers s). w = Stopped"
proof -
  have ok: "run_ok E jobs s" using reachable_ok assms(1,2,4) by blast
  then have c: "conserved E jobs s" and j: "joined s" by (auto simp: run_ok_def)
  have e: "real_flow s = {#}" "output_queue s = []" using all_joined_flow [OF c _ assms(3)] assms(5) by auto
  obtain fin ps where *: "progress E (main s) fin" "mset (map snd ps) = mset fin + mset (output_queue s)"
    "mset jobs = real_flow s + mset (map fst ps)"
    "\<And>j j'. (j, j') \<in> set ps \<Longrightarrow> outcome E (thread_exit s) j j'" using conservedE [OF c] by metis
  show thesis using that [of fin _ ps] * e j assms(3,5) by (auto simp: joined_def)
qed

lemma result_lemma:
  assumes "PYTHON (cfg E) \<noteq> []" "\<forall>j \<in> set jobs. \<not> is_break j" "total_jobs E = length jobs"
    and "run_of E (start_state jobs n) s" "main s = Exited rc" "\<not> thread_exit s"
  shows "(\<exists>st. rfold (take_account E) empty_tally (map (result_of E) jobs) = Inr st \<and>
      rc = exit_code (int (length jobs)) st) \<and>
    (\<forall>w \<in> set (workers s). w = Stopped) \<and> input_queue s = [] \<and> output_queue s = []"
proof -
  obtain fin ps st where *: "rfold (take_account E) empty_tally fin = Inr st"
    "rc = exit_code (int (length jobs)) st" "mset fin = mset (map snd ps)" "mset jobs = mset (map fst ps)"
    "\<And>j j'. (j, j') \<in> set ps \<Longrightarrow> outcome E (thread_exit s) j j'"
    and e: "output_queue s = []" "real_flow s = {#}" "\<forall>w \<in> set (workers s). w = Stopped"
    using exited_state [OF assms(1-5)] by metis
  have r: "map snd ps = map (result_of E) (map fst ps)" using *(5) assms(6) outcome_result by fastforce
  have m: "mset fin = mset (map (result_of E) jobs)" unfolding *(3) r mset_map [of "result_of E"] *(4) ..
  have "\<forall>j \<in> set (map (result_of E) jobs). has_entry (tmp E) j"
    using collect_total *(1) mset_eq_setD [OF m] by metis
  then obtain st' where st': "rfold (take_account E) empty_tally (map (result_of E) jobs) = Inr st'"
    using collect_total by blast
  have "rc = exit_code (int (length jobs)) st'"
    using counts_of_mset [OF collected_counts [OF *(1)] collected_counts [OF st'] m] *(2) by simp
  moreover have "input_queue s = []"
  proof -
    have ok: "breaks_match s" using reachable_ok [OF assms(1,2,4)] by (simp add: run_ok_def)
    have "sum_list (map stopped ws) = length ws" if "\<forall>w \<in> set ws. w = Stopped" for ws
      using that by (induction ws) (auto simp: stopped_def)
    from this [OF e(3)] ok have "filter_mset is_break (flow s) = {#}" by (simp add: breaks_match_def)
    moreover have "filter_mset (\<lambda>j. \<not> is_break j) (flow s) = {#}" using e(2) by (simp add: real_flow_def)
    ultimately have "flow s = {#}" using multiset_partition [of "flow s" is_break] by simp
    then show ?thesis by (simp add: flow_def)
  qed
  ultimately show ?thesis using st' e by blast
qed

text \<open>
  Claim C4. When the run exits without having been interrupted, every worker has stopped, both
  queues are empty, and the exit code and summary are those of the jobs accounted one after
  the other in the order they were queued, each with the result of its own child process:
  the number of threads and the interleaving do not matter.
\<close>

theorem uninterrupted_result:
  assumes "PYTHON (cfg E) \<noteq> []" "\<forall>j \<in> set jobs. \<not> is_break j" "total_jobs E = length jobs"
    and "run_of E (start_state jobs n) s" "main s = Exited rc" "\<not> thread_exit s"
  shows "(\<exists>st. rfold (take_account E) empty_tally (map (result_of E) jobs) = Inr st \<and>
      rc = exit_code (int (length jobs)) st) \<and>
    (\<forall>w \<in> set (workers s). w = Stopped) \<and> input_queue s = [] \<and> output_queue s = []"
  using result_lemma [OF assms] .

lemma raised_lemma:
  assumes "PYTHON (cfg E) \<noteq> []" "\<forall>j \<in> set jobs. \<not> is_break j" "total_jobs E = length jobs"
    and "run_of E (start_state jobs n) s" "main s = Raised e"
  shows "\<exists>j \<in> set jobs. \<exists>j'. outcome E (thread_exit s) j j' \<and> \<not> has_entry (tmp E) j'"
proof -
  obtain fin ps where *: "progress E (main s) fin" "mset (map snd ps) = mset fin + mset (output_queue s)"
    "mset jobs = real_flow s + mset (map fst ps)"
    "\<And>j j'. (j, j') \<in> set ps \<Longrightarrow> outcome E (thread_exit s) j j'"
    using conservedE [of E jobs s] reachable_ok [OF assms(1,2,4)] by (metis run_ok_def)
  have "rfold (take_account E) empty_tally fin = Inl e" using *(1) assms(5) by simp
  then obtain j' where j': "j' \<in> set fin" "\<not> has_entry (tmp E) j'"
    using collect_total [of fin "tmp E"] by (metis Inl_Inr_False)
  then have "j' \<in> set (map snd ps)" using *(2) by (metis set_mset_mset set_mset_union UnI1)
  then obtain j where j: "(j, j') \<in> set ps" by auto
  then have "j \<in># mset (map fst ps)" by force
  then have "j \<in> set jobs" using *(3) by (metis set_mset_mset union_iff)
  with j j' *(4) show ?thesis by blast
qed

lemma exit_lemma:
  assumes "PYTHON (cfg E) \<noteq> []" "\<forall>j \<in> set jobs. \<not> is_break j" "total_jobs E = length jobs"
    and "run_of E (start_state jobs n) s"
  shows "(main s = Exited 0 \<longrightarrow> (\<forall>j \<in> set jobs. good_job E j)) \<and>
    (main s = Exited rc \<and> \<not> thread_exit s \<and> (\<forall>j \<in> set jobs. good_job E j) \<longrightarrow> rc = 0) \<and>
    (main s = Raised e \<longrightarrow> (\<exists>j \<in> set jobs. \<exists>j'. outcome E (thread_exit s) j j' \<and> \<not> has_entry (tmp E) j'))"
proof (intro conjI impI)
  assume "main s = Exited 0"
  from exited_state [OF assms this] obtain fin ps st where
    *: "rfold (take_account E) empty_tally fin = Inr st" "0 = exit_code (int (length jobs)) st"
    "mset fin = mset (map snd ps)" "mset jobs = mset (map fst ps)"
    "\<And>j j'. (j, j') \<in> set ps \<Longrightarrow> outcome E (thread_exit s) j j'" by metis
  have l: "length fin = length jobs" using *(3,4) by (metis length_map size_mset)
  have good: "\<forall>j \<in> set fin. \<not> is_break j \<and> (is_skip j \<or> returncode j = 0)"
    using exit_zero_lemma [OF *(1), THEN iffD1] l *(2) assms(3) by simp
  show "\<forall>j \<in> set jobs. good_job E j"
  proof
    fix j assume "j \<in> set jobs"
    then obtain j' where "(j, j') \<in> set ps" using mset_eq_setD [OF *(4)] by auto
    moreover from this have "j' \<in> set fin" using mset_eq_setD [OF *(3)] by force
    ultimately show "good_job E j" using outcome_good [OF *(5)] good by blast
  qed
next
  assume a: "main s = Exited rc \<and> \<not> thread_exit s \<and> (\<forall>j \<in> set jobs. good_job E j)"
  then obtain st where st: "rfold (take_account E) empty_tally (map (result_of E) jobs) = Inr st"
    "rc = exit_code (int (length jobs)) st" using result_lemma [OF assms] by blast
  have "\<not> is_break (result_of E j) \<and> (is_skip (result_of E j) \<or> returncode (result_of E j) = 0)"
    if "j \<in> set jobs" for j
    using a that assms(2) finish_keeps by (fastforce simp: good_job_def result_of_def)
  then show "rc = 0" using exit_zero_lemma [OF st(1)] st(2) assms(3) by simp
next
  assume "main s = Raised e"
  from raised_lemma [OF assms this]
  show "\<exists>j \<in> set jobs. \<exists>j'. outcome E (thread_exit s) j j' \<and> \<not> has_entry (tmp E) j'" .
qed

text \<open>
  Claim C2. An exit code of \<open>0\<close>, even of an interrupted run, means that every job passed or was
  skipped; and a run that is not interrupted returns \<open>0\<close> when every job does. The main thread
  ends by an exception only when the results file of a finished test suite is missing.
\<close>

theorem exit_zero_means_good:
  assumes "PYTHON (cfg E) \<noteq> []" "\<forall>j \<in> set jobs. \<not> is_break j" "total_jobs E = length jobs"
    and "run_of E (start_state jobs n) s"
  shows "(main s = Exited 0 \<longrightarrow> (\<forall>j \<in> set jobs. good_job E j)) \<and>
    (main s = Exited rc \<and> \<not> thread_exit s \<and> (\<forall>j \<in> set jobs. good_job E j) \<longrightarrow> rc = 0) \<and>
    (main s = Raised e \<longrightarrow> (\<exists>j \<in> set jobs. \<exists>j'. outcome E (thread_exit s) j j' \<and> \<not> has_entry (tmp E) j'))"
  using exit_lemma [OF assms] .

text \<open>A run of one job to its end, for the examples below.\<close>

definition sample_job :: Job where
  "sample_job = new_job\<lparr>is_skip := True\<rparr>"

lemma sample_setup:
  "PYTHON (cfg sample_env) \<noteq> []" "\<forall>j \<in> set [sample_job]. \<not> is_break j"
  "total_jobs sample_env = length [sample_job]"
  by (simp_all add: sample_env_def sample_config_def sample_job_def new_job_def)

lemma sample_run:
  "\<exists>s rc. run_of sample_env (start_state [sample_job] 2) s \<and> main s = Exited rc \<and> \<not> thread_exit s"
proof -
  obtain t where t: "run_of sample_env (start_state [sample_job] 2) t" "\<not> thread_exit t"
    "(\<exists>rc. main t = Exited rc) \<or> (\<exists>e. main t = Raised e)"
    using run_completes [OF sample_setup, of 2 "start_state [sample_job] 2"] by (auto simp: start_state_def)
  have "main t \<noteq> Raised e" for e
    using raised_lemma [OF sample_setup t(1), of e] t(2)
    by (auto simp: outcome_def has_entry_def sample_job_def)
  with t show ?thesis by blast
qed

theorem runs_are_bounded_witness:
  "\<exists>m s. (step sample_env ^^ m) (start_state [sample_job] 2) s \<and> (\<exists>rc. main s = Exited rc) \<and> m \<le> 21"
proof -
  obtain s rc where s: "run_of sample_env (start_state [sample_job] 2) s" "main s = Exited rc" using sample_run by blast
  then obtain m where m: "(step sample_env ^^ m) (start_state [sample_job] 2) s" using rtranclp_imp_relpowp by metis
  from runs_are_bounded [OF m] m s(2) show ?thesis by auto
qed

theorem no_deadlock_witness:
  "(\<exists>t. step sample_env (start_state [sample_job] 2) t \<and> \<not> thread_exit t)"
  using no_deadlock [OF sample_setup, of 2 "start_state [sample_job] 2"] by (auto simp: start_state_def)

theorem uninterrupted_result_witness:
  "\<exists>s. run_of sample_env (start_state [sample_job] 2) s \<and> (\<exists>rc. main s = Exited rc) \<and> input_queue s = []"
proof -
  obtain s rc where s: "run_of sample_env (start_state [sample_job] 2) s" "main s = Exited rc" "\<not> thread_exit s"
    using sample_run by blast
  from uninterrupted_result [OF sample_setup s] s show ?thesis by blast
qed

theorem exit_zero_means_good_witness:
  "\<exists>s. run_of sample_env (start_state [sample_job] 2) s \<and> main s = Exited 0"
proof -
  obtain s rc where s: "run_of sample_env (start_state [sample_job] 2) s" "main s = Exited rc" "\<not> thread_exit s"
    using sample_run by blast
  have "\<forall>j \<in> set [sample_job]. good_job sample_env j" by (simp add: good_job_def sample_job_def)
  with exit_zero_means_good [OF sample_setup s(1), of rc] s show ?thesis by auto
qed

section \<open>A negative number of workers\<close>

definition unserved :: "Job list \<Rightarrow> sys \<Rightarrow> bool" where
  "unserved jobs s \<longleftrightarrow> workers s = [] \<and> output_queue s = [] \<and>
     ((\<exists>js. main s = Dispatching js) \<or> main s = Collecting (length jobs) empty_tally)"

lemma step_unserved:
  "step E s t \<Longrightarrow> total_jobs E = length jobs \<Longrightarrow> jobs \<noteq> [] \<Longrightarrow> unserved jobs s \<Longrightarrow> unserved jobs t"
  by (induction rule: step.induct) (auto simp: unserved_def)

lemma dispatch_all:
  "main s = Dispatching js \<Longrightarrow> \<exists>t. run_of E s t \<and> main t = Collecting (total_jobs E) empty_tally \<and>
     workers t = workers s \<and> output_queue t = output_queue s"
proof (induction js arbitrary: s)
  case Nil
  show ?case
    by (rule exI [of _ "s\<lparr>main := Collecting (total_jobs E) empty_tally\<rparr>"])
      (use step.dispatched [OF Nil, of E] in auto)
next
  case (Cons j js)
  let ?u = "s\<lparr>main := Dispatching js, input_queue := input_queue s @ [j]\<rparr>"
  obtain t where "run_of E ?u t" "main t = Collecting (total_jobs E) empty_tally"
    "workers t = workers ?u" "output_queue t = output_queue ?u" using Cons.IH [of ?u] by auto
  then show ?case
    using converse_rtranclp_into_rtranclp [of "step E", OF step.dispatch [OF Cons.prems]] by (intro exI [of _ t]) simp
qed

lemma unserved_stuck:
  "step E s t \<Longrightarrow> workers s = [] \<Longrightarrow> output_queue s = [] \<Longrightarrow> main s = Collecting (Suc k) st \<Longrightarrow>
     thread_exit t \<noteq> thread_exit s"
  by (induction rule: step.induct) simp_all

text \<open>
  A negative \<open>--jobs\<close> starts no worker thread at all, and with at least one job the
  main thread then never comes to an end: every run can only go on to wait for ever on the
  empty output queue.
\<close>

theorem negative_jobs_hang:
  assumes "limit < 0" "jobs \<noteq> []" "total_jobs E = length jobs"
    and "run_of E (start_state jobs (thread_count processors limit)) s"
  shows "(\<forall>rc. main s \<noteq> Exited rc) \<and> (\<forall>e. main s \<noteq> Raised e) \<and>
    (\<exists>t. run_of E s t \<and> main t = Collecting (length jobs) empty_tally \<and> output_queue t = [] \<and>
      (\<forall>u. step E t u \<longrightarrow> u = t\<lparr>thread_exit := True\<rparr>))"
proof -
  have n: "thread_count processors limit = 0" using assms(1) by (auto simp: thread_count_def)
  have u: "unserved jobs s" using assms(4) unfolding n
  proof (induction rule: rtranclp_induct)
    case (step t u)
    then show ?case using step_unserved assms(2,3) by blast
  qed (simp add: unserved_def start_state_def)
  obtain t where t: "run_of E s t" "main t = Collecting (length jobs) empty_tally" "workers t = []"
    "output_queue t = []"
    using u dispatch_all [of s _ E] assms(3) unfolding unserved_def by (metis rtranclp.rtrancl_refl)
  have "u = t\<lparr>thread_exit := True\<rparr>" if "step E t u" for u
    using that t(2-4) assms(2) by (cases rule: step.cases) auto
  with u t show ?thesis unfolding unserved_def by auto
qed

theorem negative_jobs_hang_witness:
  "\<forall>rc. main (start_state [sample_job] (thread_count 4 (- 1))) \<noteq> Exited rc"
  using negative_jobs_hang [of "- 1" "[sample_job]" sample_env 4
      "start_state [sample_job] (thread_count 4 (- 1))"] sample_setup(3) by simp

end
