(* ===== verification/Test_Report.thy ===== *)
theory Test_Report
  imports Xml_Element
begin

text \<open>
  \<^verbatim>\<open>test.py\<close>: \<open>read_test\<close>, \<open>node_to_text\<close>, \<open>translate_to_text\<close> and \<open>translate_to_html\<close>, which
  turn the XML results file into reports. The parsed document is a value of \<open>element\<close>;
  what the functions write is the string they return (an exception is an error value, and the
  part of the file already written then is not modelled). The second half scans the HTML for
  its tags and decides when they nest.
\<close>

section \<open>The text report\<close>

record test_info =
  info_result :: "string option"
  info_name :: "string option"
  info_reason :: "string option"
  info_time :: "string option"

definition read_test :: "element \<Rightarrow> py_error + test_info" where
  "read_test test =
     rbind (child_text ''Result'' test) (\<lambda>result.
     rbind (child_text ''Name'' test) (\<lambda>name.
       Inr \<lparr>info_result = result, info_name = name,
         info_reason = (case find_child ''Reason'' test of None \<Rightarrow> Some [] | Some r \<Rightarrow> content r),
         info_time = (case find_child ''Time'' test of None \<Rightarrow> Some []
           | Some t \<Rightarrow> map_of (attribs t) ''real'')\<rparr>))"

definition detail_field :: "string \<Rightarrow> string \<Rightarrow> element \<Rightarrow> py_error + string" where
  "detail_field label t details =
     rbind (child_text t details) (\<lambda>x. Inr (''      '' @ label @ str x @ [NL]))"

definition details_text :: "element \<Rightarrow> py_error + string" where
  "details_text details =
     rbind (detail_field ''Message:   '' ''Message'' details) (\<lambda>a.
     rbind (detail_field ''Condition: '' ''Condition'' details) (\<lambda>b.
     rbind (detail_field ''Actual:    '' ''Actual'' details) (\<lambda>c.
     rbind (detail_field ''Limit:     '' ''Limit'' details) (\<lambda>d.
     rbind (detail_field ''File:      '' ''File'' details) (\<lambda>e.
     rbind (detail_field ''Line:      '' ''Line'' details) (\<lambda>f.
       Inr (''    Details:'' @ [NL] @ a @ b @ c @ d @ e @ f)))))))"

text \<open>The line of a test; an empty \<open>Reason\<close> element is printed as \<open>None\<close>.\<close>

definition result_line :: "string \<Rightarrow> test_info \<Rightarrow> string" where
  "result_line test_type i =
     str (info_result i) @ '': Test '' @ test_type @ '' \"'' @ str (info_name i) @ ''\" ('' @
     str (info_time i) @ '')'' @
     (if info_reason i \<noteq> None \<and> info_reason i \<noteq> Some []
      then '' ('' @ str (info_reason i) @ '')'' else str (info_reason i)) @ [NL]"

fun node_to_text :: "string \<Rightarrow> element \<Rightarrow> py_error + string" where
  "node_to_text test_type test =
     rbind (read_test test) (\<lambda>i.
     rbind (rmap details_text (findall ''FailureDetails'' test)) (\<lambda>details.
     rbind (rmap (node_to_text ''Case'') (findall ''Test'' test)) (\<lambda>cases.
       Inr (result_line test_type i @ concat details @ concat cases))))"

declare node_to_text.simps [simp del]

definition example_line :: "element \<Rightarrow> py_error + string" where
  "example_line e =
     rbind (child_text ''Result'' e) (\<lambda>result.
     rbind (child_text ''Name'' e) (\<lambda>name.
       Inr (str result @ '': Example \"'' @ str name @ ''\" ('' @
         str (case find_child ''Time'' e of None \<Rightarrow> Some [] | Some t \<Rightarrow> map_of (attribs t) ''real'') @
         '')'' @ [NL])))"

definition translate_to_text :: "element \<Rightarrow> py_error + string" where
  "translate_to_text root =
     rbind (rmap (node_to_text ''Suite'') (findall ''Test'' root)) (\<lambda>tests.
     rbind (rmap example_line (findall ''Example'' root)) (\<lambda>examples.
       Inr (concat tests @ concat examples)))"

section \<open>The HTML report\<close>

definition ln :: "string \<Rightarrow> string" where "ln s = s @ [NL]"

definition suite_header :: "test_info \<Rightarrow> string" where
  "suite_header i =
     (let rest = str (info_result i) @ '': '' @ str (info_name i) @ '' ('' @ str (info_time i) @ '')'' in
      if info_result i = Some ''PASS'' then ln (''<h3 style=\"color:green\">'' @ rest @ ''</h3>'')
      else if info_result i = Some ''SKIP'' then
        ln (''<h3 style=\"color:#ff6600\">'' @ rest @ '' ('' @ str (info_reason i) @ '')</h3>'')
      else ln (''<h3 style=\"color:red\">'' @ rest @ ''</h3>''))"

definition html_field :: "string \<Rightarrow> string \<Rightarrow> element \<Rightarrow> string \<Rightarrow> py_error + string" where
  "html_field label t details sep =
     rbind (child_text t details) (\<lambda>x. Inr (''<b>'' @ label @ '': </b>'' @ str x @ sep))"

text \<open>One row of failure details; the row is closed with \<^verbatim>\<open></td>\<close>, as in the code.\<close>

definition details_row :: "test_info \<Rightarrow> bool \<Rightarrow> element \<Rightarrow> py_error + string" where
  "details_row i first_row details =
     rbind (html_field ''Message'' ''Message'' details '', '') (\<lambda>a.
     rbind (html_field ''Condition'' ''Condition'' details '', '') (\<lambda>b.
     rbind (html_field ''Actual'' ''Actual'' details '', '') (\<lambda>c.
     rbind (html_field ''Limit'' ''Limit'' details '', '') (\<lambda>d.
     rbind (html_field ''File'' ''File'' details '', '') (\<lambda>e.
     rbind (html_field ''Line'' ''Line'' details []) (\<lambda>f.
       Inr (ln ''<tr>'' @
         (if first_row then
            ln (''<td style=\"color:red\">'' @ str (info_result i) @ ''</td>'') @
            ln (''<td>'' @ str (info_name i) @ ''</td>'') @
            ln (''<td>'' @ str (info_time i) @ ''</td>'')
          else ln ''<td></td>'' @ ln ''<td></td>'' @ ln ''<td></td>'') @
         ''<td>'' @ a @ b @ c @ d @ e @ f @ ln ''</td>'' @ ln ''</td>'')))))))"

fun details_rows :: "test_info \<Rightarrow> bool \<Rightarrow> element list \<Rightarrow> py_error + string" where
  "details_rows i first_row [] = Inr []"
| "details_rows i first_row (d # ds) =
     rbind (details_row i first_row d) (\<lambda>r. rbind (details_rows i False ds) (\<lambda>rs. Inr (r @ rs)))"

definition case_rows :: "element \<Rightarrow> py_error + string" where
  "case_rows e =
     rbind (read_test e) (\<lambda>i.
       if info_result i = Some ''FAIL'' then details_rows i True (findall ''FailureDetails'' e)
       else Inr (ln ''<tr>'' @ ln (''<td style=\"color:green\">'' @ str (info_result i) @ ''</td>'') @
         ln (''<td>'' @ str (info_name i) @ ''</td>'') @ ln (''<td>'' @ str (info_time i) @ ''</td>'') @
         ln (''<td>'' @ str (info_reason i) @ ''</td>'') @ ln ''</tr>''))"

definition no_cases :: "string option \<Rightarrow> bool" where
  "no_cases result \<longleftrightarrow> result \<in> {Some ''CRASH'', Some ''SKIP'', Some ''VALGR''}"

definition suite_html :: "element \<Rightarrow> py_error + string" where
  "suite_html suite =
     rbind (read_test suite) (\<lambda>i.
       let start = suite_header i @ ln ''<table border=\"1\">'' @ ln ''<th> Result </th>'' in
       if no_cases (info_result i) then
         Inr (start @ ln ''<tr>'' @
           (if info_result i = Some ''SKIP''
            then ln (''<td style=\"color:#ff6600\">'' @ str (info_result i) @ ''</td>'')
            else ln (''<td style=\"color:red\">'' @ str (info_result i) @ ''</td>'')) @
           ln ''</tr>'' @ ln ''</table>'')
       else
         rbind (rmap case_rows (findall ''Test'' suite)) (\<lambda>rows.
           Inr (start @ ln ''<th>Test Case Name</th>'' @ ln ''<th> Time </th>'' @
             (if info_result i = Some ''FAIL'' then ln ''<th>Failure Details</th>'' else []) @
             concat rows @ ln ''</table>'')))"

text \<open>One example; the cell of a skipped one is closed with \<^verbatim>\<open></fd>\<close>, as in the code.\<close>

definition example_row :: "element \<Rightarrow> py_error + string" where
  "example_row e =
     rbind (read_test e) (\<lambda>i.
       Inr (ln ''<tr>'' @
         (if info_result i = Some ''PASS'' then
            ln (''<td style=\"color:green\">'' @ str (info_result i) @ ''</td>'')
          else if info_result i = Some ''SKIP'' then
            ln (''<td style=\"color:#ff6600\">'' @ str (info_result i) @ ''</fd>'')
          else ln (''<td style=\"color:red\">'' @ str (info_result i) @ ''</td>'')) @
         ln (''<td>'' @ str (info_name i) @ ''</td>'') @ ln (''<td>'' @ str (info_time i) @ ''</td>'') @
         ln (''<td>'' @ str (info_reason i) @ ''</td>'') @ ln ''</tr>''))"

definition translate_to_html :: "element \<Rightarrow> py_error + string" where
  "translate_to_html root =
     rbind (rmap suite_html (findall ''Test'' root)) (\<lambda>suites.
     rbind (rmap example_row (findall ''Example'' root)) (\<lambda>examples.
       Inr (ln ''<html>'' @ ln ''<body>'' @ ln ''<center><h1>ns-3 Test Results</h1></center>'' @
         ln ''<h2>Test Suites</h2>'' @ concat suites @ ln ''<h2>Examples</h2>'' @
         ln ''<table border=\"1\">'' @ ln ''<th> Result </th>'' @ ln ''<th>Example Name</th>'' @
         ln ''<th>Elapsed Time</th>'' @ ln ''<th>Details</th>'' @ concat examples @
         ln ''</table>'' @ ln ''</body>'' @ ln ''</html>'')))"

section \<open>What the text report contains\<close>

text \<open>The tests below an element in document order, each with the word the report uses.\<close>

fun tests_of :: "string \<Rightarrow> element \<Rightarrow> (string \<times> element) list" where
  "tests_of ty t = (ty, t) # concat (map (tests_of ''Case'') (findall ''Test'' t))"

declare tests_of.simps [simp del]

definition own_text :: "string \<times> element \<Rightarrow> py_error + string" where
  "own_text p = (case p of (ty, t) \<Rightarrow>
     rbind (read_test t) (\<lambda>i.
     rbind (rmap details_text (findall ''FailureDetails'' t)) (\<lambda>ds. Inr (result_line ty i @ concat ds))))"

lemma rbind_assoc: "rbind (rbind r f) g = rbind r (\<lambda>x. rbind (f x) g)"
  by (cases r) auto

lemma rmap_append:
  "rmap f (xs @ ys) = rbind (rmap f xs) (\<lambda>a. rbind (rmap f ys) (\<lambda>b. Inr (a @ b)))"
  by (induction xs) (auto simp: rbind_assoc rbind_def split: sum.splits)

lemma rmap_concat:
  assumes "\<And>x. x \<in> set xs \<Longrightarrow> h x = rbind (rmap f (g x)) (\<lambda>ys. Inr (concat ys))"
  shows "rbind (rmap h xs) (\<lambda>ys. Inr (concat ys)) = rbind (rmap f (concat (map g xs))) (\<lambda>ys. Inr (concat ys))"
  using assms
proof (induction xs)
  case (Cons x xs)
  have "rbind (rmap h (x # xs)) (\<lambda>ys. Inr (concat ys)) =
      rbind (h x) (\<lambda>a. rbind (rbind (rmap h xs) (\<lambda>ys. Inr (concat ys))) (\<lambda>b. Inr (a @ b)))"
    by (simp add: rbind_assoc)
  also have "\<dots> = rbind (rmap f (concat (map g (x # xs)))) (\<lambda>ys. Inr (concat ys))"
    using Cons by (simp add: rbind_assoc rmap_append)
  finally show ?case .
qed simp

lemma node_to_text_eq:
  "node_to_text ty t = rbind (rmap own_text (tests_of ty t)) (\<lambda>xs. Inr (concat xs))"
proof (induction "size t" arbitrary: ty t rule: less_induct)
  case less
  let ?sub = "concat (map (tests_of ''Case'') (findall ''Test'' t))"
  have "node_to_text ty t = rbind (own_text (ty, t)) (\<lambda>own.
      rbind (rbind (rmap (node_to_text ''Case'') (findall ''Test'' t)) (\<lambda>ys. Inr (concat ys))) (\<lambda>rest. Inr (own @ rest)))"
    by (simp add: node_to_text.simps [of ty t] own_text_def rbind_assoc)
  also have "rbind (rmap (node_to_text ''Case'') (findall ''Test'' t)) (\<lambda>ys. Inr (concat ys)) =
      rbind (rmap own_text ?sub) (\<lambda>ys. Inr (concat ys))"
    by (rule rmap_concat) (use less findall_smaller in blast)
  finally show ?case by (simp add: tests_of.simps [of ty t] rbind_assoc)
qed

text \<open>
  The text report is, test by test in document order at every depth, the result line
  of the test followed by its failure details, the outermost tests called suites and the
  inner ones cases, and then one line per example; it fails exactly when one of these lines
  cannot be written.
\<close>

theorem text_report_lines:
  "translate_to_text root =
     rbind (rmap own_text (concat (map (tests_of ''Suite'') (findall ''Test'' root)))) (\<lambda>tests.
     rbind (rmap example_line (findall ''Example'' root)) (\<lambda>examples.
       Inr (concat tests @ concat examples)))"
proof -
  have "rbind (rmap (node_to_text ''Suite'') (findall ''Test'' root)) (\<lambda>xs. Inr (concat xs)) =
      rbind (rmap own_text (concat (map (tests_of ''Suite'') (findall ''Test'' root)))) (\<lambda>xs. Inr (concat xs))"
    by (rule rmap_concat) (rule node_to_text_eq)
  then have "rbind (rbind (rmap (node_to_text ''Suite'') (findall ''Test'' root)) (\<lambda>xs. Inr (concat xs)))
      (\<lambda>tests. rbind (rmap example_line (findall ''Example'' root)) (\<lambda>examples. Inr (tests @ concat examples))) =
    rbind (rbind (rmap own_text (concat (map (tests_of ''Suite'') (findall ''Test'' root)))) (\<lambda>xs. Inr (concat xs)))
      (\<lambda>tests. rbind (rmap example_line (findall ''Example'' root)) (\<lambda>examples. Inr (tests @ concat examples)))"
    by simp
  then show ?thesis by (simp add: translate_to_text_def rbind_assoc)
qed

section \<open>When the HTML report nests\<close>

text \<open>
  A scanner of HTML: the state is the text of the tag being read (reversed), if any, and the
  stack of open tags; \<open>None\<close> once a closing tag does not match.
\<close>

type_synonym html_state = "(string option \<times> string list) option"

fun end_tag :: "string \<Rightarrow> string list \<Rightarrow> html_state" where
  "end_tag b st =
     (if startswith b ''/'' then
        (case st of [] \<Rightarrow> None | u # st' \<Rightarrow> if u = tl b then Some (None, st') else None)
      else Some (None, takeWhile (\<lambda>c. c \<noteq> CHR '' '') b # st))"

fun feed_char :: "html_state \<Rightarrow> char \<Rightarrow> html_state" where
  "feed_char None c = None"
| "feed_char (Some (None, st)) c = Some (if c = CHR ''<'' then Some [] else None, st)"
| "feed_char (Some (Some acc, st)) c =
     (if c = CHR ''>'' then end_tag (rev acc) st else Some (Some (c # acc), st))"

definition feed :: "string list \<Rightarrow> string \<Rightarrow> html_state" where
  "feed st s = foldl feed_char (Some (None, st)) s"

definition well_nested :: "string \<Rightarrow> bool" where
  "well_nested s \<longleftrightarrow> feed [] s = Some (None, [])"

definition neutral :: "string \<Rightarrow> bool" where
  "neutral s \<longleftrightarrow> (\<forall>st. feed st s = Some (None, st))"

definition broken :: "string \<Rightarrow> bool" where
  "broken s \<longleftrightarrow> (\<forall>st. feed st s = None)"

lemma feed_stuck [simp]: "foldl feed_char None s = None"
  by (induction s) auto

lemma feed_append:
  "feed st s = Some (None, st') \<Longrightarrow> feed st (s @ t) = feed st' t"
  by (simp add: feed_def)

lemma feed_append_None: "feed st s = None \<Longrightarrow> feed st (s @ t) = None"
  by (simp add: feed_def)

lemma neutral_append [simp]: "neutral s \<Longrightarrow> neutral t \<Longrightarrow> neutral (s @ t)"
  by (simp add: neutral_def feed_append)

lemma neutral_if: "neutral s \<Longrightarrow> neutral t \<Longrightarrow> neutral (if b then s else t)"
  by simp

lemma neutral_broken: "neutral s \<Longrightarrow> broken t \<Longrightarrow> broken (s @ t)"
  by (simp add: neutral_def broken_def feed_append)

lemma broken_append: "broken s \<Longrightarrow> broken (s @ t)"
  by (simp add: broken_def feed_append_None)

lemma neutral_plain: "CHR ''<'' \<notin> set s \<Longrightarrow> neutral s"
proof -
  have "CHR ''<'' \<notin> set s \<Longrightarrow> foldl feed_char (Some (None, st)) s = Some (None, st)" for st
    by (induction s) auto
  then show "CHR ''<'' \<notin> set s \<Longrightarrow> neutral s" by (simp add: neutral_def feed_def)
qed

text \<open>The tags the report uses; every other literal piece is computed.\<close>

lemma neutral_in:
  assumes "neutral s" "\<And>st. feed st a = Some (None, t # st)" "\<And>st. feed (t # st) b = Some (None, st)"
  shows "neutral (a @ s @ b)"
  using assms by (simp add: neutral_def feed_append)

lemma broken_in:
  assumes "broken s" "\<And>st. feed st a = Some (None, t # st)"
  shows "broken (a @ s)"
  using assms by (simp add: broken_def feed_append)

lemma neutral_concat:
  assumes "\<And>x. x \<in> set xs \<Longrightarrow> if bad x then broken (f x) else neutral (f x)"
  shows "if \<exists>x \<in> set xs. bad x then broken (concat (map f xs)) else neutral (concat (map f xs))"
  using assms
proof (induction xs)
  case (Cons x xs)
  then have "if \<exists>x \<in> set xs. bad x then broken (concat (map f xs)) else neutral (concat (map f xs))" by simp
  with Cons.prems [of x] show ?case by (auto intro: broken_append neutral_broken split: if_splits)
qed (simp add: neutral_plain)

lemma rmap_Inr:
  "rmap f xs = Inr ys \<Longrightarrow> (\<forall>x \<in> set xs. f x = Inr (projr (f x))) \<and> ys = map (\<lambda>x. projr (f x)) xs"
  by (induction xs arbitrary: ys) (auto simp: rbind_iffs)

text \<open>A document none of whose texts contains a \<^verbatim>\<open><\<close>.\<close>

definition plain_opt :: "string option \<Rightarrow> bool" where
  "plain_opt x \<longleftrightarrow> CHR ''<'' \<notin> set (str x)"

fun plain_doc :: "element \<Rightarrow> bool" where
  "plain_doc (Element t as c cs) \<longleftrightarrow>
     plain_opt c \<and> (\<forall>a \<in> set as. CHR ''<'' \<notin> set (snd a)) \<and> (\<forall>e \<in> set cs. plain_doc e)"

lemma plain_docD:
  assumes "plain_doc e"
  shows "plain_opt (content e)" and "plain_opt (map_of (attribs e) k)"
    and "c \<in> set (findall t e) \<Longrightarrow> plain_doc c" and "find_child t e = Some c \<Longrightarrow> plain_doc c"
proof -
  obtain t' as c' cs where e: "e = Element t' as c' cs" by (cases e)
  show "plain_opt (content e)" using assms e by simp
  show "plain_opt (map_of (attribs e) k)" using assms e
    by (cases "map_of as k") (auto simp: plain_opt_def str_def dest!: map_of_SomeD)
  show "plain_doc c" if "c \<in> set (findall t e)" using that assms e by (simp add: findall_def)
  show "plain_doc c" if "find_child t e = Some c"
    using that assms e by (auto simp: find_child_def find_Some_iff)
qed

lemma neutral_opt: "plain_opt x \<Longrightarrow> neutral (str x)"
  by (simp add: plain_opt_def neutral_plain)

lemma plain_opt_empty: "plain_opt (Some [])"
  by (simp add: plain_opt_def str_def)

lemma find_child_plain:
  assumes "plain_doc e" "find_child t e = Some c"
  shows "plain_opt (content c)" and "plain_opt (map_of (attribs c) k)"
  using plain_docD(1,2) [OF plain_docD(4) [OF assms]] by auto

lemma child_text_plain: "plain_doc e \<Longrightarrow> child_text t e = Inr x \<Longrightarrow> plain_opt x"
  by (auto simp: child_text_def dest: plain_docD split: option.splits)

definition plain_info :: "test_info \<Rightarrow> bool" where
  "plain_info i \<longleftrightarrow> plain_opt (info_result i) \<and> plain_opt (info_name i) \<and>
     plain_opt (info_reason i) \<and> plain_opt (info_time i)"

lemma read_test_plain: "plain_doc e \<Longrightarrow> read_test e = Inr i \<Longrightarrow> plain_info i"
  by (auto simp: read_test_def rbind_iffs plain_info_def plain_opt_empty
      intro: child_text_plain find_child_plain split: option.splits)

lemma neutral_ln: "neutral s \<Longrightarrow> neutral (ln s)"
  unfolding ln_def by (intro neutral_append) (auto intro: neutral_plain simp: NL_def)

lemma neutral_td: "neutral s \<Longrightarrow> neutral (''<td>'' @ s @ ''</td>'')"
  by (rule neutral_in [where t = "''td''"]) (simp_all add: feed_def startswith_def)

lemma neutral_td_style: "neutral s \<Longrightarrow> neutral (''<td style=\"color:green\">'' @ s @ ''</td>'')"
    "neutral s \<Longrightarrow> neutral (''<td style=\"color:red\">'' @ s @ ''</td>'')"
    "neutral s \<Longrightarrow> neutral (''<td style=\"color:#ff6600\">'' @ s @ ''</td>'')"
  by (rule neutral_in [where t = "''td''"]; simp add: feed_def startswith_def)+

lemma neutral_h3: "neutral s \<Longrightarrow> neutral (''<h3 style=\"color:green\">'' @ s @ ''</h3>'')"
    "neutral s \<Longrightarrow> neutral (''<h3 style=\"color:red\">'' @ s @ ''</h3>'')"
    "neutral s \<Longrightarrow> neutral (''<h3 style=\"color:#ff6600\">'' @ s @ '')</h3>'')"
  by (rule neutral_in [where t = "''h3''"]; simp add: feed_def startswith_def)+

lemma neutral_tr: "neutral s \<Longrightarrow> neutral (ln ''<tr>'' @ s @ ln ''</tr>'')"
  by (rule neutral_in [where t = "''tr''"]) (simp_all add: feed_def startswith_def ln_def NL_def)

lemma neutral_table: "neutral s \<Longrightarrow> neutral (ln ''<table border=\"1\">'' @ s @ ln ''</table>'')"
  by (rule neutral_in [where t = "''table''"]) (simp_all add: feed_def startswith_def ln_def NL_def)

lemma neutral_headings:
  "neutral (ln ''<th> Result </th>'')" "neutral (ln ''<th>Test Case Name</th>'')"
  "neutral (ln ''<th> Time </th>'')" "neutral (ln ''<th>Failure Details</th>'')"
  "neutral (ln ''<th>Example Name</th>'')" "neutral (ln ''<th>Elapsed Time</th>'')"
  "neutral (ln ''<th>Details</th>'')" "neutral (ln ''<h2>Test Suites</h2>'')"
  "neutral (ln ''<h2>Examples</h2>'')" "neutral (ln ''<center><h1>ns-3 Test Results</h1></center>'')"
  by (simp_all add: neutral_def feed_def startswith_def ln_def NL_def)

lemma neutral_bold: "neutral x \<Longrightarrow> CHR ''<'' \<notin> set label \<Longrightarrow> CHR ''<'' \<notin> set sep \<Longrightarrow>
    neutral (''<b>'' @ label @ '': </b>'' @ x @ sep)"
proof -
  assume x: "neutral x" and l: "CHR ''<'' \<notin> set label" "CHR ''<'' \<notin> set sep"
  have "neutral (''<b>'' @ label @ '': </b>'')"
    by (rule neutral_in [where t = "''b''"]) (simp_all add: neutral_plain l feed_def startswith_def)
  from neutral_append [OF this neutral_append [OF x neutral_plain [OF l(2)]]] show ?thesis by simp
qed

lemmas neutral_rules = neutral_append neutral_ln neutral_td neutral_td_style neutral_h3 neutral_tr
  neutral_table neutral_headings neutral_opt

lemma html_field_neutral:
  "plain_doc d \<Longrightarrow> html_field l t d sep = Inr s \<Longrightarrow> CHR ''<'' \<notin> set l \<Longrightarrow> CHR ''<'' \<notin> set sep \<Longrightarrow> neutral s"
  by (auto simp: html_field_def rbind_iffs simp del: append.simps intro!: neutral_bold neutral_opt
      dest: child_text_plain)

text \<open>A row of failure details breaks the nesting: a row is still open where \<^verbatim>\<open></td>\<close> comes.\<close>

lemma details_row_broken:
  assumes "plain_doc d" "plain_info i" "details_row i fr d = Inr s"
  shows "broken s"
proof -
  obtain a b c dd e f where
    x: "html_field ''Message'' ''Message'' d '', '' = Inr a" "html_field ''Condition'' ''Condition'' d '', '' = Inr b"
    "html_field ''Actual'' ''Actual'' d '', '' = Inr c" "html_field ''Limit'' ''Limit'' d '', '' = Inr dd"
    "html_field ''File'' ''File'' d '', '' = Inr e" "html_field ''Line'' ''Line'' d [] = Inr f"
    and s: "s = ln ''<tr>'' @
         (if fr then
            ln (''<td style=\"color:red\">'' @ str (info_result i) @ ''</td>'') @
            ln (''<td>'' @ str (info_name i) @ ''</td>'') @
            ln (''<td>'' @ str (info_time i) @ ''</td>'')
          else ln ''<td></td>'' @ ln ''<td></td>'' @ ln ''<td></td>'') @
         ''<td>'' @ a @ b @ c @ dd @ e @ f @ ln ''</td>'' @ ln ''</td>''"
    using assms(3) unfolding details_row_def by (simp only: rbind_iffs) blast
  have n: "neutral a" "neutral b" "neutral c" "neutral dd" "neutral e" "neutral f"
    using x html_field_neutral [OF assms(1)] by auto
  let ?cells = "if fr then
            ln (''<td style=\"color:red\">'' @ str (info_result i) @ ''</td>'') @
            ln (''<td>'' @ str (info_name i) @ ''</td>'') @
            ln (''<td>'' @ str (info_time i) @ ''</td>'')
          else ln ''<td></td>'' @ ln ''<td></td>'' @ ln ''<td></td>''"
  have e: "neutral (ln ''<td></td>'')" by (simp add: neutral_def feed_def startswith_def ln_def NL_def)
  have "neutral (ln (''<td style=\"color:red\">'' @ str (info_result i) @ ''</td>'') @
            ln (''<td>'' @ str (info_name i) @ ''</td>'') @ ln (''<td>'' @ str (info_time i) @ ''</td>''))"
    using assms(2) unfolding plain_info_def by (intro neutral_rules) blast+
  then have c: "neutral ?cells" using e by (simp only: neutral_append if_splits) simp
  have m: "neutral (''<td>'' @ (a @ b @ c @ dd @ e @ f) @ ln ''</td>'')"
    by (rule neutral_in [where t = "''td''"])
      (use n in \<open>simp_all add: feed_def startswith_def ln_def NL_def\<close>)
  have "feed st s = None" for st
  proof -
    have "feed st s = feed (''tr'' # st) (?cells @ (''<td>'' @ (a @ b @ c @ dd @ e @ f) @ ln ''</td>'') @ ln ''</td>'')"
      unfolding s by (subst feed_append [where st' = "''tr'' # st"]) (simp_all add: feed_def ln_def NL_def startswith_def)
    also have "\<dots> = feed (''tr'' # st) (ln ''</td>'')"
      using c m unfolding neutral_def by (simp only: feed_append)
    also have "\<dots> = None" by (simp add: feed_def ln_def NL_def startswith_def)
    finally show ?thesis .
  qed
  then show ?thesis by (simp add: broken_def)
qed

definition bad_case :: "element \<Rightarrow> bool" where
  "bad_case e \<longleftrightarrow> child_text ''Result'' e = Inr (Some ''FAIL'') \<and> findall ''FailureDetails'' e \<noteq> []"

definition bad_suite :: "element \<Rightarrow> bool" where
  "bad_suite e \<longleftrightarrow> (\<exists>r. child_text ''Result'' e = Inr r \<and> \<not> no_cases r) \<and>
     (\<exists>c \<in> set (findall ''Test'' e). bad_case c)"

definition bad_example :: "element \<Rightarrow> bool" where
  "bad_example e \<longleftrightarrow> child_text ''Result'' e = Inr (Some ''SKIP'')"

lemma read_test_result: "read_test e = Inr i \<Longrightarrow> child_text ''Result'' e = Inr (info_result i)"
  by (auto simp: read_test_def rbind_iffs)

lemma case_rows_nesting:
  assumes "plain_doc e" "case_rows e = Inr s"
  shows "if bad_case e then broken s else neutral s"
proof -
  obtain i where i: "read_test e = Inr i" and
    s: "(if info_result i = Some ''FAIL'' then details_rows i True (findall ''FailureDetails'' e)
       else Inr (ln ''<tr>'' @ ln (''<td style=\"color:green\">'' @ str (info_result i) @ ''</td>'') @
         ln (''<td>'' @ str (info_name i) @ ''</td>'') @ ln (''<td>'' @ str (info_time i) @ ''</td>'') @
         ln (''<td>'' @ str (info_reason i) @ ''</td>'') @ ln ''</tr>'')) = Inr s"
    using assms(2) unfolding case_rows_def rbind_Inr_iff by blast
  note p = read_test_plain [OF assms(1) i]
  show ?thesis
  proof (cases "info_result i = Some ''FAIL''")
    case True
    then have b: "bad_case e \<longleftrightarrow> findall ''FailureDetails'' e \<noteq> []"
      using read_test_result [OF i] by (simp add: bad_case_def)
    have r: "details_rows i True (findall ''FailureDetails'' e) = Inr s" using s True by simp
    show ?thesis
    proof (cases "findall ''FailureDetails'' e")
      case Nil
      then show ?thesis using b r by (simp add: neutral_plain)
    next
      case (Cons d ds)
      then obtain row rows where *: "details_row i True d = Inr row" "s = row @ rows"
        using r by (auto simp: rbind_iffs)
      have "plain_doc d" using plain_docD(3) [OF assms(1), of d "''FailureDetails''"] Cons by simp
      from details_row_broken [OF this p *(1)] show ?thesis using b Cons *(2) broken_append by simp
    qed
  next
    case False
    then have "\<not> bad_case e" using read_test_result [OF i] by (simp add: bad_case_def)
    moreover have "neutral (ln ''<tr>'' @ (ln (''<td style=\"color:green\">'' @ str (info_result i) @ ''</td>'') @
         ln (''<td>'' @ str (info_name i) @ ''</td>'') @ ln (''<td>'' @ str (info_time i) @ ''</td>'') @
         ln (''<td>'' @ str (info_reason i) @ ''</td>'')) @ ln ''</tr>'')"
      using p unfolding plain_info_def by (intro neutral_rules) blast+
    ultimately show ?thesis using s False by (simp only: if_False sum.inject append.assoc)
  qed
qed

lemma suite_html_nesting:
  assumes "plain_doc e" "suite_html e = Inr s"
  shows "if bad_suite e then broken s else neutral s"
proof -
  obtain i where i: "read_test e = Inr i" and
    s: "(let start = suite_header i @ ln ''<table border=\"1\">'' @ ln ''<th> Result </th>'' in
       if no_cases (info_result i) then
         Inr (start @ ln ''<tr>'' @
           (if info_result i = Some ''SKIP''
            then ln (''<td style=\"color:#ff6600\">'' @ str (info_result i) @ ''</td>'')
            else ln (''<td style=\"color:red\">'' @ str (info_result i) @ ''</td>'')) @
           ln ''</tr>'' @ ln ''</table>'')
       else
         rbind (rmap case_rows (findall ''Test'' e)) (\<lambda>rows.
           Inr (start @ ln ''<th>Test Case Name</th>'' @ ln ''<th> Time </th>'' @
             (if info_result i = Some ''FAIL'' then ln ''<th>Failure Details</th>'' else []) @
             concat rows @ ln ''</table>''))) = Inr s"
    using assms(2) unfolding suite_html_def rbind_Inr_iff by blast
  note p = read_test_plain [OF assms(1) i]
  have ascii: "CHR ''<'' \<notin> set '': ''" "CHR ''<'' \<notin> set '' (''" "CHR ''<'' \<notin> set '')''" by simp_all
  have rest: "neutral (str (info_result i) @ '': '' @ str (info_name i) @ '' ('' @ str (info_time i) @ '')'')"
    using p ascii unfolding plain_info_def by (intro neutral_append neutral_opt neutral_plain) blast+
  have "neutral ((str (info_result i) @ '': '' @ str (info_name i) @ '' ('' @ str (info_time i) @ '')'') @
      '' ('' @ str (info_reason i))"
    using p ascii rest unfolding plain_info_def by (intro neutral_append neutral_opt neutral_plain) blast+
  note headers = neutral_ln [OF neutral_h3(1) [OF rest]] neutral_ln [OF neutral_h3(2) [OF rest]]
    neutral_ln [OF neutral_h3(3) [OF this]]
  have h: "neutral (suite_header i)" unfolding suite_header_def Let_def
    using headers unfolding append.assoc by (simp only: split: if_split) blast
  have bad: "bad_suite e \<longleftrightarrow> \<not> no_cases (info_result i) \<and> (\<exists>c \<in> set (findall ''Test'' e). bad_case c)"
    using read_test_result [OF i] by (simp add: bad_suite_def)
  show ?thesis
  proof (cases "no_cases (info_result i)")
    case True
    have "neutral (if info_result i = Some ''SKIP''
            then ln (''<td style=\"color:#ff6600\">'' @ str (info_result i) @ ''</td>'')
            else ln (''<td style=\"color:red\">'' @ str (info_result i) @ ''</td>''))" (is "neutral ?cell")
      using p unfolding plain_info_def by (intro neutral_if neutral_rules) blast+
    from neutral_append [OF h neutral_table [OF neutral_append [OF neutral_headings(1) neutral_tr [OF this]]]]
    show ?thesis using s True bad by (simp only: Let_def if_True sum.inject append.assoc) simp
  next
    case False
    obtain rows where rows: "rmap case_rows (findall ''Test'' e) = Inr rows" and
      s': "s = suite_header i @ ln ''<table border=\"1\">'' @ ln ''<th> Result </th>'' @
        ln ''<th>Test Case Name</th>'' @ ln ''<th> Time </th>'' @
        (if info_result i = Some ''FAIL'' then ln ''<th>Failure Details</th>'' else []) @
        concat rows @ ln ''</table>''"
      using s False by (auto simp: rbind_iffs Let_def)
    let ?heads = "ln ''<th> Result </th>'' @ ln ''<th>Test Case Name</th>'' @ ln ''<th> Time </th>'' @
        (if info_result i = Some ''FAIL'' then ln ''<th>Failure Details</th>'' else [])"
    have heads: "neutral ?heads"
      by (intro neutral_append neutral_headings) (use neutral_headings(4) neutral_plain [of "[]"] in simp)
    have each: "if bad_case c then broken (projr (case_rows c)) else neutral (projr (case_rows c))"
      if "c \<in> set (findall ''Test'' e)" for c
      using case_rows_nesting [OF plain_docD(3) [OF assms(1) that]] rmap_Inr [OF rows] that by blast
    have rows_eq: "rows = map (\<lambda>c. projr (case_rows c)) (findall ''Test'' e)" using rmap_Inr [OF rows] by blast
    note all = neutral_concat [of "findall ''Test'' e" bad_case, OF each, folded rows_eq]
    have s'': "s = suite_header i @ (ln ''<table border=\"1\">'' @ (?heads @ concat rows) @ ln ''</table>'')"
      unfolding s' by simp
    show ?thesis
    proof (cases "\<exists>c \<in> set (findall ''Test'' e). bad_case c")
      case True
      then have "broken (concat rows)" using all by simp
      then have "broken ((?heads @ concat rows) @ ln ''</table>'')" using heads neutral_broken broken_append by blast
      then have "broken (ln ''<table border=\"1\">'' @ (?heads @ concat rows) @ ln ''</table>'')"
        by (rule broken_in [where t = "''table''"]) (simp add: feed_def ln_def NL_def startswith_def)
      from neutral_broken [OF h this] show ?thesis using bad False True unfolding s'' by simp
    next
      case none: False
      then have "neutral (concat rows)" using all by simp
      from neutral_append [OF h neutral_table [OF neutral_append [OF heads this]]]
      show ?thesis using bad none unfolding s'' by simp
    qed
  qed
qed

lemma example_row_nesting:
  assumes "plain_doc e" "example_row e = Inr s"
  shows "if bad_example e then broken s else neutral s"
proof -
  obtain i where i: "read_test e = Inr i" and
    s: "s = ln ''<tr>'' @
         (if info_result i = Some ''PASS'' then
            ln (''<td style=\"color:green\">'' @ str (info_result i) @ ''</td>'')
          else if info_result i = Some ''SKIP'' then
            ln (''<td style=\"color:#ff6600\">'' @ str (info_result i) @ ''</fd>'')
          else ln (''<td style=\"color:red\">'' @ str (info_result i) @ ''</td>'')) @
         ln (''<td>'' @ str (info_name i) @ ''</td>'') @ ln (''<td>'' @ str (info_time i) @ ''</td>'') @
         ln (''<td>'' @ str (info_reason i) @ ''</td>'') @ ln ''</tr>''"
    using assms(2) unfolding example_row_def rbind_Inr_iff by blast
  note p = read_test_plain [OF assms(1) i]
  have bad: "bad_example e \<longleftrightarrow> info_result i = Some ''SKIP''"
    using read_test_result [OF i] by (simp add: bad_example_def)
  let ?cells = "ln (''<td>'' @ str (info_name i) @ ''</td>'') @ ln (''<td>'' @ str (info_time i) @ ''</td>'') @
         ln (''<td>'' @ str (info_reason i) @ ''</td>'')"
  have cells: "neutral ?cells" using p unfolding plain_info_def by (intro neutral_rules) blast+
  show ?thesis
  proof (cases "info_result i = Some ''SKIP''")
    case True
    have s': "s = ln ''<tr>'' @ (ln (''<td style=\"color:#ff6600\">SKIP</fd>'') @ ?cells @ ln ''</tr>'')"
      unfolding s using True by (simp add: str_def)
    have "broken (ln (''<td style=\"color:#ff6600\">SKIP</fd>''))"
      by (simp add: broken_def feed_def ln_def NL_def startswith_def)
    then have "broken (ln (''<td style=\"color:#ff6600\">SKIP</fd>'') @ ?cells @ ln ''</tr>'')" by (rule broken_append)
    then have "broken s" unfolding s'
      by (rule broken_in [where t = "''tr''"]) (simp add: feed_def ln_def NL_def startswith_def)
    then show ?thesis using bad True by simp
  next
    case False
    let ?cell = "if info_result i = Some ''PASS'' then
            ln (''<td style=\"color:green\">'' @ str (info_result i) @ ''</td>'')
          else ln (''<td style=\"color:red\">'' @ str (info_result i) @ ''</td>'')"
    have "neutral ?cell"
      using p unfolding plain_info_def by (intro neutral_if neutral_rules) blast+
    from neutral_tr [OF neutral_append [OF this cells]]
    have "neutral s" unfolding s using False by (simp only: if_False append.assoc)
    then show ?thesis using bad False by simp
  qed
qed

text \<open>The entries of a report, the table of examples and the frame of the page, one by one.\<close>

lemma entries_nesting:
  assumes "rmap f cs = Inr ss" "\<And>c s. c \<in> set cs \<Longrightarrow> f c = Inr s \<Longrightarrow> if bad c then broken s else neutral s"
  shows "if \<exists>c \<in> set cs. bad c then broken (concat ss) else neutral (concat ss)"
proof -
  note r = rmap_Inr [OF assms(1)]
  have "if bad c then broken (projr (f c)) else neutral (projr (f c))" if "c \<in> set cs" for c
    using assms(2) [OF that] r that by blast
  note n = neutral_concat [of cs bad, OF this]
  have "ss = map (\<lambda>c. projr (f c)) cs" using r by blast
  then show ?thesis using n by simp
qed

definition example_heads :: string where
  "example_heads = ln ''<th> Result </th>'' @ ln ''<th>Example Name</th>'' @ ln ''<th>Elapsed Time</th>'' @
     ln ''<th>Details</th>''"

definition example_table :: "string \<Rightarrow> string" where
  "example_table rows = ln ''<table border=\"1\">'' @ (example_heads @ rows) @ ln ''</table>''"

lemma example_table_nesting:
  shows "broken rows \<Longrightarrow> broken (example_table rows)" and "neutral rows \<Longrightarrow> neutral (example_table rows)"
proof -
  have heads: "neutral example_heads"
    unfolding example_heads_def by (intro neutral_append neutral_headings)+
  show "neutral (example_table rows)" if "neutral rows"
    unfolding example_table_def by (rule neutral_table [OF neutral_append [OF heads that]])
  show "broken (example_table rows)" if "broken rows"
  proof -
    have "broken ((example_heads @ rows) @ ln ''</table>'')"
      by (intro broken_append neutral_broken [OF heads] that)
    then show ?thesis unfolding example_table_def
      by (rule broken_in [where t = "''table''"]) (simp add: feed_def ln_def NL_def startswith_def)
  qed
qed

definition page :: "string \<Rightarrow> string" where
  "page body = (ln ''<html>'' @ ln ''<body>'') @ body @ (ln ''</body>'' @ ln ''</html>'')"

lemma page_nesting:
  shows "neutral body \<Longrightarrow> well_nested (page body)" and "broken body \<Longrightarrow> \<not> well_nested (page body)"
proof -
  have front: "feed [] ((ln ''<html>'' @ ln ''<body>'') @ x) = feed [''body'', ''html''] x" for x
    by (rule feed_append) (simp add: feed_def ln_def NL_def startswith_def)
  have closing: "feed [''body'', ''html''] (ln ''</body>'' @ ln ''</html>'') = Some (None, [])"
    by (simp add: feed_def ln_def NL_def startswith_def)
  show "well_nested (page body)" if "neutral body"
    unfolding well_nested_def page_def front using that closing by (simp only: neutral_def feed_append)
  show "\<not> well_nested (page body)" if "broken body"
    unfolding well_nested_def page_def front using that by (simp only: broken_def feed_append_None) simp
qed

lemma report_parts:
  assumes "translate_to_html root = Inr html"
  obtains suites examples where "rmap suite_html (findall ''Test'' root) = Inr suites"
    "rmap example_row (findall ''Example'' root) = Inr examples"
    "html = page ((ln ''<center><h1>ns-3 Test Results</h1></center>'' @ ln ''<h2>Test Suites</h2>'') @
      concat suites @ ln ''<h2>Examples</h2>'' @ example_table (concat examples))"
proof -
  obtain suites examples where "rmap suite_html (findall ''Test'' root) = Inr suites"
    "rmap example_row (findall ''Example'' root) = Inr examples"
    "html = ln ''<html>'' @ ln ''<body>'' @ ln ''<center><h1>ns-3 Test Results</h1></center>'' @
         ln ''<h2>Test Suites</h2>'' @ concat suites @ ln ''<h2>Examples</h2>'' @
         ln ''<table border=\"1\">'' @ ln ''<th> Result </th>'' @ ln ''<th>Example Name</th>'' @
         ln ''<th>Elapsed Time</th>'' @ ln ''<th>Details</th>'' @ concat examples @
         ln ''</table>'' @ ln ''</body>'' @ ln ''</html>''"
    using assms unfolding translate_to_html_def rbind_Inr_iff by blast
  then show ?thesis by (intro that) (simp_all only: page_def example_table_def example_heads_def append.assoc)
qed

text \<open>
  When no text of the results document contains a \<^verbatim>\<open><\<close>, the tags of the HTML report
  nest properly exactly when no listed test case failed with details and no example was
  skipped; in those two cases a row or a cell is closed with the wrong tag.
\<close>

theorem html_report_nesting:
  assumes "plain_doc root" "translate_to_html root = Inr html"
  shows "well_nested html \<longleftrightarrow>
    \<not> (\<exists>s \<in> set (findall ''Test'' root). bad_suite s) \<and> \<not> (\<exists>e \<in> set (findall ''Example'' root). bad_example e)"
proof -
  let ?pre = "ln ''<center><h1>ns-3 Test Results</h1></center>'' @ ln ''<h2>Test Suites</h2>''"
  obtain suites examples where su: "rmap suite_html (findall ''Test'' root) = Inr suites"
    and ex: "rmap example_row (findall ''Example'' root) = Inr examples"
    and h: "html = page (?pre @ concat suites @ ln ''<h2>Examples</h2>'' @ example_table (concat examples))"
    using report_parts [OF assms(2)] .
  note s = entries_nesting [OF su suite_html_nesting [OF plain_docD(3) [OF assms(1)]]]
  note e = entries_nesting [OF ex example_row_nesting [OF plain_docD(3) [OF assms(1)]]]
  have pre: "neutral ?pre" by (intro neutral_append neutral_headings)
  consider (suite) "\<exists>s \<in> set (findall ''Test'' root). bad_suite s"
    | (exa) "\<not> (\<exists>s \<in> set (findall ''Test'' root). bad_suite s)" "\<exists>e \<in> set (findall ''Example'' root). bad_example e"
    | (fine) "\<not> (\<exists>s \<in> set (findall ''Test'' root). bad_suite s)" "\<not> (\<exists>e \<in> set (findall ''Example'' root). bad_example e)"
    by blast
  then show ?thesis
  proof cases
    case suite
    have "\<not> well_nested html" unfolding h using suite s
      by (intro page_nesting(2) neutral_broken [OF pre] broken_append) simp
    with suite show ?thesis by blast
  next
    case exa
    have ns: "neutral (concat suites)" "broken (concat examples)" using exa s e by simp_all
    have "\<not> well_nested html" unfolding h
      by (intro page_nesting(2) neutral_broken [OF pre] neutral_broken [OF ns(1)]
          neutral_broken [OF neutral_headings(9)] example_table_nesting(1) ns(2))
    with exa show ?thesis by blast
  next
    case fine
    have ns: "neutral (concat suites)" "neutral (concat examples)" using fine s e by simp_all
    have "well_nested html" unfolding h
      by (intro page_nesting(1) neutral_append pre ns(1) neutral_headings(9) example_table_nesting(2) ns(2))
    with fine show ?thesis by blast
  qed
qed

theorem html_report_nesting_witness:
  "\<exists>html. translate_to_html (Element ''Results'' [] None
     [Element ''Example'' [] None [Element ''Name'' [] (Some ''udp'') [], Element ''Result'' [] (Some ''SKIP'') []]]) =
     Inr html \<and> \<not> well_nested html"
proof -
  let ?e = "Element ''Example'' [] None [Element ''Name'' [] (Some ''udp'') [], Element ''Result'' [] (Some ''SKIP'') []]"
  let ?root = "Element ''Results'' [] None [?e]"
  have p: "plain_doc ?root" by (simp add: plain_opt_def str_def)
  obtain html where h: "translate_to_html ?root = Inr html"
    by (simp add: translate_to_html_def example_row_def read_test_def child_text_def find_child_def findall_def)
  from html_report_nesting [OF p h] have "\<not> well_nested html"
    by (simp add: findall_def bad_example_def child_text_def find_child_def)
  with h show ?thesis by blast
qed

end
