(* ===== verification/Test_Run.thy ===== *)
theory Test_Run
  imports Test_Workers Test_Report
begin

text \<open>
  \<^verbatim>\<open>test.py\<close>: \<open>run_tests\<close> as a whole. \<open>run_tests_prepare\<close> is everything it does before the
  worker threads: the build, the lock file, the examples, the listings of \<open>--kinds\<close> and
  \<open>--list\<close>, and the jobs; what the threads do with them is \<^verbatim>\<open>Test_Workers\<close>; \<open>write_reports\<close> is
  what is written after the summary. The configuration is the record \<open>c\<close> of the globals
  \<open>read_ns3_config\<close> leaves.
\<close>

section \<open>Listings\<close>

definition list_output :: "string \<Rightarrow> string list \<Rightarrow> string list" where
  "list_output standard_out example_names =
     [''Test Type    Test Name'', ''---------    ---------''] @
     filter (\<lambda>item. strip item \<noteq> []) (sort (split_on NL standard_out)) @
     map (\<lambda>item. ''example      '' @ item) (sort example_names) @ [[]]"

definition list_failure :: "int \<Rightarrow> string list" where
  "list_failure rc =
     [''test.py error:  test-runner return code returned '' @ show_int rc,
      ''To debug, try running '' @ [CHR 0x27] @ ''./ns3 run \"test-runner --print-test-name-list\"'' @ [CHR 0x27, NL]]"

definition ask :: "ns3_config \<Rightarrow> shell \<Rightarrow> string \<Rightarrow> string \<Rightarrow> py_error + proc_result" where
  "ask c run cwd args =
     run_job_synchronously c run (path_join2 ''utils'' (test_runner_name c @ args)) cwd False False []"

text \<open>
  What \<open>--kinds\<close> and \<open>--list\<close> print; \<open>None\<close> stands for bytes that do not decode, printed as
  they are. A failed \<open>--list\<close> ends the function like a successful one.
\<close>

definition listings ::
    "ns3_config \<Rightarrow> options \<Rightarrow> shell \<Rightarrow> string \<Rightarrow> string list \<Rightarrow> py_error + string option list" where
  "listings c os run cwd example_names =
     rbind
       (if kinds os then rbind (ask c run cwd '' --print-test-type-list'') (\<lambda>r. Inr [proc_out r])
        else Inr []) (\<lambda>printed_kinds.
     rbind
       (if list_tests os then
          rbind (ask c run cwd
              (if constrain os \<noteq> []
               then '' --print-test-name-list --print-test-types --test-type='' @ constrain os
               else '' --print-test-name-list --print-test-types'')) (\<lambda>r.
            if proc_code r \<noteq> 0 then Inr (map Some (list_failure (proc_code r)))
            else (case proc_out r of
                None \<Rightarrow> Inl AttributeError
              | Some standard_out \<Rightarrow> Inr (map Some (list_output standard_out example_names))))
        else Inr []) (\<lambda>printed_list. Inr (printed_kinds @ printed_list)))"

section \<open>Before the threads\<close>

text \<open>
  Either \<open>run_tests\<close> returns (\<open>None\<close> is Python's \<open>None\<close>) having printed something, or the jobs
  go to that many worker threads.
\<close>

datatype plan = Returned "int option" "string option list" | Run_Jobs "Job list" nat

definition string_items :: "py_value \<Rightarrow> py_error + string list" where
  "string_items v = rbind (items v)
     (rmap (\<lambda>x. case x of VStr s \<Rightarrow> Inr s | _ \<Rightarrow> Inl TypeError))"

text \<open>The surroundings: paths, processors, the lists of the configuration, the build and the shells.\<close>

record world =
  platform :: string
  executable :: string
  cwd :: string
  out_dir :: string
  processors :: int
  example_directories :: "string list"
  enabled_modules :: "string list"
  contributed_modules :: "string list"
  disk :: files
  environment :: environ
  build :: "environ \<Rightarrow> string \<Rightarrow> int"
  shell_in :: "environ \<Rightarrow> shell"

definition test_environment :: "ns3_config \<Rightarrow> world \<Rightarrow> environ" where
  "test_environment c w = AList.update ''NS_LOG'' [] (make_paths c (platform w) (environment w))"

definition run_tests_prepare :: "ns3_config \<Rightarrow> options \<Rightarrow> evaluator \<Rightarrow> world \<Rightarrow> py_error + plan" where
  "run_tests_prepare c os ev w =
     (let returncode = (if no_build os then 0
            else build w (environment w) (build_cmd os (platform w) (executable w)));
          run = shell_in w (test_environment c w);
          lock = lock_filename (platform w)
      in if returncode \<noteq> 0 then Inr (Returned (Some returncode) [])
         else if disk w lock = None then Inl (SystemExit 2)
         else
           rbind (rbind (get_list_from_file ev (disk w) lock ''ns3_runnable_programs'') string_items) (\<lambda>programs.
           rbind (rbind (get_list_from_file ev (disk w) lock ''ns3_runnable_scripts'') string_items) (\<lambda>scripts.
           rbind (collect_examples c ev (disk w) (cwd w) (example_directories w) (enabled_modules w)
               (contributed_modules w)) (\<lambda>lists.
             if kinds os \<or> list_tests os then
               rbind (listings c os run (cwd w) (example_names_original lists)) (\<lambda>out.
                 Inr (Returned None out))
             else
               rbind (all_jobs c os ev run programs scripts (out_dir w) (cwd w) lists) (\<lambda>jobs.
                 Inr (Run_Jobs jobs (thread_count (processors w) (process_limit os))))))))"

text \<open>What the threads see while they work.\<close>

definition run_environment ::
    "ns3_config \<Rightarrow> options \<Rightarrow> world \<Rightarrow> files \<Rightarrow> Job list \<Rightarrow> run_env" where
  "run_environment c os w results jobs =
     \<lparr>cfg = c, opts = os, shell = shell_in w (test_environment c w), tmp = results,
      use_color = use_colors os (environment w), total_jobs = length jobs\<rparr>"

section \<open>After the summary\<close>

text \<open>
  The files written at the end, with the parser of the results file as the argument \<open>parse\<close>
  (\<^verbatim>\<open>xml.etree.ElementTree\<close>).
\<close>

definition write_reports ::
    "options \<Rightarrow> (string \<Rightarrow> py_error + element) \<Rightarrow> string \<Rightarrow> py_error + (string \<times> string) list" where
  "write_reports os parse results =
     rbind (if html os \<noteq> [] then rbind (parse results) (\<lambda>et. rbind (translate_to_html et)
         (\<lambda>s. Inr [(html os @ ''.html'', s)])) else Inr []) (\<lambda>h.
     rbind (if text_file os \<noteq> [] then rbind (parse results) (\<lambda>et. rbind (translate_to_text et)
         (\<lambda>s. Inr [(text_file os @ ''.txt'', s)])) else Inr []) (\<lambda>t.
       Inr (h @ t @ (if xml os \<noteq> [] then [(xml os @ ''.xml'', results)] else []))))"

section \<open>From the options to the exit code\<close>

lemma prepared_jobs:
  assumes "run_tests_prepare c os ev w = Inr (Run_Jobs jobs n)"
  shows "\<forall>j \<in> set jobs. \<not> is_break j" "n = thread_count (processors w) (process_limit os)"
proof -
  obtain programs scripts lists where
    "all_jobs c os ev (shell_in w (test_environment c w)) programs scripts (out_dir w) (cwd w) lists = Inr jobs"
    using assms by (auto simp: run_tests_prepare_def rbind_iffs Let_def split: if_splits)
  from all_jobs_fresh [OF this] show "\<forall>j \<in> set jobs. \<not> is_break j" by (auto simp: fresh_job_def)
  show "n = thread_count (processors w) (process_limit os)"
    using assms by (auto simp: run_tests_prepare_def rbind_iffs Let_def split: if_splits)
qed

text \<open>
  Claim C1. For the jobs \<open>run_tests\<close> prepares, whatever the threads do: an exit code \<open>0\<close> means
  that every job was skipped or returned \<open>0\<close>; without an interrupt it is \<open>0\<close> whenever they all
  do; and with at least one processor and no negative \<open>--jobs\<close> the run can always be completed
  from where it stands, in at most \<open>5\<close> steps a job and \<open>6\<close> a thread.
\<close>

theorem run_tests_exit_code:
  assumes "run_tests_prepare c os ev w = Inr (Run_Jobs jobs n)" and "PYTHON c \<noteq> []"
    and "E = run_environment c os w results jobs" and "(step E ^^ m) (start_state jobs n) s"
  shows "(main s = Exited 0 \<longrightarrow> (\<forall>j \<in> set jobs. good_job E j)) \<and>
    (main s = Exited rc \<and> \<not> thread_exit s \<and> (\<forall>j \<in> set jobs. good_job E j) \<longrightarrow> rc = 0) \<and>
    (0 < processors w \<and> 0 \<le> process_limit os \<longrightarrow>
      (\<exists>t. run_of E s t \<and> thread_exit t = thread_exit s \<and>
        ((\<exists>rc. main t = Exited rc) \<or> (\<exists>e. main t = Raised e)))) \<and>
    m \<le> 5 * length jobs + 6 * n + 4"
proof -
  have E: "PYTHON (cfg E) \<noteq> []" "total_jobs E = length jobs"
    using assms(2,3) by (simp_all add: run_environment_def)
  have reach: "run_of E (start_state jobs n) s" using assms(4) by (rule relpowp_imp_rtranclp)
  note jobs = prepared_jobs [OF assms(1)]
  note exit = exit_lemma [OF E(1) jobs(1) E(2) reach]
  have "\<exists>t. run_of E s t \<and> thread_exit t = thread_exit s \<and>
      ((\<exists>rc. main t = Exited rc) \<or> (\<exists>e. main t = Raised e))"
    if "0 < processors w \<and> 0 \<le> process_limit os"
    using run_completes [OF E(1) jobs(1) E(2) _ reach] jobs(2) that by (auto simp: thread_count_def)
  then show ?thesis using exit bounded_lemma [OF assms(4)] by blast
qed

text \<open>A world in which one suite is found and run.\<close>

definition sample_world :: world where
  "sample_world = \<lparr>platform = ''linux'', executable = ''/usr/bin/python3'', cwd = ''/r'', out_dir = ''/tmp/o'',
     processors = 2, example_directories = [], enabled_modules = [], contributed_modules = [],
     disk = (\<lambda>p. if p = ''.lock-ns3_linux_build'' then Some [] else None), environment = [],
     build = (\<lambda>env cmd. if cmd = ''./ns3'' then 0 else 1), shell_in = (\<lambda>env. sample_shell)\<rparr>"

definition no_eval :: evaluator where "no_eval s = Inl (OtherError ''SyntaxError'')"

lemma sample_prepared:
  "run_tests_prepare sample_config default_options no_eval sample_world =
     Inr (Run_Jobs (suite_jobs sample_config default_options ''/tmp/o'' ''/r'' [''a'', ''b'']) 2)"
  by code_simp

theorem run_tests_exit_code_witness:
  "let jobs = suite_jobs sample_config default_options ''/tmp/o'' ''/r'' [''a'', ''b''];
       E = run_environment sample_config default_options sample_world (\<lambda>_. Some []) jobs
   in \<exists>t. run_of E (start_state jobs 2) t \<and> \<not> thread_exit t \<and>
        ((\<exists>rc. main t = Exited rc) \<or> (\<exists>e. main t = Raised e))"
proof -
  define jobs where "jobs = suite_jobs sample_config default_options ''/tmp/o'' ''/r'' [''a'', ''b'']"
  define E where "E = run_environment sample_config default_options sample_world (\<lambda>_. Some []) jobs"
  have h: "(step E ^^ 0) (start_state jobs 2) (start_state jobs 2)" by simp
  have p: "PYTHON sample_config \<noteq> []" by (simp add: sample_config_def)
  from run_tests_exit_code [OF sample_prepared p E_def [unfolded jobs_def] h [unfolded jobs_def]]
  have "\<exists>t. run_of E (start_state jobs 2) t \<and> \<not> thread_exit t \<and>
        ((\<exists>rc. main t = Exited rc) \<or> (\<exists>e. main t = Raised e))"
    by (simp add: jobs_def sample_world_def default_options_def start_state_def)
  then show ?thesis unfolding Let_def E_def jobs_def .
qed

text \<open>
  \<open>run_tests\<close> starts no thread when the build fails (it returns the code of the
  build), when there is no lock file (exit code \<open>2\<close>), and under \<open>--kinds\<close> and \<open>--list\<close>, where
  it returns \<open>None\<close>, also when the test runner fails.
\<close>

theorem run_tests_early_exits:
  "(\<not> no_build os \<and> build w (environment w) (build_cmd os (platform w) (executable w)) \<noteq> 0 \<longrightarrow>
      run_tests_prepare c os ev w =
        Inr (Returned (Some (build w (environment w) (build_cmd os (platform w) (executable w)))) [])) \<and>
   (no_build os \<and> disk w (lock_filename (platform w)) = None \<longrightarrow>
      run_tests_prepare c os ev w = Inl (SystemExit 2)) \<and>
   (no_build os \<and> (kinds os \<or> list_tests os) \<and> run_tests_prepare c os ev w = Inr p \<longrightarrow>
      (\<exists>out. p = Returned None out)) \<and>
   (no_build os \<and> \<not> kinds os \<and> list_tests os \<and> run_tests_prepare c os ev w = Inr p \<and>
      (\<forall>cmd dir. proc_code (shell_in w (test_environment c w) cmd dir) = rc) \<and> rc \<noteq> 0 \<longrightarrow>
        p = Returned None (map Some (list_failure rc)) \<or> p = Returned None (map Some (list_failure 1)))"
proof (intro conjI impI)
  assume a: "no_build os \<and> \<not> kinds os \<and> list_tests os \<and> run_tests_prepare c os ev w = Inr p \<and>
      (\<forall>cmd dir. proc_code (shell_in w (test_environment c w) cmd dir) = rc) \<and> rc \<noteq> 0"
  then obtain names out where "p = Returned None out"
    "listings c os (shell_in w (test_environment c w)) (cwd w) names = Inr out"
    by (auto simp: run_tests_prepare_def rbind_iffs Let_def split: if_splits)
  with a show "p = Returned None (map Some (list_failure rc)) \<or> p = Returned None (map Some (list_failure 1))"
    by (auto simp: listings_def ask_def run_job_synchronously_def rbind_iffs Let_def split: if_splits option.splits)
qed (auto simp: run_tests_prepare_def rbind_iffs Let_def split: if_splits)

theorem run_tests_early_exits_witness:
  "run_tests_prepare sample_config (default_options\<lparr>example := ''udp/echo''\<rparr>) no_eval sample_world =
     Inr (Returned (Some 1) []) \<and>
   run_tests_prepare sample_config (default_options\<lparr>no_build := True\<rparr>) no_eval
     (sample_world\<lparr>platform := ''win32''\<rparr>) = Inl (SystemExit 2)"
proof -
  have b: "build_cmd (default_options\<lparr>example := ''udp/echo''\<rparr>) ''linux'' ''/usr/bin/python3'' =
      ''./ns3 build echo''" by code_simp
  have l: "lock_filename ''win32'' \<noteq> ''.lock-ns3_linux_build''" by code_simp
  show ?thesis
    using run_tests_early_exits [of "default_options\<lparr>example := ''udp/echo''\<rparr>" sample_world sample_config no_eval]
      run_tests_early_exits [of "default_options\<lparr>no_build := True\<rparr>" "sample_world\<lparr>platform := ''win32''\<rparr>"
        sample_config no_eval] b l
    by (simp add: sample_world_def default_options_def)
qed

end
