(* ===== verification/Check_Style.thy ===== *)
theory Check_Style
  imports Py_State
begin

text \<open>
  \<^verbatim>\<open>utils/check-style.py\<close>: the configuration written for uncrustify, the classes of a unified
  diff (\<open>PatchChunkLine\<close>, \<open>PatchChunk\<close>, \<open>Patch\<close>), the parser and the printer of patch sets, the
  pass that undoes changes of trailing white space, and the procedures that re-indent files
  with the programs \<^verbatim>\<open>uncrustify\<close>, \<^verbatim>\<open>patch\<close> and \<^verbatim>\<open>git\<close>, which are parameters. A line object of a
  chunk is shared by the lists \<open>src()\<close> and \<open>dst()\<close>; those lists are indices into the chunk's
  lines here, so that an update through one list is seen through the other.
\<close>

section \<open>The uncrustify configuration\<close>

definition level2 :: string where
  "level2 = unlines_py
    ['''',
     ''nl_if_brace=Add'',
     ''nl_brace_else=Add'',
     ''nl_elseif_brace=Add'',
     ''nl_else_brace=Add'',
     ''nl_while_brace=Add'',
     ''nl_do_brace=Add'',
     ''nl_for_brace=Add'',
     ''nl_brace_while=Add'',
     ''nl_switch_brace=Add'',
     ''nl_after_case=True'',
     ''nl_namespace_brace=ignore'',
     ''nl_after_brace_open=True'',
     ''nl_class_leave_one_liners=False'',
     ''nl_enum_leave_one_liners=False'',
     ''nl_func_leave_one_liners=False'',
     ''nl_if_leave_one_liners=False'',
     ''nl_class_colon=Ignore'',
     ''nl_before_access_spec=2'',
     ''nl_after_access_spec=0'',
     ''indent_access_spec=-indent_columns'',
     ''nl_after_semicolon=True'',
     ''pos_class_colon=Lead'',
     ''pos_class_comma=Trail'',
     ''indent_constr_colon=true'',
     ''pos_bool=Lead'',
     ''nl_class_init_args=Add'',
     ''nl_template_class=Add'',
     ''nl_class_brace=Add'',
     ''# does not work very well'',
     ''nl_func_type_name=Ignore'',
     ''nl_func_scope_name=Ignore'',
     ''nl_func_type_name_class=Ignore'',
     ''nl_func_proto_type_name=Ignore'',
     ''# function'' @ CHR 0x5C # ''n('',
     ''nl_func_paren=Remove'',
     ''nl_fdef_brace=Add'',
     ''nl_struct_brace=Add'',
     ''nl_enum_brace=Add'',
     ''nl_union_brace=Add'',
     ''mod_full_brace_do=Add'',
     ''mod_full_brace_for=Add'',
     ''mod_full_brace_if=Add'',
     ''mod_full_brace_while=Add'',
     ''mod_full_brace_for=Add'',
     ''mod_remove_extra_semicolon=True'',
     ''# max code width'',
     ''#code_width=128'',
     ''#ls_for_split_full=True'',
     ''#ls_func_split_full=True'',
     ''nl_cpp_lambda_leave_one_liners=True'']"

definition level1 :: string where
  "level1 = unlines_py
    ['''',
     ''# extra spaces here and there'',
     ''sp_brace_typedef=Add'',
     ''sp_enum_assign=Add'',
     ''sp_before_sparen=Add'',
     ''sp_after_semi_for=Add'',
     ''sp_arith=Add'',
     ''sp_assign=Add'',
     ''sp_compare=Add'',
     ''sp_func_class_paren=Add'',
     ''sp_after_type=Add'',
     ''sp_type_func=Add'',
     ''sp_angle_paren=Add'']"

definition level0 :: string where
  "level0 = unlines_py
    ['''',
     ''sp_func_proto_paren=Add'',
     ''sp_func_def_paren=Add'',
     ''sp_func_call_paren=Add'',
     ''sp_after_semi_for=Ignore'',
     ''sp_before_sparen=Ignore'',
     ''sp_before_ellipsis=Remove'',
     ''sp_type_func=Ignore'',
     ''sp_after_type=Ignore'',
     ''nl_class_leave_one_liners=True'',
     ''nl_enum_leave_one_liners=True'',
     ''nl_func_leave_one_liners=True'',
     ''nl_assign_leave_one_liners=True'',
     ''nl_collapse_empty_body=True'',
     ''nl_getset_leave_one_liners=True'',
     ''nl_if_leave_one_liners=True'',
     ''nl_fdef_brace=Ignore'',
     ''# finally, indentation configuration'',
     ''indent_with_tabs=0'',
     ''indent_namespace=false'',
     ''indent_columns=2'',
     ''indent_brace=2'',
     ''indent_case_brace=indent_columns'',
     ''indent_class=true'',
     ''indent_class_colon=True'',
     ''indent_switch_case=indent_columns'',
     ''# alignment'',
     ''indent_align_assign=False'',
     ''align_left_shift=True'',
     ''# comment reformating disabled'',
     ''cmt_reflow_mode=1 # do not touch comments at all'',
     ''cmt_indent_multi=False # really, do not touch them'',
     ''disable_processing_cmt= \" *NS_CHECK_STYLE_OFF*\"'',
     ''enable_processing_cmt=  \" *NS_CHECK_STYLE_ON*\"'']"

definition config_text :: "int \<Rightarrow> string" where
  "config_text level = level0 @ (if 1 \<le> level then level1 else []) @ (if 2 \<le> level then level2 else [])"

section \<open>PatchChunkLine\<close>

datatype line_type = NOTYPE | SRC | DST | BOTH

record PatchChunkLine =
  ltype :: line_type
  ltext :: string

definition new_line :: PatchChunkLine where
  "new_line = \<lparr> ltype = NOTYPE, ltext = [] \<rparr>"

definition set_src :: "string \<Rightarrow> PatchChunkLine \<Rightarrow> PatchChunkLine" where
  "set_src t l = l\<lparr>ltype := SRC, ltext := t\<rparr>"

definition set_dst :: "string \<Rightarrow> PatchChunkLine \<Rightarrow> PatchChunkLine" where
  "set_dst t l = l\<lparr>ltype := DST, ltext := t\<rparr>"

definition set_both :: "string \<Rightarrow> PatchChunkLine \<Rightarrow> PatchChunkLine" where
  "set_both t l = l\<lparr>ltype := BOTH, ltext := t\<rparr>"

definition append_to_line :: "string \<Rightarrow> PatchChunkLine \<Rightarrow> PatchChunkLine" where
  "append_to_line t l = l\<lparr>ltext := ltext l @ t\<rparr>"

definition is_src :: "PatchChunkLine \<Rightarrow> bool" where
  "is_src l \<longleftrightarrow> ltype l = SRC \<or> ltype l = BOTH"

definition is_dst :: "PatchChunkLine \<Rightarrow> bool" where
  "is_dst l \<longleftrightarrow> ltype l = DST \<or> ltype l = BOTH"

text \<open>What \<open>write\<close> adds to the file; nobody reads the file after a raise.\<close>

definition write_line :: "PatchChunkLine \<Rightarrow> py_error + string" where
  "write_line l = (case ltype l of
       SRC \<Rightarrow> Inr (''-'' @ ltext l @ [NL])
     | DST \<Rightarrow> Inr (''+'' @ ltext l @ [NL])
     | BOTH \<Rightarrow> Inr ('' '' @ ltext l @ [NL])
     | NOTYPE \<Rightarrow> Inl (OtherError ''invalid patch''))"

section \<open>PatchChunk and Patch\<close>

record PatchChunk =
  clines :: "PatchChunkLine list"
  csrc_pos :: nat
  cdst_pos :: nat

definition new_chunk :: "string \<Rightarrow> string \<Rightarrow> PatchChunk" where
  "new_chunk s d = \<lparr> clines = [], csrc_pos = read_nat s, cdst_pos = read_nat d \<rparr>"

definition add_line :: "PatchChunkLine \<Rightarrow> PatchChunk \<Rightarrow> PatchChunk" where
  "add_line l c = c\<lparr>clines := clines c @ [l]\<rparr>"

definition src :: "PatchChunk \<Rightarrow> nat list" where
  "src c = filter (\<lambda>k. is_src (clines c ! k)) [0..<length (clines c)]"

definition dst :: "PatchChunk \<Rightarrow> nat list" where
  "dst c = filter (\<lambda>k. is_dst (clines c ! k)) [0..<length (clines c)]"

definition src_len :: "PatchChunk \<Rightarrow> nat" where "src_len c = length (src c)"
definition dst_len :: "PatchChunk \<Rightarrow> nat" where "dst_len c = length (dst c)"

definition chunk_header :: "PatchChunk \<Rightarrow> string" where
  "chunk_header c = ''@@ -'' @ show_nat (csrc_pos c) @ '','' @ show_nat (src_len c) @
     '' +'' @ show_nat (cdst_pos c) @ '','' @ show_nat (dst_len c) @ '' @@'' @ [NL]"

definition write_chunk :: "PatchChunk \<Rightarrow> py_error + string" where
  "write_chunk c = rbind (rmap write_line (clines c)) (\<lambda>ts. Inr (chunk_header c @ concat ts))"

record Patch =
  psrc :: string
  pdst :: string
  pchunks :: "PatchChunk list"

definition new_patch :: Patch where
  "new_patch = \<lparr> psrc = [], pdst = [], pchunks = [] \<rparr>"

definition add_chunk :: "PatchChunk \<Rightarrow> Patch \<Rightarrow> Patch" where
  "add_chunk c p = p\<lparr>pchunks := pchunks p @ [c]\<rparr>"

definition write_patch :: "Patch \<Rightarrow> py_error + string" where
  "write_patch p = rbind (rmap write_chunk (pchunks p)) (\<lambda>ts.
     Inr (''--- '' @ psrc p @ [NL] @ ''+++ '' @ pdst p @ [NL] @ concat ts))"

section \<open>The regular expressions\<close>

text \<open>
  \<open>(.*)$\<close> after a literal: the dot matches no newline, and \<open>$\<close> is the end of the text or the
  place before its final newline.
\<close>

definition rest_of_line :: "string \<Rightarrow> string option" where
  "rest_of_line s =
     (let d = dropWhile (\<lambda>c. c \<noteq> NL) s
      in if d = [] \<or> d = [NL] then Some (takeWhile (\<lambda>c. c \<noteq> NL) s) else None)"

definition match_prefix :: "string \<Rightarrow> string \<Rightarrow> string option" where
  "match_prefix p s = (if startswith s p then rest_of_line (drop (length p) s) else None)"

text \<open>\<open>([0-9]+)\<close> followed by a literal.\<close>

definition number_then :: "string \<Rightarrow> string \<Rightarrow> (string \<times> string) option" where
  "number_then lit s =
     (let d = takeWhile is_digit s; r = dropWhile is_digit s
      in if d \<noteq> [] \<and> startswith r lit then Some (d, drop (length lit) r) else None)"

text \<open>The groups 1 and 3 of \<open>chunk_start\<close>; the code reads no other.\<close>

definition match_chunk :: "string \<Rightarrow> (string \<times> string) option" where
  "match_chunk s =
     (if startswith s ''@@ -'' then
        (case number_then '','' (drop 4 s) of None \<Rightarrow> None | Some (a, s1) \<Rightarrow>
        (case number_then '' +'' s1 of None \<Rightarrow> None | Some (b, s2) \<Rightarrow>
        (case number_then '','' s2 of None \<Rightarrow> None | Some (c, s3) \<Rightarrow>
        (case number_then '' @@'' s3 of None \<Rightarrow> None | Some (d, s4) \<Rightarrow> Some (a, c)))))
      else None)"

text \<open>
  \<open>^(.*)([ \t]+)$\<close>: the first group is greedy, so that the second is the last character only.
\<close>

definition trailing_whitespace :: "string \<Rightarrow> (string \<times> string) option" where
  "trailing_whitespace s = (case rest_of_line s of
       None \<Rightarrow> None
     | Some g \<Rightarrow> (if g \<noteq> [] \<and> last g \<in> {CHR '' '', TAB} then Some (butlast g, [last g]) else None))"

section \<open>parse_patchset\<close>

text \<open>
  \<open>current_patch\<close> and \<open>current_chunk\<close> are references: the place of a patch in the patch set,
  and the place of its patch and its own place there for a chunk. A chunk stays the current
  one when a new patch begins.
\<close>

record parse_state =
  patchset :: "Patch list"
  current_patch :: "nat option"
  current_chunk :: "(nat \<times> nat) option"

definition parse_start :: parse_state where
  "parse_start = \<lparr> patchset = [], current_patch = None, current_chunk = None \<rparr>"

definition upd_patch :: "nat \<Rightarrow> (Patch \<Rightarrow> Patch) \<Rightarrow> parse_state \<Rightarrow> parse_state" where
  "upd_patch i f st = st\<lparr>patchset := (patchset st)[i := f (patchset st ! i)]\<rparr>"

definition upd_chunk :: "nat \<Rightarrow> (PatchChunk \<Rightarrow> PatchChunk) \<Rightarrow> Patch \<Rightarrow> Patch" where
  "upd_chunk j f p = p\<lparr>pchunks := (pchunks p)[j := f (pchunks p ! j)]\<rparr>"

definition begin_patch :: "string \<Rightarrow> parse_state \<Rightarrow> py_error + parse_state" where
  "begin_patch name st =
     Inr (st\<lparr>patchset := patchset st @ [new_patch\<lparr>psrc := name\<rparr>],
             current_patch := Some (length (patchset st))\<rparr>)"

definition name_dst :: "string \<Rightarrow> parse_state \<Rightarrow> py_error + parse_state" where
  "name_dst name st = (case current_patch st of
       None \<Rightarrow> Inl AttributeError
     | Some i \<Rightarrow> Inr (upd_patch i (\<lambda>p. p\<lparr>pdst := name\<rparr>) st))"

definition begin_chunk :: "string \<times> string \<Rightarrow> parse_state \<Rightarrow> py_error + parse_state" where
  "begin_chunk g st = (case current_patch st of
       None \<Rightarrow> Inl AttributeError
     | Some i \<Rightarrow> Inr ((upd_patch i (add_chunk (new_chunk (fst g) (snd g))) st)
                 \<lparr>current_chunk := Some (i, length (pchunks (patchset st ! i)))\<rparr>))"

definition chunk_line :: "PatchChunkLine \<Rightarrow> parse_state \<Rightarrow> py_error + parse_state" where
  "chunk_line l st = (case current_chunk st of
       None \<Rightarrow> Inl UnboundLocalError
     | Some (i, j) \<Rightarrow> Inr (upd_patch i (upd_chunk j (add_line l)) st))"

definition parse_step :: "parse_state \<Rightarrow> string \<Rightarrow> py_error + parse_state" where
  "parse_step st ln =
     (case match_prefix ''--- '' ln of Some name \<Rightarrow> begin_patch name st | None \<Rightarrow>
     (case match_prefix ''+++ '' ln of Some name \<Rightarrow> name_dst name st | None \<Rightarrow>
     (case match_chunk ln of Some g \<Rightarrow> begin_chunk g st | None \<Rightarrow>
     (case match_prefix ''-'' ln of Some t \<Rightarrow> chunk_line (set_src t new_line) st | None \<Rightarrow>
     (case match_prefix ''+'' ln of Some t \<Rightarrow> chunk_line (set_dst t new_line) st | None \<Rightarrow>
     (case match_prefix '' '' ln of Some t \<Rightarrow> chunk_line (set_both t new_line) st | None \<Rightarrow>
     Inl (OtherError [])))))))"

definition parse_patchset :: "string list \<Rightarrow> py_error + Patch list" where
  "parse_patchset generator =
     rbind (rfold parse_step parse_start generator) (\<lambda>st. Inr (patchset st))"

section \<open>remove_trailing_whitespace_changes\<close>

text \<open>The body of the inner loop, on the chunk whose line objects \<open>ss\<close> and \<open>ds\<close> point to.\<close>

definition restore_at :: "nat list \<Rightarrow> nat list \<Rightarrow> nat \<Rightarrow> (PatchChunk, unit) proc" where
  "restore_at ss ds i =
     sbind (lift (py_index ss (int i))) (\<lambda>s.
     sbind (lift (py_index ds (int i))) (\<lambda>d.
     modify (\<lambda>c. case trailing_whitespace (ltext (clines c ! s)) of
         None \<Rightarrow> c
       | Some (g1, g2) \<Rightarrow>
           (if g1 = ltext (clines c ! d)
            then c\<lparr>clines := (clines c)[d := append_to_line g2 (clines c ! d)]\<rparr> else c))))"

definition restore_chunk :: "(PatchChunk, unit) proc" where
  "restore_chunk c =
     sfor (restore_at (src c) (dst c)) [0..<src_len c] c"

text \<open>
  The loops over the chunks and the patches. The bare \<open>except\<close> returns: the flag says that no
  later chunk is visited.
\<close>

fun restore_chunks :: "PatchChunk list \<Rightarrow> bool \<times> PatchChunk list" where
  "restore_chunks [] = (False, [])"
| "restore_chunks (c # cs) = (case restore_chunk c of
     (Inl e, c') \<Rightarrow> (True, c' # cs)
   | (Inr _, c') \<Rightarrow> (let (stop, cs') = restore_chunks cs in (stop, c' # cs')))"

fun restore_patches :: "Patch list \<Rightarrow> Patch list" where
  "restore_patches [] = []"
| "restore_patches (p # ps) = (let (stop, cs) = restore_chunks (pchunks p)
     in p\<lparr>pchunks := cs\<rparr> # (if stop then ps else restore_patches ps))"

definition remove_trailing_whitespace_changes :: "string list \<Rightarrow> py_error + Patch list" where
  "remove_trailing_whitespace_changes patch_generator =
     rbind (parse_patchset patch_generator) (\<lambda>ps. Inr (restore_patches ps))"

section \<open>Parsing what was written\<close>

text \<open>
  The lines a patch may hold for its text to be read back: none has a newline, and no removed
  line begins with two dashes and a space nor an added one with two pluses and a space, since
  those read as the name of a file.
\<close>

definition line_ok :: "PatchChunkLine \<Rightarrow> bool" where
  "line_ok l \<longleftrightarrow> NL \<notin> set (ltext l) \<and> (case ltype l of
       SRC \<Rightarrow> \<not> startswith (ltext l) ''-- '' | DST \<Rightarrow> \<not> startswith (ltext l) ''++ ''
     | BOTH \<Rightarrow> True | NOTYPE \<Rightarrow> False)"

definition chunk_ok :: "PatchChunk \<Rightarrow> bool" where
  "chunk_ok c \<longleftrightarrow> list_all line_ok (clines c)"

definition patch_ok :: "Patch \<Rightarrow> bool" where
  "patch_ok p \<longleftrightarrow> NL \<notin> set (psrc p) \<and> NL \<notin> set (pdst p) \<and> list_all chunk_ok (pchunks p)"

lemma rest_of_line_NL [simp]: "NL \<notin> set t \<Longrightarrow> rest_of_line (t @ [NL]) = Some t"
  using cut_at_first [of NL t "[]"] by (simp add: rest_of_line_def)

lemma match_prefix_self: "NL \<notin> set t \<Longrightarrow> match_prefix p (p @ t @ [NL]) = Some t"
  by (simp add: match_prefix_def)

lemma number_then_self:
  assumes "list_all is_digit d" "d \<noteq> []" "\<not> is_digit x"
  shows "number_then (x # lit) (d @ x # lit @ r) = Some (d, r)"
proof -
  have "takeWhile is_digit (d @ x # lit @ r) = d" "dropWhile is_digit (d @ x # lit @ r) = x # lit @ r"
    using assms by (simp_all add: list_all_iff takeWhile_append2 dropWhile_append2)
  moreover have "startswith (x # lit @ r) (x # lit)" by (simp add: startswith_def)
  ultimately show ?thesis using assms(2) by (simp add: number_then_def Let_def)
qed

lemma number_then_show:
  "\<not> is_digit x \<Longrightarrow> number_then (x # lit) (show_nat n @ x # lit @ r) = Some (show_nat n, r)"
  using number_then_self show_nat_digits by blast

lemma not_digits: "\<not> is_digit (CHR '','')" "\<not> is_digit (CHR '' '')" "\<not> is_digit NL"
  by (simp_all add: is_digit_def NL_def)

lemma match_chunk_header:
  "match_chunk (chunk_header c) = Some (show_nat (csrc_pos c), show_nat (cdst_pos c))"
proof -
  note n = number_then_show [OF not_digits(1), of "[]"] number_then_show [OF not_digits(2)]
  show ?thesis
    using n(1) n(2) [of "''+''"] n(2) [of "''@@''"]
    by (simp add: match_chunk_def chunk_header_def startswith_def)
qed

lemma NL_show_nat: "NL \<notin> set (show_nat n)"
  using show_nat_digits [of n] not_digits(3) by (auto simp: list_all_iff)

definition raw_line :: "PatchChunkLine \<Rightarrow> string" where
  "raw_line l = (case ltype l of SRC \<Rightarrow> CHR ''-'' | DST \<Rightarrow> CHR ''+'' | _ \<Rightarrow> CHR '' '') # ltext l"

lemma write_raw_line: "line_ok l \<Longrightarrow> write_line l = Inr (raw_line l @ [NL])"
  by (cases "ltype l") (auto simp: line_ok_def write_line_def raw_line_def)

lemma NL_raw_line: "line_ok l \<Longrightarrow> NL \<notin> set (raw_line l)"
  by (cases "ltype l") (auto simp: line_ok_def raw_line_def NL_def)

lemma startswith_snoc: "x \<notin> set p \<Longrightarrow> startswith (s @ [x]) p = startswith s p"
  by (auto simp: startswith_conv append_eq_append_conv2 append_eq_Cons_conv Cons_eq_append_conv)

text \<open>The expressions by their first character.\<close>

lemma match_prefix_simps:
  "match_prefix [] s = rest_of_line s"
  "match_prefix (x # p) (y # s) = (if x = y then match_prefix p s else None)"
  by (simp_all add: match_prefix_def startswith_def)

lemma match_prefix_other:
  "NL \<notin> set p \<Longrightarrow> \<not> startswith t p \<Longrightarrow> match_prefix p (t @ [NL]) = None"
  by (simp add: match_prefix_def startswith_snoc)

lemma match_chunk_other: "x \<noteq> CHR ''@'' \<Longrightarrow> match_chunk (x # s) = None"
  by (simp add: match_chunk_def startswith_def)

lemma NL_chars: "NL \<notin> set ''-- ''" "NL \<notin> set ''++ ''"
  by (simp_all add: NL_def)

lemma NL_header: "NL \<notin> set ''--- ''" "NL \<notin> set ''+++ ''"
  by (simp_all add: NL_def)

lemma concat_map_concat: "concat (map (concat \<circ> f) xs) = concat (concat (map f xs))"
  by (induction xs) simp_all

text \<open>The state inside the chunk \<open>c\<close> of the patch \<open>p\<close>, after the patches \<open>ps\<close> and chunks \<open>cs\<close>.\<close>

definition in_chunk :: "Patch list \<Rightarrow> Patch \<Rightarrow> PatchChunk list \<Rightarrow> PatchChunk \<Rightarrow> parse_state" where
  "in_chunk ps p cs c = \<lparr> patchset = ps @ [p\<lparr>pchunks := cs @ [c]\<rparr>],
     current_patch = Some (length ps), current_chunk = Some (length ps, length cs) \<rparr>"

lemma chunk_line_in_chunk: "chunk_line l (in_chunk ps p cs c) = Inr (in_chunk ps p cs (add_line l c))"
  by (simp add: chunk_line_def in_chunk_def upd_patch_def upd_chunk_def)

lemma parse_raw_line:
  assumes "line_ok l"
  shows "parse_step (in_chunk ps p cs c) (raw_line l @ [NL]) = Inr (in_chunk ps p cs (add_line l c))"
proof -
  have nl: "NL \<notin> set (ltext l)" using assms by (simp add: line_ok_def)
  have s: "set_src (ltext l) new_line = l" if "ltype l = SRC" using that by (simp add: set_src_def new_line_def)
  have d: "set_dst (ltext l) new_line = l" if "ltype l = DST" using that by (simp add: set_dst_def new_line_def)
  have b: "set_both (ltext l) new_line = l" if "ltype l = BOTH" using that by (simp add: set_both_def new_line_def)
  note m = match_prefix_simps match_prefix_other match_chunk_other NL_chars
  show ?thesis
    using assms nl s d b
    by (cases "ltype l") (auto simp: line_ok_def raw_line_def parse_step_def m chunk_line_in_chunk simp del: set_simps)
qed

lemma parse_raw_lines:
  assumes "list_all line_ok ls"
  shows "rfold parse_step (in_chunk ps p cs c) (map (\<lambda>l. raw_line l @ [NL]) ls) =
     Inr (in_chunk ps p cs (c\<lparr>clines := clines c @ ls\<rparr>))"
  using assms by (induction ls arbitrary: c) (simp_all add: parse_raw_line add_line_def)

definition in_patch :: "Patch list \<Rightarrow> Patch \<Rightarrow> PatchChunk list \<Rightarrow> (nat \<times> nat) option \<Rightarrow> parse_state" where
  "in_patch ps p cs cc = \<lparr> patchset = ps @ [p\<lparr>pchunks := cs\<rparr>],
     current_patch = Some (length ps), current_chunk = cc \<rparr>"

lemma in_chunk_patch: "in_chunk ps p cs c = in_patch ps p (cs @ [c]) (Some (length ps, length cs))"
  by (simp add: in_chunk_def in_patch_def)

definition chunk_text :: "PatchChunk \<Rightarrow> string list" where
  "chunk_text c = chunk_header c # map (\<lambda>l. raw_line l @ [NL]) (clines c)"

lemma parse_chunk_header:
  "parse_step (in_patch ps p cs cc) (chunk_header c) =
     Inr (in_chunk ps p cs \<lparr> clines = [], csrc_pos = csrc_pos c, cdst_pos = cdst_pos c \<rparr>)"
proof -
  have "match_prefix ''--- '' (chunk_header c) = None" "match_prefix ''+++ '' (chunk_header c) = None"
    by (simp_all add: chunk_header_def match_prefix_simps)
  then show ?thesis
    by (simp add: parse_step_def match_chunk_header begin_chunk_def in_patch_def in_chunk_def upd_patch_def
        add_chunk_def new_chunk_def)
qed

lemma parse_chunk_text:
  assumes "chunk_ok c"
  shows "rfold parse_step (in_patch ps p cs cc) (chunk_text c) =
     Inr (in_patch ps p (cs @ [c]) (Some (length ps, length cs)))"
proof -
  let ?c = "\<lparr> clines = [], csrc_pos = csrc_pos c, cdst_pos = cdst_pos c \<rparr>"
  have "?c\<lparr>clines := clines ?c @ clines c\<rparr> = c" by simp
  then show ?thesis
    using parse_raw_lines [of "clines c" ps p cs ?c] assms
    by (simp only: chunk_text_def rfold.simps parse_chunk_header rbind_simps chunk_ok_def in_chunk_patch)
qed

lemma parse_chunk_texts:
  assumes "list_all chunk_ok ds"
  shows "\<exists>cc'. rfold parse_step (in_patch ps p cs cc) (concat (map chunk_text ds)) =
     Inr (in_patch ps p (cs @ ds) cc')"
  using assms
proof (induction ds arbitrary: cs cc)
  case (Cons d ds)
  from Cons.IH [of "cs @ [d]"] Cons.prems show ?case by (simp add: rfold_append parse_chunk_text)
qed auto

definition patch_text :: "Patch \<Rightarrow> string list" where
  "patch_text p = [''--- '' @ psrc p @ [NL], ''+++ '' @ pdst p @ [NL]] @ concat (map chunk_text (pchunks p))"

lemma parse_patch_text:
  assumes "patch_ok p"
  shows "\<exists>cp cc'. rfold parse_step \<lparr> patchset = ps, current_patch = cp0, current_chunk = cc \<rparr> (patch_text p) =
     Inr \<lparr> patchset = ps @ [p], current_patch = cp, current_chunk = cc' \<rparr>"
proof -
  let ?p = "\<lparr> psrc = psrc p, pdst = pdst p, pchunks = [] \<rparr>"
  obtain cc' where t: "rfold parse_step (in_patch ps ?p [] cc) (concat (map chunk_text (pchunks p))) =
      Inr (in_patch ps ?p (pchunks p) cc')"
    using parse_chunk_texts [of "pchunks p" ps ?p "[]" cc] assms by (auto simp: patch_ok_def)
  have "parse_step \<lparr> patchset = ps, current_patch = cp0, current_chunk = cc \<rparr> (''--- '' @ psrc p @ [NL]) =
      Inr (in_patch ps \<lparr> psrc = psrc p, pdst = [], pchunks = [] \<rparr> [] cc)"
    using assms by (simp add: parse_step_def match_prefix_simps begin_patch_def in_patch_def new_patch_def patch_ok_def)
  moreover have "parse_step (in_patch ps \<lparr> psrc = psrc p, pdst = [], pchunks = [] \<rparr> [] cc) (''+++ '' @ pdst p @ [NL]) =
      Inr (in_patch ps ?p [] cc)"
    using assms by (simp add: parse_step_def match_prefix_simps name_dst_def upd_patch_def in_patch_def patch_ok_def)
  ultimately have "rfold parse_step \<lparr> patchset = ps, current_patch = cp0, current_chunk = cc \<rparr> (patch_text p) =
      Inr (in_patch ps ?p (pchunks p) cc')"
    using t by (simp add: patch_text_def)
  then show ?thesis by (simp add: in_patch_def)
qed

lemma parse_patch_texts:
  assumes "list_all patch_ok qs"
  shows "\<exists>cp cc'. rfold parse_step \<lparr> patchset = ps, current_patch = cp0, current_chunk = cc \<rparr> (concat (map patch_text qs)) =
     Inr \<lparr> patchset = ps @ qs, current_patch = cp, current_chunk = cc' \<rparr>"
  using assms
proof (induction qs arbitrary: ps cp0 cc)
  case (Cons q qs)
  obtain cp cc' where "rfold parse_step \<lparr> patchset = ps, current_patch = cp0, current_chunk = cc \<rparr> (patch_text q) =
      Inr \<lparr> patchset = ps @ [q], current_patch = cp, current_chunk = cc' \<rparr>"
    using parse_patch_text [of q ps cp0 cc] Cons.prems by auto
  then show ?case using Cons.IH [of "ps @ [q]" cp cc'] Cons.prems by (simp add: rfold_append)
qed auto

text \<open>The printers produce these lines.\<close>

definition closed_line :: "string \<Rightarrow> bool" where
  "closed_line w \<longleftrightarrow> (\<exists>v. w = v @ [NL] \<and> NL \<notin> set v)"

lemma lines_of_closed: "list_all closed_line ws \<Longrightarrow> lines_of (concat ws) = ws"
proof (induction ws)
  case (Cons w ws)
  then show ?case by (auto simp: closed_line_def lines_of_app)
qed simp

lemma chunk_text_closed: "chunk_ok c \<Longrightarrow> list_all closed_line (chunk_text c)"
proof -
  assume c: "chunk_ok c"
  have "NL \<notin> set (butlast (chunk_header c))" "last (chunk_header c) = NL"
    by (simp_all add: chunk_header_def butlast_append NL_show_nat, simp add: NL_def)
  then have "closed_line (chunk_header c)"
    unfolding closed_line_def
    by (metis append_butlast_last_id chunk_header_def append_is_Nil_conv list.distinct(1))
  with c show ?thesis
    by (auto simp: chunk_text_def chunk_ok_def list_all_iff closed_line_def NL_raw_line)
qed

lemma patch_text_closed: "patch_ok p \<Longrightarrow> list_all closed_line (patch_text p)"
proof -
  assume p: "patch_ok p"
  then have "closed_line (''--- '' @ psrc p @ [NL])" "closed_line (''+++ '' @ pdst p @ [NL])"
    unfolding closed_line_def patch_ok_def
    by (metis Un_iff append.assoc set_append NL_header(1), metis Un_iff append.assoc set_append NL_header(2))
  with p chunk_text_closed show ?thesis by (auto simp: patch_text_def patch_ok_def list_all_iff)
qed

lemma write_chunk_text: "chunk_ok c \<Longrightarrow> write_chunk c = Inr (concat (chunk_text c))"
proof -
  assume "chunk_ok c"
  then have "rmap write_line (clines c) = Inr (map (\<lambda>l. raw_line l @ [NL]) (clines c))"
    by (intro rmap_total) (auto simp: chunk_ok_def list_all_iff write_raw_line)
  then show ?thesis by (simp add: write_chunk_def chunk_text_def)
qed

lemma write_patch_text: "patch_ok p \<Longrightarrow> write_patch p = Inr (concat (patch_text p))"
proof -
  assume p: "patch_ok p"
  then have "rmap write_chunk (pchunks p) = Inr (map (concat \<circ> chunk_text) (pchunks p))"
    by (intro rmap_total) (auto simp: patch_ok_def list_all_iff write_chunk_text)
  then show ?thesis by (simp add: write_patch_def patch_text_def concat_map_concat)
qed

text \<open>
  Claim C28. The parser of patch sets reads back what \<open>Patch.write\<close> printed: for patches whose
  lines hold no newline and are not taken for file names, all of them can be printed and
  parsing the lines of the printed text gives the same patches, with their names, positions and
  typed lines.
\<close>

theorem parse_written_patches:
  assumes "list_all patch_ok ps"
  shows "\<exists>ts. rmap write_patch ps = Inr ts \<and> parse_patchset (lines_of (concat ts)) = Inr ps"
proof -
  have "rmap write_patch ps = Inr (map (concat \<circ> patch_text) ps)"
    using assms by (intro rmap_total) (auto simp: list_all_iff write_patch_text)
  moreover have "lines_of (concat (map (concat \<circ> patch_text) ps)) = concat (map patch_text ps)"
  proof -
    have "list_all closed_line (concat (map patch_text ps))"
      using assms patch_text_closed by (auto simp: list_all_iff)
    then show ?thesis by (simp only: concat_map_concat lines_of_closed)
  qed
  ultimately show ?thesis
    using parse_patch_texts [of ps "[]" None None] assms
    by (auto simp: parse_patchset_def parse_start_def)
qed

theorem parse_written_patches_witness:
  "\<exists>ts. rmap write_patch
      [\<lparr> psrc = ''a'', pdst = ''b'', pchunks = [\<lparr> clines = [\<lparr> ltype = SRC, ltext = ''x '' \<rparr>,
          \<lparr> ltype = DST, ltext = ''x'' \<rparr>, \<lparr> ltype = BOTH, ltext = [] \<rparr>], csrc_pos = 3, cdst_pos = 3 \<rparr>] \<rparr>] = Inr ts \<and>
    parse_patchset (lines_of (concat ts)) = Inr
      [\<lparr> psrc = ''a'', pdst = ''b'', pchunks = [\<lparr> clines = [\<lparr> ltype = SRC, ltext = ''x '' \<rparr>,
          \<lparr> ltype = DST, ltext = ''x'' \<rparr>, \<lparr> ltype = BOTH, ltext = [] \<rparr>], csrc_pos = 3, cdst_pos = 3 \<rparr>] \<rparr>]"
  by (rule parse_written_patches)
    (simp add: patch_ok_def chunk_ok_def line_ok_def startswith_def NL_def)

section \<open>Restoring trailing white space\<close>

text \<open>
  The abstract step: the line at \<open>d\<close> gets the trailing character of the line at \<open>s\<close> when that
  is all they differ in.
\<close>

definition restores :: "PatchChunkLine list \<Rightarrow> nat \<Rightarrow> nat \<Rightarrow> bool" where
  "restores ls s d \<longleftrightarrow> map_option fst (trailing_whitespace (ltext (ls ! s))) = Some (ltext (ls ! d))"

definition grown :: "PatchChunkLine \<Rightarrow> PatchChunkLine \<Rightarrow> bool" where
  "grown l l' \<longleftrightarrow> l' = l \<or> l' = append_to_line '' '' l \<or> l' = append_to_line [TAB] l"

lemma trailing_whitespace_Some:
  "trailing_whitespace t = Some (g, w) \<Longrightarrow> w = '' '' \<or> w = [TAB]"
  by (auto simp: trailing_whitespace_def split: option.splits if_splits)

lemma trailing_whitespace_plain:
  assumes "trailing_whitespace t = Some (g, w)" "NL \<notin> set t"
  shows "t = g @ w"
proof -
  have e: "takeWhile (\<lambda>c. c \<noteq> NL) t = t" "dropWhile (\<lambda>c. c \<noteq> NL) t = []"
    using assms(2) by (auto simp: takeWhile_eq_all_conv dropWhile_eq_Nil_conv)
  show ?thesis using assms(1) unfolding trailing_whitespace_def rest_of_line_def e
    by (auto split: if_splits) (metis append_butlast_last_id)+
qed

lemma trailing_whitespace_self: "NL \<notin> set t \<Longrightarrow> trailing_whitespace t \<noteq> Some (t, w)"
  using trailing_whitespace_plain [of t t w] trailing_whitespace_Some [of t t w] by auto

text \<open>One turn of the loop, where both indices are in range.\<close>

definition restore_line :: "nat \<Rightarrow> nat \<Rightarrow> PatchChunkLine list \<Rightarrow> PatchChunkLine list" where
  "restore_line s d ls = (case trailing_whitespace (ltext (ls ! s)) of
       None \<Rightarrow> ls
     | Some (g1, g2) \<Rightarrow> (if g1 = ltext (ls ! d) then ls[d := append_to_line g2 (ls ! d)] else ls))"

lemma restore_at_in:
  "i < length ss \<Longrightarrow> i < length ds \<Longrightarrow>
     restore_at ss ds i c = (Inr (), c\<lparr>clines := restore_line (ss ! i) (ds ! i) (clines c)\<rparr>)"
  by (auto simp: restore_at_def restore_line_def split: option.splits)

lemma restore_at_out: "i < length ss \<Longrightarrow> length ds \<le> i \<Longrightarrow> restore_at ss ds i c = (Inl IndexError, c)"
  by (simp add: restore_at_def sbind_fail)

text \<open>The whole loop over the indices: as many turns as both sides have lines.\<close>

definition restore_turns :: "nat list \<Rightarrow> nat list \<Rightarrow> nat \<Rightarrow> PatchChunkLine list \<Rightarrow> PatchChunkLine list" where
  "restore_turns ss ds n ls = fold (\<lambda>i. restore_line (ss ! i) (ds ! i)) [0..<n] ls"

lemma restore_turns_simps [simp]:
  "restore_turns ss ds 0 ls = ls"
  "restore_turns ss ds (Suc n) ls = restore_line (ss ! n) (ds ! n) (restore_turns ss ds n ls)"
  by (simp_all add: restore_turns_def)

lemma sfor_turns:
  "n \<le> length ss \<Longrightarrow> n \<le> length ds \<Longrightarrow>
     sfor (restore_at ss ds) [0..<n] c = (Inr (), c\<lparr>clines := restore_turns ss ds n (clines c)\<rparr>)"
proof (induction n)
  case (Suc n)
  then show ?case by (simp add: sfor_append restore_at_in sbind_ret)
qed simp

lemma restore_chunk_turns:
  "restore_chunk c =
     (if src_len c \<le> dst_len c then Inr () else Inl IndexError,
      c\<lparr>clines := restore_turns (src c) (dst c) (min (src_len c) (dst_len c)) (clines c)\<rparr>)"
proof (cases "src_len c \<le> dst_len c")
  case True
  then show ?thesis by (simp add: restore_chunk_def src_len_def dst_len_def sfor_turns min_def)
next
  case False
  let ?d = "dst_len c"
  have "[0..<src_len c] = [0..<?d] @ ?d # [Suc ?d..<src_len c]"
    using False upt_add_eq_append [of 0 ?d "src_len c - ?d"] by (simp add: upt_conv_Cons)
  moreover have "sfor (restore_at (src c) (dst c)) [0..<?d] c =
      (Inr (), c\<lparr>clines := restore_turns (src c) (dst c) ?d (clines c)\<rparr>)"
    using False by (intro sfor_turns) (simp_all add: src_len_def dst_len_def)
  ultimately show ?thesis
    using False by (simp add: restore_chunk_def sfor_append sbind_ret sbind_fail restore_at_out src_len_def dst_len_def min_def)
qed

lemma restore_line_length [simp]: "length (restore_line s d ls) = length ls"
  by (auto simp: restore_line_def split: option.splits)

lemma restore_turns_length [simp]: "length (restore_turns ss ds n ls) = length ls"
  by (induction n) simp_all

lemma restore_line_types: "map ltype (restore_line s d ls) = map ltype ls"
proof (cases "d < length ls")
  case True
  then show ?thesis
    by (auto simp: restore_line_def map_update append_to_line_def list_update_same_conv split: option.splits)
next
  case False
  then show ?thesis by (auto simp: restore_line_def list_update_beyond not_less split: option.splits)
qed

lemma restore_turns_types: "map ltype (restore_turns ss ds n ls) = map ltype ls"
  by (induction n) (simp_all add: restore_line_types)

lemma restore_line_other: "k \<noteq> d \<Longrightarrow> restore_line s d ls ! k = ls ! k"
  by (auto simp: restore_line_def split: option.splits)

lemma restore_line_grown: "d < length ls \<Longrightarrow> grown (ls ! d) (restore_line s d ls ! d)"
  by (auto simp: restore_line_def grown_def split: option.splits dest: trailing_whitespace_Some)

lemma restore_turns_other:
  "n \<le> length ds \<Longrightarrow> k \<notin> set (take n ds) \<Longrightarrow> restore_turns ss ds n ls ! k = ls ! k"
  by (induction n) (simp_all add: take_Suc_conv_app_nth restore_line_other)

lemma restore_turns_grown:
  assumes "distinct ds" "set ds \<subseteq> {..<length ls}" "n \<le> length ds"
  shows "k < length ls \<Longrightarrow> grown (ls ! k) (restore_turns ss ds n ls ! k)"
  using assms(3)
proof (induction n)
  case (Suc n)
  show ?case
  proof (cases "k = ds ! n")
    case True
    have "ds ! n \<notin> set (take n ds)" using assms(1) Suc.prems by (auto simp: in_set_conv_nth nth_eq_iff_index_eq)
    with Suc.prems True have "restore_turns ss ds n ls ! k = ls ! k" by (intro restore_turns_other) simp_all
    with restore_line_grown [of "ds ! n" "restore_turns ss ds n ls" "ss ! n"] Suc.prems True
    show ?thesis by simp
  next
    case False
    with Suc show ?thesis by (simp add: restore_line_other)
  qed
qed (simp add: grown_def)

lemma sides:
  "distinct (src c)" "distinct (dst c)" "set (src c) \<subseteq> {..<length (clines c)}" "set (dst c) \<subseteq> {..<length (clines c)}"
  by (auto simp: src_def dst_def)

lemma sides_types: "map ltype (clines c) = map ltype (clines d) \<Longrightarrow> src c = src d \<and> dst c = dst d"
proof -
  assume t: "map ltype (clines c) = map ltype (clines d)"
  then have n: "length (clines c) = length (clines d)" by (rule map_eq_imp_length_eq)
  have "ltype (clines c ! k) = ltype (clines d ! k)" if "k < length (clines d)" for k
    using t n that by (metis nth_map)
  with n show ?thesis by (auto simp: src_def dst_def is_src_def is_dst_def intro!: filter_cong)
qed

lemma restore_chunk_sides: "src (snd (restore_chunk c)) = src c \<and> dst (snd (restore_chunk c)) = dst c"
  by (rule sides_types) (simp add: restore_chunk_turns restore_turns_types)

definition chunk_grown :: "PatchChunk \<Rightarrow> PatchChunk \<Rightarrow> bool" where
  "chunk_grown c c' \<longleftrightarrow> csrc_pos c' = csrc_pos c \<and> cdst_pos c' = cdst_pos c \<and>
     list_all2 grown (clines c) (clines c')"

definition patch_grown :: "Patch \<Rightarrow> Patch \<Rightarrow> bool" where
  "patch_grown p p' \<longleftrightarrow> psrc p' = psrc p \<and> pdst p' = pdst p \<and> list_all2 chunk_grown (pchunks p) (pchunks p')"

lemma grown_refl [simp]: "list_all2 grown ls ls" "chunk_grown c c" "patch_grown p p"
  by (simp_all add: grown_def chunk_grown_def patch_grown_def list_all2_refl)

lemma restore_chunk_grown: "chunk_grown c (snd (restore_chunk c))"
proof -
  let ?n = "min (src_len c) (dst_len c)"
  have "grown (clines c ! k) (restore_turns (src c) (dst c) ?n (clines c) ! k)" if "k < length (clines c)" for k
    using restore_turns_grown [OF sides(2) sides(4), of ?n c k "src c"] that by (simp add: dst_len_def)
  then show ?thesis by (simp add: chunk_grown_def restore_chunk_turns list_all2_conv_all_nth)
qed

lemma restore_chunks_grown: "list_all2 chunk_grown cs (snd (restore_chunks cs))"
proof (induction cs)
  case (Cons c cs)
  then show ?case using restore_chunk_grown [of c]
    by (auto simp: case_prod_unfold Let_def list_all2_refl split: sum.splits prod.splits)
qed simp

lemma restore_patches_grown: "list_all2 patch_grown ps (restore_patches ps)"
proof (induction ps)
  case (Cons p ps)
  have "patch_grown p (p\<lparr>pchunks := snd (restore_chunks (pchunks p))\<rparr>)"
    by (simp add: patch_grown_def restore_chunks_grown)
  with Cons show ?case by (auto simp: case_prod_unfold Let_def list_all2_refl)
qed simp

text \<open>
  Undoing white space changes keeps the shape of a patch set: the result has the same
  patches, names, chunks, positions and lines in the same order, each line with its type, and
  every line is the line read or that line with exactly one blank or tab added. It fails only
  where the parser does, although an uneven chunk stops the pass.
\<close>

theorem restoring_keeps_shape:
  "case remove_trailing_whitespace_changes generator of
       Inl e \<Rightarrow> parse_patchset generator = Inl e
     | Inr qs \<Rightarrow> (\<exists>ps. parse_patchset generator = Inr ps \<and> list_all2 patch_grown ps qs)"
  by (cases "parse_patchset generator") (simp_all add: remove_trailing_whitespace_changes_def restore_patches_grown)

text \<open>The two sides of a chunk as texts.\<close>

definition source_text :: "PatchChunk \<Rightarrow> string list" where
  "source_text c = map (\<lambda>k. ltext (clines c ! k)) (src c)"

definition dest_text :: "PatchChunk \<Rightarrow> string list" where
  "dest_text c = map (\<lambda>k. ltext (clines c ! k)) (dst c)"

text \<open>Some turn would append to a line that both sides share.\<close>

definition touches_context :: "PatchChunk \<Rightarrow> bool" where
  "touches_context c \<longleftrightarrow> list_ex (\<lambda>i. restores (clines c) (src c ! i) (dst c ! i) \<and>
     ltype (clines c ! (dst c ! i)) = BOTH) [0..<min (src_len c) (dst_len c)]"

lemma src_is_src: "i < src_len c \<Longrightarrow> is_src (clines c ! (src c ! i))"
  unfolding src_len_def src_def by (metis (mono_tags, lifting) mem_Collect_eq nth_mem set_filter)

lemma dst_is_dst: "i < dst_len c \<Longrightarrow> is_dst (clines c ! (dst c ! i))"
  unfolding dst_len_def dst_def by (metis (mono_tags, lifting) mem_Collect_eq nth_mem set_filter)

lemma restore_turns_exact:
  assumes nt: "\<not> touches_context c"
  shows "n \<le> src_len c \<Longrightarrow> n \<le> dst_len c \<Longrightarrow>
    (\<forall>k < length (clines c). is_src (clines c ! k) \<longrightarrow>
      restore_turns (src c) (dst c) n (clines c) ! k = clines c ! k) \<and>
    (\<forall>i < n. restore_turns (src c) (dst c) n (clines c) ! (dst c ! i) =
      restore_line (src c ! i) (dst c ! i) (clines c) ! (dst c ! i))"
proof (induction n)
  case (Suc n)
  let ?ls = "clines c" and ?rs = "restore_turns (src c) (dst c) n (clines c)"
  let ?s = "src c ! n" and ?d = "dst c ! n"
  have n: "n < src_len c" "n < dst_len c" using Suc.prems by simp_all
  have in_range: "?s < length ?ls" "?d < length ?ls"
    using sides(3,4) [of c] n unfolding src_len_def dst_len_def by (meson lessThan_iff nth_mem subsetD)+
  have ih: "\<And>k. k < length ?ls \<Longrightarrow> is_src (?ls ! k) \<Longrightarrow> ?rs ! k = ?ls ! k"
    "\<And>i. i < n \<Longrightarrow> ?rs ! (dst c ! i) = restore_line (src c ! i) (dst c ! i) ?ls ! (dst c ! i)"
    using Suc.IH n by simp_all
  have s: "?rs ! ?s = ?ls ! ?s" using ih(1) in_range(1) src_is_src n by simp
  have apart: "dst c ! i \<noteq> ?d" if "i < n" for i
    using sides(2) [of c] n that by (auto simp: nth_eq_iff_index_eq dst_len_def)
  then have "?d \<notin> set (take n (dst c))" by (auto simp: in_set_conv_nth)
  then have d: "?rs ! ?d = ?ls ! ?d" using n by (intro restore_turns_other) (simp_all add: dst_len_def)
  have same: "restore_line ?s ?d ?rs ! ?d = restore_line ?s ?d ?ls ! ?d"
    using s d in_range by (simp add: restore_line_def split: option.splits)
  have "restore_line ?s ?d ?rs ! k = ?ls ! k" if k: "k < length ?ls" "is_src (?ls ! k)" for k
  proof (cases "k = ?d")
    case True
    then have "ltype (?ls ! ?d) = BOTH" using k dst_is_dst [of n c] n by (auto simp: is_src_def is_dst_def)
    then have "\<not> restores ?ls ?s ?d" using nt n by (auto simp: touches_context_def list_ex_iff)
    then have "restore_line ?s ?d ?ls = ?ls"
      by (auto simp: restores_def restore_line_def split: option.splits)
    then show ?thesis using same True by simp
  qed (use ih(1) k in \<open>simp add: restore_line_other\<close>)
  moreover have "restore_line ?s ?d ?rs ! (dst c ! i) = restore_line (src c ! i) (dst c ! i) ?ls ! (dst c ! i)"
    if "i < Suc n" for i
  proof (cases "i = n")
    case False
    with that have "i < n" by simp
    with apart ih(2) show ?thesis by (simp add: restore_line_other)
  qed (use same in simp)
  ultimately show ?case by simp
qed simp

lemma restore_line_text:
  assumes "NL \<notin> set (ltext (ls ! s))" "d < length ls"
  shows "ltext (restore_line s d ls ! d) = (if restores ls s d then ltext (ls ! s) else ltext (ls ! d))"
  using assms trailing_whitespace_plain [of "ltext (ls ! s)"]
  by (auto simp: restore_line_def restores_def append_to_line_def split: option.splits)

text \<open>
  What undoing a white space change does to a chunk of lines without newline: as long
  as it would not append to a line that both sides share, the source side stays what it was, so
  that the chunk still applies to the file it was made from, and the destination side has at
  place \<open>i\<close> the source line \<open>i\<close> where the two differ only in one trailing blank or tab, and its
  own line elsewhere.
\<close>

theorem restoring_is_exact:
  assumes "\<not> touches_context c" and "list_all (\<lambda>l. NL \<notin> set (ltext l)) (clines c)"
  shows "source_text (snd (restore_chunk c)) = source_text c \<and>
    dest_text (snd (restore_chunk c)) =
      map (\<lambda>i. if i < src_len c \<and> restores (clines c) (src c ! i) (dst c ! i)
               then source_text c ! i else dest_text c ! i) [0..<dst_len c]"
proof
  let ?n = "min (src_len c) (dst_len c)" and ?c = "snd (restore_chunk c)"
  let ?rs = "restore_turns (src c) (dst c) ?n (clines c)"
  have cl: "clines ?c = ?rs" by (simp add: restore_chunk_turns)
  note ex = restore_turns_exact [OF assms(1), of ?n]
  have src_in: "k < length (clines c)" "is_src (clines c ! k)" if "k \<in> set (src c)" for k
    using that by (auto simp: src_def)
  show "source_text ?c = source_text c"
    using ex src_in by (simp add: source_text_def restore_chunk_sides cl)
  show "dest_text ?c = map (\<lambda>i. if i < src_len c \<and> restores (clines c) (src c ! i) (dst c ! i)
               then source_text c ! i else dest_text c ! i) [0..<dst_len c]"
  proof (rule nth_equalityI)
    show "length (dest_text ?c) = length (map (\<lambda>i. if i < src_len c \<and> restores (clines c) (src c ! i) (dst c ! i)
        then source_text c ! i else dest_text c ! i) [0..<dst_len c])"
      by (simp add: dest_text_def restore_chunk_sides dst_len_def)
  next
    fix i assume "i < length (dest_text ?c)"
    then have i: "i < length (dst c)" by (simp add: dest_text_def restore_chunk_sides)
    then have d: "dst c ! i < length (clines c)" using sides(4) [of c] nth_mem by blast
    show "dest_text ?c ! i = map (\<lambda>i. if i < src_len c \<and> restores (clines c) (src c ! i) (dst c ! i)
        then source_text c ! i else dest_text c ! i) [0..<dst_len c] ! i"
    proof (cases "i < src_len c")
      case True
      then have "src c ! i < length (clines c)" using sides(3) [of c] nth_mem unfolding src_len_def by blast
      then have "NL \<notin> set (ltext (clines c ! (src c ! i)))" using assms(2) by (simp add: list_all_length)
      with True i d ex restore_line_text [of "clines c" "src c ! i" "dst c ! i"] show ?thesis
        by (simp add: dest_text_def source_text_def restore_chunk_sides cl dst_len_def src_len_def)
    next
      case False
      have "dst c ! i \<notin> set (take ?n (dst c))"
        using False i sides(2) [of c] by (auto simp: in_set_conv_nth nth_eq_iff_index_eq src_len_def)
      then have "?rs ! (dst c ! i) = clines c ! (dst c ! i)"
        by (intro restore_turns_other) (simp_all add: dst_len_def)
      with False i show ?thesis by (simp add: dest_text_def restore_chunk_sides cl dst_len_def)
    qed
  qed
qed

definition sample_chunk :: "PatchChunk" where
  "sample_chunk = \<lparr> clines = [\<lparr> ltype = BOTH, ltext = ''{'' \<rparr>, \<lparr> ltype = SRC, ltext = ''x; '' \<rparr>,
     \<lparr> ltype = DST, ltext = ''x;'' \<rparr>, \<lparr> ltype = BOTH, ltext = ''}'' \<rparr>], csrc_pos = 1, cdst_pos = 1 \<rparr>"

theorem restoring_is_exact_witness:
  "source_text (snd (restore_chunk sample_chunk)) = source_text sample_chunk \<and>
   dest_text (snd (restore_chunk sample_chunk)) = [''{'', ''x; '', ''}'']"
proof -
  have g: "\<not> touches_context sample_chunk" by code_simp
  have n: "list_all (\<lambda>l. NL \<notin> set (ltext l)) (clines sample_chunk)" by code_simp
  have "map (\<lambda>i. if i < src_len sample_chunk \<and>
        restores (clines sample_chunk) (src sample_chunk ! i) (dst sample_chunk ! i)
      then source_text sample_chunk ! i else dest_text sample_chunk ! i) [0..<dst_len sample_chunk] = [''{'', ''x; '', ''}'']"
    by code_simp
  with restoring_is_exact [OF g n] show ?thesis by (simp only:)
qed

text \<open>
  Where the guard fails: the line \<open>a\<close> is context, and after the pass the source side asks for a
  line \<open>a\<close> with a blank that the file does not have.
\<close>

lemma shared_line_changes_source:
  "source_text (snd (restore_chunk \<lparr> clines = [\<lparr> ltype = SRC, ltext = ''a '' \<rparr>, \<lparr> ltype = BOTH, ltext = ''a'' \<rparr>],
     csrc_pos = 1, cdst_pos = 1 \<rparr>)) = [''a '', ''a '']"
  by code_simp

lemma restore_chunks_uneven:
  "dst_len c < src_len c \<Longrightarrow> restore_chunks (c # cs) = (True, snd (restore_chunk c) # cs)"
  by (simp add: restore_chunk_turns)

lemma restore_chunks_even:
  "src_len c \<le> dst_len c \<Longrightarrow>
     restore_chunks (c # cs) = (fst (restore_chunks cs), snd (restore_chunk c) # snd (restore_chunks cs))"
  by (simp add: restore_chunk_turns case_prod_unfold Let_def)

text \<open>
  The pass goes through the chunks up to and including the first one with more source
  than destination lines, whose \<open>IndexError\<close> the bare \<open>except\<close> turns into a return: each chunk
  of that prefix is processed, and all the later ones keep their white space changes.
\<close>

theorem first_uneven_chunk_stops:
  assumes "list_all (\<lambda>c. src_len c \<le> dst_len c) cs" and "dst_len c < src_len c"
  shows "restore_patches (p\<lparr>pchunks := cs @ c # ds\<rparr> # ps) =
    p\<lparr>pchunks := map (snd \<circ> restore_chunk) (cs @ [c]) @ ds\<rparr> # ps"
proof -
  have "restore_chunks (cs @ c # ds) = (True, map (snd \<circ> restore_chunk) (cs @ [c]) @ ds)"
    using assms(1)
  proof (induction cs)
    case Nil
    show ?case using restore_chunks_uneven [OF assms(2)] by simp
  next
    case (Cons b cs)
    then show ?case using restore_chunks_even [of b "cs @ c # ds"] by simp
  qed
  then show ?thesis by simp
qed

theorem first_uneven_chunk_stops_witness:
  "restore_patches [new_patch\<lparr>pchunks := [] @ \<lparr> clines = [\<lparr> ltype = SRC, ltext = ''a'' \<rparr>], csrc_pos = 1, cdst_pos = 1 \<rparr> # [sample_chunk]\<rparr>] =
   [new_patch\<lparr>pchunks := map (snd \<circ> restore_chunk) ([] @ [\<lparr> clines = [\<lparr> ltype = SRC, ltext = ''a'' \<rparr>], csrc_pos = 1, cdst_pos = 1 \<rparr>]) @ [sample_chunk]\<rparr>]"
  by (rule first_uneven_chunk_stops) (simp_all add: src_len_def dst_len_def src_def dst_def is_src_def is_dst_def)

end
