(* ===== verification/Style_Run.thy ===== *)
theory Style_Run
  imports Check_Style
begin

text \<open>
  The procedures of \<^verbatim>\<open>utils/check-style.py\<close>: temporary files, the call of uncrustify, the diff of
  its result against the source, the patch of a copy (\<open>indent\<close>), the comparison or the update in
  place (\<open>indent_files\<close>), and the script (\<open>run_as_main\<close>). The programs uncrustify, patch and git,
  the names \<^verbatim>\<open>mkstemp\<close> picks and \<^verbatim>\<open>difflib.unified_diff\<close> are parameters, collected in a record;
  what the properties rely on of them are named predicates.
\<close>

section \<open>The world of the script\<close>

type_synonym files = "(string, string) dict"

record style_state =
  disk_files :: files
  stderr_text :: string
  stdout_text :: string

text \<open>
  \<open>run_uncrustify cfg source output fs\<close> is \<open>None\<close> when the program cannot be started, else what
  it printed on its two streams and the files it leaves; \<open>run_patch diff target fs\<close> likewise.
\<close>

record style_env =
  mkstemp_name :: "files \<Rightarrow> string"
  run_uncrustify :: "string \<Rightarrow> string \<Rightarrow> string \<Rightarrow> files \<Rightarrow> (string \<times> string \<times> files) option"
  run_patch :: "string \<Rightarrow> string \<Rightarrow> files \<Rightarrow> (string \<times> string \<times> files) option"
  unified_diff :: "string list \<Rightarrow> string list \<Rightarrow> string \<Rightarrow> string \<Rightarrow> string list"
  git_diff_output :: string
  git_toplevel_output :: string

type_synonym 'a style = "(style_state, 'a) proc"

definition CR :: char where "CR = CHR 0x0D"

text \<open>Text read in mode \<^verbatim>\<open>r\<close>: every line end becomes a newline.\<close>

fun universal :: "string \<Rightarrow> string" where
  "universal [] = []"
| "universal (c # s) =
     (if c = CR then NL # universal (if s \<noteq> [] \<and> hd s = NL then tl s else s) else c # universal s)"

definition no_such_file :: "string \<Rightarrow> py_error" where
  "no_such_file name = OtherError (''No such file or directory: '' @ name)"

definition read_text :: "string \<Rightarrow> string style" where
  "read_text name s = (case map_of (disk_files s) name of
       None \<Rightarrow> (Inl (no_such_file name), s) | Some t \<Rightarrow> (Inr (universal t), s))"

definition write_file :: "string \<Rightarrow> string \<Rightarrow> unit style" where
  "write_file name t = modify (\<lambda>s. s\<lparr>disk_files := AList.update name t (disk_files s)\<rparr>)"

definition eprint :: "string \<Rightarrow> unit style" where
  "eprint t = modify (\<lambda>s. s\<lparr>stderr_text := stderr_text s @ t\<rparr>)"

definition oprint :: "string \<Rightarrow> unit style" where
  "oprint t = modify (\<lambda>s. s\<lparr>stdout_text := stdout_text s @ t\<rparr>)"

definition mkstemp :: "style_env \<Rightarrow> string style" where
  "mkstemp env = sbind (gets (\<lambda>s. mkstemp_name env (disk_files s))) (\<lambda>name.
     seq (write_file name []) (ret name))"

text \<open>\<open>shutil.copyfile\<close>, byte for byte; it refuses a file and itself.\<close>

definition copyfile :: "string \<Rightarrow> string \<Rightarrow> unit style" where
  "copyfile a b = sbind (gets (\<lambda>s. map_of (disk_files s) a)) (\<lambda>t. case t of
       None \<Rightarrow> fail (no_such_file a)
     | Some x \<Rightarrow> (if a = b then fail (OtherError ''SameFileError'') else write_file b x))"

section \<open>git_modified_files, copy_file\<close>

definition git_modified_files :: "style_env \<Rightarrow> string list" where
  "git_modified_files env =
     (let files_changed = map strip (lines_of (git_diff_output env));
          files_changed = filter (\<lambda>item. endswith item ''.h'' \<or> endswith item ''.cc'') files_changed
      in map (\<lambda>filename. slice_to (git_toplevel_output env) (- 1) @ ''/'' @ strip filename) files_changed)"

definition copy_file :: "style_env \<Rightarrow> string \<Rightarrow> string style" where
  "copy_file env filename = sbind (mkstemp env) (\<lambda>pathname.
     sbind (read_text filename) (\<lambda>t.
     seq (write_file pathname (concat (lines_of t))) (ret pathname)))"

definition uncrustify_config_file :: "style_env \<Rightarrow> int \<Rightarrow> string style" where
  "uncrustify_config_file env level = sbind (mkstemp env) (\<lambda>pathname.
     seq (write_file pathname (config_text level)) (ret pathname))"

section \<open>indent\<close>

text \<open>A program run on the files; \<open>None\<close> is the \<open>OSError\<close> of starting it.\<close>

definition run_program :: "(files \<Rightarrow> (string \<times> string \<times> files) option) \<Rightarrow> (string \<times> string) style" where
  "run_program f s = (case f (disk_files s) of
       None \<Rightarrow> (Inl (OtherError ''OSError''), s)
     | Some (out, err, fs) \<Rightarrow> (Inr (out, err), s\<lparr>disk_files := fs\<rparr>))"

definition apply_uncrustify :: "style_env \<Rightarrow> bool \<Rightarrow> string \<Rightarrow> string \<Rightarrow> string \<Rightarrow> unit style" where
  "apply_uncrustify env debug cfg source output =
     try_except (\<lambda>e. e = OtherError ''OSError'')
       (sbind (run_program (run_uncrustify env cfg source output)) (\<lambda>(out, err).
          do_if debug (seq (eprint out) (eprint err))))
       (\<lambda>_. fail (OtherError ''uncrustify not installed''))"

text \<open>
  The diff is a generator. Writing it to the debug file uses it up: what is left of it, the
  second component, is what the rest of \<open>indent\<close> sees.
\<close>

definition diff_source :: "style_env \<Rightarrow> bool \<Rightarrow> string \<Rightarrow> string \<Rightarrow> string list style" where
  "diff_source env debug source output =
     sbind (read_text source) (\<lambda>s. sbind (read_text output) (\<lambda>d.
       let diff = unified_diff env (lines_of s) (lines_of d) source output in
       if debug then
         sbind (mkstemp env) (\<lambda>initial_diff.
         seq (eprint (''initial diff file='' @ initial_diff @ [NL]))
        (seq (write_file initial_diff (concat diff)) (ret [])))
       else ret diff))"

definition write_final_diff :: "int \<Rightarrow> string \<Rightarrow> string list \<Rightarrow> unit style" where
  "write_final_diff level final_diff diff =
     (if level < 3 then
        sbind (lift (remove_trailing_whitespace_changes diff)) (\<lambda>patchset.
        do_if (length patchset \<noteq> 0)
          (sbind (lift (write_patch (hd patchset))) (write_file final_diff)))
      else write_file final_diff (concat diff))"

definition apply_final_diff :: "style_env \<Rightarrow> string \<Rightarrow> string \<Rightarrow> bool \<Rightarrow> int \<Rightarrow> string list \<Rightarrow> unit style" where
  "apply_final_diff env source output debug level diff =
     sbind (mkstemp env) (\<lambda>final_diff.
     seq (write_final_diff level final_diff diff)
    (seq (do_if debug (eprint (''final diff file='' @ final_diff @ [NL])))
    (seq (copyfile source output)
    (sbind (run_program (run_patch env final_diff output)) (\<lambda>(out, err).
     do_if debug (seq (eprint out) (eprint err)))))))"

definition indent :: "style_env \<Rightarrow> string \<Rightarrow> bool \<Rightarrow> int \<Rightarrow> string style" where
  "indent env source debug level =
     sbind (mkstemp env) (\<lambda>output.
     sbind (uncrustify_config_file env level) (\<lambda>cfg.
     seq (do_if debug
       (seq (eprint (''original file='' @ source @ [NL]))
       (seq (eprint (''uncrustify config file='' @ cfg @ [NL]))
            (eprint (''temporary file='' @ output @ [NL])))))
    (seq (apply_uncrustify env debug cfg source output)
    (sbind (diff_source env debug source output) (\<lambda>diff.
     seq (apply_final_diff env source output debug level diff)
     (ret output))))))"

section \<open>indent_files, run_as_main\<close>

text \<open>
  \<open>filecmp.cmp\<close>, by the contents (its shortcut, equal size and time stamp, is taken to mean
  equal contents, as the library does).
\<close>

definition filecmp_cmp :: "string \<Rightarrow> string \<Rightarrow> bool style" where
  "filecmp_cmp a b s = (case (map_of (disk_files s) a, map_of (disk_files s) b) of
       (Some x, Some y) \<Rightarrow> (Inr (x = y), s)
     | (None, _) \<Rightarrow> (Inl (no_such_file a), s)
     | (_, None) \<Rightarrow> (Inl (no_such_file b), s))"

definition list_failed :: "(string \<times> string) list \<Rightarrow> unit style" where
  "list_failed failed =
     seq (oprint (''Found '' @ show_nat (length failed) @ '' badly indented files:'' @ [NL]))
       (sfor (\<lambda>(src, dst). oprint (''  '' @ src @ [NL])) failed)"

definition diff_failed :: "style_env \<Rightarrow> (string \<times> string) list \<Rightarrow> unit style" where
  "diff_failed env failed = sfor (\<lambda>(src, dst).
     sbind (read_text src) (\<lambda>s. sbind (read_text dst) (\<lambda>d.
       sfor oprint (unified_diff env (lines_of s) (lines_of d) src dst)))) failed"

definition compare_pair :: "string \<times> string \<Rightarrow> ((string \<times> string) \<times> bool) style" where
  "compare_pair = (\<lambda>(src, dst). sbind (filecmp_cmp src dst) (\<lambda>eq. ret ((src, dst), eq)))"

definition differing :: "(string \<times> string) list \<Rightarrow> (string \<times> string) list style" where
  "differing output = sbind (smap compare_pair output) (\<lambda>cs.
     ret (map fst (filter (\<lambda>(_, eq). \<not> eq) cs)))"

definition indent_files :: "style_env \<Rightarrow> string list \<Rightarrow> bool \<Rightarrow> bool \<Rightarrow> int \<Rightarrow> bool \<Rightarrow> bool style" where
  "indent_files env files diff debug level inplace =
     sbind (smap (\<lambda>f. sbind (indent env f debug level) (\<lambda>dst. ret (f, dst))) files) (\<lambda>output.
     if inplace then seq (sfor (\<lambda>(src, dst). copyfile dst src) output) (ret True)
     else sbind (differing output) (\<lambda>failed.
       if 0 < length failed then
         seq (if \<not> diff then list_failed failed else diff_failed env failed) (ret False)
       else ret True))"

record style_options =
  opt_debug :: bool
  opt_level :: int
  opt_git :: bool
  opt_file :: string
  opt_diff :: bool
  opt_in_place :: bool

definition default_style_options :: style_options where
  "default_style_options = \<lparr> opt_debug = False, opt_level = 0, opt_git = False, opt_file = [],
     opt_diff = False, opt_in_place = False \<rparr>"

definition indent_with :: "style_env \<Rightarrow> style_options \<Rightarrow> string list \<Rightarrow> bool style" where
  "indent_with env opts files =
     indent_files env files (opt_diff opts) (opt_debug opts) (opt_level opts) (opt_in_place opts)"

definition run_as_main :: "style_env \<Rightarrow> style_options \<Rightarrow> unit style" where
  "run_as_main env opts =
     sbind (if opt_git opts then indent_with env opts (git_modified_files env)
            else if opt_file opts \<noteq> [] then
              sbind (gets (\<lambda>s. has_key (disk_files s) (opt_file opts))) (\<lambda>there.
              if \<not> there then
                seq (oprint (''file '' @ opt_file opts @ '' does not exist'' @ [NL])) (fail (SystemExit 1))
              else indent_with env opts [opt_file opts])
            else ret False) (\<lambda>style_is_correct.
     if \<not> style_is_correct then fail (SystemExit 1) else fail (SystemExit 0))"

text \<open>
  The script: \<open>SystemExit\<close> is no \<open>Exception\<close>, so the handler does not see it. \<open>str_of\<close> is the
  message of an exception.
\<close>

definition is_exit :: "py_error \<Rightarrow> bool" where
  "is_exit e = (case e of SystemExit _ \<Rightarrow> True | _ \<Rightarrow> False)"

definition style_main :: "(py_error \<Rightarrow> string) \<Rightarrow> style_env \<Rightarrow> style_options \<Rightarrow> unit style" where
  "style_main str_of env opts = try_except (\<lambda>e. \<not> is_exit e) (run_as_main env opts)
     (\<lambda>e. seq (eprint (str_of e @ [NL])) (fail (SystemExit 1)))"

definition exit_code :: "(py_error + 'a) \<Rightarrow> int" where
  \<comment> \<open>the status of the interpreter\<close>
  "exit_code r = (case r of Inl (SystemExit n) \<Rightarrow> n | Inl _ \<Rightarrow> 1 | Inr _ \<Rightarrow> 0)"

section \<open>What the properties rely on of the programs\<close>

definition fresh_names :: "style_env \<Rightarrow> bool" where
  \<comment> \<open>\<^verbatim>\<open>mkstemp\<close> picks a name no file has\<close>
  "fresh_names env \<longleftrightarrow> (\<forall>fs. \<not> has_key fs (mkstemp_name env fs))"

definition writes_output_only :: "style_env \<Rightarrow> bool" where
  \<comment> \<open>uncrustify writes the file after \<^verbatim>\<open>-o\<close> and no other\<close>
  "writes_output_only env \<longleftrightarrow> (\<forall>cfg src out fs o1 o2 fs'.
     run_uncrustify env cfg src out fs = Some (o1, o2, fs') \<longrightarrow>
       has_key fs' out \<and> (\<forall>p. p \<noteq> out \<longrightarrow> map_of fs' p = map_of fs p))"

definition patch_files :: "string \<Rightarrow> string set" where
  \<comment> \<open>the file patched, the rejects and the backup beside it\<close>
  "patch_files target = {target, target @ ''.rej'', target @ ''.orig''}"

definition writes_target_only :: "style_env \<Rightarrow> bool" where
  "writes_target_only env \<longleftrightarrow> (\<forall>diff target fs o1 o2 fs'.
     run_patch env diff target fs = Some (o1, o2, fs') \<longrightarrow>
       (\<forall>p. p \<notin> patch_files target \<longrightarrow> map_of fs' p = map_of fs p))"

definition empty_diff_changes_nothing :: "style_env \<Rightarrow> bool" where
  "empty_diff_changes_nothing env \<longleftrightarrow> (\<forall>diff target fs o1 o2 fs'.
     run_patch env diff target fs = Some (o1, o2, fs') \<longrightarrow> map_of fs diff = Some [] \<longrightarrow>
       (\<forall>p. map_of fs' p = map_of fs p))"

definition apart_from_temporaries :: "style_env \<Rightarrow> string set \<Rightarrow> bool" where
  \<comment> \<open>the files of \<open>P\<close> are none that \<^verbatim>\<open>mkstemp\<close> may name or patch put beside one\<close>
  "apart_from_temporaries env P \<longleftrightarrow> (\<forall>fs. patch_files (mkstemp_name env fs) \<inter> P = {})"

definition temporary :: "style_env \<Rightarrow> string \<Rightarrow> bool" where
  "temporary env p \<longleftrightarrow> (\<exists>fs. p = mkstemp_name env fs)"

section \<open>The sources are left alone\<close>

definition same_on :: "string set \<Rightarrow> files \<Rightarrow> style_state \<Rightarrow> bool" where
  "same_on P fs0 s \<longleftrightarrow> (\<forall>p \<in> P. map_of (disk_files s) p = map_of fs0 p)"

lemma keeps_print [keeps_intros]:
  "keeps (same_on P fs0) (eprint t)" "keeps (same_on P fs0) (oprint t)"
  by (simp_all add: eprint_def oprint_def keeps_def same_on_def)

lemma keeps_read [keeps_intros]:
  "keeps (same_on P fs0) (read_text f)" "keeps (same_on P fs0) (filecmp_cmp a b)"
  by (auto simp: read_text_def filecmp_cmp_def keeps_def split: option.splits)

lemma keeps_write: "p \<notin> P \<Longrightarrow> keeps (same_on P fs0) (write_file p t)"
  by (auto simp: write_file_def keeps_def same_on_def)

lemma keeps_copy: "b \<notin> P \<Longrightarrow> keeps (same_on P fs0) (copyfile a b)"
  unfolding copyfile_def by (intro keeps_intros) (auto split: option.split intro!: keeps_intros keeps_write)

lemma keeps_list_failed [keeps_intros]: "keeps (same_on P fs0) (list_failed fl)"
  unfolding list_failed_def by (auto intro!: keeps_intros)

lemma keeps_diff_failed [keeps_intros]: "keeps (same_on P fs0) (diff_failed env fl)"
  unfolding diff_failed_def by (auto intro!: keeps_intros)

lemma keeps_differing [keeps_intros]: "keeps (same_on P fs0) (differing output)"
  unfolding differing_def compare_pair_def by (auto intro!: keeps_intros)

lemma temporary_out: "apart_from_temporaries env P \<Longrightarrow> temporary env p \<Longrightarrow> p \<notin> P \<and> patch_files p \<inter> P = {}"
  by (auto simp: apart_from_temporaries_def temporary_def patch_files_def)

lemma gives_mkstemp:
  assumes "apart_from_temporaries env P"
  shows "gives (same_on P fs0) (mkstemp env) (temporary env)"
proof -
  have "mkstemp_name env fs \<notin> P" for fs using assms by (auto simp: apart_from_temporaries_def patch_files_def)
  then show ?thesis
    by (auto simp: mkstemp_def gives_def write_file_def same_on_def temporary_def)
qed

lemma gives_config:
  assumes "apart_from_temporaries env P"
  shows "gives (same_on P fs0) (uncrustify_config_file env level) (temporary env)"
  unfolding uncrustify_config_file_def
  by (rule gives_sbind [OF gives_mkstemp [OF assms]])
    (auto intro!: gives_seq keeps_write gives_ret dest: temporary_out [OF assms])

lemma keeps_uncrustify:
  assumes "writes_output_only env" "out \<notin> P"
  shows "keeps (same_on P fs0) (apply_uncrustify env debug cfg source out)"
proof -
  have "keeps (same_on P fs0) (run_program (run_uncrustify env cfg source out))"
    using assms by (auto simp: run_program_def keeps_def same_on_def writes_output_only_def split: option.split) metis
  then show ?thesis unfolding apply_uncrustify_def by (auto intro!: keeps_intros)
qed

lemma keeps_patch:
  assumes "writes_target_only env" "patch_files out \<inter> P = {}"
  shows "keeps (same_on P fs0) (run_program (run_patch env diff out))"
proof (rule keepsI)
  fix s assume s: "same_on P fs0 s"
  show "same_on P fs0 (snd (run_program (run_patch env diff out) s))"
  proof (cases "run_patch env diff out (disk_files s)")
    case (Some r)
    obtain o1 o2 fs' where r: "r = (o1, o2, fs')" by (cases r) auto
    have "map_of fs' p = map_of (disk_files s) p" if "p \<in> P" for p
      using assms that Some r unfolding writes_target_only_def by blast
    with s Some r show ?thesis by (simp add: run_program_def same_on_def)
  qed (use s in \<open>simp add: run_program_def\<close>)
qed

lemma keeps_diff_source:
  assumes "apart_from_temporaries env P"
  shows "keeps (same_on P fs0) (diff_source env debug source output)"
  unfolding diff_source_def Let_def
  by (intro keeps_intros gives_keeps [OF gives_sbind [OF gives_mkstemp [OF assms]]] gives_seq keeps_write gives_ret)
    (use temporary_out [OF assms] in auto)

lemma keeps_write_final:
  "final \<notin> P \<Longrightarrow> keeps (same_on P fs0) (write_final_diff level final diff)"
  unfolding write_final_diff_def by (auto intro!: keeps_intros keeps_write)

lemma keeps_apply_final:
  assumes a: "apart_from_temporaries env P" and w: "writes_target_only env" and t: "temporary env out"
  shows "keeps (same_on P fs0) (apply_final_diff env source out debug level diff)"
  unfolding apply_final_diff_def
  by (rule gives_keeps [OF gives_sbind [OF gives_mkstemp [OF a], where R = "\<lambda>_. True"]])
    (auto intro!: keeps_gives keeps_intros keeps_write_final keeps_copy
      keeps_patch [OF w conjunct2 [OF temporary_out [OF a t]]] dest: temporary_out [OF a] simp: temporary_out [OF a t] split: prod.split)

lemma gives_indent:
  assumes a: "apart_from_temporaries env P" and u: "writes_output_only env" and w: "writes_target_only env"
  shows "gives (same_on P fs0) (indent env source debug level) (temporary env)"
  unfolding indent_def
  by (rule gives_sbind [OF gives_mkstemp [OF a]], rule gives_any [OF gives_keeps [OF gives_config [OF a]]])
    (auto intro!: gives_seq gives_any gives_ret keeps_uncrustify keeps_diff_source keeps_apply_final keeps_intros u a w
      dest: temporary_out [OF a])

lemma keeps_indent_files:
  assumes "apart_from_temporaries env P" "writes_output_only env" "writes_target_only env"
  shows "keeps (same_on P fs0) (indent_files env files diff debug level False)"
proof -
  have "keeps (same_on P fs0) (indent env f debug level)" for f
    using gives_keeps [OF gives_indent [OF assms]] .
  then show ?thesis
    unfolding indent_files_def by (auto intro!: keeps_intros)
qed

lemma keeps_style_main:
  assumes "apart_from_temporaries env P" "writes_output_only env" "writes_target_only env" "\<not> opt_in_place opts"
  shows "keeps (same_on P fs0) (style_main str_of env opts)"
  unfolding style_main_def run_as_main_def indent_with_def
  using keeps_indent_files [OF assms(1-3)] assms(4) by (auto intro!: keeps_intros)

text \<open>
  Claim C19. Without \<^verbatim>\<open>--in-place\<close> the script changes no file of the project, whatever it checks
  and however it ends: a file that is none of the temporary ones \<^verbatim>\<open>mkstemp\<close> names and none that
  patch puts beside them has after the run the contents it had before, provided that uncrustify
  and patch write only the files they are told to write.
\<close>

theorem check_keeps_sources:
  assumes "apart_from_temporaries env P" "writes_output_only env" "writes_target_only env"
    and "\<not> opt_in_place opts" and "p \<in> P"
  shows "map_of (disk_files (snd (style_main str_of env opts s))) p = map_of (disk_files s) p"
proof -
  have "same_on P (disk_files s) s" by (simp add: same_on_def)
  from keeps_snd [OF keeps_style_main [OF assms(1-4)] this] assms(5) show ?thesis
    by (simp add: same_on_def)
qed

text \<open>A small environment in which all of this holds.\<close>

definition sample_env :: style_env where
  "sample_env = \<lparr>
     mkstemp_name = (\<lambda>fs. ''/tmp/'' @ replicate (length (concat (map fst fs))) (CHR ''x'')),
     run_uncrustify = (\<lambda>cfg source out fs. Some ([], [], AList.update out ''indented'' fs)),
     run_patch = (\<lambda>diff target fs. Some ([], [],
        if map_of fs diff = Some [] then fs else AList.update target ''indented'' fs)),
     unified_diff = (\<lambda>a b fa fb. if a = b then [] else [''--- a'' @ [NL], ''+++ b'' @ [NL]]),
     git_diff_output = ''main.cc'' @ [NL] @ ''README'' @ [NL],
     git_toplevel_output = ''/ns3'' @ [NL] \<rparr>"

lemma key_length: "k \<in> set ks \<Longrightarrow> length k \<le> length (concat ks)"
  by (induction ks) auto

lemma sample_fresh: "fresh_names sample_env"
proof -
  have "''/tmp/'' @ replicate (length (concat (map fst fs))) (CHR ''x'') \<notin> set (dkeys fs)" for fs :: files
    using key_length by fastforce
  then show ?thesis unfolding fresh_names_def sample_env_def by (auto simp: map_of_eq_None_iff)
qed

lemma sample_tools: "writes_output_only sample_env" "writes_target_only sample_env" "empty_diff_changes_nothing sample_env"
  by (auto simp: writes_output_only_def writes_target_only_def empty_diff_changes_nothing_def sample_env_def patch_files_def
      split: if_splits)

lemma sample_apart: "apart_from_temporaries sample_env {''/ns3/main.cc''}"
  by (auto simp: apart_from_temporaries_def patch_files_def sample_env_def)

theorem check_keeps_sources_witness:
  "map_of (disk_files (snd (style_main (\<lambda>_. []) sample_env (default_style_options\<lparr>opt_git := True\<rparr>)
     \<lparr> disk_files = [(''/ns3/main.cc'', ''int  i;'')], stderr_text = [], stdout_text = [] \<rparr>))) ''/ns3/main.cc'' = Some ''int  i;''"
  using check_keeps_sources [OF sample_apart sample_tools(1,2), of "default_style_options\<lparr>opt_git := True\<rparr>" "''/ns3/main.cc''"]
  by (simp add: default_style_options_def)

section \<open>The verdict and the exit status\<close>

text \<open>The files that differ from their copies, the verdict, and what is printed about them.\<close>

definition badly_indented :: "(string \<times> string) list \<Rightarrow> style_state \<Rightarrow> (string \<times> string) list" where
  "badly_indented outs s = filter (\<lambda>(src, dst). map_of (disk_files s) src \<noteq> map_of (disk_files s) dst) outs"

definition all_unchanged :: "(string \<times> string) list \<Rightarrow> style_state \<Rightarrow> bool" where
  "all_unchanged outs s \<longleftrightarrow> badly_indented outs s = []"

definition listing :: "(string \<times> string) list \<Rightarrow> string" where
  "listing failed = ''Found '' @ show_nat (length failed) @ '' badly indented files:'' @ [NL]
     @ concat (map (\<lambda>(src, dst). ''  '' @ src @ [NL]) failed)"

lemma list_failed_run: "list_failed failed s = (Inr (), s\<lparr>stdout_text := stdout_text s @ listing failed\<rparr>)"
proof -
  have "sfor (\<lambda>(src, dst). oprint (''  '' @ src @ [NL])) failed s =
      (Inr (), s\<lparr>stdout_text := stdout_text s @ concat (map (\<lambda>(src, dst). ''  '' @ src @ [NL]) failed)\<rparr>)" for s
    by (induction failed arbitrary: s) (auto simp: oprint_def sbind_def)
  then show ?thesis by (simp add: list_failed_def oprint_def listing_def sbind_def)
qed

definition indent_all :: "style_env \<Rightarrow> string list \<Rightarrow> bool \<Rightarrow> int \<Rightarrow> (string \<times> string) list style" where
  "indent_all env files debug level = smap (\<lambda>f. sbind (indent env f debug level) (\<lambda>dst. ret (f, dst))) files"

lemma indent_all_files: "indent_all env files debug level s = (Inr outs, t) \<Longrightarrow> map fst outs = files"
  unfolding indent_all_def by (induction files arbitrary: s outs t) (auto simp: sbind_Inr)

lemma compare_pair_cases:
  "(\<exists>e. compare_pair x s = (Inl e, s)) \<or>
   compare_pair x s = (Inr (x, map_of (disk_files s) (fst x) = map_of (disk_files s) (snd x)), s)"
proof -
  obtain a b where x: "x = (a, b)" by (cases x) auto
  show ?thesis
    by (cases "map_of (disk_files s) a"; cases "map_of (disk_files s) b")
      (simp_all add: x compare_pair_def filecmp_cmp_def sbind_def)
qed

lemma compare_pairs:
  "smap compare_pair xs s = (r, t) \<Longrightarrow> t = s \<and> (\<forall>cs. r = Inr cs \<longrightarrow>
     map fst (filter (\<lambda>(_, eq). \<not> eq) cs) = badly_indented xs s)"
proof (induction xs arbitrary: r t)
  case Nil
  then show ?case by (auto simp: badly_indented_def)
next
  case (Cons x xs)
  obtain r' t' where e: "smap compare_pair xs s = (r', t')" by (cases "smap compare_pair xs s") auto
  note ih = Cons.IH [OF e]
  show ?case
  proof (cases "\<exists>e. compare_pair x s = (Inl e, s)")
    case True
    with Cons.prems show ?thesis by (auto simp: sbind_fail)
  next
    case False
    then have "compare_pair x s = (Inr (x, map_of (disk_files s) (fst x) = map_of (disk_files s) (snd x)), s)"
      using compare_pair_cases by blast
    with Cons.prems e ih show ?thesis
      by (cases r') (auto simp: sbind_ret sbind_fail badly_indented_def case_prod_unfold)
  qed
qed

lemma differing_state:
  "differing outs s = (r, t) \<Longrightarrow> t = s \<and> (\<forall>failed. r = Inr failed \<longrightarrow>
     failed = badly_indented outs s)"
  using compare_pairs [of outs s] by (auto simp: differing_def sbind_def split: prod.splits sum.splits)

text \<open>The loop that updates the files in place: a file given twice ends as its last copy.\<close>

definition updated_from :: "(string \<times> string) list \<Rightarrow> style_state \<Rightarrow> string \<Rightarrow> string option" where
  "updated_from outs u p = (case map_of (rev outs) p of
       None \<Rightarrow> map_of (disk_files u) p | Some copy \<Rightarrow> map_of (disk_files u) copy)"

lemma copyfile_run:
  assumes "copyfile a b s = (Inr r, t)"
  obtains c where "map_of (disk_files s) a = Some c" "t = s\<lparr>disk_files := AList.update b c (disk_files s)\<rparr>"
  using assms by (auto simp: copyfile_def write_file_def split: option.splits if_splits)

lemma copy_back:
  assumes "sfor (\<lambda>(src, dst). copyfile dst src) outs u = (Inr (), t)" "fst ` set outs \<subseteq> S" "snd ` set outs \<inter> S = {}"
  shows "map_of (disk_files t) p = updated_from outs u p"
  using assms
proof (induction outs arbitrary: u)
  case (Cons x outs)
  obtain a b where x: "x = (a, b)" by (cases x) auto
  from Cons.prems(1) obtain v where "copyfile b a u = (Inr (), v)"
    and v: "sfor (\<lambda>(src, dst). copyfile dst src) outs v = (Inr (), t)"
    by (auto simp: x sbind_Inr)
  then obtain c where c: "map_of (disk_files u) b = Some c" "v = u\<lparr>disk_files := AList.update a c (disk_files u)\<rparr>"
    by (elim copyfile_run)
  have "d \<noteq> a" if "map_of (rev outs) p = Some d" for d
    using Cons.prems(2,3) map_of_SomeD [OF that] x by force
  with Cons.IH [OF v] Cons.prems(2,3) c x show ?case
    by (auto simp: updated_from_def map_add_def split: option.splits if_splits)
qed (simp add: updated_from_def)

lemma indent_files_run:
  assumes "indent_files env files diff debug level inplace s = (Inr verdict, t)"
  obtains outs u where "indent_all env files debug level s = (Inr outs, u)" "map fst outs = files"
    and "inplace \<Longrightarrow> verdict \<and> sfor (\<lambda>(src, dst). copyfile dst src) outs u = (Inr (), t)"
    and "\<not> inplace \<Longrightarrow> (verdict \<longleftrightarrow> all_unchanged outs u) \<and> (verdict \<longrightarrow> t = u) \<and>
      (\<not> verdict \<longrightarrow> (if diff then diff_failed env else list_failed) (badly_indented outs u) u = (Inr (), t))"
proof -
  from assms obtain outs u where o: "indent_all env files debug level s = (Inr outs, u)"
    and rest: "(if inplace then seq (sfor (\<lambda>(src, dst). copyfile dst src) outs) (ret True)
     else sbind (differing outs) (\<lambda>failed.
       if 0 < length failed then
         seq (if \<not> diff then list_failed failed else diff_failed env failed) (ret False)
       else ret True)) u = (Inr verdict, t)"
    unfolding indent_files_def indent_all_def by (auto simp: sbind_Inr)
  show thesis
  proof (rule that [OF o indent_all_files [OF o]])
    show "inplace \<Longrightarrow> verdict \<and> sfor (\<lambda>(src, dst). copyfile dst src) outs u = (Inr (), t)"
      using rest by (auto simp: sbind_Inr)
    assume "\<not> inplace"
    with rest obtain failed v where d: "differing outs u = (Inr failed, v)"
      and p: "(if 0 < length failed then
         seq (if \<not> diff then list_failed failed else diff_failed env failed) (ret False) else ret True) v = (Inr verdict, t)"
      by (auto simp: sbind_Inr)
    have "v = u" "failed = badly_indented outs u" using differing_state [OF d] by simp_all
    with p show "(verdict \<longleftrightarrow> all_unchanged outs u) \<and> (verdict \<longrightarrow> t = u) \<and>
      (\<not> verdict \<longrightarrow> (if diff then diff_failed env else list_failed) (badly_indented outs u) u = (Inr (), t))"
      by (auto simp: sbind_Inr all_unchanged_def split: if_splits)
  qed
qed

text \<open>
  Claim C29. What \<open>indent_files\<close> does when it returns, for files that are none of the temporary ones: every file
  has been re-indented into a copy, in the order given, and was itself left alone by that. With \<open>inplace\<close> the answer
  is True and each file now has the contents of its copy (of its last copy when it was given twice) and every other
  file is what it was. Without it no file is changed any more, the answer is True exactly if every file equals its
  copy, and otherwise, unless a diff is asked for, what is printed is the number and the names of the files that
  differ, in their order.
\<close>

theorem indent_files_verdict:
  assumes "apart_from_temporaries env (set files)" "writes_output_only env" "writes_target_only env"
    and "indent_files env files diff debug level inplace s = (Inr verdict, t)"
  shows "\<exists>outs u. indent_all env files debug level s = (Inr outs, u) \<and> map fst outs = files \<and>
    (\<forall>f \<in> set files. map_of (disk_files u) f = map_of (disk_files s) f) \<and>
    (if inplace then verdict \<and> (\<forall>p. map_of (disk_files t) p = updated_from outs u p)
     else (verdict \<longleftrightarrow> all_unchanged outs u) \<and> (\<forall>p. map_of (disk_files t) p = map_of (disk_files u) p) \<and>
       (diff \<or> stdout_text t = stdout_text u @ (if verdict then [] else listing (badly_indented outs u))))"
proof -
  obtain outs u where o: "indent_all env files debug level s = (Inr outs, u)" "map fst outs = files"
    and inp: "inplace \<Longrightarrow> verdict \<and> sfor (\<lambda>(src, dst). copyfile dst src) outs u = (Inr (), t)"
    and cmp: "\<not> inplace \<Longrightarrow> (verdict \<longleftrightarrow> all_unchanged outs u) \<and> (verdict \<longrightarrow> t = u) \<and>
      (\<not> verdict \<longrightarrow> (if diff then diff_failed env else list_failed) (badly_indented outs u) u = (Inr (), t))"
    using indent_files_run [OF assms(4)] by blast
  have "gives (same_on (set files) (disk_files s)) (sbind (indent env f debug level) (\<lambda>dst. ret (f, dst)))
      (\<lambda>x. temporary env (snd x))" for f
    by (rule gives_sbind [OF gives_indent [OF assms(1-3)]]) (simp add: gives_ret)
  then have "gives (same_on (set files) (disk_files s)) (indent_all env files debug level) (list_all (\<lambda>x. temporary env (snd x)))"
    unfolding indent_all_def by (rule gives_smap)
  from givesD [OF this _ o(1)] have u: "same_on (set files) (disk_files s) u" "list_all (\<lambda>x. temporary env (snd x)) outs"
    by (simp_all add: same_on_def)
  have "snd x \<notin> set files" if "x \<in> set outs" for x
  proof -
    have "temporary env (snd x)" using u(2) that by (simp add: list_all_iff)
    from temporary_out [OF assms(1) this] show ?thesis by (rule conjunct1)
  qed
  then have "snd ` set outs \<inter> set files = {}" by blast
  moreover have "fst ` set outs \<subseteq> set files" using o(2) by (metis set_map order_refl)
  ultimately have copied: "map_of (disk_files t) p = updated_from outs u p" if inplace for p
    using inp [OF that] copy_back [of outs u t "set files"] by simp
  have same: "map_of (disk_files t) p = map_of (disk_files u) p" if "\<not> inplace" for p
  proof -
    have "keeps (same_on UNIV (disk_files u)) ((if diff then diff_failed env else list_failed) (badly_indented outs u))"
      by (auto intro: keeps_intros)
    then have k: "same_on UNIV (disk_files u) t"
      if "(if diff then diff_failed env else list_failed) (badly_indented outs u) u = (Inr (), t)"
      using that keeps_snd [of "same_on UNIV (disk_files u)" _ u] by (metis same_on_def snd_conv)
    have "same_on UNIV (disk_files u) u" by (simp add: same_on_def)
    with k cmp [OF that] have "same_on UNIV (disk_files u) t" by blast
    then show ?thesis by (simp add: same_on_def)
  qed
  have "diff \<or> stdout_text t = stdout_text u @ (if verdict then [] else listing (badly_indented outs u))" if "\<not> inplace"
  proof (cases "verdict \<or> diff")
    case False
    then have "list_failed (badly_indented outs u) u = (Inr (), t)" using cmp [OF that] by simp
    then have "t = u\<lparr>stdout_text := stdout_text u @ listing (badly_indented outs u)\<rparr>" by (simp add: list_failed_run)
    with False show ?thesis by simp
  qed (use cmp [OF that] in auto)
  note listed = this
  have "\<forall>f \<in> set files. map_of (disk_files u) f = map_of (disk_files s) f" using u(1) by (simp add: same_on_def)
  moreover have "if inplace then verdict \<and> (\<forall>p. map_of (disk_files t) p = updated_from outs u p)
     else (verdict \<longleftrightarrow> all_unchanged outs u) \<and> (\<forall>p. map_of (disk_files t) p = map_of (disk_files u) p) \<and>
       (diff \<or> stdout_text t = stdout_text u @ (if verdict then [] else listing (badly_indented outs u)))"
  proof (cases inplace)
    case True
    with inp copied show ?thesis by simp
  next
    case False
    with cmp same listed show ?thesis by (simp only: if_False) blast
  qed
  ultimately show ?thesis using o by blast
qed

text \<open>No procedure below \<open>run_as_main\<close> exits the interpreter.\<close>

abbreviation plain :: "py_error \<Rightarrow> bool" where "plain e \<equiv> \<not> is_exit e"

lemma parse_plain: "rfold parse_step st g = Inl e \<Longrightarrow> plain e"
proof (induction g arbitrary: st)
  case (Cons ln g)
  have "parse_step st ln = Inl e \<Longrightarrow> plain e"
    by (auto simp: parse_step_def begin_patch_def name_dst_def begin_chunk_def chunk_line_def is_exit_def
        split: option.splits prod.splits)
  with Cons show ?case by (auto simp: rbind_Inl_iff)
qed simp

lemma write_plain: "write_patch p = Inl e \<Longrightarrow> plain e"
proof -
  have l: "rmap write_line ls = Inl e \<Longrightarrow> plain e" for ls
    by (induction ls) (auto simp: rbind_Inl_iff write_line_def is_exit_def split: line_type.splits)
  have "rmap write_chunk cs = Inl e \<Longrightarrow> plain e" for cs
    by (induction cs) (auto simp: rbind_Inl_iff write_chunk_def dest: l)
  then show "write_patch p = Inl e \<Longrightarrow> plain e" by (auto simp: write_patch_def rbind_Inl_iff)
qed

lemma plain_errors [simp]: "plain (OtherError m)" "plain (no_such_file f)"
  by (simp_all add: is_exit_def no_such_file_def)

lemma raises_files [raises_intros]:
  "raises plain (read_text f)" "raises plain (write_file f t)" "raises plain (eprint t)" "raises plain (oprint t)"
  "raises plain (filecmp_cmp a b)" "raises plain (run_program pr)" "raises plain (mkstemp env)"
  by (auto simp: raises_def read_text_def write_file_def eprint_def oprint_def filecmp_cmp_def run_program_def
      mkstemp_def no_such_file_def is_exit_def split: option.splits)

lemma raises_copy [raises_intros]: "raises plain (copyfile a b)"
  unfolding copyfile_def
  by (auto intro!: raises_intros split: option.split)

lemma raises_write_final [raises_intros]: "raises plain (write_final_diff level f d)"
  unfolding write_final_diff_def remove_trailing_whitespace_changes_def parse_patchset_def
  by (auto intro!: raises_intros simp: rbind_Inl_iff dest: parse_plain write_plain)

lemma raises_indent [raises_intros]: "raises plain (indent env f debug level)"
  unfolding indent_def uncrustify_config_file_def apply_uncrustify_def diff_source_def apply_final_diff_def Let_def
  by (auto intro!: raises_intros split: prod.split)

text \<open>A badly indented file, updated in place, and found by a check.\<close>

definition bad_file :: style_state where
  "bad_file = \<lparr> disk_files = [(''a.cc'', ''int  i;'')], stderr_text = [], stdout_text = [] \<rparr>"

lemma bad_file_apart: "apart_from_temporaries sample_env (set [''a.cc''])"
  by (auto simp: apart_from_temporaries_def patch_files_def sample_env_def)

lemma bad_file_answers:
  "fst (indent_files sample_env [''a.cc''] False False 0 True bad_file) = Inr True"
  "fst (indent_files sample_env [''a.cc''] False False 0 False bad_file) = Inr False"
  "fst (indent_all sample_env [''a.cc''] False 0 bad_file) = Inr [(''a.cc'', ''/tmp/xxxx'')]"
  "map_of (disk_files (snd (indent_all sample_env [''a.cc''] False 0 bad_file))) ''/tmp/xxxx'' = Some ''indented''"
  "stdout_text (snd (indent_all sample_env [''a.cc''] False 0 bad_file)) = []"
  by code_simp+

theorem indent_files_verdict_witness:
  "map_of (disk_files (snd (indent_files sample_env [''a.cc''] False False 0 True bad_file))) ''a.cc'' = Some ''indented'' \<and>
   map_of (disk_files (snd (indent_files sample_env [''a.cc''] False False 0 False bad_file))) ''a.cc'' = Some ''int  i;'' \<and>
   stdout_text (snd (indent_files sample_env [''a.cc''] False False 0 False bad_file)) =
     listing [(''a.cc'', ''/tmp/xxxx'')]"
proof -
  let ?a = "indent_all sample_env [''a.cc''] False 0 bad_file"
  have run: "indent_files sample_env [''a.cc''] False False 0 True bad_file =
      (Inr True, snd (indent_files sample_env [''a.cc''] False False 0 True bad_file))"
    "indent_files sample_env [''a.cc''] False False 0 False bad_file =
      (Inr False, snd (indent_files sample_env [''a.cc''] False False 0 False bad_file))"
    using bad_file_answers(1,2) by (simp_all add: prod_eq_iff)
  have "?a = (Inr [(''a.cc'', ''/tmp/xxxx'')], snd ?a)" using bad_file_answers(3) by (simp add: prod_eq_iff)
  then have all: "?a = (Inr outs, u) \<longleftrightarrow> outs = [(''a.cc'', ''/tmp/xxxx'')] \<and> u = snd ?a" for outs u by (metis Inr_inject prod.inject)
  note use = indent_files_verdict [OF bad_file_apart sample_tools(1,2)]
  have f: "map_of (disk_files bad_file) ''a.cc'' = Some ''int  i;''" by (simp add: bad_file_def)
  show ?thesis using use [OF run(1)] use [OF run(2)] bad_file_answers(4,5) f
    by (simp add: all updated_from_def badly_indented_def)
qed

lemma raises_indent_files [raises_intros]: "raises plain (indent_files env files diff debug level inplace)"
  unfolding indent_files_def differing_def compare_pair_def list_failed_def diff_failed_def
  by (auto intro!: raises_intros split: prod.split)

text \<open>What the script takes for correct style: nothing to check is not correct.\<close>

definition style_verdict :: "style_env \<Rightarrow> style_options \<Rightarrow> style_state \<Rightarrow> bool" where
  "style_verdict env opts s \<longleftrightarrow>
     (if opt_git opts then fst (indent_with env opts (git_modified_files env) s) = Inr True
      else opt_file opts \<noteq> [] \<and> has_key (disk_files s) (opt_file opts) \<and>
        fst (indent_with env opts [opt_file opts] s) = Inr True)"

lemma exit_with_verdict:
  assumes "raises plain m"
  shows "fst (try_except plain (sbind m (\<lambda>ok. if \<not> ok then fail (SystemExit 1) else fail (SystemExit 0)))
     (\<lambda>e. seq (eprint (str_of e @ [NL])) (fail (SystemExit 1) :: unit style)) s) =
     Inl (SystemExit (if fst (m s) = Inr True then 0 else 1))"
proof -
  obtain r t where m: "m s = (r, t)" by (cases "m s") auto
  show ?thesis
  proof (cases r)
    case (Inl e)
    then have "plain e" using m assms raisesD by fastforce
    then show ?thesis using m Inl by (simp add: try_except_def sbind_fail eprint_def)
  next
    case (Inr b)
    then show ?thesis using m by (simp add: try_except_def sbind_ret is_exit_def)
  qed
qed

text \<open>
  The script always ends through \<open>sys.exit\<close>, with status 0 exactly if it had files to
  check (the ones git reports, else the one named) and \<open>indent_files\<close> returned True for them;
  every exception on the way, a missing file, a missing uncrustify, and a call with neither
  option end with status 1.
\<close>

theorem style_exit_status:
  "fst (style_main str_of env opts s) = Inl (SystemExit (if style_verdict env opts s then 0 else 1))"
proof -
  note ev = exit_with_verdict [OF raises_indent_files]
  consider (git) "opt_git opts" | (none) "\<not> opt_git opts" and "opt_file opts = []"
    | (missing) "\<not> opt_git opts" and "opt_file opts \<noteq> []" and "\<not> has_key (disk_files s) (opt_file opts)"
    | (present) "\<not> opt_git opts" and "opt_file opts \<noteq> []" and "has_key (disk_files s) (opt_file opts)" by blast
  then show ?thesis
  proof cases
    case git
    then show ?thesis using ev by (simp add: style_main_def run_as_main_def indent_with_def style_verdict_def)
  next
    case none
    then show ?thesis
      by (simp add: style_main_def run_as_main_def style_verdict_def try_except_def is_exit_def)
  next
    case missing
    then show ?thesis
      by (simp add: style_main_def run_as_main_def style_verdict_def try_except_def is_exit_def sbind_def oprint_def)
  next
    case present
    then have "run_as_main env opts s =
        sbind (indent_with env opts [opt_file opts]) (\<lambda>ok. if \<not> ok then fail (SystemExit 1) else fail (SystemExit 0)) s"
      by (auto simp: run_as_main_def sbind_def)
    then have "style_main str_of env opts s =
        try_except plain (sbind (indent_with env opts [opt_file opts]) (\<lambda>ok. if \<not> ok then fail (SystemExit 1) else fail (SystemExit 0)))
          (\<lambda>e. seq (eprint (str_of e @ [NL])) (fail (SystemExit 1))) s"
      by (simp add: style_main_def try_except_def)
    then show ?thesis using ev present by (simp add: indent_with_def style_verdict_def)
  qed
qed

section \<open>Debug runs\<close>

lemma write_final_empty:
  assumes "map_of (disk_files s) final = Some []" "write_final_diff level final [] s = (Inr u, t)"
  shows "map_of (disk_files t) = map_of (disk_files s)"
proof (cases "level < 3")
  case True
  then show ?thesis using assms(2)
    by (simp add: write_final_diff_def remove_trailing_whitespace_changes_def parse_patchset_def parse_start_def)
next
  case False
  then show ?thesis using assms by (auto simp: write_final_diff_def write_file_def fun_upd_idem)
qed

lemma run_patch_empty:
  assumes "empty_diff_changes_nothing env" "map_of (disk_files s) diff = Some []"
    and "run_program (run_patch env diff out) s = (Inr r, t)"
  shows "map_of (disk_files t) p = map_of (disk_files s) p"
  using assms unfolding run_program_def empty_diff_changes_nothing_def
  by (auto split: option.splits)

lemma apply_final_empty:
  assumes fresh: "fresh_names env" and noop: "empty_diff_changes_nothing env"
    and out: "has_key (disk_files s) out" and run: "apply_final_diff env f out debug level [] s = (Inr u, t)"
  shows "map_of (disk_files t) out = map_of (disk_files t) f"
proof -
  let ?n = "mkstemp_name env (disk_files s)"
  let ?s1 = "s\<lparr>disk_files := AList.update ?n [] (disk_files s)\<rparr>"
  have n: "?n \<noteq> out" using fresh out unfolding fresh_names_def by metis
  from run obtain s2 s3 s4 s5 r where
    w: "write_final_diff level ?n [] ?s1 = (Inr (), s2)"
    and d: "do_if debug (eprint (''final diff file='' @ ?n @ [NL])) s2 = (Inr (), s3)"
    and c: "copyfile f out s3 = (Inr (), s4)"
    and p: "run_program (run_patch env ?n out) s4 = (Inr r, s5)"
    and e: "do_if debug (seq (eprint (fst r)) (eprint (snd r))) s5 = (Inr u, t)"
    by (auto simp: apply_final_diff_def mkstemp_def write_file_def sbind_Inr case_prod_unfold)
  have s2: "map_of (disk_files s2) ?n = Some []" using write_final_empty [OF _ w] by simp
  have "disk_files s3 = disk_files s2" using d by (cases debug) (auto simp: eprint_def)
  with s2 have s3: "map_of (disk_files s3) ?n = Some []" by simp
  obtain x where x: "map_of (disk_files s3) f = Some x" "disk_files s4 = AList.update out x (disk_files s3)"
    using c by (auto simp: copyfile_def write_file_def split: option.splits if_splits)
  have "map_of (disk_files s4) ?n = Some []" using x n s3 by simp
  note same = run_patch_empty [OF noop this p]
  have "disk_files t = disk_files s5" using e by (cases debug) (auto simp: eprint_def)
  with same x show ?thesis by simp
qed

lemma keeps_out [keeps_intros]:
  "keeps (\<lambda>s. has_key (disk_files s) p) (read_text f)" "keeps (\<lambda>s. has_key (disk_files s) p) (eprint t)"
  "keeps (\<lambda>s. has_key (disk_files s) p) (write_file f t)" "keeps (\<lambda>s. has_key (disk_files s) p) (mkstemp env)"
  by (auto simp: keeps_def read_text_def eprint_def write_file_def mkstemp_def split: option.splits)

lemma diff_source_debug:
  "diff_source env True source out s = (Inr d, t) \<Longrightarrow>
     d = [] \<and> (has_key (disk_files s) out \<longrightarrow> has_key (disk_files t) out)"
proof -
  assume r: "diff_source env True source out s = (Inr d, t)"
  have "keeps (\<lambda>s. has_key (disk_files s) out) (diff_source env True source out)"
    unfolding diff_source_def Let_def by (intro keeps_intros)
  from keepsD [OF this _ r] r show ?thesis
    by (auto simp: diff_source_def Let_def sbind_Inr ret_def)
qed

lemma apply_uncrustify_out:
  assumes "writes_output_only env" "apply_uncrustify env debug cfg source out s = (Inr u, t)"
  shows "has_key (disk_files t) out"
proof -
  from assms(2) obtain o1 o2 fs where "run_uncrustify env cfg source out (disk_files s) = Some (o1, o2, fs)"
    and t: "disk_files t = fs"
    by (cases debug)
      (auto simp: apply_uncrustify_def try_except_def run_program_def sbind_def eprint_def split: option.splits)
  then show ?thesis using assms(1) unfolding writes_output_only_def by blast
qed

lemma indent_debug_copies:
  assumes "fresh_names env" "writes_output_only env" "empty_diff_changes_nothing env"
    and run: "indent env f True level s = (Inr out, t)"
  shows "map_of (disk_files t) out = map_of (disk_files t) f"
proof -
  from run obtain cfg d s1 s2 s3 where
    u: "apply_uncrustify env True cfg f out s1 = (Inr (), s2)"
    and d: "diff_source env True f out s2 = (Inr d, s3)"
    and a: "apply_final_diff env f out True level d s3 = (Inr (), t)"
    by (auto simp: indent_def sbind_Inr ret_def)
  have "d = []" "has_key (disk_files s3) out"
    using diff_source_debug [OF d] apply_uncrustify_out [OF assms(2) u] by auto
  with a apply_final_empty [OF assms(1,3)] show ?thesis by blast
qed

text \<open>
  A debug run finds nothing: writing the diff to the debug file uses up the generator,
  what is patched into the copy is an empty diff, and the copy compares equal to the file. With
  \<^verbatim>\<open>--debug\<close> the check of one file answers True at every level, badly indented or not, given that
  \<^verbatim>\<open>mkstemp\<close> names are new and that patch changes nothing when the diff is empty.
\<close>

theorem debug_run_finds_nothing:
  assumes "fresh_names env" "writes_output_only env" "empty_diff_changes_nothing env"
    and "indent_files env [f] diff True level False s = (Inr verdict, t)"
  shows "verdict"
proof -
  from indent_files_run [OF assms(4)] obtain outs u
    where o: "indent_all env [f] True level s = (Inr outs, u)" "verdict \<longleftrightarrow> all_unchanged outs u" by metis
  from o(1) obtain out where "indent env f True level s = (Inr out, u)" "outs = [(f, out)]"
    by (auto simp: indent_all_def sbind_Inr ret_def)
  with indent_debug_copies [OF assms(1-3)] o(2) show ?thesis by (simp add: all_unchanged_def badly_indented_def)
qed

text \<open>The same file is found without \<^verbatim>\<open>--debug\<close> and passes with it.\<close>

theorem debug_run_finds_nothing_witness:
  "fst (indent_files sample_env [''a.cc''] False True 0 False bad_file) = Inr True \<and>
   fst (indent_files sample_env [''a.cc''] False False 0 False bad_file) = Inr False"
proof
  let ?r = "indent_files sample_env [''a.cc''] False True 0 False bad_file"
  have "\<not> (case fst ?r of Inl _ \<Rightarrow> True | Inr _ \<Rightarrow> False)" by code_simp
  then obtain v where v: "fst ?r = Inr v" by (cases "fst ?r") auto
  then have "?r = (Inr v, snd ?r)" by (simp add: prod_eq_iff)
  from debug_run_finds_nothing [OF sample_fresh sample_tools(1,3) this] v show "fst ?r = Inr True" by simp
  show "fst (indent_files sample_env [''a.cc''] False False 0 False bad_file) = Inr False" by code_simp
qed

end
