(* ===== verification/Module_Text.thy ===== *)
theory Module_Text
  imports Os_Path
begin

text \<open>
  The texts of \<^verbatim>\<open>utils/create-module.py\<close>: the templates of the files of a module, the
  replacement fields of \<open>str.format\<close>, and the names that are put into them. The lemmas give
  for each template the fields it has, so that it can be formatted with the keywords the code
  passes, and what formatting does with a text whose braces match.
\<close>

section \<open>The templates\<close>

definition CMAKELISTS_TEMPLATE :: string where
  "CMAKELISTS_TEMPLATE = unlines_py
    [''check_include_file_cxx(stdint.h HAVE_STDINT_H)'',
     ''if(HAVE_STDINT_H)'',
     ''    add_definitions(-DHAVE_STDINT_H)'',
     ''endif()'',
     '''',
     ''set(examples_as_tests_sources)'',
     ''if(${{ENABLE_EXAMPLES}})'',
     ''    set(examples_as_tests_sources    '',
     ''        #test/{MODULE}-examples-test-suite.cc'',
     ''        )'',
     ''endif()    '',
     '''',
     ''build_lib('',
     ''    LIBNAME {MODULE}'',
     ''    SOURCE_FILES model/{MODULE}.cc'',
     ''                 helper/{MODULE}-helper.cc '',
     ''    HEADER_FILES model/{MODULE}.h'',
     ''                 helper/{MODULE}-helper.h'',
     ''    LIBRARIES_TO_LINK ${{libcore}}'',
     ''    TEST_SOURCES test/{MODULE}-test-suite.cc'',
     ''                 ${{examples_as_tests_sources}}'',
     '')'',
     ''    '']"

definition MODEL_CC_TEMPLATE :: string where
  "MODEL_CC_TEMPLATE = unlines_py
    [''/* -*- Mode:C++; c-file-style:\"gnu\"; indent-tabs-mode:nil; -*- */'',
     '''',
     ''#include \"{MODULE}.h\"'',
     '''',
     ''namespace ns3 {{'',
     '''',
     ''/* ... */'',
     '''',
     '''',
     ''}}'',
     '''']"

definition MODEL_H_TEMPLATE :: string where
  "MODEL_H_TEMPLATE = unlines_py
    [''/* -*- Mode:C++; c-file-style:\"gnu\"; indent-tabs-mode:nil; -*- */'',
     ''#ifndef {INCLUDE_GUARD}'',
     ''#define {INCLUDE_GUARD}'',
     '''',
     ''namespace ns3 {{'',
     '''',
     ''/* ... */'',
     '''',
     ''}}'',
     '''',
     ''#endif /* {INCLUDE_GUARD} */'',
     '''']"

definition HELPER_CC_TEMPLATE :: string where
  "HELPER_CC_TEMPLATE = unlines_py
    [''/* -*- Mode:C++; c-file-style:\"gnu\"; indent-tabs-mode:nil; -*- */'',
     '''',
     ''#include \"{MODULE}-helper.h\"'',
     '''',
     ''namespace ns3 {{'',
     '''',
     ''/* ... */'',
     '''',
     '''',
     ''}}'',
     '''']"

definition HELPER_H_TEMPLATE :: string where
  "HELPER_H_TEMPLATE = unlines_py
    [''/* -*- Mode:C++; c-file-style:\"gnu\"; indent-tabs-mode:nil; -*- */'',
     ''#ifndef {INCLUDE_GUARD}'',
     ''#define {INCLUDE_GUARD}'',
     '''',
     ''#include \"ns3/{MODULE}.h\"'',
     '''',
     ''namespace ns3 {{'',
     '''',
     ''/* ... */'',
     '''',
     ''}}'',
     '''',
     ''#endif /* {INCLUDE_GUARD} */'',
     '''']"

definition EXAMPLES_CMAKELISTS_TEMPLATE :: string where
  "EXAMPLES_CMAKELISTS_TEMPLATE = unlines_py
    [''build_lib_example('',
     ''    NAME {MODULE}-example'',
     ''    SOURCE_FILES {MODULE}-example.cc'',
     ''    LIBRARIES_TO_LINK ${{lib{MODULE}}}'',
     '')'',
     '''']"

definition EXAMPLE_CC_TEMPLATE :: string where
  "EXAMPLE_CC_TEMPLATE = unlines_py
    [''/* -*- Mode:C++; c-file-style:\"gnu\"; indent-tabs-mode:nil; -*- */'',
     '''',
     ''#include \"ns3/core-module.h\"'',
     ''#include \"ns3/{MODULE}-helper.h\"'',
     '''',
     ''using namespace ns3;'',
     '''',
     '''',
     ''int '',
     ''main (int argc, char *argv[])'',
     ''{{'',
     ''  bool verbose = true;'',
     '''',
     ''  CommandLine cmd (__FILE__);'',
     ''  cmd.AddValue (\"verbose\", \"Tell application to log if true\", verbose);'',
     '''',
     ''  cmd.Parse (argc,argv);'',
     '''',
     ''  /* ... */'',
     '''',
     ''  Simulator::Run ();'',
     ''  Simulator::Destroy ();'',
     ''  return 0;'',
     ''}}'',
     '''',
     '''']"

definition TEST_CC_TEMPLATE :: string where
  "TEST_CC_TEMPLATE = unlines_py
    [''/* -*- Mode:C++; c-file-style:\"gnu\"; indent-tabs-mode:nil; -*- */'',
     '''',
     ''// Include a header file from your module to test.'',
     ''#include \"ns3/{MODULE}.h\"'',
     '''',
     ''// An essential include is test.h'',
     ''#include \"ns3/test.h\"'',
     '''',
     ''// Do not put your test classes in namespace ns3.  You may find it useful'',
     ''// to use the using directive to access the ns3 namespace directly'',
     ''using namespace ns3;'',
     '''',
     ''// This is an example TestCase.'',
     ''class {CAPITALIZED}TestCase1 : public TestCase'',
     ''{{'',
     ''public:'',
     ''  {CAPITALIZED}TestCase1 ();'',
     ''  virtual ~{CAPITALIZED}TestCase1 ();'',
     '''',
     ''private:'',
     ''  virtual void DoRun (void);'',
     ''}};'',
     '''',
     ''// Add some help text to this case to describe what it is intended to test'',
     ''{CAPITALIZED}TestCase1::{CAPITALIZED}TestCase1 ()'',
     ''  : TestCase (\"{CAPITALIZED} test case (does nothing)\")'',
     ''{{'',
     ''}}'',
     '''',
     ''// This destructor does nothing but we include it as a reminder that'',
     ''// the test case should clean up after itself'',
     ''{CAPITALIZED}TestCase1::~{CAPITALIZED}TestCase1 ()'',
     ''{{'',
     ''}}'',
     '''',
     ''//'',
     ''// This method is the pure virtual method from class TestCase that every'',
     ''// TestCase must implement'',
     ''//'',
     ''void'',
     ''{CAPITALIZED}TestCase1::DoRun (void)'',
     ''{{'',
     ''  // A wide variety of test macros are available in src/core/test.h'',
     ''  NS_TEST_ASSERT_MSG_EQ (true, true, \"true doesn't equal true for some reason\");'',
     ''  // Use this one for floating point comparisons'',
     ''  NS_TEST_ASSERT_MSG_EQ_TOL (0.01, 0.01, 0.001, \"Numbers are not equal within tolerance\");'',
     ''}}'',
     '''',
     ''// The TestSuite class names the TestSuite, identifies what type of TestSuite,'',
     ''// and enables the TestCases to be run.  Typically, only the constructor for'',
     ''// this class must be defined'',
     ''//'',
     ''class {CAPITALIZED}TestSuite : public TestSuite'',
     ''{{'',
     ''public:'',
     ''  {CAPITALIZED}TestSuite ();'',
     ''}};'',
     '''',
     ''{CAPITALIZED}TestSuite::{CAPITALIZED}TestSuite ()'',
     ''  : TestSuite (\"{MODULE}\", UNIT)'',
     ''{{'',
     ''  // TestDuration for TestCase can be QUICK, EXTENSIVE or TAKES_FOREVER'',
     ''  AddTestCase (new {CAPITALIZED}TestCase1, TestCase::QUICK);'',
     ''}}'',
     '''',
     ''// Do not forget to allocate an instance of this TestSuite'',
     ''static {CAPITALIZED}TestSuite s{COMPOUND}TestSuite;'',
     '''']"

definition DOC_RST_TEMPLATE :: string where
  "DOC_RST_TEMPLATE = unlines_py
    [''Example Module Documentation'',
     ''----------------------------'',
     '''',
     ''.. include:: replace.txt'',
     ''.. highlight:: cpp'',
     '''',
     ''.. heading hierarchy:'',
     ''   ------------- Chapter'',
     ''   ************* Section (#.#)'',
     ''   ============= Subsection (#.#.#)'',
     ''   ############# Paragraph (no number)'',
     '''',
     ''This is a suggested outline for adding new module documentation to |ns3|.'',
     ''See ``src/click/doc/click.rst`` for an example.'',
     '''',
     ''The introductory paragraph is for describing what this code is trying to'',
     ''model.'',
     '''',
     ''For consistency (italicized formatting), please use |ns3| to refer to'',
     ''ns-3 in the documentation (and likewise, |ns2| for ns-2).  These macros'',
     ''are defined in the file ``replace.txt``.'',
     '''',
     ''Model Description'',
     ''*****************'',
     '''',
     ''The source code for the new module lives in the directory ``{MODULE_DIR}``.'',
     '''',
     ''Add here a basic description of what is being modeled.'',
     '''',
     ''Design'',
     ''======'',
     '''',
     ''Briefly describe the software design of the model and how it fits into '',
     ''the existing ns-3 architecture. '',
     '''',
     ''Scope and Limitations'',
     ''====================='',
     '''',
     ''What can the model do?  What can it not do?  Please use this section to'',
     ''describe the scope and limitations of the model.'',
     '''',
     ''References'',
     ''=========='',
     '''',
     ''Add academic citations here, such as if you published a paper on this'',
     ''model, or if readers should read a particular specification or other work.'',
     '''',
     ''Usage'',
     ''*****'',
     '''',
     ''This section is principally concerned with the usage of your model, using'',
     ''the public API.  Focus first on most common usage patterns, then go'',
     ''into more advanced topics.'',
     '''',
     ''Building New Module'',
     ''==================='',
     '''',
     ''Include this subsection only if there are special build instructions or'',
     ''platform limitations.'',
     '''',
     ''Helpers'',
     ''======='',
     '''',
     ''What helper API will users typically use?  Describe it here.'',
     '''',
     ''Attributes'',
     ''=========='',
     '''',
     ''What classes hold attributes, and what are the key ones worth mentioning?'',
     '''',
     ''Output'',
     ''======'',
     '''',
     ''What kind of data does the model generate?  What are the key trace'',
     ''sources?   What kind of logging output can be enabled?'',
     '''',
     ''Advanced Usage'',
     ''=============='',
     '''',
     ''Go into further details (such as using the API outside of the helpers)'',
     ''in additional sections, as needed.'',
     '''',
     ''Examples'',
     ''========'',
     '''',
     ''What examples using this new code are available?  Describe them here.'',
     '''',
     ''Troubleshooting'',
     ''==============='',
     '''',
     ''Add any tips for avoiding pitfalls, etc.'',
     '''',
     ''Validation'',
     ''**********'',
     '''',
     ''Describe how the model has been tested/validated.  What tests run in the'',
     ''test suite?  How much API and code is covered by the tests?  Again, '',
     ''references to outside published work may help here.'']"

section \<open>str.format\<close>

text \<open>
  \<open>template.format(**kwargs)\<close> with plain fields: two braces stand for one, \<open>{NAME}\<close> for the
  keyword's value, a missing keyword is a \<open>KeyError\<close> and a single brace a \<open>ValueError\<close>. (The
  templates have no conversions, attributes or format specifications.)
\<close>

abbreviation LB :: char where "LB \<equiv> CHR ''{''"
abbreviation RB :: char where "RB \<equiv> CHR ''}''"

function py_format :: "(string, string) dict \<Rightarrow> string \<Rightarrow> py_error + string" where
  "py_format kw [] = Inr []"
| "py_format kw (c # s) =
     (if c = LB then
        (if s \<noteq> [] \<and> hd s = LB then rbind (py_format kw (tl s)) (\<lambda>r. Inr (LB # r))
         else if RB \<notin> set s then Inl ValueError
         else (case map_of kw (takeWhile (\<lambda>x. x \<noteq> RB) s) of
             None \<Rightarrow> Inl KeyError
           | Some v \<Rightarrow> rbind (py_format kw (tl (dropWhile (\<lambda>x. x \<noteq> RB) s))) (\<lambda>r. Inr (v @ r))))
      else if c = RB then
        (if s \<noteq> [] \<and> hd s = RB then rbind (py_format kw (tl s)) (\<lambda>r. Inr (RB # r)) else Inl ValueError)
      else rbind (py_format kw s) (\<lambda>r. Inr (c # r)))"
  by pat_completeness auto
termination
proof (relation "measure (\<lambda>(kw, s). length s)", goal_cases)
  case (3 kw c s x)
  have "length (tl (dropWhile (\<lambda>x. x \<noteq> RB) s)) \<le> length s"
    using length_dropWhile_le [of "\<lambda>x. x \<noteq> RB" s] by simp
  then show ?case by simp
qed auto

text \<open>The pieces of a text whose braces match, and what formatting makes of them.\<close>

datatype piece = Lit char | Field string

function pieces :: "string \<Rightarrow> piece list option" where
  "pieces [] = Some []"
| "pieces (c # s) =
     (if c = LB then
        (if s \<noteq> [] \<and> hd s = LB then map_option ((#) (Lit LB)) (pieces (tl s))
         else if RB \<notin> set s then None
         else map_option ((#) (Field (takeWhile (\<lambda>x. x \<noteq> RB) s))) (pieces (tl (dropWhile (\<lambda>x. x \<noteq> RB) s))))
      else if c = RB then
        (if s \<noteq> [] \<and> hd s = RB then map_option ((#) (Lit RB)) (pieces (tl s)) else None)
      else map_option ((#) (Lit c)) (pieces s))"
  by pat_completeness auto
termination
proof (relation "measure length", goal_cases)
  case (3 c s)
  have "length (tl (dropWhile (\<lambda>x. x \<noteq> RB) s)) \<le> length s"
    using length_dropWhile_le [of "\<lambda>x. x \<noteq> RB" s] by simp
  then show ?case by simp
qed auto

fun fields :: "piece list \<Rightarrow> string list" where
  "fields [] = []"
| "fields (Lit c # ps) = fields ps"
| "fields (Field n # ps) = n # fields ps"

definition fill :: "(string \<Rightarrow> string) \<Rightarrow> piece list \<Rightarrow> string" where
  "fill f ps = concat (map (\<lambda>p. case p of Lit c \<Rightarrow> [c] | Field n \<Rightarrow> f n) ps)"

lemma fill_simps [simp]:
  "fill f [] = []" "fill f (Lit c # ps) = c # fill f ps" "fill f (Field n # ps) = f n @ fill f ps"
  by (simp_all add: fill_def)

definition value_of :: "(string, string) dict \<Rightarrow> string \<Rightarrow> string" where
  "value_of kw n = dget_or [] n kw"

lemma py_format_pieces:
  "pieces s = Some ps \<Longrightarrow> py_format kw s =
     (if set (fields ps) \<subseteq> set (dkeys kw) then Inr (fill (value_of kw) ps) else Inl KeyError)"
proof (induction kw s arbitrary: ps rule: py_format.induct)
  case (2 kw c s)
  have key: "map_of kw n = None \<longleftrightarrow> n \<notin> set (dkeys kw)" for n using has_key_iff [of kw n] by auto
  consider (open2) "c = LB" "s \<noteq> []" "hd s = LB" | (field) "c = LB" "\<not> (s \<noteq> [] \<and> hd s = LB)" "RB \<in> set s"
    | (close2) "c = RB" "s \<noteq> []" "hd s = RB" | (plain) "c \<noteq> LB" "c \<noteq> RB"
    using 2(5) by (cases "c = LB"; cases "c = RB"; cases "s \<noteq> [] \<and> hd s = c") (auto split: if_splits)
  then show ?case
  proof cases
    case open2
    with 2(5) obtain qs where q: "pieces (tl s) = Some qs" "ps = Lit LB # qs" by auto
    with 2(1) [OF open2(1) _ q(1)] open2 show ?thesis by simp
  next
    case field
    let ?n = "takeWhile (\<lambda>x. x \<noteq> RB) s"
    from field 2(5) obtain qs where q: "pieces (tl (dropWhile (\<lambda>x. x \<noteq> RB) s)) = Some qs" "ps = Field ?n # qs"
      by auto
    show ?thesis
    proof (cases "map_of kw ?n")
      case None
      moreover from this have "?n \<notin> set (dkeys kw)" using key [of ?n] by simp
      ultimately show ?thesis using field q by auto
    next
      case (Some v)
      then have "?n \<in> set (dkeys kw)" using key [of ?n] by simp
      moreover have "value_of kw ?n = v" using Some by (simp add: value_of_def dget_or_def)
      moreover note 2(2) [OF field(1,2) _ Some q(1)]
      moreover have "s \<noteq> []" "hd s \<noteq> LB" using field by auto
      ultimately show ?thesis using field(1,3) q Some by simp
    qed
  next
    case close2
    with 2(5) obtain qs where q: "pieces (tl s) = Some qs" "ps = Lit RB # qs" by auto
    with 2(3) [OF _ close2(1) _ q(1)] close2 show ?thesis by simp
  next
    case plain
    with 2(5) obtain qs where q: "pieces s = Some qs" "ps = Lit c # qs" by auto
    with 2(4) [OF plain q(1)] plain show ?thesis by simp
  qed
qed simp

text \<open>Each template has matching braces and these fields.\<close>

definition has_fields :: "string \<Rightarrow> string list \<Rightarrow> bool" where
  "has_fields t ns \<longleftrightarrow> (case pieces t of None \<Rightarrow> False | Some ps \<Rightarrow> set (fields ps) = set ns)"

lemma pieces_append: "pieces u = Some ps \<Longrightarrow> pieces (u @ v) = map_option ((@) ps) (pieces v)"
proof (induction u arbitrary: ps rule: pieces.induct)
  case 1
  then show ?case by (cases "pieces v") simp_all
next
  case (2 c s)
  have d: "tl (dropWhile (\<lambda>x. x \<noteq> RB) (s @ v)) = tl (dropWhile (\<lambda>x. x \<noteq> RB) s) @ v \<and>
      takeWhile (\<lambda>x. x \<noteq> RB) (s @ v) = takeWhile (\<lambda>x. x \<noteq> RB) s" if "RB \<in> set s"
    using that by (induction s) auto
  consider (open2) "c = LB" "s \<noteq> []" "hd s = LB" | (field) "c = LB" "\<not> (s \<noteq> [] \<and> hd s = LB)" "RB \<in> set s"
    | (close2) "c = RB" "s \<noteq> []" "hd s = RB" | (plain) "c \<noteq> LB" "c \<noteq> RB"
    using 2(5) by (cases "c = LB"; cases "c = RB"; cases "s \<noteq> [] \<and> hd s = c") (auto split: if_splits)
  then show ?case
  proof cases
    case open2
    with 2(5) obtain qs where "pieces (tl s) = Some qs" "ps = Lit LB # qs" by auto
    with 2(1) open2 show ?thesis by (simp add: option.map_comp comp_def)
  next
    case field
    then have s: "s \<noteq> []" "hd s \<noteq> LB" by auto
    from field 2(5) obtain qs where "pieces (tl (dropWhile (\<lambda>x. x \<noteq> RB) s)) = Some qs"
      "ps = Field (takeWhile (\<lambda>x. x \<noteq> RB) s) # qs" by auto
    with 2(2) [OF field(1,2)] field d s show ?thesis by (simp add: option.map_comp comp_def)
  next
    case close2
    with 2(5) obtain qs where "pieces (tl s) = Some qs" "ps = Lit RB # qs" by auto
    with 2(3) close2 show ?thesis by (simp add: option.map_comp comp_def)
  next
    case plain
    with 2(5) obtain qs where "pieces s = Some qs" "ps = Lit c # qs" by auto
    with 2(4) plain show ?thesis by (simp add: option.map_comp comp_def)
  qed
qed

lemma pieces_plain: "LB \<notin> set s \<Longrightarrow> RB \<notin> set s \<Longrightarrow> pieces s = Some (map Lit s)"
  by (induction s) auto

lemma fields_append [simp]: "fields (ps @ qs) = fields ps @ fields qs"
  by (induction ps rule: fields.induct) auto

lemma fields_plain [simp]: "fields (map Lit s) = []"
  by (induction s) auto

text \<open>The fields of a text of lines, line by line.\<close>

definition line_fields :: "string \<Rightarrow> string list option" where
  "line_fields l = (if LB \<in> set l \<or> RB \<in> set l then map_option fields (pieces l) else Some [])"

fun lines_fields :: "string list \<Rightarrow> string list option" where
  "lines_fields [] = Some []"
| "lines_fields (l # ls) = (case line_fields l of None \<Rightarrow> None | Some ns \<Rightarrow> map_option ((@) ns) (lines_fields ls))"

lemma line_fields_pieces: "line_fields l = map_option fields (pieces l)"
  using pieces_plain [of l] by (auto simp: line_fields_def)

lemma lines_fields_pieces: "lines_fields ls = Some ns \<Longrightarrow> map_option fields (pieces (unlines_py ls)) = Some ns"
proof (induction ls arbitrary: ns)
  case (Cons l ls)
  then obtain ps ns' where l: "pieces l = Some ps" "lines_fields ls = Some ns'" "ns = fields ps @ ns'"
    by (auto simp: line_fields_pieces split: option.splits)
  with Cons.IH obtain qs where q: "pieces (unlines_py ls) = Some qs" "fields qs = ns'" by auto
  have "pieces (NL # unlines_py ls) = Some (Lit NL # qs)" using q by (simp add: NL_def)
  with l q pieces_append [OF l(1), of "NL # unlines_py ls"] show ?case by (simp add: unlines_py_def)
qed (simp add: unlines_py_def)

lemma has_fieldsI: "map_option set (lines_fields ls) = Some (set ns) \<Longrightarrow> has_fields (unlines_py ls) ns"
  using lines_fields_pieces [of ls] by (auto simp: has_fields_def split: option.splits)

lemma template_fields:
  "has_fields CMAKELISTS_TEMPLATE [''MODULE'']"
  "has_fields MODEL_CC_TEMPLATE [''MODULE'']"
  "has_fields HELPER_CC_TEMPLATE [''MODULE'']"
  "has_fields EXAMPLES_CMAKELISTS_TEMPLATE [''MODULE'']"
  "has_fields EXAMPLE_CC_TEMPLATE [''MODULE'']"
  "has_fields MODEL_H_TEMPLATE [''INCLUDE_GUARD'']"
  "has_fields HELPER_H_TEMPLATE [''MODULE'', ''INCLUDE_GUARD'']"
  unfolding CMAKELISTS_TEMPLATE_def MODEL_CC_TEMPLATE_def HELPER_CC_TEMPLATE_def EXAMPLES_CMAKELISTS_TEMPLATE_def
    EXAMPLE_CC_TEMPLATE_def MODEL_H_TEMPLATE_def HELPER_H_TEMPLATE_def
  by (rule has_fieldsI, code_simp)+

lemma test_template_fields: "has_fields TEST_CC_TEMPLATE [''MODULE'', ''CAPITALIZED'', ''COMPOUND'']"
  unfolding TEST_CC_TEMPLATE_def by (rule has_fieldsI) code_simp

lemma doc_template_fields: "has_fields DOC_RST_TEMPLATE [''MODULE_DIR'']"
  unfolding DOC_RST_TEMPLATE_def by (rule has_fieldsI) code_simp

lemma py_format_fields:
  assumes "has_fields t ns" "set ns \<subseteq> set (dkeys kw)"
  shows "\<exists>ps. pieces t = Some ps \<and> py_format kw t = Inr (fill (value_of kw) ps)"
  using assms py_format_pieces [of t _ kw] by (auto simp: has_fields_def split: option.splits)

section \<open>The names put into the templates\<close>

text \<open>\<open>modname.replace('-', '_').upper()\<close>\<close>

definition guard_base :: "string \<Rightarrow> string" where
  "guard_base modname = map upper_char (map (\<lambda>c. if c = CHR ''-'' then CHR ''_'' else c) modname)"

definition include_guard :: "string \<Rightarrow> string" where
  "include_guard modname = guard_base modname @ ''_H''"

definition helper_guard :: "string \<Rightarrow> string" where
  "helper_guard modname = guard_base modname @ ''_HELPER_H''"

definition capitalized :: "string \<Rightarrow> string" where
  "capitalized modname = concat (map capitalize (split_on (CHR ''-'') modname))"

definition compound :: "string \<Rightarrow> string" where
  "compound modname = concat (map (\<lambda>(i, w). if 0 < i then capitalize w else w)
     (enumerate 0 (split_on (CHR ''-'') modname)))"

end
