(* ===== verification/Create_Module.thy ===== *)
theory Create_Module
  imports Module_Text Py_State "HOL-Library.Sublist"
begin

text \<open>
  \<^verbatim>\<open>utils/create-module.py\<close>: the files of a new module (\<open>make_cmakelists\<close> to \<open>make_doc\<close>), the
  creation of one module with its roll-back, and \<open>main\<close>, which chooses the modules from the
  names of the command line. A path is the list of its components; the file system maps absolute
  paths to directories and files. What the operating system refuses, how a removal fails and the
  texts of argparse and of exceptions are parameters.
\<close>

section \<open>pathlib\<close>

record pure_path =
  proot :: string
  pparts :: "string list"

text \<open>A path of exactly two leading slashes keeps both in its root.\<close>

definition to_path :: "string \<Rightarrow> pure_path" where
  "to_path s = \<lparr> proot = replicate (initial_slashes s) SLASH,
     pparts = filter (\<lambda>x. x \<noteq> [] \<and> x \<noteq> ''.'') (split_on SLASH s) \<rparr>"

definition all_parts :: "pure_path \<Rightarrow> string list" where
  \<comment> \<open>\<open>Path.parts\<close>\<close>
  "all_parts p = (if proot p = [] then [] else [proot p]) @ pparts p"

definition relative_to_sep :: "pure_path \<Rightarrow> py_error + pure_path" where
  "relative_to_sep p = (if proot p = [SLASH] then Inr (p\<lparr>proot := []\<rparr>) else Inl ValueError)"

text \<open>\<open>dir.joinpath(name)\<close> for an absolute \<open>dir\<close>.\<close>

definition sub :: "string list \<Rightarrow> string \<Rightarrow> string list" where
  "sub p name = (let q = to_path name in if proot q \<noteq> [] then pparts q else p @ pparts q)"

text \<open>\<open>path.with_suffix(s)\<close>: the suffix of a name starts at a dot that is neither first nor last.\<close>

definition name_stem :: "string \<Rightarrow> string" where
  "name_stem n =
     (let k = length (takeWhile (\<lambda>c. c \<noteq> CHR ''.'') (rev n)); i = length n - Suc k
      in if CHR ''.'' \<in> set n \<and> 0 < i \<and> i < length n - 1 then take i n else n)"

definition with_suffix :: "string \<Rightarrow> string list \<Rightarrow> py_error + string list" where
  "with_suffix s p = (if p = [] then Inl ValueError else Inr (butlast p @ [name_stem (last p) @ s]))"

section \<open>The file system\<close>

datatype node = Dir | File string

type_synonym tree = "(string list, node) dict"

record module_world =
  tree_of :: tree
  printed :: string
  err_printed :: string

type_synonym 'a maker = "(module_world, 'a) proc"

text \<open>
  \<open>refuses t p\<close> is the name of the \<open>OSError\<close> by which the system refuses to create or write \<open>p\<close>;
  \<open>rmtree_fails t p\<close> the error of a removal and the tree it leaves.
\<close>

record os_env =
  work_dir :: "string list"
  refuses :: "tree \<Rightarrow> string list \<Rightarrow> string option"
  rmtree_fails :: "tree \<Rightarrow> string list \<Rightarrow> (string \<times> tree) option"
  message :: "py_error \<Rightarrow> string"
  usage_error :: "string \<Rightarrow> string"

definition exists :: "string list \<Rightarrow> module_world \<Rightarrow> bool" where
  "exists p w = has_key (tree_of w) p"

definition is_dir :: "string list \<Rightarrow> module_world \<Rightarrow> bool" where
  "is_dir p w \<longleftrightarrow> map_of (tree_of w) p = Some Dir"

definition os_error :: "string \<Rightarrow> py_error" where "os_error n = OtherError n"

definition put_node :: "string list \<Rightarrow> node \<Rightarrow> unit maker" where
  "put_node p n = modify (\<lambda>w. w\<lparr>tree_of := AList.update p n (tree_of w)\<rparr>)"

definition out_print :: "string \<Rightarrow> unit maker" where
  "out_print t = modify (\<lambda>w. w\<lparr>printed := printed w @ t @ [NL]\<rparr>)"

definition err_print :: "string \<Rightarrow> unit maker" where
  "err_print t = modify (\<lambda>w. w\<lparr>err_printed := err_printed w @ t @ [NL]\<rparr>)"

text \<open>What the parent of \<open>p\<close> says about creating \<open>p\<close>.\<close>

definition is_file :: "node option \<Rightarrow> bool" where
  "is_file n = (case n of Some (File _) \<Rightarrow> True | _ \<Rightarrow> False)"

definition parent_error :: "tree \<Rightarrow> string list \<Rightarrow> string option" where
  "parent_error t p =
     (if map_of t (butlast p) = Some Dir then None
      else if list_ex (\<lambda>n. is_file (map_of t (take n p))) [0..<length p] then Some ''NotADirectoryError''
      else Some ''FileNotFoundError'')"

text \<open>The first of the reasons not to go on.\<close>

definition check :: "string option \<Rightarrow> unit maker" where
  "check e = (case e of None \<Rightarrow> ret () | Some n \<Rightarrow> fail (os_error n))"

definition os_mkdir :: "os_env \<Rightarrow> string list \<Rightarrow> unit maker" where
  "os_mkdir env p = sbind (gets tree_of) (\<lambda>t.
     seq (check (if has_key t p then Some ''FileExistsError'' else parent_error t p))
    (seq (check (refuses env t p)) (put_node p Dir)))"

text \<open>\<open>path.mkdir(exist_ok=ok)\<close> and \<open>path.mkdir(parents=True, exist_ok=ok)\<close>.\<close>

definition mkdir_failed :: "bool \<Rightarrow> string list \<Rightarrow> py_error \<Rightarrow> unit maker" where
  "mkdir_failed ok p e = sbind (gets (is_dir p)) (\<lambda>d. if \<not> ok \<or> \<not> d then fail e else ret ())"

definition mkdir_plain :: "os_env \<Rightarrow> bool \<Rightarrow> string list \<Rightarrow> unit maker" where
  "mkdir_plain env ok p = try_except (\<lambda>_. True) (os_mkdir env p)
     (\<lambda>e. if e = os_error ''FileNotFoundError'' then fail e else mkdir_failed ok p e)"

function mkdir_parents :: "os_env \<Rightarrow> bool \<Rightarrow> string list \<Rightarrow> unit maker" where
  "mkdir_parents env ok p = try_except (\<lambda>_. True) (os_mkdir env p)
     (\<lambda>e. if e = os_error ''FileNotFoundError'' then
            (if p = [] then fail e
             else seq (mkdir_parents env True (butlast p)) (mkdir_plain env ok p))
          else mkdir_failed ok p e)"
  by pat_completeness auto
termination by (relation "measure (\<lambda>(env, ok, p). length p)") auto

declare mkdir_parents.simps [simp del]

section \<open>The files of a module\<close>

definition create_file :: "os_env \<Rightarrow> string list \<Rightarrow> string \<Rightarrow> (string, string) dict \<Rightarrow> unit maker" where
  "create_file env path template kwargs = sbind (gets tree_of) (\<lambda>t.
     seq (check (if map_of t path = Some Dir then Some ''IsADirectoryError'' else parent_error t path))
    (seq (check (refuses env t path))
    (seq (put_node path (File []))
    (sbind (lift (py_format kwargs template)) (\<lambda>text.
     sbind (gets tree_of) (\<lambda>u.
     seq (check (refuses env u path)) (put_node path (File text))))))))"

definition make_cmakelists :: "os_env \<Rightarrow> string list \<Rightarrow> string \<Rightarrow> bool maker" where
  "make_cmakelists env moduledir modname =
     seq (create_file env (sub moduledir ''CMakeLists.txt'') CMAKELISTS_TEMPLATE [(''MODULE'', modname)])
     (ret True)"

definition make_model :: "os_env \<Rightarrow> string list \<Rightarrow> string \<Rightarrow> bool maker" where
  "make_model env moduledir modname = (let modelpath = sub moduledir ''model'' in
     seq (mkdir_parents env False modelpath)
    (sbind (lift (with_suffix ''.cc'' (sub modelpath modname))) (\<lambda>srcfile_path.
     seq (create_file env srcfile_path MODEL_CC_TEMPLATE [(''MODULE'', modname)])
    (sbind (lift (with_suffix ''.h'' (sub modelpath modname))) (\<lambda>hfile_path.
     seq (create_file env hfile_path MODEL_H_TEMPLATE
            [(''MODULE'', modname), (''INCLUDE_GUARD'', include_guard modname)])
     (ret True))))))"

definition make_test :: "os_env \<Rightarrow> string list \<Rightarrow> string \<Rightarrow> bool maker" where
  "make_test env moduledir modname = (let testpath = sub moduledir ''test'' in
     seq (mkdir_parents env False testpath)
    (sbind (lift (with_suffix ''.cc'' (sub testpath (modname @ ''-test-suite'')))) (\<lambda>file_path.
     seq (create_file env file_path TEST_CC_TEMPLATE
            [(''MODULE'', modname), (''CAPITALIZED'', capitalized modname), (''COMPOUND'', compound modname)])
     (ret True))))"

definition make_helper :: "os_env \<Rightarrow> string list \<Rightarrow> string \<Rightarrow> bool maker" where
  "make_helper env moduledir modname = (let helperpath = sub moduledir ''helper'' in
     seq (mkdir_parents env False helperpath)
    (sbind (lift (with_suffix ''.cc'' (sub helperpath (modname @ ''-helper'')))) (\<lambda>srcfile_path.
     seq (create_file env srcfile_path HELPER_CC_TEMPLATE [(''MODULE'', modname)])
    (sbind (lift (with_suffix ''.h'' (sub helperpath (modname @ ''-helper'')))) (\<lambda>h_file_path.
     seq (create_file env h_file_path HELPER_H_TEMPLATE
            [(''MODULE'', modname), (''INCLUDE_GUARD'', helper_guard modname)])
     (ret True))))))"

definition make_examples :: "os_env \<Rightarrow> string list \<Rightarrow> string \<Rightarrow> bool maker" where
  "make_examples env moduledir modname = (let examplespath = sub moduledir ''examples'' in
     seq (mkdir_parents env False examplespath)
    (seq (create_file env (sub examplespath ''CMakeLists.txt'') EXAMPLES_CMAKELISTS_TEMPLATE [(''MODULE'', modname)])
    (sbind (lift (with_suffix ''.cc'' (sub examplespath (modname @ ''-example'')))) (\<lambda>examplesfile_path.
     seq (create_file env examplesfile_path EXAMPLE_CC_TEMPLATE [(''MODULE'', modname)])
     (ret True)))))"

definition make_doc :: "os_env \<Rightarrow> string list \<Rightarrow> string \<Rightarrow> bool maker" where
  "make_doc env moduledir modname = (let docpath = sub moduledir ''doc'' in
     seq (mkdir_parents env False docpath)
    (sbind (lift (relpath (abs_path (work_dir env)) (abs_path moduledir) ''.'')) (\<lambda>mod_relpath.
     seq (create_file env (sub docpath (modname @ ''.rst'')) DOC_RST_TEMPLATE
            [(''MODULE'', modname), (''MODULE_DIR'', mod_relpath)])
     (ret True))))"

section \<open>make_module\<close>

text \<open>\<open>repr\<close> of an ASCII text.\<close>

definition hex_char :: "nat \<Rightarrow> char" where "hex_char d = ''0123456789abcdef'' ! d"

definition repr_char :: "char \<Rightarrow> char \<Rightarrow> string" where
  "repr_char q c =
     (if c = CHR 0x5C \<or> c = q then [CHR 0x5C, c]
      else if c = NL then [CHR 0x5C, CHR ''n'']
      else if c = TAB then [CHR 0x5C, CHR ''t'']
      else if c = CHR 0x0D then [CHR 0x5C, CHR ''r'']
      else (let n = (of_char c :: nat) in
        if n < 32 \<or> 127 \<le> n then [CHR 0x5C, CHR ''x'', hex_char (n div 16), hex_char (n mod 16)] else [c]))"

definition py_repr :: "string \<Rightarrow> string" where
  "py_repr s = (let q = (if CHR 0x27 \<in> set s \<and> CHR 0x22 \<notin> set s then CHR 0x22 else CHR 0x27)
     in q # concat (map (repr_char q) s) @ [q])"

text \<open>\<open>shutil.rmtree\<close>: the directory with all that is below it.\<close>

definition rmtree :: "os_env \<Rightarrow> string list \<Rightarrow> unit maker" where
  "rmtree env p = sbind (gets tree_of) (\<lambda>t. case rmtree_fails env t p of
       Some (n, u) \<Rightarrow> seq (modify (\<lambda>w. w\<lparr>tree_of := u\<rparr>)) (fail (os_error n))
     | None \<Rightarrow> modify (\<lambda>w. w\<lparr>tree_of := filter (\<lambda>(q, _). \<not> prefix p q) (tree_of w)\<rparr>))"

text \<open>\<open>all(m() for m in ms)\<close>\<close>

fun all_true :: "bool maker list \<Rightarrow> bool maker" where
  "all_true [] = ret True"
| "all_true (m # ms) = sbind m (\<lambda>b. if b then all_true ms else ret False)"

definition module_steps :: "os_env \<Rightarrow> string list \<Rightarrow> string \<Rightarrow> bool maker list" where
  "module_steps env modulepath modname =
     map (\<lambda>func. func env modulepath modname)
       [make_cmakelists, make_model, make_test, make_helper, make_examples, make_doc]"

definition is_system_exit :: "py_error \<Rightarrow> bool" where
  "is_system_exit e = (case e of SystemExit _ \<Rightarrow> True | _ \<Rightarrow> False)"

text \<open>The body and the handler of the \<open>try\<close> statement.\<close>

definition module_body :: "os_env \<Rightarrow> string list \<Rightarrow> string \<Rightarrow> bool maker" where
  "module_body env mp m = seq (mkdir_parents env False mp)
     (sbind (all_true (module_steps env mp m)) (\<lambda>success. if \<not> success then fail ValueError else ret True))"

definition module_failed :: "os_env \<Rightarrow> string list \<Rightarrow> string \<Rightarrow> py_error \<Rightarrow> bool maker" where
  "module_failed env mp m e = sbind (gets (exists mp)) (\<lambda>made.
     seq (do_if made (rmtree env mp))
    (seq (err_print (''Creating module '' @ py_repr m @ '' failed: '' @ message env e)) (ret False)))"

definition make_module :: "os_env \<Rightarrow> string list \<Rightarrow> string \<Rightarrow> bool maker" where
  "make_module env modpath modname =
     (let modulepath = sub modpath modname in
      sbind (gets (exists modulepath)) (\<lambda>there.
      if there then seq (err_print (''Module '' @ py_repr modname @ '' already exists'')) (ret False)
      else
        seq (out_print (''Creating module '' @ abs_path modulepath))
       (try_except (\<lambda>e. \<not> is_system_exit e) (module_body env modulepath modname)
         (module_failed env modulepath modname))))"

section \<open>main\<close>

record module_args =
  project :: string
  modnames :: "string list"

definition parser_error :: "os_env \<Rightarrow> string \<Rightarrow> 'a maker" where
  "parser_error env msg = seq (modify (\<lambda>w. w\<lparr>err_printed := err_printed w @ usage_error env msg\<rparr>)) (fail (SystemExit 2))"

text \<open>Word characters and dashes up to the end, which may stand before a final newline.\<close>

definition name_char :: "char \<Rightarrow> bool" where
  "name_char c \<longleftrightarrow> (let n = (of_char c :: nat) in
     48 \<le> n \<and> n \<le> 57 \<or> 65 \<le> n \<and> n \<le> 90 \<or> 97 \<le> n \<and> n \<le> 122 \<or> c = CHR ''_'' \<or> c = CHR ''-'')"

definition allowedRE :: "string \<Rightarrow> bool" where
  "allowedRE s \<longleftrightarrow> (let t = (if s \<noteq> [] \<and> last s = NL then butlast s else s) in t \<noteq> [] \<and> list_all name_char t)"

text \<open>\<open>name.strip(os.sep)\<close>\<close>

definition strip_sep :: "string \<Rightarrow> string" where
  "strip_sep s = rev (dropWhile (\<lambda>c. c = SLASH) (rev (dropWhile (\<lambda>c. c = SLASH) s)))"

definition no_tree_msg :: "string list \<Rightarrow> string" where
  "no_tree_msg p = ''Cannot find the directory '' @ [CHR 0x27] @ abs_path p @ [CHR 0x27] @ ''.'' @ [NL] @
     ''Please run this script from the top level of the ns3 directory''"

definition project_parts :: "os_env \<Rightarrow> string \<Rightarrow> string list option maker" where
  "project_parts env proj =
     (if proj \<noteq> [] then
        sbind (let p = to_path proj in if proot p \<noteq> [] then lift (relative_to_sep p) else ret p) (\<lambda>project_path.
        if \<not> list_all allowedRE (all_parts project_path) then
          parser_error env ''Project path may only contain the characters [a-zA-Z0-9_-].''
        else ret (Some (pparts project_path)))
      else ret None)"

text \<open>
  The target directory and what is left of the name: \<open>src/\<close> and \<open>contrib/\<close> in front choose it.
\<close>

definition place_module :: "os_env \<Rightarrow> string \<Rightarrow> string \<Rightarrow> string list \<Rightarrow> (string list \<times> string list) maker" where
  "place_module env proj name parts = (case parts of [] \<Rightarrow> fail IndexError | first # rest \<Rightarrow>
     if first = ''src'' then
       (if proj \<noteq> [] then
          parser_error env (name @ '': Cannot specify src/ in a module name when --project option is used'')
        else ret (work_dir env @ [''src''], rest))
     else if first = ''contrib'' then ret (work_dir env @ [''contrib''], rest)
     else ret (work_dir env @ [''contrib''], parts))"

definition name_module :: "string list \<Rightarrow> string list \<Rightarrow> (string list \<times> string) option maker" where
  "name_module modpath name_parts = (case name_parts of [] \<Rightarrow> fail IndexError | modname # _ \<Rightarrow>
     if \<not> allowedRE modname then
       seq (out_print (''Skipping '' @ modname @ '': module name may only contain the characters [a-zA-Z0-9_-]''))
           (ret None)
     else ret (Some (modpath, modname)))"

text \<open>The module a name of the command line stands for; \<open>None\<close> for a skipped one.\<close>

definition choose_module ::
  "os_env \<Rightarrow> string \<Rightarrow> string list option \<Rightarrow> string \<Rightarrow> (string list \<times> string) option maker" where
  "choose_module env proj project_path name0 =
     (let name = (if name0 \<noteq> [] then strip_sep name0 else name0);
          parts = all_parts (to_path name) in
      if name = [] then ret None
      else if 2 < length parts then
        seq (out_print (''Skipping '' @ name @ '': module name can not be a path'')) (ret None)
      else sbind (place_module env proj name parts) (\<lambda>(modpath, name_parts).
        name_module
          (case project_path of None \<Rightarrow> modpath | Some pp \<Rightarrow> work_dir env @ [''contrib''] @ pp) name_parts))"

fun somes :: "'a option list \<Rightarrow> 'a list" where
  "somes [] = []"
| "somes (None # xs) = somes xs"
| "somes (Some x # xs) = x # somes xs"

definition choose_modules :: "os_env \<Rightarrow> module_args \<Rightarrow> (string list \<times> string) list maker" where
  "choose_modules env args =
     seq (sfor (\<lambda>p. sbind (gets (is_dir p)) (\<lambda>d. do_if (\<not> d) (parser_error env (no_tree_msg p))))
          [work_dir env @ [''src''], work_dir env @ [''contrib'']])
    (sbind (project_parts env (project args)) (\<lambda>project_path.
     sbind (smap (choose_module env (project args) project_path) (modnames args)) (\<lambda>ms. ret (somes ms))))"

definition module_main :: "os_env \<Rightarrow> module_args \<Rightarrow> int maker" where
  "module_main env args =
     sbind (choose_modules env args) (\<lambda>modules.
     sbind (all_true (map (\<lambda>(modpath, modname). make_module env modpath modname) modules)) (\<lambda>done_all.
     seq (do_if done_all
       (seq (out_print [])
       (seq (out_print ''Successfully created new modules'')
            (out_print (''Run '' @ [CHR 0x27] @ ''./ns3 configure'' @ [CHR 0x27] @ '' to include them in the build'')))))
     (ret 0)))"

definition module_script :: "os_env \<Rightarrow> module_args \<Rightarrow> unit maker" where
  "module_script env args =
     sbind (try_except (\<lambda>e. \<not> is_system_exit e) (module_main env args)
       (\<lambda>e. seq (err_print (''Exception: '' @ [CHR 0x27] @ message env e @ [CHR 0x27])) (ret 1)))
     (\<lambda>return_value. fail (SystemExit return_value))"

section \<open>Paths of accepted names\<close>

lemma initial_slashes_rel: "s \<noteq> [] \<Longrightarrow> hd s \<noteq> SLASH \<Longrightarrow> initial_slashes s = 0"
  by (cases s) (auto simp: initial_slashes_def startswith_def)

lemma to_path_component:
  assumes "SLASH \<notin> set s" "s \<noteq> []" "s \<noteq> ''.''"
  shows "to_path s = \<lparr> proot = [], pparts = [s] \<rparr>"
proof -
  have "hd s \<noteq> SLASH" using assms(1,2) by (metis hd_in_set)
  with assms show ?thesis by (simp add: to_path_def initial_slashes_rel split_on_nosep)
qed

lemma sub_component: "SLASH \<notin> set s \<Longrightarrow> s \<noteq> [] \<Longrightarrow> s \<noteq> ''.'' \<Longrightarrow> sub p s = p @ [s]"
  by (simp add: sub_def to_path_component)

lemma name_char_not: "\<not> name_char SLASH" "\<not> name_char (CHR ''.'')" "\<not> name_char NL"
  by (simp_all add: name_char_def NL_def)

lemma allowed_chars: "allowedRE s \<Longrightarrow> s \<noteq> [] \<and> SLASH \<notin> set s \<and> CHR ''.'' \<notin> set s"
proof -
  assume a: "allowedRE s"
  show ?thesis
  proof (cases "s \<noteq> [] \<and> last s = NL")
    case True
    then obtain t where s: "s = t @ [NL]" by (metis append_butlast_last_id)
    with a have "list_all name_char t" by (simp add: allowedRE_def Let_def)
    then have "SLASH \<notin> set t" "CHR ''.'' \<notin> set t" using name_char_not by (auto simp: list_all_iff)
    then show ?thesis using s by (simp add: NL_def)
  next
    case False
    with a show ?thesis using name_char_not by (auto simp: allowedRE_def Let_def list_all_iff)
  qed
qed

text \<open>The accepted name followed by what the scripts append to it is one component.\<close>

lemma allowed_sub:
  assumes "allowedRE m" "SLASH \<notin> set x"
  shows "sub p (m @ x) = p @ [m @ x]"
proof -
  have "m \<noteq> []" "SLASH \<notin> set m" "CHR ''.'' \<notin> set m" using allowed_chars [OF assms(1)] by simp_all
  moreover from this have "m @ x \<noteq> ''.''" by (cases m) auto
  ultimately show ?thesis using assms(2) by (intro sub_component) auto
qed

lemma allowed_sub_self: "allowedRE m \<Longrightarrow> sub p m = p @ [m]"
  using allowed_sub [of m "[]" p] by simp

lemma fixed_sub [simp]:
  "sub p ''CMakeLists.txt'' = p @ [''CMakeLists.txt'']" "sub p ''model'' = p @ [''model'']"
  "sub p ''test'' = p @ [''test'']" "sub p ''helper'' = p @ [''helper'']"
  "sub p ''examples'' = p @ [''examples'']" "sub p ''doc'' = p @ [''doc'']"
  by (simp_all add: sub_component)

lemma allowed_suffix:
  assumes "allowedRE m" "CHR ''.'' \<notin> set x"
  shows "with_suffix s (p @ [m @ x]) = Inr (p @ [m @ x @ s])"
  using allowed_chars [OF assms(1)] assms(2) by (simp add: with_suffix_def name_stem_def)

lemma allowed_suffix_self: "allowedRE m \<Longrightarrow> with_suffix s (p @ [m]) = Inr (p @ [m @ s])"
  using allowed_suffix [of m "[]" s p] by simp

section \<open>What a failed creation leaves\<close>

text \<open>Everything in the file system has a directory for a parent.\<close>

definition closed_tree :: "tree \<Rightarrow> bool" where
  "closed_tree t \<longleftrightarrow> (\<forall>q. q \<noteq> [] \<and> has_key t q \<longrightarrow> map_of t (butlast q) = Some Dir)"

text \<open>
  Outside of \<open>mp\<close> nothing has changed since \<open>t0\<close>, except that directories on the way to \<open>mp\<close>
  may have been created.
\<close>

definition same_or_ancestor :: "tree \<Rightarrow> string list \<Rightarrow> tree \<Rightarrow> string list \<Rightarrow> bool" where
  "same_or_ancestor t0 mp t q \<longleftrightarrow>
     map_of t q = map_of t0 q \<or> strict_prefix q mp \<and> map_of t0 q = None \<and> map_of t q = Some Dir"

definition outside :: "tree \<Rightarrow> string list \<Rightarrow> module_world \<Rightarrow> bool" where
  "outside t0 mp w \<longleftrightarrow> closed_tree (tree_of w) \<and> (\<forall>q. \<not> prefix mp q \<longrightarrow> same_or_ancestor t0 mp (tree_of w) q)"

lemma keeps_texts [keeps_intros]:
  "keeps (outside t0 mp) (out_print x)" "keeps (outside t0 mp) (err_print x)" "keeps (outside t0 mp) (check e)"
  by (auto simp: keeps_def out_print_def err_print_def check_def outside_def split: option.split)

lemma parent_error_None: "parent_error t p = None \<longleftrightarrow> map_of t (butlast p) = Some Dir"
  by (simp add: parent_error_def)

lemma check_cases: "check e w = (if e = None then Inr () else Inl (os_error (the e)), w)"
  by (simp add: check_def split: option.split)

lemma os_mkdir_cases:
  "os_mkdir env p w = (let t = tree_of w; e = (if has_key t p then Some ''FileExistsError'' else parent_error t p);
      e' = (if e = None then refuses env t p else e)
    in if e' = None then (Inr (), w\<lparr>tree_of := AList.update p Dir t\<rparr>) else (Inl (os_error (the e')), w))"
  by (auto simp: os_mkdir_def sbind_def check_cases put_node_def Let_def split: option.split)

lemma closed_put_dir: "closed_tree t \<Longrightarrow> map_of t (butlast p) = Some Dir \<Longrightarrow> closed_tree (AList.update p Dir t)"
  by (auto simp: closed_tree_def)

lemma closed_put_file:
  assumes "closed_tree t" "map_of t (butlast p) = Some Dir" "map_of t p \<noteq> Some Dir" "p \<noteq> []"
  shows "closed_tree (AList.update p (File x) t)"
proof -
  have "butlast p \<noteq> p" using assms(4) by (metis append_butlast_last_id not_Cons_self2 append_self_conv)
  moreover have "butlast q \<noteq> p" if "q \<noteq> []" "has_key t q" for q
    using assms(1,3) that unfolding closed_tree_def by metis
  ultimately show ?thesis using assms by (auto simp: closed_tree_def)
qed

lemma keeps_os_mkdir:
  assumes "prefix mp p \<or> prefix p mp"
  shows "keeps (outside t0 mp) (os_mkdir env p)"
proof (rule keepsI)
  fix w assume w: "outside t0 mp w"
  show "outside t0 mp (snd (os_mkdir env p w))"
  proof (cases "has_key (tree_of w) p \<or> parent_error (tree_of w) p \<noteq> None \<or> refuses env (tree_of w) p \<noteq> None")
    case True
    with w show ?thesis by (auto simp: os_mkdir_cases Let_def)
  next
    case False
    let ?t = "tree_of w"
    from False have p: "map_of ?t p = None" "map_of ?t (butlast p) = Some Dir" by (simp_all add: parent_error_None)
    have "same_or_ancestor t0 mp (AList.update p Dir ?t) q" if "\<not> prefix mp q" for q
    proof (cases "q = p")
      case True
      with that assms have "strict_prefix p mp" by (auto simp: strict_prefix_def)
      moreover have "map_of t0 p = None"
        using w that True p(1) by (auto simp: outside_def same_or_ancestor_def)
      ultimately show ?thesis using True by (simp add: same_or_ancestor_def)
    next
      case False
      then show ?thesis using w that by (auto simp: outside_def same_or_ancestor_def)
    qed
    with False w p show ?thesis by (simp add: os_mkdir_cases Let_def outside_def closed_put_dir)
  qed
qed

lemma keeps_gets_dir [keeps_intros]: "keeps P (mkdir_failed ok p e)"
  unfolding mkdir_failed_def by (intro keeps_intros)

lemma keeps_mkdir_plain: "prefix mp p \<or> prefix p mp \<Longrightarrow> keeps (outside t0 mp) (mkdir_plain env ok p)"
  unfolding mkdir_plain_def by (intro keeps_intros keeps_os_mkdir) auto

lemma prefix_butlast: "prefix mp p \<or> prefix p mp \<Longrightarrow> prefix mp (butlast p) \<or> prefix (butlast p) mp"
  by (cases p rule: rev_cases) (auto dest: append_prefixD)

lemma keeps_mkdir_parents:
  "prefix mp p \<or> prefix p mp \<Longrightarrow> keeps (outside t0 mp) (mkdir_parents env ok p)"
proof (induction env ok p rule: mkdir_parents.induct)
  case (1 env ok p)
  note ih = 1(1) [OF _ _ prefix_butlast [OF 1(2)]]
  show ?case
    unfolding mkdir_parents.simps [of env ok p]
    by (intro keeps_intros keeps_os_mkdir keeps_mkdir_plain 1(2) ih) auto
qed

lemma keeps_create_file:
  assumes "strict_prefix mp p"
  shows "keeps (outside t0 mp) (create_file env p tmpl kw)"
proof -
  let ?ok = "\<lambda>t. map_of t p \<noteq> Some Dir \<and> map_of t (butlast p) = Some Dir"
  have pm: "prefix mp p" "p \<noteq> []" using assms by (auto simp: strict_prefix_def)
  have put: "outside t0 mp (w\<lparr>tree_of := AList.update p (File x) (tree_of w)\<rparr>)" if "outside t0 mp w" "?ok (tree_of w)" for w x
  proof -
    have "same_or_ancestor t0 mp (AList.update p (File x) (tree_of w)) q" if "\<not> prefix mp q" for q
    proof -
      have "q \<noteq> p" using that pm by auto
      then show ?thesis using \<open>outside t0 mp w\<close> that by (auto simp: outside_def same_or_ancestor_def)
    qed
    with that closed_put_file pm show ?thesis by (auto simp: outside_def)
  qed
  show ?thesis
  proof (rule keepsI)
    fix w assume w: "outside t0 mp w"
    show "outside t0 mp (snd (create_file env p tmpl kw w))"
    proof (cases "?ok (tree_of w) \<and> refuses env (tree_of w) p = None")
      case False
      then show ?thesis using w
        by (auto simp: create_file_def sbind_def check_cases parent_error_None)
    next
      case True
      let ?w1 = "w\<lparr>tree_of := AList.update p (File []) (tree_of w)\<rparr>"
      have b: "butlast p \<noteq> p" using pm(2) by (metis append_butlast_last_id not_Cons_self2 append_self_conv)
      have w1: "outside t0 mp ?w1" "?ok (tree_of ?w1)" using put [OF w] True b by auto
      have "create_file env p tmpl kw w =
          (case py_format kw tmpl of Inl e \<Rightarrow> (Inl e, ?w1)
           | Inr x \<Rightarrow> (case refuses env (tree_of ?w1) p of
                 Some n \<Rightarrow> (Inl (os_error n), ?w1)
               | None \<Rightarrow> (Inr (), ?w1\<lparr>tree_of := AList.update p (File x) (tree_of ?w1)\<rparr>)))"
        using True by (auto simp: create_file_def sbind_def check_cases parent_error_None put_node_def
            split: sum.split option.split)
      with w1 put [OF w1] show ?thesis by (auto split: sum.split option.split)
    qed
  qed
qed

lemma prefix_snocs [simp]: "strict_prefix mp (mp @ [a])" "strict_prefix mp (mp @ [a, b])"
  by (auto simp: strict_prefix_def)

text \<open>What the steps are for an accepted name.\<close>

lemma lift_Inr [simp]: "sbind (lift (Inr x)) f = f x"
  by (rule ext) simp

lemma appended_chars [simp]:
  "SLASH \<notin> set ''-test-suite''" "SLASH \<notin> set ''-helper''" "SLASH \<notin> set ''-example''" "SLASH \<notin> set ''.rst''"
  "CHR ''.'' \<notin> set ''-test-suite''" "CHR ''.'' \<notin> set ''-helper''" "CHR ''.'' \<notin> set ''-example''"
  by simp_all

definition relative_dir :: "os_env \<Rightarrow> string list \<Rightarrow> string" where
  "relative_dir env mp = (case relpath (abs_path (work_dir env)) (abs_path mp) ''.'' of Inl _ \<Rightarrow> [] | Inr r \<Rightarrow> r)"

lemma relpath_relative_dir: "relpath (abs_path (work_dir env)) (abs_path mp) ''.'' = Inr (relative_dir env mp)"
  by (simp add: relative_dir_def relpath_def Let_def abs_path_def)

lemma make_steps:
  assumes "allowedRE m"
  shows
  "make_cmakelists env mp m = seq (create_file env (mp @ [''CMakeLists.txt'']) CMAKELISTS_TEMPLATE [(''MODULE'', m)]) (ret True)"
  "make_model env mp m = seq (mkdir_parents env False (mp @ [''model'']))
     (seq (create_file env (mp @ [''model'', m @ ''.cc'']) MODEL_CC_TEMPLATE [(''MODULE'', m)])
     (seq (create_file env (mp @ [''model'', m @ ''.h'']) MODEL_H_TEMPLATE [(''MODULE'', m), (''INCLUDE_GUARD'', include_guard m)])
     (ret True)))"
  "make_test env mp m = seq (mkdir_parents env False (mp @ [''test'']))
     (seq (create_file env (mp @ [''test'', m @ ''-test-suite.cc'']) TEST_CC_TEMPLATE
        [(''MODULE'', m), (''CAPITALIZED'', capitalized m), (''COMPOUND'', compound m)]) (ret True))"
  "make_helper env mp m = seq (mkdir_parents env False (mp @ [''helper'']))
     (seq (create_file env (mp @ [''helper'', m @ ''-helper.cc'']) HELPER_CC_TEMPLATE [(''MODULE'', m)])
     (seq (create_file env (mp @ [''helper'', m @ ''-helper.h'']) HELPER_H_TEMPLATE
        [(''MODULE'', m), (''INCLUDE_GUARD'', helper_guard m)]) (ret True)))"
  "make_examples env mp m = seq (mkdir_parents env False (mp @ [''examples'']))
     (seq (create_file env (mp @ [''examples'', ''CMakeLists.txt'']) EXAMPLES_CMAKELISTS_TEMPLATE [(''MODULE'', m)])
     (seq (create_file env (mp @ [''examples'', m @ ''-example.cc'']) EXAMPLE_CC_TEMPLATE [(''MODULE'', m)]) (ret True)))"
  "make_doc env mp m = seq (mkdir_parents env False (mp @ [''doc'']))
     (seq (create_file env (mp @ [''doc'', m @ ''.rst'']) DOC_RST_TEMPLATE
        [(''MODULE'', m), (''MODULE_DIR'', relative_dir env mp)]) (ret True))"
proof -
  have two: "with_suffix s (p @ [a, m @ x]) = Inr (p @ [a, m @ x @ s])" if "CHR ''.'' \<notin> set x" for s p a x
    using allowed_suffix [OF assms that, of s "p @ [a]"] by simp
  note n = allowed_sub [OF assms] allowed_sub_self [OF assms] allowed_suffix_self [OF assms, of _ "_ @ [_]", simplified]
    two [of "''-test-suite''", simplified] two [of "''-helper''", simplified] two [of "''-example''", simplified]
  show
  "make_cmakelists env mp m = seq (create_file env (mp @ [''CMakeLists.txt'']) CMAKELISTS_TEMPLATE [(''MODULE'', m)]) (ret True)"
  "make_model env mp m = seq (mkdir_parents env False (mp @ [''model'']))
     (seq (create_file env (mp @ [''model'', m @ ''.cc'']) MODEL_CC_TEMPLATE [(''MODULE'', m)])
     (seq (create_file env (mp @ [''model'', m @ ''.h'']) MODEL_H_TEMPLATE [(''MODULE'', m), (''INCLUDE_GUARD'', include_guard m)])
     (ret True)))"
  "make_test env mp m = seq (mkdir_parents env False (mp @ [''test'']))
     (seq (create_file env (mp @ [''test'', m @ ''-test-suite.cc'']) TEST_CC_TEMPLATE
        [(''MODULE'', m), (''CAPITALIZED'', capitalized m), (''COMPOUND'', compound m)]) (ret True))"
  "make_helper env mp m = seq (mkdir_parents env False (mp @ [''helper'']))
     (seq (create_file env (mp @ [''helper'', m @ ''-helper.cc'']) HELPER_CC_TEMPLATE [(''MODULE'', m)])
     (seq (create_file env (mp @ [''helper'', m @ ''-helper.h'']) HELPER_H_TEMPLATE
        [(''MODULE'', m), (''INCLUDE_GUARD'', helper_guard m)]) (ret True)))"
  "make_examples env mp m = seq (mkdir_parents env False (mp @ [''examples'']))
     (seq (create_file env (mp @ [''examples'', ''CMakeLists.txt'']) EXAMPLES_CMAKELISTS_TEMPLATE [(''MODULE'', m)])
     (seq (create_file env (mp @ [''examples'', m @ ''-example.cc'']) EXAMPLE_CC_TEMPLATE [(''MODULE'', m)]) (ret True)))"
  "make_doc env mp m = seq (mkdir_parents env False (mp @ [''doc'']))
     (seq (create_file env (mp @ [''doc'', m @ ''.rst'']) DOC_RST_TEMPLATE
        [(''MODULE'', m), (''MODULE_DIR'', relative_dir env mp)]) (ret True))"
    by (simp_all add: make_cmakelists_def make_model_def make_test_def make_helper_def make_examples_def make_doc_def
        n relpath_relative_dir)
qed

lemma keeps_steps:
  assumes "allowedRE m"
  shows "keeps (outside t0 mp) (all_true (module_steps env mp m))"
  unfolding module_steps_def list.map make_steps [OF assms] all_true.simps
  by (intro keeps_intros keeps_create_file keeps_mkdir_parents) (auto simp: strict_prefix_def)

text \<open>A removal that does not fail.\<close>

definition removals_succeed :: "os_env \<Rightarrow> bool" where
  "removals_succeed env \<longleftrightarrow> (\<forall>t p. rmtree_fails env t p = None)"

text \<open>A removal that fails has changed nothing but what lies at or below the directory.\<close>

definition removals_contained :: "os_env \<Rightarrow> bool" where
  "removals_contained env \<longleftrightarrow>
     (\<forall>t p n u. rmtree_fails env t p = Some (n, u) \<longrightarrow> (\<forall>q. \<not> prefix p q \<longrightarrow> map_of u q = map_of t q))"

lemma succeed_contained: "removals_succeed env \<Longrightarrow> removals_contained env"
  by (simp add: removals_succeed_def removals_contained_def)

lemma map_of_filter_keys: "map_of (filter (\<lambda>(q, _). P q) t) q = (if P q then map_of t q else None)"
  by (induction t) auto

lemma rmtree_cases:
  "rmtree env mp w = (case rmtree_fails env (tree_of w) mp of
       Some (n, u) \<Rightarrow> (Inl (os_error n), w\<lparr>tree_of := u\<rparr>)
     | None \<Rightarrow> (Inr (), w\<lparr>tree_of := filter (\<lambda>(q, _). \<not> prefix mp q) (tree_of w)\<rparr>))"
  by (simp add: rmtree_def split: option.split prod.split)

lemma prefix_of_butlast: "prefix mp (butlast q) \<Longrightarrow> prefix mp q"
  by (metis prefix_order.trans prefixeq_butlast)

lemma outside_removed:
  assumes "outside t0 mp w"
  shows "outside t0 mp (w\<lparr>tree_of := filter (\<lambda>(q, _). \<not> prefix mp q) (tree_of w)\<rparr>)"
  using assms by (auto simp: outside_def same_or_ancestor_def closed_tree_def map_of_filter_keys dest: prefix_of_butlast)

text \<open>
  The handler: the half-made module is gone and the answer is False, or its removal is refused, which raises
  the error of the removal.
\<close>

lemma module_failed_cases:
  assumes "outside t0 mp w" and "module_failed env mp m e w = (r, w')"
  shows "r = Inr False \<and> outside t0 mp w' \<and> map_of (tree_of w') mp = None
    \<or> (\<exists>n u. rmtree_fails env (tree_of w) mp = Some (n, u) \<and> r = Inl (os_error n) \<and> tree_of w' = u)"
proof (cases "has_key (tree_of w) mp \<and> rmtree_fails env (tree_of w) mp \<noteq> None")
  case True
  then obtain n u where "rmtree_fails env (tree_of w) mp = Some (n, u)" by auto
  with True assms(2) show ?thesis by (auto simp: module_failed_def exists_def rmtree_cases do_if_def sbind_def)
next
  case False
  let ?w = "if has_key (tree_of w) mp then w\<lparr>tree_of := filter (\<lambda>(q, _). \<not> prefix mp q) (tree_of w)\<rparr> else w"
  have "r = Inr False \<and> tree_of w' = tree_of ?w"
  proof (cases "has_key (tree_of w) mp")
    case True
    with False have "rmtree_fails env (tree_of w) mp = None" by blast
    with True assms(2) show ?thesis by (auto simp: module_failed_def exists_def rmtree_cases do_if_def sbind_def err_print_def)
  qed (use assms(2) in \<open>auto simp: module_failed_def exists_def do_if_def sbind_def err_print_def\<close>)
  moreover have "outside t0 mp ?w" using assms(1) outside_removed by simp
  moreover have "map_of (tree_of ?w) mp = None" by (auto simp: map_of_filter_keys)
  ultimately show ?thesis by (simp add: outside_def)
qed

lemma mkdir_parents_raises: "raises (\<lambda>e. \<not> is_system_exit e) (mkdir_parents env ok p)"
proof (induction env ok p rule: mkdir_parents.induct)
  case (1 env ok p)
  have os: "raises (\<lambda>e. \<not> is_system_exit e) (os_mkdir env q)" for q
    by (auto simp: raises_def os_mkdir_cases Let_def is_system_exit_def os_error_def)
  have handler: "\<not> is_system_exit e \<Longrightarrow> raises (\<lambda>e. \<not> is_system_exit e) (mkdir_failed b q e)" for b q e
    unfolding mkdir_failed_def by (intro raises_intros)
  have tried: "raises (\<lambda>e. \<not> is_system_exit e) (try_except (\<lambda>_. True) (os_mkdir env q) h)"
    if "\<And>e. \<not> is_system_exit e \<Longrightarrow> raises (\<lambda>e. \<not> is_system_exit e) (h e)" for q and h :: "py_error \<Rightarrow> unit maker"
    using os [of q] that unfolding raises_def try_except_def
    by (auto split: prod.splits sum.splits) (metis fst_conv)
  have plain: "raises (\<lambda>e. \<not> is_system_exit e) (mkdir_plain env b q)" for b q
    unfolding mkdir_plain_def by (rule tried) (auto intro!: raises_intros handler)
  show ?case
    unfolding mkdir_parents.simps [of env ok p]
    by (rule tried) (auto intro!: raises_intros handler plain 1)
qed

lemma py_format_raises: "py_format kw s = Inl e \<Longrightarrow> \<not> is_system_exit e"
  by (induction kw s rule: py_format.induct)
    (auto simp: rbind_Inl_iff is_system_exit_def split: if_splits option.splits)

lemma create_file_raises: "raises (\<lambda>e. \<not> is_system_exit e) (create_file env p tmpl kw)"
  unfolding create_file_def
  by (intro raises_intros)
    (auto simp: check_def put_node_def is_system_exit_def os_error_def raises_base raises_fail dest: py_format_raises split: option.split)

lemma closed_none_below:
  assumes "closed_tree t" "map_of t mp = None" "prefix mp q"
  shows "map_of t q = None"
proof -
  obtain zs where "q = mp @ zs" using assms(3) by (rule prefixE)
  moreover have "map_of t (mp @ zs) = None"
  proof (induction zs rule: rev_induct)
    case (snoc z zs)
    show ?case
    proof (rule ccontr)
      assume "map_of t (mp @ zs @ [z]) \<noteq> None"
      then have "map_of t (butlast (mp @ zs @ [z])) = Some Dir"
        using assms(1) unfolding closed_tree_def by blast
      with snoc show False by (simp add: butlast_append)
    qed
  qed (use assms(2) in simp)
  ultimately show ?thesis by simp
qed

lemma make_module_body:
  "allowedRE m \<Longrightarrow> \<not> has_key (tree_of w) (modpath @ [m]) \<Longrightarrow> make_module env modpath m w =
     try_except (\<lambda>e. \<not> is_system_exit e) (module_body env (modpath @ [m]) m) (module_failed env (modpath @ [m]) m)
       (w\<lparr>printed := printed w @ ''Creating module '' @ abs_path (modpath @ [m]) @ [NL]\<rparr>)"
  by (simp add: make_module_def Let_def allowed_sub_self exists_def out_print_def)

lemma keeps_body: "allowedRE m \<Longrightarrow> keeps (outside t0 mp) (module_body env mp m)"
  unfolding module_body_def
  by (intro keeps_intros keeps_mkdir_parents keeps_steps) simp_all

lemma body_raises:
  assumes "allowedRE m"
  shows "raises (\<lambda>e. \<not> is_system_exit e) (module_body env mp m)"
  unfolding module_body_def module_steps_def list.map make_steps [OF assms] all_true.simps
  by (intro raises_intros mkdir_parents_raises create_file_raises) (simp add: is_system_exit_def)

lemma body_True: "module_body env mp m w = (Inr b, w') \<Longrightarrow> b"
  by (auto simp: module_body_def sbind_Inr ret_def fail_def split: if_splits)

text \<open>How a call can end: with an answer, or with the error of a refused removal.\<close>

lemma module_outcome_cases:
  assumes "allowedRE modname" "closed_tree (tree_of w)" "make_module env modpath modname w = (r, w')"
  shows "(\<exists>made. r = Inr made \<and> closed_tree (tree_of w') \<and>
      (\<forall>q. made \<and> prefix (modpath @ [modname]) q \<or> same_or_ancestor (tree_of w) (modpath @ [modname]) (tree_of w') q))
    \<or> (\<exists>t n u. rmtree_fails env t (modpath @ [modname]) = Some (n, u) \<and> r = Inl (os_error n) \<and> tree_of w' = u \<and>
      (\<forall>q. \<not> prefix (modpath @ [modname]) q \<longrightarrow> same_or_ancestor (tree_of w) (modpath @ [modname]) t q))"
proof (cases "has_key (tree_of w) (modpath @ [modname])")
  case True
  then have "make_module env modpath modname w =
      (Inr False, w\<lparr>err_printed := err_printed w @ (''Module '' @ py_repr modname @ '' already exists'') @ [NL]\<rparr>)"
    by (simp add: make_module_def Let_def allowed_sub_self [OF assms(1)] exists_def err_print_def del: append_Cons)
  with assms(3) have "r = Inr False \<and> tree_of w' = tree_of w" by auto
  with assms(2) show ?thesis by (auto simp: same_or_ancestor_def)
next
  case False
  let ?mp = "modpath @ [modname]"
  let ?w1 = "w\<lparr>printed := printed w @ ''Creating module '' @ abs_path ?mp @ [NL]\<rparr>"
  have none: "map_of (tree_of w) q = None" if "prefix ?mp q" for q
    using closed_none_below [OF assms(2) _ that] False by simp
  have w1: "outside (tree_of w) ?mp ?w1" using assms(2) by (simp add: outside_def same_or_ancestor_def)
  obtain r2 w2 where b: "module_body env ?mp modname ?w1 = (r2, w2)" by (cases "module_body env ?mp modname ?w1") auto
  have o2: "outside (tree_of w) ?mp w2" using keepsD [OF keeps_body [OF assms(1)] w1 b] .
  note run = assms(3) [unfolded make_module_body [OF assms(1) False]]
  show ?thesis
  proof (cases r2)
    case (Inr made)
    with b have "made" using body_True by blast
    moreover have "r = Inr made" "w' = w2" using Inr b run by (simp_all add: try_except_def)
    ultimately show ?thesis using o2 unfolding outside_def by blast
  next
    case (Inl e)
    with b have e: "\<not> is_system_exit e" using body_raises [OF assms(1)] raisesD by fastforce
    with Inl b run have f: "module_failed env ?mp modname e w2 = (r, w')" by (simp add: try_except_def)
    consider (gone) "r = Inr False" "outside (tree_of w) ?mp w'" "map_of (tree_of w') ?mp = None"
      | (refused) n u where "rmtree_fails env (tree_of w2) ?mp = Some (n, u)" "r = Inl (os_error n)" "tree_of w' = u"
      using module_failed_cases [OF o2 f] by (elim disjE exE conjE)
    then show ?thesis
    proof cases
      case gone
      have closed: "closed_tree (tree_of w')" using gone(2) by (simp add: outside_def)
      have "same_or_ancestor (tree_of w) ?mp (tree_of w') q" for q
      proof (cases "prefix ?mp q")
        case True
        then show ?thesis using none closed_none_below [OF closed gone(3)] by (simp add: same_or_ancestor_def)
      next
        case False
        then show ?thesis using gone(2) unfolding outside_def by blast
      qed
      with gone(1) closed show ?thesis by blast
    next
      case refused
      then show ?thesis using o2 unfolding outside_def by blast
    qed
  qed
qed

lemma module_outcome:
  assumes "allowedRE modname" "removals_succeed env" "closed_tree (tree_of w)"
    and "make_module env modpath modname w = (r, w')"
  shows "\<exists>made. r = Inr made \<and> closed_tree (tree_of w')"
  using module_outcome_cases [OF assms(1,3,4)] assms(2) by (auto simp: removals_succeed_def)

text \<open>
  Claim C17. Creating a module is all or nothing, whatever the system refuses on the way. For an accepted name
  either \<open>make_module\<close> answers: when it answers False nothing exists at or below the module's directory that did
  not exist before, and nothing there is lost; or it raises, and then only because the removal of the half-made
  module was itself refused, with the error of that removal. In each case everything outside of the directory is
  what it was, except that the directories on the way to it may have been created, given that a refused removal
  changes nothing outside of the directory it should remove.
\<close>

theorem module_all_or_nothing:
  assumes "allowedRE modname" "removals_contained env" "closed_tree (tree_of w)"
    and "make_module env modpath modname w = (r, w')"
  shows "case r of
      Inr made \<Rightarrow> \<forall>q. made \<and> prefix (modpath @ [modname]) q
        \<or> same_or_ancestor (tree_of w) (modpath @ [modname]) (tree_of w') q
    | Inl e \<Rightarrow> (\<exists>t n u. rmtree_fails env t (modpath @ [modname]) = Some (n, u) \<and> e = os_error n \<and> tree_of w' = u)
        \<and> (\<forall>q. prefix (modpath @ [modname]) q
            \<or> same_or_ancestor (tree_of w) (modpath @ [modname]) (tree_of w') q)"
proof (cases r)
  case (Inr made)
  with module_outcome_cases [OF assms(1,3,4)] show ?thesis by auto
next
  case (Inl e)
  with module_outcome_cases [OF assms(1,3,4)] obtain t n u where
    t: "rmtree_fails env t (modpath @ [modname]) = Some (n, u)" "e = os_error n" "tree_of w' = u"
      "\<forall>q. \<not> prefix (modpath @ [modname]) q \<longrightarrow> same_or_ancestor (tree_of w) (modpath @ [modname]) t q" by auto
  have "map_of u q = map_of t q" if "\<not> prefix (modpath @ [modname]) q" for q
    using assms(2) t(1) that unfolding removals_contained_def by blast
  then have "prefix (modpath @ [modname]) q \<or> same_or_ancestor (tree_of w) (modpath @ [modname]) (tree_of w') q" for q
    using t(3,4) by (auto simp: same_or_ancestor_def)
  with Inl t(1-3) show ?thesis by auto
qed

section \<open>What a successful creation builds\<close>

definition no_refusals :: "os_env \<Rightarrow> bool" where
  "no_refusals env \<longleftrightarrow> (\<forall>t p. refuses env t p = None)"

text \<open>A template with its fields filled in.\<close>

definition render :: "(string, string) dict \<Rightarrow> string \<Rightarrow> string" where
  "render kw tmpl = (case pieces tmpl of None \<Rightarrow> [] | Some ps \<Rightarrow> fill (value_of kw) ps)"

text \<open>The directories and files of a module, in the order in which they come about.\<close>

definition module_entries :: "string list \<Rightarrow> string \<Rightarrow> string \<Rightarrow> (string list \<times> node) list" where
  "module_entries mp m reldir =
     [(mp @ [''CMakeLists.txt''], File (render [(''MODULE'', m)] CMAKELISTS_TEMPLATE)),
      (mp @ [''model''], Dir),
      (mp @ [''model'', m @ ''.cc''], File (render [(''MODULE'', m)] MODEL_CC_TEMPLATE)),
      (mp @ [''model'', m @ ''.h''],
        File (render [(''MODULE'', m), (''INCLUDE_GUARD'', include_guard m)] MODEL_H_TEMPLATE)),
      (mp @ [''test''], Dir),
      (mp @ [''test'', m @ ''-test-suite.cc''],
        File (render [(''MODULE'', m), (''CAPITALIZED'', capitalized m), (''COMPOUND'', compound m)] TEST_CC_TEMPLATE)),
      (mp @ [''helper''], Dir),
      (mp @ [''helper'', m @ ''-helper.cc''], File (render [(''MODULE'', m)] HELPER_CC_TEMPLATE)),
      (mp @ [''helper'', m @ ''-helper.h''],
        File (render [(''MODULE'', m), (''INCLUDE_GUARD'', helper_guard m)] HELPER_H_TEMPLATE)),
      (mp @ [''examples''], Dir),
      (mp @ [''examples'', ''CMakeLists.txt''], File (render [(''MODULE'', m)] EXAMPLES_CMAKELISTS_TEMPLATE)),
      (mp @ [''examples'', m @ ''-example.cc''], File (render [(''MODULE'', m)] EXAMPLE_CC_TEMPLATE)),
      (mp @ [''doc''], Dir),
      (mp @ [''doc'', m @ ''.rst''], File (render [(''MODULE'', m), (''MODULE_DIR'', reldir)] DOC_RST_TEMPLATE))]"

definition put_all :: "(string list \<times> node) list \<Rightarrow> (string list \<Rightarrow> node option) \<Rightarrow> string list \<Rightarrow> node option" where
  "put_all es f = foldl (\<lambda>g (q, n). g(q \<mapsto> n)) f es"

text \<open>A procedure that returns \<open>x\<close> and changes the file system, seen as a function, by \<open>F\<close>.\<close>

definition builds :: "'a maker \<Rightarrow> 'a \<Rightarrow> (string list \<Rightarrow> node option) \<Rightarrow> (string list \<Rightarrow> node option) \<Rightarrow> bool" where
  "builds m x f g \<longleftrightarrow> (\<forall>w. map_of (tree_of w) = f \<longrightarrow> (\<exists>w'. m w = (Inr x, w') \<and> map_of (tree_of w') = g))"

lemma builds_sbind: "builds m x f g \<Longrightarrow> builds (k x) y g h \<Longrightarrow> builds (sbind m k) y f h"
  unfolding builds_def by (metis sbind_ret)

lemma builds_ret: "builds (ret x) x f f"
  by (simp add: builds_def)

lemma builds_Pair [simp]: "builds (Pair (Inr x)) x f f"
  by (simp add: builds_def)

lemma builds_create_file:
  assumes "no_refusals env" "f (butlast p) = Some Dir" "f p \<noteq> Some Dir"
    and "has_fields tmpl ns" "set ns \<subseteq> set (dkeys kw)"
  shows "builds (create_file env p tmpl kw) () f (f(p \<mapsto> File (render kw tmpl)))"
proof -
  obtain ps where ps: "pieces tmpl = Some ps" "py_format kw tmpl = Inr (fill (value_of kw) ps)"
    using py_format_fields [OF assms(4,5)] by auto
  have "\<exists>w'. create_file env p tmpl kw w = (Inr (), w') \<and> map_of (tree_of w') = f(p \<mapsto> File (render kw tmpl))"
    if "map_of (tree_of w) = f" for w
    using assms(1-3) that ps
    by (simp add: create_file_def sbind_def check_cases parent_error_None no_refusals_def put_node_def render_def)
  then show ?thesis by (simp add: builds_def)
qed

lemma builds_mkdir_child:
  assumes "no_refusals env" "f (butlast p) = Some Dir" "f p = None"
  shows "builds (mkdir_parents env ok p) () f (f(p \<mapsto> Dir))"
proof -
  have "\<exists>w'. mkdir_parents env ok p w = (Inr (), w') \<and> map_of (tree_of w') = f(p \<mapsto> Dir)"
    if "map_of (tree_of w) = f" for w
    using assms that
    by (simp add: mkdir_parents.simps [of env ok p] try_except_def os_mkdir_cases Let_def parent_error_None no_refusals_def)
  then show ?thesis by (simp add: builds_def)
qed

lemma builds_mkdir_exists:
  assumes "f p = Some Dir"
  shows "builds (mkdir_parents env True p) () f f"
proof -
  have "mkdir_parents env True p w = (Inr (), w)" if "map_of (tree_of w) = f" for w
    using assms that
    by (simp add: mkdir_parents.simps [of env True p] try_except_def os_mkdir_cases Let_def os_error_def
        mkdir_failed_def is_dir_def)
  then show ?thesis by (auto simp: builds_def)
qed

text \<open>
  Creating a directory with its parents: where no file is in the way, all directories on the way
  exist afterwards.
\<close>

definition way_free :: "(string list \<Rightarrow> node option) \<Rightarrow> string list \<Rightarrow> bool" where
  "way_free f p \<longleftrightarrow> f [] = Some Dir \<and> (\<forall>q. prefix q p \<longrightarrow> \<not> is_file (f q))"

definition with_dirs :: "string list \<Rightarrow> (string list \<Rightarrow> node option) \<Rightarrow> string list \<Rightarrow> node option" where
  "with_dirs p f q = (if prefix q p then Some Dir else f q)"

lemma not_file: "\<not> is_file x \<longleftrightarrow> x = None \<or> x = Some Dir"
  by (auto simp: is_file_def split: option.splits node.splits)

definition closed_fun :: "(string list \<Rightarrow> node option) \<Rightarrow> bool" where
  "closed_fun f \<longleftrightarrow> (\<forall>q. q \<noteq> [] \<and> f q \<noteq> None \<longrightarrow> f (butlast q) = Some Dir)"

lemma closed_tree_fun: "closed_tree t \<longleftrightarrow> closed_fun (map_of t)"
  by (simp add: closed_tree_def closed_fun_def)

lemma closed_prefix_dir: "closed_fun f \<Longrightarrow> f p = Some Dir \<Longrightarrow> prefix q p \<Longrightarrow> f q = Some Dir"
proof (induction p rule: rev_induct)
  case (snoc x p)
  then have "f p = Some Dir" unfolding closed_fun_def by (metis butlast_snoc option.distinct(1) snoc_eq_iff_butlast)
  with snoc show ?case by auto
qed simp

lemma with_dirs_id: "closed_fun f \<Longrightarrow> f p = Some Dir \<Longrightarrow> with_dirs p f = f"
  by (rule ext) (simp add: with_dirs_def closed_prefix_dir)

lemma with_dirs_snoc: "(with_dirs p f)(p @ [x] \<mapsto> Dir) = with_dirs (p @ [x]) f"
  by (rule ext) (simp add: with_dirs_def)

lemma way_free_butlast: "way_free f p \<Longrightarrow> way_free f (butlast p)"
  unfolding way_free_def by (metis prefix_order.trans prefixeq_butlast)

lemma builds_mkdir_plain:
  assumes "no_refusals env" "f (butlast p) = Some Dir" "f p = None"
  shows "builds (mkdir_plain env ok p) () f (f(p \<mapsto> Dir))"
proof -
  have "\<exists>w'. mkdir_plain env ok p w = (Inr (), w') \<and> map_of (tree_of w') = f(p \<mapsto> Dir)"
    if "map_of (tree_of w) = f" for w
    using assms that by (simp add: mkdir_plain_def try_except_def os_mkdir_cases Let_def parent_error_None no_refusals_def)
  then show ?thesis by (simp add: builds_def)
qed

lemma parent_missing:
  assumes "way_free (map_of t) p" "map_of t (butlast p) \<noteq> Some Dir"
  shows "parent_error t p = Some ''FileNotFoundError''"
proof -
  have "\<not> is_file (map_of t (take n p))" for n
    using assms(1) by (simp add: way_free_def take_is_prefix)
  with assms(2) show ?thesis by (auto simp: parent_error_def list_ex_iff)
qed

lemma builds_mkdir_parents:
  assumes "no_refusals env" "closed_fun f" "way_free f p" "f p = None \<or> ok \<and> f p = Some Dir"
  shows "builds (mkdir_parents env ok p) () f (with_dirs p f)"
  using assms(3,4)
proof (induction p arbitrary: ok rule: rev_induct)
  case Nil
  then have "ok" "f [] = Some Dir" by (auto simp: way_free_def)
  then show ?case using builds_mkdir_exists [of f "[]" env] with_dirs_id [OF assms(2), of "[]"] by simp
next
  case (snoc x p)
  note wf = snoc.prems(1) and now = snoc.prems(2)
  have wf': "way_free f p" using way_free_butlast [OF wf] by simp
  have fp: "f p = None \<or> f p = Some Dir" using wf' by (auto simp: way_free_def not_file)
  consider (there) "ok" and "f (p @ [x]) = Some Dir" | (child) "f (p @ [x]) = None" and "f p = Some Dir"
    | (deep) "f (p @ [x]) = None" and "f p = None" using now fp by metis
  then show ?case
  proof cases
    case there
    then show ?thesis using builds_mkdir_exists [of f "p @ [x]" env] with_dirs_id [OF assms(2)] by simp
  next
    case child
    then show ?thesis
      using builds_mkdir_child [OF assms(1), of f "p @ [x]" ok] with_dirs_snoc [of p f x] with_dirs_id [OF assms(2)] by simp
  next
    case deep
    have p: "builds (mkdir_parents env True p) () f (with_dirs p f)" using snoc.IH [of True] wf' fp by blast
    have c: "builds (mkdir_plain env ok (p @ [x])) () (with_dirs p f) (with_dirs (p @ [x]) f)"
      using builds_mkdir_plain [OF assms(1), of "with_dirs p f" "p @ [x]" ok] deep
      by (simp add: with_dirs_snoc) (simp add: with_dirs_def)
    have "mkdir_parents env ok (p @ [x]) w = seq (mkdir_parents env True p) (mkdir_plain env ok (p @ [x])) w"
      if "map_of (tree_of w) = f" for w
      using that deep wf parent_missing [of "tree_of w" "p @ [x]"]
      by (simp add: mkdir_parents.simps [of env ok "p @ [x]"] try_except_def os_mkdir_cases Let_def)
    with builds_sbind [OF p c] show ?thesis by (simp add: builds_def)
  qed
qed

lemma builds_all_true: "builds m True f g \<Longrightarrow> builds (all_true ms) True g h \<Longrightarrow> builds (all_true (m # ms)) True f h"
  by (simp add: builds_sbind)

lemma builds_all_Nil: "builds (all_true []) True f f"
  by (simp add: builds_ret)

lemma step_file:
  assumes "no_refusals env" "has_fields tmpl ns" "set ns \<subseteq> set (dkeys kw)"
    and "f (butlast p) = Some Dir" "f p \<noteq> Some Dir" "builds k y (f(p \<mapsto> File (render kw tmpl))) h"
  shows "builds (seq (create_file env p tmpl kw) k) y f h"
  using builds_sbind [OF builds_create_file [OF assms(1,4,5,2,3)] assms(6)] .

lemma step_dir:
  assumes "no_refusals env" "f (butlast p) = Some Dir" "f p = None" "builds k y (f(p \<mapsto> Dir)) h"
  shows "builds (seq (mkdir_parents env False p) k) y f h"
  using builds_sbind [OF builds_mkdir_child [OF assms(1-3)] assms(4)] .

lemma butlast_two [simp]: "butlast (mp @ [a, b]) = mp @ [a]"
  by (simp add: butlast_append)

lemma builds_steps:
  assumes m: "allowedRE m" and nr: "no_refusals env" and d: "f mp = Some Dir" and e: "\<And>a zs. f (mp @ a # zs) = None"
  shows "builds (all_true (module_steps env mp m)) True f (put_all (module_entries mp m (relative_dir env mp)) f)"
proof -
  note file1 = step_file [OF nr template_fields(1)] step_file [OF nr template_fields(2)] step_file [OF nr template_fields(3)]
    step_file [OF nr template_fields(4)] step_file [OF nr template_fields(5)] step_file [OF nr template_fields(6)]
    step_file [OF nr template_fields(7)] step_file [OF nr test_template_fields] step_file [OF nr doc_template_fields]
  note dir1 = step_dir [OF nr]
  have ret: "f = g \<Longrightarrow> builds (ret True) True f g" for f g :: "string list \<Rightarrow> node option" by (simp add: builds_ret)
  have nil: "f = g \<Longrightarrow> builds (all_true []) True f g" for f g :: "string list \<Rightarrow> node option" by (simp add: builds_ret)
  let ?E = "module_entries mp m (relative_dir env mp)"
  have s1: "builds (make_cmakelists env mp m) True f (put_all (take 1 ?E) f)"
    unfolding make_steps [OF m] by (rule file1) (simp_all add: d e ret put_all_def module_entries_def)
  have s2: "builds (make_model env mp m) True (put_all (take 1 ?E) f) (put_all (take 4 ?E) f)"
    unfolding make_steps [OF m]
    by (rule dir1, simp_all add: d e put_all_def module_entries_def)
      (rule file1, simp_all add: d e, rule file1, simp_all add: d e ret)
  have s3: "builds (make_test env mp m) True (put_all (take 4 ?E) f) (put_all (take 6 ?E) f)"
    unfolding make_steps [OF m]
    by (rule dir1, simp_all add: d e put_all_def module_entries_def) (rule file1, simp_all add: d e ret)
  have s4: "builds (make_helper env mp m) True (put_all (take 6 ?E) f) (put_all (take 9 ?E) f)"
    unfolding make_steps [OF m]
    by (rule dir1, simp_all add: d e put_all_def module_entries_def)
      (rule file1, simp_all add: d e, rule file1, simp_all add: d e ret)
  have s5: "builds (make_examples env mp m) True (put_all (take 9 ?E) f) (put_all (take 12 ?E) f)"
    unfolding make_steps [OF m]
    by (rule dir1, simp_all add: d e put_all_def module_entries_def)
      (rule file1, simp_all add: d e, rule file1, simp_all add: d e ret)
  have s6: "builds (make_doc env mp m) True (put_all (take 12 ?E) f) (put_all ?E f)"
    unfolding make_steps [OF m]
    by (rule dir1, simp_all add: d e put_all_def module_entries_def) (rule file1, simp_all add: d e ret)
  show ?thesis
    unfolding module_steps_def list.map
    by (rule builds_all_true [OF s1 builds_all_true [OF s2 builds_all_true [OF s3 builds_all_true [OF s4
        builds_all_true [OF s5 builds_all_true [OF s6 nil]]]]]]) simp
qed

text \<open>
  Claim C18. What \<open>make_module\<close> builds: for an accepted name, when the module does not exist yet, no
  file stands in the way of its directory and the system refuses nothing, it answers True, and
  the file system is the old one with the directories down to the module's and then, in this
  order, the fourteen files and directories of the module, each file being its template with
  every field filled in.
\<close>

theorem module_created:
  assumes "allowedRE modname" "no_refusals env" "closed_tree (tree_of w)" "way_free (map_of (tree_of w)) modpath"
    and "\<not> has_key (tree_of w) (modpath @ [modname])"
  shows "\<exists>w'. make_module env modpath modname w = (Inr True, w') \<and>
    map_of (tree_of w') =
      put_all (module_entries (modpath @ [modname]) modname (relative_dir env (modpath @ [modname])))
        (with_dirs (modpath @ [modname]) (map_of (tree_of w)))"
proof -
  let ?mp = "modpath @ [modname]" and ?f = "map_of (tree_of w)"
  have cf: "closed_fun ?f" using assms(3) by (simp add: closed_tree_fun)
  have none: "?f ?mp = None" using assms(5) by simp
  then have wf: "way_free ?f ?mp" using assms(4) by (auto simp: way_free_def is_file_def)
  have b1: "builds (mkdir_parents env False ?mp) () ?f (with_dirs ?mp ?f)"
    using builds_mkdir_parents [OF assms(2) cf wf] none by simp
  have "?f (?mp @ a # zs) = None" for a zs
    using closed_none_below [OF assms(3), of ?mp "?mp @ a # zs"] none by simp
  then have "with_dirs ?mp ?f (?mp @ a # zs) = None" for a zs by (simp add: with_dirs_def)
  then have b2: "builds (all_true (module_steps env ?mp modname)) True (with_dirs ?mp ?f)
      (put_all (module_entries ?mp modname (relative_dir env ?mp)) (with_dirs ?mp ?f))"
    by (intro builds_steps assms) (simp_all add: with_dirs_def)
  have "builds (module_body env ?mp modname) True ?f
      (put_all (module_entries ?mp modname (relative_dir env ?mp)) (with_dirs ?mp ?f))"
    unfolding module_body_def by (rule builds_sbind [OF b1 builds_sbind [OF b2]]) (simp add: builds_ret)
  then show ?thesis
    by (auto simp: make_module_body [OF assms(1,5)] builds_def try_except_def
        dest: spec [of _ "w\<lparr>printed := printed w @ ''Creating module '' @ abs_path ?mp @ [NL]\<rparr>"])
qed

text \<open>The directory that the documentation names is the path from the working directory.\<close>

lemma endswith_char: "endswith s [c] \<longleftrightarrow> s \<noteq> [] \<and> last s = c"
  by (cases s rule: rev_cases) (auto simp: endswith_def)

lemma abspath_dot:
  assumes "\<forall>c \<in> set cs. plain_comp c"
  shows "abspath (abs_path cs) ''.'' = abs_path cs"
proof -
  let ?p = "path_join2 (abs_path cs) ''.''"
  have p: "?p = (if cs = [] then ''/.'' else abs_path cs @ SLASH # ''.'')"
  proof (cases "cs = []")
    case False
    then have c: "last cs \<noteq> []" "SLASH \<notin> set (last cs)" using assms by (auto simp: plain_comp_def)
    then have "last (last cs) \<noteq> SLASH" by (metis last_in_set)
    then have "last (abs_path cs) \<noteq> SLASH"
      using last_of_join [OF False c(1), of "[SLASH]"] by (simp add: abs_path_def)
    then show ?thesis using False by (simp add: path_join2_def startswith_def endswith_char abs_path_def)
  qed (simp add: path_join2_def startswith_def abs_path_def endswith_char)
  have "norm_comps ?p = cs"
    using assms
    by (auto simp: p norm_comps_def split_on_append_sep split_abs_path foldl_norm_plain norm_step_def)
  moreover have "initial_slashes ?p = 1"
  proof (cases cs)
    case (Cons c cs')
    then obtain x c' where "c = x # c'" "x \<noteq> SLASH" using assms by (cases c) (auto simp: plain_comp_def)
    with Cons have "\<exists>r. abs_path cs = SLASH # x # r" by (cases cs') (auto simp: abs_path_def)
    then obtain r where "?p = SLASH # x # r" using p Cons by auto
    with \<open>x \<noteq> SLASH\<close> show ?thesis by (simp only:) (simp add: initial_slashes_def startswith_def)
  next
    case Nil
    then have "?p = ''/.''" using p by simp
    then show ?thesis by (simp only:) (simp add: initial_slashes_def startswith_def)
  qed
  ultimately show ?thesis by (simp add: abspath_def startswith_def normpath_def abs_path_def)
qed

lemma relative_dir_below:
  assumes "\<forall>c \<in> set (work_dir env @ ds). plain_comp c" "ds \<noteq> []"
  shows "relative_dir env (work_dir env @ ds) = join [SLASH] ds"
proof -
  have "relpath (abs_path (work_dir env)) (abs_path (work_dir env @ ds)) ''.'' =
      relpath (abs_path (work_dir env)) (abs_path (work_dir env @ ds)) (abs_path (work_dir env))"
    using assms by (simp add: relpath_def abspath_dot abspath_abs_path)
  with relpath_below [OF assms] show ?thesis by (simp add: relative_dir_def)
qed

definition sample_os :: os_env where
  "sample_os = \<lparr> work_dir = [''ns3''], refuses = (\<lambda>_ _. None), rmtree_fails = (\<lambda>_ _. None),
     message = (\<lambda>_. []), usage_error = (\<lambda>m. m) \<rparr>"

definition sample_world :: module_world where
  "sample_world = \<lparr> tree_of = [([], Dir), ([''ns3''], Dir), ([''ns3'', ''contrib''], Dir), ([''ns3'', ''src''], Dir)],
     printed = [], err_printed = [] \<rparr>"

lemma sample_closed: "closed_tree (tree_of sample_world)"
  by (auto simp: closed_tree_def sample_world_def split: if_splits)

lemma sample_way: "way_free (map_of (tree_of sample_world)) [''ns3'', ''contrib'', ''group'']"
  by (auto simp: way_free_def sample_world_def is_file_def)

theorem module_created_witness:
  "\<exists>w'. make_module sample_os [''ns3'', ''contrib'', ''group''] ''fancy-link'' sample_world = (Inr True, w') \<and>
    map_of (tree_of w') =
      put_all (module_entries [''ns3'', ''contrib'', ''group'', ''fancy-link''] ''fancy-link'' ''contrib/group/fancy-link'')
        (with_dirs [''ns3'', ''contrib'', ''group'', ''fancy-link''] (map_of (tree_of sample_world)))"
proof -
  have "allowedRE ''fancy-link''" by code_simp
  moreover have "no_refusals sample_os" by (simp add: no_refusals_def sample_os_def)
  moreover have "\<not> has_key (tree_of sample_world) ([''ns3'', ''contrib'', ''group''] @ [''fancy-link''])"
    by (simp add: sample_world_def)
  moreover have "relative_dir sample_os ([''ns3'', ''contrib'', ''group''] @ [''fancy-link'']) = ''contrib/group/fancy-link''"
    by code_simp
  ultimately show ?thesis using module_created [of "''fancy-link''" sample_os sample_world, OF _ _ sample_closed sample_way] by simp
qed

text \<open>A system that refuses the last directory: everything is taken back.\<close>

definition full_disk :: os_env where
  "full_disk = sample_os\<lparr>refuses := (\<lambda>t p. if last p = ''doc'' then Some ''OSError'' else None)\<rparr>"

text \<open>One that refuses the first file, and to take the directory back.\<close>

definition stuck_disk :: os_env where
  "stuck_disk = sample_os\<lparr>refuses := (\<lambda>t p. if last p = ''CMakeLists.txt'' then Some ''OSError'' else None),
     rmtree_fails := (\<lambda>t p. Some (''PermissionError'', t))\<rparr>"

lemma disks_contained: "removals_contained full_disk" "removals_contained stuck_disk"
  by (simp_all add: removals_contained_def stuck_disk_def full_disk_def sample_os_def)

lemma stuck_raises:
  "fst (make_module stuck_disk [''ns3'', ''contrib''] ''m'' sample_world) = Inl (os_error ''PermissionError'')"
proof -
  let ?mp = "[''ns3'', ''contrib''] @ [''m'']"
  have m: "allowedRE ''m''" by code_simp
  have new: "\<not> has_key (tree_of sample_world) ?mp" by (simp add: sample_world_def)
  define w1 where "w1 = sample_world\<lparr>printed := printed sample_world @ ''Creating module '' @ abs_path ?mp @ [NL]\<rparr>"
  have "os_mkdir stuck_disk ?mp w1 = (Inr (), w1\<lparr>tree_of := AList.update ?mp Dir (tree_of w1)\<rparr>)"
    by (simp add: os_mkdir_cases Let_def parent_error_def w1_def sample_world_def stuck_disk_def sample_os_def)
  then have dir: "mkdir_parents stuck_disk False ?mp w1 = (Inr (), w1\<lparr>tree_of := AList.update ?mp Dir (tree_of w1)\<rparr>)"
    by (subst mkdir_parents.simps) (simp only: try_except_def prod.case sum.case)
  have "create_file stuck_disk (?mp @ [''CMakeLists.txt'']) tmpl kw (w1\<lparr>tree_of := AList.update ?mp Dir (tree_of w1)\<rparr>)
      = (Inl (os_error ''OSError''), w1\<lparr>tree_of := AList.update ?mp Dir (tree_of w1)\<rparr>)" for tmpl kw
    by (simp add: create_file_def sbind_def check_cases parent_error_def w1_def sample_world_def stuck_disk_def sample_os_def)
  then have "module_body stuck_disk ?mp ''m'' w1 = (Inl (os_error ''OSError''), w1\<lparr>tree_of := AList.update ?mp Dir (tree_of w1)\<rparr>)"
    unfolding module_body_def module_steps_def list.map all_true.simps make_steps(1) [OF m]
      sbind_ret [of "mkdir_parents _ _ _", OF dir]
    by (simp only: sbind_assoc) (rule sbind_fail)
  then show ?thesis
    unfolding make_module_body [OF m new]
    by (simp add: try_except_def w1_def [symmetric] is_system_exit_def os_error_def module_failed_def exists_def do_if_def
        rmtree_cases sbind_def stuck_disk_def del: append.simps)
qed

theorem module_all_or_nothing_witness:
  "(\<exists>made. fst (make_module full_disk [''ns3'', ''contrib''] ''m'' sample_world) = Inr made \<and>
    (\<forall>q. made \<and> prefix ([''ns3'', ''contrib''] @ [''m'']) q \<or>
      same_or_ancestor (tree_of sample_world) ([''ns3'', ''contrib''] @ [''m''])
        (tree_of (snd (make_module full_disk [''ns3'', ''contrib''] ''m'' sample_world))) q)) \<and>
   (\<forall>q. prefix ([''ns3'', ''contrib''] @ [''m'']) q \<or>
      same_or_ancestor (tree_of sample_world) ([''ns3'', ''contrib''] @ [''m''])
        (tree_of (snd (make_module stuck_disk [''ns3'', ''contrib''] ''m'' sample_world))) q)"
proof -
  have m: "allowedRE ''m''" by code_simp
  note use = module_all_or_nothing [OF m _ sample_closed surjective_pairing, of _ "[''ns3'', ''contrib'']"]
  have "removals_succeed full_disk" by (simp add: removals_succeed_def full_disk_def sample_os_def)
  from module_outcome [OF m this sample_closed surjective_pairing] obtain made where
    "fst (make_module full_disk [''ns3'', ''contrib''] ''m'' sample_world) = Inr made" by blast
  with use [OF disks_contained(1)] use [OF disks_contained(2)] stuck_raises show ?thesis
    by (simp del: append.simps)
qed

section \<open>The modules of the command line\<close>

lemma quiet [simp]: "tree_of (snd (out_print x w)) = tree_of w" "tree_of (snd (err_print x w)) = tree_of w"
  by (simp_all add: out_print_def err_print_def)

definition same_tree :: "tree \<Rightarrow> module_world \<Rightarrow> bool" where
  "same_tree t w \<longleftrightarrow> tree_of w = t"

lemma keeps_same_tree [keeps_intros]:
  "keeps (same_tree t) (out_print x)" "keeps (same_tree t) (parser_error env x)"
  by (auto simp: keeps_def same_tree_def out_print_def parser_error_def)

lemma keeps_choose_module: "keeps (same_tree t) (choose_module env proj pp name)"
  unfolding choose_module_def place_module_def name_module_def Let_def
  by (intro keeps_intros)

lemma keeps_choose_modules: "keeps (same_tree t) (choose_modules env args)"
  unfolding choose_modules_def project_parts_def Let_def
  by (intro keeps_intros keeps_choose_module)

text \<open>Where a chosen module goes.\<close>

definition inside :: "os_env \<Rightarrow> string \<Rightarrow> string list \<Rightarrow> bool" where
  "inside env proj modpath \<longleftrightarrow>
     proj = [] \<and> modpath \<in> {work_dir env @ [''src''], work_dir env @ [''contrib'']} \<or>
     proj \<noteq> [] \<and> prefix (work_dir env @ [''contrib'']) modpath \<and>
       list_all allowedRE (drop (Suc (length (work_dir env))) modpath)"

definition good_project :: "string \<Rightarrow> string list option \<Rightarrow> bool" where
  "good_project proj pp \<longleftrightarrow> (case pp of None \<Rightarrow> proj = [] | Some ps \<Rightarrow> proj \<noteq> [] \<and> list_all allowedRE ps)"

lemma project_parts_good:
  assumes "project_parts env proj w = (Inr pp, w')"
  shows "good_project proj pp"
proof (cases "proj = []")
  case True
  with assms show ?thesis by (auto simp: project_parts_def good_project_def ret_def)
next
  case False
  with assms obtain q where "list_all allowedRE (all_parts q)" "pp = Some (pparts q)"
    by (auto simp: project_parts_def sbind_Inr ret_def parser_error_def fail_def split: if_splits)
  with False show ?thesis by (simp add: good_project_def all_parts_def split: if_splits)
qed

lemma choose_module_inside:
  assumes "good_project proj pp" "choose_module env proj pp name w = (Inr (Some (modpath, m)), w')"
  shows "allowedRE m \<and> inside env proj modpath"
proof -
  from assms(2) obtain base where m: "allowedRE m"
    and base: "base = work_dir env @ [''src''] \<and> proj = [] \<or> base = work_dir env @ [''contrib'']"
    and mp: "modpath = (case pp of None \<Rightarrow> base | Some ps \<Rightarrow> work_dir env @ [''contrib''] @ ps)"
    by (auto simp: choose_module_def place_module_def name_module_def Let_def sbind_Inr ret_def fail_def parser_error_def
        split: if_splits list.splits)
  have "inside env proj modpath"
    using assms(1) base mp by (cases pp) (auto simp: good_project_def inside_def)
  with m show ?thesis by simp
qed

lemma smap_results: "smap f xs w = (Inr ys, w') \<Longrightarrow> y \<in> set ys \<Longrightarrow> \<exists>x u v. x \<in> set xs \<and> f x u = (Inr y, v)"
proof (induction xs arbitrary: w ys)
  case (Cons x xs)
  from Cons.prems(1) obtain z u zs where z: "f x w = (Inr z, u)" "smap f xs u = (Inr zs, w')" "ys = z # zs"
    by (auto simp: sbind_Inr ret_def)
  then consider "y = z" | "y \<in> set zs" using Cons.prems(2) by auto
  then show ?case
  proof cases
    case 1
    with z(1) show ?thesis by (intro exI [of _ x] exI [of _ w] exI [of _ u]) simp
  next
    case 2
    from Cons.IH [OF z(2) 2] show ?thesis by (meson list.set_intros(2))
  qed
qed simp

lemma set_somes: "x \<in> set (somes xs) \<longleftrightarrow> Some x \<in> set xs"
  by (induction xs rule: somes.induct) auto

lemma choose_modules_inside:
  assumes "choose_modules env args w = (Inr ms, w')"
  shows "tree_of w' = tree_of w \<and> (\<forall>(modpath, m) \<in> set ms. allowedRE m \<and> inside env (project args) modpath)"
proof
  have "same_tree (tree_of w) w" by (simp add: same_tree_def)
  from keepsD [OF keeps_choose_modules this assms] show "tree_of w' = tree_of w" by (simp add: same_tree_def)
  from assms obtain u v pp xs where pp: "project_parts env (project args) u = (Inr pp, v)"
    and xs: "smap (choose_module env (project args) pp) (modnames args) v = (Inr xs, w')" and ms: "ms = somes xs"
    by (auto simp: choose_modules_def sbind_Inr ret_def)
  have "allowedRE m \<and> inside env (project args) modpath" if "(modpath, m) \<in> set ms" for modpath m
  proof -
    from that ms have "Some (modpath, m) \<in> set xs" by (simp add: set_somes)
    from smap_results [OF xs this] choose_module_inside [OF project_parts_good [OF pp]] show ?thesis by blast
  qed
  then show "\<forall>(modpath, m) \<in> set ms. allowedRE m \<and> inside env (project args) modpath" by auto
qed



text \<open>The name of a module as the command line may give it, and the directory it asks for.\<close>

definition spelled :: "string option \<times> string \<Rightarrow> string" where
  "spelled x = (case fst x of None \<Rightarrow> snd x | Some d \<Rightarrow> d @ SLASH # snd x)"

definition plain_name :: "string option \<times> string \<Rightarrow> bool" where
  "plain_name x \<longleftrightarrow> allowedRE (snd x) \<and> snd x \<notin> {''src'', ''contrib''} \<and> fst x \<in> {None, Some ''src'', Some ''contrib''}"

definition target :: "os_env \<Rightarrow> string option \<times> string \<Rightarrow> string list \<times> string" where
  "target env x = (work_dir env @ [if fst x = Some ''src'' then ''src'' else ''contrib''], snd x)"

lemma strip_sep_id: "s \<noteq> [] \<Longrightarrow> hd s \<noteq> SLASH \<Longrightarrow> last s \<noteq> SLASH \<Longrightarrow> strip_sep s = s"
proof -
  assume s: "s \<noteq> []" "hd s \<noteq> SLASH" "last s \<noteq> SLASH"
  then have "dropWhile (\<lambda>c. c = SLASH) s = s" by (cases s) auto
  with s show ?thesis by (cases s rule: rev_cases) (auto simp: strip_sep_def)
qed

lemma choose_plain_name:
  assumes "plain_name x"
  shows "choose_module env [] None (spelled x) w = (Inr (Some (target env x)), w)"
proof -
  obtain d m where x: "x = (d, m)" by (cases x) auto
  have m: "allowedRE m" "m \<noteq> ''src''" "m \<noteq> ''contrib''" and d: "d = None \<or> d = Some ''src'' \<or> d = Some ''contrib''"
    using assms x by (auto simp: plain_name_def)
  have c: "m \<noteq> []" "SLASH \<notin> set m" "m \<noteq> ''.''" using allowed_chars [OF m(1)] by auto
  have e: "hd m \<noteq> SLASH" "last m \<noteq> SLASH" using c by (metis hd_in_set, metis last_in_set)
  have parts: "strip_sep (spelled x) = spelled x \<and> spelled x \<noteq> [] \<and>
      all_parts (to_path (spelled x)) = (case d of None \<Rightarrow> [m] | Some r \<Rightarrow> [r, m])"
    using d
  proof (elim disjE)
    assume "d = None"
    then show ?thesis using c e by (simp add: x spelled_def strip_sep_id to_path_component all_parts_def)
  next
    assume "d = Some ''src''"
    then show ?thesis using c e
      by (simp add: x spelled_def strip_sep_id to_path_def all_parts_def initial_slashes_rel split_on_nosep
          split_on_app [of SLASH "''src''" m, simplified])
  next
    assume "d = Some ''contrib''"
    then show ?thesis using c e
      by (simp add: x spelled_def strip_sep_id to_path_def all_parts_def initial_slashes_rel split_on_nosep
          split_on_app [of SLASH "''contrib''" m, simplified])
  qed
  show ?thesis
    using d m parts by (auto simp: choose_module_def place_module_def name_module_def Let_def x target_def)
qed

lemma smap_pure:
  assumes "\<And>x. x \<in> set xs \<Longrightarrow> f x w = (Inr (g x), w)"
  shows "smap f xs w = (Inr (map g xs), w)"
  using assms by (induction xs) (simp_all add: sbind_ret)

lemma somes_map_Some [simp]: "somes (map (\<lambda>x. Some (g x)) xs) = map g xs"
  by (induction xs) simp_all

text \<open>
  Plain names are taken as they are meant: in a source tree and without a project, a
  name \<open>m\<close> and \<open>contrib/m\<close> stand for the module \<open>m\<close> in contrib and \<open>src/m\<close> for the one in src, for
  every accepted \<open>m\<close> other than src and contrib; all modules are kept, in their order, and nothing
  is printed or changed.
\<close>

theorem plain_names_chosen:
  assumes "list_all plain_name xs"
    and "is_dir (work_dir env @ [''src'']) w" and "is_dir (work_dir env @ [''contrib'']) w"
  shows "choose_modules env \<lparr> project = [], modnames = map spelled xs \<rparr> w = (Inr (map (target env) xs), w)"
proof -
  have "smap (choose_module env [] None) (map spelled xs) w = (Inr (map (Some \<circ> target env) xs), w)"
    using assms(1)
  proof (induction xs)
    case (Cons x xs)
    then show ?case by (simp add: sbind_ret choose_plain_name)
  qed simp
  then show ?thesis using assms(2,3)
    by (simp add: choose_modules_def project_parts_def sbind_def comp_def)
qed

theorem plain_names_chosen_witness:
  "choose_modules sample_os \<lparr> project = [], modnames = map spelled [(None, ''a''), (Some ''src'', ''b_2''), (Some ''contrib'', ''c'')] \<rparr>
     sample_world = (Inr [([''ns3'', ''contrib''], ''a''), ([''ns3'', ''src''], ''b_2''), ([''ns3'', ''contrib''], ''c'')], sample_world)"
proof -
  have "list_all plain_name [(None, ''a''), (Some ''src'', ''b_2''), (Some ''contrib'', ''c'')]" by code_simp
  moreover have "is_dir (work_dir sample_os @ [''src'']) sample_world" "is_dir (work_dir sample_os @ [''contrib'']) sample_world"
    by (simp_all add: is_dir_def sample_world_def sample_os_def)
  ultimately show ?thesis
    using plain_names_chosen [of "[(None, ''a''), (Some ''src'', ''b_2''), (Some ''contrib'', ''c'')]" sample_os sample_world]
    by (simp add: target_def sample_os_def)
qed

section \<open>The exit status\<close>

lemma make_all_total:
  assumes "removals_succeed env"
  shows "closed_tree (tree_of w) \<Longrightarrow> list_all (\<lambda>(_, m). allowedRE m) ms \<Longrightarrow>
    \<exists>b w'. all_true (map (\<lambda>(modpath, m). make_module env modpath m) ms) w = (Inr b, w')"
proof (induction ms arbitrary: w)
  case (Cons x ms)
  obtain modpath m where x: "x = (modpath, m)" by (cases x) auto
  obtain r w1 where r: "make_module env modpath m w = (r, w1)" by (cases "make_module env modpath m w") auto
  have "allowedRE m" using Cons.prems(2) x by simp
  from module_outcome [OF this assms Cons.prems(1) r] obtain made where
    made: "r = Inr made" "closed_tree (tree_of w1)" by auto
  show ?case
  proof (cases made)
    case True
    with Cons.IH [OF made(2)] Cons.prems(2) made(1) r x show ?thesis by (simp add: sbind_ret)
  next
    case False
    with made(1) r x show ?thesis by (auto simp: sbind_ret)
  qed
qed auto

text \<open>
  The exit status of the script says only whether the modules could be chosen: it is 2
  for what argparse rejects (outside of a source tree, a bad project, src/ with a project), 1 for
  any other exception on the way (a name such as src or a single dot, which has no component
  left), and 0 in all other cases, also when a module exists already or its creation failed. This
  holds in a closed file system whose removals succeed.
\<close>

theorem module_exit_status:
  assumes "removals_succeed env" and "closed_tree (tree_of w)"
  shows "fst (module_script env args w) = Inl (SystemExit (case fst (choose_modules env args w) of
     Inl (SystemExit n) \<Rightarrow> n | Inl _ \<Rightarrow> 1 | Inr _ \<Rightarrow> 0))"
proof -
  obtain r w1 where c: "choose_modules env args w = (r, w1)" by (cases "choose_modules env args w") auto
  show ?thesis
  proof (cases r)
    case (Inl e)
    then show ?thesis using c
      by (cases e) (simp_all add: module_script_def module_main_def try_except_def sbind_fail is_system_exit_def sbind_def err_print_def)
  next
    case (Inr ms)
    with c choose_modules_inside have t: "tree_of w1 = tree_of w"
      and ok: "\<forall>(modpath, m) \<in> set ms. allowedRE m \<and> inside env (project args) modpath" by blast+
    have "list_all (\<lambda>(_, m). allowedRE m) ms" using ok by (auto simp: list_all_iff)
    with make_all_total [OF assms(1), of w1 ms] assms(2) t obtain b w2 where
      "all_true (map (\<lambda>(modpath, m). make_module env modpath m) ms) w1 = (Inr b, w2)" by auto
    with c Inr have "\<exists>w3. module_main env args w = (Inr 0, w3)"
      by (simp add: module_main_def sbind_ret) (cases b; simp add: sbind_def out_print_def)
    then obtain w3 where "module_main env args w = (Inr 0, w3)" by blast
    with c Inr show ?thesis by (simp add: module_script_def try_except_def sbind_def)
  qed
qed

theorem module_exit_status_witness:
  "fst (module_script full_disk \<lparr> project = [], modnames = [''m''] \<rparr> sample_world) = Inl (SystemExit 0)"
proof -
  have "removals_succeed full_disk" by (simp add: removals_succeed_def full_disk_def sample_os_def)
  moreover have "case fst (choose_modules full_disk \<lparr> project = [], modnames = [''m''] \<rparr> sample_world) of
      Inl _ \<Rightarrow> False | Inr _ \<Rightarrow> True" by code_simp
  ultimately show ?thesis
    using module_exit_status [of full_disk sample_world "\<lparr> project = [], modnames = [''m''] \<rparr>", OF _ sample_closed]
    by (simp split: sum.splits)
qed

text \<open>Names without a component of their own: the script ends with status 1 before it makes any module.\<close>

lemma bare_src_fails:
  "fst (choose_modules sample_os \<lparr> project = [], modnames = [''good'', ''src''] \<rparr> sample_world) = Inl IndexError"
  "fst (choose_modules sample_os \<lparr> project = [], modnames = [''.''] \<rparr> sample_world) = Inl IndexError"
  by code_simp+

text \<open>Two components of which the first is neither src nor contrib: the second is dropped.\<close>

lemma second_component_dropped:
  "fst (choose_modules sample_os \<lparr> project = [], modnames = [''group/m''] \<rparr> sample_world) = Inr [([''ns3'', ''contrib''], ''group'')]"
  by code_simp

end
