(* ===== verification/Py2_Num.thy ===== *)
theory Py2_Num
  imports Py_Prelude Complex_Main
begin

text \<open>
  The numbers of Python 2 as \<^verbatim>\<open>utils/grid.py\<close> computes with them: an \<open>int\<close> of any size or a
  \<open>float\<close>, which is taken as an exact rational (rounding and infinities are not modelled). An
  operation on two integers stays integral, division included, which rounds down; an operation
  with a float gives a float.
\<close>

named_theorems nval_simps \<open>the value of an arithmetic operation\<close>

datatype pynum = I int | F rat

definition nval :: "pynum \<Rightarrow> rat" where
  "nval n = (case n of I a \<Rightarrow> of_int a | F x \<Rightarrow> x)"

definition is_float :: "pynum \<Rightarrow> bool" where
  "is_float n = (case n of I _ \<Rightarrow> False | F _ \<Rightarrow> True)"

lemma nval_base [simp]: "nval (I a) = of_int a" "nval (F x) = x" "\<not> is_float (I a)" "is_float (F x)"
  by (simp_all add: nval_def is_float_def)

section \<open>Operations\<close>

fun nadd :: "pynum \<Rightarrow> pynum \<Rightarrow> pynum" where
  "nadd (I a) (I b) = I (a + b)"
| "nadd a b = F (nval a + nval b)"

fun nsub :: "pynum \<Rightarrow> pynum \<Rightarrow> pynum" where
  "nsub (I a) (I b) = I (a - b)"
| "nsub a b = F (nval a - nval b)"

fun nmul :: "pynum \<Rightarrow> pynum \<Rightarrow> pynum" where
  "nmul (I a) (I b) = I (a * b)"
| "nmul a b = F (nval a * nval b)"

fun nneg :: "pynum \<Rightarrow> pynum" where
  "nneg (I a) = I (- a)"
| "nneg (F x) = F (- x)"

fun nabs :: "pynum \<Rightarrow> pynum" where
  "nabs (I a) = I \<bar>a\<bar>"
| "nabs (F x) = F \<bar>x\<bar>"

text \<open>Division: of integers it rounds down; the remainder has the sign of the divisor.\<close>

definition ndiv :: "pynum \<Rightarrow> pynum \<Rightarrow> py_error + pynum" where
  "ndiv a b = (if nval b = 0 then Inl ZeroDivisionError
     else Inr (case (a, b) of (I m, I n) \<Rightarrow> I (m div n) | _ \<Rightarrow> F (nval a / nval b)))"

definition nmod :: "pynum \<Rightarrow> pynum \<Rightarrow> py_error + pynum" where
  "nmod a b = (if nval b = 0 then Inl ZeroDivisionError
     else Inr (case (a, b) of (I m, I n) \<Rightarrow> I (m mod n)
       | _ \<Rightarrow> F (nval a - nval b * of_int \<lfloor>nval a / nval b\<rfloor>)))"

text \<open>\<open>n / 2\<close>\<close>

fun half :: "pynum \<Rightarrow> pynum" where
  "half (I a) = I (a div 2)"
| "half (F x) = F (x / 2)"

text \<open>\<open>int(n)\<close> rounds towards zero.\<close>

fun nint :: "pynum \<Rightarrow> int" where
  "nint (I a) = a"
| "nint (F x) = (if x < 0 then - \<lfloor>- x\<rfloor> else \<lfloor>x\<rfloor>)"

definition nlt :: "pynum \<Rightarrow> pynum \<Rightarrow> bool" where "nlt a b \<longleftrightarrow> nval a < nval b"
definition nle :: "pynum \<Rightarrow> pynum \<Rightarrow> bool" where "nle a b \<longleftrightarrow> nval a \<le> nval b"
definition neq0 :: "pynum \<Rightarrow> bool" where "neq0 a \<longleftrightarrow> nval a = 0"

text \<open>\<open>max(a, b)\<close> and \<open>min(a, b)\<close> return the first of two equal arguments.\<close>

definition py_max :: "pynum \<Rightarrow> pynum \<Rightarrow> pynum" where "py_max a b = (if nval a < nval b then b else a)"
definition py_min :: "pynum \<Rightarrow> pynum \<Rightarrow> pynum" where "py_min a b = (if nval b < nval a then b else a)"

section \<open>Their values and kinds\<close>

lemma nval_arith [simp, nval_simps]:
  "nval (nadd a b) = nval a + nval b" "nval (nsub a b) = nval a - nval b"
  "nval (nmul a b) = nval a * nval b" "nval (nneg a) = - nval a" "nval (nabs a) = \<bar>nval a\<bar>"
  by (cases a; cases b; simp)+

lemma nval_max_min [simp, nval_simps]:
  "nval (py_max a b) = max (nval a) (nval b)" "nval (py_min a b) = min (nval a) (nval b)"
  by (simp_all add: py_max_def py_min_def)

lemma is_float_arith [simp]:
  "is_float (nadd a b) \<longleftrightarrow> is_float a \<or> is_float b" "is_float (nsub a b) \<longleftrightarrow> is_float a \<or> is_float b"
  "is_float (nmul a b) \<longleftrightarrow> is_float a \<or> is_float b" "is_float (nneg a) \<longleftrightarrow> is_float a"
  "is_float (half a) \<longleftrightarrow> is_float a"
  by (cases a; cases b; simp)+

lemma ndiv_float:
  "is_float a \<or> is_float b \<Longrightarrow> nval b \<noteq> 0 \<Longrightarrow> ndiv a b = Inr (F (nval a / nval b))"
  by (cases a; cases b) (simp_all add: ndiv_def)

lemma ndiv_int: "b \<noteq> 0 \<Longrightarrow> ndiv (I a) (I b) = Inr (I (a div b))"
  by (simp add: ndiv_def)

lemma ndiv_zero: "nval b = 0 \<Longrightarrow> ndiv a b = Inl ZeroDivisionError"
  by (simp add: ndiv_def)

lemma ndiv_Inr: "ndiv a b = Inr q \<Longrightarrow> nval b \<noteq> 0 \<and> (is_float q \<longleftrightarrow> is_float a \<or> is_float b)"
  by (cases a; cases b) (auto simp: ndiv_def split: if_splits)

lemma nval_half_float: "is_float a \<Longrightarrow> nval (half a) = nval a / 2"
  by (cases a) simp_all

text \<open>Subtracting the remainder leaves the multiple of the divisor below.\<close>

lemma floor_of_int_div: "\<lfloor>(of_int m :: rat) / of_int n\<rfloor> = m div n"
  by (simp add: floor_divide_of_int_eq)

lemma nmod_below:
  "n \<noteq> 0 \<Longrightarrow> \<exists>r. nmod a (I n) = Inr r \<and> nval (nsub a r) = of_int (n * \<lfloor>nval a / of_int n\<rfloor>) \<and>
     (is_float (nsub a r) \<longleftrightarrow> is_float a)"
proof (cases a)
  case (I m)
  assume "n \<noteq> 0"
  have "m - m mod n = n * (m div n)" by (simp add: minus_mod_eq_mult_div)
  then show ?thesis using I \<open>n \<noteq> 0\<close> by (simp add: nmod_def floor_of_int_div flip: of_int_mult)
qed (simp add: nmod_def)

lemma nint_of_int: "nval a = of_int k \<Longrightarrow> nint a = k"
proof (cases a)
  case (F x)
  assume "nval a = of_int k"
  with F show ?thesis by (simp flip: of_int_minus)
qed simp

end
