(* ===== verification/Grid_Data.thy ===== *)
theory Grid_Data
  imports Py_Prelude
begin

text \<open>
  \<^verbatim>\<open>utils/grid.py\<close>, the data half: ranges, events and their binary searches
  (\<open>TimelineDataRange\<close>, \<open>TimelineEvent\<close>), the containers that find or append by name
  (\<open>Timeline\<close>, \<open>Timelines\<close>), \<open>Colors\<close>, the layout of \<open>TopLegendRenderer\<close> and the reader
  \<open>read_data\<close>. The module needs Python 2 (\<open>gtk\<close>, \<open>has_key\<close>, \<open>sort\<close> with a comparison
  function), so that \<open>/\<close> of integers is floor division. What a method returns by reference
  and its caller then changes is an update of the container.
\<close>

section \<open>Ranges\<close>

record data_range =
  dr_start :: int
  dr_end :: int
  dr_value :: string

record timeline_ranges =
  tr_name :: string
  ranges :: "data_range list"

text \<open>\<open>__search\<close> from bounds \<open>l\<close> and \<open>u\<close>; \<open>-1\<close> when the key is in no range.\<close>

function range_search :: "data_range list \<Rightarrow> int \<Rightarrow> int \<Rightarrow> int \<Rightarrow> int" where
  "range_search rs key l u =
     (if l \<le> u then
        let i = (l + u) div 2; r = rs ! nat i in
        if dr_start r \<le> key \<and> key \<le> dr_end r then i
        else if key < dr_start r then range_search rs key l (i - 1)
        else range_search rs key (i + 1) u
      else - 1)"
  by pat_completeness auto
termination
  by (relation "measure (\<lambda>(rs, key, l, u). nat (u - l + 1))") auto

declare range_search.simps [simp del]

definition search_ranges :: "timeline_ranges \<Rightarrow> int \<Rightarrow> int" where
  "search_ranges t key = range_search (ranges t) key 0 (int (length (ranges t)) - 1)"

definition add_range :: "data_range \<Rightarrow> timeline_ranges \<Rightarrow> timeline_ranges" where
  "add_range r t = t\<lparr>ranges := ranges t @ [r]\<rparr>"

definition get_ranges_bounds :: "timeline_ranges \<Rightarrow> int \<Rightarrow> int \<Rightarrow> int \<times> int" where
  "get_ranges_bounds t first past =
     (let s = search_ranges t first; e = search_ranges t past in
      if s = - 1 \<and> e = - 1 then (0, 0)
      else if s = - 1 then (0, e + 1)
      else if e = - 1 then (s, int (length (ranges t)))
      else (s, e + 1))"

definition get_ranges :: "timeline_ranges \<Rightarrow> int \<Rightarrow> int \<Rightarrow> data_range list" where
  "get_ranges t first past =
     (let s = search_ranges t first; e = search_ranges t past in
      if s = - 1 \<and> e = - 1 then []
      else if s = - 1 then slice (ranges t) 0 (e + 1)
      else if e = - 1 then slice (ranges t) s (int (length (ranges t)))
      else slice (ranges t) s (e + 1))"

definition sort_ranges :: "timeline_ranges \<Rightarrow> timeline_ranges" where
  "sort_ranges t = t\<lparr>ranges := sort_key dr_start (ranges t)\<rparr>"

definition ranges_bounds :: "timeline_ranges \<Rightarrow> int \<times> int" where
  "ranges_bounds t =
     (if ranges t = [] then (0, 0) else (dr_start (hd (ranges t)), dr_end (last (ranges t))))"

section \<open>Events\<close>

record 'v event =
  at :: int
  ev_value :: 'v

record 'v timeline_events =
  te_name :: string
  events :: "'v event list"

function event_search :: "'v event list \<Rightarrow> int \<Rightarrow> int \<Rightarrow> int \<Rightarrow> int" where
  "event_search es key l u =
     (if l \<le> u then
        let i = (l + u) div 2; t = at (es ! nat i) in
        if key = t then i
        else if key < t then event_search es key l (i - 1)
        else event_search es key (i + 1) u
      else l)"
  by pat_completeness auto
termination
  by (relation "measure (\<lambda>(es, key, l, u). nat (u - l + 1))") auto

declare event_search.simps [simp del]

definition search_events :: "'v timeline_events \<Rightarrow> int \<Rightarrow> int" where
  "search_events t key = event_search (events t) key 0 (int (length (events t)) - 1)"

definition add_event :: "'v event \<Rightarrow> 'v timeline_events \<Rightarrow> 'v timeline_events" where
  "add_event e t = t\<lparr>events := events t @ [e]\<rparr>"

definition get_events_bounds :: "'v timeline_events \<Rightarrow> int \<Rightarrow> int \<Rightarrow> int \<times> int" where
  "get_events_bounds t first past = (search_events t first, search_events t past + 1)"

definition get_events :: "'v timeline_events \<Rightarrow> int \<Rightarrow> int \<Rightarrow> 'v event list" where
  "get_events t first past = slice (events t) (search_events t first) (search_events t past + 1)"

definition sort_events :: "'v timeline_events \<Rightarrow> 'v timeline_events" where
  "sort_events t = t\<lparr>events := sort_key at (events t)\<rparr>"

definition events_bounds :: "'v timeline_events \<Rightarrow> int \<times> int" where
  "events_bounds t = (if events t = [] then (0, 0) else (at (hd (events t)), at (last (events t))))"

section \<open>Finding or appending by name\<close>

text \<open>
  \<open>get_range\<close>, \<open>get_event_str\<close>, \<open>get_event_int\<close> and \<open>Timelines.get\<close>: the first entry of that
  name, or a new one appended; then what the caller does to the entry.
\<close>

fun update_named :: "('a \<Rightarrow> string) \<Rightarrow> (string \<Rightarrow> 'a) \<Rightarrow> string \<Rightarrow> ('a \<Rightarrow> 'a) \<Rightarrow> 'a list \<Rightarrow> 'a list" where
  "update_named name_of new name f [] = [f (new name)]"
| "update_named name_of new name f (x # xs) =
     (if name_of x = name then f x # xs else x # update_named name_of new name f xs)"

record timeline =
  tl_name :: string
  tl_ranges :: "timeline_ranges list"
  event_str :: "string timeline_events list"
  event_int :: "int timeline_events list"

definition new_ranges :: "string \<Rightarrow> timeline_ranges" where
  "new_ranges name = \<lparr>tr_name = name, ranges = []\<rparr>"

definition new_events :: "string \<Rightarrow> 'v timeline_events" where
  "new_events name = \<lparr>te_name = name, events = []\<rparr>"

definition new_timeline :: "string \<Rightarrow> timeline" where
  "new_timeline name = \<lparr>tl_name = name, tl_ranges = [], event_str = [], event_int = []\<rparr>"

definition on_range :: "string \<Rightarrow> (timeline_ranges \<Rightarrow> timeline_ranges) \<Rightarrow> timeline \<Rightarrow> timeline" where
  "on_range name f t = t\<lparr>tl_ranges := update_named tr_name new_ranges name f (tl_ranges t)\<rparr>"

definition on_event_str ::
    "string \<Rightarrow> (string timeline_events \<Rightarrow> string timeline_events) \<Rightarrow> timeline \<Rightarrow> timeline" where
  "on_event_str name f t = t\<lparr>event_str := update_named te_name new_events name f (event_str t)\<rparr>"

definition on_event_int ::
    "string \<Rightarrow> (int timeline_events \<Rightarrow> int timeline_events) \<Rightarrow> timeline \<Rightarrow> timeline" where
  "on_event_int name f t = t\<lparr>event_int := update_named te_name new_events name f (event_int t)\<rparr>"

definition on_timeline :: "string \<Rightarrow> (timeline \<Rightarrow> timeline) \<Rightarrow> timeline list \<Rightarrow> timeline list" where
  "on_timeline = update_named tl_name new_timeline"

definition sort_timeline :: "timeline \<Rightarrow> timeline" where
  "sort_timeline t = t\<lparr>tl_ranges := map sort_ranges (tl_ranges t),
     event_int := map sort_events (event_int t), event_str := map sort_events (event_str t)\<rparr>"

text \<open>\<open>get_bounds\<close>: the bounds start at \<open>0\<close> and are only ever widened.\<close>

definition widen :: "int \<times> int \<Rightarrow> int \<times> int \<Rightarrow> int \<times> int" where
  "widen b c = (case (b, c) of ((lo, hi), (lo', hi')) \<Rightarrow>
     (if lo' < lo then lo' else lo, if hi < hi' then hi' else hi))"

definition timeline_bounds :: "timeline \<Rightarrow> int \<times> int" where
  "timeline_bounds t =
     foldl widen (foldl widen (foldl widen (0, 0) (map ranges_bounds (tl_ranges t)))
       (map events_bounds (event_str t))) (map events_bounds (event_int t))"

definition timelines_bounds :: "timeline list \<Rightarrow> int \<times> int" where
  "timelines_bounds ts = foldl widen (0, 0) (map timeline_bounds ts)"

text \<open>The keys of \<open>range_values\<close>, in the order they were first set.\<close>

definition all_range_values :: "timeline list \<Rightarrow> string list" where
  "all_range_values ts =
     dkeys (foldl (\<lambda>d v. AList.update v (1 :: int) d) []
       (map dr_value (concat (map ranges (concat (map tl_ranges ts))))))"

section \<open>Colors\<close>

record color =
  red :: int
  green :: int
  blue :: int

definition rgb :: "int \<Rightarrow> int \<Rightarrow> int \<Rightarrow> color" where
  "rgb r g b = \<lparr>red = r, green = g, blue = b\<rparr>"

text \<open>\<open>default_colors\<close> belongs to the class and is consumed from its end.\<close>

definition default_colors :: "color list" where
  "default_colors = [rgb 1 0 0, rgb 0 1 0, rgb 0 0 1, rgb 1 1 0, rgb 1 0 1, rgb 0 1 1]"

type_synonym palette = "(string, color) dict \<times> color list"

definition add_color :: "string \<Rightarrow> color \<Rightarrow> palette \<Rightarrow> palette" where
  "add_color name c p = (AList.update name c (fst p), snd p)"

definition lookup_color :: "string \<Rightarrow> palette \<Rightarrow> py_error + color \<times> palette" where
  "lookup_color name p =
     (case map_of (fst p) name of
        Some c \<Rightarrow> Inr (c, p)
      | None \<Rightarrow>
          if snd p = [] then Inl IndexError
          else Inr (last (snd p), add_color name (last (snd p)) (fst p, butlast (snd p))))"

section \<open>read_data\<close>

text \<open>
  The four regular expressions: blanks separate the fields, no group contains one, and \<open>match\<close>
  does not ask for the end of the line, so that the last number is the digits the last field
  starts with.
\<close>

definition number_field :: "string \<Rightarrow> int option" where
  "number_field w = (if w \<noteq> [] \<and> list_all is_digit w then Some (int (read_nat w)) else None)"

definition number_prefix :: "string \<Rightarrow> int option" where
  "number_prefix w = number_field (takeWhile is_digit w)"

datatype grid_line =
    Range_Line string string data_range
  | Str_Line string string "string event"
  | Int_Line string string "int event"
  | Color_Line string color
  | Other_Line

definition parse_range :: "string list \<Rightarrow> grid_line option" where
  "parse_range ws = (case ws of
     w # a # b # v # s # e # rest \<Rightarrow>
       (case (number_field s, number_prefix e) of
          (Some s', Some e') \<Rightarrow>
            if w = ''range'' \<and> a \<noteq> [] \<and> b \<noteq> [] \<and> v \<noteq> []
            then Some (Range_Line a b \<lparr>dr_start = s', dr_end = e', dr_value = v\<rparr>) else None
        | _ \<Rightarrow> None)
   | _ \<Rightarrow> None)"

definition parse_event_str :: "string list \<Rightarrow> grid_line option" where
  "parse_event_str ws = (case ws of
     w # a # b # v # t # rest \<Rightarrow>
       (case number_prefix t of
          Some t' \<Rightarrow>
            if w = ''event-str'' \<and> a \<noteq> [] \<and> b \<noteq> [] \<and> v \<noteq> []
            then Some (Str_Line a b \<lparr>at = t', ev_value = v\<rparr>) else None
        | None \<Rightarrow> None)
   | _ \<Rightarrow> None)"

definition parse_event_int :: "string list \<Rightarrow> grid_line option" where
  "parse_event_int ws = (case ws of
     w # a # b # v # t # rest \<Rightarrow>
       (case (number_field v, number_prefix t) of
          (Some v', Some t') \<Rightarrow>
            if w = ''event-int'' \<and> a \<noteq> [] \<and> b \<noteq> []
            then Some (Int_Line a b \<lparr>at = t', ev_value = v'\<rparr>) else None
        | _ \<Rightarrow> None)
   | _ \<Rightarrow> None)"

definition hex_val :: "char \<Rightarrow> int option" where
  "hex_val c =
     (let n = (of_char c :: nat) in
      if 48 \<le> n \<and> n \<le> 57 then Some (int n - 48)
      else if 97 \<le> n \<and> n \<le> 102 then Some (int n - 87)
      else if 65 \<le> n \<and> n \<le> 70 then Some (int n - 55) else None)"

text \<open>Two hexadecimal digits, divided by 255 as integers.\<close>

definition channel :: "char \<Rightarrow> char \<Rightarrow> int option" where
  "channel a b = (case (hex_val a, hex_val b) of
     (Some x, Some y) \<Rightarrow> Some ((16 * x + y) div 255) | _ \<Rightarrow> None)"

definition parse_color :: "string list \<Rightarrow> grid_line option" where
  "parse_color ws = (case ws of
     w # a # c # rest \<Rightarrow>
       if w = ''color'' \<and> a \<noteq> [] then
         (case c of
            h # r1 # r2 # g1 # g2 # b1 # b2 # tail \<Rightarrow>
              (case (h = CHR ''#'', channel r1 r2, channel g1 g2, channel b1 b2) of
                 (True, Some r, Some g, Some b) \<Rightarrow> Some (Color_Line a (rgb r g b))
               | _ \<Rightarrow> None)
          | _ \<Rightarrow> None)
       else None
   | _ \<Rightarrow> None)"

definition parse_line :: "string \<Rightarrow> grid_line" where
  "parse_line line =
     (let ws = split_on (CHR '' '') line in
      case parse_range ws of Some p \<Rightarrow> p | None \<Rightarrow>
      (case parse_event_str ws of Some p \<Rightarrow> p | None \<Rightarrow>
      (case parse_event_int ws of Some p \<Rightarrow> p | None \<Rightarrow>
      (case parse_color ws of Some p \<Rightarrow> p | None \<Rightarrow> Other_Line))))"

fun take_line :: "palette \<times> timeline list \<Rightarrow> grid_line \<Rightarrow> palette \<times> timeline list" where
  "take_line (colors, ts) (Range_Line a b r) = (colors, on_timeline a (on_range b (add_range r)) ts)"
| "take_line (colors, ts) (Str_Line a b e) = (colors, on_timeline a (on_event_str b (add_event e)) ts)"
| "take_line (colors, ts) (Int_Line a b e) = (colors, on_timeline a (on_event_int b (add_event e)) ts)"
| "take_line (colors, ts) (Color_Line n c) = (add_color n c colors, ts)"
| "take_line (colors, ts) Other_Line = (colors, ts)"

definition read_data :: "string \<Rightarrow> palette \<times> timeline list" where
  "read_data content =
     (case foldl take_line (([], default_colors), []) (map parse_line (lines_of content)) of
        (colors, ts) \<Rightarrow> (colors, map sort_timeline ts))"

text \<open>\<open>main\<close>: the part of the data shown first.\<close>

definition initial_view :: "timeline list \<Rightarrow> int \<times> int" where
  "initial_view ts = (case timelines_bounds ts of (lower_bound, upper_bound) \<Rightarrow>
     let range_mid = (upper_bound - lower_bound) div 2;
         range_width = (upper_bound - lower_bound) div 10
     in (range_mid - range_width div 2, range_mid + range_width div 2))"

section \<open>TopLegendRenderer\<close>

text \<open>
  The loop both \<open>layout\<close> and \<open>draw\<close> run over the legends: \<open>ext\<close> is the width and height of a
  text, the state \<open>(line_height, total_height, line_used)\<close>, and each legend is put at
  \<open>(x, total_height)\<close>.
\<close>

definition place_legend ::
    "int \<Rightarrow> int \<Rightarrow> (string \<Rightarrow> int \<times> int) \<Rightarrow> (int \<times> int \<times> int) \<times> (int \<times> int) list \<Rightarrow> string \<Rightarrow>
     (int \<times> int \<times> int) \<times> (int \<times> int) list" where
  "place_legend padding width ext st legend =
     (case (st, ext legend) of (((line_height, total_height, line_used), placed), (t_width, t_height)) \<Rightarrow>
        let item_width = padding + padding + t_width + padding;
            item_height = t_height + padding;
            line_height' = (if line_height < item_height then item_height else line_height);
            wrap = width < line_used + item_width;
            line_used' = (if wrap then padding + item_width else line_used + item_width);
            total_height' = (if wrap then total_height + line_height' else total_height)
        in ((line_height', total_height', line_used'), placed @ [(line_used' - item_width, total_height')]))"

definition place_legends ::
    "int \<Rightarrow> int \<Rightarrow> (string \<Rightarrow> int \<times> int) \<Rightarrow> string list \<Rightarrow> (int \<times> int \<times> int) \<times> (int \<times> int) list" where
  "place_legends padding width ext legends =
     foldl (place_legend padding width ext) ((0, padding, padding), []) legends"

definition layout_height :: "int \<Rightarrow> int \<Rightarrow> (string \<Rightarrow> int \<times> int) \<Rightarrow> string list \<Rightarrow> int" where
  "layout_height padding width ext legends =
     (case place_legends padding width ext legends of ((line_height, total_height, line_used), placed) \<Rightarrow>
        total_height + line_height)"

section \<open>The binary searches\<close>

text \<open>
  Both \<open>__search\<close> methods are one loop: \<open>hit\<close> stops it, \<open>below\<close> sends it to the left half,
  and \<open>miss\<close> is its answer when the bounds have crossed at \<open>l\<close>. Whatever the two tests are,
  the loop stops at a hit or at a border between an entry that sent it right and one that
  sent it left.
\<close>

locale bisection =
  fixes search :: "int \<Rightarrow> int \<Rightarrow> int" and hit below :: "int \<Rightarrow> bool" and miss :: "int \<Rightarrow> int"
  assumes unfold:
    "search l u =
       (if l \<le> u then
          let i = (l + u) div 2 in
          if hit i then i else if below i then search l (i - 1) else search (i + 1) u
        else miss l)"
begin

definition border :: "int \<Rightarrow> int \<Rightarrow> int \<Rightarrow> bool" where
  "border l u k \<longleftrightarrow> l \<le> k \<and> k \<le> u + 1 \<and> (k = l \<or> \<not> hit (k - 1) \<and> \<not> below (k - 1))
     \<and> (k = u + 1 \<or> \<not> hit k \<and> below k)"

lemma result_cases:
  "l \<le> u + 1 \<Longrightarrow>
     (l \<le> search l u \<and> search l u \<le> u \<and> hit (search l u))
     \<or> (\<exists>k. border l u k \<and> search l u = miss k)"
proof (induction "nat (u - l + 1)" arbitrary: l u rule: less_induct)
  case less
  show ?case
  proof (cases "l \<le> u")
    case False
    then show ?thesis using less.prems by (subst (4) unfold) (auto simp: border_def unfold [of l u])
  next
    case True
    define i where "i = (l + u) div 2"
    have i: "l \<le> i" "i \<le> u" using True by (auto simp: i_def)
    have eq: "search l u =
        (if hit i then i else if below i then search l (i - 1) else search (i + 1) u)"
      using True by (subst unfold) (simp add: i_def Let_def)
    consider "hit i" | "\<not> hit i" "below i" | "\<not> hit i" "\<not> below i" by blast
    then show ?thesis
    proof cases
      case 1
      then show ?thesis using eq i by simp
    next
      case 2
      then have s: "search l u = search l (i - 1)" using eq by simp
      have "l \<le> search l (i - 1) \<and> search l (i - 1) \<le> i - 1 \<and> hit (search l (i - 1))
          \<or> (\<exists>k. border l (i - 1) k \<and> search l (i - 1) = miss k)"
        using less.hyps [of "i - 1" l] i by simp
      moreover have "border l u k" if "border l (i - 1) k" for k
        using that 2 i by (auto simp: border_def)
      ultimately show ?thesis unfolding s using i by auto
    next
      case 3
      then have s: "search l u = search (i + 1) u" using eq by simp
      have "i + 1 \<le> search (i + 1) u \<and> search (i + 1) u \<le> u \<and> hit (search (i + 1) u)
          \<or> (\<exists>k. border (i + 1) u k \<and> search (i + 1) u = miss k)"
        using less.hyps [of u "i + 1"] i by simp
      moreover have "border l u k" if "border (i + 1) u k" for k
        using that 3 i by (auto simp: border_def)
      ultimately show ?thesis unfolding s using i by auto
    qed
  qed
qed

end

definition covers :: "int \<Rightarrow> data_range \<Rightarrow> bool" where
  "covers key r \<longleftrightarrow> dr_start r \<le> key \<and> key \<le> dr_end r"

interpretation range_bisection: bisection "range_search rs key" "\<lambda>i. covers key (rs ! nat i)"
    "\<lambda>i. key < dr_start (rs ! nat i)" "\<lambda>l. - 1"
  for rs key
  by unfold_locales (simp add: range_search.simps [of rs key] covers_def Let_def)

interpretation event_bisection: bisection "event_search es key" "\<lambda>i. key = at (es ! nat i)"
    "\<lambda>i. key < at (es ! nat i)" "\<lambda>l. l"
  for es key
  by unfold_locales (simp add: event_search.simps [of es key] Let_def)

text \<open>The data the searches are meant for: sorted ranges that do not meet, events at distinct times.\<close>

definition ordered_ranges :: "data_range list \<Rightarrow> bool" where
  "ordered_ranges rs \<longleftrightarrow>
     sorted_wrt (\<lambda>a b. dr_end a < dr_start b) rs \<and> list_all (\<lambda>r. dr_start r \<le> dr_end r) rs"

lemma ordered_at:
  assumes "ordered_ranges rs" "i < j" "j < length rs"
  shows "dr_end (rs ! i) < dr_start (rs ! j)"
  using assms by (auto simp: ordered_ranges_def sorted_wrt_iff_nth_less)

lemma ordered_nonempty:
  "ordered_ranges rs \<Longrightarrow> i < length rs \<Longrightarrow> dr_start (rs ! i) \<le> dr_end (rs ! i)"
  by (simp add: ordered_ranges_def list_all_length)

lemma range_search_cases:
  assumes ord: "ordered_ranges (ranges t)"
  obtains (found) j where "j < length (ranges t)" "covers key (ranges t ! j)" "search_ranges t key = int j"
  | (missed) "\<And>r. r \<in> set (ranges t) \<Longrightarrow> \<not> covers key r" "search_ranges t key = - 1"
proof -
  define rs where "rs = ranges t"
  define n where "n = int (length rs)"
  define x where "x = range_search rs key 0 (n - 1)"
  have s: "search_ranges t key = x" by (simp add: search_ranges_def x_def rs_def n_def)
  consider "0 \<le> x" "x \<le> n - 1" "covers key (rs ! nat x)"
    | k where "range_bisection.border key rs 0 (n - 1) k" "x = - 1"
    using range_bisection.result_cases [of 0 "n - 1" rs key] by (auto simp: x_def n_def)
  then show ?thesis
  proof cases
    case 1
    then show ?thesis using found [of "nat x"] s by (simp add: rs_def n_def nat_less_iff)
  next
    case (2 k)
    then have k: "0 \<le> k" "k \<le> n" and left: "k = 0 \<or> dr_end (rs ! nat (k - 1)) < key"
      and right: "k = n \<or> key < dr_start (rs ! nat k)"
      unfolding range_bisection.border_def by (auto simp: covers_def)
    have "\<not> covers key (rs ! i)" if i: "i < length rs" for i
    proof (cases "int i < k")
      case True
      then have "i = nat (k - 1) \<or> i < nat (k - 1)" by linarith
      moreover have "nat (k - 1) < length rs" using True k by (simp add: n_def nat_less_iff)
      ultimately have "dr_end (rs ! i) \<le> dr_end (rs ! nat (k - 1))"
        using ordered_at [of rs i "nat (k - 1)"] ordered_nonempty [of rs "nat (k - 1)"] ord
        by (fastforce simp: rs_def)
      then show ?thesis using left True k by (auto simp: covers_def)
    next
      case False
      then have "i = nat k \<or> nat k < i" by linarith
      then have "dr_start (rs ! nat k) \<le> dr_start (rs ! i)"
        using ordered_at [of rs "nat k" i] ordered_nonempty [of rs "nat k"] ord i
        by (fastforce simp: rs_def)
      moreover have "k \<noteq> n" using False i by (simp add: n_def)
      ultimately show ?thesis using right by (auto simp: covers_def)
    qed
    then show ?thesis using missed s 2 by (auto simp: rs_def in_set_conv_nth)
  qed
qed

subsection \<open>Prefixes and suffixes as filters\<close>

lemma filter_is_take:
  "\<forall>k < length xs. P (xs ! k) \<longleftrightarrow> k < n \<Longrightarrow> filter P xs = take n xs"
proof (induction xs arbitrary: n)
  case (Cons x xs)
  have "\<forall>k < length xs. P (xs ! k) \<longleftrightarrow> k < n - 1" using Cons.prems by fastforce
  moreover have "P x \<longleftrightarrow> 0 < n" using Cons.prems by fastforce
  ultimately show ?case using Cons.IH [of "n - 1"] by (cases n) auto
qed simp

lemma filter_is_drop:
  "\<forall>k < length xs. P (xs ! k) \<longleftrightarrow> n \<le> k \<Longrightarrow> filter P xs = drop n xs"
proof (induction xs arbitrary: n)
  case (Cons x xs)
  have "\<forall>k < length xs. P (xs ! k) \<longleftrightarrow> n - 1 \<le> k" using Cons.prems by fastforce
  moreover have "P x \<longleftrightarrow> n = 0" using Cons.prems by fastforce
  ultimately show ?case using Cons.IH [of "n - 1"] by (cases n) (auto simp: filter_id_conv)
qed simp


lemma take_while_start:
  assumes "ordered_ranges rs" "j < length rs" "covers past (rs ! j)"
  shows "take (Suc j) rs = filter (\<lambda>r. dr_start r \<le> past) rs"
proof (rule filter_is_take [symmetric], intro allI impI)
  fix k
  assume k: "k < length rs"
  consider "k < j" | "k = j" | "j < k" by linarith
  then show "dr_start (rs ! k) \<le> past \<longleftrightarrow> k < Suc j"
  proof cases
    case 1
    then show ?thesis
      using ordered_at [OF assms(1) 1 assms(2)] ordered_nonempty [OF assms(1) k] assms(3)
      by (simp add: covers_def)
  next
    case 3
    then show ?thesis using ordered_at [OF assms(1) 3 k] assms(3) by (simp add: covers_def)
  qed (use assms in \<open>simp_all add: covers_def\<close>)
qed

lemma drop_until_end:
  assumes "ordered_ranges rs" "i < length rs" "covers first (rs ! i)"
  shows "drop i rs = filter (\<lambda>r. first \<le> dr_end r) rs"
proof (rule filter_is_drop [symmetric], intro allI impI)
  fix k
  assume k: "k < length rs"
  consider "k < i" | "k = i" | "i < k" by linarith
  then show "first \<le> dr_end (rs ! k) \<longleftrightarrow> i \<le> k"
  proof cases
    case 1
    then show ?thesis using ordered_at [OF assms(1) 1 assms(2)] assms(3) by (simp add: covers_def)
  next
    case 3
    then show ?thesis
      using ordered_at [OF assms(1) 3 k] ordered_nonempty [OF assms(1) k] assms(3)
      by (simp add: covers_def)
  qed (use assms in \<open>simp_all add: covers_def\<close>)
qed

lemma ordered_take: "ordered_ranges rs \<Longrightarrow> ordered_ranges (take n rs)"
  by (auto simp: ordered_ranges_def list_all_iff sorted_wrt_take dest: in_set_takeD)

lemma slice_through:
  "slice xs (int i) (int j + 1) = drop i (take (Suc j) xs)" "slice xs 0 (int j + 1) = take (Suc j) xs"
  using slice_nat [of xs i "Suc j"] slice_nat [of xs 0 "Suc j"] by (simp_all add: add.commute)

lemma between_ranges:
  assumes "ordered_ranges rs" "i < length rs" "covers first (rs ! i)" "j < length rs" "covers past (rs ! j)"
    and "first \<le> past"
  shows "drop i (take (Suc j) rs) = filter (\<lambda>r. first \<le> dr_end r \<and> dr_start r \<le> past) rs"
proof -
  have "i \<le> j"
  proof (rule ccontr)
    assume "\<not> i \<le> j"
    then have "dr_end (rs ! j) < dr_start (rs ! i)" using ordered_at [OF assms(1)] assms(2) by simp
    then show False using assms by (simp add: covers_def)
  qed
  then have "drop i (take (Suc j) rs) = filter (\<lambda>r. first \<le> dr_end r) (take (Suc j) rs)"
    using assms by (intro drop_until_end) (auto intro: ordered_take)
  then show ?thesis using take_while_start [OF assms(1,4,5)] by (simp add: conj_commute)
qed

lemma covered_iff:
  "j < length rs \<Longrightarrow> covers key (rs ! j) \<Longrightarrow> list_ex (covers key) rs"
  "(\<And>r. r \<in> set rs \<Longrightarrow> \<not> covers key r) \<Longrightarrow> \<not> list_ex (covers key) rs"
  by (auto simp: list_ex_length list_ex_iff)

text \<open>
  On ordered ranges \<open>get_ranges(first, past)\<close> depends on whether the two ends fall into a
  range. When both do, it returns exactly the ranges that overlap the interval. An end that
  falls into a gap is not taken as a bound: with only \<open>past\<close> in a range the answer starts at
  the first range of all, with only \<open>first\<close> in one it goes to the last range, and with both
  in gaps it is empty, whatever lies between.
\<close>

theorem get_ranges_selects:
  assumes "ordered_ranges (ranges t)" and "first \<le> past"
  shows "get_ranges t first past =
    (let rs = ranges t; meets = (\<lambda>key. list_ex (covers key) rs)
     in if meets first \<and> meets past then filter (\<lambda>r. first \<le> dr_end r \<and> dr_start r \<le> past) rs
        else if meets past then filter (\<lambda>r. dr_start r \<le> past) rs
        else if meets first then filter (\<lambda>r. first \<le> dr_end r) rs
        else [])"
  using assms(1)
proof (cases rule: range_search_cases [where key = first])
  case s: (found i)
  show ?thesis
    using assms(1)
  proof (cases rule: range_search_cases [where key = past])
    case e: (found j)
    show ?thesis
      using s e covered_iff(1) [OF s(1,2)] covered_iff(1) [OF e(1,2)]
        between_ranges [OF assms(1) s(1,2) e(1,2) assms(2)] by (simp add: get_ranges_def slice_through)
  next
    case e: missed
    have "slice (ranges t) (int i) (int (length (ranges t))) = drop i (ranges t)" by simp
    then show ?thesis
      using s e covered_iff(1) [OF s(1,2)] covered_iff(2) [of "ranges t" past]
        drop_until_end [OF assms(1) s(1,2)] by (simp add: get_ranges_def)
  qed
next
  case s: missed
  note ms = covered_iff(2) [of "ranges t" first, OF s(1)]
  show ?thesis
    using assms(1)
  proof (cases rule: range_search_cases [where key = past])
    case e: (found j)
    show ?thesis
      using s(2) e ms covered_iff(1) [OF e(1,2)] take_while_start [OF assms(1) e(1,2)]
      by (simp add: get_ranges_def slice_through)
  next
    case e: missed
    show ?thesis
      using s(2) e(2) ms covered_iff(2) [of "ranges t" past, OF e(1)] by (simp add: get_ranges_def)
  qed
qed

definition sample_ranges :: timeline_ranges where
  "sample_ranges = \<lparr>tr_name = ''tx'', ranges =
     [\<lparr>dr_start = 0, dr_end = 4, dr_value = ''a''\<rparr>, \<lparr>dr_start = 6, dr_end = 9, dr_value = ''b''\<rparr>,
      \<lparr>dr_start = 12, dr_end = 15, dr_value = ''c''\<rparr>]\<rparr>"

theorem get_ranges_selects_witness:
  "map dr_value (get_ranges sample_ranges 7 13) = [''b'', ''c'']
   \<and> map dr_value (get_ranges sample_ranges 10 13) = [''a'', ''b'', ''c'']
   \<and> get_ranges sample_ranges 5 10 = []"
  using get_ranges_selects [of sample_ranges 7 13] get_ranges_selects [of sample_ranges 10 13]
    get_ranges_selects [of sample_ranges 5 10]
  by (simp add: sample_ranges_def ordered_ranges_def covers_def)

subsection \<open>Events\<close>

definition ordered_events :: "'v event list \<Rightarrow> bool" where
  "ordered_events es \<longleftrightarrow> sorted_wrt (\<lambda>a b. at a < at b) es"

lemma events_at: "ordered_events es \<Longrightarrow> i < j \<Longrightarrow> j < length es \<Longrightarrow> at (es ! i) < at (es ! j)"
  by (auto simp: ordered_events_def sorted_wrt_iff_nth_less)

text \<open>The search returns the number of events before the key.\<close>

lemma search_events_count:
  assumes ord: "ordered_events (events t)"
  obtains n where "search_events t key = int n" "n \<le> length (events t)"
    "\<And>k. k < length (events t) \<Longrightarrow> at (events t ! k) < key \<longleftrightarrow> k < n"
proof -
  define es where "es = events t"
  define m where "m = int (length es)"
  define x where "x = event_search es key 0 (m - 1)"
  have s: "search_events t key = x" by (simp add: search_events_def x_def es_def m_def)
  have border: "0 \<le> x \<and> x \<le> m \<and> (x = 0 \<or> at (es ! nat (x - 1)) < key) \<and> (x = m \<or> key \<le> at (es ! nat x))"
  proof -
    consider "0 \<le> x" "x \<le> m - 1" "key = at (es ! nat x)"
      | "0 \<le> x" "x \<le> m" "x = 0 \<or> at (es ! nat (x - 1)) < key" "x = m \<or> key \<le> at (es ! nat x)"
    proof -
      have "0 \<le> m - 1 + 1" by (simp add: m_def)
      note r = event_bisection.result_cases [OF this, of es key, unfolded event_bisection.border_def,
          folded x_def]
      then show thesis using that by (elim disjE exE conjE) (simp_all add: not_less)
    qed
    then show ?thesis
    proof cases
      case 1
      then have "0 < x \<Longrightarrow> at (es ! nat (x - 1)) < at (es ! nat x)"
        using events_at [OF ord, of "nat (x - 1)" "nat x"] by (simp add: es_def m_def nat_less_iff)
      then show ?thesis using 1 by (cases "x = 0") auto
    qed auto
  qed
  have "at (es ! k) < key \<longleftrightarrow> k < nat x" if k: "k < length es" for k
  proof (cases "k < nat x")
    case True
    then have "k = nat (x - 1) \<or> k < nat (x - 1)" by linarith
    moreover have "nat (x - 1) < length es" using border True by (auto simp: m_def)
    ultimately have "at (es ! k) \<le> at (es ! nat (x - 1))"
      using events_at [OF ord, of k "nat (x - 1)"] by (fastforce simp: es_def)
    then show ?thesis using border True by auto
  next
    case False
    then have "k = nat x \<or> nat x < k" by linarith
    then have "at (es ! nat x) \<le> at (es ! k)"
      using events_at [OF ord, of "nat x" k] k by (fastforce simp: es_def)
    moreover have "x \<noteq> m" using False k by (auto simp: m_def)
    ultimately show ?thesis using border False by auto
  qed
  then show ?thesis using that [of "nat x"] s border by (auto simp: es_def m_def)
qed

text \<open>The two searches cut the events before \<open>first\<close> and those before \<open>past\<close>.\<close>

lemma events_cut:
  assumes "ordered_events es" "\<And>k. k < length es \<Longrightarrow> at (es ! k) < past \<longleftrightarrow> k < b" "k < length es"
  shows "past < at (es ! k) \<longleftrightarrow> b < k \<or> (k = b \<and> at (es ! b) \<noteq> past)"
  using assms(2) [of k] events_at [OF assms(1), of b k] assms(2) [of b] assms(3)
  by (cases b k rule: linorder_cases) auto

lemma events_between:
  assumes "\<And>k. k < length es \<Longrightarrow> at (es ! k) < first \<longleftrightarrow> k < a"
    and "\<And>k. k < length es \<Longrightarrow> past < at (es ! k) \<longleftrightarrow> n \<le> k"
  shows "filter (\<lambda>e. first \<le> at e \<and> at e \<le> past) es = drop a (take n es)"
proof -
  have "filter (\<lambda>e. at e \<le> past) es = take n es"
    using assms(2) by (intro filter_is_take) (auto simp: not_less [symmetric])
  moreover have "filter (\<lambda>e. first \<le> at e) (take n es) = drop a (take n es)"
    using assms(1) by (intro filter_is_drop) (auto simp: not_less [symmetric])
  ultimately show ?thesis by (metis (no_types, lifting) filter_cong filter_filter)
qed

text \<open>
  On events at distinct times in order, \<open>get_events(first, past)\<close> returns the events of
  the interval, and one event too many when none of them stands exactly at \<open>past\<close>: the first
  one after the interval.
\<close>

theorem get_events_selects:
  assumes "ordered_events (events t)" and "first \<le> past"
  shows "get_events t first past =
    filter (\<lambda>e. first \<le> at e \<and> at e \<le> past) (events t)
    @ (if list_ex (\<lambda>e. at e = past) (events t) then []
       else take 1 (filter (\<lambda>e. past < at e) (events t)))"
proof -
  define es where "es = events t"
  obtain a where a: "search_events t first = int a" "a \<le> length es"
      "\<And>k. k < length es \<Longrightarrow> at (es ! k) < first \<longleftrightarrow> k < a"
    using search_events_count [OF assms(1), of first] unfolding es_def by metis
  obtain b where b: "search_events t past = int b" "b \<le> length es"
      "\<And>k. k < length es \<Longrightarrow> at (es ! k) < past \<longleftrightarrow> k < b"
    using search_events_count [OF assms(1), of past] unfolding es_def by metis
  have sel: "get_events t first past = drop a (take (Suc b) es)"
    using a b by (simp add: get_events_def es_def slice_through)
  have ab: "a \<le> b" using a(2,3) b(3) [of b] a(3) [of b] assms(2) by (cases "b < length es") force+
  have after: "past < at (es ! k) \<longleftrightarrow> b < k \<or> (k = b \<and> at (es ! b) \<noteq> past)" if "k < length es" for k
    by (rule events_cut [OF assms(1) [folded es_def] b(3) that])
  show ?thesis
  proof (cases "list_ex (\<lambda>e. at e = past) es")
    case True
    then obtain k where k: "k < length es" "at (es ! k) = past" by (auto simp: list_ex_length)
    then have "k = b" using after [of k] b(3) [of k] by auto
    then have "past < at (es ! m) \<longleftrightarrow> Suc b \<le> m" if "m < length es" for m
      using after [OF that] k by auto
    from events_between [OF a(3) this] show ?thesis using True sel by (simp add: es_def)
  next
    case False
    then have past_after: "past < at (es ! k) \<longleftrightarrow> b \<le> k" if "k < length es" for k
      using after [OF that] that by (auto simp: list_ex_length)
    then have "filter (\<lambda>e. past < at e) es = drop b es" by (intro filter_is_drop) auto
    moreover have "take (Suc b) es = take b es @ take 1 (drop b es)" by (simp add: take_add [symmetric])
    ultimately show ?thesis
      using False sel ab b(2) events_between [OF a(3) past_after] by (simp add: es_def)
  qed
qed

theorem get_events_selects_witness:
  "let t = \<lparr>te_name = ''cw'', events =
      [\<lparr>at = 1, ev_value = 10\<rparr>, \<lparr>at = 4, ev_value = 20\<rparr>, \<lparr>at = 9, ev_value = 30 :: int\<rparr>]\<rparr>
   in map at (get_events t 2 4) = [4] \<and> map at (get_events t 2 5) = [4, 9]"
proof -
  define t where "t = \<lparr>te_name = ''cw'', events =
      [\<lparr>at = 1, ev_value = 10\<rparr>, \<lparr>at = 4, ev_value = 20\<rparr>, \<lparr>at = 9, ev_value = 30 :: int\<rparr>]\<rparr>"
  have "ordered_events (events t)" by (simp add: t_def ordered_events_def)
  from get_events_selects [OF this, of 2 4] get_events_selects [OF this, of 2 5]
  have "map at (get_events t 2 4) = [4] \<and> map at (get_events t 2 5) = [4, 9]"
    by (simp add: t_def)
  then show ?thesis by (simp add: t_def Let_def)
qed

section \<open>Stores that find or append by name\<close>

definition named_entry :: "('a \<Rightarrow> string) \<Rightarrow> (string \<Rightarrow> 'a) \<Rightarrow> string \<Rightarrow> 'a list \<Rightarrow> 'a" where
  "named_entry name_of new name xs =
     (case find (\<lambda>x. name_of x = name) xs of Some x \<Rightarrow> x | None \<Rightarrow> new name)"

text \<open>
  What the four find-or-append methods rely on: a new entry has the name it was made for.
  A change of an entry that keeps its name is seen under this name and under no other, and
  names stay distinct, in the order of their first use.
\<close>

locale named_store =
  fixes name_of :: "'a \<Rightarrow> string" and new :: "string \<Rightarrow> 'a"
  assumes name_new [simp]: "name_of (new n) = n"
begin

lemma entry_same:
  assumes "\<And>x. name_of (f x) = name_of x"
  shows "named_entry name_of new n (update_named name_of new n f xs) = f (named_entry name_of new n xs)"
  by (induction xs) (auto simp: named_entry_def assms)

lemma entry_other:
  assumes "\<And>x. name_of (f x) = name_of x" and "m \<noteq> n"
  shows "named_entry name_of new m (update_named name_of new n f xs) = named_entry name_of new m xs"
  by (induction xs) (use assms in \<open>auto simp: named_entry_def\<close>)

lemma names:
  assumes "\<And>x. name_of (f x) = name_of x"
  shows "map name_of (update_named name_of new n f xs) =
    (if n \<in> name_of ` set xs then map name_of xs else map name_of xs @ [n])"
  by (induction xs) (auto simp: assms)

lemma names_distinct:
  assumes "\<And>x. name_of (f x) = name_of x" and "distinct (map name_of xs)"
  shows "distinct (map name_of (update_named name_of new n f xs))"
  using assms by (auto simp: names)

lemma entry_map:
  assumes "\<And>x. name_of (g x) = name_of x" and "\<And>n. g (new n) = new n"
  shows "named_entry name_of new n (map g xs) = g (named_entry name_of new n xs)"
  by (induction xs) (auto simp: named_entry_def assms)

lemma updated_all:
  assumes "\<And>x. P x \<Longrightarrow> P (f x)" and "P (new n)" and "list_all P xs"
  shows "list_all P (update_named name_of new n f xs)"
  using assms(3) by (induction xs) (auto simp: assms(1,2))

end

interpretation range_store: named_store tr_name new_ranges
  by unfold_locales (simp add: new_ranges_def)

interpretation str_store: named_store "te_name :: string timeline_events \<Rightarrow> string" new_events
  by unfold_locales (simp add: new_events_def)

interpretation int_store: named_store "te_name :: int timeline_events \<Rightarrow> string" new_events
  by unfold_locales (simp add: new_events_def)

interpretation timeline_store: named_store tl_name new_timeline
  by unfold_locales (simp add: new_timeline_def)

section \<open>What the reader puts where\<close>

definition ranges_at :: "string \<Rightarrow> string \<Rightarrow> timeline list \<Rightarrow> data_range list" where
  "ranges_at a b ts = ranges (named_entry tr_name new_ranges b (tl_ranges (named_entry tl_name new_timeline a ts)))"

definition strs_at :: "string \<Rightarrow> string \<Rightarrow> timeline list \<Rightarrow> string event list" where
  "strs_at a b ts = events (named_entry te_name new_events b (event_str (named_entry tl_name new_timeline a ts)))"

definition ints_at :: "string \<Rightarrow> string \<Rightarrow> timeline list \<Rightarrow> int event list" where
  "ints_at a b ts = events (named_entry te_name new_events b (event_int (named_entry tl_name new_timeline a ts)))"

fun range_of_line :: "string \<Rightarrow> string \<Rightarrow> grid_line \<Rightarrow> data_range list" where
  "range_of_line a b (Range_Line c d r) = (if c = a \<and> d = b then [r] else [])"
| "range_of_line a b l = []"

fun str_of_line :: "string \<Rightarrow> string \<Rightarrow> grid_line \<Rightarrow> string event list" where
  "str_of_line a b (Str_Line c d e) = (if c = a \<and> d = b then [e] else [])"
| "str_of_line a b l = []"

fun int_of_line :: "string \<Rightarrow> string \<Rightarrow> grid_line \<Rightarrow> int event list" where
  "int_of_line a b (Int_Line c d e) = (if c = a \<and> d = b then [e] else [])"
| "int_of_line a b l = []"

lemma keeps_names [simp]:
  "tl_name (on_range b f t) = tl_name t"
  "tl_name (on_event_str b g t) = tl_name t"
  "tl_name (on_event_int b h t) = tl_name t"
  "tr_name (add_range r u) = tr_name u"
  "te_name (add_event e v) = te_name v"
  "tl_name (sort_timeline t) = tl_name t"
  "tr_name (sort_ranges u) = tr_name u"
  "te_name (sort_events v) = te_name v"
  by (simp_all add: on_range_def on_event_str_def on_event_int_def add_range_def add_event_def
      sort_timeline_def sort_ranges_def sort_events_def)

lemma on_timeline_entry:
  assumes "\<And>t. tl_name (f t) = tl_name t"
  shows "named_entry tl_name new_timeline a (on_timeline c f ts) =
    (if a = c then f (named_entry tl_name new_timeline c ts) else named_entry tl_name new_timeline a ts)"
  by (simp add: on_timeline_def timeline_store.entry_same timeline_store.entry_other assms)

lemma add_parts [simp]:
  "ranges (add_range r u) = ranges u @ [r]" "events (add_event e v) = events v @ [e]"
  by (simp_all add: add_range_def add_event_def)

lemma take_line_keeps:
  "ranges_at a b (snd (take_line st l)) = ranges_at a b (snd st) @ range_of_line a b l"
  "strs_at a b (snd (take_line st l)) = strs_at a b (snd st) @ str_of_line a b l"
  "ints_at a b (snd (take_line st l)) = ints_at a b (snd st) @ int_of_line a b l"
  by (induction st l rule: take_line.induct)
    (auto simp: ranges_at_def strs_at_def ints_at_def on_timeline_entry on_range_def on_event_str_def
      on_event_int_def range_store.entry_same range_store.entry_other str_store.entry_same
      str_store.entry_other int_store.entry_same int_store.entry_other)

lemma take_lines_keep:
  "ranges_at a b (snd (foldl take_line st ls)) = ranges_at a b (snd st) @ concat (map (range_of_line a b) ls)"
  "strs_at a b (snd (foldl take_line st ls)) = strs_at a b (snd st) @ concat (map (str_of_line a b) ls)"
  "ints_at a b (snd (foldl take_line st ls)) = ints_at a b (snd st) @ concat (map (int_of_line a b) ls)"
  by (induction ls arbitrary: st) (simp_all add: take_line_keeps)

lemma nothing_at [simp]: "ranges_at a b [] = []" "strs_at a b [] = []" "ints_at a b [] = []"
  by (simp_all add: ranges_at_def strs_at_def ints_at_def named_entry_def new_timeline_def
      new_ranges_def new_events_def)

lemma sort_new [simp]:
  "sort_timeline (new_timeline n) = new_timeline n"
  "sort_ranges (new_ranges n) = new_ranges n"
  "sort_events (new_events n) = new_events n"
  by (simp_all add: sort_timeline_def new_timeline_def sort_ranges_def new_ranges_def
      sort_events_def new_events_def)

lemma sorted_at:
  "ranges_at a b (map sort_timeline ts) = sort_key dr_start (ranges_at a b ts)"
  "strs_at a b (map sort_timeline ts) = sort_key at (strs_at a b ts)"
  "ints_at a b (map sort_timeline ts) = sort_key at (ints_at a b ts)"
  by (simp_all add: ranges_at_def strs_at_def ints_at_def timeline_store.entry_map)
    (simp_all add: sort_timeline_def range_store.entry_map str_store.entry_map int_store.entry_map,
     simp_all add: sort_ranges_def sort_events_def)

text \<open>No two entries of a store have one name.\<close>

definition names_ok :: "timeline \<Rightarrow> bool" where
  "names_ok t \<longleftrightarrow> distinct (map tr_name (tl_ranges t)) \<and> distinct (map te_name (event_str t))
     \<and> distinct (map te_name (event_int t))"

definition all_names_ok :: "timeline list \<Rightarrow> bool" where
  "all_names_ok ts \<longleftrightarrow> distinct (map tl_name ts) \<and> list_all names_ok ts"

lemma names_ok_changes:
  "names_ok t \<Longrightarrow> names_ok (on_range b (add_range r) t)"
  "names_ok t \<Longrightarrow> names_ok (on_event_str b (add_event e) t)"
  "names_ok t \<Longrightarrow> names_ok (on_event_int b (add_event e') t)"
  "names_ok (new_timeline n)"
  by (auto simp: names_ok_def on_range_def on_event_str_def on_event_int_def new_timeline_def
      intro: range_store.names_distinct str_store.names_distinct int_store.names_distinct)

lemma take_line_names: "all_names_ok (snd st) \<Longrightarrow> all_names_ok (snd (take_line st l))"
  by (induction st l rule: take_line.induct)
    (auto simp: all_names_ok_def on_timeline_def names_ok_changes
      intro!: timeline_store.names_distinct timeline_store.updated_all)

lemma take_lines_names: "all_names_ok (snd st) \<Longrightarrow> all_names_ok (snd (foldl take_line st ls))"
  by (induction ls arbitrary: st) (simp_all add: take_line_names)

lemma sort_names: "all_names_ok (map sort_timeline ts) = all_names_ok ts"
  by (simp add: all_names_ok_def list_all_iff names_ok_def sort_timeline_def comp_def)

text \<open>
  Claim C36. \<open>read_data\<close> loses nothing, invents nothing and mixes nothing up: under a pair of names
  stand exactly the ranges, string events and integer events the file's lines give for it,
  sorted stably by start or time; no two timelines, and within a timeline no two stores of a
  kind, have one name.
\<close>

theorem read_data_groups:
  "let ls = map parse_line (lines_of content); ts = snd (read_data content)
   in ranges_at a b ts = sort_key dr_start (concat (map (range_of_line a b) ls))
      \<and> strs_at a b ts = sort_key at (concat (map (str_of_line a b) ls))
      \<and> ints_at a b ts = sort_key at (concat (map (int_of_line a b) ls))
      \<and> all_names_ok ts"
proof -
  define st :: "palette \<times> timeline list" where
    "st = foldl take_line (([], default_colors), []) (map parse_line (lines_of content))"
  have ts: "snd (read_data content) = map sort_timeline (snd st)"
    by (simp add: read_data_def st_def split: prod.splits)
  have "all_names_ok (snd st)"
    unfolding st_def by (rule take_lines_names) (simp add: all_names_ok_def)
  then show ?thesis
    by (simp add: Let_def ts sorted_at sort_names) (simp add: st_def take_lines_keep)
qed

section \<open>Colours of the legend\<close>

text \<open>The loop of \<open>main\<close> that looks up one colour per range value.\<close>

definition lookup_all :: "string list \<Rightarrow> palette \<Rightarrow> py_error + color list \<times> palette" where
  "lookup_all names p =
     rfold (\<lambda>(cs, q) name. rbind (lookup_color name q) (\<lambda>(c, q'). Inr (cs @ [c], q'))) ([], p) names"

definition unknown :: "string list \<Rightarrow> palette \<Rightarrow> nat" where
  "unknown names p = card (set names - dom (map_of (fst p)))"

definition legend_ok :: "string list \<Rightarrow> palette \<Rightarrow> color list \<times> palette \<Rightarrow> bool" where
  "legend_ok names p r \<longleftrightarrow> (case r of (cs, q) \<Rightarrow>
     map Some cs = map (map_of (fst q)) names \<and> map_of (fst p) \<subseteq>\<^sub>m map_of (fst q))"

lemma lookup_step:
  "lookup_color name p = Inr (c, q) \<Longrightarrow>
     map_of (fst q) name = Some c \<and> map_of (fst p) \<subseteq>\<^sub>m map_of (fst q)
     \<and> dom (map_of (fst q)) = insert name (dom (map_of (fst p)))
     \<and> length (snd p) = length (snd q) + (if name \<in> dom (map_of (fst p)) then 0 else 1)"
  by (auto simp: lookup_color_def add_color_def update_conv' map_le_def dom_def
      split: option.splits if_splits)

lemma lookup_fails:
  "lookup_color name p = Inl e \<longleftrightarrow> e = IndexError \<and> name \<notin> dom (map_of (fst p)) \<and> snd p = []"
  by (auto simp: lookup_color_def split: option.splits)

lemma unknown_Cons:
  "dom (map_of (fst q)) = insert n (dom (map_of (fst p))) \<Longrightarrow>
     unknown (n # names) p = unknown names q + (if n \<in> dom (map_of (fst p)) then 0 else 1)"
proof -
  assume d: "dom (map_of (fst q)) = insert n (dom (map_of (fst p)))"
  show ?thesis
  proof (cases "n \<in> dom (map_of (fst p))")
    case True
    then show ?thesis by (simp add: unknown_def d insert_absorb)
  next
    case False
    then have "set (n # names) - dom (map_of (fst p)) = insert n (set names - dom (map_of (fst q)))"
      unfolding d by auto
    moreover have "n \<notin> set names - dom (map_of (fst q))" unfolding d by simp
    ultimately show ?thesis using False by (simp add: unknown_def)
  qed
qed

lemma lookup_loop:
  assumes "legend_ok done p0 (cs, p)"
  shows "case rfold (\<lambda>(cs, q) name. rbind (lookup_color name q) (\<lambda>(c, q'). Inr (cs @ [c], q')))
           (cs, p) names of
      Inl e \<Rightarrow> e = IndexError \<and> length (snd p) < unknown names p
    | Inr r \<Rightarrow> unknown names p \<le> length (snd p) \<and> legend_ok (done @ names) p0 r"
  using assms
proof (induction names arbitrary: "done" cs p)
  case Nil
  then show ?case by (simp add: unknown_def)
next
  case (Cons n names)
  show ?case
  proof (cases "lookup_color n p")
    case (Inl e)
    then have "e = IndexError" "n \<in> set (n # names) - dom (map_of (fst p))" "snd p = []"
      by (auto simp: lookup_fails)
    then show ?thesis using Inl by (auto simp: unknown_def card_gt_0_iff)
  next
    case (Inr r)
    obtain c q where r: "r = (c, q)" by (cases r)
    note st = lookup_step [OF Inr [unfolded r]]
    have "map Some cs = map (map_of (fst q)) done"
    proof (rule nth_equalityI)
      show "length (map Some cs) = length (map (map_of (fst q)) done)"
        using Cons.prems by (auto simp: legend_ok_def dest: arg_cong [of _ _ length])
      fix i
      assume i: "i < length (map Some cs)"
      have eq: "map Some cs = map (map_of (fst p)) done" using Cons.prems by (simp add: legend_ok_def)
      then have len: "length cs = length done" by (metis length_map)
      have "map Some cs ! i = map (map_of (fst p)) done ! i" using eq by simp
      then have "Some (cs ! i) = map_of (fst p) (done ! i)" using i len by simp
      then show "map Some cs ! i = map (map_of (fst q)) done ! i"
        using st i len by (auto simp: map_le_def dom_def) metis
    qed
    then have "legend_ok (done @ [n]) p0 (cs @ [c], q)"
      using Cons.prems st by (auto simp: legend_ok_def intro: map_le_trans)
    from Cons.IH [OF this] show ?thesis
      using Inr r st unknown_Cons [of q n p names] by (auto split: sum.splits)
  qed
qed

text \<open>
  The legend gets its colours exactly when the defaults left suffice for the names
  without one: each name is then shown in one colour, the one it has in the table afterwards,
  and no colour the file gave is changed. Otherwise (a seventh name without a colour, to begin
  with) \<open>pop\<close> raises \<open>IndexError\<close>.
\<close>

theorem legend_colours:
  "case lookup_all names p of
     Inl e \<Rightarrow> e = IndexError \<and> length (snd p) < unknown names p
   | Inr r \<Rightarrow> unknown names p \<le> length (snd p) \<and> legend_ok names p r"
proof -
  have "legend_ok [] p ([], p)" by (simp add: legend_ok_def)
  from lookup_loop [OF this, of names] show ?thesis by (simp only: lookup_all_def append_Nil)
qed

section \<open>Layout of the legend\<close>

abbreviation item_width :: "int \<Rightarrow> (string \<Rightarrow> int \<times> int) \<Rightarrow> string \<Rightarrow> int" where
  "item_width padding ext l \<equiv> padding + padding + fst (ext l) + padding"

abbreviation item_height :: "int \<Rightarrow> (string \<Rightarrow> int \<times> int) \<Rightarrow> string \<Rightarrow> int" where
  "item_height padding ext l \<equiv> snd (ext l) + padding"

text \<open>\<open>apart\<close>: the later box is to the right in the same row, or in a row below.\<close>

definition apart ::
    "int \<Rightarrow> (string \<Rightarrow> int \<times> int) \<Rightarrow> string \<times> int \<times> int \<Rightarrow> string \<times> int \<times> int \<Rightarrow> bool" where
  "apart padding ext = (\<lambda>(l, x, y) (l', x', y').
     (y = y' \<and> x + item_width padding ext l \<le> x') \<or> y + item_height padding ext l \<le> y')"

definition legend_box_ok :: "int \<Rightarrow> int \<Rightarrow> (string \<Rightarrow> int \<times> int) \<Rightarrow> int \<Rightarrow> string \<times> int \<times> int \<Rightarrow> bool" where
  "legend_box_ok padding width ext height = (\<lambda>(l, x, y).
     padding \<le> x \<and> x + item_width padding ext l \<le> width
     \<and> padding \<le> y \<and> y + item_height padding ext l \<le> height)"

definition placed_inv ::
    "int \<Rightarrow> int \<Rightarrow> (string \<Rightarrow> int \<times> int) \<Rightarrow> string list \<Rightarrow> (int \<times> int \<times> int) \<times> (int \<times> int) list \<Rightarrow> bool" where
  "placed_inv padding width ext ls st = (case st of ((lh, th, lu), pl) \<Rightarrow>
     length pl = length ls \<and> 0 \<le> lh \<and> padding \<le> th \<and> padding \<le> lu
     \<and> sorted_wrt (apart padding ext) (zip ls pl)
     \<and> list_all (legend_box_ok padding width ext (th + lh)) (zip ls pl)
     \<and> list_all (\<lambda>(l, x, y). (y = th \<and> x + item_width padding ext l \<le> lu) \<or>
         y + item_height padding ext l \<le> th) (zip ls pl))"

lemma place_legend_inv:
  assumes inv: "placed_inv padding width ext ls st"
    and fits: "padding + item_width padding ext l \<le> width"
    and ext: "0 \<le> fst (ext l)" "0 \<le> snd (ext l)" "0 \<le> padding"
    and heights: "\<forall>k \<in> set ls. 0 \<le> snd (ext k)"
  shows "placed_inv padding width ext (ls @ [l]) (place_legend padding width ext st l)"
proof -
  obtain lh th lu pl where st: "st = ((lh, th, lu), pl)" by (cases st) auto
  have len: "length pl = length ls" using inv by (simp add: placed_inv_def st)
  have ih: "y + item_height padding ext k \<le> th + lh" if "(k, x, y) \<in> set (zip ls pl)" for k x y
    using inv that by (force simp: placed_inv_def st list_all_iff legend_box_ok_def)
  define lh' where "lh' = (if lh < item_height padding ext l then item_height padding ext l else lh)"
  have lh': "lh \<le> lh'" "item_height padding ext l \<le> lh'" by (auto simp: lh'_def)
  show ?thesis
  proof (cases "width < lu + item_width padding ext l")
    case True
    then have "place_legend padding width ext st l =
        ((lh', th + lh', padding + item_width padding ext l), pl @ [(padding, th + lh')])"
      by (simp add: place_legend_def st lh'_def Let_def case_prod_unfold)
    then show ?thesis
      using inv fits ext lh' ih len
      by (fastforce simp: placed_inv_def st sorted_wrt_append list_all_iff apart_def legend_box_ok_def)
  next
    case False
    then have "place_legend padding width ext st l =
        ((lh', th, lu + item_width padding ext l), pl @ [(lu, th)])"
      by (simp add: place_legend_def st lh'_def Let_def case_prod_unfold)
    then show ?thesis
      using inv fits ext lh' ih len False
      by (fastforce simp: placed_inv_def st sorted_wrt_append list_all_iff apart_def legend_box_ok_def)
  qed
qed


lemma place_legends_inv:
  assumes "0 \<le> padding"
    and "\<forall>l \<in> set ls. 0 \<le> fst (ext l) \<and> 0 \<le> snd (ext l) \<and> padding + item_width padding ext l \<le> width"
  shows "placed_inv padding width ext ls (place_legends padding width ext ls)"
  using assms(2)
proof (induction ls rule: rev_induct)
  case Nil
  then show ?case using assms(1) by (simp add: placed_inv_def place_legends_def)
next
  case (snoc l ls)
  then show ?case
    using place_legend_inv [of padding width ext ls "place_legends padding width ext ls" l] assms(1)
    by (simp add: place_legends_def)
qed

text \<open>
  When every item fits into a row of its own, \<open>draw\<close> puts each box with its text inside
  the width and the height \<open>layout\<close> computed, and no two items overlap: a later one is
  to the right in the same row or below the earlier one.
\<close>

theorem legend_layout:
  assumes "0 \<le> padding"
    and "\<forall>l \<in> set ls. 0 \<le> fst (ext l) \<and> 0 \<le> snd (ext l) \<and> padding + item_width padding ext l \<le> width"
  shows "let boxes = zip ls (snd (place_legends padding width ext ls))
    in map fst boxes = ls \<and> sorted_wrt (apart padding ext) boxes
       \<and> list_all (legend_box_ok padding width ext (layout_height padding width ext ls)) boxes"
  using place_legends_inv [OF assms]
  by (simp add: placed_inv_def layout_height_def split: prod.splits)

definition sample_extents :: "string \<Rightarrow> int \<times> int" where
  "sample_extents l = (6 * int (length l), 8)"

theorem legend_layout_witness:
  "snd (place_legends 10 130 sample_extents [''idle'', ''tx'', ''busy'']) = [(10, 10), (64, 10), (10, 28)]
   \<and> layout_height 10 130 sample_extents [''idle'', ''tx'', ''busy''] = 46
   \<and> sorted_wrt (apart 10 sample_extents)
       (zip [''idle'', ''tx'', ''busy''] [(10, 10), (64, 10), (10, 28)])"
  using legend_layout [of 10 "[''idle'', ''tx'', ''busy'']" sample_extents 130]
  by (simp add: sample_extents_def place_legends_def place_legend_def layout_height_def)

end
