(* ===== verification/Grid_Draw.thy ===== *)
theory Grid_Draw
  imports Py2_Num Py_State Grid_Data
begin

text \<open>
  The renderers of \<^verbatim>\<open>utils/grid.py\<close>: \<open>TopLegendRenderer\<close>, \<open>TimelinesRenderer\<close> and
  \<open>ScaleRenderer\<close>. Drawing appends cairo calls to a list of commands; cairo's text extents are a
  parameter that gives \<open>y_bearing\<close>, width and height of a text. The colours are shared with the
  rest of the program and may be used up by drawing, so they are part of the state. What a
  constructor leaves unset is set by \<open>layout\<close> before it is read.
\<close>

section \<open>Commands\<close>

datatype cmd =
    Rectangle pynum pynum pynum pynum
  | Set_source_rgb pynum pynum pynum
  | Set_line_width pynum
  | Set_dash "pynum list" pynum
  | Set_operator string
  | Move_to pynum pynum
  | Line_to pynum pynum
  | Rel_line_to pynum pynum
  | Translate pynum pynum
  | Show_text string
  | Close_path | Stroke | Stroke_preserve | Fill | Save | Restore | Clip | Paint

type_synonym extents = "string \<Rightarrow> pynum \<times> pynum \<times> pynum"

definition y_bearing :: "extents \<Rightarrow> string \<Rightarrow> pynum" where "y_bearing ext t = fst (ext t)"
definition text_width :: "extents \<Rightarrow> string \<Rightarrow> pynum" where "text_width ext t = fst (snd (ext t))"
definition text_height :: "extents \<Rightarrow> string \<Rightarrow> pynum" where "text_height ext t = snd (snd (ext t))"

definition all_letters :: string where
  "all_letters = ''ABCDEFGHIJKLMNOPQRSTUVWXYZabcedefghijklmnopqrstuvwxyz0123456789''"

record canvas =
  cmds :: "cmd list"
  paints :: palette
  grey_background :: int
  cur_y :: pynum

type_synonym 'a draw = "(canvas, 'a) proc"

definition emit :: "cmd list \<Rightarrow> unit draw" where
  "emit cs = modify (\<lambda>s. s\<lparr>cmds := cmds s @ cs\<rparr>)"

definition black :: cmd where "black = Set_source_rgb (I 0) (I 0) (I 0)"

definition light_grey :: cmd where "light_grey = Set_source_rgb (F (9 / 10)) (F (9 / 10)) (F (9 / 10))"

definition rgb_of :: "color \<Rightarrow> cmd" where
  "rgb_of c = Set_source_rgb (I (red c)) (I (green c)) (I (blue c))"

text \<open>\<open>self.colors.lookup(name)\<close>\<close>

definition take_paint :: "string \<Rightarrow> color draw" where
  "take_paint name s = (case lookup_color name (paints s) of
       Inl e \<Rightarrow> (Inl e, s) | Inr (c, p) \<Rightarrow> (Inr c, s\<lparr>paints := p\<rparr>))"

section \<open>TopLegendRenderer\<close>

record legend =
  lg_padding :: pynum
  lg_legends :: "string list"
  lg_colors :: "color list"
  lg_width :: pynum
  lg_height :: pynum

definition new_legend :: legend where
  "new_legend = \<lparr> lg_padding = I 10, lg_legends = [], lg_colors = [], lg_width = I 0, lg_height = I 0 \<rparr>"

definition set_legends :: "string list \<Rightarrow> color list \<Rightarrow> legend \<Rightarrow> legend" where
  "set_legends legends colors lg = lg\<lparr>lg_legends := legends, lg_colors := colors\<rparr>"

definition set_padding :: "pynum \<Rightarrow> legend \<Rightarrow> legend" where
  "set_padding padding lg = lg\<lparr>lg_padding := padding\<rparr>"

definition item_size :: "legend \<Rightarrow> extents \<Rightarrow> string \<Rightarrow> pynum \<times> pynum" where
  "item_size lg ext t = (nadd (nadd (nadd (lg_padding lg) (lg_padding lg)) (text_width ext t)) (lg_padding lg),
     nadd (text_height ext t) (lg_padding lg))"

text \<open>The line height, the height used and the width used on the line, after one item.\<close>

definition legend_step :: "legend \<Rightarrow> extents \<Rightarrow> pynum \<times> pynum \<times> pynum \<Rightarrow> string \<Rightarrow> pynum \<times> pynum \<times> pynum" where
  "legend_step lg ext st t = (case (st, item_size lg ext t) of ((line_height, total_height, line_used), (w, h)) \<Rightarrow>
     let line_height = (if nlt line_height h then h else line_height) in
     if nlt (lg_width lg) (nadd line_used w)
     then (line_height, nadd total_height line_height, nadd (lg_padding lg) w)
     else (line_height, total_height, nadd line_used w))"

definition legend_begin :: "legend \<Rightarrow> pynum \<times> pynum \<times> pynum" where
  "legend_begin lg = (I 0, lg_padding lg, lg_padding lg)"

definition layout_legend :: "extents \<Rightarrow> pynum \<Rightarrow> legend \<Rightarrow> legend" where
  "layout_legend ext width lg0 =
     (let lg = lg0\<lparr>lg_width := width\<rparr> in
      case foldl (legend_step lg ext) (legend_begin lg) (lg_legends lg) of
        (line_height, total_height, _) \<Rightarrow> lg\<lparr>lg_height := nadd total_height line_height\<rparr>)"

definition legend_item :: "legend \<Rightarrow> extents \<Rightarrow> pynum \<times> pynum \<times> pynum \<Rightarrow> nat \<Rightarrow> string \<Rightarrow> unit draw" where
  "legend_item lg ext st i t = (case st of (_, total_height, line_used) \<Rightarrow>
     let x = nsub line_used (fst (item_size lg ext t)); p = lg_padding lg in
     seq (emit [Rectangle x total_height p p, black, Set_line_width (I 2), Stroke_preserve])
    (sbind (lift (py_index (lg_colors lg) (int i))) (\<lambda>c.
     emit [rgb_of c, Fill, Move_to (nadd x (nmul p (I 2))) (nadd total_height (text_height ext t)),
       black, Show_text t])))"

fun legend_items :: "legend \<Rightarrow> extents \<Rightarrow> pynum \<times> pynum \<times> pynum \<Rightarrow> nat \<Rightarrow> string list \<Rightarrow> unit draw" where
  "legend_items lg ext st i [] = ret ()"
| "legend_items lg ext st i (t # ts) =
     (let st' = legend_step lg ext st t in seq (legend_item lg ext st' i t) (legend_items lg ext st' (Suc i) ts))"

definition draw_legend :: "extents \<Rightarrow> legend \<Rightarrow> unit draw" where
  "draw_legend ext lg = legend_items lg ext (legend_begin lg) 0 (lg_legends lg)"

section \<open>TimelinesRenderer\<close>

record timelines_view =
  tv_padding :: pynum
  tv_timelines :: "timeline list"
  tv_start :: pynum
  tv_end :: pynum
  left_width :: pynum
  right_width :: pynum
  tv_text_height :: pynum
  tv_width :: pynum
  tv_height :: pynum

definition new_timelines_view :: "timeline list \<Rightarrow> timelines_view" where
  "new_timelines_view ts = \<lparr> tv_padding = I 10, tv_timelines = ts, tv_start = I 0, tv_end = I 0, left_width = I 0,
     right_width = I 0, tv_text_height = I 0, tv_width = I 0, tv_height = I 0 \<rparr>"

definition set_render_range :: "pynum \<Rightarrow> pynum \<Rightarrow> timelines_view \<Rightarrow> timelines_view" where
  "set_render_range a b tv = tv\<lparr>tv_start := a, tv_end := b\<rparr>"

definition get_data_x_start :: "timelines_view \<Rightarrow> pynum" where
  "get_data_x_start tv = nadd (nadd (nadd (nadd (half (tv_padding tv)) (left_width tv)) (tv_padding tv))
     (right_width tv)) (half (tv_padding tv))"

text \<open>The names in the right column, in the order in which \<open>layout\<close> measures them.\<close>

definition row_names :: "timeline \<Rightarrow> string list" where
  "row_names t = map tr_name (tl_ranges t) @ map te_name (event_int t) @ map te_name (event_str t)"

definition widest :: "extents \<Rightarrow> string list \<Rightarrow> pynum" where
  "widest ext names = foldl (\<lambda>w t. py_max w (text_width ext t)) (I 0) names"

definition layout_timelines :: "extents \<Rightarrow> pynum \<Rightarrow> timelines_view \<Rightarrow> timelines_view" where
  "layout_timelines ext width tv =
     (let max_text_height = text_height ext all_letters; ts = tv_timelines tv; padding = tv_padding tv;
          left_n_lines = int (length ts);
          range_n = int (length (concat (map tl_ranges ts)));
          event_n = int (length (concat (map event_int ts))) + int (length (concat (map event_str ts)));
          left_height = nadd (nmul (I left_n_lines) max_text_height) (nmul (I (left_n_lines - 1)) padding);
          right_n_lines = range_n + event_n;
          right_height = nadd (nmul (I (right_n_lines - 1)) padding) (nmul (I right_n_lines) max_text_height);
          right_data_height = nadd (nadd (nmul (I event_n) (nadd max_text_height (I 5))) (nmul (I range_n) (I 10)))
            (nmul (I (right_n_lines - 1)) padding);
          height = py_max (py_max left_height right_height) right_data_height
      in tv\<lparr>left_width := widest ext (map tl_name ts), right_width := widest ext (concat (map row_names ts)),
            tv_text_height := max_text_height, tv_width := width, tv_height := nadd height padding\<rparr>)"

definition line_cmds :: "pynum \<Rightarrow> pynum \<Rightarrow> pynum \<Rightarrow> pynum \<Rightarrow> cmd list" where
  "line_cmds x y width height = [Move_to x y, Rel_line_to width height, Close_path, Set_operator ''SOURCE'',
     Set_line_width (F 1), black, Stroke]"

definition draw_line :: "pynum \<Rightarrow> pynum \<Rightarrow> pynum \<Rightarrow> pynum \<Rightarrow> unit draw" where
  "draw_line x y width height = emit (line_cmds x y width height)"

text \<open>The place of a time on the data area.\<close>

definition data_x :: "timelines_view \<Rightarrow> pynum \<Rightarrow> pynum \<Rightarrow> pynum \<Rightarrow> py_error + int" where
  "data_x tv x width t = rbind (ndiv (nmul (nsub t (tv_start tv)) width) (nsub (tv_end tv) (tv_start tv)))
     (\<lambda>q. Inr (nint (nadd x q)))"

text \<open>The grey background of every other row.\<close>

definition row_background :: "timelines_view \<Rightarrow> pynum \<Rightarrow> pynum \<Rightarrow> pynum \<Rightarrow> pynum \<Rightarrow> unit draw" where
  "row_background tv x y width height = sbind (gets grey_background) (\<lambda>g.
     do_if (g mod 2 = 0) (emit [Rectangle x (nsub y (half (tv_padding tv))) width (nadd height (tv_padding tv)),
       light_grey, Fill]))"

definition next_background :: "unit draw" where
  "next_background = modify (\<lambda>s. s\<lparr>grey_background := grey_background s + 1\<rparr>)"

subsection \<open>The rows\<close>

text \<open>The searches of the data half with a key that may be a float.\<close>

function range_search_at :: "data_range list \<Rightarrow> rat \<Rightarrow> int \<Rightarrow> int \<Rightarrow> int" where
  "range_search_at rs key l u =
     (if l \<le> u then
        let i = (l + u) div 2; r = rs ! nat i in
        if of_int (dr_start r) \<le> key \<and> key \<le> of_int (dr_end r) then i
        else if key < of_int (dr_start r) then range_search_at rs key l (i - 1)
        else range_search_at rs key (i + 1) u
      else - 1)"
  by pat_completeness auto
termination
  by (relation "measure (\<lambda>(rs, key, l, u). nat (u - l + 1))") auto

function event_search_at :: "'v event list \<Rightarrow> rat \<Rightarrow> int \<Rightarrow> int \<Rightarrow> int" where
  "event_search_at es key l u =
     (if l \<le> u then
        let i = (l + u) div 2; t = of_int (event.at (es ! nat i)) in
        if key = t then i
        else if key < t then event_search_at es key l (i - 1)
        else event_search_at es key (i + 1) u
      else l)"
  by pat_completeness auto
termination
  by (relation "measure (\<lambda>(es, key, l, u). nat (u - l + 1))") auto

declare range_search_at.simps [simp del] event_search_at.simps [simp del]

lemma range_search_at_int: "range_search_at rs (of_int k) l u = range_search rs k l u"
proof (induction rs k l u rule: range_search.induct)
  case (1 rs key l u)
  then show ?case
    by (simp add: range_search_at.simps [of rs "of_int key" l u] range_search.simps [of rs key l u] Let_def)
qed

lemma event_search_at_int: "event_search_at es (of_int k) l u = event_search es k l u"
proof (induction es k l u rule: event_search.induct)
  case (1 es key l u)
  then show ?case
    by (simp add: event_search_at.simps [of es "of_int key" l u] event_search.simps [of es key l u] Let_def)
qed

definition ranges_bounds_at :: "timeline_ranges \<Rightarrow> pynum \<Rightarrow> pynum \<Rightarrow> int \<times> int" where
  "ranges_bounds_at t first past =
     (let n = int (length (ranges t));
          s = range_search_at (ranges t) (nval first) 0 (n - 1); e = range_search_at (ranges t) (nval past) 0 (n - 1) in
      if s = - 1 \<and> e = - 1 then (0, 0)
      else if s = - 1 then (0, e + 1)
      else if e = - 1 then (s, n)
      else (s, e + 1))"

definition events_bounds_at :: "'v timeline_events \<Rightarrow> pynum \<Rightarrow> pynum \<Rightarrow> int \<times> int" where
  "events_bounds_at t first past =
     (let n = int (length (events t)) in
      (event_search_at (events t) (nval first) 0 (n - 1), event_search_at (events t) (nval past) 0 (n - 1) + 1))"

lemma bounds_at_int:
  "ranges_bounds_at r (I a) (I b) = get_ranges_bounds r a b"
  "events_bounds_at t (I a) (I b) = get_events_bounds t a b"
  by (simp_all add: ranges_bounds_at_def get_ranges_bounds_def search_ranges_def range_search_at_int
      events_bounds_at_def get_events_bounds_def search_events_def event_search_at_int Let_def)

fun draw_event_list ::
    "timelines_view \<Rightarrow> ('v \<Rightarrow> string) \<Rightarrow> pynum \<Rightarrow> pynum \<Rightarrow> pynum \<Rightarrow> int \<Rightarrow> 'v event list \<Rightarrow> unit draw" where
  "draw_event_list tv str x y width last_x [] = ret ()"
| "draw_event_list tv str x y width last_x (e # es) =
     sbind (lift (data_x tv x width (I (event.at e)))) (\<lambda>real_x.
     if last_x + 2 < real_x then
       seq (emit [Rectangle (I real_x) y (I 1) (I 1), Set_source_rgb (I 1) (I 0) (I 0), Stroke,
           Move_to (I real_x) (nadd y (tv_text_height tv)), black, Show_text (str (ev_value e))])
         (draw_event_list tv str x y width real_x es)
     else draw_event_list tv str x y width last_x es)"

definition draw_events ::
    "timelines_view \<Rightarrow> ('v \<Rightarrow> string) \<Rightarrow> 'v timeline_events \<Rightarrow> pynum \<Rightarrow> pynum \<Rightarrow> pynum \<Rightarrow> pynum \<Rightarrow> unit draw" where
  "draw_events tv str evs x y width height =
     seq (row_background tv x y width height)
    (seq (let (lo, hi) = events_bounds_at evs (tv_start tv) (tv_end tv)
          in draw_event_list tv str x y width (nint x) (slice (events evs) lo hi))
     next_background)"

fun draw_range_list :: "timelines_view \<Rightarrow> pynum \<Rightarrow> pynum \<Rightarrow> pynum \<Rightarrow> int \<Rightarrow> data_range list \<Rightarrow> unit draw" where
  "draw_range_list tv x y width last_x [] = ret ()"
| "draw_range_list tv x y width last_x (r # rs) =
     sbind (lift (data_x tv x width (py_max (I (dr_start r)) (tv_start tv)))) (\<lambda>x_start.
     sbind (lift (data_x tv x width (py_min (I (dr_end r)) (tv_end tv)))) (\<lambda>x_end.
     if last_x < x_end then
       seq (emit [Rectangle (I x_start) y (I (x_end - x_start)) (I 10), black, Stroke_preserve])
      (sbind (take_paint (dr_value r)) (\<lambda>c.
       seq (emit [rgb_of c, Fill]) (draw_range_list tv x y width x_end rs)))
     else draw_range_list tv x y width last_x rs))"

definition draw_ranges ::
    "timelines_view \<Rightarrow> timeline_ranges \<Rightarrow> pynum \<Rightarrow> pynum \<Rightarrow> pynum \<Rightarrow> pynum \<Rightarrow> unit draw" where
  "draw_ranges tv rngs x y width height =
     seq (row_background tv x y width height)
    (seq (let (lo, hi) = ranges_bounds_at rngs (tv_start tv) (tv_end tv)
          in draw_range_list tv x y width (nint (nsub x (I 1))) (slice (ranges rngs) lo hi))
     next_background)"

text \<open>The left edges that \<open>draw\<close> computes, and one row of the right column.\<close>

definition left_x_start :: "timelines_view \<Rightarrow> pynum" where "left_x_start tv = half (tv_padding tv)"
definition left_x_end :: "timelines_view \<Rightarrow> pynum" where "left_x_end tv = nadd (left_x_start tv) (left_width tv)"
definition right_x_start :: "timelines_view \<Rightarrow> pynum" where "right_x_start tv = nadd (left_x_end tv) (tv_padding tv)"
definition right_x_end :: "timelines_view \<Rightarrow> pynum" where "right_x_end tv = nadd (right_x_start tv) (right_width tv)"
definition data_x_start :: "timelines_view \<Rightarrow> pynum" where "data_x_start tv = nadd (right_x_end tv) (half (tv_padding tv))"
definition data_width :: "timelines_view \<Rightarrow> pynum" where "data_width tv = nsub (tv_width tv) (data_x_start tv)"

definition name_at :: "extents \<Rightarrow> timelines_view \<Rightarrow> pynum \<Rightarrow> string \<Rightarrow> unit draw" where
  "name_at ext tv x name = sbind (gets cur_y) (\<lambda>y.
     emit [Move_to x (nsub (nadd y (tv_text_height tv)) (nadd (text_height ext name) (y_bearing ext name))),
       Show_text name])"

definition move_down :: "pynum \<Rightarrow> unit draw" where
  "move_down d = modify (\<lambda>s. s\<lparr>cur_y := nadd (cur_y s) d\<rparr>)"

definition row_line :: "timelines_view \<Rightarrow> unit draw" where
  "row_line tv = sbind (gets cur_y) (\<lambda>y. draw_line (nsub (right_x_start tv) (half (tv_padding tv)))
     (nsub y (half (tv_padding tv))) (nadd (right_width tv) (tv_padding tv)) (I 0))"

definition event_row :: "extents \<Rightarrow> timelines_view \<Rightarrow> ('v \<Rightarrow> string) \<Rightarrow> 'v timeline_events \<Rightarrow> unit draw" where
  "event_row ext tv str evs =
     seq (name_at ext tv (right_x_start tv) (te_name evs))
    (seq (sbind (gets cur_y) (\<lambda>y.
        draw_events tv str evs (data_x_start tv) y (data_width tv) (nadd (tv_text_height tv) (I 5))))
    (seq (move_down (nadd (nadd (tv_text_height tv) (I 5)) (tv_padding tv))) (row_line tv)))"

definition range_row :: "extents \<Rightarrow> timelines_view \<Rightarrow> timeline_ranges \<Rightarrow> unit draw" where
  "range_row ext tv rngs =
     seq (name_at ext tv (right_x_start tv) (tr_name rngs))
    (seq (sbind (gets cur_y) (\<lambda>y. draw_ranges tv rngs (data_x_start tv) y (data_width tv) (I 10)))
    (seq (move_down (nadd (tv_text_height tv) (tv_padding tv))) (row_line tv)))"

definition timeline_rows :: "extents \<Rightarrow> timelines_view \<Rightarrow> timeline \<Rightarrow> unit draw" where
  "timeline_rows ext tv t =
     seq (name_at ext tv (left_x_start tv) (tl_name t))
    (seq (sfor (event_row ext tv show_int) (event_int t))
    (seq (sfor (event_row ext tv (\<lambda>v. v)) (event_str t))
    (seq (sfor (range_row ext tv) (tl_ranges t))
    (sbind (gets cur_y) (\<lambda>y. draw_line (I 0) (nsub y (half (tv_padding tv))) (tv_width tv) (I 0))))))"

text \<open>The lower end of the drawing, \<open>bot_y\<close>, is returned for the statements below.\<close>

definition draw_timelines :: "extents \<Rightarrow> timelines_view \<Rightarrow> pynum draw" where
  "draw_timelines ext tv =
     seq (modify (\<lambda>s. s\<lparr>cur_y := half (tv_padding tv)\<rparr>))
    (seq (draw_line (I 0) (I 0) (tv_width tv) (I 0))
    (seq (modify (\<lambda>s. s\<lparr>grey_background := 1\<rparr>))
    (seq (sfor (timeline_rows ext tv) (tv_timelines tv))
    (sbind (gets cur_y) (\<lambda>y. let bot_y = nsub y (half (tv_padding tv)) in
     seq (draw_line (nadd (left_x_end tv) (half (tv_padding tv))) (I 0) (I 0) bot_y)
    (seq (draw_line (nadd (right_x_end tv) (half (tv_padding tv))) (I 0) (I 0) bot_y) (ret bot_y)))))))"

section \<open>The height of the drawing\<close>

text \<open>A procedure that moves the current row down by \<open>d\<close>, when it returns.\<close>

named_theorems moves_intros \<open>rules for the movement of the current row\<close>

definition moves :: "'a draw \<Rightarrow> rat \<Rightarrow> bool" where
  "moves m d \<longleftrightarrow> (\<forall>s x t. m s = (Inr x, t) \<longrightarrow> nval (cur_y t) = nval (cur_y s) + d)"

lemma moves_base [moves_intros]:
  "moves (ret x) 0" "moves (gets f) 0" "moves (lift r) 0" "moves (emit cs) 0" "moves (take_paint n) 0"
  "moves next_background 0"
  by (auto simp: moves_def emit_def take_paint_def next_background_def split: sum.splits)

lemma moves_sbind: "moves m a \<Longrightarrow> (\<And>x. moves (f x) b) \<Longrightarrow> moves (sbind m f) (a + b)"
  unfolding moves_def by (fastforce simp: sbind_Inr)

lemma moves_sbind0 [moves_intros]: "moves m 0 \<Longrightarrow> (\<And>x. moves (f x) 0) \<Longrightarrow> moves (sbind m f) 0"
  using moves_sbind [of m 0 f 0] by simp

lemma moves_do_if [moves_intros]: "moves m 0 \<Longrightarrow> moves (do_if c m) 0"
  using moves_base(1) [of "()"] by (simp add: do_if_def)

lemma moves_if [moves_intros]: "moves m d \<Longrightarrow> moves n d \<Longrightarrow> moves (if c then m else n) d"
  by simp

lemma length_nil_mult: "of_nat (length []) * d = (0::rat)"
  by simp

lemma moves_sfor: "(\<And>x. moves (m x) d) \<Longrightarrow> moves (sfor m xs) (of_nat (length xs) * d)"
proof (induction xs)
  case Nil
  show ?case using moves_base(1) [of "()"] by (simp only: sfor.simps length_nil_mult)
next
  case (Cons x xs)
  have "moves (seq (m x) (sfor m xs)) (d + of_nat (length xs) * d)"
    by (rule moves_sbind) (simp_all add: Cons)
  then show ?case by (simp add: algebra_simps)
qed

lemma moves_event_list [moves_intros]: "moves (draw_event_list tv str x y w l es) 0"
proof (induction es arbitrary: l)
  case (Cons e es)
  show ?case unfolding draw_event_list.simps by (intro moves_intros Cons)
qed (simp only: draw_event_list.simps moves_base(1))

lemma moves_range_list [moves_intros]: "moves (draw_range_list tv x y w l rs) 0"
proof (induction rs arbitrary: l)
  case (Cons r rs)
  show ?case unfolding draw_range_list.simps by (intro moves_intros Cons)
qed (simp only: draw_range_list.simps moves_base(1))

lemma moves_rows [moves_intros]:
  "moves (draw_line x y w h) 0" "moves (name_at ext tv x n) 0" "moves (row_line tv) 0"
  "moves (draw_events tv str evs x y w h) 0" "moves (draw_ranges tv rngs x y w h) 0"
  unfolding draw_line_def name_at_def row_line_def draw_events_def draw_ranges_def row_background_def Let_def
  by (auto simp: case_prod_unfold intro!: moves_intros)

lemma moves_down: "moves (move_down d) (nval d)"
  by (simp add: moves_def move_down_def)

lemma moves_event_row: "moves (event_row ext tv str evs) (nval (tv_text_height tv) + 5 + nval (tv_padding tv))"
proof -
  let ?d = "nadd (nadd (tv_text_height tv) (I 5)) (tv_padding tv)"
  have "moves (event_row ext tv str evs) (0 + (0 + (nval ?d + 0)))"
    unfolding event_row_def by (intro moves_sbind moves_down moves_intros)
  then show ?thesis by simp
qed

lemma moves_range_row: "moves (range_row ext tv rngs) (nval (tv_text_height tv) + nval (tv_padding tv))"
proof -
  let ?d = "nadd (tv_text_height tv) (tv_padding tv)"
  have "moves (range_row ext tv rngs) (0 + (0 + (nval ?d + 0)))"
    unfolding range_row_def by (intro moves_sbind moves_down moves_intros)
  then show ?thesis by simp
qed

text \<open>The rows of events and of ranges.\<close>

definition event_rows :: "timeline list \<Rightarrow> nat" where
  "event_rows ts = length (concat (map event_int ts)) + length (concat (map event_str ts))"

definition range_rows :: "timeline list \<Rightarrow> nat" where
  "range_rows ts = length (concat (map tl_ranges ts))"

definition rows_depth :: "timelines_view \<Rightarrow> timeline list \<Rightarrow> rat" where
  "rows_depth tv ts = of_nat (event_rows ts) * (nval (tv_text_height tv) + 5 + nval (tv_padding tv)) +
     of_nat (range_rows ts) * (nval (tv_text_height tv) + nval (tv_padding tv))"

lemma rows_depth_simps [simp]:
  "rows_depth tv [] = 0"
  "rows_depth tv (t # ts) = rows_depth tv [t] + rows_depth tv ts"
  by (simp_all add: rows_depth_def event_rows_def range_rows_def algebra_simps)

lemma moves_timeline_rows: "moves (timeline_rows ext tv t) (rows_depth tv [t])"
proof -
  let ?e = "nval (tv_text_height tv) + 5 + nval (tv_padding tv)" and ?r = "nval (tv_text_height tv) + nval (tv_padding tv)"
  have "moves (timeline_rows ext tv t) (0 + (of_nat (length (event_int t)) * ?e +
      (of_nat (length (event_str t)) * ?e + (of_nat (length (tl_ranges t)) * ?r + (0 + 0)))))"
    unfolding timeline_rows_def
    by (intro moves_sbind moves_sfor moves_event_row moves_range_row moves_intros)
  then show ?thesis by (simp add: rows_depth_def event_rows_def range_rows_def algebra_simps)
qed

lemma moves_all_rows: "moves (sfor (timeline_rows ext tv) ts) (rows_depth tv ts)"
proof (induction ts)
  case Nil
  show ?case using moves_base(1) [of "()"] by (simp only: sfor.simps rows_depth_simps)
next
  case (Cons t ts)
  have "moves (seq (timeline_rows ext tv t) (sfor (timeline_rows ext tv) ts)) (rows_depth tv [t] + rows_depth tv ts)"
    by (rule moves_sbind [OF moves_timeline_rows Cons])
  then show ?case by (simp only: sfor.simps rows_depth_simps(2) [of tv t ts])
qed

lemma draw_timelines_bottom:
  assumes "draw_timelines ext tv s = (Inr low, t)"
  shows "nval low = rows_depth tv (tv_timelines tv)"
proof -
  let ?h = "half (tv_padding tv)"
  from assms obtain s1 s2 s3 where
    "draw_line (I 0) (I 0) (tv_width tv) (I 0) (s\<lparr>cur_y := ?h\<rparr>) = (Inr (), s1)"
    and rows: "sfor (timeline_rows ext tv) (tv_timelines tv) (s1\<lparr>grey_background := 1\<rparr>) = (Inr (), s2)"
    and low: "low = nsub (cur_y s2) ?h"
    by (auto simp: draw_timelines_def sbind_Inr Let_def ret_def)
  then have "cur_y s1 = ?h" by (auto simp: draw_line_def emit_def)
  then have "nval (cur_y s2) = nval ?h + rows_depth tv (tv_timelines tv)"
    using moves_all_rows [of ext tv "tv_timelines tv"] rows by (auto simp: moves_def)
  with low show ?thesis by simp
qed

text \<open>
  Whether the timelines fit into the height that \<open>layout\<close> announced: when \<open>draw\<close> returns,
  its lower end is the sum of the heights of its rows, and it is within the height exactly if the
  text is at most 10 high, or there are only events or only ranges, or the column of the timeline
  names is high enough; otherwise rows are drawn below the announced height, over the scale.
\<close>

theorem timelines_fit:
  assumes "tv = layout_timelines ext width tv0" and "draw_timelines ext tv s = (Inr low, t)"
  shows "nval low = rows_depth tv (tv_timelines tv) \<and>
    (nval low \<le> nval (tv_height tv) \<longleftrightarrow>
      nval (tv_text_height tv) \<le> 10 \<or> event_rows (tv_timelines tv) = 0 \<or> range_rows (tv_timelines tv) = 0 \<or>
      nval low \<le> of_nat (length (tv_timelines tv)) * (nval (tv_text_height tv) + nval (tv_padding tv)))"
proof
  show b: "nval low = rows_depth tv (tv_timelines tv)" by (rule draw_timelines_bottom [OF assms(2)])
  let ?ts = "tv_timelines tv" and ?h = "nval (tv_text_height tv)" and ?p = "nval (tv_padding tv)"
  let ?e = "of_nat (event_rows ?ts) :: rat" and ?r = "of_nat (range_rows ?ts) :: rat" and ?l = "of_nat (length ?ts) :: rat"
  have height: "nval (tv_height tv) = max (max (?l * ?h + (?l - 1) * ?p) ((?e + ?r - 1) * ?p + (?e + ?r) * ?h))
      (?e * (?h + 5) + ?r * 10 + (?e + ?r - 1) * ?p) + ?p"
    unfolding assms(1) by (simp add: layout_timelines_def Let_def event_rows_def range_rows_def algebra_simps)
  have low: "nval low = ?e * (?h + 5) + ?r * ?h + (?e + ?r) * ?p"
    using b by (simp add: rows_depth_def algebra_simps)
  have 1: "nval low \<le> (?e + ?r) * ?p + (?e + ?r) * ?h \<longleftrightarrow> event_rows ?ts = 0"
    unfolding low by (simp add: algebra_simps)
  have 2: "nval low \<le> ?e * (?h + 5) + ?r * 10 + (?e + ?r) * ?p \<longleftrightarrow> ?h \<le> 10 \<or> range_rows ?ts = 0"
    unfolding low by (auto simp: mult_le_cancel_left)
  have "nval (tv_height tv) = max (max (?l * (?h + ?p)) ((?e + ?r) * ?p + (?e + ?r) * ?h))
      (?e * (?h + 5) + ?r * 10 + (?e + ?r) * ?p)"
    unfolding height by (simp add: max_def algebra_simps)
  then have "nval low \<le> nval (tv_height tv) \<longleftrightarrow> nval low \<le> ?l * (?h + ?p) \<or>
      nval low \<le> (?e + ?r) * ?p + (?e + ?r) * ?h \<or> nval low \<le> ?e * (?h + 5) + ?r * 10 + (?e + ?r) * ?p"
    by (simp only: le_max_iff_disj) blast
  with 1 2 show "nval low \<le> nval (tv_height tv) \<longleftrightarrow>
      ?h \<le> 10 \<or> event_rows ?ts = 0 \<or> range_rows ?ts = 0 \<or> nval low \<le> ?l * (?h + ?p)" by blast
qed

text \<open>One timeline with a range and an event, in a font that is 12 high.\<close>

definition sample_timelines :: "timeline list" where
  "sample_timelines = snd (read_data (unlines_py
     [''range node tx IDLE 0 10'', ''range node tx BUSY 10 20'', ''event-int node rx 5 3'']))"

definition sample_text :: extents where
  "sample_text t = (I (- 9), I (6 * int (length t)), I 12)"

definition sample_view :: timelines_view where
  "sample_view = layout_timelines sample_text (I 300) (set_render_range (F 0) (F 20) (new_timelines_view sample_timelines))"

definition sample_canvas :: canvas where
  "sample_canvas = \<lparr> cmds = [], paints = ([], default_colors), grey_background = 0, cur_y = I 0 \<rparr>"

lemma sample_low: "fst (draw_timelines sample_text sample_view sample_canvas) = Inr (I 49)"
  by code_simp

theorem timelines_fit_witness:
  "rows_depth sample_view (tv_timelines sample_view) = 49 \<and> \<not> 49 \<le> nval (tv_height sample_view)"
proof -
  obtain t where "draw_timelines sample_text sample_view sample_canvas = (Inr (I 49), t)"
    using sample_low by (cases "draw_timelines sample_text sample_view sample_canvas") simp
  from timelines_fit [OF sample_view_def this] show ?thesis by code_simp
qed

end
