(* ===== verification/Grid_Scale.thy ===== *)
theory Grid_Scale
  imports Grid_Draw
begin

text \<open>
  \<open>ScaleRenderer\<close> of \<^verbatim>\<open>utils/grid.py\<close>: the step between the marks of a scale, the marks and their
  places, and what can be said about their number. The step is always an integer, a power of ten
  or nothing at all.
\<close>

section \<open>ScaleRenderer\<close>

record scale =
  sc_top :: int
  sc_lo :: pynum
  sc_hi :: pynum
  sc_delta :: int
  sc_width :: pynum
  sc_height :: pynum
  sc_text_height :: pynum

definition new_scale :: scale where
  "new_scale = \<lparr> sc_top = 0, sc_lo = I 0, sc_hi = I 0, sc_delta = 0, sc_width = I 0, sc_height = I 0, sc_text_height = I 0 \<rparr>"

definition set_bounds :: "pynum \<Rightarrow> pynum \<Rightarrow> scale \<Rightarrow> scale" where
  "set_bounds lo hi sc = sc\<lparr>sc_lo := lo, sc_hi := hi\<rparr>"

definition get_position :: "scale \<Rightarrow> pynum \<Rightarrow> py_error + pynum" where
  "get_position sc x = ndiv (nmul (nsub x (sc_lo sc)) (sc_width sc)) (nsub (sc_hi sc) (sc_lo sc))"

definition set_top :: "scale \<Rightarrow> scale" where "set_top sc = sc\<lparr>sc_top := 1\<rparr>"
definition set_bot :: "scale \<Rightarrow> scale" where "set_bot sc = sc\<lparr>sc_top := 0\<rparr>"

text \<open>The loop \<open>while closest*10 < data_delta\<close>; \<open>closest\<close> starts at 1 and is never below.\<close>

function closest_from :: "int \<Rightarrow> rat \<Rightarrow> int" where
  "closest_from closest data_delta =
     (if 1 \<le> closest \<and> of_int (closest * 10) < data_delta then closest_from (closest * 10) data_delta else closest)"
  by pat_completeness auto
termination
proof (relation "measure (\<lambda>(c, d). nat (\<lceil>d\<rceil> - c))", goal_cases)
  case (2 c d)
  then have "c * 10 < \<lceil>d\<rceil>" by (simp add: less_ceiling_iff)
  with 2 show ?case by simp
qed simp

declare closest_from.simps [simp del]

definition scale_delta :: "pynum \<Rightarrow> pynum \<Rightarrow> int" where
  "scale_delta lo hi =
     (let data_delta = nsub hi lo; closest = closest_from 1 (nval data_delta) in
      case ndiv data_delta (I closest) of
        Inl _ \<Rightarrow> closest
      | Inr q \<Rightarrow> if nval q = 0 then closest else if nval q = 1 then closest div 10 else closest)"

text \<open>The first and the last mark for a step; a step of 0 cannot be divided by.\<close>

definition first_mark :: "scale \<Rightarrow> int \<Rightarrow> py_error + pynum" where
  "first_mark sc delta = rbind (nmod (sc_lo sc) (I delta)) (\<lambda>r. Inr (nadd (nsub (sc_lo sc) r) (I delta)))"

definition last_mark :: "scale \<Rightarrow> int \<Rightarrow> py_error + pynum" where
  "last_mark sc delta = rbind (nmod (sc_hi sc) (I delta)) (\<lambda>r. Inr (nsub (sc_hi sc) r))"

definition layout_scale :: "extents \<Rightarrow> pynum \<Rightarrow> (scale, unit) proc" where
  "layout_scale ext width = sbind (gets (\<lambda>sc. scale_delta (sc_lo sc) (sc_hi sc))) (\<lambda>delta.
     sbind (gets (\<lambda>sc. first_mark sc delta)) (\<lambda>start. sbind (lift start) (\<lambda>_.
     sbind (gets (\<lambda>sc. last_mark sc delta)) (\<lambda>end'. sbind (lift end') (\<lambda>_.
     modify (\<lambda>sc. sc\<lparr>sc_delta := delta, sc_width := width, sc_text_height := text_height ext all_letters,
       sc_height := nadd (text_height ext all_letters) (I 10)\<rparr>))))))"

text \<open>\<open>range(a, b, s)\<close>\<close>

definition py_range :: "int \<Rightarrow> int \<Rightarrow> int \<Rightarrow> py_error + int list" where
  "py_range a b s =
     (if s = 0 then Inl ValueError
      else if 0 < s then Inr (map (\<lambda>k. a + int k * s) [0..<nat ((b - a + s - 1) div s)])
      else Inr (map (\<lambda>k. a + int k * s) [0..<nat ((a - b - s - 1) div - s)]))"

definition marks :: "scale \<Rightarrow> int \<Rightarrow> py_error + int list" where
  "marks sc delta = rbind (first_mark sc delta) (\<lambda>start. rbind (last_mark sc delta) (\<lambda>end'.
     py_range (nint start) (nint (nadd end' (I delta))) delta))"

definition mark_line :: "scale \<Rightarrow> int \<Rightarrow> pynum \<Rightarrow> cmd list" where
  "mark_line sc len real_x = [Move_to real_x (I 0),
     Line_to real_x (I (len * (if sc_top sc = 1 then - 1 else 1))), Close_path, Stroke]"

definition mark_label :: "extents \<Rightarrow> scale \<Rightarrow> int \<Rightarrow> pynum \<Rightarrow> cmd list" where
  "mark_label ext sc x real_x =
     (let t = show_int x; s = (if sc_top sc = 1 then - 1 else 1);
          text_delta = (if sc_top sc \<noteq> 0 then nadd (text_height ext t) (y_bearing ext t) else nneg (y_bearing ext t))
      in [Move_to (nsub real_x (half (text_width ext t))) (nmul (nadd (I 10) text_delta) (I s)), Show_text t])"

definition draw_scale :: "extents \<Rightarrow> scale \<Rightarrow> unit draw" where
  "draw_scale ext sc = (let delta = sc_delta sc; sub = sc_delta sc div 10 in
     sbind (lift (rbind (first_mark sc delta) (\<lambda>_. last_mark sc delta))) (\<lambda>_.
     seq (emit [black, Set_line_width (F 1)])
    (sbind (lift (marks sc delta)) (\<lambda>xs.
     seq (sfor (\<lambda>x. sbind (lift (get_position sc (I x))) (\<lambda>real_x.
            emit (mark_line sc 5 real_x @ mark_label ext sc x real_x))) xs)
    (do_if (0 < sub) (sbind (lift (marks sc sub)) (\<lambda>ys.
       sfor (\<lambda>x. sbind (lift (get_position sc (I x))) (\<lambda>real_x. emit (mark_line sc 3 real_x))) ys)))))))"

section \<open>The step\<close>

lemma closest_ge: "1 \<le> c \<Longrightarrow> c \<le> closest_from c d"
proof (induction c d rule: closest_from.induct)
  case (1 c d)
  show ?case
  proof (cases "of_int (c * 10) < d")
    case True
    then have "c * 10 \<le> closest_from (c * 10) d" using 1 by simp
    moreover have "closest_from c d = closest_from (c * 10) d" using True 1(2) by (simp add: closest_from.simps [of c d])
    ultimately show ?thesis using 1(2) by linarith
  qed (use 1(2) in \<open>simp add: closest_from.simps [of c d]\<close>)
qed

lemma closest_bounds:
  "1 \<le> c \<Longrightarrow> d \<le> of_int (closest_from c d * 10) \<and> (closest_from c d = c \<or> of_int (closest_from c d) < d) \<and>
     (\<exists>n. closest_from c d = c * 10 ^ n)"
proof (induction c d rule: closest_from.induct)
  case (1 c d)
  show ?case
  proof (cases "of_int (c * 10) < d")
    case True
    then have e: "closest_from c d = closest_from (c * 10) d" using 1(2) by (simp add: closest_from.simps [of c d])
    have ih: "d \<le> of_int (closest_from (c * 10) d * 10)"
      "closest_from (c * 10) d = c * 10 \<or> of_int (closest_from (c * 10) d) < d"
      "\<exists>n. closest_from (c * 10) d = c * 10 * 10 ^ n"
      using 1(1) True 1(2) by auto
    from ih(3) obtain n where "closest_from c d = c * 10 ^ Suc n" using e by (auto simp: mult.assoc)
    moreover have "closest_from c d = c \<or> of_int (closest_from c d) < d" using ih(2) True e by auto
    moreover have "d \<le> of_int (closest_from c d * 10)" using ih(1) e by simp
    ultimately show ?thesis by blast
  next
    case False
    then have "closest_from c d = c" by (simp add: closest_from.simps [of c d])
    moreover have "c = c * 10 ^ 0" by simp
    ultimately show ?thesis using False by (auto intro: exI [of _ 0])
  qed
qed

lemma div_is_one: "0 < c \<Longrightarrow> m div c = 1 \<Longrightarrow> c \<le> m \<and> m < 2 * c" for c m :: int
proof -
  assume c: "0 < c" "m div c = 1"
  have "m = c + m mod c" using div_mult_mod_eq [of m c] c(2) by simp
  moreover have "0 \<le> m mod c" "m mod c < c" using c(1) by simp_all
  ultimately show ?thesis by linarith
qed

text \<open>The step from the distance of the bounds.\<close>

lemma scale_delta_cases:
  fixes lo hi :: pynum
  defines "d \<equiv> nval hi - nval lo"
  shows "(d = 1 \<and> scale_delta lo hi = 0) \<or>
    (d \<noteq> 1 \<and> 1 \<le> scale_delta lo hi \<and> d < 20 * of_int (scale_delta lo hi) \<and>
     (1 < d \<longrightarrow> of_int (scale_delta lo hi) < d) \<and> (\<exists>n. scale_delta lo hi = 10 ^ n))"
proof -
  let ?c = "closest_from 1 d"
  have c: "d \<le> of_int (?c * 10)" "?c = 1 \<or> of_int ?c < d" "1 \<le> ?c" and pow: "\<exists>n. ?c = 10 ^ n"
    using closest_bounds [of 1 d] closest_ge [of 1 d] by auto
  have delta: "scale_delta lo hi = (case ndiv (nsub hi lo) (I ?c) of Inl _ \<Rightarrow> ?c
      | Inr q \<Rightarrow> if nval q = 0 then ?c else if nval q = 1 then ?c div 10 else ?c)"
    by (simp only: scale_delta_def d_def Let_def nval_arith)
  obtain q where q: "ndiv (nsub hi lo) (I ?c) = Inr q" using c(3) by (auto simp: ndiv_def)
  have q1: "of_int ?c \<le> d \<and> d < 2 * of_int ?c" if "nval q = 1"
  proof (cases "nsub hi lo")
    case (I m)
    then have "m div ?c = 1" using q that c(3) by (auto simp: ndiv_def)
    then have "?c \<le> m" "m < 2 * ?c" using div_is_one [of ?c m] c(3) by simp_all
    moreover have "d = of_int m" using I by (metis d_def nval_arith(2) nval_base(1))
    ultimately show ?thesis by (simp flip: of_int_mult add: of_int_less_iff)
  next
    case (F x)
    then have "x / of_int ?c = 1" using q that c(3) by (auto simp: ndiv_def)
    moreover have "d = x" using F by (metis d_def nval_arith(2) nval_base(2))
    ultimately show ?thesis using c(3) by (simp add: field_simps)
  qed
  show ?thesis
  proof (cases "nval q = 1")
    case False
    have "d \<noteq> 1"
    proof
      assume d1: "d = 1"
      then have c1: "?c = 1" by (simp add: closest_from.simps [of 1])
      have "nval q = nval (nsub hi lo)" using q c1 by (cases "nsub hi lo") (auto simp: ndiv_def)
      then have "nval q = 1" using d1 by (simp add: d_def)
      with False show False by simp
    qed
    moreover have "scale_delta lo hi = ?c" using False q delta by auto
    moreover have "1 < d \<Longrightarrow> of_int ?c < d" using c(2) by auto
    moreover have "d < 20 * of_int ?c" using c(1,3) by simp
    ultimately show ?thesis using c(3) pow by auto
  next
    case True
    then have s: "scale_delta lo hi = ?c div 10" using q delta by auto
    from pow obtain n where n: "?c = 10 ^ n" by blast
    show ?thesis
    proof (cases n)
      case 0
      then have "?c = 1" using n by simp
      then have "1 \<le> d" "d < 2" using q1 [OF True] by simp_all
      have "d = 1"
      proof (cases "nsub hi lo")
        case (I m)
        then have "d = of_int m" by (metis d_def nval_arith(2) nval_base(1))
        with \<open>1 \<le> d\<close> \<open>d < 2\<close> show ?thesis by simp
      next
        case (F x)
        then have "d = x" by (metis d_def nval_arith(2) nval_base(2))
        moreover have "q = F x" using q unfolding F \<open>?c = 1\<close> by (simp add: ndiv_def)
        ultimately show ?thesis using True by simp
      qed
      then show ?thesis using s \<open>?c = 1\<close> by simp
    next
      case (Suc k)
      then have s': "scale_delta lo hi = 10 ^ k" and ck: "(of_int ?c :: rat) = 10 * 10 ^ k" using s n by simp_all
      have "(1 :: rat) \<le> 10 ^ k" by simp
      with q1 [OF True] ck have b: "10 * 10 ^ k \<le> d" "d < 20 * 10 ^ k" "10 ^ k < d" "1 < d" by linarith+
      have "d \<noteq> 1" "(1 :: int) \<le> 10 ^ k" using b(4) by simp_all
      with b s' show ?thesis by (intro disjI2 conjI) simp_all
    qed
  qed
qed

section \<open>The marks\<close>

lemma upto_map: "[i..j] = map (\<lambda>k. i + int k) [0..<nat (j - i + 1)]"
  by (rule nth_equalityI) simp_all

lemma first_mark_value:
  assumes "delta \<noteq> 0"
  shows "\<exists>s. first_mark sc delta = Inr s \<and> nint s = delta * (\<lfloor>nval (sc_lo sc) / of_int delta\<rfloor> + 1)"
proof -
  obtain r where r: "nmod (sc_lo sc) (I delta) = Inr r"
    "nval (nsub (sc_lo sc) r) = of_int (delta * \<lfloor>nval (sc_lo sc) / of_int delta\<rfloor>)"
    using nmod_below [OF assms] by blast
  have "nval (nadd (nsub (sc_lo sc) r) (I delta)) = of_int (delta * (\<lfloor>nval (sc_lo sc) / of_int delta\<rfloor> + 1))"
    using r(2) by (simp only: nval_arith(1) nval_base(1) of_int_add of_int_mult of_int_1 distrib_left mult_1_right)
  from nint_of_int [OF this] r(1) show ?thesis by (simp add: first_mark_def)
qed

lemma last_mark_value:
  assumes "delta \<noteq> 0"
  shows "\<exists>e. last_mark sc delta = Inr e \<and> nint (nadd e (I delta)) = delta * (\<lfloor>nval (sc_hi sc) / of_int delta\<rfloor> + 1)"
proof -
  obtain r where r: "nmod (sc_hi sc) (I delta) = Inr r"
    "nval (nsub (sc_hi sc) r) = of_int (delta * \<lfloor>nval (sc_hi sc) / of_int delta\<rfloor>)"
    using nmod_below [OF assms] by blast
  have "nval (nadd (nsub (sc_hi sc) r) (I delta)) = of_int (delta * (\<lfloor>nval (sc_hi sc) / of_int delta\<rfloor> + 1))"
    using r(2) by (simp only: nval_arith(1) nval_base(1) of_int_add of_int_mult of_int_1 distrib_left mult_1_right)
  from nint_of_int [OF this] r(1) show ?thesis by (simp add: last_mark_def)
qed

lemma marks_multiples_lemma:
  assumes "0 < delta"
  shows "marks sc delta = Inr (map (\<lambda>k. delta * k)
    [\<lfloor>nval (sc_lo sc) / of_int delta\<rfloor> + 1 .. \<lfloor>nval (sc_hi sc) / of_int delta\<rfloor>])"
proof -
  let ?m = "\<lfloor>nval (sc_lo sc) / of_int delta\<rfloor>" and ?n = "\<lfloor>nval (sc_hi sc) / of_int delta\<rfloor>"
  obtain s where s: "first_mark sc delta = Inr s" "nint s = delta * (?m + 1)"
    using first_mark_value [of delta sc] assms by auto
  obtain e where e: "last_mark sc delta = Inr e" "nint (nadd e (I delta)) = delta * (?n + 1)"
    using last_mark_value [of delta sc] assms by auto
  have "delta * (?n + 1) - delta * (?m + 1) + delta - 1 = (?n - ?m) * delta + (delta - 1)"
    by (simp add: algebra_simps)
  then have count: "(delta * (?n + 1) - delta * (?m + 1) + delta - 1) div delta = ?n - ?m"
    using div_mult_self3 [of delta "?n - ?m" "delta - 1"] assms by (simp only:) (simp add: div_pos_pos_trivial)
  have "py_range (delta * (?m + 1)) (delta * (?n + 1)) delta = Inr (map (\<lambda>k. delta * k) [?m + 1..?n])"
    unfolding py_range_def count using assms by (simp add: upto_map algebra_simps)
  then show ?thesis by (simp only: marks_def s e rbind_simps)
qed

text \<open>
  The labelled marks of a scale for a positive step: \<open>draw\<close> puts them at exactly the
  multiples of the step above the lower bound and up to the upper bound, in order, for integer
  and for float bounds; a multiple that is the lower bound itself gets no mark.
\<close>

theorem marks_multiples:
  assumes "0 < delta"
  shows "\<exists>xs. marks sc delta = Inr xs \<and> sorted_wrt (<) xs \<and>
    (\<forall>x. x \<in> set xs \<longleftrightarrow> delta dvd x \<and> nval (sc_lo sc) < of_int x \<and> of_int x \<le> nval (sc_hi sc))"
proof -
  let ?m = "\<lfloor>nval (sc_lo sc) / of_int delta\<rfloor>" and ?n = "\<lfloor>nval (sc_hi sc) / of_int delta\<rfloor>"
  have d: "(0 :: rat) < of_int delta" using assms by simp
  have lower: "nval (sc_lo sc) < of_int (delta * k) \<longleftrightarrow> ?m + 1 \<le> k" for k
  proof -
    have "nval (sc_lo sc) < of_int (delta * k) \<longleftrightarrow> nval (sc_lo sc) / of_int delta < of_int k"
      using d by (simp add: pos_divide_less_eq mult.commute)
    then show ?thesis by (simp add: floor_less_iff [symmetric] add1_zle_eq)
  qed
  have upper: "of_int (delta * k) \<le> nval (sc_hi sc) \<longleftrightarrow> k \<le> ?n" for k
    using d by (simp add: le_floor_iff pos_le_divide_eq mult.commute)
  have "sorted_wrt (<) (map (\<lambda>k. delta * k) [?m + 1..?n])"
    using assms by (simp add: sorted_wrt_map)
  moreover have "x \<in> set (map (\<lambda>k. delta * k) [?m + 1..?n]) \<longleftrightarrow>
      delta dvd x \<and> nval (sc_lo sc) < of_int x \<and> of_int x \<le> nval (sc_hi sc)" for x
  proof (cases "delta dvd x")
    case True
    then obtain k where "x = delta * k" by (rule dvdE)
    with lower upper assms show ?thesis by (auto simp del: of_int_mult)
  qed auto
  ultimately show ?thesis using marks_multiples_lemma [OF assms] by blast
qed

theorem marks_multiples_witness:
  "\<exists>xs. marks (set_bounds (F (1 / 2)) (I 30) new_scale) 10 = Inr xs \<and> sorted_wrt (<) xs \<and>
    (\<forall>x. x \<in> set xs \<longleftrightarrow> 10 dvd x \<and> nval (F (1 / 2)) < of_int x \<and> of_int x \<le> nval (I 30))"
  using marks_multiples [of 10 "set_bounds (F (1 / 2)) (I 30) new_scale"] by (simp add: set_bounds_def)

text \<open>
  How many labelled marks a scale gets: over a distance \<open>d > 1\<close> of its bounds, layout
  succeeds, takes a power of ten for the step, and draw has at least one and at most twenty marks.
\<close>

theorem scale_mark_count:
  assumes "1 < nval (sc_hi sc) - nval (sc_lo sc)"
  shows "\<exists>sc' xs n. layout_scale ext width sc = (Inr (), sc') \<and> sc_delta sc' = 10 ^ n \<and>
    marks sc' (sc_delta sc') = Inr xs \<and> 1 \<le> length xs \<and> length xs \<le> 20"
proof -
  let ?d = "nval (sc_hi sc) - nval (sc_lo sc)" and ?s = "scale_delta (sc_lo sc) (sc_hi sc)"
  obtain n where s: "1 \<le> ?s" "?d < 20 * of_int ?s" "of_int ?s < ?d" "?s = 10 ^ n"
    using scale_delta_cases [of "sc_hi sc" "sc_lo sc"] assms by auto
  obtain a b where ab: "first_mark sc ?s = Inr a" "last_mark sc ?s = Inr b"
    using first_mark_value [of ?s sc] last_mark_value [of ?s sc] s(1) by auto
  let ?sc = "sc\<lparr>sc_delta := ?s, sc_width := width, sc_text_height := text_height ext all_letters,
       sc_height := nadd (text_height ext all_letters) (I 10)\<rparr>"
  have run: "layout_scale ext width sc = (Inr (), ?sc)" using ab by (simp add: layout_scale_def)
  let ?lo = "nval (sc_lo sc) / of_int ?s" and ?hi = "nval (sc_hi sc) / of_int ?s"
  have pos: "(0 :: rat) < of_int ?s" using s(1) by simp
  have "?hi - ?lo = ?d / of_int ?s" by (simp add: diff_divide_distrib)
  then have "1 < ?hi - ?lo" "?hi - ?lo < 20"
    using s(2,3) pos by (simp_all add: pos_less_divide_eq pos_divide_less_eq mult.commute)
  then have "\<lfloor>?lo\<rfloor> + 1 \<le> \<lfloor>?hi\<rfloor>" "\<lfloor>?hi\<rfloor> - \<lfloor>?lo\<rfloor> \<le> 20" by linarith+
  moreover have "marks ?sc ?s = Inr (map (\<lambda>k. ?s * k) [\<lfloor>?lo\<rfloor> + 1..\<lfloor>?hi\<rfloor>])"
    using marks_multiples_lemma [of ?s ?sc] s(1) by simp
  ultimately have m: "marks ?sc ?s = Inr (map (\<lambda>k. ?s * k) [\<lfloor>?lo\<rfloor> + 1..\<lfloor>?hi\<rfloor>])"
    and len: "1 \<le> nat (\<lfloor>?hi\<rfloor> - \<lfloor>?lo\<rfloor>)" "nat (\<lfloor>?hi\<rfloor> - \<lfloor>?lo\<rfloor>) \<le> 20" by linarith+
  show ?thesis
  proof (intro exI conjI)
    show "layout_scale ext width sc = (Inr (), ?sc)" by (rule run)
    show "sc_delta ?sc = 10 ^ n" using s(4) by simp
    show "marks ?sc (sc_delta ?sc) = Inr (map (\<lambda>k. ?s * k) [\<lfloor>?lo\<rfloor> + 1..\<lfloor>?hi\<rfloor>])" using m by simp
  qed (use len in simp_all)
qed

theorem scale_mark_count_witness:
  "\<exists>sc' xs n. layout_scale (\<lambda>_. (I 0, I 6, I 8)) (I 600) (set_bounds (I 0) (I 199) new_scale) = (Inr (), sc') \<and>
    sc_delta sc' = 10 ^ n \<and> marks sc' (sc_delta sc') = Inr xs \<and> 1 \<le> length xs \<and> length xs \<le> 20"
  by (rule scale_mark_count) (simp add: set_bounds_def)

lemma layout_scale_value:
  "nval (sc_hi sc) - nval (sc_lo sc) = 1 \<Longrightarrow> layout_scale ext width sc = (Inl ZeroDivisionError, sc)"
  "nval (sc_hi sc) - nval (sc_lo sc) \<noteq> 1 \<Longrightarrow> layout_scale ext width sc =
     (Inr (), sc\<lparr>sc_delta := scale_delta (sc_lo sc) (sc_hi sc), sc_width := width,
        sc_text_height := text_height ext all_letters, sc_height := nadd (text_height ext all_letters) (I 10)\<rparr>)"
proof -
  assume "nval (sc_hi sc) - nval (sc_lo sc) = 1"
  moreover from this have "scale_delta (sc_lo sc) (sc_hi sc) = 0" using scale_delta_cases [of "sc_hi sc" "sc_lo sc"] by auto
  ultimately show "layout_scale ext width sc = (Inl ZeroDivisionError, sc)"
    by (simp add: layout_scale_def first_mark_def nmod_def)
next
  assume d: "nval (sc_hi sc) - nval (sc_lo sc) \<noteq> 1"
  then have s: "scale_delta (sc_lo sc) (sc_hi sc) \<noteq> 0" using scale_delta_cases [of "sc_hi sc" "sc_lo sc"] by auto
  obtain a b where "first_mark sc (scale_delta (sc_lo sc) (sc_hi sc)) = Inr a"
    "last_mark sc (scale_delta (sc_lo sc) (sc_hi sc)) = Inr b"
    using first_mark_value [OF s, of sc] last_mark_value [OF s, of sc] by auto
  with d show "layout_scale ext width sc = (Inr (), sc\<lparr>sc_delta := scale_delta (sc_lo sc) (sc_hi sc), sc_width := width,
        sc_text_height := text_height ext all_letters, sc_height := nadd (text_height ext all_letters) (I 10)\<rparr>)"
    by (simp add: layout_scale_def)
qed

text \<open>
  The layout of a scale fails for exactly one distance of its bounds: when they are 1
  apart the step becomes 1 / 10 = 0 and the remainder by it raises \<open>ZeroDivisionError\<close>, leaving
  the scale as it was; for every other pair of bounds, equal and inverted ones included, layout
  succeeds.
\<close>

theorem scale_layout_fails_at_one:
  "layout_scale ext width sc =
     (if nval (sc_hi sc) - nval (sc_lo sc) = 1 then (Inl ZeroDivisionError, sc)
      else (Inr (), sc\<lparr>sc_delta := scale_delta (sc_lo sc) (sc_hi sc), sc_width := width,
        sc_text_height := text_height ext all_letters, sc_height := nadd (text_height ext all_letters) (I 10)\<rparr>))"
  by (simp add: layout_scale_value)

end
