(* ===== verification/Grid_View.thy ===== *)
theory Grid_View
  imports Grid_Scale
begin

text \<open>
  The graphic and the window of \<^verbatim>\<open>utils/grid.py\<close>: \<open>GraphicRenderer\<close>, which holds the range of
  times shown and lays out and draws its parts, \<open>GtkGraphicRenderer\<close>, the widget whose handlers
  drag the selection and zoom, and the callbacks of \<open>MainWindow\<close>. The events of the tool kit are
  a datatype; an exception in a handler is printed by the tool kit and the state it left remains.
\<close>

section \<open>GraphicRenderer\<close>

record graphic =
  g_start :: pynum
  g_end :: pynum
  mid_scale :: scale
  bot_scale :: scale
  g_width :: int
  g_height :: int
  r_start :: pynum
  r_end :: pynum
  g_data :: timelines_view
  g_legend :: legend

text \<open>
  \<open>float(start)\<close>; the bounds of the lower scale keep the type of the arguments. The shown range,
  the data and the legend are set before they are read.
\<close>

definition to_float :: "pynum \<Rightarrow> pynum" where "to_float n = F (nval n)"

definition new_graphic :: "pynum \<Rightarrow> pynum \<Rightarrow> graphic" where
  "new_graphic a b = \<lparr> g_start = to_float a, g_end = to_float b, mid_scale = set_top new_scale,
     bot_scale = set_bot (set_bounds a b new_scale), g_width = 1, g_height = 1, r_start = I 0, r_end = I 0,
     g_data = new_timelines_view [], g_legend = new_legend \<rparr>"

definition set_data :: "timelines_view \<Rightarrow> graphic \<Rightarrow> graphic" where "set_data tv g = g\<lparr>g_data := tv\<rparr>"
definition set_top_legend :: "legend \<Rightarrow> graphic \<Rightarrow> graphic" where "set_top_legend lg g = g\<lparr>g_legend := lg\<rparr>"

type_synonym 'a graphics = "(graphic, 'a) proc"

text \<open>A procedure of one of the scales.\<close>

definition on_mid :: "(scale, 'a) proc \<Rightarrow> 'a graphics" where
  "on_mid m g = (case m (mid_scale g) of (r, sc) \<Rightarrow> (r, g\<lparr>mid_scale := sc\<rparr>))"

definition on_bot :: "(scale, 'a) proc \<Rightarrow> 'a graphics" where
  "on_bot m g = (case m (bot_scale g) of (r, sc) \<Rightarrow> (r, g\<lparr>bot_scale := sc\<rparr>))"

definition layout_graphic :: "extents \<Rightarrow> int \<Rightarrow> int \<Rightarrow> unit graphics" where
  "layout_graphic ext width height =
     seq (modify (\<lambda>g. g\<lparr>g_width := width, g_height := height, g_legend := layout_legend ext (I width) (g_legend g),
       g_data := layout_timelines ext (I width) (g_data g)\<rparr>))
    (sbind (gets (\<lambda>g. nsub (I width) (get_data_x_start (g_data g)))) (\<lambda>mid_width.
     seq (on_mid (layout_scale ext mid_width)) (on_bot (layout_scale ext (I width)))))"

text \<open>\<open>get_data_rectangle\<close> and \<open>get_selection_rectangle\<close>: x, y, width and height\<close>

type_synonym rectangle = "pynum \<times> pynum \<times> pynum \<times> pynum"

definition get_data_rectangle :: "graphic \<Rightarrow> rectangle" where
  "get_data_rectangle g = (let x_start = get_data_x_start (g_data g) in
     (x_start, lg_height (g_legend g), nsub (I (g_width g)) x_start, tv_height (g_data g)))"

definition get_selection_rectangle :: "graphic \<Rightarrow> py_error + rectangle" where
  "get_selection_rectangle g =
     (let y_start = nadd (nadd (nadd (lg_height (g_legend g)) (tv_height (g_data g))) (sc_height (mid_scale g))) (I 20);
          y_height = nadd (sc_height (bot_scale g)) (I 20) in
      rbind (get_position (bot_scale g) (r_start g)) (\<lambda>x_start.
      rbind (get_position (bot_scale g) (r_end g)) (\<lambda>x_end.
      Inr (x_start, y_start, nsub x_end x_start, y_height))))"

definition scale_data :: "graphic \<Rightarrow> pynum \<Rightarrow> py_error + pynum" where
  "scale_data g x = rbind (ndiv x (nsub (I (g_width g)) (get_data_x_start (g_data g)))) (\<lambda>q.
     Inr (nmul q (nsub (r_end g) (r_start g))))"

definition scale_selection :: "graphic \<Rightarrow> pynum \<Rightarrow> py_error + pynum" where
  "scale_selection g x = rbind (ndiv x (I (g_width g))) (\<lambda>q. Inr (nmul q (nsub (g_end g) (g_start g))))"

definition get_range :: "graphic \<Rightarrow> pynum \<times> pynum" where
  "get_range g = (r_start g, r_end g)"

definition put_range :: "pynum \<Rightarrow> pynum \<Rightarrow> graphic \<Rightarrow> graphic" where
  "put_range a b g =
     (let s = py_min a b; e = py_max a b; start = py_max (g_start g) s; end' = py_min (g_end g) e in
      g\<lparr>r_start := start, r_end := end', g_data := set_render_range start end' (g_data g),
        mid_scale := set_bounds start end' (mid_scale g)\<rparr>)"

definition set_range :: "extents \<Rightarrow> pynum \<Rightarrow> pynum \<Rightarrow> unit graphics" where
  "set_range ext a b = seq (modify (put_range a b))
     (sbind (gets (\<lambda>g. (g_width g, g_height g))) (\<lambda>(w, h). layout_graphic ext w h))"

definition x_pixel :: "graphic \<Rightarrow> pynum \<Rightarrow> pynum \<Rightarrow> py_error + pynum" where
  "x_pixel g x width = ndiv (nmul (nsub x (g_start g)) width) (nsub (g_end g) (g_start g))"

subsection \<open>draw\<close>

definition stroke_black :: "int \<Rightarrow> cmd list" where
  "stroke_black width = [Set_line_width (I width), black, Stroke]"

text \<open>The background, and a line across the widget at a height.\<close>

definition white_background :: "graphic \<Rightarrow> cmd list" where
  "white_background g = [Save, Set_source_rgb (I 1) (I 1) (I 1), Set_operator ''SOURCE'',
     Rectangle (I 0) (I 0) (I (g_width g)) (I (g_height g)), Fill]"

definition across :: "graphic \<Rightarrow> pynum \<Rightarrow> cmd list" where
  "across g y = [Move_to (I 0) y, Line_to (I (g_width g)) y, Close_path] @ stroke_black 2"

text \<open>A closed polygon, filled grey with a black border.\<close>

definition grey_polygon :: "(pynum \<times> pynum) list \<Rightarrow> cmd list" where
  "grey_polygon ps = (case ps of [] \<Rightarrow> [] | (x, y) # qs \<Rightarrow> Move_to x y # map (\<lambda>(x, y). Line_to x y) qs) @
     [black, Set_line_width (I 1), Stroke_preserve, light_grey, Fill]"

definition connections :: "graphic \<Rightarrow> pynum \<Rightarrow> pynum \<Rightarrow> pynum \<Rightarrow> cmd list" where
  "connections g used select_start select_end =
     (let w = I (g_width g); low = nadd used (I 20) in
      grey_polygon [(I 0, used), (get_data_x_start (g_data g), used), (select_start, low), (I 0, low), (I 0, used)] @
      grey_polygon [(w, used), (w, low), (select_end, low), (w, used)])"

definition unused_areas :: "graphic \<Rightarrow> pynum \<Rightarrow> pynum \<Rightarrow> pynum \<Rightarrow> pynum \<Rightarrow> cmd list" where
  "unused_areas g used unused_start unused_end unused_height =
     [Rectangle (I 0) used unused_start unused_height,
      Rectangle unused_end used (nsub (I (g_width g)) unused_end) unused_height, light_grey, Fill]"

definition scale_border :: "graphic \<Rightarrow> pynum \<Rightarrow> pynum \<Rightarrow> pynum \<Rightarrow> pynum \<Rightarrow> cmd list" where
  "scale_border g used unused_start unused_end unused_height =
     (let w = I (g_width g); low = nadd used unused_height in
      [Move_to unused_end used, Line_to w used, Line_to w low, Line_to (I 0) low, Line_to (I 0) used,
       Line_to unused_start used, Close_path] @ stroke_black 2 @
      [Move_to unused_start used, Line_to unused_end used, Close_path, Set_line_width (I 1), light_grey, Stroke])"

definition dot_borders :: "graphic \<Rightarrow> pynum \<Rightarrow> pynum \<Rightarrow> pynum \<Rightarrow> pynum \<Rightarrow> cmd list" where
  "dot_borders g used unused_start unused_end unused_height =
     [Save, Move_to (py_max unused_start (I 2)) used, Rel_line_to (I 0) unused_height,
      Move_to (py_min unused_end (I (g_width g - 2))) used, Rel_line_to (I 0) unused_height,
      Set_dash [I 5] (I 0), black, Set_line_width (I 1), Stroke, Restore]"

text \<open>A part drawn with its own origin.\<close>

definition part_at :: "pynum \<Rightarrow> pynum \<Rightarrow> unit draw \<Rightarrow> unit draw" where
  "part_at x y m = seq (emit [Save, Translate x y]) (seq m (emit [Restore]))"

text \<open>The selection on the lower scale, with everything around it.\<close>

definition draw_selection :: "extents \<Rightarrow> graphic \<Rightarrow> pynum \<Rightarrow> unit draw" where
  "draw_selection ext g used0 =
     sbind (lift (get_position (bot_scale g) (r_start g))) (\<lambda>select_start.
     sbind (lift (get_position (bot_scale g) (r_end g))) (\<lambda>select_end.
     let used = nadd used0 (I 20); unused_height = nadd (sc_height (bot_scale g)) (I 20) in
     seq (emit (connections g used0 select_start select_end @
       unused_areas g used select_start select_end unused_height @
       scale_border g used select_start select_end unused_height @
       dot_borders g used select_start select_end unused_height))
     (part_at (I 0) used (draw_scale ext (bot_scale g)))))"

definition draw_graphic :: "extents \<Rightarrow> graphic \<Rightarrow> unit draw" where
  "draw_graphic ext g =
     (let top_legend_height = lg_height (g_legend g);
          height_used = nadd (nadd top_legend_height (tv_height (g_data g))) (sc_height (mid_scale g)) in
      seq (emit (white_background g))
     (seq (seq (emit [Save]) (seq (draw_legend ext (g_legend g)) (emit [Restore])))
     (seq (emit (across g top_legend_height))
     (seq (part_at (I 0) top_legend_height (sbind (draw_timelines ext (g_data g)) (\<lambda>_. ret ())))
     (seq (part_at (get_data_x_start (g_data g)) height_used (draw_scale ext (mid_scale g)))
     (seq (emit [Move_to (get_data_x_start (g_data g)) height_used, Rel_line_to (I 0) (nneg (sc_height (mid_scale g))),
        Close_path, black, Set_line_width (I 2), Stroke])
     (seq (emit (across g height_used))
     (draw_selection ext g height_used))))))))"

text \<open>\<open>main\<close> up to the window: the graphic of a file, and the colours left.\<close>

definition grid_main :: "extents \<Rightarrow> string \<Rightarrow> py_error + graphic \<times> palette" where
  "grid_main ext content =
     (let (colors, ts) = read_data content; (lower, upper) = timelines_bounds ts; range_values = all_range_values ts in
      rbind (lookup_all range_values colors) (\<lambda>(range_colors, colors').
      let lg = set_legends range_values range_colors new_legend;
          g = set_data (new_timelines_view ts) (set_top_legend lg (new_graphic (I lower) (I upper)));
          (range_lo, range_hi) = initial_view ts in
      case set_range ext (I range_lo) (I range_hi) g of
        (Inl e, _) \<Rightarrow> Inl e | (Inr _, g') \<Rightarrow> Inr (g', colors')))"

section \<open>GtkGraphicRenderer\<close>

record surface =
  s_width :: int
  s_height :: int
  s_cmds :: "cmd list"

datatype screen_cmd = Cairo cmd | Source_surface surface

datatype redraw = Whole | Area int int int int

text \<open>
  The widget. An attribute that the constructor does not set is \<open>None\<close> until a handler sets it;
  \<open>moving_right\<close> is a number, for a handler assigns it a width instead of a truth value. What
  goes to the tool kit is recorded: the commands on the window, the areas queued for drawing, the
  cursor and the files written. The colours and the row counter belong to the data renderer.
\<close>

record gtk_view =
  v_graphic :: graphic
  v_paints :: palette
  v_grey :: int
  moving_left :: bool
  moving_right :: pynum
  moving_both :: bool
  moving_top :: bool
  full_redraw :: bool
  left_cur :: "pynum option"
  right_cur :: "pynum option"
  both_start :: "pynum option"
  both_cur :: "pynum option"
  top_start :: "pynum option"
  top_cur :: "pynum option"
  v_width :: "int option"
  v_height :: "int option"
  buffer :: "surface option"
  screen :: "screen_cmd list"
  redraws :: "redraw list"
  cursor :: "string option"
  pngs :: "(string \<times> surface) list"

definition new_gtk_view :: "graphic \<Rightarrow> palette \<Rightarrow> gtk_view" where
  "new_gtk_view g p = \<lparr> v_graphic = g, v_paints = p, v_grey = 1, moving_left = False, moving_right = I 0,
     moving_both = False, moving_top = False, full_redraw = True, left_cur = None, right_cur = None,
     both_start = None, both_cur = None, top_start = None, top_cur = None, v_width = None, v_height = None,
     buffer = None, screen = [], redraws = [], cursor = None, pngs = [] \<rparr>"

type_synonym 'a gtk = "(gtk_view, 'a) proc"

text \<open>A procedure of the graphic, a value of it, and an attribute that may be unset.\<close>

definition on_graphic :: "'a graphics \<Rightarrow> 'a gtk" where
  "on_graphic m v = (case m (v_graphic v) of (r, g) \<Rightarrow> (r, v\<lparr>v_graphic := g\<rparr>))"

definition ask :: "(graphic \<Rightarrow> py_error + 'a) \<Rightarrow> 'a gtk" where
  "ask f = sbind (gets (\<lambda>v. f (v_graphic v))) lift"

definition attribute :: "(gtk_view \<Rightarrow> 'a option) \<Rightarrow> 'a gtk" where
  "attribute f = sbind (gets f) (\<lambda>x. case x of None \<Rightarrow> fail AttributeError | Some y \<Rightarrow> ret y)"

definition queue_draw :: "unit gtk" where
  "queue_draw = modify (\<lambda>v. v\<lparr>redraws := redraws v @ [Whole]\<rparr>)"

definition queue_selection :: "pynum \<Rightarrow> pynum \<Rightarrow> unit gtk" where
  "queue_selection y height = sbind (attribute v_width) (\<lambda>w.
     modify (\<lambda>v. v\<lparr>redraws := redraws v @ [Area 0 (nint y) w (nint height)]\<rparr>))"

text \<open>\<open>set_range\<close> followed by a full redraw\<close>

definition show_range :: "extents \<Rightarrow> pynum \<Rightarrow> pynum \<Rightarrow> unit gtk" where
  "show_range ext a b = seq (on_graphic (set_range ext a b))
     (seq (modify (\<lambda>v. v\<lparr>full_redraw := True\<rparr>)) queue_draw)"

definition set_smaller_zoom :: "extents \<Rightarrow> unit gtk" where
  "set_smaller_zoom ext = sbind (gets (\<lambda>v. get_range (v_graphic v))) (\<lambda>(a, b).
     show_range ext a (nadd a (nmul (nsub b a) (I 2))))"

definition set_bigger_zoom :: "extents \<Rightarrow> unit gtk" where
  "set_bigger_zoom ext = sbind (gets (\<lambda>v. get_range (v_graphic v))) (\<lambda>(a, b).
     show_range ext a (nadd a (half (nsub b a))))"

definition new_surface :: "graphic \<Rightarrow> surface" where
  "new_surface g = \<lparr> s_width = g_width g, s_height = g_height g, s_cmds = [] \<rparr>"

text \<open>\<open>self.__data.draw(cairo.Context(self.__buffer_surface))\<close>\<close>

definition paint_buffer :: "extents \<Rightarrow> unit gtk" where
  "paint_buffer ext = sbind (attribute buffer) (\<lambda>b v.
     (case draw_graphic ext (v_graphic v)
             \<lparr> cmds = s_cmds b, paints = v_paints v, grey_background = v_grey v, cur_y = I 0 \<rparr> of
        (r, c) \<Rightarrow> (r, v\<lparr>buffer := Some (b\<lparr>s_cmds := cmds c\<rparr>), v_paints := paints c, v_grey := grey_background c\<rparr>)))"

definition output_png :: "extents \<Rightarrow> string \<Rightarrow> unit gtk" where
  "output_png ext filename = sbind (gets (\<lambda>v. new_surface (v_graphic v))) (\<lambda>surface.
     seq (paint_buffer ext) (modify (\<lambda>v. v\<lparr>pngs := pngs v @ [(filename, surface)]\<rparr>)))"

subsection \<open>The mouse\<close>

record mouse =
  ev_x :: pynum
  ev_y :: pynum

definition between :: "pynum \<Rightarrow> pynum \<Rightarrow> pynum \<Rightarrow> bool" where
  "between p lo len \<longleftrightarrow> nlt lo p \<and> nlt p (nadd lo len)"

definition near :: "pynum \<Rightarrow> pynum \<Rightarrow> bool" where
  "near p q \<longleftrightarrow> nlt (nabs (nsub p q)) (I 5)"

definition truth :: "pynum \<Rightarrow> bool" where "truth n \<longleftrightarrow> \<not> neq0 n"

definition button_press :: "mouse \<Rightarrow> bool gtk" where
  "button_press ev =
     sbind (ask get_selection_rectangle) (\<lambda>(x, y, width, height).
     sbind (gets (\<lambda>v. get_data_rectangle (v_graphic v))) (\<lambda>(d_x, d_y, d_width, d_height).
     if between (ev_y ev) y height \<and> near (ev_x ev) x then
       seq (modify (\<lambda>v. v\<lparr>moving_left := True\<rparr>)) (ret True)
     else if between (ev_y ev) y height \<and> near (ev_x ev) (nadd x width) then
       seq (modify (\<lambda>v. v\<lparr>moving_right := I 1\<rparr>)) (ret True)
     else if between (ev_y ev) y height \<and> between (ev_x ev) x width then
       seq (modify (\<lambda>v. v\<lparr>moving_both := True, both_start := Some (ev_x ev), both_cur := Some (ev_x ev)\<rparr>)) (ret True)
     else if between (ev_y ev) d_y d_height \<and> between (ev_x ev) d_x d_width then
       seq (modify (\<lambda>v. v\<lparr>moving_top := True, top_start := Some (ev_x ev), top_cur := Some (ev_x ev)\<rparr>)) (ret True)
     else ret False))"

text \<open>The three branches of \<open>button_release\<close> that change the range.\<close>

definition release_left :: "extents \<Rightarrow> bool gtk" where
  "release_left ext = seq (modify (\<lambda>v. v\<lparr>moving_left := False\<rparr>))
     (sbind (attribute left_cur) (\<lambda>cur. sbind (ask (\<lambda>g. scale_selection g cur)) (\<lambda>left.
      sbind (gets (\<lambda>v. snd (get_range (v_graphic v)))) (\<lambda>right.
      seq (show_range ext left right) (ret True)))))"

definition release_right :: "extents \<Rightarrow> bool gtk" where
  "release_right ext = seq (modify (\<lambda>v. v\<lparr>moving_right := I 0\<rparr>))
     (sbind (attribute right_cur) (\<lambda>cur. sbind (ask (\<lambda>g. scale_selection g cur)) (\<lambda>right.
      sbind (gets (\<lambda>v. fst (get_range (v_graphic v)))) (\<lambda>left.
      seq (show_range ext left right) (ret True)))))"

definition release_both :: "extents \<Rightarrow> bool gtk" where
  "release_both ext = seq (modify (\<lambda>v. v\<lparr>moving_both := False\<rparr>))
     (sbind (attribute both_cur) (\<lambda>cur. sbind (attribute both_start) (\<lambda>start.
      sbind (ask (\<lambda>g. scale_selection g (nsub cur start))) (\<lambda>delta.
      sbind (gets (\<lambda>v. get_range (v_graphic v))) (\<lambda>(left, right).
      seq (show_range ext (nadd left delta) (nadd right delta)) (ret True))))))"

definition button_release :: "extents \<Rightarrow> mouse \<Rightarrow> bool gtk" where
  "button_release ext ev =
     sbind (gets moving_left) (\<lambda>l. if l then release_left ext else
     sbind (gets moving_right) (\<lambda>r. if truth r then release_right ext else
     sbind (gets moving_both) (\<lambda>b. if b then release_both ext else
     seq (modify (\<lambda>v. v\<lparr>moving_top := False\<rparr>)) (ret False))))"

text \<open>\<open>motion_notify\<close>: the border or the selection follows the mouse within the widget.\<close>

definition motion_left :: "mouse \<Rightarrow> rectangle \<Rightarrow> bool gtk" where
  "motion_left ev rect = (case rect of (x, y, width, height) \<Rightarrow>
     seq (modify (\<lambda>v. v\<lparr>left_cur := Some (
        if nle (ev_x ev) (I 0) then I 0
        else if nle (nadd x width) (ev_x ev) then nadd x width
        else ev_x ev)\<rparr>))
    (seq (queue_selection y height) (ret True)))"

definition motion_right :: "mouse \<Rightarrow> rectangle \<Rightarrow> bool gtk" where
  "motion_right ev rect = (case rect of (x, y, width, height) \<Rightarrow>
     sbind (attribute v_width) (\<lambda>w.
     seq (modify (\<lambda>v.
        if nle (I w) (ev_x ev) then v\<lparr>moving_right := I w\<rparr>
        else if nlt (ev_x ev) x then v\<lparr>right_cur := Some x\<rparr>
        else v\<lparr>right_cur := Some (ev_x ev)\<rparr>))
    (seq (queue_selection y height) (ret True))))"

definition motion_both :: "mouse \<Rightarrow> rectangle \<Rightarrow> bool gtk" where
  "motion_both ev rect = (case rect of (x, y, width, height) \<Rightarrow>
     sbind (attribute v_width) (\<lambda>w. sbind (attribute both_start) (\<lambda>start.
     let cur_e = nsub (I w) (nsub (nadd x width) start); cur_s = nsub start x in
     seq (modify (\<lambda>v. v\<lparr>both_cur := Some (
        if nlt (ev_x ev) cur_s then cur_s else if nlt cur_e (ev_x ev) then cur_e else ev_x ev)\<rparr>))
    (seq (queue_selection y height) (ret True)))))"

definition motion_top :: "extents \<Rightarrow> mouse \<Rightarrow> bool gtk" where
  "motion_top ext ev =
     seq (modify (\<lambda>v. v\<lparr>top_cur := Some (ev_x ev)\<rparr>))
    (sbind (attribute top_start) (\<lambda>start. sbind (attribute top_cur) (\<lambda>cur.
     sbind (ask (\<lambda>g. scale_data g (nsub start cur))) (\<lambda>delta.
     sbind (gets (\<lambda>v. get_range (v_graphic v))) (\<lambda>(left, right).
     seq (on_graphic (set_range ext (nadd left delta) (nadd right delta)))
    (seq (modify (\<lambda>v. v\<lparr>full_redraw := True, top_start := Some (ev_x ev)\<rparr>))
    (seq queue_draw (ret True))))))))"

definition set_cursor :: "string option \<Rightarrow> bool \<Rightarrow> bool gtk" where
  "set_cursor c r = seq (modify (\<lambda>v. v\<lparr>cursor := c\<rparr>)) (ret r)"

definition motion_idle :: "mouse \<Rightarrow> rectangle \<Rightarrow> rectangle \<Rightarrow> bool gtk" where
  "motion_idle ev rect d_rect = (case (rect, d_rect) of ((x, y, width, height), (d_x, d_y, d_width, d_height)) \<Rightarrow>
     if between (ev_y ev) y height \<and> (near (ev_x ev) x \<or> near (ev_x ev) (nadd x width)) then
       set_cursor (Some ''SB_H_DOUBLE_ARROW'') True
     else if between (ev_y ev) y height \<and> between (ev_x ev) x width then set_cursor (Some ''FLEUR'') True
     else if between (ev_y ev) d_y d_height \<and> between (ev_x ev) d_x d_width then set_cursor (Some ''FLEUR'') True
     else set_cursor None False)"

definition motion_notify :: "extents \<Rightarrow> mouse \<Rightarrow> bool gtk" where
  "motion_notify ext ev =
     sbind (ask get_selection_rectangle) (\<lambda>rect.
     sbind (gets moving_left) (\<lambda>l. if l then motion_left ev rect else
     sbind (gets moving_right) (\<lambda>r. if truth r then motion_right ev rect else
     sbind (gets moving_both) (\<lambda>b. if b then motion_both ev rect else
     sbind (gets moving_top) (\<lambda>t. if t then motion_top ext ev else
     sbind (gets (\<lambda>v. get_data_rectangle (v_graphic v))) (motion_idle ev rect))))))"

subsection \<open>Size and drawing\<close>

definition size_allocate :: "extents \<Rightarrow> int \<Rightarrow> int \<Rightarrow> unit gtk" where
  "size_allocate ext width height =
     seq (modify (\<lambda>v. v\<lparr>v_width := Some width, v_height := Some height\<rparr>))
    (seq (on_graphic (layout_graphic ext width height))
    (seq (modify (\<lambda>v. v\<lparr>full_redraw := True\<rparr>)) queue_draw))"

definition on_screen :: "screen_cmd list \<Rightarrow> unit gtk" where
  "on_screen cs = modify (\<lambda>v. v\<lparr>screen := screen v @ cs\<rparr>)"

definition redraw_buffer :: "extents \<Rightarrow> unit gtk" where
  "redraw_buffer ext = seq (modify (\<lambda>v. v\<lparr>buffer := Some (new_surface (v_graphic v))\<rparr>))
     (seq (paint_buffer ext) (modify (\<lambda>v. v\<lparr>full_redraw := False\<rparr>)))"

definition border_line :: "pynum \<Rightarrow> pynum \<Rightarrow> pynum \<Rightarrow> cmd list" where
  "border_line x y height = [Move_to x y, Rel_line_to (I 0) height, Close_path]"

definition expose_left :: "rectangle \<Rightarrow> unit gtk" where
  "expose_left rect = (case rect of (x, y, width, height) \<Rightarrow>
     sbind (attribute left_cur) (\<lambda>cur.
     on_screen (map Cairo (border_line (py_max cur (I 2)) y height @ stroke_black 1))))"

definition expose_right :: "rectangle \<Rightarrow> unit gtk" where
  "expose_right rect = (case rect of (x, y, width, height) \<Rightarrow>
     sbind (attribute right_cur) (\<lambda>cur. sbind (attribute v_width) (\<lambda>w.
     on_screen (map Cairo (border_line (py_min cur (I (w - 2))) y height @ stroke_black 1)))))"

definition expose_both :: "rectangle \<Rightarrow> unit gtk" where
  "expose_both rect = (case rect of (x, y, width, height) \<Rightarrow>
     sbind (attribute both_cur) (\<lambda>cur. sbind (attribute both_start) (\<lambda>start. let delta_x = nsub cur start in
     on_screen (map Cairo (border_line (nadd x delta_x) y height @ border_line (nadd (nadd x width) delta_x) y height @
       [black, Set_line_width (I 1), Stroke])))))"

definition expose :: "extents \<Rightarrow> int \<times> int \<times> int \<times> int \<Rightarrow> bool gtk" where
  "expose ext area = (case area of (ax, ay, aw, ah) \<Rightarrow>
     sbind (gets full_redraw) (\<lambda>full. seq (do_if full (redraw_buffer ext))
    (seq (on_screen [Cairo (Rectangle (I ax) (I ay) (I aw) (I ah)), Cairo Clip])
    (sbind (attribute buffer) (\<lambda>b. seq (on_screen [Source_surface b, Cairo Paint])
    (sbind (ask get_selection_rectangle) (\<lambda>rect.
     sbind (gets moving_left) (\<lambda>l. seq (do_if l (expose_left rect))
    (sbind (gets moving_right) (\<lambda>r. seq (do_if (truth r) (expose_right rect))
    (sbind (gets moving_both) (\<lambda>m. seq (do_if m (expose_both rect)) (ret False)))))))))))))"

section \<open>MainWindow\<close>

text \<open>
  The callbacks and signals that reach the widget, in the order in which they come. The dialog
  that asks for a file name is shown or not; its response 1 is the button \<open>Save\<close>.
\<close>

record main_window =
  w_render :: gtk_view
  w_dialog :: bool

datatype ui_event =
    Press mouse | Release mouse | Motion mouse
  | Allocate int int | Expose "int \<times> int \<times> int \<times> int"
  | Zoom_Out | Zoom_In
  | Output_Png
  | Response int string

definition on_render :: "'a gtk \<Rightarrow> (main_window, unit) proc" where
  "on_render m w = (case m (w_render w) of (r, v) \<Rightarrow>
     (case r of Inl e \<Rightarrow> Inl e | Inr _ \<Rightarrow> Inr (), w\<lparr>w_render := v\<rparr>))"

definition dialog_response :: "extents \<Rightarrow> int \<Rightarrow> string \<Rightarrow> (main_window, unit) proc" where
  "dialog_response ext response filename = do_if (response = 1)
     (seq (on_render (output_png ext filename)) (modify (\<lambda>w. w\<lparr>w_dialog := False\<rparr>)))"

fun handle :: "extents \<Rightarrow> ui_event \<Rightarrow> (main_window, unit) proc" where
  "handle ext (Press ev) = on_render (button_press ev)"
| "handle ext (Release ev) = on_render (button_release ext ev)"
| "handle ext (Motion ev) = on_render (motion_notify ext ev)"
| "handle ext (Allocate width height) = on_render (size_allocate ext width height)"
| "handle ext (Expose area) = on_render (expose ext area)"
| "handle ext Zoom_Out = on_render (set_smaller_zoom ext)"
| "handle ext Zoom_In = on_render (set_bigger_zoom ext)"
| "handle ext Output_Png = modify (\<lambda>w. w\<lparr>w_dialog := True\<rparr>)"
| "handle ext (Response response filename) = dialog_response ext response filename"

text \<open>\<open>run\<close>: the window of a graphic, and its state after a sequence of events.\<close>

definition open_window :: "graphic \<Rightarrow> palette \<Rightarrow> main_window" where
  "open_window g p = \<lparr> w_render = new_gtk_view g p, w_dialog = False \<rparr>"

definition after_events :: "extents \<Rightarrow> ui_event list \<Rightarrow> main_window \<Rightarrow> main_window" where
  "after_events ext evs w = foldl (\<lambda>w ev. snd (handle ext ev w)) w evs"

end
