(* ===== verification/Grid_Window.thy ===== *)
theory Grid_Window
  imports Grid_View
begin

text \<open>
  What the window of \<^verbatim>\<open>utils/grid.py\<close> keeps over every sequence of events: the parts agree on the
  range shown (\<open>range_agreed\<close>), and each handler acts on it as a gesture of an abstract view port
  (\<open>handlers_are_gestures\<close>), the handlers that raise and the divisions of integers included. Then the drag of
  a border, from the press to the release.
\<close>

section \<open>Rules for the widget's procedures\<close>

lemma keeps_on_graphic [keeps_intros]:
  "keeps Q m \<Longrightarrow> keeps (\<lambda>v. Q (v_graphic v)) (on_graphic m)"
  by (auto simp: keeps_def on_graphic_def split: prod.split)

lemma keeps_reads [keeps_intros]: "keeps P (ask f)" "keeps P (attribute h)"
  unfolding ask_def attribute_def by (auto intro!: keeps_intros split: option.split)

text \<open>Procedures that leave the graphic alone.\<close>

lemma keeps_graphic_parts [keeps_intros]:
  "keeps (\<lambda>v. Q (v_graphic v)) queue_draw"
  "keeps (\<lambda>v. Q (v_graphic v)) (queue_selection y h)"
  "keeps (\<lambda>v. Q (v_graphic v)) (paint_buffer ext)"
  "keeps (\<lambda>v. Q (v_graphic v)) (on_screen cs)"
  "keeps (\<lambda>v. Q (v_graphic v)) (set_cursor c r)"
  unfolding queue_draw_def queue_selection_def paint_buffer_def on_screen_def set_cursor_def
  by (intro keeps_intros; auto simp: keeps_def split: prod.split)+

lemma keeps_handle:
  assumes range: "\<And>a b. keeps Q (set_range ext a b)" and size: "\<And>w h. keeps Q (layout_graphic ext w h)"
  shows "keeps (\<lambda>w. Q (v_graphic (w_render w))) (handle ext ev)"
proof -
  have r: "keeps (\<lambda>w. Q (v_graphic (w_render w))) (on_render m)" if "keeps (\<lambda>v. Q (v_graphic v)) m" for m :: "'z gtk"
    using that by (auto simp: keeps_def on_render_def split: prod.split)
  note i = keeps_intros range size
  have show_range: "keeps (\<lambda>v. Q (v_graphic v)) (show_range ext a b)" for a b
    unfolding show_range_def by (intro i) simp
  show ?thesis
  proof (cases ev)
    case (Press m)
    show ?thesis unfolding Press handle.simps button_press_def by (intro r i) simp_all
  next
    case (Release m)
    show ?thesis unfolding Release handle.simps button_release_def release_left_def release_right_def release_both_def
      by (intro r i show_range) simp_all
  next
    case (Motion m)
    show ?thesis unfolding Motion handle.simps motion_notify_def motion_left_def motion_right_def motion_both_def
        motion_top_def motion_idle_def Let_def
      by (intro r i) simp_all
  next
    case (Expose area)
    show ?thesis unfolding Expose handle.simps expose_def redraw_buffer_def expose_left_def expose_right_def
        expose_both_def Let_def
      by (intro r i) simp_all
  next
    case (Response n f)
    show ?thesis unfolding Response handle.simps dialog_response_def output_png_def
      by (intro r i) simp_all
  qed (auto simp: size_allocate_def set_smaller_zoom_def set_bigger_zoom_def intro!: r i show_range)
qed

lemma after_events_keeps:
  assumes "\<And>ev. ev \<in> set evs \<Longrightarrow> keeps P (handle ext ev)" and "P w"
  shows "P (after_events ext evs w)"
  using assms
proof (induction evs arbitrary: w)
  case (Cons ev evs)
  have "P (snd (handle ext ev w))" using Cons.prems by (intro keeps_snd [where P = P]) simp_all
  then show ?case using Cons by (simp add: after_events_def)
qed (simp add: after_events_def)

lemma after_events_Cons: "after_events ext (ev # evs) w = after_events ext evs (snd (handle ext ev w))"
  by (simp add: after_events_def)

section \<open>The parts agree on the range\<close>

text \<open>The data a graphic was made for, and that every part shows the same range of it.\<close>

definition graphic_of :: "timeline list \<Rightarrow> int \<Rightarrow> int \<Rightarrow> graphic \<Rightarrow> bool" where
  "graphic_of ts lo hi g \<longleftrightarrow>
     g_start g = F (of_int lo) \<and> g_end g = F (of_int hi) \<and> sc_lo (bot_scale g) = I lo \<and> sc_hi (bot_scale g) = I hi \<and>
     tv_timelines (g_data g) = ts"

definition one_range :: "graphic \<Rightarrow> bool" where
  "one_range g \<longleftrightarrow>
     nval (g_start g) \<le> nval (r_start g) \<and> nval (r_end g) \<le> nval (g_end g) \<and>
     sc_lo (mid_scale g) = r_start g \<and> sc_hi (mid_scale g) = r_end g \<and>
     tv_start (g_data g) = r_start g \<and> tv_end (g_data g) = r_end g"

lemma layout_scale_bounds: "layout_scale ext w sc = (r, sc') \<Longrightarrow> sc_lo sc' = sc_lo sc \<and> sc_hi sc' = sc_hi sc"
  by (auto simp: layout_scale_def sbind_def split: sum.splits)

lemma layout_timelines_fields [simp]:
  "tv_timelines (layout_timelines ext w tv) = tv_timelines tv" "tv_start (layout_timelines ext w tv) = tv_start tv"
  "tv_end (layout_timelines ext w tv) = tv_end tv"
  by (simp_all add: layout_timelines_def Let_def)

lemma layout_keeps:
  "keeps (\<lambda>g. graphic_of ts lo hi g \<and> one_range g) (layout_graphic ext w h)"
  unfolding layout_graphic_def
proof (intro keeps_intros)
qed (auto simp: graphic_of_def one_range_def keeps_def on_mid_def on_bot_def split: prod.split dest: layout_scale_bounds)

lemma put_range_one: "graphic_of ts lo hi g \<Longrightarrow> graphic_of ts lo hi (put_range a b g) \<and> one_range (put_range a b g)"
  by (auto simp: graphic_of_def one_range_def put_range_def Let_def set_render_range_def set_bounds_def)

lemma set_range_one: "graphic_of ts lo hi g \<Longrightarrow> set_range ext a b g = (r, g') \<Longrightarrow> graphic_of ts lo hi g' \<and> one_range g'"
  using keepsD [OF layout_keeps put_range_one] by (fastforce simp: set_range_def)

text \<open>
  Claim C16. For every file that \<open>main\<close> can show and every sequence of events in the window,
  whether their handlers return or raise: the lower scale and the bounds are those of the file's
  data; the range shown starts no earlier than the data start and ends no later than they end; and
  the three parts that use it (the graphic, the data renderer, the scale below the data) agree on it. Nothing more is kept
  of its two ends: a drag beyond the end of the data shows a range that starts after it ends (\<open>shown_in_order\<close> below
  says when).
\<close>

theorem range_agreed:
  assumes "grid_main ext content = Inr (g, p)" and "timelines_bounds (snd (read_data content)) = (lo, hi)"
  shows "graphic_of (snd (read_data content)) lo hi (v_graphic (w_render (after_events ext evs (open_window g p)))) \<and>
    one_range (v_graphic (w_render (after_events ext evs (open_window g p))))"
proof -
  let ?ts = "snd (read_data content)"
  let ?P = "\<lambda>g. graphic_of ?ts lo hi g \<and> one_range g"
  obtain lg a b r where run: "set_range ext a b (set_data (new_timelines_view ?ts) (set_top_legend lg (new_graphic (I lo) (I hi)))) = (r, g)"
    using assms by (auto simp: grid_main_def Let_def rbind_def split: prod.splits sum.splits)
  have "graphic_of ?ts lo hi (set_data (new_timelines_view ?ts) (set_top_legend lg (new_graphic (I lo) (I hi))))"
    by (simp add: graphic_of_def set_data_def set_top_legend_def new_graphic_def to_float_def set_bot_def set_bounds_def
        new_timelines_view_def)
  from set_range_one [OF this run] have "?P g" .
  moreover have "keeps ?P (set_range ext x y)" for x y
    using set_range_one by (intro keepsI) (metis prod.collapse)
  ultimately show ?thesis
    using after_events_keeps [OF keeps_handle [of ?P ext, OF _ layout_keeps], of evs "open_window g p"]
    by (simp add: open_window_def new_gtk_view_def)
qed

section \<open>Ranges made of floats\<close>

definition range_float :: "graphic \<Rightarrow> bool" where
  "range_float g \<longleftrightarrow> is_float (g_start g) \<and> is_float (g_end g) \<and> is_float (r_start g) \<and> is_float (r_end g)"

lemma selection_scaled_float: "range_float g \<Longrightarrow> scale_selection g c = Inr q \<Longrightarrow> is_float q"
  by (auto simp: scale_selection_def rbind_def range_float_def split: sum.splits)

lemma put_range_float:
  "range_float g \<Longrightarrow> is_float a \<Longrightarrow> is_float b \<Longrightarrow> range_float (put_range a b g)"
  by (auto simp: range_float_def put_range_def Let_def py_max_def py_min_def)

lemma layout_keeps_float: "keeps range_float (layout_graphic ext w h)"
  unfolding layout_graphic_def
proof (intro keeps_intros)
qed (auto simp: range_float_def keeps_def on_mid_def on_bot_def split: prod.split)

lemma set_range_float: "is_float a \<Longrightarrow> is_float b \<Longrightarrow> keeps range_float (set_range ext a b)"
  unfolding set_range_def by (intro keeps_intros layout_keeps_float put_range_float)

section \<open>Handlers as gestures on a view port\<close>

text \<open>
  The abstract window: the bounds of the data and the interval shown of it, rational numbers. A
  gesture moves one border, both, or scales the interval at its left end, or halves it to a whole length; its
  result is put in order and cut to the bounds.
\<close>

type_synonym viewport = "(rat \<times> rat) \<times> rat \<times> rat"

definition viewport_of :: "graphic \<Rightarrow> viewport" where
  "viewport_of g = ((nval (g_start g), nval (g_end g)), nval (r_start g), nval (r_end g))"

datatype gesture = Stay | Left_To rat | Right_To rat | Pan rat | Zoom rat | Halve_Down

definition show_interval :: "rat \<Rightarrow> rat \<Rightarrow> viewport \<Rightarrow> viewport" where
  "show_interval a b vp = (case vp of ((lo, hi), _) \<Rightarrow> ((lo, hi), max lo (min a b), min hi (max a b)))"

fun act :: "gesture \<Rightarrow> viewport \<Rightarrow> viewport" where
  "act Stay vp = vp"
| "act (Left_To x) (bs, a, b) = show_interval x b (bs, a, b)"
| "act (Right_To x) (bs, a, b) = show_interval a x (bs, a, b)"
| "act (Pan d) (bs, a, b) = show_interval (a + d) (b + d) (bs, a, b)"
| "act (Zoom k) (bs, a, b) = show_interval a (a + k * (b - a)) (bs, a, b)"
| "act Halve_Down (bs, a, b) = show_interval a (a + of_int \<lfloor>(b - a) / 2\<rfloor>) (bs, a, b)"

text \<open>The interval shown is in order unless a gesture leaves the data altogether.\<close>

lemma shown_in_order:
  assumes "lo \<le> hi" "show_interval a b ((lo, hi), c) = (bs, x, y)"
  shows "x \<le> y \<longleftrightarrow> min a b \<le> hi \<and> lo \<le> max a b"
  using assms by (auto simp: show_interval_def)

text \<open>
  A distance on the screen as a part of a width: exact when one of them is a float, as the mouse's coordinates are;
  between integers the whole widths in it, which is 0 for a place within the widget.
\<close>

definition fraction :: "pynum \<Rightarrow> pynum \<Rightarrow> rat" where
  "fraction a b = (if is_float a \<or> is_float b then nval a / nval b else of_int \<lfloor>nval a / nval b\<rfloor>)"

lemma fraction_float: "is_float a \<Longrightarrow> fraction a b = nval a / nval b"
  by (simp add: fraction_def)

lemma ndiv_fraction: "nval b \<noteq> 0 \<Longrightarrow> \<exists>q. ndiv a b = Inr q \<and> nval q = fraction a b"
  by (cases a; cases b) (auto simp: ndiv_def fraction_def floor_of_int_div)

text \<open>A distance on the screen as a part of the data, and of the interval shown.\<close>

definition of_data :: "graphic \<Rightarrow> pynum \<Rightarrow> rat" where
  "of_data g d = fraction d (I (g_width g)) * (nval (g_end g) - nval (g_start g))"

definition data_area :: "graphic \<Rightarrow> pynum" where
  "data_area g = nsub (I (g_width g)) (get_data_x_start (g_data g))"

definition of_interval :: "graphic \<Rightarrow> pynum \<Rightarrow> rat" where
  "of_interval g d = fraction d (data_area g) * (nval (r_end g) - nval (r_start g))"

fun release_gesture :: "gtk_view \<Rightarrow> gesture" where
  "release_gesture v = (let g = v_graphic v in
     if g_width g = 0 then Stay
     else if moving_left v then (case left_cur v of None \<Rightarrow> Stay | Some c \<Rightarrow> Left_To (of_data g c))
     else if truth (moving_right v) then (case right_cur v of None \<Rightarrow> Stay | Some c \<Rightarrow> Right_To (of_data g c))
     else if moving_both v then (case (both_cur v, both_start v) of
         (Some c, Some s) \<Rightarrow> Pan (of_data g (nsub c s)) | _ \<Rightarrow> Stay)
     else Stay)"

fun motion_gesture :: "gtk_view \<Rightarrow> mouse \<Rightarrow> gesture" where
  "motion_gesture v m = (let g = v_graphic v in
     if moving_top v \<and> \<not> moving_left v \<and> \<not> truth (moving_right v) \<and> \<not> moving_both v \<and>
        nval (sc_lo (bot_scale g)) \<noteq> nval (sc_hi (bot_scale g)) \<and> nval (data_area g) \<noteq> 0
     then (case top_start v of None \<Rightarrow> Stay | Some s \<Rightarrow> Pan (of_interval g (nsub s (ev_x m))))
     else Stay)"

fun gesture_of :: "gtk_view \<Rightarrow> ui_event \<Rightarrow> gesture" where
  "gesture_of v Zoom_Out = Zoom 2"
| "gesture_of v Zoom_In =
     (if is_float (r_start (v_graphic v)) \<or> is_float (r_end (v_graphic v)) then Zoom (1 / 2) else Halve_Down)"
| "gesture_of v (Release m) = release_gesture v"
| "gesture_of v (Motion m) = motion_gesture v m"
| "gesture_of v _ = Stay"

lemma layout_viewport: "keeps (\<lambda>g. viewport_of g = vp) (layout_graphic ext w h)"
  unfolding layout_graphic_def
proof (intro keeps_intros)
qed (auto simp: viewport_of_def keeps_def on_mid_def on_bot_def split: prod.split)

lemma set_range_viewport:
  "viewport_of (snd (set_range ext a b g)) = show_interval (nval a) (nval b) (viewport_of g)"
proof -
  have "viewport_of (put_range a b g) = show_interval (nval a) (nval b) (viewport_of g)"
    by (simp add: viewport_of_def put_range_def show_interval_def Let_def)
  then show ?thesis
    using keeps_snd [OF layout_viewport, of "put_range a b g"] by (simp add: set_range_def)
qed

abbreviation seen :: "gtk_view \<Rightarrow> viewport" where "seen v \<equiv> viewport_of (v_graphic v)"

lemma sbind_snd: "snd (sbind m f s) = (case m s of (Inl e, t) \<Rightarrow> t | (Inr x, t) \<Rightarrow> snd (f x t))"
  by (auto simp: sbind_def split: prod.split sum.split)

lemma seen_on_graphic: "seen (snd (on_graphic m v)) = viewport_of (snd (m (v_graphic v)))"
  by (simp add: on_graphic_def split: prod.split)

lemma seen_keeps: "keeps (\<lambda>v. seen v = vp) m \<Longrightarrow> seen v = vp \<Longrightarrow> seen (snd (m v)) = vp"
  by (simp add: keeps_def)

lemma seen_after_range:
  assumes "\<And>vp. keeps (\<lambda>v. seen v = vp) n"
  shows "seen (snd (seq (on_graphic (set_range ext a b)) n v)) = show_interval (nval a) (nval b) (seen v)"
proof -
  obtain r v' where r: "on_graphic (set_range ext a b) v = (r, v')" by fastforce
  then have v': "seen v' = show_interval (nval a) (nval b) (seen v)"
    using seen_on_graphic [of "set_range ext a b" v] set_range_viewport by simp
  then have "seen (snd (n v')) = show_interval (nval a) (nval b) (seen v)" by (rule seen_keeps [OF assms])
  with v' r show ?thesis by (simp add: sbind_snd split: sum.split)
qed

lemma seen_show_range:
  "seen (snd (sbind (show_range ext a b) (\<lambda>_. ret c) v)) = show_interval (nval a) (nval b) (seen v)"
  "seen (snd (show_range ext a b v)) = show_interval (nval a) (nval b) (seen v)"
  unfolding show_range_def sbind_assoc by (rule seen_after_range, intro keeps_intros, simp)+

lemma scale_selection_value:
  assumes "g_width g \<noteq> 0"
  obtains q where "scale_selection g c = Inr q" "nval q = of_data g c"
  using ndiv_fraction [of "I (g_width g)" c] assms that by (auto simp: scale_selection_def of_data_def rbind_def)

lemma scale_selection_no_width: "g_width g = 0 \<Longrightarrow> scale_selection g c = Inl ZeroDivisionError"
  by (simp add: scale_selection_def rbind_def ndiv_zero)

lemma sbind_reads [simp]:
  "sbind (ask f) k v = (case f (v_graphic v) of Inl e \<Rightarrow> (Inl e, v) | Inr x \<Rightarrow> k x v)"
  "sbind (attribute h) k v = (case h v of None \<Rightarrow> (Inl AttributeError, v) | Some x \<Rightarrow> k x v)"
  by (auto simp: ask_def attribute_def sbind_def split: sum.split option.split)

lemma release_seen: "seen (snd (button_release ext m v)) = act (release_gesture v) (seen v)"
proof -
  let ?g = "v_graphic v"
  have left: "seen (snd (release_left ext v)) = (case left_cur v of None \<Rightarrow> seen v
      | Some c \<Rightarrow> if g_width ?g = 0 then seen v else act (Left_To (of_data ?g c)) (seen v))"
  proof (cases "left_cur v")
    case (Some c)
    show ?thesis
    proof (cases "g_width ?g = 0")
      case False
      then obtain q where "scale_selection ?g c = Inr q" "nval q = of_data ?g c"
        by (rule scale_selection_value)
      with Some False show ?thesis
        by (simp add: release_left_def seen_show_range get_range_def)
          (simp add: viewport_of_def)
    qed (simp add: Some release_left_def scale_selection_no_width)
  qed (simp add: release_left_def)
  have right: "seen (snd (release_right ext v)) = (case right_cur v of None \<Rightarrow> seen v
      | Some c \<Rightarrow> if g_width ?g = 0 then seen v else act (Right_To (of_data ?g c)) (seen v))"
  proof (cases "right_cur v")
    case (Some c)
    show ?thesis
    proof (cases "g_width ?g = 0")
      case False
      then obtain q where "scale_selection ?g c = Inr q" "nval q = of_data ?g c"
        by (rule scale_selection_value)
      with Some False show ?thesis
        by (simp add: release_right_def seen_show_range get_range_def)
          (simp add: viewport_of_def)
    qed (simp add: Some release_right_def scale_selection_no_width)
  qed (simp add: release_right_def)
  have both: "seen (snd (release_both ext v)) = (case (both_cur v, both_start v) of
      (Some c, Some s) \<Rightarrow> if g_width ?g = 0 then seen v else act (Pan (of_data ?g (nsub c s))) (seen v)
    | _ \<Rightarrow> seen v)"
  proof (cases "both_cur v \<noteq> None \<and> both_start v \<noteq> None")
    case True
    then obtain c s where cs: "both_cur v = Some c" "both_start v = Some s" by auto
    show ?thesis
    proof (cases "g_width ?g = 0")
      case False
      then obtain q where "scale_selection ?g (nsub c s) = Inr q" "nval q = of_data ?g (nsub c s)"
        by (rule scale_selection_value)
      with cs False show ?thesis
        by (simp add: release_both_def seen_show_range get_range_def)
          (simp add: viewport_of_def)
    qed (simp add: cs release_both_def scale_selection_no_width)
  qed (auto simp: release_both_def split: option.split)
  show ?thesis
    using left right both
    by (auto simp: button_release_def Let_def split: option.splits)
qed

lemma selection_rectangle_cases:
  obtains "nval (sc_lo (bot_scale g)) = nval (sc_hi (bot_scale g))" "get_selection_rectangle g = Inl ZeroDivisionError"
  | x y w h where "nval (sc_lo (bot_scale g)) \<noteq> nval (sc_hi (bot_scale g))" "get_selection_rectangle g = Inr (x, y, w, h)"
  by (auto simp: get_selection_rectangle_def get_position_def ndiv_def rbind_def Let_def split: if_splits)

lemma motion_top_seen:
  "seen (snd (motion_top ext m v)) = (case top_start v of None \<Rightarrow> seen v | Some s \<Rightarrow>
    if nval (data_area (v_graphic v)) = 0 then seen v else act (Pan (of_interval (v_graphic v) (nsub s (ev_x m)))) (seen v))"
proof (cases "top_start v")
  case (Some s)
  let ?g = "v_graphic v"
  have scaled: "scale_data ?g x = rbind (ndiv x (data_area ?g)) (\<lambda>q. Inr (nmul q (nsub (r_end ?g) (r_start ?g))))" for x
    by (simp add: scale_data_def data_area_def)
  show ?thesis
  proof (cases "nval (data_area ?g) = 0")
    case True
    then have "scale_data ?g (nsub s (ev_x m)) = Inl ZeroDivisionError" by (simp add: scaled ndiv_zero rbind_def)
    with Some True show ?thesis by (simp add: motion_top_def)
  next
    case False
    then obtain q where q: "scale_data ?g (nsub s (ev_x m)) = Inr q" "nval q = of_interval ?g (nsub s (ev_x m))"
      using ndiv_fraction [of "data_area ?g" "nsub s (ev_x m)"] by (auto simp: scaled rbind_def of_interval_def)
    have rest: "keeps (\<lambda>v. seen v = vp)
        (seq (modify (\<lambda>v. v\<lparr>full_redraw := True, top_start := Some (ev_x m)\<rparr>)) (seq queue_draw (ret True)))" for vp
      by (intro keeps_intros) simp
    have "seen (snd (motion_top ext m v)) = seen (snd (seq (on_graphic (set_range ext (nadd (r_start ?g) q) (nadd (r_end ?g) q)))
        (seq (modify (\<lambda>v. v\<lparr>full_redraw := True, top_start := Some (ev_x m)\<rparr>)) (seq queue_draw (ret True)))
        (v\<lparr>top_cur := Some (ev_x m)\<rparr>)))"
      using Some q by (simp add: motion_top_def get_range_def)
    also have "\<dots> = act (Pan (of_interval ?g (nsub s (ev_x m)))) (seen v)"
      unfolding seen_after_range [OF rest] using q by (simp add: viewport_of_def)
    finally show ?thesis using Some False by simp
  qed
qed (simp add: motion_top_def)

lemma motion_seen: "seen (snd (motion_notify ext m v)) = act (motion_gesture v m) (seen v)"
proof (cases rule: selection_rectangle_cases [of "v_graphic v"])
  case 1
  then show ?thesis by (simp add: motion_notify_def Let_def)
next
  case (2 x y w h)
  have k: "keeps (\<lambda>v. seen v = vp) (motion_left m (x, y, w, h))" "keeps (\<lambda>v. seen v = vp) (motion_right m (x, y, w, h))"
    "keeps (\<lambda>v. seen v = vp) (motion_both m (x, y, w, h))" "keeps (\<lambda>v. seen v = vp) (motion_idle m (x, y, w, h) r)"
    for vp :: viewport and r :: rectangle
    unfolding motion_left_def motion_right_def motion_both_def motion_idle_def Let_def by (intro keeps_intros; simp)+
  note k = seen_keeps [OF k(1) refl] seen_keeps [OF k(2) refl] seen_keeps [OF k(3) refl] seen_keeps [OF k(4) refl]
  show ?thesis using 2 motion_top_seen by (simp add: motion_notify_def k Let_def split: option.split)
qed

lemma handler_gesture: "seen (w_render (snd (handle ext ev w))) = act (gesture_of (w_render w) ev) (seen (w_render w))"
proof -
  let ?v = "w_render w"
  have r: "w_render (snd (on_render m w)) = snd (m ?v)" for m :: "'z gtk"
    by (simp add: on_render_def split: prod.split)
  let ?a = "r_start (v_graphic ?v)" and ?b = "r_end (v_graphic ?v)"
  have half: "nval (half (nsub ?b ?a)) = (if is_float ?a \<or> is_float ?b then (nval ?b - nval ?a) / 2
      else of_int \<lfloor>(nval ?b - nval ?a) / 2\<rfloor>)"
    using nval_half_float [of "nsub ?b ?a"] floor_of_int_div [of _ 2] by (cases ?a; cases ?b) (simp_all flip: of_int_diff)
  have stay: "seen (w_render (snd (handle ext ev w))) = seen ?v"
    if "keeps (\<lambda>w. seen (w_render w) = vp) (handle ext ev)" "vp = seen ?v" for vp
    using that by (simp add: keeps_def)
  have k: "keeps (\<lambda>w. seen (w_render w) = vp) (on_render m)" if "keeps (\<lambda>v. seen v = vp) m" for m :: "'z gtk" and vp
    using that by (auto simp: keeps_def on_render_def split: prod.split)
  show ?thesis
  proof (cases ev)
    case (Press m)
    have "keeps (\<lambda>w. seen (w_render w) = vp) (handle ext ev)" for vp
      unfolding Press handle.simps button_press_def by (intro k keeps_intros) simp_all
    with stay [OF _ refl] Press show ?thesis by simp
  next
    case (Allocate x y)
    have "keeps (\<lambda>w. seen (w_render w) = vp) (handle ext ev)" for vp
      unfolding Allocate handle.simps size_allocate_def by (intro k keeps_intros layout_viewport) simp_all
    with stay [OF _ refl] Allocate show ?thesis by simp
  next
    case (Expose area)
    have "keeps (\<lambda>w. seen (w_render w) = vp) (handle ext ev)" for vp
      unfolding Expose handle.simps expose_def redraw_buffer_def expose_left_def expose_right_def expose_both_def Let_def
      by (intro k keeps_intros) simp_all
    with stay [OF _ refl] Expose show ?thesis by simp
  next
    case (Response n f)
    have "keeps (\<lambda>w. seen (w_render w) = vp) (handle ext ev)" for vp
      unfolding Response handle.simps dialog_response_def output_png_def by (intro k keeps_intros) simp_all
    with stay [OF _ refl] Response show ?thesis by simp
  next
    case (Release m)
    then show ?thesis using release_seen by (simp only: handle.simps gesture_of.simps r)
  next
    case (Motion m)
    then show ?thesis using motion_seen by (simp only: handle.simps gesture_of.simps r)
  next
    case Zoom_Out
    then show ?thesis
      by (simp add: r set_smaller_zoom_def get_range_def seen_show_range) (simp add: viewport_of_def mult.commute)
  next
    case Zoom_In
    then show ?thesis
      by (simp add: r set_bigger_zoom_def get_range_def seen_show_range)
        (simp add: viewport_of_def half)
  qed simp
qed

fun gestures :: "extents \<Rightarrow> main_window \<Rightarrow> ui_event list \<Rightarrow> gesture list" where
  "gestures ext w [] = []"
| "gestures ext w (ev # evs) = gesture_of (w_render w) ev # gestures ext (snd (handle ext ev w)) evs"

text \<open>
  Claim C15. The window refines an abstract view port: for every window and every sequence of events the interval
  of the data on view is what the gestures make of it, one gesture a handler, whether the handler
  returns or raises. A release moves the border that was dragged to the part of the data at which
  it was dropped, a release of the selection shifts the interval by the way the mouse went, a
  motion over the data pans it, the buttons double or halve it, and every other event, or a
  handler that fails before it sets the range, leaves it alone; every result is put in order and
  cut to the bounds of the data. Where Python divides integers the gesture rounds down: an interval between integers, as
  the one that \<open>main\<close> shows first, is halved to a whole length, and a border that \<open>motion_notify\<close> stopped at an
  integer place within the widget goes to the start of the time axis (\<open>fraction\<close>).
\<close>

theorem handlers_are_gestures:
  "viewport_of (v_graphic (w_render (after_events ext evs w))) =
    foldl (\<lambda>vp g. act g vp) (viewport_of (v_graphic (w_render w))) (gestures ext w evs)"
proof (induction evs arbitrary: w)
  case (Cons ev evs)
  then show ?case using handler_gesture [of ext ev w] by (simp add: after_events_def)
qed (simp add: after_events_def)

section \<open>Dragging a border of the selection\<close>

text \<open>What \<open>main\<close> and the first allocation of a size establish.\<close>

definition laid_out :: "int \<Rightarrow> graphic \<Rightarrow> bool" where
  "laid_out w g \<longleftrightarrow> g_width g = w \<and> sc_width (bot_scale g) = I w"

lemma layout_scale_width: "layout_scale ext w sc = (r, sc') \<Longrightarrow> sc_width sc' = w \<or> sc' = sc"
  by (auto simp: layout_scale_def sbind_def split: sum.splits)

lemma layout_laid_out: "laid_out w g \<Longrightarrow> g_height g = h \<Longrightarrow> laid_out w (snd (layout_graphic ext w h g))"
proof -
  assume g: "laid_out w g" "g_height g = h"
  have scales: "keeps (laid_out w) (on_mid (layout_scale ext m))" "keeps (laid_out w) (on_bot (layout_scale ext (I w)))" for m
    by (auto simp: keeps_def laid_out_def on_mid_def on_bot_def split: prod.split dest: layout_scale_width)
  have "keeps (laid_out w) (layout_graphic ext w h)"
    unfolding layout_graphic_def by (intro keeps_intros scales) (simp add: laid_out_def)
  with g show ?thesis by (simp add: keeps_def)
qed

lemma set_range_laid_out: "keeps (laid_out w) (set_range ext a b)"
proof (rule keepsI)
  fix g
  assume g: "laid_out w g"
  then have "laid_out w (put_range a b g)" "g_width (put_range a b g) = w"
    by (simp_all add: laid_out_def put_range_def Let_def)
  then show "laid_out w (snd (set_range ext a b g))"
    using layout_laid_out [of w "put_range a b g" _ ext] by (simp add: set_range_def)
qed

lemma position_value:
  assumes "graphic_of ts lo hi g" "laid_out w g" "lo < hi" "is_float r"
  shows "get_position (bot_scale g) r = Inr (F ((nval r - of_int lo) * of_int w / of_int (hi - lo)))"
proof -
  have "ndiv (nmul (nsub r (I lo)) (I w)) (nsub (I hi) (I lo)) =
      Inr (F (nval (nmul (nsub r (I lo)) (I w)) / nval (nsub (I hi) (I lo))))"
    using assms(3,4) by (intro ndiv_float) (simp_all only: is_float_arith nval_arith nval_base, simp_all)
  moreover have "sc_lo (bot_scale g) = I lo" "sc_hi (bot_scale g) = I hi" "sc_width (bot_scale g) = I w"
    using assms(1,2) by (simp_all add: graphic_of_def laid_out_def)
  ultimately show ?thesis by (simp only: get_position_def nval_arith nval_base of_int_diff)
qed

text \<open>The left border dropped at \<open>c\<close>.\<close>

lemma dropped_left:
  fixes ts w g c g' w'
  assumes g: "graphic_of ts lo hi g" "range_float g" "laid_out w g" "one_range g" and w: "0 < w" "0 \<le> lo" "lo < hi"
    and pos: "get_position (bot_scale g) (r_end g) = Inr xe" and c: "is_float c" "0 < nval c" "nval c < nval xe"
    and q: "scale_selection g c = Inr q" and run: "set_range ext q (r_end g) g = (r, g')"
  shows "\<exists>x'. get_position (bot_scale g') (r_start g') = Inr x' \<and> get_position (bot_scale g') (r_end g') = Inr xe \<and>
    nval x' = max 0 (nval c - of_int lo * of_int w / of_int (hi - lo))"
proof -
  let ?l = "of_int lo :: rat" and ?h = "of_int hi :: rat" and ?w = "of_int w :: rat" and ?e = "nval (r_end g)"
  have pos': "0 < ?w" "0 < ?h - ?l" using w by simp_all
  have float: "is_float (r_end g)" using g(2) by (simp add: range_float_def)
  have xe: "xe = F ((?e - ?l) * ?w / (?h - ?l))" using pos position_value [OF g(1,3) w(3) float] by simp
  obtain q' where "scale_selection g c = Inr q'" "nval q' = of_data g c"
    using scale_selection_value [of g c] g(3) w(1) by (auto simp: laid_out_def)
  then have qv: "nval q = nval c / ?w * (?h - ?l)" "is_float q"
    using q g selection_scaled_float [OF g(2) q] c(1) by (auto simp: of_data_def fraction_float graphic_of_def laid_out_def)
  have g': "graphic_of ts lo hi g'" "laid_out w g'" "range_float g'"
    using set_range_one [OF g(1) run] keepsD [OF set_range_laid_out g(3) run]
      keepsD [OF set_range_float g(2) run] qv(2) float by blast+
  have le: "nval q \<le> ?e - ?l"
  proof -
    have "nval c * (?h - ?l) \<le> (?e - ?l) * ?w" using c(3) pos' by (simp add: xe pos_less_divide_eq)
    then show ?thesis using pos' by (simp add: qv(1) pos_divide_le_eq)
  qed
  have "viewport_of g' = show_interval (nval q) ?e (viewport_of g)"
    using set_range_viewport [of ext q "r_end g" g] run by simp
  moreover have "?e \<le> ?h" using g(1,4) by (simp add: one_range_def graphic_of_def)
  moreover have "nval q \<le> ?e"
  proof -
    have "0 \<le> ?l" using w(2) by simp
    with le show ?thesis by linarith
  qed
  ultimately have r: "nval (r_start g') = max ?l (nval q)" "nval (r_end g') = ?e"
    using g(1) by (auto simp: viewport_of_def show_interval_def graphic_of_def)
  have "get_position (bot_scale g') (r_start g') = Inr (F ((max ?l (nval q) - ?l) * ?w / (?h - ?l)))"
    "get_position (bot_scale g') (r_end g') = Inr xe"
    using position_value [OF g'(1,2) w(3)] g'(3) r xe by (simp_all add: range_float_def)
  moreover have "(max ?l (nval q) - ?l) * ?w / (?h - ?l) = max 0 (nval c - ?l * ?w / (?h - ?l))"
  proof -
    have "nval q * ?w / (?h - ?l) = nval c" using pos' by (simp add: qv(1))
    then have "(nval q - ?l) * ?w / (?h - ?l) = nval c - ?l * ?w / (?h - ?l)"
      by (simp add: left_diff_distrib diff_divide_distrib)
    moreover have "(max ?l (nval q) - ?l) * ?w / (?h - ?l) = max 0 ((nval q - ?l) * ?w / (?h - ?l))"
      using pos' by (auto simp: max_def divide_le_0_iff zero_le_divide_iff zero_le_mult_iff mult_le_0_iff)
    ultimately show ?thesis by simp
  qed
  ultimately show ?thesis by simp
qed

lemma on_render_snd [simp]: "w_render (snd (on_render m w)) = snd (m (w_render w))"
  by (simp add: on_render_def split: prod.split)

lemma graphic_show_range:
  "v_graphic (snd (sbind (show_range ext a b) (\<lambda>_. ret c) v)) = snd (set_range ext a b (v_graphic v))"
  by (simp add: show_range_def sbind_assoc sbind_snd on_graphic_def queue_draw_def split: prod.split sum.split)

lemma sbind_queue:
  "v_width v = Some w \<Longrightarrow> sbind (queue_selection y h) k v =
     k () (v\<lparr>redraws := redraws v @ [Area 0 (nint y) w (nint h)]\<rparr>)"
  by (simp add: queue_selection_def sbind_assoc)

lemma graphic_release_left:
  assumes "moving_left v" "left_cur v = Some c" "scale_selection (v_graphic v) c = Inr q"
  shows "v_graphic (snd (button_release ext r v)) = snd (set_range ext q (r_end (v_graphic v)) (v_graphic v))"
  using assms by (simp add: button_release_def release_left_def graphic_show_range get_range_def)

text \<open>
  Dragging the left border: a press near the border, a motion to a place within the
  widget and left of the other border, and a release leave the other border where it was and put
  the left border of the selection under the mouse when the data begin at time 0. When they begin
  at a later time \<open>lo\<close>, the border jumps to the left by the width that \<open>lo\<close> would have on the
  scale, or to the beginning of the data: the conversion of a position to a time leaves out the
  start of the data.
\<close>

theorem left_border_follows_mouse:
  assumes "graphic_of ts lo hi (v_graphic (w_render win))" "one_range (v_graphic (w_render win))"
    and "range_float (v_graphic (w_render win))" "laid_out w (v_graphic (w_render win))"
    and "v_width (w_render win) = Some w" "0 < w" "0 \<le> lo" "lo < hi"
    and "get_selection_rectangle (v_graphic (w_render win)) = Inr (x, y, sw, sh)"
    and "between (ev_y p) y sh" "near (ev_x p) x"
    and "is_float (ev_x m)" "0 < nval (ev_x m)" "nval (ev_x m) < nval x + nval sw"
  shows "\<exists>x' y' sw' sh'.
    get_selection_rectangle (v_graphic (w_render (after_events ext [Press p, Motion m, Release r] win))) =
      Inr (x', y', sw', sh') \<and>
    nval x' = max 0 (nval (ev_x m) - of_int lo * of_int w / of_int (hi - lo)) \<and> nval x' + nval sw' = nval x + nval sw"
proof -
  let ?v = "w_render win" and ?g = "v_graphic (w_render win)"
  obtain xe where xe: "get_position (bot_scale ?g) (r_end ?g) = Inr xe" "sw = nsub xe x"
    using assms(9) by (auto simp: get_selection_rectangle_def Let_def rbind_def split: sum.splits)
  obtain q where q: "scale_selection ?g (ev_x m) = Inr q"
    using scale_selection_value [of ?g "ev_x m"] assms(4,6) by (auto simp: laid_out_def)
  have press: "button_press p ?v = (Inr True, ?v\<lparr>moving_left := True\<rparr>)"
    using assms(9-11) by (simp add: button_press_def case_prod_unfold)
  define v1 where "v1 = ?v\<lparr>moving_left := True, left_cur := Some (ev_x m)\<rparr>"
  have inside: "\<not> nle (ev_x m) (I 0)" "\<not> nle (nadd x sw) (ev_x m)" using assms(13,14) by (simp_all add: nle_def)
  have motion: "motion_notify ext m (?v\<lparr>moving_left := True\<rparr>) =
      (Inr True, v1\<lparr>redraws := redraws ?v @ [Area 0 (nint y) w (nint sh)]\<rparr>)"
    using assms(5,9) inside by (simp add: motion_notify_def motion_left_def sbind_queue v1_def)
  have "v_graphic (w_render (after_events ext [Press p, Motion m, Release r] win)) =
      snd (set_range ext q (r_end ?g) ?g)"
    using press motion q graphic_release_left [of "v1\<lparr>redraws := redraws ?v @ [Area 0 (nint y) w (nint sh)]\<rparr>" "ev_x m" q ext r]
    by (simp add: after_events_def v1_def)
  moreover obtain res g' where "set_range ext q (r_end ?g) ?g = (res, g')" by fastforce
  moreover have "nval (ev_x m) < nval xe" using assms(14) xe(2) by simp
  note dropped_left [OF assms(1,3,4,2,6-8) xe(1) assms(12,13) this q \<open>set_range ext q (r_end ?g) ?g = (res, g')\<close>]
  ultimately obtain x' where "get_position (bot_scale g') (r_start g') = Inr x'" "get_position (bot_scale g') (r_end g') = Inr xe"
    "nval x' = max 0 (nval (ev_x m) - of_int lo * of_int w / of_int (hi - lo))"
    "v_graphic (w_render (after_events ext [Press p, Motion m, Release r] win)) = g'"
    by auto
  then show ?thesis using xe(2) by (simp add: get_selection_rectangle_def Let_def rbind_def)
qed

text \<open>
  The right border cannot be dropped at the right edge of the widget: when it is
  released after a press without a motion, or after motions that all lie at or beyond the edge,
  the handler raises \<open>AttributeError\<close> and the range shown is what it was, because \<open>motion_notify\<close>
  then assigns the width to \<open>__moving_right\<close> instead of \<open>__moving_right_cur\<close>.
\<close>

theorem right_border_lost_at_edge:
  assumes "get_selection_rectangle (v_graphic (w_render win)) = Inr (x, y, sw, sh)"
    and "between (ev_y p) y sh" "\<not> near (ev_x p) x" "near (ev_x p) (nadd x sw)"
    and "\<not> moving_left (w_render win)" "right_cur (w_render win) = None"
    and "v_width (w_render win) = Some w" "0 < w" "list_all (\<lambda>m. of_int w \<le> nval (ev_x m)) ms"
    and "win' = after_events ext (Press p # map Motion ms) win"
  shows "v_graphic (w_render win') = v_graphic (w_render win) \<and>
    fst (handle ext (Release r) win') = Inl AttributeError \<and>
    v_graphic (w_render (snd (handle ext (Release r) win'))) = v_graphic (w_render win)"
proof -
  define P where "P v \<longleftrightarrow> v_graphic v = v_graphic (w_render win) \<and> \<not> moving_left v \<and> truth (moving_right v) \<and>
      right_cur v = None \<and> v_width v = Some w" for v :: gtk_view
  have press: "P (w_render (snd (handle ext (Press p) win)))"
    using assms(1-7) by (simp add: button_press_def case_prod_unfold on_render_def P_def truth_def neq0_def)
  have motion: "keeps (\<lambda>v. P (w_render v)) (handle ext (Motion m))" if "m \<in> set ms" for m
  proof (rule keepsI)
    fix u :: main_window
    assume u: "P (w_render u)"
    have "nle (I w) (ev_x m)" using assms(9) that by (auto simp: list_all_iff nle_def)
    then have "motion_notify ext m (w_render u) = (Inr True, (w_render u)\<lparr>moving_right := I w,
        redraws := redraws (w_render u) @ [Area 0 (nint y) w (nint sh)]\<rparr>)"
      using u assms(1) by (simp add: P_def motion_notify_def motion_right_def sbind_queue)
    then show "P (w_render (snd (handle ext (Motion m) u)))"
      using u assms(8) by (simp add: on_render_def P_def truth_def neq0_def)
  qed
  have "keeps (\<lambda>v. P (w_render v)) (handle ext ev)" if "ev \<in> set (map Motion ms)" for ev
    using that motion by (auto simp del: handle.simps)
  from after_events_keeps [where P = "\<lambda>v. P (w_render v)", OF this press] have "P (w_render win')"
    by (simp only: assms(10) after_events_Cons)
  then show ?thesis
    by (simp add: P_def on_render_def button_release_def release_right_def)
qed

section \<open>A window\<close>

lemma sample_opens:
  assumes "read_data content = (p, ts)" "timelines_bounds ts = (lo, hi)"
    and "lookup_all (all_range_values ts) p = Inr (cs, p')"
    and "initial_view ts = (a, b)" "lo \<le> a" "a \<le> b" "b \<le> hi" "b - a \<noteq> 1" "hi - lo \<noteq> 1"
  shows "\<exists>g. grid_main ext content = Inr (g, p')"
proof -
  let ?g = "set_data (new_timelines_view ts) (set_top_legend (set_legends (all_range_values ts) cs new_legend) (new_graphic (I lo) (I hi)))"
  have mid: "nval (sc_hi (mid_scale (put_range (I a) (I b) ?g))) - nval (sc_lo (mid_scale (put_range (I a) (I b) ?g))) \<noteq> 1"
  proof -
    have "max (of_int lo) (min (of_int a) (of_int b)) = (of_int a :: rat)"
      "min (of_int hi) (max (of_int a) (of_int b)) = (of_int b :: rat)" using assms(5-7) by simp_all
    then show ?thesis using assms(8)
      by (simp add: put_range_def Let_def set_bounds_def set_data_def set_top_legend_def new_graphic_def to_float_def
          flip: of_int_diff)
  qed
  have bot: "nval (sc_hi (bot_scale (put_range (I a) (I b) ?g))) - nval (sc_lo (bot_scale (put_range (I a) (I b) ?g))) \<noteq> 1"
    using assms(9) by (simp add: put_range_def Let_def set_data_def set_top_legend_def new_graphic_def set_bot_def
        set_bounds_def flip: of_int_diff)
  have "\<exists>g. set_range ext (I a) (I b) ?g = (Inr (), g)"
    using mid bot
    by (simp add: set_range_def layout_graphic_def on_mid_def on_bot_def sbind_def layout_scale_value(2))
  then show ?thesis using assms(1-4) by (auto simp: grid_main_def)
qed

definition sample_file :: string where
  "sample_file = unlines_py [''range node tx IDLE 0 40'', ''range node tx BUSY 40 100'', ''event-int node rx 5 30'']"

lemma sample_read:
  "fst (read_data sample_file) = ([], default_colors)"
  "timelines_bounds (snd (read_data sample_file)) = (0, 100)"
  "all_range_values (snd (read_data sample_file)) = [''IDLE'', ''BUSY'']"
  "initial_view (snd (read_data sample_file)) = (45, 55)"
  by code_simp+

lemma sample_lookup: "\<exists>cs p. lookup_all [''IDLE'', ''BUSY''] ([], default_colors) = Inr (cs, p)"
proof -
  have "case lookup_all [''IDLE'', ''BUSY''] ([], default_colors) of Inl _ \<Rightarrow> False | Inr _ \<Rightarrow> True" by code_simp
  then show ?thesis by (auto split: sum.splits)
qed

lemma sample_main: "\<exists>g p. grid_main ext sample_file = Inr (g, p)"
proof -
  obtain pal ts where r: "read_data sample_file = (pal, ts)" by fastforce
  obtain cs p where l: "lookup_all [''IDLE'', ''BUSY''] ([], default_colors) = Inr (cs, p)" using sample_lookup by blast
  have v: "timelines_bounds ts = (0, 100)" "initial_view ts = (45, 55)" "lookup_all (all_range_values ts) pal = Inr (cs, p)"
    using sample_read l by (simp_all add: r)
  have "\<exists>g. grid_main ext sample_file = Inr (g, p)" by (rule sample_opens [OF r v(1,3,2)]) simp_all
  then show ?thesis by blast
qed

definition mouse_at :: "rat \<Rightarrow> rat \<Rightarrow> mouse" where "mouse_at x y = \<lparr> ev_x = F x, ev_y = F y \<rparr>"

theorem range_agreed_witness:
  "\<exists>g p. grid_main sample_text sample_file = Inr (g, p) \<and>
    graphic_of (snd (read_data sample_file)) 0 100
      (v_graphic (w_render (after_events sample_text [Allocate 400 200, Zoom_In, Press (mouse_at 1 1)] (open_window g p)))) \<and>
    one_range
      (v_graphic (w_render (after_events sample_text [Allocate 400 200, Zoom_In, Press (mouse_at 1 1)] (open_window g p))))"
proof -
  obtain g p where g: "grid_main sample_text sample_file = Inr (g, p)" using sample_main by blast
  with range_agreed [OF g sample_read(2)] show ?thesis by blast
qed

text \<open>The range of integers that \<open>main\<close> shows, zoomed in three times.\<close>

definition whole_range :: "int \<Rightarrow> int \<Rightarrow> graphic \<Rightarrow> bool" where
  "whole_range a b g \<longleftrightarrow> g_start g = F 0 \<and> g_end g = F 100 \<and> r_start g = I a \<and> r_end g = I b"

lemma layout_whole: "keeps (whole_range a b) (layout_graphic ext w h)"
  unfolding layout_graphic_def
proof (intro keeps_intros)
qed (auto simp: whole_range_def keeps_def on_mid_def on_bot_def split: prod.split)

lemma set_range_whole:
  assumes "g_start g = F 0" "g_end g = F 100" "0 < a" "a \<le> b" "b < 100"
  shows "whole_range a b (snd (set_range ext (I a) (I b) g))"
proof -
  have "whole_range a b (put_range (I a) (I b) g)"
    using assms by (simp add: whole_range_def put_range_def Let_def py_max_def py_min_def)
  from keeps_snd [OF layout_whole this] show ?thesis by (simp add: set_range_def)
qed

lemma zoom_in_whole:
  assumes "whole_range a b (v_graphic (w_render w))" "0 < a" "a \<le> b" "b < 100"
  shows "whole_range a (a + (b - a) div 2) (v_graphic (w_render (snd (handle ext Zoom_In w))))"
    and "gesture_of (w_render w) Zoom_In = Halve_Down"
proof -
  let ?g = "v_graphic (w_render w)"
  have "v_graphic (w_render (snd (handle ext Zoom_In w))) = snd (set_range ext (I a) (I (a + (b - a) div 2)) ?g)"
    using assms(1) by (simp add: set_bigger_zoom_def get_range_def whole_range_def show_range_def sbind_snd on_graphic_def
        queue_draw_def split: prod.split sum.split)
  then show "whole_range a (a + (b - a) div 2) (v_graphic (w_render (snd (handle ext Zoom_In w))))"
    using assms set_range_whole [of ?g a "a + (b - a) div 2" ext] by (simp add: whole_range_def)
  show "gesture_of (w_render w) Zoom_In = Halve_Down" using assms(1) by (simp add: whole_range_def)
qed

lemma sample_main_whole:
  assumes "grid_main ext sample_file = Inr (g, p)"
  shows "whole_range 45 55 g"
proof -
  let ?ts = "snd (read_data sample_file)"
  obtain lg r where run: "set_range ext (I 45) (I 55) (set_data (new_timelines_view ?ts) (set_top_legend lg (new_graphic (I 0) (I 100)))) = (r, g)"
    using assms sample_read(2,4) by (auto simp: grid_main_def Let_def rbind_def split: prod.splits sum.splits)
  have "whole_range 45 55 (snd (set_range ext (I 45) (I 55)
      (set_data (new_timelines_view ?ts) (set_top_legend lg (new_graphic (I 0) (I 100))))))"
    by (rule set_range_whole) (simp_all add: set_data_def set_top_legend_def new_graphic_def to_float_def)
  then show ?thesis by (simp add: run)
qed

theorem handlers_are_gestures_witness:
  "\<exists>g p. grid_main sample_text sample_file = Inr (g, p) \<and>
    viewport_of (v_graphic (w_render (after_events sample_text [Zoom_In, Zoom_In, Zoom_In] (open_window g p)))) = ((0, 100), 45, 46)"
proof -
  obtain g p where g: "grid_main sample_text sample_file = Inr (g, p)" using sample_main by blast
  let ?w = "open_window g p"
  have w: "whole_range 45 55 (v_graphic (w_render ?w))"
    using sample_main_whole [OF g] by (simp add: open_window_def new_gtk_view_def)
  let ?z = "\<lambda>w. snd (handle sample_text Zoom_In w)"
  have z1: "whole_range 45 50 (v_graphic (w_render (?z ?w)))"
    using zoom_in_whole(1) [OF w, of sample_text] by (simp del: handle.simps)
  have z2: "whole_range 45 47 (v_graphic (w_render (?z (?z ?w))))"
    using zoom_in_whole(1) [OF z1, of sample_text] by (simp del: handle.simps)
  have "gesture_of (w_render ?w) Zoom_In = Halve_Down" "gesture_of (w_render (?z ?w)) Zoom_In = Halve_Down"
    "gesture_of (w_render (?z (?z ?w))) Zoom_In = Halve_Down"
    using zoom_in_whole(2) [OF w] zoom_in_whole(2) [OF z1] zoom_in_whole(2) [OF z2]
    by (simp_all del: handle.simps gesture_of.simps)
  then have gs: "gestures sample_text ?w [Zoom_In, Zoom_In, Zoom_In] = [Halve_Down, Halve_Down, Halve_Down]"
    by (simp del: handle.simps gesture_of.simps)
  have "viewport_of (v_graphic (w_render ?w)) = ((0, 100), 45, 55)" using w by (simp add: viewport_of_def whole_range_def)
  moreover have "\<lfloor>5 / 2 :: rat\<rfloor> = 2" by (rule floor_unique) simp_all
  then have "foldl (\<lambda>vp g. act g vp) ((0, 100), 45, 55) [Halve_Down, Halve_Down, Halve_Down] = ((0, 100), 45, 46)"
    by (simp add: show_interval_def)
  ultimately show ?thesis
    using handlers_are_gestures [of sample_text "[Zoom_In, Zoom_In, Zoom_In]" ?w] gs g by metis
qed

text \<open>A window 400 wide, whose data go from 0 to 100 and that shows the times from 40 to 60.\<close>

definition sample_graphic :: graphic where
  "sample_graphic = \<lparr> g_start = F 0, g_end = F 100,
     mid_scale = new_scale\<lparr>sc_top := 1, sc_lo := F 40, sc_hi := F 60, sc_height := I 22\<rparr>,
     bot_scale = new_scale\<lparr>sc_hi := I 100, sc_width := I 400, sc_height := I 22\<rparr>,
     g_width = 400, g_height = 200, r_start = F 40, r_end = F 60,
     g_data = (new_timelines_view [])\<lparr>tv_start := F 40, tv_end := F 60, tv_height := I 57\<rparr>,
     g_legend = new_legend\<lparr>lg_height := I 22\<rparr> \<rparr>"

definition sample_window :: main_window where
  "sample_window = (open_window sample_graphic ([], default_colors))
     \<lparr>w_render := (new_gtk_view sample_graphic ([], default_colors))\<lparr>v_width := Some 400, v_height := Some 200\<rparr>\<rparr>"

lemma sample_parts [simp]:
  "v_graphic (w_render sample_window) = sample_graphic" "v_width (w_render sample_window) = Some 400"
  "moving_left (w_render sample_window) = False" "right_cur (w_render sample_window) = None"
  "get_selection_rectangle sample_graphic = Inr (F 160, I 121, F 80, I 42)"
  by (simp_all add: sample_window_def new_gtk_view_def sample_graphic_def get_selection_rectangle_def get_position_def
      ndiv_def rbind_def new_scale_def new_legend_def new_timelines_view_def)

lemma sample_facts:
  "graphic_of [] 0 100 sample_graphic" "one_range sample_graphic" "range_float sample_graphic" "laid_out 400 sample_graphic"
  by (simp_all add: graphic_of_def one_range_def range_float_def laid_out_def sample_graphic_def new_scale_def
      new_timelines_view_def)

theorem left_border_follows_mouse_witness:
  "\<exists>x' y' sw' sh'. get_selection_rectangle (v_graphic (w_render (after_events sample_text
      [Press (mouse_at 162 130), Motion (mouse_at 100 150), Release (mouse_at 100 150)] sample_window))) =
      Inr (x', y', sw', sh') \<and> nval x' = 100 \<and> nval x' + nval sw' = 240"
  using left_border_follows_mouse [where win = sample_window and ts = "[]" and lo = 0 and hi = 100 and w = 400 and
      x = "F 160" and y = "I 121" and sw = "F 80" and sh = "I 42" and p = "mouse_at 162 130" and m = "mouse_at 100 150" and
      r = "mouse_at 100 150" and ext = sample_text] sample_facts
  by (simp add: mouse_at_def between_def near_def nlt_def)

theorem right_border_lost_at_edge_witness:
  "fst (handle sample_text (Release (mouse_at 410 130))
      (after_events sample_text [Press (mouse_at 238 130), Motion (mouse_at 400 130), Motion (mouse_at 410 130)] sample_window)) =
    Inl AttributeError"
  using right_border_lost_at_edge [where win = sample_window and w = 400 and x = "F 160" and y = "I 121" and sw = "F 80" and
      sh = "I 42" and p = "mouse_at 238 130" and ms = "[mouse_at 400 130, mouse_at 410 130]" and r = "mouse_at 410 130" and
      ext = sample_text, OF _ _ _ _ _ _ _ _ _ refl]
  by (simp add: mouse_at_def between_def near_def nlt_def del: handle.simps)

end
