(* ===== verification/Viz_Base.thy ===== *)
theory Viz_Base
  imports Py_State Os_Path Complex_Main
begin

text \<open>
  \<^verbatim>\<open>src/visualizer/visualizer/base.py\<close>: what kind of link a network device stands for, the scale
  between simulation and canvas, and the registration of plugins. Classes, functions and modules
  are their names; the outcome of importing a plugin is a parameter. The module variables are the
  fields of a record.
\<close>

section \<open>Traits of network devices\<close>

record traits =
  is_wireless :: "bool option"
  is_virtual :: bool

definition NetDeviceTraits :: "bool option \<Rightarrow> bool \<Rightarrow> py_error + traits" where
  "NetDeviceTraits wireless virt =
     (if virt \<or> wireless \<noteq> None then Inr \<lparr> is_wireless = wireless, is_virtual = virt \<rparr> else Inl AssertionError)"

definition netdevice_traits :: "(string, traits) dict" where
  "netdevice_traits =
     [(''PointToPointNetDevice'', \<lparr> is_wireless = Some False, is_virtual = False \<rparr>),
      (''CsmaNetDevice'', \<lparr> is_wireless = Some False, is_virtual = False \<rparr>),
      (''WifiNetDevice'', \<lparr> is_wireless = Some True, is_virtual = False \<rparr>),
      (''BridgeNetDevice'', \<lparr> is_wireless = None, is_virtual = True \<rparr>),
      (''LoopbackNetDevice'', \<lparr> is_wireless = Some False, is_virtual = True \<rparr>),
      (''MeshPointDevice'', \<lparr> is_wireless = None, is_virtual = True \<rparr>),
      (''SubscriberStationNetDevice'', \<lparr> is_wireless = Some True, is_virtual = False \<rparr>),
      (''BaseStationNetDevice'', \<lparr> is_wireless = Some True, is_virtual = False \<rparr>),
      (''LteUeNetDevice'', \<lparr> is_wireless = Some True, is_virtual = False \<rparr>),
      (''LteEnbNetDevice'', \<lparr> is_wireless = Some True, is_virtual = False \<rparr>)]"

record base_world =
  traits_table :: "(string, traits) dict"
  warned_types :: "string list"
  plugins :: "string list"
  plugin_modules :: "(string, string) dict"
  plugins_loaded :: bool
  sys_path :: "string list"
  plugin_errors :: "string list"

definition base_start :: "string list \<Rightarrow> base_world" where
  "base_start path = \<lparr> traits_table = netdevice_traits, warned_types = [], plugins = [], plugin_modules = [],
     plugins_loaded = False, sys_path = path, plugin_errors = [] \<rparr>"

text \<open>An unknown type is warned about, once, and taken for a wireless device.\<close>

definition lookup_netdevice_traits :: "string \<Rightarrow> ('z base_world_scheme, traits) proc" where
  "lookup_netdevice_traits class_type = sbind (gets (\<lambda>w. map_of (traits_table w) class_type)) (\<lambda>t. case t of
       Some t \<Rightarrow> ret t
     | None \<Rightarrow> sbind (lift (NetDeviceTraits (Some True) False)) (\<lambda>t.
         seq (modify (\<lambda>w. w\<lparr>warned_types := warned_types w @ [class_type],
                traits_table := AList.update class_type t (traits_table w)\<rparr>))
         (ret t)))"

section \<open>Scale\<close>

definition PIXELS_PER_METER :: rat where "PIXELS_PER_METER = 3"

definition transform_distance_simulation_to_canvas :: "rat \<Rightarrow> rat" where
  "transform_distance_simulation_to_canvas d = d * PIXELS_PER_METER"

definition transform_point_simulation_to_canvas :: "rat \<times> rat \<Rightarrow> rat \<times> rat" where
  "transform_point_simulation_to_canvas p = (fst p * PIXELS_PER_METER, snd p * PIXELS_PER_METER)"

definition transform_distance_canvas_to_simulation :: "rat \<Rightarrow> rat" where
  "transform_distance_canvas_to_simulation d = d / PIXELS_PER_METER"

definition transform_point_canvas_to_simulation :: "rat \<times> rat \<Rightarrow> rat \<times> rat" where
  "transform_point_canvas_to_simulation p = (fst p / PIXELS_PER_METER, snd p / PIXELS_PER_METER)"

lemma transforms_inverse [simp]:
  "transform_distance_canvas_to_simulation (transform_distance_simulation_to_canvas d) = d"
  "transform_distance_simulation_to_canvas (transform_distance_canvas_to_simulation d) = d"
  "transform_point_canvas_to_simulation (transform_point_simulation_to_canvas p) = p"
  "transform_point_simulation_to_canvas (transform_point_canvas_to_simulation p) = p"
  by (simp_all add: transform_distance_canvas_to_simulation_def transform_distance_simulation_to_canvas_def
      transform_point_canvas_to_simulation_def transform_point_simulation_to_canvas_def PIXELS_PER_METER_def)

section \<open>Plugins\<close>

text \<open>\<open>os.path.splitext\<close>: the extension begins at the last dot; leading dots of a name are no separator.\<close>

definition splitext :: "string \<Rightarrow> string \<times> string" where
  "splitext p =
     (let tail = basename p; ext = rev (takeWhile (\<lambda>c. c \<noteq> CHR ''.'') (rev tail));
          stem = take (length tail - length ext - 1) tail
      in if CHR ''.'' \<in> set tail \<and> (\<exists>c \<in> set stem. c \<noteq> CHR ''.'')
         then (take (length p - length ext - 1) p, CHR ''.'' # ext) else (p, []))"

text \<open>Importing a module: it has a function \<open>register\<close> or not, or it raises.\<close>

datatype import_result = Imported bool | Import_Error string | Import_Raises py_error

definition register_plugin :: "string \<Rightarrow> (string \<times> string) option \<Rightarrow> ('z base_world_scheme, unit) proc" where
  "register_plugin init_func named = modify (\<lambda>w. w\<lparr>plugins := plugins w @ [init_func],
     plugin_modules := (case named of None \<Rightarrow> plugin_modules w
       | Some (name, m) \<Rightarrow> AList.update name m (plugin_modules w))\<rparr>)"

definition plugin_error :: "string \<Rightarrow> ('z base_world_scheme, unit) proc" where
  "plugin_error t = modify (\<lambda>w. w\<lparr>plugin_errors := plugin_errors w @ [t]\<rparr>)"

definition load_plugin :: "(string \<Rightarrow> import_result) \<Rightarrow> string \<Rightarrow> ('z base_world_scheme, unit) proc" where
  "load_plugin import filename = (case splitext filename of (name, ext) \<Rightarrow>
     if ext \<noteq> ''.py'' then ret ()
     else (case import name of
         Import_Error e \<Rightarrow> plugin_error filename
       | Import_Raises e \<Rightarrow> fail e
       | Imported False \<Rightarrow> plugin_error name
       | Imported True \<Rightarrow> register_plugin (name @ ''.register'') (Some (name, name))))"

definition load_plugins ::
  "(string \<Rightarrow> import_result) \<Rightarrow> string \<Rightarrow> string list \<Rightarrow> ('z base_world_scheme, unit) proc" where
  "load_plugins import plugins_dir listing = sbind (gets plugins_loaded) (\<lambda>loaded.
     if loaded then ret ()
     else sbind (gets sys_path) (\<lambda>old_path.
       seq (modify (\<lambda>w. w\<lparr>plugins_loaded := True, sys_path := plugins_dir # sys_path w\<rparr>))
      (seq (sfor (load_plugin import) listing)
      (modify (\<lambda>w. w\<lparr>sys_path := old_path\<rparr>)))))"

end
