(* ===== verification/Viz_Svg.thy ===== *)
theory Viz_Svg
  imports Viz_Base
begin

text \<open>
  \<^verbatim>\<open>src/visualizer/visualizer/svgitem.py\<close>: a scaled SVG image on the canvas, and the cache of the
  image files. Floats are rational numbers; the values of the properties are floats.
\<close>

type_synonym point = "rat \<times> rat"

record svg_handle =
  h_width :: rat
  h_height :: rat

record svg_item =
  item_x :: rat
  item_y :: rat
  sx :: rat
  sy :: rat
  handle :: svg_handle
  i_width :: rat
  i_height :: rat
  custom_width :: "rat option"
  custom_height :: "rat option"
  item_bounds :: "(rat \<times> rat \<times> rat \<times> rat) option"

definition new_svg_item :: "rat \<Rightarrow> rat \<Rightarrow> svg_handle \<Rightarrow> svg_item" where
  "new_svg_item x y h = \<lparr> item_x = x, item_y = y, sx = 1, sy = 1, handle = h, i_width = h_width h,
     i_height = h_height h, custom_width = None, custom_height = None, item_bounds = None \<rparr>"

text \<open>True division, which raises on 0.\<close>

definition rdiv :: "rat \<Rightarrow> rat \<Rightarrow> py_error + rat" where
  "rdiv a b = (if b = 0 then Inl ZeroDivisionError else Inr (a / b))"

lemma rdiv_simps [simp]: "rdiv a 0 = Inl ZeroDivisionError" "b \<noteq> 0 \<Longrightarrow> rdiv a b = Inr (a / b)"
  by (simp_all add: rdiv_def)

definition size_changed :: "(svg_item, unit) proc" where
  "size_changed = sbind (gets (\<lambda>s. (handle s, custom_width s, custom_height s))) (\<lambda>(h, cw, ch).
     case (cw, ch) of
       (None, None) \<Rightarrow> modify (\<lambda>s. s\<lparr>i_width := h_width h, i_height := h_height h, sx := 1, sy := 1\<rparr>)
     | (Some w, None) \<Rightarrow>
         seq (modify (\<lambda>s. s\<lparr>i_width := w\<rparr>))
        (sbind (lift (rdiv w (h_width h))) (\<lambda>q.
         modify (\<lambda>s. s\<lparr>sx := q, sy := q, i_height := h_height h * q\<rparr>)))
     | (None, Some v) \<Rightarrow>
         seq (modify (\<lambda>s. s\<lparr>i_height := v\<rparr>))
        (sbind (lift (rdiv v (h_height h))) (\<lambda>q.
         modify (\<lambda>s. s\<lparr>sy := q, sx := q, i_width := h_width h * q\<rparr>)))
     | (Some w, Some v) \<Rightarrow>
         seq (modify (\<lambda>s. s\<lparr>i_width := w, i_height := v\<rparr>))
        (sbind (lift (rdiv w (h_width h))) (\<lambda>qx. seq (modify (\<lambda>s. s\<lparr>sx := qx\<rparr>))
        (sbind (lift (rdiv v (h_height h))) (\<lambda>qy. modify (\<lambda>s. s\<lparr>sy := qy\<rparr>))))))"

datatype svg_prop = Prop_X | Prop_Y | Prop_Width | Prop_Height | Prop_Other

definition do_set_property :: "svg_prop \<Rightarrow> rat \<Rightarrow> (svg_item, unit) proc" where
  "do_set_property p v = (case p of
       Prop_X \<Rightarrow> modify (\<lambda>s. s\<lparr>item_x := v\<rparr>)
     | Prop_Y \<Rightarrow> modify (\<lambda>s. s\<lparr>item_y := v\<rparr>)
     | Prop_Width \<Rightarrow> seq (modify (\<lambda>s. s\<lparr>custom_width := Some v\<rparr>)) size_changed
     | Prop_Height \<Rightarrow> seq (modify (\<lambda>s. s\<lparr>custom_height := Some v\<rparr>)) size_changed
     | Prop_Other \<Rightarrow> fail AttributeError)"

text \<open>Reading the width puts the size back to that of the image file.\<close>

definition do_get_property :: "svg_prop \<Rightarrow> (svg_item, rat) proc" where
  "do_get_property p = (case p of
       Prop_X \<Rightarrow> gets item_x
     | Prop_Y \<Rightarrow> gets item_y
     | Prop_Width \<Rightarrow> seq (modify (\<lambda>s. s\<lparr>i_width := h_width (handle s), i_height := h_height (handle s)\<rparr>)) (gets i_width)
     | Prop_Height \<Rightarrow> gets i_height
     | Prop_Other \<Rightarrow> fail AttributeError)"

datatype svg_cmd = Svg_Translate rat rat | Svg_Scale rat rat | Svg_Render svg_handle

definition do_simple_paint :: "svg_item \<Rightarrow> svg_cmd list" where
  "do_simple_paint s = [Svg_Translate (item_x s) (item_y s), Svg_Scale (sx s) (sy s), Svg_Render (handle s)]"

definition do_simple_update :: "svg_item \<Rightarrow> svg_item" where
  "do_simple_update s =
     s\<lparr>item_bounds := Some (item_x s, item_y s, item_x s + i_width s, item_y s + i_height s)\<rparr>"

definition do_simple_is_item_at :: "rat \<Rightarrow> rat \<Rightarrow> svg_item \<Rightarrow> bool" where
  "do_simple_is_item_at x y s \<longleftrightarrow>
     \<not> ((x < item_x s \<or> item_x s + i_width s < x) \<or> (y < item_y s \<or> item_y s + i_height s < y))"

text \<open>\<open>rsvg_handle_factory\<close>; reading an image file is a parameter.\<close>

definition rsvg_handle_factory ::
  "(string \<Rightarrow> py_error + svg_handle) \<Rightarrow> string \<Rightarrow> string \<Rightarrow> ((string, svg_handle) dict, svg_handle) proc" where
  "rsvg_handle_factory read dir base_file_name = sbind (gets (\<lambda>c. map_of c base_file_name)) (\<lambda>h. case h of
       Some h \<Rightarrow> ret h
     | None \<Rightarrow> sbind (lift (read (path_join dir [''resource'', base_file_name]))) (\<lambda>h.
         seq (modify (AList.update base_file_name h)) (ret h)))"

section \<open>The image fills its item\<close>

text \<open>
  After the size was changed the scaled image has the size of the item, and with one dimension
  given the scale is the same in both directions.
\<close>

lemma size_changed_scales:
  assumes "size_changed s = (Inr (), t)"
  shows "i_width t = h_width (handle t) * sx t \<and> i_height t = h_height (handle t) * sy t \<and>
    (custom_width t = None \<or> custom_height t = None \<longrightarrow> sx t = sy t)"
  using assms
  by (auto simp: size_changed_def sbind_def rdiv_def split: option.splits if_splits)

lemma reading_width_loses_size:
  "custom_width s = Some w \<Longrightarrow> w \<noteq> h_width (handle s) \<Longrightarrow> i_width (snd (do_get_property Prop_Width s)) \<noteq> w"
  by (simp add: do_get_property_def)

end
