(* ===== verification/Viz_Scene.thy ===== *)
theory Viz_Scene
  imports Viz_Svg
begin

unbundle bit_operations_syntax

text \<open>
  The objects on the canvas of \<^verbatim>\<open>src/visualizer/visualizer/core.py\<close>: \<open>Node\<close>, \<open>Channel\<close> and
  \<open>WiredLink\<close>. An object is its key in the store: a node its index, a channel the number of the
  simulator's channel, a link its place in the list of links. The simulator is a network of nodes
  with a position and devices, which the world holds as data; the canvas items are the fields
  that the code sets on them. A method of an object that the store does not have is \<open>KeyError\<close>.
\<close>

section \<open>The world of the visualizer\<close>

record ns_device =
  dev_type :: string
  dev_channel :: "nat option"

record ns_node =
  mobility :: "point option"
  devices :: "ns_device list"

text \<open>The nodes, and for each channel the nodes of the devices on it.\<close>

record network =
  net_nodes :: "ns_node list"
  channel_owners :: "nat \<Rightarrow> nat list"

record look =
  radius :: rat
  fill_color :: int
  line_width :: rat
  stroke_color :: string

record node_view =
  center :: point
  n_links :: "nat list"
  has_mob :: "bool option"
  selected :: bool
  highlighted :: bool
  color :: int
  node_size :: rat
  svg :: "svg_item option"
  svg_align :: "point option"
  label :: "string option"
  label_item :: "(string \<times> point) option"
  drawn :: look

record channel_view =
  c_center :: point
  c_links :: "nat list"

datatype end_point = Node_End nat | Channel_End nat

record link_view =
  from_node :: nat
  to_end :: end_point
  path :: "(point \<times> point) option"

record scene = base_world +
  net :: network
  nodes :: "(nat, node_view) dict"
  channels :: "(nat, channel_view) dict"
  links :: "link_view list"
  canvas_bounds :: "(rat \<times> rat \<times> rat \<times> rat) option"

type_synonym ('z, 'a) viz = "('z scene_scheme, 'a) proc"

definition need :: "'a option \<Rightarrow> ('s, 'a) proc" where
  "need x = (case x of None \<Rightarrow> fail KeyError | Some y \<Rightarrow> ret y)"

definition the_node :: "nat \<Rightarrow> ('z, node_view) viz" where
  "the_node i = sbind (gets (\<lambda>w. map_of (nodes w) i)) need"

definition upd_node :: "nat \<Rightarrow> (node_view \<Rightarrow> node_view) \<Rightarrow> ('z, unit) viz" where
  "upd_node i f = modify (\<lambda>w. w\<lparr>nodes := AList.map_entry i f (nodes w)\<rparr>)"

definition the_channel :: "nat \<Rightarrow> ('z, channel_view) viz" where
  "the_channel c = sbind (gets (\<lambda>w. map_of (channels w) c)) need"

definition upd_channel :: "nat \<Rightarrow> (channel_view \<Rightarrow> channel_view) \<Rightarrow> ('z, unit) viz" where
  "upd_channel c f = modify (\<lambda>w. w\<lparr>channels := AList.map_entry c f (channels w)\<rparr>)"

section \<open>WiredLink\<close>

definition end_position :: "end_point \<Rightarrow> ('z, point) viz" where
  "end_position e = (case e of
       Node_End i \<Rightarrow> sbind (the_node i) (\<lambda>n. ret (center n))
     | Channel_End c \<Rightarrow> sbind (the_channel c) (\<lambda>v. ret (c_center v)))"

definition update_points :: "nat \<Rightarrow> ('z, unit) viz" where
  "update_points k = sbind (gets (\<lambda>w. links w ! k)) (\<lambda>l.
     sbind (end_position (Node_End (from_node l))) (\<lambda>p1.
     sbind (end_position (to_end l)) (\<lambda>p2.
     modify (\<lambda>w. w\<lparr>links := (links w)[k := l\<lparr>path := Some (p1, p2)\<rparr>]\<rparr>))))"

definition add_to_end :: "end_point \<Rightarrow> nat \<Rightarrow> ('z, unit) viz" where
  "add_to_end e k = (case e of
       Node_End i \<Rightarrow> upd_node i (\<lambda>n. n\<lparr>n_links := n_links n @ [k]\<rparr>)
     | Channel_End c \<Rightarrow> upd_channel c (\<lambda>v. v\<lparr>c_links := c_links v @ [k]\<rparr>))"

definition create_link :: "nat \<Rightarrow> end_point \<Rightarrow> ('z, unit) viz" where
  "create_link i e = sbind (gets (\<lambda>w. length (links w))) (\<lambda>k.
     seq (modify (\<lambda>w. w\<lparr>links := links w @ [\<lparr> from_node = i, to_end = e, path = None \<rparr>]\<rparr>))
    (seq (add_to_end (Node_End i) k) (add_to_end e k)))"

section \<open>Node\<close>

definition DEFAULT_NODE_SIZE :: rat where "DEFAULT_NODE_SIZE = 1"

definition look_of :: "node_view \<Rightarrow> look" where
  "look_of n =
     (let size = transform_distance_simulation_to_canvas (node_size n);
          alpha = (if svg n \<noteq> None then 0x80 else 0xff)
      in \<lparr> radius = size, fill_color = (color n AND 0xffffff00) OR alpha,
           line_width = (if selected n then size * (3 / 10) else size * (15 / 100)),
           stroke_color = (if highlighted n then ''yellow'' else ''black'') \<rparr>)"

text \<open>Without an alignment the computation subtracts \<open>None\<close>.\<close>

definition update_svg_position :: "nat \<Rightarrow> point \<Rightarrow> ('z, unit) viz" where
  "update_svg_position i p = (case p of (x, y) \<Rightarrow> sbind (the_node i) (\<lambda>n.
     case svg n of None \<Rightarrow> fail AttributeError | Some s \<Rightarrow>
     (case svg_align n of None \<Rightarrow> fail TypeError | Some (ax, ay) \<Rightarrow>
      upd_node i (\<lambda>n. n\<lparr>svg := Some (s\<lparr>item_x := x - (1 - ax) * i_width s, item_y := y - (1 - ay) * i_height s\<rparr>)\<rparr>))))"

text \<open>
  The canvas grows to hold a node. \<open>get_bounds\<close> of some versions of the tool kit does not give
  four numbers; the \<open>TypeError\<close> is caught.
\<close>

definition grow_bounds :: "rat \<Rightarrow> rat \<Rightarrow> ('z, unit) viz" where
  "grow_bounds x y = modify (\<lambda>w. case canvas_bounds w of
       None \<Rightarrow> w
     | Some (min_x, min_y, max_x, max_y) \<Rightarrow>
         w\<lparr>canvas_bounds := Some (min x min_x, min y min_y, max x max_x, max y max_y)\<rparr>)"

definition set_position :: "nat \<Rightarrow> point \<Rightarrow> ('z, unit) viz" where
  "set_position i p = (case p of (x, y) \<Rightarrow>
     seq (upd_node i (\<lambda>n. n\<lparr>center := (x, y)\<rparr>))
    (sbind (the_node i) (\<lambda>n.
     seq (do_if (svg n \<noteq> None) (update_svg_position i (x, y)))
    (seq (sfor update_points (n_links n))
    (seq (upd_node i (\<lambda>n. n\<lparr>label_item := map_option (\<lambda>(t, _). (t, x, y + node_size n * 3)) (label_item n)\<rparr>))
     (grow_bounds x y))))))"

definition update_appearance :: "nat \<Rightarrow> ('z, unit) viz" where
  "update_appearance i =
     seq (upd_node i (\<lambda>n. n\<lparr>drawn := look_of n\<rparr>))
    (sbind (the_node i) (\<lambda>n. case label n of
       None \<Rightarrow> ret ()
     | Some t \<Rightarrow>
         seq (upd_node i (\<lambda>n. n\<lparr>label_item := Some (t, case label_item n of None \<Rightarrow> (0, 0) | Some (_, p) \<Rightarrow> p)\<rparr>))
         (set_position i (center n))))"

definition new_node :: node_view where
  "new_node = (let n = \<lparr> center = (0, 0), n_links = [], has_mob = None, selected = False, highlighted = False,
       color = 0x808080ff, node_size = DEFAULT_NODE_SIZE, svg = None, svg_align = None, label = None, label_item = None,
       drawn = \<lparr> radius = 0, fill_color = 0, line_width = 0, stroke_color = [] \<rparr> \<rparr>
     in n\<lparr>drawn := look_of n\<rparr>)"

text \<open>
  \<open>self.svg_item.props.width = ...\<close>, when a size is given in metres. An exception in
  \<open>do_set_property\<close> is printed by the tool kit, which calls it.
\<close>

definition set_svg_prop :: "nat \<Rightarrow> svg_prop \<Rightarrow> rat option \<Rightarrow> ('z, unit) viz" where
  "set_svg_prop i p v = (case v of None \<Rightarrow> ret () | Some d \<Rightarrow> sbind (the_node i) (\<lambda>n.
     case svg n of None \<Rightarrow> fail AttributeError | Some s \<Rightarrow>
     (case do_set_property p (transform_distance_simulation_to_canvas d) s of (_, s') \<Rightarrow>
      upd_node i (\<lambda>n. n\<lparr>svg := Some s'\<rparr>))))"

definition set_svg_icon ::
  "(string \<Rightarrow> py_error + svg_handle) option \<Rightarrow> nat \<Rightarrow> string \<Rightarrow> rat option \<Rightarrow> rat option \<Rightarrow> rat \<Rightarrow> rat \<Rightarrow> ('z, unit) viz"
where
  "set_svg_icon svgitem i file_base_name width height align_x align_y =
     (if width = None \<and> height = None then fail ValueError
      else case svgitem of
        None \<Rightarrow> fail AttributeError
      | Some factory \<Rightarrow>
          sbind (lift (factory file_base_name)) (\<lambda>h.
          sbind (the_node i) (\<lambda>n. case center n of (x, y) \<Rightarrow>
          seq (upd_node i (\<lambda>n. n\<lparr>svg := Some (new_svg_item x y h)\<rparr>))
         (seq (set_svg_prop i Prop_Width width)
         (seq (set_svg_prop i Prop_Height height)
         (seq (upd_node i (\<lambda>n. n\<lparr>svg_align := Some (align_x, align_y)\<rparr>))
         (seq (update_svg_position i (x, y)) (update_appearance i))))))))"

text \<open>\<open>set_label\<close> asserts on \<open>basestring\<close>, a name that only Python 2 has.\<close>

definition set_label :: "bool \<Rightarrow> nat \<Rightarrow> string \<Rightarrow> ('z, unit) viz" where
  "set_label has_basestring i t =
     (if \<not> has_basestring then fail (OtherError ''NameError'')
      else seq (upd_node i (\<lambda>n. n\<lparr>label := Some t\<rparr>)) (update_appearance i))"

definition set_selected :: "nat \<Rightarrow> bool \<Rightarrow> ('z, unit) viz" where
  "set_selected i v = seq (upd_node i (\<lambda>n. n\<lparr>selected := v\<rparr>)) (update_appearance i)"

definition set_highlighted :: "nat \<Rightarrow> bool \<Rightarrow> ('z, unit) viz" where
  "set_highlighted i v = seq (upd_node i (\<lambda>n. n\<lparr>highlighted := v\<rparr>)) (update_appearance i)"

definition set_size :: "nat \<Rightarrow> rat \<Rightarrow> ('z, unit) viz" where
  "set_size i v = seq (upd_node i (\<lambda>n. n\<lparr>node_size := v\<rparr>)) (update_appearance i)"

text \<open>A colour is a number, or a name that the tool kit reads as three channels of 16 bits.\<close>

datatype color_arg = Rgba int | Color_Name string

definition rgba_of :: "int \<times> int \<times> int \<Rightarrow> int" where
  "rgba_of c = (case c of (r, g, b) \<Rightarrow>
     push_bit 24 (drop_bit 8 r) OR push_bit 16 (drop_bit 8 g) OR push_bit 8 (drop_bit 8 b) OR 0xff)"

definition set_color :: "(string \<Rightarrow> int \<times> int \<times> int) \<Rightarrow> nat \<Rightarrow> color_arg \<Rightarrow> ('z, unit) viz" where
  "set_color color_parse i c = seq (upd_node i (\<lambda>n. n\<lparr>color := (case c of Rgba v \<Rightarrow> v | Color_Name t \<Rightarrow> rgba_of (color_parse t))\<rparr>))
     (update_appearance i)"

definition remove_link :: "nat \<Rightarrow> nat \<Rightarrow> ('z, unit) viz" where
  "remove_link i k = sbind (the_node i) (\<lambda>n.
     if k \<in> set (n_links n) then upd_node i (\<lambda>n. n\<lparr>n_links := remove1 k (n_links n)\<rparr>) else fail ValueError)"

definition add_link :: "nat \<Rightarrow> nat \<Rightarrow> ('z, unit) viz" where
  "add_link i k = upd_node i (\<lambda>n. n\<lparr>n_links := n_links n @ [k]\<rparr>)"

text \<open>\<open>NodeList.GetNode\<close>, which ends the program outside of the list.\<close>

definition sim_node :: "nat \<Rightarrow> ('z, ns_node) viz" where
  "sim_node i = sbind (gets (\<lambda>w. net_nodes (net w))) (\<lambda>ns.
     if i < length ns then ret (ns ! i) else fail (OtherError ''NS_ASSERT''))"

text \<open>\<open>has_mobility\<close> asks the simulator once and remembers the answer.\<close>

definition has_mobility :: "nat \<Rightarrow> ('z, bool) viz" where
  "has_mobility i = sbind (the_node i) (\<lambda>n. case has_mob n of
       Some b \<Rightarrow> ret b
     | None \<Rightarrow> sbind (sim_node i) (\<lambda>m.
         seq (upd_node i (\<lambda>n. n\<lparr>has_mob := Some (mobility m \<noteq> None)\<rparr>)) (ret (mobility m \<noteq> None))))"

section \<open>Channel\<close>

definition new_channel :: channel_view where
  "new_channel = \<lparr> c_center = (0, 0), c_links = [] \<rparr>"

definition set_channel_position :: "nat \<Rightarrow> point \<Rightarrow> ('z, unit) viz" where
  "set_channel_position c p = seq (upd_channel c (\<lambda>v. v\<lparr>c_center := p\<rparr>))
     (sbind (the_channel c) (\<lambda>v. sfor update_points (c_links v)))"

section \<open>The stores\<close>

definition get_node :: "nat \<Rightarrow> ('z, unit) viz" where
  "get_node i = modify (\<lambda>w. if has_key (nodes w) i then w else w\<lparr>nodes := nodes w @ [(i, new_node)]\<rparr>)"

definition get_channel :: "nat \<Rightarrow> ('z, unit) viz" where
  "get_channel c = modify (\<lambda>w. if has_key (channels w) c then w else w\<lparr>channels := channels w @ [(c, new_channel)]\<rparr>)"

section \<open>Links follow their ends\<close>

text \<open>Where an end of a link is, the links registered at it, and the ends of all links.\<close>

definition end_at :: "'z scene_scheme \<Rightarrow> end_point \<Rightarrow> point option" where
  "end_at w e = (case e of Node_End i \<Rightarrow> map_option center (map_of (nodes w) i)
     | Channel_End c \<Rightarrow> map_option c_center (map_of (channels w) c))"

definition end_links :: "'z scene_scheme \<Rightarrow> end_point \<Rightarrow> nat list" where
  "end_links w e = (case e of
       Node_End i \<Rightarrow> (case map_of (nodes w) i of None \<Rightarrow> [] | Some n \<Rightarrow> n_links n)
     | Channel_End c \<Rightarrow> (case map_of (channels w) c of None \<Rightarrow> [] | Some v \<Rightarrow> c_links v))"

definition link_ends :: "'z scene_scheme \<Rightarrow> (nat \<times> end_point) list" where
  "link_ends w = map (\<lambda>l. (from_node l, to_end l)) (links w)"

definition ends_of :: "link_view \<Rightarrow> end_point list" where
  "ends_of l = [Node_End (from_node l), to_end l]"

text \<open>A link is registered at both ends and nowhere else, and a link that is drawn joins them; a node with an
icon has its alignment.\<close>

definition link_ok :: "'z scene_scheme \<Rightarrow> link_view \<Rightarrow> bool" where
  "link_ok w l \<longleftrightarrow> (\<forall>p q. path l = Some (p, q) \<longrightarrow> end_at w (Node_End (from_node l)) = Some p \<and> end_at w (to_end l) = Some q)"

definition scene_ok :: "'z scene_scheme \<Rightarrow> bool" where
  "scene_ok w \<longleftrightarrow>
     (\<forall>k e. k \<in> set (end_links w e) \<longleftrightarrow> k < length (links w) \<and> e \<in> set (ends_of (links w ! k)))
   \<and> (\<forall>l \<in> set (links w). link_ok w l)
   \<and> (\<forall>i n. map_of (nodes w) i = Some n \<longrightarrow> svg n \<noteq> None \<longrightarrow> svg_align n \<noteq> None)"

lemma end_links_at: "k \<in> set (end_links w e) \<Longrightarrow> end_at w e \<noteq> None"
  by (cases e) (auto simp: end_links_def end_at_def split: option.splits intro: sym)

lemma scene_ok_ends:
  assumes "scene_ok w" "k < length (links w)" "e \<in> set (ends_of (links w ! k))"
  shows "end_at w e \<noteq> None"
  using assms end_links_at unfolding scene_ok_def by blast

definition drawn_at :: "'z scene_scheme \<Rightarrow> link_view \<Rightarrow> link_view" where
  "drawn_at w l = l\<lparr>path := Some (the (end_at w (Node_End (from_node l))), the (end_at w (to_end l)))\<rparr>"

definition redrawn :: "'z scene_scheme \<Rightarrow> nat list \<Rightarrow> link_view list" where
  "redrawn w ks = map (\<lambda>k. if k \<in> set ks then drawn_at w (links w ! k) else links w ! k) [0..<length (links w)]"

lemma redrawn_length [simp]: "length (redrawn w ks) = length (links w)"
  by (simp add: redrawn_def)

lemma redrawn_nth: "k < length (links w) \<Longrightarrow>
    redrawn w ks ! k = (if k \<in> set ks then drawn_at w (links w ! k) else links w ! k)"
  by (simp add: redrawn_def)

lemma drawn_at_simps [simp]:
  "from_node (drawn_at w l) = from_node l" "to_end (drawn_at w l) = to_end l"
  "drawn_at w (drawn_at w l) = drawn_at w l" "ends_of (drawn_at w l) = ends_of l"
  by (simp_all add: drawn_at_def ends_of_def)

lemma end_at_links [simp]:
  "end_at (w\<lparr>links := ls\<rparr>) e = end_at w e" "end_links (w\<lparr>links := ls\<rparr>) e = end_links w e"
  "drawn_at (w\<lparr>links := ls\<rparr>) l = drawn_at w l"
  by (simp_all add: end_at_def end_links_def drawn_at_def cong: end_point.case_cong)

lemma the_node_run: "map_of (nodes w) i = Some n \<Longrightarrow> the_node i w = (Inr n, w)"
  by (simp add: the_node_def need_def)

lemma sbind_the_node: "map_of (nodes w) i = Some n \<Longrightarrow> sbind (the_node i) f w = f n w"
  by (simp add: sbind_def the_node_run)

lemma the_channel_run: "map_of (channels w) c = Some v \<Longrightarrow> the_channel c w = (Inr v, w)"
  by (simp add: the_channel_def need_def)

lemma end_position_run: "end_at w e = Some p \<Longrightarrow> end_position e w = (Inr p, w)"
  by (cases e) (auto simp: end_at_def end_position_def sbind_ret [OF the_node_run] sbind_ret [OF the_channel_run])

lemma update_points_run:
  assumes "\<forall>e \<in> set (ends_of (links w ! k)). end_at w e \<noteq> None"
  shows "update_points k w = (Inr (), w\<lparr>links := (links w)[k := drawn_at w (links w ! k)]\<rparr>)"
proof -
  obtain p q where "end_at w (Node_End (from_node (links w ! k))) = Some p" "end_at w (to_end (links w ! k)) = Some q"
    using assms by (auto simp: ends_of_def)
  then show ?thesis by (simp add: update_points_def sbind_ret [OF end_position_run] drawn_at_def)
qed

lemma redraw_run:
  assumes "\<forall>k \<in> set ks. k < length (links w) \<and> (\<forall>e \<in> set (ends_of (links w ! k)). end_at w e \<noteq> None)"
  shows "sfor update_points ks w = (Inr (), w\<lparr>links := redrawn w ks\<rparr>)"
  using assms
proof (induction ks arbitrary: w)
  case Nil
  have "redrawn w [] = links w" by (simp add: redrawn_def map_nth)
  then show ?case by simp
next
  case (Cons k ks)
  let ?w = "w\<lparr>links := (links w)[k := drawn_at w (links w ! k)]\<rparr>"
  have "sfor update_points (k # ks) w = sfor update_points ks ?w"
    using Cons.prems by (simp add: sbind_ret [OF update_points_run])
  also have "\<dots> = (Inr (), ?w\<lparr>links := redrawn ?w ks\<rparr>)"
    using Cons.prems by (intro Cons.IH) (auto simp: nth_list_update)
  also have "redrawn ?w ks = redrawn w (k # ks)"
    using Cons.prems by (intro nth_equalityI) (auto simp: redrawn_nth nth_list_update)
  finally show ?case by simp
qed

text \<open>What \<open>set_position\<close> does to the node itself.\<close>

definition moved :: "point \<Rightarrow> node_view \<Rightarrow> node_view" where
  "moved p n = n\<lparr>center := p,
     svg := (case (svg n, svg_align n) of
         (Some s, Some a) \<Rightarrow> Some (s\<lparr>item_x := fst p - (1 - fst a) * i_width s, item_y := snd p - (1 - snd a) * i_height s\<rparr>)
       | _ \<Rightarrow> svg n),
     label_item := map_option (\<lambda>(t, _). (t, fst p, snd p + node_size n * 3)) (label_item n)\<rparr>"

definition grown :: "point \<Rightarrow> (rat \<times> rat \<times> rat \<times> rat) option \<Rightarrow> (rat \<times> rat \<times> rat \<times> rat) option" where
  "grown p b = map_option (\<lambda>(min_x, min_y, max_x, max_y).
     (min (fst p) min_x, min (snd p) min_y, max (fst p) max_x, max (snd p) max_y)) b"

definition with_node :: "nat \<Rightarrow> (node_view \<Rightarrow> node_view) \<Rightarrow> 'z scene_scheme \<Rightarrow> 'z scene_scheme" where
  "with_node i f w = w\<lparr>nodes := AList.map_entry i f (nodes w)\<rparr>"

lemma upd_node_run: "upd_node i f w = (Inr (), with_node i f w)"
  by (simp add: upd_node_def with_node_def)

lemma map_entry_twice: "AList.map_entry i f (AList.map_entry i g xs) = AList.map_entry i (f \<circ> g) xs"
  by (induction xs) auto

lemma map_entry_none: "map_of xs i = None \<Longrightarrow> AList.map_entry i f xs = xs"
  by (induction xs) (auto split: if_splits)

lemma map_entry_keys: "map fst (AList.map_entry i f xs) = map fst xs"
  by (induction xs) auto

lemma map_of_entry: "map_of (AList.map_entry i f xs) = (map_of xs)(i := map_option f (map_of xs i))"
  by (induction xs) auto

lemma map_entry_cong: "map_of xs i = Some v \<Longrightarrow> f v = g v \<Longrightarrow> AList.map_entry i f xs = AList.map_entry i g xs"
  by (induction xs) auto

lemma with_node_simps [simp]:
  "links (with_node i f w) = links w" "channels (with_node i f w) = channels w" "net (with_node i f w) = net w"
  "canvas_bounds (with_node i f w) = canvas_bounds w" "traits_table (with_node i f w) = traits_table w"
  "map fst (nodes (with_node i f w)) = map fst (nodes w)"
  "map_of (nodes (with_node i f w)) = (map_of (nodes w))(i := map_option f (map_of (nodes w) i))"
  "with_node i g (w\<lparr>links := ls\<rparr>) = (with_node i g w)\<lparr>links := ls\<rparr>"
  unfolding with_node_def by (simp_all add: map_of_entry map_entry_keys)

lemma with_node_twice: "with_node i f (with_node i g w) = with_node i (f \<circ> g) w"
  by (simp add: with_node_def map_entry_twice)

lemma with_node_cong: "map_of (nodes w) i = Some n \<Longrightarrow> f n = g n \<Longrightarrow> with_node i f w = with_node i g w"
  unfolding with_node_def by (drule (1) map_entry_cong) simp

lemma end_at_with_node:
  "map_of (nodes w) i = Some n \<Longrightarrow> end_at (with_node i f w) e = (if e = Node_End i then Some (center (f n)) else end_at w e)"
  by (cases e) (auto simp: end_at_def)

lemma end_links_with_node: "(\<And>n. n_links (f n) = n_links n) \<Longrightarrow> end_links (with_node i f w) e = end_links w e"
  by (cases e) (auto simp: end_links_def split: option.split)

lemma redrawn_cong: "links w = links v \<Longrightarrow> (\<And>e. end_at w e = end_at v e) \<Longrightarrow> redrawn w ks = redrawn v ks"
  by (simp add: redrawn_def drawn_at_def)

lemma moved_simps [simp]:
  "center (moved p n) = p" "n_links (moved p n) = n_links n" "svg_align (moved p n) = svg_align n"
  "has_mob (moved p n) = has_mob n" "selected (moved p n) = selected n"
  "svg (moved p n) = None \<longleftrightarrow> svg n = None"
  by (auto simp: moved_def split: option.split prod.split)

lemma moved_svg: "svg (moved p n) = Some s \<Longrightarrow> \<exists>t. svg n = Some t"
  by (auto simp: moved_def split: option.splits)

lemma update_svg_position_run:
  assumes "map_of (nodes w) i = Some n" "svg n = Some s" "svg_align n = Some a"
  shows "update_svg_position i p w = (Inr (), with_node i
    (\<lambda>n. n\<lparr>svg := Some (s\<lparr>item_x := fst p - (1 - fst a) * i_width s, item_y := snd p - (1 - snd a) * i_height s\<rparr>)\<rparr>) w)"
  using assms by (cases p; cases a) (simp add: update_svg_position_def sbind_ret [OF the_node_run] upd_node_run)

lemma set_position_run:
  assumes ok: "scene_ok w" and n: "map_of (nodes w) i = Some n"
  shows "set_position i p w = (Inr (), (with_node i (moved p) w)
    \<lparr>links := redrawn (with_node i (moved p) w) (n_links n), canvas_bounds := grown p (canvas_bounds w)\<rparr>)"
proof -
  define g where "g = (case (svg n, svg_align n) of
      (Some s, Some a) \<Rightarrow> (\<lambda>n :: node_view. n\<lparr>svg := Some (s\<lparr>item_x := fst p - (1 - fst a) * i_width s,
        item_y := snd p - (1 - snd a) * i_height s\<rparr>)\<rparr>) | _ \<Rightarrow> id)"
  let ?c = "\<lambda>n :: node_view. n\<lparr>center := p\<rparr>" and ?l = "\<lambda>n :: node_view. n\<lparr>label_item := map_option (\<lambda>(t, _). (t, fst p, snd p + node_size n * 3)) (label_item n)\<rparr>"
  let ?w1 = "with_node i ?c w" and ?w2 = "with_node i (g \<circ> ?c) w"
  let ?w3 = "?w2\<lparr>links := redrawn ?w2 (n_links n)\<rparr>"
  have n1: "map_of (nodes ?w1) i = Some (?c n)" using n by simp
  have svg: "do_if (svg (?c n) \<noteq> None) (update_svg_position i p) ?w1 = (Inr (), ?w2)"
  proof (cases "svg n")
    case None
    then show ?thesis by (simp add: g_def)
  next
    case (Some s)
    with ok n obtain a where a: "svg_align n = Some a" unfolding scene_ok_def by fastforce
    show ?thesis using n1 Some a by (simp add: update_svg_position_run [of _ _ "?c n" s a] with_node_twice g_def)
  qed
  have "k \<in> set (n_links n) \<Longrightarrow> k < length (links w) \<and> (\<forall>e \<in> set (ends_of (links w ! k)). end_at w e \<noteq> None)" for k
    using ok n scene_ok_ends [OF ok] unfolding scene_ok_def
    by (metis end_links_def end_point.simps(5) option.simps(5))
  then have redraw: "sfor update_points (n_links n) ?w2 = (Inr (), ?w3)"
    using n by (intro redraw_run) (auto simp: end_at_with_node)
  have last: "grow_bounds (fst p) (snd p) (with_node i ?l ?w3) =
      (Inr (), (with_node i (?l \<circ> (g \<circ> ?c)) w)\<lparr>links := redrawn ?w2 (n_links n), canvas_bounds := grown p (canvas_bounds w)\<rparr>)"
    by (cases "canvas_bounds w") (auto simp: grow_bounds_def grown_def with_node_twice)
  have "with_node i (?l \<circ> (g \<circ> ?c)) w = with_node i (moved p) w"
    by (rule with_node_cong [OF n]) (auto simp: moved_def g_def split: option.split)
  moreover have "redrawn ?w2 (n_links n) = redrawn (with_node i (moved p) w) (n_links n)"
    using n by (intro redrawn_cong) (auto simp: end_at_with_node g_def split: option.split)
  ultimately show ?thesis using svg redraw last
    by (simp add: set_position_def split_beta upd_node_run sbind_the_node [OF n1] sbind_ret)
qed

text \<open>After something has moved and its links are redrawn, all links follow their ends again.\<close>

lemma link_ends_redrawn [simp]: "map (\<lambda>l. (from_node l, to_end l)) (redrawn w ks) = map (\<lambda>l. (from_node l, to_end l)) (links w)"
  by (intro nth_equalityI) (auto simp: redrawn_nth)

lemma link_ok_drawn: "\<forall>e \<in> set (ends_of l). end_at w e \<noteq> None \<Longrightarrow> link_ok w (drawn_at w l)"
  by (auto simp: link_ok_def drawn_at_def ends_of_def)

lemma scene_ok_redrawn:
  assumes ok: "scene_ok w"
    and v: "links v = links w" "\<And>e. end_links v e = end_links w e" "\<And>e. e \<noteq> e0 \<Longrightarrow> end_at v e = end_at w e"
      "end_at v e0 \<noteq> None" "\<forall>i n. map_of (nodes v) i = Some n \<longrightarrow> svg n \<noteq> None \<longrightarrow> svg_align n \<noteq> None"
  shows "scene_ok (v\<lparr>links := redrawn v (end_links w e0), canvas_bounds := b\<rparr>)" (is "scene_ok ?v")
proof -
  have at: "end_at ?v e = end_at v e" "end_links ?v e = end_links w e" for e
    using v(2) [of e] by (simp_all add: end_at_def end_links_def cong: end_point.case_cong)
  have ends: "e \<in> set (ends_of (links w ! k)) \<Longrightarrow> k < length (links w) \<Longrightarrow> end_at v e \<noteq> None" for k e
    using scene_ok_ends [OF ok] v(3) [of e] v(4) by metis
  have "link_ok ?v (redrawn v (end_links w e0) ! k)" if k: "k < length (links w)" for k
  proof (cases "k \<in> set (end_links w e0)")
    case True
    then show ?thesis using k v(1) ends link_ok_drawn [of "links w ! k" v]
      by (auto simp: redrawn_nth link_ok_def at)
  next
    case False
    with ok k have "e0 \<notin> set (ends_of (links w ! k))" unfolding scene_ok_def by blast
    moreover have "link_ok w (links w ! k)" using ok k unfolding scene_ok_def by simp
    ultimately show ?thesis using False k v(1,3) by (auto simp: redrawn_nth link_ok_def at ends_of_def)
  qed
  then have "\<forall>l \<in> set (links ?v). link_ok ?v l" using v(1) by (auto simp: in_set_conv_nth)
  moreover have "ends_of (redrawn v (end_links w e0) ! k) = ends_of (links w ! k)" if "k < length (links w)" for k
    using that v(1) by (simp add: redrawn_nth)
  ultimately show ?thesis using ok v(1,5) unfolding scene_ok_def by (simp add: at) (metis (no_types, lifting))
qed

text \<open>A change of a node that leaves its place, links and icon alone.\<close>

definition plain :: "(node_view \<Rightarrow> node_view) \<Rightarrow> bool" where
  "plain f \<longleftrightarrow> (\<forall>n. center (f n) = center n \<and> n_links (f n) = n_links n \<and> svg (f n) = svg n \<and> svg_align (f n) = svg_align n)"

lemma end_at_plain: "plain f \<Longrightarrow> end_at (with_node i f w) e = end_at w e"
  by (cases e) (auto simp: end_at_def plain_def option.map_comp o_def cong: option.map_cong)

lemma scene_ok_plain: "plain f \<Longrightarrow> scene_ok w \<Longrightarrow> scene_ok (with_node i f w)"
  unfolding scene_ok_def by (simp add: end_at_plain end_links_with_node plain_def link_ok_def) (metis option.distinct(1))

text \<open>What a change of the looks or of one place leaves alone.\<close>

definition redraws :: "'z scene_scheme \<Rightarrow> 'z scene_scheme \<Rightarrow> bool" where
  "redraws w v \<longleftrightarrow> (\<exists>ns ls b. v = w\<lparr>nodes := ns, links := ls, canvas_bounds := b\<rparr>
     \<and> map fst ns = map fst (nodes w) \<and> map (\<lambda>l. (from_node l, to_end l)) ls = link_ends w)"

lemma redraws_trans:
  assumes "redraws u v" "redraws v w"
  shows "redraws u w"
proof -
  from assms(2) obtain ns ls b where w: "w = v\<lparr>nodes := ns, links := ls, canvas_bounds := b\<rparr>"
    "map fst ns = map fst (nodes v)" "map (\<lambda>l. (from_node l, to_end l)) ls = link_ends v"
    unfolding redraws_def by blast
  have "w = u\<lparr>nodes := ns, links := ls, canvas_bounds := b\<rparr>" "map fst ns = map fst (nodes u)"
    "map (\<lambda>l. (from_node l, to_end l)) ls = link_ends u"
    using assms(1) w by (auto simp: redraws_def link_ends_def)
  then show ?thesis unfolding redraws_def by blast
qed

lemma redraws_fields:
  assumes "redraws w v"
  shows "net v = net w" "channels v = channels w" "map fst (nodes v) = map fst (nodes w)" "link_ends v = link_ends w"
    "traits_table v = traits_table w"
  using assms by (auto simp: redraws_def link_ends_def)

lemma redraws_with_node: "redraws w (with_node i f w)"
  unfolding redraws_def with_node_def
  by (rule exI [of _ "AList.map_entry i f (nodes w)"], rule exI [of _ "links w"], rule exI [of _ "canvas_bounds w"])
     (simp add: map_entry_keys link_ends_def)

lemma set_position_ok:
  assumes ok: "scene_ok w" and n: "map_of (nodes w) i = Some n"
  obtains v where "set_position i p w = (Inr (), v)" "scene_ok v" "redraws w v"
    "map_of (nodes v) = (map_of (nodes w))(i \<mapsto> moved p n)"
    "links v = redrawn (with_node i (moved p) w) (n_links n)"
proof
  let ?u = "with_node i (moved p) w"
  let ?v = "?u\<lparr>links := redrawn ?u (n_links n), canvas_bounds := grown p (canvas_bounds w)\<rparr>"
  show "set_position i p w = (Inr (), ?v)" by (rule set_position_run [OF ok n])
  have at: "n_links n = end_links w (Node_End i)" using n by (simp add: end_links_def)
  have icons: "\<forall>i n. map_of (nodes w) i = Some n \<longrightarrow> svg n \<noteq> None \<longrightarrow> svg_align n \<noteq> None"
    using ok unfolding scene_ok_def by blast
  show "scene_ok ?v" unfolding at
    by (rule scene_ok_redrawn [OF ok]) (use n icons in \<open>auto simp: end_at_with_node end_links_with_node dest: moved_svg\<close>)
  show "redraws w ?v" unfolding redraws_def
    by (rule exI [of _ "nodes ?u"], rule exI [of _ "redrawn ?u (n_links n)"], rule exI [of _ "grown p (canvas_bounds w)"])
       (simp add: with_node_def map_entry_keys link_ends_def)
  show "map_of (nodes ?v) = (map_of (nodes w))(i \<mapsto> moved p n)" using n by simp
  show "links ?v = redrawn ?u (n_links n)" by simp
qed

text \<open>Claim C9. In a well-formed scene, moving a node returns, keeps the scene well-formed and moves nothing
else; exactly the links that have the node as an end are drawn again, each from where its first end is to
where its second end is.\<close>

theorem moving_redraws_links:
  assumes "scene_ok w" and "has_key (nodes w) i"
  shows "\<exists>v. set_position i p w = (Inr (), v) \<and> scene_ok v \<and> link_ends v = link_ends w
    \<and> (\<forall>e. end_at v e = (if e = Node_End i then Some p else end_at w e))
    \<and> (\<forall>k < length (links w). if Node_End i \<in> set (ends_of (links w ! k))
         then path (links v ! k) = Some (the (end_at v (Node_End (from_node (links w ! k)))), the (end_at v (to_end (links w ! k))))
         else links v ! k = links w ! k)"
proof -
  obtain n where n: "map_of (nodes w) i = Some n" using assms(2) by (metis map_of_eq_None_iff not_None_eq set_map)
  obtain v where v: "set_position i p w = (Inr (), v)" "scene_ok v" "redraws w v"
    "map_of (nodes v) = (map_of (nodes w))(i \<mapsto> moved p n)"
    "links v = redrawn (with_node i (moved p) w) (n_links n)"
    by (rule set_position_ok [OF assms(1) n])
  note rD = redraws_fields [OF v(3)]
  have at: "end_at v e = (if e = Node_End i then Some p else end_at w e)" for e
    using n rD(2) v(4) by (cases e) (auto simp: end_at_def)
  have same: "end_at (with_node i (moved p) w) e = end_at v e" for e by (simp add: at end_at_with_node [OF n])
  have "k \<in> set (n_links n) \<longleftrightarrow> Node_End i \<in> set (ends_of (links w ! k))" if "k < length (links w)" for k
    using assms(1) that n unfolding scene_ok_def by (metis end_links_def end_point.simps(5) option.simps(5))
  then have "\<forall>k < length (links w). if Node_End i \<in> set (ends_of (links w ! k))
         then path (links v ! k) = Some (the (end_at v (Node_End (from_node (links w ! k)))), the (end_at v (to_end (links w ! k))))
         else links v ! k = links w ! k"
    unfolding v(5) by (simp add: redrawn_nth drawn_at_def same)
  with v(1,2) rD(4) at show ?thesis by blast
qed

text \<open>What \<open>update_appearance\<close> does to the node.\<close>

definition dressed :: "node_view \<Rightarrow> node_view" where
  "dressed n = (case label n of None \<Rightarrow> n\<lparr>drawn := look_of n\<rparr>
     | Some t \<Rightarrow> moved (center n) (n\<lparr>drawn := look_of n,
         label_item := Some (t, case label_item n of None \<Rightarrow> (0, 0) | Some (_, p) \<Rightarrow> p)\<rparr>))"

lemma dressed_simps [simp]:
  "center (dressed n) = center n" "n_links (dressed n) = n_links n" "svg_align (dressed n) = svg_align n"
  "has_mob (dressed n) = has_mob n" "selected (dressed n) = selected n" "drawn (dressed n) = look_of n"
  by (auto simp: dressed_def split: option.split) (auto simp: moved_def split: option.split)

lemma update_appearance_ok:
  assumes ok: "scene_ok w" and n: "map_of (nodes w) i = Some n"
  obtains v where "update_appearance i w = (Inr (), v)" "scene_ok v" "redraws w v"
    "map_of (nodes v) = (map_of (nodes w))(i \<mapsto> dressed n)"
proof -
  let ?d = "\<lambda>n :: node_view. n\<lparr>drawn := look_of n\<rparr>"
  have d: "plain ?d" by (simp add: plain_def)
  show thesis
  proof (cases "label n")
    case None
    show thesis
      by (rule that [of "with_node i ?d w"])
         (use None n ok d in \<open>simp_all add: update_appearance_def upd_node_run sbind_the_node scene_ok_plain
            redraws_with_node dressed_def sbind_ret\<close>)
  next
    case (Some t)
    let ?l = "\<lambda>n :: node_view. n\<lparr>label_item := Some (t, case label_item n of None \<Rightarrow> (0, 0) | Some (_, p) \<Rightarrow> p)\<rparr>"
    let ?u = "with_node i ?l (with_node i ?d w)"
    have "plain ?l" by (simp add: plain_def)
    with d ok have "scene_ok ?u" by (simp add: scene_ok_plain)
    moreover have u: "map_of (nodes ?u) i = Some (?l (?d n))" using n by simp
    ultimately obtain v where v: "set_position i (center n) ?u = (Inr (), v)" "scene_ok v" "redraws ?u v"
      "map_of (nodes v) = (map_of (nodes ?u))(i \<mapsto> moved (center n) (?l (?d n)))"
      by (rule set_position_ok)
    show thesis
    proof (rule that [of v])
      show "update_appearance i w = (Inr (), v)"
        using Some n v(1) by (simp add: update_appearance_def upd_node_run sbind_the_node sbind_ret)
      show "redraws w v" using v(3) redraws_with_node redraws_trans by blast
      show "map_of (nodes v) = (map_of (nodes w))(i \<mapsto> dressed n)" using v(4) n Some by (simp add: dressed_def)
    qed (fact v(2))
  qed
qed

lemma restyle_ok:
  assumes "plain f" "scene_ok w" "map_of (nodes w) i = Some n"
  obtains v where "seq (upd_node i f) (update_appearance i) w = (Inr (), v)" "scene_ok v" "redraws w v"
    "map_of (nodes v) = (map_of (nodes w))(i \<mapsto> dressed (f n))"
proof -
  have "scene_ok (with_node i f w)" "map_of (nodes (with_node i f w)) i = Some (f n)"
    using assms by (simp_all add: scene_ok_plain)
  then obtain v where "update_appearance i (with_node i f w) = (Inr (), v)" "scene_ok v" "redraws (with_node i f w) v"
    "map_of (nodes v) = (map_of (nodes (with_node i f w)))(i \<mapsto> dressed (f n))"
    by (rule update_appearance_ok)
  then show thesis
    by (intro that [of v]) (simp_all add: sbind_ret [OF upd_node_run] redraws_trans [OF redraws_with_node])
qed

section \<open>Building the scene\<close>

lemma with_new_key: "\<not> has_key xs i \<Longrightarrow> map_of (xs @ [(i, v)]) = (map_of xs)(i \<mapsto> v)"
  by (induction xs) (auto simp: fun_eq_iff)

lemma map_of_in: "map_of xs i = Some v \<Longrightarrow> i \<in> fst ` set xs"
  by (force dest: map_of_SomeD)

lemma key_some: "has_key xs i \<longleftrightarrow> map_of xs i \<noteq> None"
  by (auto simp: map_of_eq_None_iff)

lemma scene_ok_more_ends:
  assumes "scene_ok w" "links v = links w" "\<And>e. end_links v e = end_links w e"
    and "\<And>e p. end_at w e = Some p \<Longrightarrow> end_at v e = Some p"
    and "\<forall>i n. map_of (nodes v) i = Some n \<longrightarrow> svg n \<noteq> None \<longrightarrow> svg_align n \<noteq> None"
  shows "scene_ok v"
  using assms unfolding scene_ok_def link_ok_def by simp

definition with_new :: "end_point \<Rightarrow> 'z scene_scheme \<Rightarrow> 'z scene_scheme" where
  "with_new e w = (case e of
       Node_End i \<Rightarrow> if has_key (nodes w) i then w else w\<lparr>nodes := nodes w @ [(i, new_node)]\<rparr>
     | Channel_End c \<Rightarrow> if has_key (channels w) c then w else w\<lparr>channels := channels w @ [(c, new_channel)]\<rparr>)"

lemma get_run: "get_node i w = (Inr (), with_new (Node_End i) w)" "get_channel c w = (Inr (), with_new (Channel_End c) w)"
  by (simp_all add: get_node_def get_channel_def with_new_def)

lemma new_node_simps [simp]: "n_links new_node = []" "svg new_node = None" "has_mob new_node = None" "center new_node = (0, 0)"
  by (simp_all add: new_node_def Let_def)

lemma with_new_simps [simp]:
  "links (with_new e w) = links w" "net (with_new e w) = net w" "traits_table (with_new e w) = traits_table w"
  by (auto simp: with_new_def split: end_point.split)

lemma nodes_with_new: "map_of (nodes (with_new e w)) =
    (if e \<in> range Node_End \<and> end_at w e = None then (map_of (nodes w))((case e of Node_End i \<Rightarrow> i) \<mapsto> new_node) else map_of (nodes w))"
  by (cases e) (auto simp: with_new_def end_at_def with_new_key map_of_eq_None_iff simp del: map_of_append dest: map_of_SomeD)

lemma end_at_with_new: "end_at (with_new e w) e' = (if e' = e \<and> end_at w e = None then Some (0, 0) else end_at w e')"
  by (cases e; cases e')
     (auto simp: with_new_def end_at_def with_new_key map_of_eq_None_iff new_channel_def simp del: map_of_append dest: map_of_SomeD)

lemma end_links_with_new: "end_links (with_new e w) e' = end_links w e'"
  by (cases e; cases e')
     (auto simp: with_new_def end_links_def with_new_key map_of_eq_None_iff new_channel_def simp del: map_of_append split: option.split dest: map_of_in)

lemma with_new_old: "end_at w e \<noteq> None \<Longrightarrow> with_new e w = w"
  by (cases e) (auto simp: with_new_def end_at_def dest: map_of_in)

lemma scene_ok_with_new: "scene_ok w \<Longrightarrow> scene_ok (with_new e w)"
  by (rule scene_ok_more_ends [of w])
     (auto simp: end_links_with_new end_at_with_new nodes_with_new scene_ok_def)

text \<open>A new link, registered at its two ends and not yet drawn.\<close>

definition registered :: "end_point \<Rightarrow> nat \<Rightarrow> 'z scene_scheme \<Rightarrow> 'z scene_scheme" where
  "registered e k w = (case e of Node_End i \<Rightarrow> with_node i (\<lambda>n. n\<lparr>n_links := n_links n @ [k]\<rparr>) w
     | Channel_End c \<Rightarrow> w\<lparr>channels := AList.map_entry c (\<lambda>v. v\<lparr>c_links := c_links v @ [k]\<rparr>) (channels w)\<rparr>)"

lemma registered_simps [simp]:
  "links (registered e k w) = links w" "net (registered e k w) = net w" "traits_table (registered e k w) = traits_table w"
  "end_at (registered e k w) e' = end_at w e'"
  by (cases e; cases e'; auto simp: registered_def end_at_def map_of_entry option.map_comp o_def)+

lemma end_links_registered: "end_at w e \<noteq> None \<Longrightarrow> end_links (registered e k w) e' = (if e' = e then end_links w e @ [k] else end_links w e')"
  by (cases e; cases e') (auto simp: registered_def end_links_def end_at_def map_of_entry split: option.split)

lemma nodes_registered: "map_of (nodes (registered e k w)) i = Some n \<Longrightarrow>
    \<exists>m. map_of (nodes w) i = Some m \<and> svg n = svg m \<and> svg_align n = svg_align m \<and> has_mob n = has_mob m"
  by (cases e) (auto simp: registered_def split: if_splits)

definition with_link :: "nat \<Rightarrow> end_point \<Rightarrow> 'z scene_scheme \<Rightarrow> 'z scene_scheme" where
  "with_link i e w = registered e (length (links w)) (registered (Node_End i) (length (links w))
     (w\<lparr>links := links w @ [\<lparr> from_node = i, to_end = e, path = None \<rparr>]\<rparr>))"

lemma create_link_run: "create_link i e w = (Inr (), with_link i e w)"
  by (cases e) (simp_all add: create_link_def with_link_def add_to_end_def registered_def upd_node_run sbind_ret [OF upd_node_run] upd_channel_def)

lemma with_link_simps [simp]:
  "links (with_link i e w) = links w @ [\<lparr> from_node = i, to_end = e, path = None \<rparr>]" "net (with_link i e w) = net w"
  "traits_table (with_link i e w) = traits_table w" "end_at (with_link i e w) e' = end_at w e'"
  by (simp_all add: with_link_def)

lemma nodes_with_link: "map_of (nodes (with_link i e w)) j = Some n \<Longrightarrow>
    \<exists>m. map_of (nodes w) j = Some m \<and> svg n = svg m \<and> svg_align n = svg_align m \<and> has_mob n = has_mob m"
  unfolding with_link_def by (drule nodes_registered, clarify, drule nodes_registered) auto

lemma scene_ok_with_link:
  assumes ok: "scene_ok w" and ends: "end_at w (Node_End i) \<noteq> None" "end_at w e \<noteq> None"
  shows "scene_ok (with_link i e w)" (is "scene_ok ?v")
proof -
  let ?l = "\<lparr> from_node = i, to_end = e, path = None \<rparr>"
  have reg: "k \<in> set (end_links ?v e') \<longleftrightarrow>
      k \<in> set (end_links w e') \<or> k = length (links w) \<and> e' \<in> set (ends_of ?l)" for k e'
    using ends by (auto simp: with_link_def end_links_registered ends_of_def)
  have "k \<in> set (end_links ?v e') \<longleftrightarrow> k < length (links ?v) \<and> e' \<in> set (ends_of (links ?v ! k))" for k e'
    unfolding reg using ok unfolding scene_ok_def by (auto simp: nth_append less_Suc_eq)
  moreover have "link_ok ?v l" if "l \<in> set (links ?v)" for l
    using ok that unfolding scene_ok_def by (auto simp: link_ok_def)
  moreover have "svg n \<noteq> None \<longrightarrow> svg_align n \<noteq> None" if n: "map_of (nodes ?v) j = Some n" for j n
  proof -
    obtain m where m: "map_of (nodes w) j = Some m" "svg n = svg m" "svg_align n = svg_align m"
      using nodes_with_link [OF n] by blast
    show ?thesis using ok m unfolding scene_ok_def by metis
  qed
  ultimately show ?thesis unfolding scene_ok_def by blast
qed

lemma end_at_moved:
  assumes "map_of (nodes w) i = Some n" "channels v = channels w" "map_of (nodes v) = (map_of (nodes w))(i \<mapsto> m)"
  shows "end_at v e = (if e = Node_End i then Some (center m) else end_at w e)"
  using assms by (cases e) (auto simp: end_at_def)

definition with_channel_at :: "nat \<Rightarrow> point \<Rightarrow> 'z scene_scheme \<Rightarrow> 'z scene_scheme" where
  "with_channel_at c p w = w\<lparr>channels := AList.map_entry c (\<lambda>v. v\<lparr>c_center := p\<rparr>) (channels w)\<rparr>"

lemma with_channel_at_simps [simp]:
  "links (with_channel_at c p w) = links w" "nodes (with_channel_at c p w) = nodes w"
  "net (with_channel_at c p w) = net w" "traits_table (with_channel_at c p w) = traits_table w"
  "map_of (channels (with_channel_at c p w)) = (map_of (channels w))(c := map_option (\<lambda>v. v\<lparr>c_center := p\<rparr>) (map_of (channels w) c))"
  unfolding with_channel_at_def by (simp_all add: map_of_entry)

lemma end_at_with_channel:
  "end_at w (Channel_End c) \<noteq> None \<Longrightarrow> end_at (with_channel_at c p w) e = (if e = Channel_End c then Some p else end_at w e)"
  by (cases e) (auto simp: end_at_def)

lemma end_links_with_channel: "end_links (with_channel_at c p w) e = end_links w e"
  by (cases e) (auto simp: end_links_def split: option.split)

lemma set_channel_position_ok:
  assumes ok: "scene_ok w" and c: "end_at w (Channel_End c) \<noteq> None"
  obtains v where "set_channel_position c p w = (Inr (), v)" "scene_ok v" "nodes v = nodes w" "net v = net w"
    "link_ends v = link_ends w" "\<And>e. end_at v e = (if e = Channel_End c then Some p else end_at w e)"
proof
  let ?u = "with_channel_at c p w" and ?ks = "end_links w (Channel_End c)"
  let ?v = "?u\<lparr>links := redrawn ?u ?ks\<rparr>"
  from c obtain d where d: "map_of (channels w) c = Some d" by (auto simp: end_at_def)
  have "set_channel_position c p w = sfor update_points ?ks ?u"
    using d by (simp add: set_channel_position_def upd_channel_def with_channel_at_def [symmetric] end_links_def
        sbind_ret [OF the_channel_run])
  also have "\<dots> = (Inr (), ?v)"
    using ok scene_ok_ends [OF ok] c by (intro redraw_run) (auto simp: scene_ok_def end_at_with_channel)
  finally show "set_channel_position c p w = (Inr (), ?v)" .
  have "scene_ok (?u\<lparr>links := redrawn ?u ?ks, canvas_bounds := canvas_bounds ?u\<rparr>)"
    by (rule scene_ok_redrawn [OF ok])
       (use ok c in \<open>auto simp: end_at_with_channel end_links_with_channel scene_ok_def\<close>)
  then show "scene_ok ?v" by simp
  show "link_ends ?v = link_ends w" by (simp add: link_ends_def)
qed (use c in \<open>simp_all add: end_at_with_channel\<close>)

text \<open>Two nodes with a link, of which the first moves.\<close>

definition linked_pair :: scene where
  "linked_pair = with_link 0 (Node_End 1) (with_new (Node_End 1) (with_new (Node_End 0)
     \<lparr> traits_table = netdevice_traits, warned_types = [], plugins = [], plugin_modules = [],
       plugins_loaded = False, sys_path = [], plugin_errors = [],
       net = \<lparr> net_nodes = [], channel_owners = (\<lambda>_. []) \<rparr>, nodes = [], channels = [], links = [], canvas_bounds = None \<rparr>))"

lemma linked_pair_facts:
  "scene_ok linked_pair" "has_key (nodes linked_pair) 0" "links linked_pair = [\<lparr> from_node = 0, to_end = Node_End 1, path = None \<rparr>]"
  "end_at linked_pair (Node_End 1) = Some (0, 0)"
proof -
  show "scene_ok linked_pair" unfolding linked_pair_def
    by (intro scene_ok_with_link scene_ok_with_new)
       (simp_all add: end_at_with_new del: not_None_eq, auto simp: scene_ok_def end_links_def split: end_point.split)
qed (simp_all add: linked_pair_def with_new_def end_at_def with_link_def registered_def with_node_def)

theorem moving_redraws_links_witness:
  "\<exists>v. set_position 0 (5, 7) linked_pair = (Inr (), v) \<and> path (links v ! 0) = Some ((5, 7), (0, 0))"
proof -
  obtain v where v: "set_position 0 (5, 7) linked_pair = (Inr (), v)"
    "\<forall>e. end_at v e = (if e = Node_End 0 then Some (5, 7) else end_at linked_pair e)"
    "\<forall>k < length (links linked_pair). if Node_End 0 \<in> set (ends_of (links linked_pair ! k))
         then path (links v ! k) = Some (the (end_at v (Node_End (from_node (links linked_pair ! k)))), the (end_at v (to_end (links linked_pair ! k))))
         else links v ! k = links linked_pair ! k"
    using moving_redraws_links [OF linked_pair_facts(1,2)] by blast
  then show ?thesis using linked_pair_facts(3,4) by (auto simp: ends_of_def)
qed

end
