(* ===== verification/Viz_Scan.thy ===== *)
theory Viz_Scan
  imports Viz_Scene
begin

text \<open>
  \<open>scan_topology\<close> of \<^verbatim>\<open>src/visualizer/visualizer/core.py\<close>: the objects for the nodes, channels and
  wired devices of the simulation, the graph of what has no position of its own, and its layout
  by graphviz, a parameter that gives each node of the graph a text with its position, as is the
  reading of a float. What is printed is a list of notes. \<open>REPRESENT_CHANNELS_AS_NODES\<close> is 1, so
  that the branch that links the nodes on a channel directly is dead.
\<close>

section \<open>The graph\<close>

record graph =
  g_nodes :: "string list"
  g_edges :: "(string \<times> string) list"

definition AGraph :: graph where "AGraph = \<lparr> g_nodes = [], g_edges = [] \<rparr>"

text \<open>A strict graph keeps one copy of a node and of an undirected edge.\<close>

definition graph_node :: "string \<Rightarrow> graph \<Rightarrow> graph" where
  "graph_node a g = (if a \<in> set (g_nodes g) then g else g\<lparr>g_nodes := g_nodes g @ [a]\<rparr>)"

definition graph_edge :: "string \<Rightarrow> string \<Rightarrow> graph \<Rightarrow> graph" where
  "graph_edge a b g =
     (let g = graph_node b (graph_node a g) in
      if (a, b) \<in> set (g_edges g) \<or> (b, a) \<in> set (g_edges g) then g else g\<lparr>g_edges := g_edges g @ [(a, b)]\<rparr>)"

definition node_name :: "nat \<Rightarrow> string" where "node_name i = ''Node '' @ show_nat i"
definition channel_name :: "nat \<Rightarrow> string" where "channel_name c = ''Channel '' @ show_nat c"

section \<open>Scanning\<close>

datatype scan_note = Scanning nat | Visited nat rat | Calling_Layout | All_Done

record scan_world = scene +
  scan_log :: "scan_note list"
  signals :: "string list"

type_synonym ('z, 'a) scan = "('z scan_world_scheme, 'a) proc"

definition log_note :: "scan_note \<Rightarrow> ('z, unit) scan" where
  "log_note n = modify (\<lambda>w. w\<lparr>scan_log := scan_log w @ [n]\<rparr>)"

definition emit_signal :: "string \<Rightarrow> ('z, unit) scan" where
  "emit_signal n = modify (\<lambda>w. w\<lparr>signals := signals w @ [n]\<rparr>)"

text \<open>A channel of at most two devices: links to the other nodes on it.\<close>

fun scan_others :: "nat \<Rightarrow> bool \<Rightarrow> nat list \<Rightarrow> graph \<Rightarrow> ('z, graph) scan" where
  "scan_others i mobile [] g = ret g"
| "scan_others i mobile (j # js) g = seq (get_node j)
     (if j = i then scan_others i mobile js g
      else sbind (if mobile then ret True else has_mobility j) (\<lambda>placed.
        seq (get_node i)
       (seq (create_link i (Node_End j))
       (scan_others i mobile js (if placed then g else graph_edge (node_name i) (node_name j) g)))))"

definition scan_device :: "nat \<Rightarrow> bool \<Rightarrow> ns_device \<Rightarrow> graph \<Rightarrow> ('z, graph) scan" where
  "scan_device i mobile dev g = sbind (lookup_netdevice_traits (dev_type dev)) (\<lambda>t.
     if is_wireless t = Some True then ret g
     else if is_virtual t then ret g
     else case dev_channel dev of
       None \<Rightarrow> fail AttributeError
     | Some c \<Rightarrow> sbind (gets (\<lambda>w. channel_owners (net w) c)) (\<lambda>owners.
         if 2 < length owners then
           seq (get_channel c) (seq (get_node i) (seq (create_link i (Channel_End c))
             (ret (if mobile then g else graph_edge (node_name i) (channel_name c) g))))
         else scan_others i mobile owners g))"

fun scan_devices :: "nat \<Rightarrow> bool \<Rightarrow> ns_device list \<Rightarrow> graph \<Rightarrow> ('z, graph) scan" where
  "scan_devices i mobile [] g = ret g"
| "scan_devices i mobile (d # ds) g = sbind (scan_device i mobile d g) (scan_devices i mobile ds)"

definition scan_node :: "(string \<Rightarrow> int \<times> int \<times> int) \<Rightarrow> nat \<Rightarrow> graph \<Rightarrow> ('z, graph) scan" where
  "scan_node color_parse i g = sbind (sim_node i) (\<lambda>node. seq (get_node i)
     (case mobility node of
        Some pos \<Rightarrow>
          seq (set_color color_parse i (Color_Name ''red''))
         (seq (set_position i (transform_point_simulation_to_canvas pos))
         (scan_devices i True (devices node) g))
      | None \<Rightarrow> scan_devices i False (devices node) (graph_node (node_name i) g)))"

fun scan_nodes :: "(string \<Rightarrow> int \<times> int \<times> int) \<Rightarrow> nat \<Rightarrow> nat \<Rightarrow> nat list \<Rightarrow> graph \<Rightarrow> ('z, graph) scan" where
  "scan_nodes color_parse n seen [] g = ret g"
| "scan_nodes color_parse n seen (i # is) g =
     seq (do_if (seen + 1 = 100) (log_note (Visited i (of_nat (100 * i) / of_nat n))))
    (sbind (scan_node color_parse i g)
      (scan_nodes color_parse n (if seen + 1 = 100 then 0 else seen + 1) is))"

section \<open>The layout\<close>

text \<open>\<open>int(s)\<close>, for texts without sign, blanks or underscores.\<close>

definition py_nat :: "string \<Rightarrow> py_error + nat" where
  "py_nat s = (if s \<noteq> [] \<and> list_all is_digit s then Inr (read_nat s) else Inl ValueError)"

text \<open>\<open>a, b = xs\<close>\<close>

definition two :: "'a list \<Rightarrow> py_error + 'a \<times> 'a" where
  "two xs = (case xs of [a, b] \<Rightarrow> Inr (a, b) | _ \<Rightarrow> Inl ValueError)"

text \<open>The object of a node of the graph; for another kind of name it is still that of the last one.\<close>

definition graph_object :: "end_point option \<Rightarrow> string \<Rightarrow> string \<Rightarrow> ('z, end_point) scan" where
  "graph_object prev node_type node_id =
     (if node_type = ''Node'' then
        sbind (lift (py_nat node_id)) (\<lambda>i. sbind (the_node i) (\<lambda>_. ret (Node_End i)))
      else if node_type = ''Channel'' then
        sbind (lift (py_nat node_id)) (\<lambda>c. sbind (the_channel c) (\<lambda>_. ret (Channel_End c)))
      else (case prev of None \<Rightarrow> fail UnboundLocalError | Some e \<Rightarrow> ret e))"

text \<open>\<open>[float(s) for s in pos.split(',')]\<close>, taken apart in two.\<close>

definition parse_pos :: "(string \<Rightarrow> py_error + rat) \<Rightarrow> string \<Rightarrow> py_error + point" where
  "parse_pos float pos = rbind (rmap float (split_on (CHR '','') pos)) two"

definition place :: "end_point \<Rightarrow> point \<Rightarrow> ('z, unit) viz" where
  "place e p = (case e of Node_End i \<Rightarrow> set_position i p | Channel_End c \<Rightarrow> set_channel_position c p)"

fun place_all :: "(string \<Rightarrow> py_error + rat) \<Rightarrow> end_point option \<Rightarrow> (string \<times> string) list \<Rightarrow> ('z, unit) scan" where
  "place_all float prev [] = ret ()"
| "place_all float prev ((name, pos) # ps) =
     sbind (lift (two (split_on (CHR '' '') name))) (\<lambda>(node_type, node_id).
     sbind (lift (parse_pos float pos)) (\<lambda>p.
     sbind (graph_object prev node_type node_id) (\<lambda>obj.
     seq (place obj p) (place_all float (Some obj) ps))))"

definition scan_topology ::
  "(string \<Rightarrow> int \<times> int \<times> int) \<Rightarrow> (graph \<Rightarrow> (string \<times> string) list) \<Rightarrow> (string \<Rightarrow> py_error + rat) \<Rightarrow> ('z, unit) scan"
where
  "scan_topology color_parse layout float =
     sbind (gets (\<lambda>w. length (net_nodes (net w)))) (\<lambda>n.
     seq (log_note (Scanning n))
    (sbind (scan_nodes color_parse n 0 [0..<n] AGraph) (\<lambda>graph.
     seq (log_note Calling_Layout)
    (seq (place_all float None (layout graph))
    (seq (log_note All_Done) (emit_signal ''topology-scanned''))))))"

section \<open>What is expected of a scan\<close>

text \<open>Does a device of a type get a link? The links of a device, a node and the network, in order.\<close>

definition wired :: "(string, traits) dict \<Rightarrow> string \<Rightarrow> bool" where
  "wired tab t = (case map_of tab t of None \<Rightarrow> False | Some r \<Rightarrow> is_wireless r \<noteq> Some True \<and> \<not> is_virtual r)"

definition device_links :: "(string, traits) dict \<Rightarrow> network \<Rightarrow> nat \<Rightarrow> ns_device \<Rightarrow> (nat \<times> end_point) list" where
  "device_links tab N i d = (if \<not> wired tab (dev_type d) then [] else case dev_channel d of
       None \<Rightarrow> []
     | Some c \<Rightarrow> (let owners = channel_owners N c in
         if 2 < length owners then [(i, Channel_End c)] else map (\<lambda>j. (i, Node_End j)) (filter (\<lambda>j. j \<noteq> i) owners)))"

definition node_links :: "(string, traits) dict \<Rightarrow> network \<Rightarrow> nat \<Rightarrow> (nat \<times> end_point) list" where
  "node_links tab N i = concat (map (device_links tab N i) (devices (net_nodes N ! i)))"

definition expected_links :: "(string, traits) dict \<Rightarrow> network \<Rightarrow> (nat \<times> end_point) list" where
  "expected_links tab N = concat (map (node_links tab N) [0..<length (net_nodes N)])"

definition no_channel :: "(string, traits) dict \<Rightarrow> ns_device \<Rightarrow> bool" where
  "no_channel tab d \<longleftrightarrow> wired tab (dev_type d) \<and> dev_channel d = None"

text \<open>The devices of a channel belong to nodes of the network.\<close>

definition network_ok :: "network \<Rightarrow> bool" where
  "network_ok N \<longleftrightarrow> (\<forall>m \<in> set (net_nodes N). \<forall>d \<in> set (devices m). \<forall>c. dev_channel d = Some c \<longrightarrow>
     (\<forall>j \<in> set (channel_owners N c). j < length (net_nodes N)))"

section \<open>The scan meets it\<close>

text \<open>Objects stand for nodes of the network and remember its answers.\<close>

definition known :: "network \<Rightarrow> (nat \<Rightarrow> node_view option) \<Rightarrow> bool" where
  "known N f \<longleftrightarrow> (\<forall>i n. f i = Some n \<longrightarrow>
     i < length (net_nodes N) \<and> (has_mob n = None \<or> has_mob n = Some (mobility (net_nodes N ! i) \<noteq> None)))"

lemma known_sub: "known N f \<Longrightarrow> (\<And>i n. h i = Some n \<Longrightarrow> \<exists>m. f i = Some m \<and> has_mob n = has_mob m) \<Longrightarrow> known N h"
  unfolding known_def by metis

lemma known_upd: "known N f \<Longrightarrow> i < length (net_nodes N) \<Longrightarrow>
    has_mob n = None \<or> has_mob n = Some (mobility (net_nodes N ! i) \<noteq> None) \<Longrightarrow> known N (f(i \<mapsto> n))"
  unfolding known_def by simp

definition scan_ok :: "'z scene_scheme \<Rightarrow> bool" where
  "scan_ok w \<longleftrightarrow> scene_ok w \<and> known (net w) (map_of (nodes w))"

text \<open>A part of a scan adds links, objects stay, and only those of the nodes in a set move.\<close>

definition scans :: "nat set \<Rightarrow> 'z scene_scheme \<Rightarrow> (nat \<times> end_point) list \<Rightarrow> 'z scene_scheme \<Rightarrow> bool" where
  "scans X w Ls v \<longleftrightarrow> scan_ok v \<and> net v = net w \<and> wired (traits_table v) = wired (traits_table w)
     \<and> link_ends v = link_ends w @ Ls
     \<and> (\<forall>e. end_at w e \<noteq> None \<longrightarrow> end_at v e \<noteq> None \<and> (e \<notin> Node_End ` X \<longrightarrow> end_at v e = end_at w e))"

lemma scans_refl: "scan_ok w \<Longrightarrow> scans X w [] w"
  by (simp add: scans_def)

lemma scans_trans: "scans X u A v \<Longrightarrow> scans Y v B w \<Longrightarrow> scans (X \<union> Y) u (A @ B) w"
  unfolding scans_def by (auto simp: image_Un)

lemma scans_mono: "scans X u A v \<Longrightarrow> X \<subseteq> Y \<Longrightarrow> scans Y u A v"
  unfolding scans_def by blast

text \<open>The graph names what the scene has: nodes without a place and channels.\<close>

definition graph_name :: "'z scene_scheme \<Rightarrow> string \<Rightarrow> bool" where
  "graph_name w a \<longleftrightarrow>
     (\<exists>i. a = node_name i \<and> end_at w (Node_End i) \<noteq> None \<and> mobility (net_nodes (net w) ! i) = None)
   \<or> (\<exists>c. a = channel_name c \<and> end_at w (Channel_End c) \<noteq> None)"

lemma graph_nameI:
  "end_at w (Node_End i) \<noteq> None \<Longrightarrow> mobility (net_nodes (net w) ! i) = None \<Longrightarrow> graph_name w (node_name i)"
  "end_at w (Channel_End c) \<noteq> None \<Longrightarrow> graph_name w (channel_name c)"
  unfolding graph_name_def by blast+

definition graph_ok :: "'z scene_scheme \<Rightarrow> graph \<Rightarrow> bool" where
  "graph_ok w g \<longleftrightarrow> (\<forall>a \<in> set (g_nodes g). graph_name w a)"

lemma graph_ok_scans: "graph_ok w g \<Longrightarrow> scans X w Ls v \<Longrightarrow> graph_ok v g"
  unfolding graph_ok_def graph_name_def scans_def by metis

lemma g_nodes_graph [simp]:
  "set (g_nodes (graph_node a g)) = insert a (set (g_nodes g))"
  "set (g_nodes (graph_edge a b g)) = {a, b} \<union> set (g_nodes g)"
  by (auto simp: graph_node_def graph_edge_def Let_def)

lemma scans_with_new:
  assumes "scan_ok w" and e: "case e of Node_End i \<Rightarrow> i < length (net_nodes (net w)) | Channel_End c \<Rightarrow> True"
  shows "scans {} w [] (with_new e w)"
proof -
  have "known (net w) (map_of (nodes (with_new e w)))"
    using assms unfolding scan_ok_def nodes_with_new by (auto intro: known_upd)
  then show ?thesis using assms unfolding scans_def scan_ok_def
    by (auto simp: scene_ok_with_new end_at_with_new link_ends_def)
qed

lemma scans_with_link:
  assumes "scan_ok w" "end_at w (Node_End i) \<noteq> None" "end_at w e \<noteq> None"
  shows "scans {} w [(i, e)] (with_link i e w)"
proof -
  have "known (net w) (map_of (nodes (with_link i e w)))"
    using assms(1) nodes_with_link [of i e w] unfolding scan_ok_def by (elim conjE, elim known_sub) blast
  then show ?thesis using assms unfolding scans_def scan_ok_def
    by (simp add: scene_ok_with_link link_ends_def)
qed

lemma has_mobility_run:
  assumes ok: "scan_ok w" and i: "end_at w (Node_End i) \<noteq> None"
  obtains v where "has_mobility i w = (Inr (mobility (net_nodes (net w) ! i) \<noteq> None), v)" "scans {} w [] v"
proof -
  let ?b = "mobility (net_nodes (net w) ! i) \<noteq> None"
  from i obtain n where n: "map_of (nodes w) i = Some n" by (auto simp: end_at_def)
  with ok have known: "i < length (net_nodes (net w))" "has_mob n = None \<or> has_mob n = Some ?b"
    unfolding scan_ok_def known_def by blast+
  show thesis
  proof (cases "has_mob n")
    case (Some b)
    then show thesis using that [of w] ok n known by (simp add: has_mobility_def sbind_the_node scans_refl)
  next
    case None
    let ?f = "\<lambda>n :: node_view. n\<lparr>has_mob := Some ?b\<rparr>"
    have f: "plain ?f" by (simp add: plain_def)
    have "sim_node i w = (Inr (net_nodes (net w) ! i), w)" using known(1) by (simp add: sim_node_def)
    then have "has_mobility i w = (Inr ?b, with_node i ?f w)"
      using None n by (simp add: has_mobility_def sbind_the_node sbind_ret [OF upd_node_run] sbind_ret)
    moreover have "known (net w) ((map_of (nodes w))(i \<mapsto> ?f n))"
      using ok known unfolding scan_ok_def by (intro known_upd) simp_all
    with ok f n have "scans {} w [] (with_node i ?f w)"
      unfolding scans_def scan_ok_def by (simp add: scene_ok_plain end_at_plain link_ends_def)
    ultimately show thesis by (rule that)
  qed
qed

text \<open>A part of the scan returns a graph, from a scene it extends.\<close>

definition scan_result ::
  "nat set \<Rightarrow> 'z scene_scheme \<Rightarrow> graph \<Rightarrow> (nat \<times> end_point) list \<Rightarrow> (py_error + graph) \<times> 'z scene_scheme \<Rightarrow> bool" where
  "scan_result X w g Ls r \<longleftrightarrow> (\<exists>h v. r = (Inr h, v) \<and> scans X w Ls v \<and> graph_ok v h \<and> set (g_nodes g) \<subseteq> set (g_nodes h))"

lemma scan_result_ret: "scans X w Ls v \<Longrightarrow> graph_ok v h \<Longrightarrow> set (g_nodes g) \<subseteq> set (g_nodes h) \<Longrightarrow> scan_result X w g Ls (Inr h, v)"
  by (auto simp: scan_result_def)

lemma scan_result_after:
  assumes "scans X w A v" "scan_result Y v g B r"
  shows "scan_result (X \<union> Y) w g (A @ B) r"
  using assms scans_trans unfolding scan_result_def by blast

lemma scan_result_step:
  assumes "scans X w A v" "set (g_nodes g) \<subseteq> set (g_nodes h)" "scan_result Y v h B r"
  shows "scan_result (X \<union> Y) w g (A @ B) r"
proof -
  have "scan_result Y v g B r" using assms(2,3) unfolding scan_result_def by blast
  then show ?thesis by (rule scan_result_after [OF assms(1)])
qed

lemma scansD:
  assumes "scans X w Ls v"
  shows "scan_ok v" "net v = net w" "wired (traits_table v) = wired (traits_table w)"
    "end_at w e \<noteq> None \<Longrightarrow> end_at v e \<noteq> None"
  using assms unfolding scans_def by blast+

lemma graph_ok_simps [simp]:
  "graph_ok w (graph_node a g) \<longleftrightarrow> graph_name w a \<and> graph_ok w g"
  "graph_ok w (graph_edge a b g) \<longleftrightarrow> graph_name w a \<and> graph_name w b \<and> graph_ok w g"
  by (auto simp: graph_ok_def)

text \<open>One other node on the channel: the link to it, and whether it has a place.\<close>

lemma scan_other_step:
  assumes "scan_ok w" "end_at w (Node_End i) \<noteq> None" "j < length (net_nodes (net w))"
    and "placed = (mobile \<or> mobility (net_nodes (net w) ! j) \<noteq> None)"
  obtains x where "scans {} w [(i, Node_End j)] x" "end_at x (Node_End j) \<noteq> None"
    "seq (get_node j) (sbind (if mobile then ret True else has_mobility j) (\<lambda>p.
       seq (get_node i) (seq (create_link i (Node_End j)) (f p)))) w = f placed x"
proof -
  let ?u = "with_new (Node_End j) w"
  have u: "scans {} w [] ?u" using assms by (intro scans_with_new) simp_all
  have ju: "end_at ?u (Node_End j) \<noteq> None" by (simp add: end_at_with_new)
  obtain v where v: "(if mobile then ret True else has_mobility j) ?u = (Inr placed, v)" "scans {} ?u [] v"
  proof (cases mobile)
    case True
    then show thesis using that [of ?u] scans_refl [OF scansD(1) [OF u]] assms(4) by simp
  next
    case False
    then show thesis using has_mobility_run [OF scansD(1) [OF u] ju] that scansD(2) [OF u] assms(4) by auto
  qed
  have uv: "scans {} w [] v" using scans_trans [OF u v(2)] by simp
  have at: "end_at v (Node_End j) \<noteq> None" "end_at v (Node_End i) \<noteq> None"
    using scansD(4) [OF v(2) ju] scansD(4) [OF uv assms(2)] .
  let ?x = "with_link i (Node_End j) v"
  have x: "scans {} v [(i, Node_End j)] ?x" using at scansD(1) [OF uv] by (intro scans_with_link) simp_all
  show thesis
  proof (rule that [of ?x])
    show "scans {} w [(i, Node_End j)] ?x" using scans_trans [OF uv x] by simp
    show "end_at ?x (Node_End j) \<noteq> None" using at by simp
  qed (simp add: sbind_ret [OF get_run(1)] sbind_ret [of "if mobile then ret True else has_mobility j", OF v(1)] with_new_old at sbind_ret [OF create_link_run])
qed

lemma scan_others_ok:
  assumes "scan_ok w" "end_at w (Node_End i) \<noteq> None" "\<forall>j \<in> set js. j < length (net_nodes (net w))"
    "mobile = (mobility (net_nodes (net w) ! i) \<noteq> None)" "graph_ok w g"
  shows "scan_result {} w g (map (\<lambda>j. (i, Node_End j)) (filter (\<lambda>j. j \<noteq> i) js)) (scan_others i mobile js g w)"
  using assms
proof (induction js arbitrary: w g)
  case Nil
  then show ?case by (simp add: scan_result_ret scans_refl)
next
  case (Cons j js)
  let ?Ls = "map (\<lambda>j. (i, Node_End j)) (filter (\<lambda>j. j \<noteq> i) js)"
  show ?case
  proof (cases "j = i")
    case True
    have "with_new (Node_End j) w = w" using Cons.prems(2) True by (simp add: with_new_old)
    moreover have "scan_result {} w g ?Ls (scan_others i mobile js g w)"
      using Cons.prems by (intro Cons.IH) simp_all
    ultimately show ?thesis using True by (simp add: sbind_ret [OF get_run(1)])
  next
    case False
    let ?placed = "mobile \<or> mobility (net_nodes (net w) ! j) \<noteq> None"
    let ?h = "\<lambda>p. if p then g else graph_edge (node_name i) (node_name j) g"
    obtain x where x: "scans {} w [(i, Node_End j)] x" "end_at x (Node_End j) \<noteq> None"
      and run: "scan_others i mobile (j # js) g w = scan_others i mobile js (?h ?placed) x"
      using scan_other_step [of w i j ?placed mobile "\<lambda>p. scan_others i mobile js (?h p)"] Cons.prems False by auto
    note xD = scansD [OF x(1)]
    have "graph_ok x (?h ?placed)"
      using graph_ok_scans [OF Cons.prems(5) x(1)] graph_nameI(1) [of x i] graph_nameI(1) [of x j] x(2)
        xD(2) xD(4) [OF Cons.prems(2)] Cons.prems(4) by (auto simp del: not_None_eq)
    then have "scan_result {} x (?h ?placed) ?Ls (scan_others i mobile js (?h ?placed) x)"
      using Cons.prems xD by (intro Cons.IH) simp_all
    then have "scan_result {} x g ?Ls (scan_others i mobile js (?h ?placed) x)"
      unfolding scan_result_def by (fastforce split: if_splits)
    from scan_result_after [OF x(1) this] show ?thesis using False unfolding run by simp
  qed
qed

text \<open>The table of traits may learn the type as wireless: what is wired stays the same.\<close>

lemma lookup_run:
  assumes "scan_ok w"
  obtains t v where "lookup_netdevice_traits ty w = (Inr t, v)" "scans {} w [] v"
    "wired (traits_table w) ty = (is_wireless t \<noteq> Some True \<and> \<not> is_virtual t)"
proof (cases "map_of (traits_table w) ty")
  case (Some t)
  then show thesis using that [of t w] assms by (simp add: lookup_netdevice_traits_def wired_def scans_refl)
next
  case None
  let ?t = "\<lparr> is_wireless = Some True, is_virtual = False \<rparr>"
  let ?v = "w\<lparr>warned_types := warned_types w @ [ty], traits_table := AList.update ty ?t (traits_table w)\<rparr>"
  have "end_at ?v = end_at w" "end_links ?v = end_links w"
    by (auto simp: end_at_def end_links_def fun_eq_iff split: end_point.split)
  then have "scans {} w [] ?v" using assms None
    by (auto simp: scans_def scan_ok_def scene_ok_def link_ok_def link_ends_def wired_def fun_eq_iff update_conv' simp del: not_None_eq)
  moreover have "lookup_netdevice_traits ty w = (Inr ?t, ?v)"
    using None by (simp add: lookup_netdevice_traits_def NetDeviceTraits_def)
  ultimately show thesis using None that by (simp add: wired_def)
qed

lemma scan_device_ok:
  assumes w: "scan_ok w" "end_at w (Node_End i) \<noteq> None" "graph_ok w g"
    and mobile: "mobile = (mobility (net_nodes (net w) ! i) \<noteq> None)"
    and c: "\<forall>c. dev_channel d = Some c \<longrightarrow> (\<forall>j \<in> set (channel_owners (net w) c). j < length (net_nodes (net w)))"
    and d: "\<not> no_channel (traits_table w) d"
  shows "scan_result {} w g (device_links (traits_table w) (net w) i d) (scan_device i mobile d g w)"
proof -
  obtain t v where v: "lookup_netdevice_traits (dev_type d) w = (Inr t, v)" "scans {} w [] v"
    "wired (traits_table w) (dev_type d) = (is_wireless t \<noteq> Some True \<and> \<not> is_virtual t)"
    using lookup_run [OF w(1)] by blast
  note vD = scansD [OF v(2)]
  have g: "graph_ok v g" using graph_ok_scans [OF w(3) v(2)] .
  have i: "end_at v (Node_End i) \<noteq> None" using vD(4) [OF w(2)] .
  show ?thesis
  proof (cases "dev_channel d")
    case None
    with d v(3) show ?thesis using scan_result_ret [OF v(2) g order_refl]
      by (auto simp: scan_device_def sbind_ret [of "lookup_netdevice_traits (dev_type d)", OF v(1)] device_links_def no_channel_def)
  next
    case (Some c)
    let ?x = "with_link i (Channel_End c) (with_new (Channel_End c) v)"
    have u: "scans {} v [] (with_new (Channel_End c) v)" using vD(1) by (intro scans_with_new) simp_all
    note uD = scansD [OF u]
    have "scans {} (with_new (Channel_End c) v) [(i, Channel_End c)] ?x"
      using uD(1) uD(4) [OF i] by (intro scans_with_link) (simp_all add: end_at_with_new)
    from scans_trans [OF v(2) scans_trans [OF u this]] have x: "scans {} w [(i, Channel_End c)] ?x" by simp
    let ?h = "if mobile then g else graph_edge (node_name i) (channel_name c) g"
    have "graph_ok ?x ?h" using graph_ok_scans [OF w(3) x] scansD(4) [OF x w(2)] mobile vD(2)
        graph_nameI(1) [of ?x i] graph_nameI(2) [of ?x c]
      by (auto simp: end_at_with_new simp del: not_None_eq)
    then have "scan_result {} w g [(i, Channel_End c)] (Inr ?h, ?x)" using x by (auto intro: scan_result_ret)
    moreover have "scan_result {} v g (map (\<lambda>j. (i, Node_End j)) (filter (\<lambda>j. j \<noteq> i) (channel_owners (net w) c)))
        (scan_others i mobile (channel_owners (net w) c) g v)"
      using c Some vD g i mobile by (intro scan_others_ok) simp_all
    then have "scan_result {} w g (map (\<lambda>j. (i, Node_End j)) (filter (\<lambda>j. j \<noteq> i) (channel_owners (net w) c)))
        (scan_others i mobile (channel_owners (net w) c) g v)"
      using scan_result_after [OF v(2)] by fastforce
    moreover have "scan_result {} w g [] (Inr g, v)" by (rule scan_result_ret [OF v(2) g order_refl])
    ultimately show ?thesis using Some v(3) vD(2) uD(4) [OF i]
      by (auto simp: scan_device_def sbind_ret [of "lookup_netdevice_traits (dev_type d)", OF v(1)] device_links_def sbind_ret [OF get_run(1)] sbind_ret [OF get_run(2)]
          sbind_ret [OF create_link_run] with_new_old simp del: not_None_eq)
  qed
qed

lemma scan_device_fails:
  assumes "scan_ok w" "no_channel (traits_table w) d"
  shows "fst (scan_device i mobile d g w) = Inl AttributeError"
proof -
  obtain t v where v: "lookup_netdevice_traits (dev_type d) w = (Inr t, v)"
    "wired (traits_table w) (dev_type d) = (is_wireless t \<noteq> Some True \<and> \<not> is_virtual t)"
    using lookup_run [OF assms(1)] by blast
  show ?thesis using assms(2) v(2)
    by (simp add: scan_device_def sbind_ret [of "lookup_netdevice_traits (dev_type d)", OF v(1)] no_channel_def)
qed

lemma device_links_cong: "wired T = wired T' \<Longrightarrow> device_links T = device_links T'"
  by (simp add: device_links_def fun_eq_iff)

lemma no_channel_cong: "wired T = wired T' \<Longrightarrow> no_channel T = no_channel T'"
  by (simp add: no_channel_def fun_eq_iff)

lemma scan_devices_ok:
  assumes "scan_ok w" "end_at w (Node_End i) \<noteq> None" "graph_ok w g"
    "mobile = (mobility (net_nodes (net w) ! i) \<noteq> None)"
    "\<forall>d \<in> set ds. \<forall>c. dev_channel d = Some c \<longrightarrow> (\<forall>j \<in> set (channel_owners (net w) c). j < length (net_nodes (net w)))"
  shows "if \<exists>d \<in> set ds. no_channel (traits_table w) d then fst (scan_devices i mobile ds g w) = Inl AttributeError
    else scan_result {} w g (concat (map (device_links (traits_table w) (net w) i) ds)) (scan_devices i mobile ds g w)"
  using assms
proof (induction ds arbitrary: w g)
  case Nil
  then show ?case by (simp add: scan_result_ret scans_refl)
next
  case (Cons d ds)
  show ?case
  proof (cases "no_channel (traits_table w) d")
    case True
    then show ?thesis using scan_device_fails [OF Cons.prems(1) True, of i mobile g]
      by (cases "scan_device i mobile d g w") (simp add: sbind_def)
  next
    case False
    then have "scan_result {} w g (device_links (traits_table w) (net w) i d) (scan_device i mobile d g w)"
      using Cons.prems by (intro scan_device_ok) simp_all
    then obtain h v where v: "scan_device i mobile d g w = (Inr h, v)"
      "scans {} w (device_links (traits_table w) (net w) i d) v" "graph_ok v h" "set (g_nodes g) \<subseteq> set (g_nodes h)"
      unfolding scan_result_def by blast
    note vD = scansD [OF v(2)]
    have run: "scan_devices i mobile (d # ds) g w = scan_devices i mobile ds h v"
      by (simp add: sbind_ret [of "scan_device i mobile d g", OF v(1)])
    have "if \<exists>d \<in> set ds. no_channel (traits_table v) d then fst (scan_devices i mobile ds h v) = Inl AttributeError
      else scan_result {} v h (concat (map (device_links (traits_table v) (net v) i) ds)) (scan_devices i mobile ds h v)"
      using Cons.prems vD v(3) by (intro Cons.IH) simp_all
    then show ?thesis using False run scan_result_step [OF v(2) v(4), of "{}"]
      unfolding no_channel_cong [OF vD(3)] device_links_cong [OF vD(3)] vD(2) by (auto split: if_splits)
  qed
qed

lemma scans_change:
  assumes "scan_ok w" "map_of (nodes w) i = Some n" "has_mob m = has_mob n"
    and "scene_ok v" "redraws w v" "map_of (nodes v) = (map_of (nodes w))(i \<mapsto> m)"
  shows "scans {i} w [] v" "center m = center n \<Longrightarrow> scans {} w [] v" "end_at v (Node_End i) = Some (center m)"
proof -
  note rD = redraws_fields [OF assms(5)]
  have "known (net v) (map_of (nodes v))"
    unfolding assms(6) rD(1) using assms(1-3) unfolding scan_ok_def by (intro known_upd) (auto simp: known_def)
  with assms(4) have ok: "scan_ok v" unfolding scan_ok_def by blast
  note at = end_at_moved [OF assms(2) rD(2) assms(6)]
  have old: "end_at w (Node_End i) = Some (center n)" using assms(2) by (simp add: end_at_def)
  show "scans {i} w [] v" using ok rD by (auto simp: scans_def at)
  show "center m = center n \<Longrightarrow> scans {} w [] v" using ok rD old by (auto simp: scans_def at)
  show "end_at v (Node_End i) = Some (center m)" by (simp add: at)
qed

text \<open>A node that has been scanned is at its place, or waits for the layout.\<close>

definition settled :: "'z scene_scheme \<Rightarrow> graph \<Rightarrow> nat \<Rightarrow> bool" where
  "settled w g i \<longleftrightarrow> end_at w (Node_End i) \<noteq> None \<and> (case mobility (net_nodes (net w) ! i) of
       Some p \<Rightarrow> end_at w (Node_End i) = Some (transform_point_simulation_to_canvas p)
     | None \<Rightarrow> node_name i \<in> set (g_nodes g))"

lemma settled_later:
  assumes "settled w g i" "scans X w Ls v" "i \<notin> X" "set (g_nodes g) \<subseteq> set (g_nodes h)"
  shows "settled v h i"
proof -
  have "end_at v (Node_End i) = end_at w (Node_End i)" "net v = net w"
    using assms(1-3) unfolding settled_def scans_def by auto
  then show ?thesis using assms(1,4) unfolding settled_def by (auto split: option.splits)
qed

lemma scan_node_start:
  assumes w: "scan_ok w" "graph_ok w g" and i: "i < length (net_nodes (net w))"
  obtains h v where
    "scan_node color_parse i g w =
       scan_devices i (mobility (net_nodes (net w) ! i) \<noteq> None) (devices (net_nodes (net w) ! i)) h v"
    "scans {i} w [] v" "graph_ok v h" "set (g_nodes g) \<subseteq> set (g_nodes h)" "settled v h i"
proof -
  let ?u = "with_new (Node_End i) w"
  have sim: "sim_node i w = (Inr (net_nodes (net w) ! i), w)" using i by (simp add: sim_node_def)
  have u: "scans {} w [] ?u" using w(1) i by (intro scans_with_new) simp_all
  note uD = scansD [OF u]
  have g: "graph_ok ?u g" by (rule graph_ok_scans [OF w(2) u])
  have at: "end_at ?u (Node_End i) \<noteq> None" by (simp add: end_at_with_new)
  show thesis
  proof (cases "mobility (net_nodes (net w) ! i)")
    case None
    let ?h = "graph_node (node_name i) g"
    have "graph_ok ?u ?h" using g at None uD(2) by (simp add: graph_nameI del: not_None_eq)
    moreover have "scans {i} w [] ?u" by (rule scans_mono [OF u]) simp
    ultimately show thesis using at None uD(2)
      by (intro that [of ?h ?u])
         (auto simp: scan_node_def sbind_ret [of "sim_node i", OF sim] sbind_ret [OF get_run(1)] settled_def)
  next
    case (Some p)
    let ?c = "\<lambda>n :: node_view. n\<lparr>color := rgba_of (color_parse ''red'')\<rparr>" and ?p = "transform_point_simulation_to_canvas p"
    obtain n where n: "map_of (nodes ?u) i = Some n" using at by (auto simp: end_at_def)
    have "plain ?c" by (simp add: plain_def)
    then obtain a where a: "set_color color_parse i (Color_Name ''red'') ?u = (Inr (), a)" "scene_ok a" "redraws ?u a"
      "map_of (nodes a) = (map_of (nodes ?u))(i \<mapsto> dressed (?c n))"
      using restyle_ok [of ?c ?u i n] n uD(1) unfolding set_color_def scan_ok_def by auto
    have sa: "scans {} ?u [] a" by (rule scans_change(2) [OF uD(1) n _ a(2-4)]) simp_all
    have na: "map_of (nodes a) i = Some (dressed (?c n))" by (simp add: a(4))
    obtain b where b: "set_position i ?p a = (Inr (), b)" "scene_ok b" "redraws a b"
      "map_of (nodes b) = (map_of (nodes a))(i \<mapsto> moved ?p (dressed (?c n)))"
      using set_position_ok [OF a(2) na] by blast
    note sb = scans_change [OF scansD(1) [OF sa] na _ b(2-4)]
    have wb: "scans {i} w [] b" using scans_trans [OF u scans_trans [OF sa sb(1)]] by simp
    show thesis
    proof (rule that [of g b])
      show "settled b g i" using sb(3) scansD(2) [OF wb] Some by (simp add: settled_def)
    qed (use Some wb graph_ok_scans [OF w(2) wb] in
      \<open>auto simp: scan_node_def sbind_ret [of "sim_node i", OF sim] sbind_ret [OF get_run(1)]
        sbind_ret [of "set_color color_parse i (Color_Name ''red'')", OF a(1)] sbind_ret [of "set_position i ?p", OF b(1)]\<close>)
  qed
qed

lemma network_okD: "network_ok N \<Longrightarrow> i < length (net_nodes N) \<Longrightarrow>
    \<forall>d \<in> set (devices (net_nodes N ! i)). \<forall>c. dev_channel d = Some c \<longrightarrow> (\<forall>j \<in> set (channel_owners N c). j < length (net_nodes N))"
  unfolding network_ok_def by (metis nth_mem)

lemma scan_node_ok:
  assumes w: "scan_ok w" "graph_ok w g" "network_ok (net w)" and i: "i < length (net_nodes (net w))"
  shows "if \<exists>d \<in> set (devices (net_nodes (net w) ! i)). no_channel (traits_table w) d
    then fst (scan_node color_parse i g w) = Inl AttributeError
    else \<exists>h v. scan_node color_parse i g w = (Inr h, v) \<and> scans {i} w (node_links (traits_table w) (net w) i) v
      \<and> graph_ok v h \<and> set (g_nodes g) \<subseteq> set (g_nodes h) \<and> settled v h i"
proof -
  obtain h v where run: "scan_node color_parse i g w =
       scan_devices i (mobility (net_nodes (net w) ! i) \<noteq> None) (devices (net_nodes (net w) ! i)) h v"
    and v: "scans {i} w [] v" "graph_ok v h" "set (g_nodes g) \<subseteq> set (g_nodes h)" "settled v h i"
    using scan_node_start [OF w(1,2) i] by blast
  note vD = scansD [OF v(1)]
  have devs: "if \<exists>d \<in> set (devices (net_nodes (net w) ! i)). no_channel (traits_table v) d
    then fst (scan_node color_parse i g w) = Inl AttributeError
    else scan_result {} v h (concat (map (device_links (traits_table v) (net v) i) (devices (net_nodes (net w) ! i)))) (scan_node color_parse i g w)"
    unfolding run using v network_okD [OF w(3) i] vD(1,2) by (intro scan_devices_ok) (simp_all add: settled_def del: not_None_eq)
  show ?thesis
  proof (cases "\<exists>d \<in> set (devices (net_nodes (net w) ! i)). no_channel (traits_table w) d")
    case False
    then obtain k u where u: "scan_node color_parse i g w = (Inr k, u)"
      "scans {} v (node_links (traits_table w) (net w) i) u" "graph_ok u k" "set (g_nodes h) \<subseteq> set (g_nodes k)"
      using devs unfolding no_channel_cong [OF vD(3)] device_links_cong [OF vD(3)] vD(2) scan_result_def node_links_def by auto
    have "scans {i} w (node_links (traits_table w) (net w) i) u" using scans_trans [OF v(1) u(2)] by simp
    then show ?thesis using False u v settled_later [OF v(4) u(2) _ u(4)] by auto
  qed (use devs in \<open>auto simp: no_channel_cong [OF vD(3)]\<close>)
qed

lemma scans_log: "scan_ok w \<Longrightarrow> log_note n w = (Inr (), v) \<Longrightarrow> scans {} w [] v"
proof -
  assume ok: "scan_ok w" and "log_note n w = (Inr (), v)"
  then have v: "v = w\<lparr>scan_log := scan_log w @ [n]\<rparr>" by (simp add: log_note_def)
  have "end_at v = end_at w" "end_links v = end_links w"
    by (auto simp: v end_at_def end_links_def fun_eq_iff split: end_point.split)
  then show ?thesis using ok
    by (simp add: v scans_def scan_ok_def scene_ok_def link_ok_def link_ends_def)
qed

lemma node_links_cong: "wired T = wired T' \<Longrightarrow> node_links T = node_links T'"
  unfolding node_links_def fun_eq_iff by (simp add: device_links_cong [of T T'] fun_eq_iff)

text \<open>All devices of a node that stand for a link have a channel.\<close>

definition cabled :: "(string, traits) dict \<Rightarrow> network \<Rightarrow> nat \<Rightarrow> bool" where
  "cabled tab N i \<longleftrightarrow> (\<forall>d \<in> set (devices (net_nodes N ! i)). \<not> no_channel tab d)"

lemma cabled_cong: "wired T = wired T' \<Longrightarrow> cabled T = cabled T'"
  unfolding cabled_def fun_eq_iff by (simp add: no_channel_cong [of T T'] fun_eq_iff)

lemma scan_nodes_step:
  assumes "scan_ok w" "graph_ok w g" "network_ok (net w)" "i < length (net_nodes (net w))"
    and s: "s = (if seen + 1 = 100 then 0 else seen + 1)"
  shows "if cabled (traits_table w) (net w) i
    then \<exists>h v. scan_nodes color_parse n seen (i # is) g w = scan_nodes color_parse n s is h v
      \<and> scans {i} w (node_links (traits_table w) (net w) i) v
      \<and> graph_ok v h \<and> set (g_nodes g) \<subseteq> set (g_nodes h) \<and> settled v h i
    else fst (scan_nodes color_parse n seen (i # is) g w) = Inl AttributeError"
proof -
  obtain u where u: "do_if (seen + 1 = 100) (log_note (Visited i (of_nat (100 * i) / of_nat n))) w = (Inr (), u)"
    "scans {} w [] u"
    using scans_log [OF assms(1)] scans_refl [OF assms(1)]
    by (cases "seen + 1 = 100") (auto simp: log_note_def)
  note D = scansD [OF u(2)]
  have run: "scan_nodes color_parse n seen (i # is) g w = sbind (scan_node color_parse i g) (scan_nodes color_parse n s is) u"
    using u(1) s by (simp add: sbind_ret [of "do_if _ _"])
  have node: "if cabled (traits_table w) (net w) i
    then \<exists>h v. scan_node color_parse i g u = (Inr h, v) \<and> scans {i} u (node_links (traits_table w) (net w) i) v
      \<and> graph_ok v h \<and> set (g_nodes g) \<subseteq> set (g_nodes h) \<and> settled v h i
    else fst (scan_node color_parse i g u) = Inl AttributeError"
    using scan_node_ok [OF D(1) graph_ok_scans [OF assms(2) u(2)], of i color_parse] assms(3,4)
    by (auto simp: cabled_def D(2) no_channel_cong [OF D(3)] node_links_cong [OF D(3)] split: if_splits)
  show ?thesis
  proof (cases "cabled (traits_table w) (net w) i")
    case True
    then obtain h v where v: "scan_node color_parse i g u = (Inr h, v)"
      "scans {i} u (node_links (traits_table w) (net w) i) v" "graph_ok v h" "set (g_nodes g) \<subseteq> set (g_nodes h)" "settled v h i"
      using node by auto
    have "scans {i} w (node_links (traits_table w) (net w) i) v" using scans_trans [OF u(2) v(2)] by simp
    then show ?thesis using True v unfolding run by (auto simp: sbind_ret [of "scan_node color_parse i g", OF v(1)])
  next
    case False
    with node show ?thesis unfolding run by (cases "scan_node color_parse i g u") (simp add: sbind_def)
  qed
qed

lemma scan_nodes_ok:
  assumes "scan_ok w" "graph_ok w g" "network_ok (net w)" "\<forall>i \<in> set is. i < length (net_nodes (net w))" "distinct is"
  shows "if \<forall>i \<in> set is. cabled (traits_table w) (net w) i
    then \<exists>h v. scan_nodes color_parse n seen is g w = (Inr h, v)
      \<and> scans (set is) w (concat (map (node_links (traits_table w) (net w)) is)) v
      \<and> graph_ok v h \<and> set (g_nodes g) \<subseteq> set (g_nodes h) \<and> (\<forall>i \<in> set is. settled v h i)
    else fst (scan_nodes color_parse n seen is g w) = Inl AttributeError"
  using assms
proof (induction "is" arbitrary: w g seen)
  case Nil
  then show ?case by (simp add: scans_refl)
next
  case (Cons i "is")
  define s where "s = (if seen + 1 = 100 then 0 else seen + 1)"
  have i: "i < length (net_nodes (net w))" using Cons.prems by simp
  note step = scan_nodes_step [OF Cons.prems(1-3) i s_def, of color_parse n "is"]
  show ?case
  proof (cases "cabled (traits_table w) (net w) i")
    case True
    then obtain h v where v: "scan_nodes color_parse n seen (i # is) g w = scan_nodes color_parse n s is h v"
      "scans {i} w (node_links (traits_table w) (net w) i) v" "graph_ok v h" "set (g_nodes g) \<subseteq> set (g_nodes h)" "settled v h i"
      using step by (auto simp del: scan_nodes.simps)
    note D = scansD [OF v(2)]
    have IH: "if \<forall>i \<in> set is. cabled (traits_table w) (net w) i
      then \<exists>k u. scan_nodes color_parse n s is h v = (Inr k, u)
        \<and> scans (set is) v (concat (map (node_links (traits_table w) (net w)) is)) u
        \<and> graph_ok u k \<and> set (g_nodes h) \<subseteq> set (g_nodes k) \<and> (\<forall>i \<in> set is. settled u k i)
      else fst (scan_nodes color_parse n s is h v) = Inl AttributeError"
      using Cons.IH [OF D(1) v(3), of s] Cons.prems unfolding D(2) cabled_cong [OF D(3)] node_links_cong [OF D(3)] by simp
    show ?thesis
    proof (cases "\<forall>i \<in> set is. cabled (traits_table w) (net w) i")
      case all: True
      then obtain k u where u: "scan_nodes color_parse n s is h v = (Inr k, u)"
        "scans (set is) v (concat (map (node_links (traits_table w) (net w)) is)) u"
        "graph_ok u k" "set (g_nodes h) \<subseteq> set (g_nodes k)" "\<forall>i \<in> set is. settled u k i"
        using IH by auto
      have "settled u k i" using settled_later [OF v(5) u(2) _ u(4)] Cons.prems(5) by simp
      then show ?thesis using True all u v(4) scans_trans [OF v(2) u(2)] unfolding v(1) by auto
    qed (use IH v(1) in auto)
  qed (use step in auto)
qed

subsection \<open>The layout\<close>

definition name_of :: "end_point \<Rightarrow> string" where
  "name_of e = (case e of Node_End i \<Rightarrow> node_name i | Channel_End c \<Rightarrow> channel_name c)"

lemma show_nat_eq: "show_nat i = show_nat j \<longleftrightarrow> i = j"
  by (metis read_show_nat)

lemma name_of_inj: "name_of a = name_of b \<longleftrightarrow> a = b"
  unfolding name_of_def by (cases a; cases b) (simp_all add: node_name_def channel_name_def show_nat_eq)

lemma graph_name_end:
  "graph_name w a \<Longrightarrow> \<exists>e. a = name_of e \<and> end_at w e \<noteq> None \<and> (\<forall>i. e = Node_End i \<longrightarrow> mobility (net_nodes (net w) ! i) = None)"
  unfolding graph_name_def name_of_def by (elim disjE exE conjE) force+

lemma name_parts:
  "split_on (CHR '' '') (name_of e) = (case e of Node_End i \<Rightarrow> [''Node'', show_nat i] | Channel_End c \<Rightarrow> [''Channel'', show_nat c])"
proof -
  have "CHR '' '' \<notin> set (show_nat n)" for n
  proof
    assume "CHR '' '' \<in> set (show_nat n)"
    moreover have "\<forall>c \<in> set (show_nat n). is_digit c" using show_nat_digits [of n] unfolding list_all_iff by (rule conjunct1)
    ultimately have "is_digit (CHR '' '')" by blast
    then show False by (simp add: is_digit_def)
  qed
  then have "split_on (CHR '' '') (k @ CHR '' '' # show_nat n) = [k, show_nat n]" if "CHR '' '' \<notin> set k" for k n
    using that by (simp add: split_on_app split_on_nosep)
  from this [of "''Node''"] this [of "''Channel''"] show ?thesis
    by (cases e) (simp_all add: name_of_def node_name_def channel_name_def)
qed

lemma py_nat_show [simp]: "py_nat (show_nat n) = Inr n"
  using show_nat_digits [of n] by (simp add: py_nat_def)

lemma graph_object_run:
  assumes "end_at w e \<noteq> None"
  shows "(case e of Node_End i \<Rightarrow> graph_object prev ''Node'' (show_nat i) | Channel_End c \<Rightarrow> graph_object prev ''Channel'' (show_nat c)) w = (Inr e, w)"
  using assms by (cases e) (auto simp: graph_object_def end_at_def sbind_the_node sbind_ret [OF the_channel_run])

lemma place_ok:
  assumes w: "scan_ok w" and e: "end_at w e \<noteq> None"
  obtains v where "place e p w = (Inr (), v)" "scan_ok v" "net v = net w" "link_ends v = link_ends w" "end_at v = (end_at w)(e \<mapsto> p)"
proof (cases e)
  case (Node_End i)
  with e obtain n where n: "map_of (nodes w) i = Some n" by (auto simp: end_at_def)
  have "scene_ok w" using w by (simp add: scan_ok_def)
  then obtain v where v: "set_position i p w = (Inr (), v)" "scene_ok v" "redraws w v"
    "map_of (nodes v) = (map_of (nodes w))(i \<mapsto> moved p n)"
    using set_position_ok [OF _ n] by blast
  note sv = scans_change(1) [OF w n _ v(2-4)]
  show thesis using Node_End v scansD(1) [OF sv] redraws_fields [OF v(3)]
      end_at_moved [OF n redraws_fields(2) [OF v(3)] v(4)]
    by (intro that [of v]) (auto simp: place_def fun_eq_iff)
next
  case (Channel_End c)
  with e w obtain v where v: "set_channel_position c p w = (Inr (), v)" "scene_ok v" "nodes v = nodes w" "net v = net w"
    "link_ends v = link_ends w" "\<And>e. end_at v e = (if e = Channel_End c then Some p else end_at w e)"
    using set_channel_position_ok [of w c p] unfolding scan_ok_def by blast
  show thesis using Channel_End v w by (intro that [of v]) (auto simp: place_def scan_ok_def fun_eq_iff)
qed

lemma place_all_ok:
  assumes "scan_ok w" "\<forall>(a, pos) \<in> set ps. graph_name w a \<and> (\<exists>q. parse_pos float pos = Inr q)"
  shows "\<exists>v. place_all float prev ps w = (Inr (), v) \<and> scan_ok v \<and> net v = net w \<and> link_ends v = link_ends w
    \<and> (\<forall>e. if name_of e \<in> fst ` set ps then \<exists>pos q. (name_of e, pos) \<in> set ps \<and> parse_pos float pos = Inr q \<and> end_at v e = Some q
         else end_at v e = end_at w e)"
  using assms
proof (induction ps arbitrary: w prev)
  case Nil
  then show ?case by simp
next
  case (Cons ap ps)
  obtain a pos where ap: "ap = (a, pos)" by (cases ap)
  from Cons.prems ap obtain q e where q: "parse_pos float pos = Inr q" and e: "a = name_of e" "end_at w e \<noteq> None"
    using graph_name_end [of w a] by auto
  obtain v where v: "place e q w = (Inr (), v)" "scan_ok v" "net v = net w" "link_ends v = link_ends w" "end_at v = (end_at w)(e \<mapsto> q)"
    using place_ok [OF Cons.prems(1) e(2)] by blast
  have "graph_name v b" if "graph_name w b" for b
    using that unfolding graph_name_def v(3,5) by auto
  then have "\<forall>(a, pos) \<in> set ps. graph_name v a \<and> (\<exists>q. parse_pos float pos = Inr q)" using Cons.prems(2) by auto
  from Cons.IH [OF v(2) this, of "Some e"] obtain u where
    u: "place_all float (Some e) ps v = (Inr (), u)" "scan_ok u" "net u = net v" "link_ends u = link_ends v"
    "\<forall>e. if name_of e \<in> fst ` set ps then \<exists>pos q. (name_of e, pos) \<in> set ps \<and> parse_pos float pos = Inr q \<and> end_at u e = Some q
         else end_at u e = end_at v e" by blast
  have "seq (place e q) (place_all float (Some e) ps) w = (Inr (), u)"
    by (simp add: sbind_ret [of "place e q", OF v(1)] u(1))
  then have "place_all float prev (ap # ps) w = (Inr (), u)"
    using graph_object_run [OF e(2), of prev] q by (cases e) (simp_all add: ap e(1) name_parts two_def sbind_ret)
  moreover have "if name_of f \<in> fst ` set (ap # ps)
      then \<exists>p r. (name_of f, p) \<in> set (ap # ps) \<and> parse_pos float p = Inr r \<and> end_at u f = Some r
      else end_at u f = end_at w f" for f
  proof (cases "name_of f \<in> fst ` set ps")
    case True
    with u(5) [THEN spec, of f] show ?thesis by auto
  next
    case False
    then have "end_at u f = ((end_at w)(e \<mapsto> q)) f" using u(5) [THEN spec, of f] v(5) by simp
    then show ?thesis using q False by (auto simp: ap e(1) name_of_inj)
  qed
  ultimately show ?case using u(2-4) v(3,4) by metis
qed

section \<open>The whole scan\<close>

text \<open>Graphviz gives every node of the graph a position that reads as two numbers.\<close>

definition lays_out :: "(graph \<Rightarrow> (string \<times> string) list) \<Rightarrow> (string \<Rightarrow> py_error + rat) \<Rightarrow> bool" where
  "lays_out layout float \<longleftrightarrow> (\<forall>g. map fst (layout g) = g_nodes g
     \<and> (\<forall>(a, pos) \<in> set (layout g). \<exists>q. parse_pos float pos = Inr q))"

definition empty_scene :: "'z scene_scheme \<Rightarrow> bool" where
  "empty_scene w \<longleftrightarrow> nodes w = [] \<and> channels w = [] \<and> links w = []"

lemma empty_scan_ok: "empty_scene w \<Longrightarrow> scan_ok w"
  by (auto simp: empty_scene_def scan_ok_def scene_ok_def known_def end_links_def split: end_point.split)

text \<open>The graph that the scan of the nodes has made when graphviz is called.\<close>

definition scanned_graph :: "(string \<Rightarrow> int \<times> int \<times> int) \<Rightarrow> 'z scan_world_scheme \<Rightarrow> py_error + graph" where
  "scanned_graph color_parse w = (let n = length (net_nodes (net w)) in
     fst (scan_nodes color_parse n 0 [0..<n] AGraph (snd (log_note (Scanning n) w))))"

lemma scan_topology_run:
  fixes w :: "'z scan_world_scheme"
  assumes w: "empty_scene w" and net: "network_ok (net w)"
  shows "if \<forall>i < length (net_nodes (net w)). cabled (traits_table w) (net w) i
    then \<exists>h v. scanned_graph color_parse w = Inr h \<and> scan_topology color_parse layout float w =
          seq (place_all float None (layout h)) (seq (log_note All_Done) (emit_signal ''topology-scanned'')) v
      \<and> scan_ok v \<and> net v = net w \<and> link_ends v = expected_links (traits_table w) (net w) \<and> graph_ok v h
      \<and> (\<forall>i < length (net_nodes (net w)). settled v h i)
    else fst (scan_topology color_parse layout float w) = Inl AttributeError"
proof -
  let ?n = "length (net_nodes (net w))"
  obtain u where u: "log_note (Scanning ?n) w = (Inr (), u)" "scans {} w [] u"
    using scans_log [OF empty_scan_ok [OF w]] by (auto simp: log_note_def)
  note D = scansD [OF u(2)]
  have links: "link_ends w = []" using w by (simp add: empty_scene_def link_ends_def)
  have empty: "graph_ok u AGraph" by (simp add: graph_ok_def AGraph_def)
  have run: "scan_topology color_parse layout float w = sbind (scan_nodes color_parse ?n 0 [0..<?n] AGraph) (\<lambda>graph.
     seq (log_note Calling_Layout)
    (seq (place_all float None (layout graph))
    (seq (log_note All_Done) (emit_signal ''topology-scanned'')))) u"
    by (simp add: scan_topology_def sbind_ret [of "log_note _", OF u(1)])
  have scan: "if \<forall>i \<in> set [0..<?n]. cabled (traits_table u) (net u) i
    then \<exists>h v. scan_nodes color_parse ?n 0 [0..<?n] AGraph u = (Inr h, v)
      \<and> scans (set [0..<?n]) u (concat (map (node_links (traits_table u) (net u)) [0..<?n])) v
      \<and> graph_ok v h \<and> set (g_nodes AGraph) \<subseteq> set (g_nodes h) \<and> (\<forall>i \<in> set [0..<?n]. settled v h i)
    else fst (scan_nodes color_parse ?n 0 [0..<?n] AGraph u) = Inl AttributeError"
    using D(2) net by (intro scan_nodes_ok [OF D(1) empty]) simp_all
  show ?thesis
  proof (cases "\<forall>i < ?n. cabled (traits_table w) (net w) i")
    case True
    then obtain h v where v: "scan_nodes color_parse ?n 0 [0..<?n] AGraph u = (Inr h, v)"
      "scans (set [0..<?n]) u (expected_links (traits_table w) (net w)) v" "graph_ok v h" "\<forall>i < ?n. settled v h i"
      using scan by (auto simp: expected_links_def D(2) cabled_cong [OF D(3)] node_links_cong [OF D(3)])
    obtain x where x: "log_note Calling_Layout v = (Inr (), x)" "scans {} v [] x"
      using scans_log [OF scansD(1) [OF v(2)]] by (auto simp: log_note_def)
    have wx: "scans (set [0..<?n]) w (expected_links (traits_table w) (net w)) x"
      using scans_trans [OF u(2) scans_trans [OF v(2) x(2)]] by simp
    have h: "scanned_graph color_parse w = Inr h" using u(1) v(1) by (simp add: scanned_graph_def Let_def)
    have "\<forall>i < ?n. settled x h i" using v(4) settled_later [OF _ x(2)] by auto
    then show ?thesis using True h v(1) x(1) wx graph_ok_scans [OF v(3) x(2)] links unfolding run
      by (auto simp: sbind_ret [of "scan_nodes _ _ _ _ _"] sbind_ret [of "log_note _"] scans_def)
  next
    case False
    then have "fst (scan_nodes color_parse ?n 0 [0..<?n] AGraph u) = Inl AttributeError"
      using scan by (auto simp: D(2) cabled_cong [OF D(3)] split: if_splits)
    then show ?thesis using False unfolding run
      by (cases "scan_nodes color_parse ?n 0 [0..<?n] AGraph u") (auto simp: sbind_def)
  qed
qed

text \<open>A node of the simulation is drawn at its place, or where the layout of the graph has put it.\<close>

definition in_place ::
  "(graph \<Rightarrow> (string \<times> string) list) \<Rightarrow> (string \<Rightarrow> py_error + rat) \<Rightarrow> graph \<Rightarrow> 'z scene_scheme \<Rightarrow> nat \<Rightarrow> bool" where
  "in_place layout float g w i \<longleftrightarrow> (case mobility (net_nodes (net w) ! i) of
       Some p \<Rightarrow> end_at w (Node_End i) = Some (transform_point_simulation_to_canvas p)
     | None \<Rightarrow> (\<exists>pos q. (node_name i, pos) \<in> set (layout g) \<and> parse_pos float pos = Inr q \<and> end_at w (Node_End i) = Some q))"

lemma graph_name_node:
  assumes "graph_name w (node_name i)"
  shows "mobility (net_nodes (net w) ! i) = None"
proof -
  obtain e where "name_of (Node_End i) = name_of e" "\<forall>j. e = Node_End j \<longrightarrow> mobility (net_nodes (net w) ! j) = None"
    using graph_name_end [OF assms] by (auto simp: name_of_def)
  then show ?thesis by (simp add: name_of_inj)
qed

lemma layout_run:
  assumes v: "scan_ok v" "graph_ok v h" and lay: "lays_out layout float"
    and nodes: "\<forall>i < length (net_nodes (net v)). settled v h i"
  obtains u where "place_all float None (layout h) v = (Inr (), u)" "scan_ok u" "net u = net v" "link_ends u = link_ends v"
    "\<forall>i < length (net_nodes (net v)). in_place layout float h u i"
proof -
  have names: "fst ` set (layout h) = set (g_nodes h)" using lay unfolding lays_out_def by (metis set_map)
  have "graph_name v a \<and> (\<exists>q. parse_pos float pos = Inr q)" if "(a, pos) \<in> set (layout h)" for a pos
    using that v(2) names lay unfolding lays_out_def graph_ok_def by force
  then obtain u where u: "place_all float None (layout h) v = (Inr (), u)" "scan_ok u" "net u = net v" "link_ends u = link_ends v"
    and at: "\<And>e. if name_of e \<in> set (g_nodes h) then \<exists>pos q. (name_of e, pos) \<in> set (layout h) \<and> parse_pos float pos = Inr q \<and> end_at u e = Some q
         else end_at u e = end_at v e"
    using place_all_ok [OF v(1), of "layout h" float None] unfolding names by blast
  have "in_place layout float h u i" if i: "i < length (net_nodes (net v))" for i
  proof (cases "mobility (net_nodes (net v) ! i)")
    case None
    with nodes i have "node_name i \<in> set (g_nodes h)" by (auto simp: settled_def)
    with at [of "Node_End i"] None show ?thesis unfolding in_place_def u(3) by (auto simp: name_of_def)
  next
    case (Some p)
    then have "node_name i \<notin> set (g_nodes h)" using v(2) graph_name_node [of v i] by (auto simp: graph_ok_def)
    with at [of "Node_End i"] Some nodes i show ?thesis unfolding in_place_def u(3) by (auto simp: name_of_def settled_def)
  qed
  with u show thesis by (intro that) blast+
qed

text \<open>Claim C8. \<open>scan_topology\<close>, from an empty scene: when every wired device has a channel and graphviz
gives each node of the graph a position, the scan returns. It has made exactly the expected links in
their order (for a channel of more than two devices one link from each device to the channel, otherwise
one to each other node on it); each node of the simulation has an object, at its place on the canvas, or
at the place that the layout of the scanned graph gives it when it has none; and all links are registered at their two ends and join them
where they are drawn. The observers are told last.\<close>

theorem scan_topology_complete:
  assumes "empty_scene w" and "network_ok (net w)" and "lays_out layout float"
    and "\<forall>i < length (net_nodes (net w)). cabled (traits_table w) (net w) i"
  shows "\<exists>h v. scanned_graph color_parse w = Inr h
    \<and> scan_topology color_parse layout float w = (Inr (), v) \<and> scene_ok v
    \<and> link_ends v = expected_links (traits_table w) (net w)
    \<and> (\<forall>i < length (net_nodes (net w)). in_place layout float h v i)
    \<and> last (signals v) = ''topology-scanned''"
proof -
  obtain h v where h: "scanned_graph color_parse w = Inr h" and run: "scan_topology color_parse layout float w =
      seq (place_all float None (layout h)) (seq (log_note All_Done) (emit_signal ''topology-scanned'')) v"
    and v: "scan_ok v" "net v = net w" "link_ends v = expected_links (traits_table w) (net w)" "graph_ok v h"
      "\<forall>i < length (net_nodes (net v)). settled v h i"
    using scan_topology_run [OF assms(1,2), of color_parse layout float] assms(4) by auto
  obtain u where u: "place_all float None (layout h) v = (Inr (), u)" "scan_ok u" "net u = net v" "link_ends u = link_ends v"
    "\<forall>i < length (net_nodes (net v)). in_place layout float h u i"
    using layout_run [OF v(1,4) assms(3) v(5)] by blast
  let ?x = "u\<lparr>scan_log := scan_log u @ [All_Done], signals := signals u @ [''topology-scanned'']\<rparr>"
  have ends: "end_at ?x = end_at u" "end_links ?x = end_links u"
    by (auto simp: end_at_def end_links_def fun_eq_iff split: end_point.split)
  have "scan_topology color_parse layout float w = (Inr (), ?x)"
    by (simp add: run sbind_ret [of "place_all float None (layout h)", OF u(1)] log_note_def emit_signal_def)
  moreover have "scene_ok ?x" using u(2) ends by (simp add: scan_ok_def scene_ok_def link_ok_def)
  moreover have "link_ends ?x = expected_links (traits_table w) (net w)" using u(4) v(3) by (simp add: link_ends_def)
  moreover have "in_place layout float h ?x = in_place layout float h u"
    unfolding in_place_def ends fun_eq_iff by simp
  then have "\<forall>i < length (net_nodes (net w)). in_place layout float h ?x i" using u(5) v(2) by simp
  moreover have "last (signals ?x) = ''topology-scanned''" by simp
  ultimately show ?thesis using h by blast
qed

text \<open>Two nodes on a point-to-point channel and a third on a shared medium with them: a link between the
two is made from each of its ends.\<close>

definition sample_network :: network where
  "sample_network = \<lparr>
     net_nodes = [
       \<lparr> mobility = Some (1, 2), devices = [\<lparr> dev_type = ''CsmaNetDevice'', dev_channel = Some 0 \<rparr>] \<rparr>,
       \<lparr> mobility = None, devices = [\<lparr> dev_type = ''CsmaNetDevice'', dev_channel = Some 0 \<rparr>,
           \<lparr> dev_type = ''PointToPointNetDevice'', dev_channel = Some 1 \<rparr>] \<rparr>,
       \<lparr> mobility = None, devices = [\<lparr> dev_type = ''CsmaNetDevice'', dev_channel = Some 0 \<rparr>,
           \<lparr> dev_type = ''PointToPointNetDevice'', dev_channel = Some 1 \<rparr>] \<rparr>],
     channel_owners = (\<lambda>c. if c = 0 then [0, 1, 2] else [1, 2]) \<rparr>"

definition scan_start :: "network \<Rightarrow> scan_world" where
  "scan_start N = \<lparr> traits_table = netdevice_traits, warned_types = [], plugins = [], plugin_modules = [],
     plugins_loaded = False, sys_path = [], plugin_errors = [], net = N, nodes = [], channels = [], links = [],
     canvas_bounds = None, scan_log = [], signals = [] \<rparr>"

lemma scan_start_simps [simp]:
  "empty_scene (scan_start N)" "net (scan_start N) = N" "traits_table (scan_start N) = netdevice_traits"
  by (simp_all add: scan_start_def empty_scene_def)

lemma sample_network_facts:
  "network_ok sample_network" "\<forall>i < length (net_nodes sample_network). cabled netdevice_traits sample_network i"
  "expected_links netdevice_traits sample_network =
     [(0, Channel_End 0), (1, Channel_End 0), (1, Node_End 2), (2, Channel_End 0), (2, Node_End 1)]"
proof -
  show "network_ok sample_network" by (auto simp: network_ok_def sample_network_def)
  have "i < 3 \<Longrightarrow> cabled netdevice_traits sample_network i" for i
    by (auto simp: cabled_def no_channel_def sample_network_def less_Suc_eq numeral_3_eq_3 nth_Cons')
  then show "\<forall>i < length (net_nodes sample_network). cabled netdevice_traits sample_network i"
    by (simp add: sample_network_def)
  show "expected_links netdevice_traits sample_network =
     [(0, Channel_End 0), (1, Channel_End 0), (1, Node_End 2), (2, Channel_End 0), (2, Node_End 1)]"
    by code_simp
qed

lemma sample_layout: "lays_out (\<lambda>g. map (\<lambda>a. (a, ''1,2'')) (g_nodes g)) (\<lambda>_. Inr 1)"
  by (auto simp: lays_out_def parse_pos_def two_def comp_def)

theorem scan_topology_complete_witness:
  "\<exists>v. scan_topology (\<lambda>_. (0, 0, 0)) (\<lambda>g. map (\<lambda>a. (a, ''1,2'')) (g_nodes g)) (\<lambda>_. Inr 1) (scan_start sample_network)
     = (Inr (), v)
   \<and> link_ends v = [(0, Channel_End 0), (1, Channel_End 0), (1, Node_End 2), (2, Channel_End 0), (2, Node_End 1)]"
  using scan_topology_complete [of "scan_start sample_network", OF _ _ sample_layout, of "\<lambda>_. (0, 0, 0)"] sample_network_facts
  by (simp only: scan_start_simps) blast

text \<open>A wired device without a channel ends the scan with an \<open>AttributeError\<close>, whatever the layout
would be.\<close>

theorem scan_without_channel:
  assumes "empty_scene w" and "network_ok (net w)"
    and "i < length (net_nodes (net w))" and "d \<in> set (devices (net_nodes (net w) ! i))"
    and "wired (traits_table w) (dev_type d)" and "dev_channel d = None"
  shows "fst (scan_topology color_parse layout float w) = Inl AttributeError"
proof -
  have "\<not> cabled (traits_table w) (net w) i" using assms(4-6) by (auto simp: cabled_def no_channel_def)
  with assms(3) show ?thesis
    using scan_topology_run [OF assms(1,2), of color_parse layout float] by (auto split: if_splits)
qed

theorem scan_without_channel_witness:
  "fst (scan_topology (\<lambda>_. (0, 0, 0)) (\<lambda>_. []) (\<lambda>_. Inl ValueError) (scan_start
     \<lparr> net_nodes = [\<lparr> mobility = None, devices = [\<lparr> dev_type = ''CsmaNetDevice'', dev_channel = None \<rparr>] \<rparr>],
       channel_owners = (\<lambda>_. []) \<rparr>)) = Inl AttributeError"
  by (rule scan_without_channel [of _ 0 "\<lparr> dev_type = ''CsmaNetDevice'', dev_channel = None \<rparr>"])
     (simp_all add: network_ok_def wired_def netdevice_traits_def)

end
