(* ===== verification/Viz_Arrows.thy ===== *)
theory Viz_Arrows
  imports Viz_Scan
begin

text \<open>
  The arrows of \<^verbatim>\<open>src/visualizer/visualizer/core.py\<close>: the window of samples that the simulator
  gives for each period, their averages, and the pools of arrows with labels in which
  \<open>_update_transmissions_view\<close> and \<open>_update_drops_view\<close> show them. Conversions between pixels and
  the canvas and the clipping of a line belong to the tool kit. A width and an angle are real
  numbers (logarithm, arc tangent), a label has the number it shows. \<open>old_arrows.pop()\<close> takes from
  the list that the object still refers to, so that an exception leaves the rest of it there.
\<close>

section \<open>The world\<close>

record toolkit =
  clamp_h :: "rat \<Rightarrow> rat"
  clamp_v :: "rat \<Rightarrow> rat"
  clamp_zoom :: "rat \<Rightarrow> rat"
  from_pixels :: "rat \<Rightarrow> point \<Rightarrow> point"
  to_pixels :: "rat \<Rightarrow> point \<Rightarrow> point"
  line_clipping :: "point \<times> point \<Rightarrow> point \<times> point \<Rightarrow> point \<times> point"
  transform_raises :: bool

record transmission =
  transmitter :: nat
  receiver :: nat
  tx_bytes :: nat

record drop_sample =
  drop_node :: nat
  drop_bytes :: nat

record arrow =
  arrow_id :: nat
  arrow_shown :: bool
  arrow_width :: real
  arrow_points :: "(point \<times> point) option"
  label_shown :: bool
  label_font :: int
  label_kbps :: rat
  label_right :: bool
  label_pos :: "real \<times> real"
  label_transform :: "(point \<times> real) option"

record arrow_world = scan_world +
  h_value :: rat
  h_page :: rat
  v_value :: rat
  v_page :: rat
  zoom :: rat
  sample_period :: rat
  node_size_value :: rat
  smoothing :: rat
  last_transmissions :: "transmission list list"
  last_drops :: "drop_sample list list"
  transmission_arrows :: "arrow list"
  drop_arrows :: "arrow list"
  next_arrow :: nat

type_synonym ('z, 'a) arrows = "('z arrow_world_scheme, 'a) proc"

section \<open>The window of samples\<close>

definition int_of_rat :: "rat \<Rightarrow> int" where
  "int_of_rat x = (if 0 \<le> x then \<lfloor>x\<rfloor> else \<lceil>x\<rceil>)"

text \<open>\<open>while len(xs) > k: xs.pop(0)\<close>, and the list that it leaves\<close>

fun trim_window :: "int \<Rightarrow> 'a list \<Rightarrow> (py_error + unit) \<times> 'a list" where
  "trim_window k [] = (if k < 0 then Inl IndexError else Inr (), [])"
| "trim_window k (x # xs) = (if k < int (length (x # xs)) then trim_window k xs else (Inr (), x # xs))"

definition do_simulation_periodic_update :: "transmission list \<Rightarrow> drop_sample list \<Rightarrow> ('z, unit) arrows" where
  "do_simulation_periodic_update transmissions drops = sbind (gets (\<lambda>w. int_of_rat (smoothing w * 10))) (\<lambda>smooth_factor.
     sbind (gets (\<lambda>w. trim_window smooth_factor (last_transmissions w @ [transmissions]))) (\<lambda>(r, ts).
     seq (modify (\<lambda>w. w\<lparr>last_transmissions := ts\<rparr>)) (seq (lift r)
    (sbind (gets (\<lambda>w. trim_window smooth_factor (last_drops w @ [drops]))) (\<lambda>(r, ds).
     seq (modify (\<lambda>w. w\<lparr>last_drops := ds\<rparr>)) (lift r))))))"

section \<open>Averages\<close>

text \<open>Bytes and number of samples for each key, in the order in which the keys appear.\<close>

definition add_sample :: "'k \<Rightarrow> nat \<Rightarrow> ('k, nat \<times> nat) dict \<Rightarrow> ('k, nat \<times> nat) dict" where
  "add_sample k n d = (case dget_or (0, 0) k d of (b, c) \<Rightarrow> AList.update k (b + n, c + 1) d)"

definition transmissions_average :: "transmission list list \<Rightarrow> (nat \<times> nat, nat \<times> nat) dict" where
  "transmissions_average sets = fold (\<lambda>t. add_sample (transmitter t, receiver t) (tx_bytes t)) (concat sets) []"

definition drops_average :: "drop_sample list list \<Rightarrow> (nat, nat \<times> nat) dict" where
  "drops_average sets = fold (\<lambda>s. add_sample (drop_node s) (drop_bytes s)) (concat sets) []"

section \<open>Arrows\<close>

definition hide_arrow :: "arrow \<Rightarrow> arrow" where
  "hide_arrow a = a\<lparr>arrow_shown := False, label_shown := False\<rparr>"

definition new_arrow :: "nat \<Rightarrow> arrow" where
  "new_arrow i = \<lparr> arrow_id = i, arrow_shown = True, arrow_width = 2, arrow_points = None, label_shown = True,
     label_font = 0, label_kbps = 0, label_right = True, label_pos = (0, 0), label_transform = None \<rparr>"

text \<open>The last arrow of a pool, or a new one; it is made visible.\<close>

definition take_transmission_arrow :: "('z, arrow) arrows" where
  "take_transmission_arrow = sbind (gets transmission_arrows) (\<lambda>old. if old = []
     then sbind (gets next_arrow) (\<lambda>i. seq (modify (\<lambda>w. w\<lparr>next_arrow := i + 1\<rparr>)) (ret (new_arrow i)))
     else seq (modify (\<lambda>w. w\<lparr>transmission_arrows := butlast old\<rparr>)) (ret ((last old)\<lparr>arrow_shown := True\<rparr>)))"

definition take_drop_arrow :: "('z, arrow) arrows" where
  "take_drop_arrow = sbind (gets drop_arrows) (\<lambda>old. if old = []
     then sbind (gets next_arrow) (\<lambda>i. seq (modify (\<lambda>w. w\<lparr>next_arrow := i + 1\<rparr>)) (ret (new_arrow i)))
     else seq (modify (\<lambda>w. w\<lparr>drop_arrows := butlast old\<rparr>)) (ret ((last old)\<lparr>arrow_shown := True\<rparr>)))"

text \<open>\<open>math.log(float(bytes)/num/self.sample_period)*k\<close>, at least 0.1; no logarithm of zero.\<close>

definition line_width_of :: "rat \<Rightarrow> rat \<Rightarrow> nat \<Rightarrow> nat \<Rightarrow> py_error + real" where
  "line_width_of period k bytes num =
     (if num = 0 \<or> period = 0 then Inl ZeroDivisionError
      else let x = of_nat bytes / of_nat num / period in
        if x \<le> 0 then Inl ValueError else Inr (max (1 / 10) (ln (of_rat x) * of_rat k)))"

definition kbps_of :: "rat \<Rightarrow> nat \<Rightarrow> nat \<Rightarrow> rat" where
  "kbps_of period bytes num = of_nat (bytes * 8) / 1000 / of_nat num / period"

definition BITRATE_FONT_SIZE :: rat where "BITRATE_FONT_SIZE = 10"

text \<open>\<open>math.atan2(y, x)\<close> is the argument of \<open>x + iy\<close>.\<close>

definition atan2 :: "rat \<Rightarrow> rat \<Rightarrow> real" where
  "atan2 y x = Arg (Complex (of_rat x) (of_rat y))"

definition label_over_line :: "toolkit \<Rightarrow> point \<Rightarrow> point \<Rightarrow> 'z arrow_world_scheme \<Rightarrow> point" where
  "label_over_line tk p q w =
     (let b1 = from_pixels tk (zoom w) (h_value w, v_value w);
          b2 = from_pixels tk (zoom w) (h_value w + h_page w, v_value w + v_page w);
          c = line_clipping tk (b1, b2) (p, q)
      in ((fst (fst c) + fst (snd c)) / 2, (snd (fst c) + snd (snd c)) / 2))"

text \<open>The label stands above the line, or below it for an arrow to the left; when the transformation raises
(a fault of the binding) it is moved instead.\<close>

definition transmission_label :: "toolkit \<Rightarrow> rat \<Rightarrow> rat \<Rightarrow> real \<Rightarrow> point \<Rightarrow> point \<Rightarrow> point \<Rightarrow> arrow \<Rightarrow> arrow" where
  "transmission_label tk k kbps width p q mid a =
     (let angle = atan2 (snd q - snd p) (fst q - fst p); right = (- pi / 2 \<le> angle \<and> angle \<le> pi / 2);
          y = (if right then - width / 2 else width / 2)
      in a\<lparr>label_shown := True, label_font := int_of_rat (1 + BITRATE_FONT_SIZE * k), label_kbps := kbps, label_right := right,
           label_pos := (if transform_raises tk then (of_rat (fst mid), of_rat (snd mid) + y) else (0, y)),
           label_transform := (if transform_raises tk then label_transform a else Some (mid, angle))\<rparr>)"

definition centre_of :: "nat \<Rightarrow> ('z, point) viz" where
  "centre_of i = sbind (the_node i) (\<lambda>n. ret (center n))"

definition show_transmission :: "toolkit \<Rightarrow> rat \<Rightarrow> (nat \<times> nat) \<times> (nat \<times> nat) \<Rightarrow> ('z, arrow) arrows" where
  "show_transmission tk k e = (case e of ((t, r), (bytes, num)) \<Rightarrow>
     seq (get_node t) (seq (get_node r)
    (sbind take_transmission_arrow (\<lambda>a.
     sbind (gets sample_period) (\<lambda>period.
     sbind (lift (line_width_of period k bytes num)) (\<lambda>width.
     sbind (centre_of t) (\<lambda>p. sbind (centre_of r) (\<lambda>q.
     sbind (gets (label_over_line tk p q)) (\<lambda>mid.
     ret (transmission_label tk k (kbps_of period bytes num) width p q mid
       (a\<lparr>arrow_width := width, arrow_points := Some (p, q)\<rparr>)))))))))))"

definition show_drop :: "rat \<Rightarrow> rat \<Rightarrow> nat \<times> (nat \<times> nat) \<Rightarrow> ('z, arrow) arrows" where
  "show_drop edge_y k e = (case e of (t, (bytes, num)) \<Rightarrow>
     seq (get_node t)
    (sbind take_drop_arrow (\<lambda>a.
     sbind (gets sample_period) (\<lambda>period.
     sbind (lift (line_width_of period k bytes num)) (\<lambda>width.
     sbind (centre_of t) (\<lambda>p.
     ret (a\<lparr>arrow_width := width, arrow_points := Some (p, (fst p, edge_y)), label_shown := True,
       label_font := int_of_rat (1 + BITRATE_FONT_SIZE * k), label_kbps := kbps_of period bytes num,
       label_pos := (of_rat ((fst p + fst p) / 2), of_rat ((snd p + edge_y) / 2))\<rparr>)))))))"

definition update_transmissions_view :: "toolkit \<Rightarrow> ('z, unit) arrows" where
  "update_transmissions_view tk = sbind (gets (\<lambda>w. transmissions_average (last_transmissions w))) (\<lambda>average.
     seq (modify (\<lambda>w. w\<lparr>transmission_arrows := map hide_arrow (transmission_arrows w)\<rparr>))
    (sbind (gets (\<lambda>w. node_size_value w / 5)) (\<lambda>k.
     sbind (smap (show_transmission tk k) average) (\<lambda>new_arrows.
     modify (\<lambda>w. w\<lparr>transmission_arrows := new_arrows @ transmission_arrows w\<rparr>)))))"

definition update_drops_view :: "toolkit \<Rightarrow> ('z, unit) arrows" where
  "update_drops_view tk = sbind (gets (\<lambda>w. drops_average (last_drops w))) (\<lambda>average.
     seq (modify (\<lambda>w. w\<lparr>drop_arrows := map hide_arrow (drop_arrows w)\<rparr>))
    (sbind (gets (\<lambda>w. snd (from_pixels tk (zoom w) (0, v_value w + v_page w)))) (\<lambda>edge_y.
     sbind (gets (\<lambda>w. node_size_value w / 5)) (\<lambda>k.
     sbind (smap (show_drop edge_y k) average) (\<lambda>new_arrows.
     modify (\<lambda>w. w\<lparr>drop_arrows := new_arrows @ drop_arrows w\<rparr>))))))"

section \<open>What is shown\<close>

lemma trim_window_value: "0 \<le> k \<Longrightarrow> trim_window k xs = (Inr (), drop (length xs - nat k) xs)"
proof (induction xs)
  case (Cons x xs)
  show ?case
  proof (cases "k < int (length (x # xs))")
    case True
    then have "Suc (length xs) - nat k = Suc (length xs - nat k)" using Cons.prems by simp
    then show ?thesis using Cons True by simp
  next
    case False
    then have "Suc (length xs) - nat k = 0" using Cons.prems by simp
    then show ?thesis using False by simp
  qed
qed simp

lemma window_length: "length (drop (Suc (length xs) - m) (xs @ [x])) \<le> m"
  by simp

text \<open>The window of samples: after a period the transmissions and drops are those of the last periods, the new
one last, at most as many as the smooth factor says; a factor below one tenth of a second keeps none.\<close>

theorem window_of_samples:
  assumes "0 \<le> smoothing w"
  shows "\<exists>v. do_simulation_periodic_update ts ds w = (Inr (), v)
    \<and> (let k = nat \<lfloor>smoothing w * 10\<rfloor>; all_ts = last_transmissions w @ [ts]; all_ds = last_drops w @ [ds]
       in last_transmissions v = drop (length all_ts - k) all_ts \<and> length (last_transmissions v) \<le> k
        \<and> last_drops v = drop (length all_ds - k) all_ds \<and> length (last_drops v) \<le> k)"
proof -
  have k: "int_of_rat (smoothing w * 10) = \<lfloor>smoothing w * 10\<rfloor>" "0 \<le> \<lfloor>smoothing w * 10\<rfloor>"
    using assms by (simp_all add: int_of_rat_def)
  show ?thesis
    by (simp add: do_simulation_periodic_update_def k(1) trim_window_value [OF k(2)] Let_def window_length
        del: drop_append length_drop)
qed

text \<open>The average of a key: the bytes and the number of its samples, and there is one only for the keys of samples.\<close>

lemma add_sample_lookup: "map_of (add_sample k n d) j =
    (if j = k then Some (fst (dget_or (0, 0) k d) + n, snd (dget_or (0, 0) k d) + 1) else map_of d j)"
  by (simp add: add_sample_def update_conv' split: prod.split)

lemma average_lookup:
  "map_of (fold (\<lambda>x. add_sample (key x) (val x)) xs d) k =
    (let ys = filter (\<lambda>x. key x = k) xs; old = dget_or (0, 0) k d
     in if ys = [] then map_of d k else Some (fst old + sum_list (map val ys), snd old + length ys))"
  by (induction xs arbitrary: d)
     (auto simp: add_sample_lookup dget_or_def Let_def split: option.split)

text \<open>Every pair of a transmitter and a receiver with samples in the window has one average: the sum of their
bytes and their number; no other pair has one.\<close>

theorem transmissions_averaged:
  "map_of (transmissions_average sets) (t, r) =
     (let ys = filter (\<lambda>x. transmitter x = t \<and> receiver x = r) (concat sets)
      in if ys = [] then None else Some (sum_list (map tx_bytes ys), length ys))"
  using average_lookup [of "\<lambda>x. (transmitter x, receiver x)" tx_bytes "concat sets" "[]" "(t, r)"]
  by (simp add: transmissions_average_def dget_or_def Let_def)

section \<open>The pool of arrows\<close>

text \<open>Where a node is, a new one at the origin.\<close>

definition node_place :: "'z scene_scheme \<Rightarrow> nat \<Rightarrow> point" where
  "node_place w i = (case end_at w (Node_End i) of None \<Rightarrow> (0, 0) | Some p \<Rightarrow> p)"

lemma node_place_with_new [simp]: "node_place (with_new e w) = node_place w"
  by (auto simp: node_place_def end_at_with_new fun_eq_iff)

lemma with_new_arrows [simp]:
  fixes w :: "'z arrow_world_scheme"
  shows "transmission_arrows (with_new e w) = transmission_arrows w" "next_arrow (with_new e w) = next_arrow w"
    "sample_period (with_new e w) = sample_period w" "last_transmissions (with_new e w) = last_transmissions w"
    "node_size_value (with_new e w) = node_size_value w"
  by (auto simp: with_new_def split: end_point.split)

lemma centre_of_run: "end_at w (Node_End i) \<noteq> None \<Longrightarrow> centre_of i w = (Inr (node_place w i), w)"
  by (auto simp: centre_of_def end_at_def node_place_def sbind_the_node)

lemma line_width_ok: "0 < period \<Longrightarrow> 0 < b \<Longrightarrow> 0 < n \<Longrightarrow> \<exists>x. line_width_of period k b n = Inr x \<and> 1 / 10 \<le> x"
proof -
  assume "0 < period" "0 < b" "0 < n"
  then have "0 < of_nat b / of_nat n / period" by simp
  with \<open>0 < period\<close> \<open>0 < n\<close> show ?thesis by (simp add: line_width_of_def Let_def not_le)
qed

lemma label_keeps [simp]:
  "arrow_id (transmission_label tk k kb x p q m a) = arrow_id a" "arrow_shown (transmission_label tk k kb x p q m a) = arrow_shown a"
  "arrow_points (transmission_label tk k kb x p q m a) = arrow_points a" "arrow_width (transmission_label tk k kb x p q m a) = arrow_width a"
  by (simp_all add: transmission_label_def Let_def)

text \<open>One pair: the last arrow of the pool, or the next new one, from the transmitter to the receiver.\<close>

lemma show_transmission_run:
  fixes w :: "'z arrow_world_scheme"
  assumes "0 < sample_period w" "0 < b" "0 < n"
  obtains a v where "show_transmission tk k ((t, r), (b, n)) w = (Inr a, v)"
    "arrow_shown a" "arrow_points a = Some (node_place w t, node_place w r)"
    "transmission_arrows v = butlast (transmission_arrows w)"
    "if transmission_arrows w = [] then arrow_id a = next_arrow w \<and> next_arrow v = next_arrow w + 1
      else arrow_id a = arrow_id (last (transmission_arrows w)) \<and> next_arrow v = next_arrow w"
    "node_place v = node_place w" "sample_period v = sample_period w"
proof -
  let ?u = "with_new (Node_End r) (with_new (Node_End t) w)"
  let ?old = "transmission_arrows w"
  define a where "a = (if ?old = [] then new_arrow (next_arrow w) else (last ?old)\<lparr>arrow_shown := True\<rparr>)"
  define v where "v = (if ?old = [] then ?u\<lparr>next_arrow := next_arrow w + 1\<rparr> else ?u\<lparr>transmission_arrows := butlast ?old\<rparr>)"
  have take: "take_transmission_arrow ?u = (Inr a, v)"
    by (simp add: take_transmission_arrow_def a_def v_def)
  have at: "end_at v = end_at ?u" by (auto simp: v_def end_at_def fun_eq_iff split: end_point.split)
  then have places: "centre_of t v = (Inr (node_place w t), v)" "centre_of r v = (Inr (node_place w r), v)"
    using centre_of_run [of v t] centre_of_run [of v r] by (simp_all add: end_at_with_new node_place_def)
  have v: "sample_period v = sample_period w" "transmission_arrows v = butlast ?old"
    "next_arrow v = (if ?old = [] then next_arrow w + 1 else next_arrow w)" "node_place v = node_place w"
    using at by (auto simp: v_def node_place_def end_at_with_new fun_eq_iff)
  obtain x where x: "line_width_of (sample_period w) k b n = Inr x" using line_width_ok [OF assms] by blast
  let ?p = "node_place w t" and ?q = "node_place w r"
  let ?a = "transmission_label tk k (kbps_of (sample_period w) b n) x ?p ?q
      (label_over_line tk ?p ?q v) (a\<lparr>arrow_width := x, arrow_points := Some (?p, ?q)\<rparr>)"
  have "show_transmission tk k ((t, r), (b, n)) w = (Inr ?a, v)"
    by (simp add: show_transmission_def sbind_ret [OF get_run(1)] sbind_ret [of take_transmission_arrow, OF take] v x
        sbind_ret [of "centre_of t", OF places(1)] sbind_ret [of "centre_of r", OF places(2)])
  moreover have "arrow_shown ?a" "arrow_points ?a = Some (?p, ?q)" by (simp_all add: a_def new_arrow_def)
  moreover have "if ?old = [] then arrow_id ?a = next_arrow w \<and> next_arrow v = next_arrow w + 1
      else arrow_id ?a = arrow_id (last ?old) \<and> next_arrow v = next_arrow w"
    using v(3) by (simp add: a_def new_arrow_def)
  ultimately show thesis using v(1,2,4) by (intro that [of ?a v])
qed

lemma show_transmissions_run:
  fixes w :: "'z arrow_world_scheme"
  assumes "0 < sample_period w" "\<forall>(k, b, n) \<in> set es. 0 < b \<and> 0 < n"
  shows "\<exists>as v. smap (show_transmission tk k) es w = (Inr as, v)
    \<and> map (\<lambda>a. (arrow_shown a, arrow_points a)) as = map (\<lambda>((t, r), _). (True, Some (node_place w t, node_place w r))) es
    \<and> transmission_arrows v = take (length (transmission_arrows w) - length es) (transmission_arrows w)
    \<and> next_arrow v = next_arrow w + (length es - length (transmission_arrows w))
    \<and> mset (map arrow_id as) + mset (map arrow_id (transmission_arrows v))
        = mset (map arrow_id (transmission_arrows w)) + mset [next_arrow w..<next_arrow v]"
  using assms
proof (induction es arbitrary: w)
  case Nil
  then show ?case by simp
next
  case (Cons e es)
  obtain t r b n where e: "e = ((t, r), (b, n))" by (metis prod.exhaust)
  let ?old = "transmission_arrows w"
  obtain a v where v: "show_transmission tk k e w = (Inr a, v)"
    "arrow_shown a" "arrow_points a = Some (node_place w t, node_place w r)" "transmission_arrows v = butlast ?old"
    "if ?old = [] then arrow_id a = next_arrow w \<and> next_arrow v = next_arrow w + 1
      else arrow_id a = arrow_id (last ?old) \<and> next_arrow v = next_arrow w"
    "node_place v = node_place w" "sample_period v = sample_period w"
    using show_transmission_run [of w b n tk k t r] Cons.prems unfolding e by auto
  obtain as u where u: "smap (show_transmission tk k) es v = (Inr as, u)"
    "map (\<lambda>a. (arrow_shown a, arrow_points a)) as = map (\<lambda>((t, r), _). (True, Some (node_place w t, node_place w r))) es"
    "transmission_arrows u = take (length ?old - Suc (length es)) (butlast ?old)"
    "next_arrow u = next_arrow v + (length es - (length ?old - 1))"
    "mset (map arrow_id as) + mset (map arrow_id (transmission_arrows u)) = mset (map arrow_id (butlast ?old)) + mset [next_arrow v..<next_arrow u]"
    using Cons.IH [of v] Cons.prems v(4,6,7) by auto
  have run: "smap (show_transmission tk k) (e # es) w = (Inr (a # as), u)"
    by (simp add: sbind_ret [of "show_transmission tk k e", OF v(1)] sbind_ret [of "smap _ _", OF u(1)])
  have pool: "take (length ?old - Suc (length es)) (butlast ?old) = take (length ?old - Suc (length es)) ?old"
    by (cases "?old = []") (simp_all add: take_butlast)
  have ids: "mset (map arrow_id (a # as)) + mset (map arrow_id (transmission_arrows u))
      = mset (map arrow_id ?old) + mset [next_arrow w..<next_arrow u]"
  proof (cases "?old = []")
    case True
    with v(5) u(4) have nv: "next_arrow v = Suc (next_arrow w)" "next_arrow w < next_arrow u" by simp_all
    then have "[next_arrow w..<next_arrow u] = next_arrow w # [next_arrow v..<next_arrow u]"
      by (simp only: upt_conv_Cons)
    with True v(5) u(5) show ?thesis by (simp del: mset_upt upt_Suc)
  next
    case False
    then have "mset (map arrow_id ?old) = mset (map arrow_id (butlast ?old @ [last ?old]))" by simp
    also have "\<dots> = add_mset (arrow_id (last ?old)) (mset (map arrow_id (butlast ?old)))" by (simp only: map_append mset_append list.map mset.simps) simp
    finally have "mset (map arrow_id ?old) = add_mset (arrow_id (last ?old)) (mset (map arrow_id (butlast ?old)))" .
    then show ?thesis using False v(5) u(5) by (simp del: mset_upt)
  qed
  have nx: "next_arrow u = next_arrow w + (length (e # es) - length ?old)"
    using u(4) v(5) by (cases ?old) auto
  have shown: "map (\<lambda>a. (arrow_shown a, arrow_points a)) (a # as)
      = map (\<lambda>((t, r), _). (True, Some (node_place w t, node_place w r))) (e # es)"
    using u(2) v(2,3) e by simp
  have "transmission_arrows u = take (length ?old - length (e # es)) ?old" using u(3) pool by simp
  with run nx shown ids show ?case by blast
qed

lemma average_positive:
  assumes "\<forall>x \<in> set (concat sets). 0 < tx_bytes x"
  shows "\<forall>(k, b, n) \<in> set (transmissions_average sets). 0 < b \<and> 0 < n"
proof -
  have "\<forall>x \<in> set xs. 0 < tx_bytes x \<Longrightarrow> \<forall>(k, b, n) \<in> set d. 0 < b \<and> 0 < n \<Longrightarrow> distinct (map fst d) \<Longrightarrow>
    (\<forall>(k, b, n) \<in> set (fold (\<lambda>t. add_sample (transmitter t, receiver t) (tx_bytes t)) xs d). 0 < b \<and> 0 < n)" for xs d
  proof (induction xs arbitrary: d)
    case (Cons x xs)
    let ?d = "add_sample (transmitter x, receiver x) (tx_bytes x) d"
    have dist: "distinct (map fst ?d)" using Cons.prems(3) by (simp add: add_sample_def distinct_update split: prod.split)
    have "0 < b \<and> 0 < n" if "(k, b, n) \<in> set ?d" for k b n
      using map_of_is_SomeI [OF dist that] Cons.prems(1,2)
      by (auto simp: add_sample_lookup dget_or_def split: if_splits option.splits dest: map_of_SomeD)
    then have "\<forall>(k, b, n) \<in> set ?d. 0 < b \<and> 0 < n" by fast
    moreover have "\<forall>x \<in> set xs. 0 < tx_bytes x" using Cons.prems(1) by simp
    ultimately have "\<forall>(k, b, n) \<in> set (fold (\<lambda>t. add_sample (transmitter t, receiver t) (tx_bytes t)) xs ?d). 0 < b \<and> 0 < n"
      by (intro Cons.IH dist)
    then show ?case by simp
  qed simp
  from this [OF assms, of "[]"] show ?thesis by (simp add: transmissions_average_def)
qed

text \<open>Claim C24. When the samples in the window have bytes, \<open>update_transmissions_view\<close> returns and loses no arrow: the
arrows in the pool are those there were, with new ones only when the pairs outnumber them; the first arrows
are visible and go from the transmitter to the receiver of each pair in turn, all others are hidden.\<close>

theorem arrows_reused:
  fixes w :: "'z arrow_world_scheme"
  assumes "0 < sample_period w" and "\<forall>x \<in> set (concat (last_transmissions w)). 0 < tx_bytes x"
  shows "\<exists>v. update_transmissions_view tk w = (Inr (), v)
    \<and> (let pairs = map fst (transmissions_average (last_transmissions w)); old = transmission_arrows w; arrows = transmission_arrows v
       in map arrow_points (take (length pairs) arrows) = map (\<lambda>(t, r). Some (node_place w t, node_place w r)) pairs
        \<and> map arrow_shown arrows = replicate (length pairs) True @ replicate (length old - length pairs) False
        \<and> next_arrow v = next_arrow w + (length pairs - length old)
        \<and> mset (map arrow_id arrows) = mset (map arrow_id old) + mset [next_arrow w..<next_arrow v])"
proof -
  let ?avg = "transmissions_average (last_transmissions w)" and ?old = "transmission_arrows w"
  let ?u = "w\<lparr>transmission_arrows := map hide_arrow ?old\<rparr>"
  have place: "node_place ?u = node_place w" by (auto simp: node_place_def end_at_def fun_eq_iff)
  obtain as v where v: "smap (show_transmission tk (node_size_value w / 5)) ?avg ?u = (Inr as, v)"
    "map (\<lambda>a. (arrow_shown a, arrow_points a)) as = map (\<lambda>((t, r), _). (True, Some (node_place w t, node_place w r))) ?avg"
    "transmission_arrows v = take (length ?old - length ?avg) (map hide_arrow ?old)"
    "next_arrow v = next_arrow w + (length ?avg - length ?old)"
    "mset (map arrow_id as) + mset (map arrow_id (transmission_arrows v)) = mset (map arrow_id (map hide_arrow ?old)) + mset [next_arrow w..<next_arrow v]"
    using show_transmissions_run [of ?u ?avg tk "node_size_value w / 5"] assms(1) average_positive [OF assms(2)] place by auto
  let ?v = "v\<lparr>transmission_arrows := as @ transmission_arrows v\<rparr>"
  have run: "update_transmissions_view tk w = (Inr (), ?v)"
    by (simp add: update_transmissions_view_def sbind_ret [of "smap _ _", OF v(1)])
  have len: "length as = length ?avg" using arg_cong [OF v(2), of length] by simp
  have "map arrow_points as = map snd (map (\<lambda>a. (arrow_shown a, arrow_points a)) as)" by simp
  also have "\<dots> = map (\<lambda>(t, r). Some (node_place w t, node_place w r)) (map fst ?avg)" unfolding v(2) by (auto simp: split_beta)
  finally have points: "map arrow_points as = map (\<lambda>(t, r). Some (node_place w t, node_place w r)) (map fst ?avg)" .
  have "map arrow_shown as = map fst (map (\<lambda>a. (arrow_shown a, arrow_points a)) as)" by simp
  also have "\<dots> = replicate (length ?avg) True" unfolding v(2) by (simp add: split_beta map_replicate_const comp_def)
  finally have shown: "map arrow_shown as = replicate (length ?avg) True" .
  have hidden: "map arrow_shown (transmission_arrows v) = replicate (length ?old - length ?avg) False"
    unfolding v(3) by (simp add: take_map hide_arrow_def comp_def map_replicate_const)
  have ids: "mset (map arrow_id (map hide_arrow ?old)) = mset (map arrow_id ?old)" by (simp add: hide_arrow_def comp_def)
  have arrows: "transmission_arrows ?v = as @ transmission_arrows v" "next_arrow ?v = next_arrow v" by simp_all
  have "map arrow_points (take (length (map fst ?avg)) (transmission_arrows ?v)) = map (\<lambda>(t, r). Some (node_place w t, node_place w r)) (map fst ?avg)"
    unfolding arrows points [symmetric] by (simp add: len)
  moreover have "map arrow_shown (transmission_arrows ?v)
      = replicate (length (map fst ?avg)) True @ replicate (length ?old - length (map fst ?avg)) False"
    unfolding arrows by (simp add: shown hidden)
  moreover have "next_arrow ?v = next_arrow w + (length (map fst ?avg) - length ?old)" unfolding arrows v(4) by simp
  moreover have "mset (map arrow_id (transmission_arrows ?v)) = mset (map arrow_id ?old) + mset [next_arrow w..<next_arrow ?v]"
    using v(5) unfolding ids arrows by (simp del: mset_upt)
  ultimately show ?thesis using run unfolding Let_def by blast
qed

text \<open>A pair whose samples have no bytes ends the update with an exception, and the arrow it took is in no pool.\<close>

lemma zero_bytes_lose_arrow:
  fixes w :: "'z arrow_world_scheme"
  assumes "0 < sample_period w" "0 < n" "transmission_arrows w \<noteq> []"
  shows "\<exists>v. show_transmission tk k ((t, r), (0, n)) w = (Inl ValueError, v) \<and> transmission_arrows v = butlast (transmission_arrows w)"
proof -
  let ?u = "with_new (Node_End r) (with_new (Node_End t) w)"
  let ?v = "?u\<lparr>transmission_arrows := butlast (transmission_arrows w)\<rparr>"
  have "take_transmission_arrow ?u = (Inr ((last (transmission_arrows w))\<lparr>arrow_shown := True\<rparr>), ?v)"
    using assms(3) by (simp add: take_transmission_arrow_def)
  then show ?thesis using assms(1,2)
    by (intro exI [of _ ?v]) (simp add: show_transmission_def sbind_ret [OF get_run(1)] sbind_ret [of take_transmission_arrow]
        line_width_of_def)
qed

section \<open>A first state\<close>

definition arrow_start :: "network \<Rightarrow> arrow_world" where
  "arrow_start N = \<lparr> traits_table = netdevice_traits, warned_types = [], plugins = [], plugin_modules = [],
     plugins_loaded = False, sys_path = [], plugin_errors = [], net = N, nodes = [], channels = [], links = [],
     canvas_bounds = None, scan_log = [], signals = [], h_value = 0, h_page = 600, v_value = 0, v_page = 450, zoom = 1,
     sample_period = 1 / 10, node_size_value = 1, smoothing = 1 / 2, last_transmissions = [], last_drops = [],
     transmission_arrows = [], drop_arrows = [], next_arrow = 0 \<rparr>"

lemma arrow_start_simps [simp]:
  "smoothing (arrow_start N) = 1 / 2" "sample_period (arrow_start N) = 1 / 10" "last_transmissions (arrow_start N) = []"
  "last_drops (arrow_start N) = []" "transmission_arrows (arrow_start N) = []" "next_arrow (arrow_start N) = 0"
  by (simp_all add: arrow_start_def)

definition plain_toolkit :: toolkit where
  "plain_toolkit = \<lparr> clamp_h = id, clamp_v = id, clamp_zoom = id, from_pixels = (\<lambda>z p. p), to_pixels = (\<lambda>z p. p),
     line_clipping = (\<lambda>b l. l), transform_raises = False \<rparr>"

theorem window_of_samples_witness:
  "\<exists>v. do_simulation_periodic_update [\<lparr> transmitter = 0, receiver = 1, tx_bytes = 9 \<rparr>] [] (arrow_start sample_network) = (Inr (), v)
     \<and> last_transmissions v = [[\<lparr> transmitter = 0, receiver = 1, tx_bytes = 9 \<rparr>]]"
  using window_of_samples [of "arrow_start sample_network" "[\<lparr> transmitter = 0, receiver = 1, tx_bytes = 9 \<rparr>]" "[]"]
  by (auto simp: Let_def)

theorem arrows_reused_witness:
  "\<exists>v. update_transmissions_view plain_toolkit (arrow_start sample_network
        \<lparr>last_transmissions := [[\<lparr> transmitter = 0, receiver = 1, tx_bytes = 9 \<rparr>], [\<lparr> transmitter = 0, receiver = 1, tx_bytes = 1 \<rparr>]]\<rparr>) = (Inr (), v)
     \<and> map arrow_shown (transmission_arrows v) = [True] \<and> next_arrow v = 1"
proof -
  let ?w = "arrow_start sample_network
        \<lparr>last_transmissions := [[\<lparr> transmitter = 0, receiver = 1, tx_bytes = 9 \<rparr>], [\<lparr> transmitter = 0, receiver = 1, tx_bytes = 1 \<rparr>]]\<rparr>"
  have "map fst (transmissions_average (last_transmissions ?w)) = [(0, 1)]"
    by (simp add: transmissions_average_def add_sample_def dget_or_def)
  then show ?thesis using arrows_reused [of ?w plain_toolkit] by (auto simp: Let_def)
qed

end
