(* ===== verification/Viz_View.thy ===== *)
theory Viz_View
  imports Viz_Arrows
begin

text \<open>
  The handlers of \<open>Visualizer\<close> in \<^verbatim>\<open>src/visualizer/visualizer/core.py\<close>: the lock around the
  simulator, the selected node and the transmissions of interest, panning and zooming of the
  canvas, dragging of nodes, following and centring, information windows and the adjustments, as
  a machine over the events of the tool kit, which prints the exception of a handler and goes
  on. The lock here is that of one thread: waiting for it while holding it would never end, which is
  an exception here (\<^verbatim>\<open>Viz_Sim\<close> shows that no state of the threads waits like that).
\<close>

section \<open>The world\<close>

datatype tx_mode = Show_All | Show_None | Show_Selected

record panning_state =
  initial_mouse_pos :: point
  initial_canvas_pos :: point

record node_drag_state =
  drag_node :: nat
  canvas0 :: point
  sim0 :: point

text \<open>\<open>pan_handlers\<close> counts the connections of the canvas to \<open>_panning_motion\<close>, \<open>drag_handlers\<close> lists the
nodes connected to \<open>node_drag_motion\<close>.\<close>

record view_world = arrow_world +
  locked :: bool
  under_ipython :: bool
  has_shell :: bool
  shell_selected :: "nat option"
  selected_node :: "nat option"
  show_mode :: tx_mode
  nodes_of_interest :: "nat list"
  panning :: "panning_state option"
  pan_handlers :: nat
  dragging :: "node_drag_state option"
  drag_handlers :: "nat list"
  follow_node :: "nat option"
  information_windows :: "nat list"
  updated_windows :: "nat list"
  raised :: "py_error list"

type_synonym ('z, 'a) view = "('z view_world_scheme, 'a) proc"

section \<open>The lock\<close>

definition finally_do :: "('s, 'a) proc \<Rightarrow> ('s, unit) proc \<Rightarrow> ('s, 'a) proc" where
  "finally_do m f s = (case m s of (r, t) \<Rightarrow> (case f t of (Inl e, u) \<Rightarrow> (Inl e, u) | (Inr _, u) \<Rightarrow> (r, u)))"

definition lock_acquire :: "('z, unit) view" where
  "lock_acquire = sbind (gets locked) (\<lambda>l. if l then fail (OtherError ''deadlock'') else modify (\<lambda>w. w\<lparr>locked := True\<rparr>))"

definition lock_release :: "('z, unit) view" where
  "lock_release = modify (\<lambda>w. w\<lparr>locked := False\<rparr>)"

definition with_lock :: "('z, 'a) view \<Rightarrow> ('z, 'a) view" where
  "with_lock m = seq lock_acquire (finally_do m lock_release)"

definition set_nodes_of_interest :: "nat list \<Rightarrow> ('z, unit) view" where
  "set_nodes_of_interest ns = with_lock (modify (\<lambda>w. w\<lparr>nodes_of_interest := ns\<rparr>))"

section \<open>Selection\<close>

definition interest_selected :: "('z, unit) view" where
  "interest_selected = sbind (gets selected_node) (\<lambda>n. set_nodes_of_interest (case n of None \<Rightarrow> [] | Some i \<Rightarrow> [i]))"

definition set_show_transmissions_mode :: "tx_mode \<Rightarrow> ('z, unit) view" where
  "set_show_transmissions_mode m = seq (modify (\<lambda>w. w\<lparr>show_mode := m\<rparr>)) (case m of
       Show_All \<Rightarrow> sbind (gets (\<lambda>w. length (net_nodes (net w)))) (\<lambda>n. set_nodes_of_interest [0..<n])
     | Show_None \<Rightarrow> set_nodes_of_interest []
     | Show_Selected \<Rightarrow> interest_selected)"

text \<open>Without \<open>__IPYTHON__\<close> nothing; otherwise the variable in the shell, which needs one.\<close>

definition update_ipython_selected_node :: "('z, unit) view" where
  "update_ipython_selected_node = sbind (gets under_ipython) (\<lambda>ip. if \<not> ip then ret ()
     else sbind (gets selected_node) (\<lambda>n.
       seq (case n of None \<Rightarrow> ret () | Some i \<Rightarrow> with_lock (sbind (sim_node i) (\<lambda>_. ret ())))
      (sbind (gets has_shell) (\<lambda>shell.
       if shell then modify (\<lambda>w. w\<lparr>shell_selected := n\<rparr>) else fail AttributeError))))"

text \<open>What \<open>select_node\<close> and \<open>center_on_node\<close> are called with.\<close>

datatype node_arg = Sim_Node nat | Index nat | View nat | No_Node | Other_Arg

definition has_node :: "nat \<Rightarrow> ('z, nat option) viz" where
  "has_node i = sbind (the_node i) (\<lambda>_. ret (Some i))"

definition node_arg :: "node_arg \<Rightarrow> ('z, nat option) viz" where
  "node_arg a = (case a of Sim_Node i \<Rightarrow> has_node i | Index i \<Rightarrow> has_node i | View i \<Rightarrow> ret (Some i)
     | No_Node \<Rightarrow> ret None | Other_Arg \<Rightarrow> fail TypeError)"

definition mark :: "nat option \<Rightarrow> bool \<Rightarrow> ('z, unit) viz" where
  "mark n v = (case n of None \<Rightarrow> ret () | Some i \<Rightarrow> set_selected i v)"

definition select_node :: "node_arg \<Rightarrow> ('z, unit) view" where
  "select_node a = sbind (node_arg a) (\<lambda>n. sbind (gets selected_node) (\<lambda>cur.
     if n = cur then ret ()
     else seq (mark cur False)
         (seq (modify (\<lambda>w. w\<lparr>selected_node := n\<rparr>))
         (seq (mark n True)
         (sbind (gets show_mode) (\<lambda>m. seq (do_if (m = Show_Selected) interest_selected)
           update_ipython_selected_node))))))"

section \<open>Panning and zooming\<close>

definition begin_panning :: "point \<Rightarrow> ('z, unit) view" where
  "begin_panning pos = modify (\<lambda>w. w\<lparr>panning := Some \<lparr> initial_mouse_pos = pos, initial_canvas_pos = (h_value w, v_value w) \<rparr>,
     pan_handlers := pan_handlers w + 1\<rparr>)"

definition end_panning :: "('z, unit) view" where
  "end_panning = sbind (gets panning) (\<lambda>p. case p of None \<Rightarrow> ret ()
     | Some _ \<Rightarrow> modify (\<lambda>w. w\<lparr>pan_handlers := pan_handlers w - 1, panning := None\<rparr>))"

text \<open>The place of the mouse, which the handler asks the window for when the event is only a hint.\<close>

definition panning_motion :: "toolkit \<Rightarrow> point \<Rightarrow> ('z, bool) view" where
  "panning_motion tk p = sbind (gets panning) (\<lambda>st. case st of
       None \<Rightarrow> fail AssertionError
     | Some s \<Rightarrow> (case (p, initial_mouse_pos s, initial_canvas_pos s) of ((x, y), (mx0, my0), (cx0, cy0)) \<Rightarrow>
         seq (modify (\<lambda>w. w\<lparr>h_value := clamp_h tk (cx0 - (x - mx0)), v_value := clamp_v tk (cy0 - (y - my0))\<rparr>)) (ret True)))"

definition canvas_button_press :: "int \<Rightarrow> point \<Rightarrow> ('z, bool) view" where
  "canvas_button_press button pos = (if button = 2 then seq (begin_panning pos) (ret True) else ret False)"

definition canvas_button_release :: "int \<Rightarrow> ('z, bool) view" where
  "canvas_button_release button = (if button = 2 then seq end_panning (ret True) else ret False)"

datatype scroll = UP | DOWN | OTHER

definition canvas_scroll_event :: "toolkit \<Rightarrow> scroll \<Rightarrow> ('z, bool) view" where
  "canvas_scroll_event tk d = (case d of
       UP \<Rightarrow> seq (modify (\<lambda>w. w\<lparr>zoom := clamp_zoom tk (zoom w * (5 / 4))\<rparr>)) (ret True)
     | DOWN \<Rightarrow> seq (modify (\<lambda>w. w\<lparr>zoom := clamp_zoom tk (zoom w / (5 / 4))\<rparr>)) (ret True)
     | OTHER \<Rightarrow> ret False)"

section \<open>Dragging a node\<close>

text \<open>The position read under the lock; None stands for the early returns.\<close>

definition begin_node_drag :: "toolkit \<Rightarrow> nat \<Rightarrow> point \<Rightarrow> ('z, unit) view" where
  "begin_node_drag tk i pos =
     sbind (with_lock (sbind (sim_node i) (\<lambda>n. case mobility n of
         None \<Rightarrow> ret None
       | Some p \<Rightarrow> sbind (gets dragging) (\<lambda>d. ret (if d \<noteq> None then None else Some p))))) (\<lambda>start. case start of
       None \<Rightarrow> ret ()
     | Some p \<Rightarrow> modify (\<lambda>w. w\<lparr>dragging := Some \<lparr> drag_node = i, canvas0 = from_pixels tk (zoom w) pos, sim0 = p \<rparr>,
         drag_handlers := drag_handlers w @ [i]\<rparr>))"

text \<open>\<open>mob.SetPosition(pos)\<close>\<close>

definition set_mobility :: "nat \<Rightarrow> point \<Rightarrow> ('z, unit) viz" where
  "set_mobility i p = modify (\<lambda>w. w\<lparr>net := (net w)\<lparr>net_nodes := (net_nodes (net w))[i := (net_nodes (net w) ! i)\<lparr>mobility := Some p\<rparr>]\<rparr>\<rparr>)"

definition node_drag_motion :: "toolkit \<Rightarrow> nat \<Rightarrow> point \<Rightarrow> ('z, bool) view" where
  "node_drag_motion tk i pos = with_lock (sbind (sim_node i) (\<lambda>n. case mobility n of
       None \<Rightarrow> ret False
     | Some _ \<Rightarrow> sbind (gets dragging) (\<lambda>d. case d of
         None \<Rightarrow> ret False
       | Some st \<Rightarrow> sbind (gets zoom) (\<lambda>z. case from_pixels tk z pos of (cx, cy) \<Rightarrow>
           let dx = cx - fst (canvas0 st); dy = cy - snd (canvas0 st);
               p = (fst (sim0 st) + transform_distance_canvas_to_simulation dx, snd (sim0 st) + transform_distance_canvas_to_simulation dy)
           in seq (set_mobility i p) (seq (set_position i (transform_point_simulation_to_canvas p)) (ret True))))))"

definition end_node_drag :: "nat \<Rightarrow> ('z, unit) view" where
  "end_node_drag i = sbind (gets dragging) (\<lambda>d. case d of None \<Rightarrow> ret ()
     | Some st \<Rightarrow> modify (\<lambda>w. w\<lparr>drag_handlers := (if drag_node st = i then remove1 i (drag_handlers w) else drag_handlers w),
         dragging := None\<rparr>))"

text \<open>\<open>popup_node_menu\<close> has the plugins fill a menu.\<close>

definition popup_node_menu :: "('z, unit) view" where
  "popup_node_menu = emit_signal ''populate-node-menu''"

definition on_root_button_press_event :: "int \<Rightarrow> ('z, bool) view" where
  "on_root_button_press_event button = (if button = 1 then seq (select_node No_Node) (ret True) else ret False)"

definition on_node_button_press_event :: "toolkit \<Rightarrow> nat \<Rightarrow> int \<Rightarrow> point \<Rightarrow> ('z, bool) view" where
  "on_node_button_press_event tk i button pos =
     (if button = 1 then seq (select_node (View i)) (ret True)
      else if button = 3 then seq popup_node_menu (ret True)
      else if button = 2 then seq (begin_node_drag tk i pos) (ret True)
      else ret False)"

definition on_node_button_release_event :: "nat \<Rightarrow> int \<Rightarrow> ('z, bool) view" where
  "on_node_button_release_event i button = (if button = 2 then seq (end_node_drag i) (ret True) else ret False)"

section \<open>Following, centring and scaling\<close>

text \<open>The middle of the window is set on a place of the canvas.\<close>

definition centre_at :: "toolkit \<Rightarrow> point \<Rightarrow> ('z, unit) view" where
  "centre_at tk p = modify (\<lambda>w. case to_pixels tk (zoom w) p of (px, py) \<Rightarrow>
     w\<lparr>h_value := clamp_h tk (px - h_page w / 2), v_value := clamp_v tk (py - v_page w / 2)\<rparr>)"

definition center_on_node :: "toolkit \<Rightarrow> node_arg \<Rightarrow> ('z, unit) view" where
  "center_on_node tk a = sbind (node_arg a) (\<lambda>n. case n of
       None \<Rightarrow> fail TypeError
     | Some i \<Rightarrow> sbind (the_node i) (\<lambda>v. centre_at tk (center v)))"

definition set_follow_node :: "node_arg \<Rightarrow> ('z, unit) view" where
  "set_follow_node a = sbind (case a of Sim_Node i \<Rightarrow> has_node i | View i \<Rightarrow> ret (Some i) | _ \<Rightarrow> ret None)
     (\<lambda>n. modify (\<lambda>w. w\<lparr>follow_node := n\<rparr>))"

definition update_node_position :: "toolkit \<Rightarrow> nat \<Rightarrow> ('z, unit) view" where
  "update_node_position tk i = sbind (has_mobility i) (\<lambda>m. if \<not> m then ret ()
     else sbind (sim_node i) (\<lambda>n. case mobility n of None \<Rightarrow> ret ()
       | Some pos \<Rightarrow> let p = transform_point_simulation_to_canvas pos in
           seq (set_position i p) (sbind (gets follow_node) (\<lambda>f. do_if (f = Some i) (centre_at tk p)))))"

definition update_node_positions :: "toolkit \<Rightarrow> ('z, unit) view" where
  "update_node_positions tk = sbind (gets (\<lambda>w. dkeys (nodes w))) (sfor (update_node_position tk))"

text \<open>The zoom that shows all nodes, with a half to spare; \<open>scroll_to\<close> moves the window to a place of the canvas.
A window without a size does not divide by zero: the extent of the nodes is tested.\<close>

definition list_min :: "rat list \<Rightarrow> rat" where "list_min xs = fold min (tl xs) (hd xs)"
definition list_max :: "rat list \<Rightarrow> rat" where "list_max xs = fold max (tl xs) (hd xs)"

definition autoscale_view :: "toolkit \<Rightarrow> ('z, unit) view" where
  "autoscale_view tk = sbind (gets (\<lambda>w. nodes w = [])) (\<lambda>empty. if empty then ret ()
     else seq (update_node_positions tk)
       (modify (\<lambda>w. let ps = map (\<lambda>(_, n). center n) (nodes w);
            min_x = list_min (map fst ps); min_y = list_min (map snd ps);
            max_x = list_max (map fst ps); max_y = list_max (map snd ps);
            lo = to_pixels tk (zoom w) (min_x, min_y); hi = to_pixels tk (zoom w) (max_x, max_y);
            new_dx = 3 / 2 * (fst hi - fst lo); new_dy = 3 / 2 * (snd hi - snd lo)
          in if new_dx = 0 \<or> new_dy = 0 then w
             else let z = clamp_zoom tk (min (h_page w / new_dx) (v_page w / new_dy));
                 c1 = from_pixels tk z (h_value w, v_value w); c2 = from_pixels tk z (h_value w + h_page w, v_value w + v_page w);
                 width = fst c2 - fst c1; height = snd c2 - snd c1;
                 goal = to_pixels tk z ((min_x + max_x) / 2 - width / 2, (min_y + max_y) / 2 - height / 2)
               in w\<lparr>zoom := z, h_value := clamp_h tk (fst goal), v_value := clamp_v tk (snd goal)\<rparr>)))"

section \<open>Windows and adjustments\<close>

definition update_window :: "nat \<Rightarrow> ('z, unit) view" where
  "update_window k = modify (\<lambda>w. w\<lparr>updated_windows := updated_windows w @ [k]\<rparr>)"

definition add_information_window :: "nat \<Rightarrow> ('z, unit) view" where
  "add_information_window k = seq (modify (\<lambda>w. w\<lparr>information_windows := information_windows w @ [k]\<rparr>)) (with_lock (update_window k))"

definition remove_information_window :: "nat \<Rightarrow> ('z, unit) view" where
  "remove_information_window k = sbind (gets information_windows) (\<lambda>ks.
     if k \<in> set ks then modify (\<lambda>w. w\<lparr>information_windows := remove1 k ks\<rparr>) else fail ValueError)"

definition node_size_changed :: "rat \<Rightarrow> ('z, unit) view" where
  "node_size_changed v = seq (modify (\<lambda>w. w\<lparr>node_size_value := v\<rparr>))
     (sbind (gets (\<lambda>w. dkeys (nodes w))) (sfor (\<lambda>i. set_size i v)))"

text \<open>\<open>update_model\<close> is the signal under the lock, and the visualizer's own handler of it takes the samples.\<close>

definition update_model :: "transmission list \<Rightarrow> drop_sample list \<Rightarrow> ('z, unit) view" where
  "update_model ts ds = with_lock (seq (emit_signal ''simulation-periodic-update'') (do_simulation_periodic_update ts ds))"

definition update_view :: "toolkit \<Rightarrow> ('z, unit) view" where
  "update_view tk = seq (update_node_positions tk)
    (sbind (gets information_windows) (\<lambda>ks. seq (sfor update_window ks)
    (seq (update_transmissions_view tk) (seq (update_drops_view tk) (emit_signal ''update-view'')))))"

text \<open>The innermost item with a visualizer's object has its tooltip; an item is its object, its ancestors follow.\<close>

fun tooltip_object :: "nat option list \<Rightarrow> nat option" where
  "tooltip_object [] = None"
| "tooltip_object (Some n # rest) = Some n"
| "tooltip_object (None # rest) = tooltip_object rest"

definition canvas_tooltip_cb :: "nat option list \<Rightarrow> ('z, bool) view" where
  "canvas_tooltip_cb rest = (case tooltip_object rest of None \<Rightarrow> ret False
     | Some i \<Rightarrow> seq (with_lock (sbind (sim_node i) (\<lambda>_. ret ()))) (ret True))"

section \<open>The machine\<close>

datatype gui_event =
    Root_Press int
  | Node_Press nat int point
  | Node_Release nat int
  | Node_Motion point
  | Canvas_Press int point
  | Canvas_Release int
  | Canvas_Motion point
  | Scroll scroll
  | Enter nat
  | Leave nat
  | Mode tx_mode
  | Node_Size rat
  | Follow nat
  | Tooltip "nat option list"
  | Model "transmission list" "drop_sample list"
  | Autoscale
  | Refresh_View

text \<open>What the tool kit calls for an event: a motion goes to every connected handler.\<close>

definition ignore :: "('s, 'a) proc \<Rightarrow> ('s, unit) proc" where
  "ignore m = sbind m (\<lambda>_. ret ())"

definition handlers :: "toolkit \<Rightarrow> gui_event \<Rightarrow> 'z view_world_scheme \<Rightarrow> ('z, unit) view list" where
  "handlers tk e w = (case e of
       Root_Press b \<Rightarrow> [ignore (on_root_button_press_event b)]
     | Node_Press i b p \<Rightarrow> if has_key (nodes w) i then [ignore (on_node_button_press_event tk i b p)] else []
     | Node_Release i b \<Rightarrow> if has_key (nodes w) i then [ignore (on_node_button_release_event i b)] else []
     | Node_Motion p \<Rightarrow> map (\<lambda>i. ignore (node_drag_motion tk i p)) (drag_handlers w)
     | Canvas_Press b p \<Rightarrow> [ignore (canvas_button_press b p)]
     | Canvas_Release b \<Rightarrow> [ignore (canvas_button_release b)]
     | Canvas_Motion p \<Rightarrow> replicate (pan_handlers w) (ignore (panning_motion tk p))
     | Scroll d \<Rightarrow> [ignore (canvas_scroll_event tk d)]
     | Enter i \<Rightarrow> if has_key (nodes w) i then [set_highlighted i True] else []
     | Leave i \<Rightarrow> if has_key (nodes w) i then [set_highlighted i False] else []
     | Mode m \<Rightarrow> [set_show_transmissions_mode m]
     | Node_Size v \<Rightarrow> [node_size_changed v]
     | Follow i \<Rightarrow> [set_follow_node (Sim_Node i)]
     | Tooltip is \<Rightarrow> if \<forall>i \<in> set is. i = None \<or> has_key (nodes w) (the i) then [ignore (canvas_tooltip_cb is)] else []
     | Model ts ds \<Rightarrow> [update_model ts ds]
     | Autoscale \<Rightarrow> [autoscale_view tk]
     | Refresh_View \<Rightarrow> [with_lock (update_view tk)])"

text \<open>The exception of a handler is printed.\<close>

definition call :: "('z, unit) view \<Rightarrow> 'z view_world_scheme \<Rightarrow> 'z view_world_scheme" where
  "call m w = (case m w of (Inr _, v) \<Rightarrow> v | (Inl e, v) \<Rightarrow> v\<lparr>raised := raised v @ [e]\<rparr>)"

definition deliver :: "toolkit \<Rightarrow> gui_event \<Rightarrow> 'z view_world_scheme \<Rightarrow> 'z view_world_scheme" where
  "deliver tk e w = fold call (handlers tk e w) w"

definition run_events :: "toolkit \<Rightarrow> gui_event list \<Rightarrow> 'z view_world_scheme \<Rightarrow> 'z view_world_scheme" where
  "run_events tk es w = fold (deliver tk) es w"

section \<open>The invariant\<close>

text \<open>Exactly the selected node is marked; the simulator records the transmissions of the nodes that the mode
asks for; samples are of nodes of the network.\<close>

definition marked :: "nat option \<Rightarrow> (nat \<Rightarrow> node_view option) \<Rightarrow> bool" where
  "marked s f \<longleftrightarrow> (\<forall>i n. f i = Some n \<longrightarrow> selected n = (s = Some i)) \<and> (\<forall>i. s = Some i \<longrightarrow> f i \<noteq> None)"

fun interest :: "nat \<Rightarrow> tx_mode \<Rightarrow> nat option \<Rightarrow> nat list" where
  "interest n Show_All s = [0..<n]"
| "interest n Show_None s = []"
| "interest n Show_Selected s = (case s of None \<Rightarrow> [] | Some i \<Rightarrow> [i])"

definition samples_in :: "nat \<Rightarrow> transmission list list \<Rightarrow> drop_sample list list \<Rightarrow> bool" where
  "samples_in n ts ds \<longleftrightarrow> (\<forall>t \<in> set (concat ts). transmitter t < n \<and> receiver t < n) \<and> (\<forall>d \<in> set (concat ds). drop_node d < n)"

definition body_ok :: "bool \<Rightarrow> 'z view_world_scheme \<Rightarrow> bool" where
  "body_ok b w \<longleftrightarrow> scan_ok w \<and> marked (selected_node w) (map_of (nodes w))
     \<and> nodes_of_interest w = interest (length (net_nodes (net w))) (show_mode w) (selected_node w)
     \<and> samples_in (length (net_nodes (net w))) (last_transmissions w) (last_drops w) \<and> \<not> under_ipython w
     \<and> locked w = b"

text \<open>The lock is as the parameter says; between two events it is free.\<close>

abbreviation view_ok :: "'z view_world_scheme \<Rightarrow> bool" where
  "view_ok \<equiv> body_ok False"

lemma scan_ok_cong:
  assumes "nodes v = nodes w" "channels v = channels w" "links v = links w" "net v = net w"
  shows "scan_ok v \<longleftrightarrow> scan_ok w"
proof -
  have "end_at v e = end_at w e" "end_links v e = end_links w e" for e
    using assms by (auto simp: end_at_def end_links_def split: end_point.split)
  then show ?thesis using assms by (simp add: scan_ok_def scene_ok_def link_ok_def)
qed

lemma body_ok_cong:
  fixes v w :: "'z view_world_scheme"
  assumes "nodes v = nodes w" "channels v = channels w" "links v = links w" "net v = net w"
    "selected_node v = selected_node w" "nodes_of_interest v = nodes_of_interest w" "show_mode v = show_mode w"
    "last_transmissions v = last_transmissions w" "last_drops v = last_drops w" "under_ipython v = under_ipython w" "locked v = locked w"
  shows "body_ok b v \<longleftrightarrow> body_ok b w"
  using assms scan_ok_cong [OF assms(1-4)] by (simp add: body_ok_def)

lemma marked_upd: "marked s f \<Longrightarrow> f i = Some n \<Longrightarrow> selected m = selected n \<Longrightarrow> marked s (f(i \<mapsto> m))"
  by (auto simp: marked_def)

text \<open>What a scene operation may change.\<close>

lemma redraws_view:
  fixes w :: "'z view_world_scheme"
  assumes "redraws w v"
  shows "selected_node v = selected_node w" "nodes_of_interest v = nodes_of_interest w" "show_mode v = show_mode w"
    "last_transmissions v = last_transmissions w" "last_drops v = last_drops w" "under_ipython v = under_ipython w"
    "locked v = locked w" "net v = net w" "follow_node v = follow_node w" "dragging v = dragging w" "zoom v = zoom w"
  using assms by (auto simp: redraws_def)

lemma body_change:
  fixes w :: "'z view_world_scheme"
  assumes ok: "body_ok b w" and n: "map_of (nodes w) i = Some n" "has_mob m = has_mob n" "selected m = selected n"
    and v: "scene_ok v" "redraws w v" "map_of (nodes v) = (map_of (nodes w))(i \<mapsto> m)"
  shows "body_ok b v"
proof -
  have "scan_ok w" using ok by (simp add: body_ok_def)
  from scans_change(1) [OF this n(1,2) v] have "scan_ok v" by (rule scansD)
  then show ?thesis using ok n v(3) redraws_view [OF v(2)] by (simp add: body_ok_def marked_upd)
qed

lemma body_scene: "body_ok b w \<Longrightarrow> scene_ok w"
  by (simp add: body_ok_def scan_ok_def)

lemma keeps_set_position [keeps_intros]: "keeps (body_ok b) (set_position i p :: ('z, unit) view)"
proof (rule keepsI)
  fix w :: "'z view_world_scheme" assume ok: "body_ok b w"
  show "body_ok b (snd (set_position i p w))"
  proof (cases "map_of (nodes w) i")
    case None
    with ok show ?thesis
      by (simp add: set_position_def upd_node_def the_node_def need_def sbind_def split_beta map_entry_none)
  next
    case (Some n)
    obtain v where v: "set_position i p w = (Inr (), v)" "scene_ok v" "redraws w v" "map_of (nodes v) = (map_of (nodes w))(i \<mapsto> moved p n)"
      using set_position_ok [OF body_scene [OF ok] Some] by blast
    show ?thesis using body_change [OF ok Some _ _ v(2-4)] v(1) by simp
  qed
qed

lemma keeps_restyle:
  assumes "plain f" "\<And>n. has_mob (f n) = has_mob n \<and> selected (f n) = selected n"
  shows "keeps (body_ok b) (seq (upd_node i f) (update_appearance i) :: ('z, unit) view)"
proof (rule keepsI)
  fix w :: "'z view_world_scheme" assume ok: "body_ok b w"
  show "body_ok b (snd (seq (upd_node i f) (update_appearance i) w))"
  proof (cases "map_of (nodes w) i")
    case None
    with ok show ?thesis
      by (simp add: update_appearance_def upd_node_def the_node_def need_def sbind_def map_entry_none)
  next
    case (Some n)
    obtain v where v: "seq (upd_node i f) (update_appearance i) w = (Inr (), v)" "scene_ok v" "redraws w v"
      "map_of (nodes v) = (map_of (nodes w))(i \<mapsto> dressed (f n))"
      using restyle_ok [OF assms(1) body_scene [OF ok] Some] by blast
    show ?thesis using body_change [OF ok Some _ _ v(2-4)] assms(2) v(1) by simp
  qed
qed

lemma keeps_highlighted [keeps_intros]: "keeps (body_ok b) (set_highlighted i x :: ('z, unit) view)"
  unfolding set_highlighted_def by (rule keeps_restyle) (simp_all add: plain_def)

lemma keeps_set_size [keeps_intros]: "keeps (body_ok b) (set_size i x :: ('z, unit) view)"
  unfolding set_size_def by (rule keeps_restyle) (simp_all add: plain_def)

lemma keeps_the_node [keeps_intros]: "keeps P (the_node i)"
  by (simp add: keeps_def the_node_def need_def split: option.split)

lemma keeps_sim_node [keeps_intros]: "keeps P (sim_node i)"
  by (simp add: keeps_def sim_node_def)

lemma keeps_option [keeps_intros]: "keeps P m \<Longrightarrow> (\<And>x. keeps P (f x)) \<Longrightarrow> keeps P (case r of None \<Rightarrow> m | Some x \<Rightarrow> f x)"
  by (cases r) simp_all

lemma keeps_has_mobility [keeps_intros]: "keeps (body_ok b) (has_mobility i :: ('z, bool) view)"
proof (rule keepsI)
  fix w :: "'z view_world_scheme" assume ok: "body_ok b w"
  then have sc: "scan_ok w" by (simp add: body_ok_def)
  show "body_ok b (snd (has_mobility i w))"
  proof (cases "map_of (nodes w) i")
    case None
    with ok show ?thesis by (simp add: has_mobility_def the_node_def need_def sbind_def)
  next
    case (Some n)
    let ?m = "mobility (net_nodes (net w) ! i) \<noteq> None"
    let ?f = "\<lambda>n :: node_view. n\<lparr>has_mob := Some ?m\<rparr>"
    have i: "i < length (net_nodes (net w))" using sc Some unfolding scan_ok_def known_def by blast
    then have sim: "sim_node i w = (Inr (net_nodes (net w) ! i), w)" by (simp add: sim_node_def)
    have "known (net w) ((map_of (nodes w))(i \<mapsto> ?f n))"
      using sc i unfolding scan_ok_def by (intro known_upd) simp_all
    moreover have "scene_ok (with_node i ?f w)" using body_scene [OF ok] by (intro scene_ok_plain) (simp_all add: plain_def)
    ultimately have "scan_ok (with_node i ?f w)" using Some unfolding scan_ok_def by simp
    moreover have "marked (selected_node w) ((map_of (nodes w))(i \<mapsto> ?f n))"
      using ok Some by (intro marked_upd) (auto simp: body_ok_def)
    moreover have "redraws w (with_node i ?f w)" by (rule redraws_with_node)
    ultimately have f: "body_ok b (with_node i ?f w)"
      using ok Some redraws_view [of w "with_node i ?f w"] by (simp add: body_ok_def)
    show ?thesis using ok f Some
      by (cases "has_mob n") (simp_all add: has_mobility_def sbind_the_node sbind_ret [of "sim_node i", OF sim] sbind_ret [OF upd_node_run])
  qed
qed

text \<open>Handlers that change what the invariant does not speak of.\<close>

lemma keeps_other:
  fixes g :: "'z view_world_scheme \<Rightarrow> 'z view_world_scheme"
  assumes "\<And>w. nodes (g w) = nodes w \<and> channels (g w) = channels w \<and> links (g w) = links w \<and> net (g w) = net w
    \<and> selected_node (g w) = selected_node w \<and> nodes_of_interest (g w) = nodes_of_interest w \<and> show_mode (g w) = show_mode w
    \<and> last_transmissions (g w) = last_transmissions w \<and> last_drops (g w) = last_drops w \<and> under_ipython (g w) = under_ipython w \<and> locked (g w) = locked w"
  shows "keeps (body_ok b) (modify g)"
  using assms body_ok_cong [of "g _" _ b] by (intro keeps_modify) blast

lemma keeps_centre_at [keeps_intros]: "keeps (body_ok b) (centre_at tk p :: ('z, unit) view)"
  unfolding centre_at_def by (rule keeps_other) (simp split: prod.split)

lemma keeps_update_positions [keeps_intros]: "keeps (body_ok b) (update_node_positions tk :: ('z, unit) view)"
  unfolding update_node_positions_def update_node_position_def Let_def by (intro keeps_intros)

lemma keeps_autoscale [keeps_intros]: "keeps (body_ok b) (autoscale_view tk :: ('z, unit) view)"
  unfolding autoscale_view_def by (intro keeps_intros keeps_other) (simp add: Let_def)

lemma keeps_node_size [keeps_intros]: "keeps (body_ok b) (node_size_changed x :: ('z, unit) view)"
  unfolding node_size_changed_def by (intro keeps_intros keeps_other) simp

subsection \<open>Under the lock\<close>

lemma body_lock: "body_ok b w \<Longrightarrow> body_ok c (w\<lparr>locked := c\<rparr>)"
  using scan_ok_cong [of "w\<lparr>locked := c\<rparr>" w] by (simp add: body_ok_def)

lemma keeps_with_lock [keeps_intros]:
  fixes m :: "('z, 'a) view"
  assumes "keeps (body_ok True) m"
  shows "keeps view_ok (with_lock m)"
proof (rule keepsI)
  fix w :: "'z view_world_scheme" assume ok: "view_ok w"
  then have l: "\<not> locked w" by (simp add: body_ok_def)
  obtain r t where m: "m (w\<lparr>locked := True\<rparr>) = (r, t)" by fastforce
  have "body_ok True t" using keepsD [OF assms body_lock [OF ok] m] .
  then have "view_ok (t\<lparr>locked := False\<rparr>)" by (rule body_lock)
  then show "view_ok (snd (with_lock m w))"
    using l m by (simp add: with_lock_def lock_acquire_def lock_release_def finally_do_def sbind_def)
qed

lemma known_moved:
  assumes "known N f" "i < length (net_nodes N)" "mobility (net_nodes N ! i) = Some q"
  shows "known (N\<lparr>net_nodes := (net_nodes N)[i := (net_nodes N ! i)\<lparr>mobility := Some p\<rparr>]\<rparr>) f"
proof -
  have "(mobility ((net_nodes N)[i := (net_nodes N ! i)\<lparr>mobility := Some p\<rparr>] ! j) \<noteq> None) = (mobility (net_nodes N ! j) \<noteq> None)" for j
    using assms(2,3) by (cases "j = i") simp_all
  then show ?thesis using assms(1) by (simp add: known_def)
qed

lemma keeps_node_drag: "keeps (body_ok b) (sbind (sim_node i) (\<lambda>n. case mobility n of
       None \<Rightarrow> ret False
     | Some _ \<Rightarrow> sbind (gets dragging) (\<lambda>d. case d of
         None \<Rightarrow> ret False
       | Some st \<Rightarrow> sbind (gets zoom) (\<lambda>z. seq (set_mobility i (f st z)) (seq (set_position i (g st z)) (ret True))))) :: ('z, bool) view)"
proof (rule keepsI)
  fix w :: "'z view_world_scheme" assume ok: "body_ok b w"
  let ?m = "sbind (sim_node i) (\<lambda>n. case mobility n of
       None \<Rightarrow> ret False
     | Some _ \<Rightarrow> sbind (gets dragging) (\<lambda>d. case d of
         None \<Rightarrow> ret False
       | Some st \<Rightarrow> sbind (gets zoom) (\<lambda>z. seq (set_mobility i (f st z)) (seq (set_position i (g st z)) (ret True))))) :: ('z, bool) view"
  consider "fst (?m w) \<noteq> Inr True" "snd (?m w) = w" | p st where "i < length (net_nodes (net w))" "mobility (net_nodes (net w) ! i) = Some p"
    "?m w = seq (set_position i (g st (zoom w))) (ret True) (snd (set_mobility i (f st (zoom w)) w))"
    by (cases "i < length (net_nodes (net w))"; cases "mobility (net_nodes (net w) ! i)"; cases "dragging w")
       (auto simp: sim_node_def sbind_def set_mobility_def)
  then show "body_ok b (snd (?m w))"
  proof cases
    case (2 p st)
    let ?v = "snd (set_mobility i (f st (zoom w)) w)"
    have "end_at ?v e = end_at w e" "end_links ?v e = end_links w e" for e
      by (auto simp: set_mobility_def end_at_def end_links_def split: end_point.split)
    then have "scene_ok ?v" using ok by (simp add: body_ok_def scan_ok_def scene_ok_def link_ok_def set_mobility_def)
    moreover have "known (net ?v) (map_of (nodes ?v))"
      using ok 2(1,2) by (auto simp: body_ok_def scan_ok_def set_mobility_def intro: known_moved)
    ultimately have "body_ok b ?v" using ok by (simp add: body_ok_def scan_ok_def set_mobility_def)
    moreover have "keeps (body_ok b) (seq (set_position i (g st (zoom w))) (ret True) :: ('z, bool) view)" by (intro keeps_intros)
    ultimately show ?thesis unfolding 2(3) by (rule keeps_snd [rotated])
  qed (use ok in simp)
qed

lemma keeps_drag_motion [keeps_intros]: "keeps view_ok (node_drag_motion tk i pos :: ('z, bool) view)"
  unfolding node_drag_motion_def Let_def split_beta by (intro keeps_with_lock keeps_node_drag)

lemma keeps_begin_drag [keeps_intros]: "keeps view_ok (begin_node_drag tk i pos :: ('z, unit) view)"
  unfolding begin_node_drag_def by (intro keeps_intros keeps_other) simp

lemma keeps_end_drag [keeps_intros]: "keeps view_ok (end_node_drag i :: ('z, unit) view)"
  unfolding end_node_drag_def by (intro keeps_intros keeps_other) simp

subsection \<open>Arrows\<close>

lemma body_with_new:
  fixes w :: "'z view_world_scheme"
  assumes ok: "body_ok b w" and i: "i < length (net_nodes (net w))"
  shows "body_ok b (with_new (Node_End i) w)"
proof -
  have "scan_ok (with_new (Node_End i) w)"
    using scans_with_new [of w "Node_End i"] ok i by (auto simp: body_ok_def scans_def)
  moreover have "marked (selected_node w) (map_of (nodes (with_new (Node_End i) w)))"
  proof (cases "end_at w (Node_End i)")
    case None
    then have "selected_node w \<noteq> Some i" using ok by (auto simp: body_ok_def marked_def end_at_def)
    then show ?thesis using ok None by (auto simp: body_ok_def marked_def nodes_with_new new_node_def Let_def)
  next
    case (Some p)
    then show ?thesis using ok by (simp add: body_ok_def with_new_old)
  qed
  moreover have "selected_node (with_new (Node_End i) w) = selected_node w" "nodes_of_interest (with_new (Node_End i) w) = nodes_of_interest w"
    "show_mode (with_new (Node_End i) w) = show_mode w" "last_transmissions (with_new (Node_End i) w) = last_transmissions w"
    "last_drops (with_new (Node_End i) w) = last_drops w" "under_ipython (with_new (Node_End i) w) = under_ipython w"
    "locked (with_new (Node_End i) w) = locked w"
    by (simp_all add: with_new_def)
  ultimately show ?thesis using ok by (simp add: body_ok_def)
qed

text \<open>The same with a bound on the nodes that a procedure asks for.\<close>

definition body_in :: "bool \<Rightarrow> nat \<Rightarrow> 'z view_world_scheme \<Rightarrow> bool" where
  "body_in b n w \<longleftrightarrow> body_ok b w \<and> length (net_nodes (net w)) = n"

lemma keeps_in_get_node: "i < n \<Longrightarrow> keeps (body_in b n) (get_node i :: ('z, unit) view)"
  by (rule keepsI) (auto simp: body_in_def get_run body_with_new)

lemma keeps_in_other:
  fixes g :: "'z view_world_scheme \<Rightarrow> 'z view_world_scheme"
  assumes "\<And>w. nodes (g w) = nodes w \<and> channels (g w) = channels w \<and> links (g w) = links w \<and> net (g w) = net w
    \<and> selected_node (g w) = selected_node w \<and> nodes_of_interest (g w) = nodes_of_interest w \<and> show_mode (g w) = show_mode w
    \<and> last_transmissions (g w) = last_transmissions w \<and> last_drops (g w) = last_drops w \<and> under_ipython (g w) = under_ipython w
    \<and> locked (g w) = locked w"
  shows "keeps (body_in b n) (modify g)"
  using assms body_ok_cong [of "g _" _ b] by (intro keeps_modify) (simp add: body_in_def)

lemma keeps_in_take: "keeps (body_in b n) (take_transmission_arrow :: ('z, arrow) view)" "keeps (body_in b n) (take_drop_arrow :: ('z, arrow) view)"
  unfolding take_transmission_arrow_def take_drop_arrow_def by (intro keeps_intros keeps_in_other; simp)+

lemma keeps_in_show:
  "t < n \<Longrightarrow> r < n \<Longrightarrow> keeps (body_in b n) (show_transmission tk k ((t, r), c) :: ('z, arrow) view)"
  "t < n \<Longrightarrow> keeps (body_in b n) (show_drop y k (t, c) :: ('z, arrow) view)"
  unfolding show_transmission_def show_drop_def centre_of_def prod.case
  by (intro keeps_intros keeps_in_get_node keeps_in_take; assumption)+

lemma average_keys: "k \<in> fst ` set (fold (\<lambda>x. add_sample (key x) (val x)) xs []) \<Longrightarrow> k \<in> key ` set xs"
proof -
  assume "k \<in> fst ` set (fold (\<lambda>x. add_sample (key x) (val x)) xs [])"
  then have "map_of (fold (\<lambda>x. add_sample (key x) (val x)) xs []) k \<noteq> None" by (simp add: map_of_eq_None_iff)
  then have "filter (\<lambda>x. key x = k) xs \<noteq> []" unfolding average_lookup by (auto simp: Let_def split: if_splits)
  then show ?thesis by (auto simp: filter_empty_conv)
qed

end
