(* ===== verification/Viz_Events.thy ===== *)
theory Viz_Events
  imports Viz_View
begin

text \<open>
  What the events of the tool kit do to the window of \<^verbatim>\<open>src/visualizer/visualizer/core.py\<close>: whatever
  their order, and whatever the exceptions of their handlers, exactly the selected node is marked,
  the simulator records the transmissions that the mode asks for, the lock is free between two
  events and the scene stays well-formed; the canvas follows the mouse while it is panned.
\<close>

section \<open>A period of the simulation\<close>

lemma body_inI: "body_ok b w \<Longrightarrow> body_in b (length (net_nodes (net w))) w"
  by (simp add: body_in_def)

lemma keeps_counted:
  fixes m :: "'z view_world_scheme \<Rightarrow> ('z, 'a) view"
  assumes "\<And>w. body_ok b w \<Longrightarrow> keeps (body_in b (length (net_nodes (net w)))) (m w)" "\<And>w. f w = m w w"
  shows "keeps (body_ok b) f"
proof (rule keepsI)
  fix w :: "'z view_world_scheme" assume ok: "body_ok b w"
  show "body_ok b (snd (f w))" using keeps_snd [OF assms(1) [OF ok] body_inI [OF ok]] by (simp add: assms(2) body_in_def)
qed

lemma transmission_keys:
  assumes "body_ok b w" "((t, r), c) \<in> set (transmissions_average (last_transmissions w))"
  shows "t < length (net_nodes (net w))" "r < length (net_nodes (net w))"
proof -
  have "(t, r) \<in> fst ` set (transmissions_average (last_transmissions w))" using assms(2) by force
  then have "(t, r) \<in> (\<lambda>x. (transmitter x, receiver x)) ` set (concat (last_transmissions w))"
    unfolding transmissions_average_def by (rule average_keys)
  then show "t < length (net_nodes (net w))" "r < length (net_nodes (net w))"
    using assms(1) by (auto simp: body_ok_def samples_in_def)
qed

lemma drop_keys:
  assumes "body_ok b w" "(t, c) \<in> set (drops_average (last_drops w))"
  shows "t < length (net_nodes (net w))"
proof -
  have "t \<in> fst ` set (drops_average (last_drops w))" using assms(2) by force
  then have "t \<in> Viz_Arrows.drop_node ` set (concat (last_drops w))"
    unfolding drops_average_def by (rule average_keys)
  then show ?thesis using assms(1) by (auto simp: body_ok_def samples_in_def)
qed

lemma keeps_transmissions [keeps_intros]: "keeps (body_ok b) (update_transmissions_view tk :: ('z, unit) view)"
proof (rule keeps_counted)
  fix w :: "'z view_world_scheme" assume ok: "body_ok b w"
  show "keeps (body_in b (length (net_nodes (net w)))) ((\<lambda>w. let average = transmissions_average (last_transmissions w) in
     seq (modify (\<lambda>w. w\<lparr>transmission_arrows := map hide_arrow (transmission_arrows w)\<rparr>))
    (sbind (gets (\<lambda>w. node_size_value w / 5)) (\<lambda>k.
     sbind (smap (show_transmission tk k) average) (\<lambda>new_arrows.
     modify (\<lambda>w. w\<lparr>transmission_arrows := new_arrows @ transmission_arrows w\<rparr>)))) :: ('z, unit) view) w)"
    unfolding Let_def using transmission_keys [OF ok]
    by (intro keeps_intros keeps_in_other) (simp_all, metis keeps_in_show(1) surj_pair)
qed (simp add: update_transmissions_view_def Let_def)

lemma keeps_drops [keeps_intros]: "keeps (body_ok b) (update_drops_view tk :: ('z, unit) view)"
proof (rule keeps_counted)
  fix w :: "'z view_world_scheme" assume ok: "body_ok b w"
  show "keeps (body_in b (length (net_nodes (net w)))) ((\<lambda>w. let average = drops_average (last_drops w) in
     seq (modify (\<lambda>w. w\<lparr>drop_arrows := map hide_arrow (drop_arrows w)\<rparr>))
    (sbind (gets (\<lambda>w. snd (from_pixels tk (zoom w) (0, v_value w + v_page w)))) (\<lambda>edge_y.
     sbind (gets (\<lambda>w. node_size_value w / 5)) (\<lambda>k.
     sbind (smap (show_drop edge_y k) average) (\<lambda>new_arrows.
     modify (\<lambda>w. w\<lparr>drop_arrows := new_arrows @ drop_arrows w\<rparr>))))) :: ('z, unit) view) w)"
    unfolding Let_def using drop_keys [OF ok]
    by (intro keeps_intros keeps_in_other) (simp_all, metis keeps_in_show(2) surj_pair)
qed (simp add: update_drops_view_def Let_def)

lemma keeps_signal [keeps_intros]: "keeps (body_ok b) (emit_signal s :: ('z, unit) view)"
  unfolding emit_signal_def by (rule keeps_other) simp

lemma keeps_update_view [keeps_intros]: "keeps (body_ok b) (update_view tk :: ('z, unit) view)"
  unfolding update_view_def update_window_def by (intro keeps_intros keeps_other) simp

lemma with_lock_run:
  fixes w :: "'z view_world_scheme"
  shows "\<not> locked w \<Longrightarrow> m (w\<lparr>locked := True\<rparr>) = (r, t) \<Longrightarrow> with_lock m w = (r, t\<lparr>locked := False\<rparr>)"
  by (simp add: sbind_assoc with_lock_def lock_acquire_def lock_release_def finally_do_def sbind_def)

lemma trim_window_set: "set (snd (trim_window k xs)) \<subseteq> set xs"
  by (induction xs) auto

lemma samples_in_less: "samples_in n ts ds \<Longrightarrow> set us \<subseteq> set ts \<Longrightarrow> set es \<subseteq> set ds \<Longrightarrow> samples_in n us es"
  unfolding samples_in_def by auto

lemma samples_in_trim:
  assumes "samples_in n ts ds" "samples_in n [t] [d]"
  shows "samples_in n (snd (trim_window k (ts @ [t]))) ds" "samples_in n ts (snd (trim_window k (ds @ [d])))"
proof -
  have "samples_in n (ts @ [t]) ds" "samples_in n ts (ds @ [d])" using assms by (auto simp: samples_in_def)
  then show "samples_in n (snd (trim_window k (ts @ [t]))) ds" "samples_in n ts (snd (trim_window k (ds @ [d])))"
    by - (rule samples_in_less, assumption, (rule trim_window_set subset_refl)+)+
qed

lemma update_model_ok:
  fixes w :: "'z view_world_scheme"
  assumes ok: "view_ok w" and s: "samples_in (length (net_nodes (net w))) [ts] [ds]"
  shows "view_ok (snd (update_model ts ds w))"
proof -
  let ?P = "\<lambda>v :: 'z view_world_scheme. body_ok True v \<and> samples_in (length (net_nodes (net v))) [ts] [ds]"
  have one: "?P (v\<lparr>last_transmissions := snd (trim_window k (last_transmissions v @ [ts]))\<rparr>)"
    "?P (v\<lparr>last_drops := snd (trim_window k (last_drops v @ [ds]))\<rparr>)" if v: "?P v" for k and v :: "'z view_world_scheme"
    using v samples_in_trim [of _ "last_transmissions v" "last_drops v" ts ds k]
      scan_ok_cong [of "v\<lparr>last_transmissions := _\<rparr>" v] scan_ok_cong [of "v\<lparr>last_drops := _\<rparr>" v]
    by (simp_all add: body_ok_def)
  have sig: "keeps ?P (emit_signal s :: ('z, unit) view)" for s
    by (rule keepsI) (use keeps_snd [OF keeps_signal [of True s]] in \<open>auto simp: emit_signal_def\<close>)
  have "keeps ?P (do_simulation_periodic_update ts ds :: ('z, unit) view)"
  proof (rule keepsI)
    fix v :: "'z view_world_scheme" assume v: "?P v"
    define k where "k = int_of_rat (smoothing v * 10)"
    let ?x = "v\<lparr>last_transmissions := snd (trim_window k (last_transmissions v @ [ts]))\<rparr>"
    let ?y = "?x\<lparr>last_drops := snd (trim_window k (last_drops v @ [ds]))\<rparr>"
    have "snd (do_simulation_periodic_update ts ds v) \<in> {?x, ?y}"
      by (simp add: do_simulation_periodic_update_def k_def split_beta sbind_def lift_def split: sum.split)
    moreover have "?P ?x" "?P ?y" using one(1) [OF v] one(2) [of ?x k] by simp_all
    then have "\<forall>z \<in> {?x, ?y}. ?P z" by (simp only: ball_simps simp_thms)
    ultimately show "?P (snd (do_simulation_periodic_update ts ds v))" by (rule bspec [rotated])
  qed
  then have "keeps ?P (seq (emit_signal ''simulation-periodic-update'') (do_simulation_periodic_update ts ds) :: ('z, unit) view)"
    using sig by (intro keeps_intros)
  then have "body_ok True (snd (seq (emit_signal ''simulation-periodic-update'') (do_simulation_periodic_update ts ds) (w\<lparr>locked := True\<rparr>)))"
    using body_lock [OF ok, of True] s by (intro keeps_snd [of ?P, THEN conjunct1]) simp_all
  then have "view_ok ((snd (seq (emit_signal ''simulation-periodic-update'') (do_simulation_periodic_update ts ds) (w\<lparr>locked := True\<rparr>)))\<lparr>locked := False\<rparr>)"
    by (rule body_lock)
  moreover have l: "\<not> locked w" using ok by (simp add: body_ok_def)
  have "snd (update_model ts ds w) = (snd (seq (emit_signal ''simulation-periodic-update'') (do_simulation_periodic_update ts ds) (w\<lparr>locked := True\<rparr>)))\<lparr>locked := False\<rparr>"
    unfolding update_model_def by (subst with_lock_run [OF l surjective_pairing]) (rule snd_conv)
  ultimately show ?thesis by (simp only:)
qed

section \<open>Selection\<close>

lemma redraws_refl: "redraws w w"
  unfolding redraws_def
  by (rule exI [of _ "nodes w"], rule exI [of _ "links w"], rule exI [of _ "canvas_bounds w"]) (simp add: link_ends_def)

lemma mark_ok:
  fixes w :: "'z scene_scheme"
  assumes w: "scan_ok w" and n: "\<And>i. n = Some i \<Longrightarrow> has_key (nodes w) i"
  obtains v where "mark n x w = (Inr (), v)" "scan_ok v" "redraws w v"
    "\<And>j. map_option selected (map_of (nodes v) j) = (if n = Some j then Some x else map_option selected (map_of (nodes w) j))"
proof (cases n)
  case None
  then show thesis using w redraws_refl by (intro that [of w]) (simp_all add: mark_def)
next
  case (Some i)
  then obtain m where m: "map_of (nodes w) i = Some m" using n by (auto simp: key_some)
  obtain v where v: "set_selected i x w = (Inr (), v)" "scene_ok v" "redraws w v"
    "map_of (nodes v) = (map_of (nodes w))(i \<mapsto> dressed (m\<lparr>selected := x\<rparr>))"
    using restyle_ok [of "\<lambda>n. n\<lparr>selected := x\<rparr>" w i m] w m by (auto simp: plain_def scan_ok_def set_selected_def)
  have "scan_ok v" using scans_change(1) [OF w m _ v(2-4)] by (simp add: scans_def)
  then show thesis using v(1,3,4) Some by (intro that [of v]) (simp_all add: mark_def)
qed

lemma marked_select: "marked s f \<longleftrightarrow> (\<forall>j. map_option selected (f j) \<in> (if s = Some j then {Some True} else {None, Some False}))"
proof -
  have "((\<forall>n. f j = Some n \<longrightarrow> selected n = (s = Some j)) \<and> (s = Some j \<longrightarrow> f j \<noteq> None))
    \<longleftrightarrow> map_option selected (f j) \<in> (if s = Some j then {Some True} else {None, Some False})" for j
    by (cases "f j") auto
  then have "(\<forall>j. (\<forall>n. f j = Some n \<longrightarrow> selected n = (s = Some j)) \<and> (s = Some j \<longrightarrow> f j \<noteq> None))
    \<longleftrightarrow> (\<forall>j. map_option selected (f j) \<in> (if s = Some j then {Some True} else {None, Some False}))" by (rule all_cong1)
  then show ?thesis by (simp only: marked_def all_conj_distrib)
qed

lemma interest_run:
  fixes w :: "'z view_world_scheme"
  assumes "\<not> locked w"
  shows "set_nodes_of_interest ns w = (Inr (), w\<lparr>nodes_of_interest := ns\<rparr>)"
proof -
  have "set_nodes_of_interest ns w = (Inr (), w\<lparr>locked := True, nodes_of_interest := ns\<rparr>\<lparr>locked := False\<rparr>)"
    unfolding set_nodes_of_interest_def by (rule with_lock_run [OF assms]) simp
  also have "w\<lparr>locked := True, nodes_of_interest := ns\<rparr>\<lparr>locked := False\<rparr> = w\<lparr>nodes_of_interest := ns\<rparr>"
    using assms by (intro view_world.equality) simp_all
  finally show ?thesis .
qed

lemma select_node_ok:
  fixes w :: "'z view_world_scheme"
  assumes ok: "view_ok w" and a: "node_arg a w = (Inr n, w)" "\<And>i. n = Some i \<Longrightarrow> has_key (nodes w) i"
  obtains v where "select_node a w = (Inr (), v)" "view_ok v" "selected_node v = n"
proof (cases "n = selected_node w")
  case True
  then show thesis using ok a(1) by (intro that [of w]) (simp_all add: select_node_def sbind_ret [of "node_arg a", OF a(1)])
next
  case False
  let ?s = "selected_node w"
  have w: "scan_ok w" "marked ?s (map_of (nodes w))" using ok by (simp_all add: body_ok_def)
  then have s: "has_key (nodes w) i" if "?s = Some i" for i using that by (simp add: marked_def)
  obtain u where u: "mark ?s False w = (Inr (), u)" "scan_ok u" "redraws w u"
    "\<And>j. map_option selected (map_of (nodes u) j) = (if ?s = Some j then Some False else map_option selected (map_of (nodes w) j))"
    by (rule mark_ok [where n = "selected_node w" and x = False, OF w(1) s]) (assumption, rule that)
  let ?u = "u\<lparr>selected_node := n\<rparr>"
  have "scan_ok ?u" using u(2) scan_ok_cong [of ?u u] by simp
  moreover have "has_key (nodes ?u) i" if "n = Some i" for i
    using a(2) [OF that] redraws_fields(3) [OF u(3)] unfolding has_key_iff by simp
  ultimately obtain x where x: "mark n True ?u = (Inr (), x)" "scan_ok x" "redraws ?u x"
    "\<And>j. map_option selected (map_of (nodes x) j) = (if n = Some j then Some True else map_option selected (map_of (nodes ?u) j))"
    by (rule mark_ok [where n = n and x = True]) (assumption, rule that)
  note r = redraws_view [OF x(3), simplified] redraws_view [OF u(3)]
  have "marked n (map_of (nodes x))"
    using w(2) by (auto simp: marked_select x(4) u(4) split: if_splits)
  then have m: "view_ok (x\<lparr>nodes_of_interest := interest (length (net_nodes (net w))) (show_mode w) n\<rparr>)"
    using ok x(2) r scan_ok_cong [of "x\<lparr>nodes_of_interest := _\<rparr>" x] by (simp add: body_ok_def)
  show thesis
  proof (rule that)
    show "select_node a w = (Inr (), x\<lparr>nodes_of_interest := interest (length (net_nodes (net w))) (show_mode w) n\<rparr>)"
      using False ok r
      by (cases "show_mode w")
         (simp_all add: select_node_def sbind_ret [of "node_arg a", OF a(1)] sbind_ret [of "mark _ _", OF u(1)] sbind_ret [of "mark _ _", OF x(1)]
           sbind_assoc interest_selected_def interest_run sbind_ret [OF interest_run] update_ipython_selected_node_def body_ok_def do_if_def)
    show "selected_node (x\<lparr>nodes_of_interest := interest (length (net_nodes (net w))) (show_mode w) n\<rparr>) = n"
      using r by simp
  qed (fact m)
qed

lemma mode_ok:
  fixes w :: "'z view_world_scheme"
  assumes "view_ok w"
  shows "view_ok (snd (set_show_transmissions_mode m w))"
proof -
  have "\<not> locked w" using assms by (simp add: body_ok_def)
  then have "set_show_transmissions_mode m w = (Inr (), w\<lparr>show_mode := m, nodes_of_interest := interest (length (net_nodes (net w))) m (selected_node w)\<rparr>)"
    by (cases m) (simp_all add: set_show_transmissions_mode_def interest_selected_def interest_run)
  then show ?thesis using assms scan_ok_cong [of "w\<lparr>show_mode := _, nodes_of_interest := _\<rparr>" w] by (simp add: body_ok_def)
qed

section \<open>Every handler\<close>

lemma keeps_has_node [keeps_intros]: "keeps P (has_node i)"
  unfolding has_node_def by (intro keeps_intros)

lemma keeps_follow [keeps_intros]: "keeps view_ok (set_follow_node a :: ('z, unit) view)"
proof -
  have "keeps view_ok ((case a of Sim_Node i \<Rightarrow> has_node i | View i \<Rightarrow> ret (Some i) | _ \<Rightarrow> ret None) :: ('z, nat option) view)"
    by (cases a) (simp_all add: keeps_has_node keeps_base)
  then show ?thesis unfolding set_follow_node_def by (intro keeps_sbind keeps_other) simp_all
qed

lemma keeps_canvas [keeps_intros]:
  "keeps view_ok (canvas_button_press b p :: ('z, bool) view)" "keeps view_ok (canvas_button_release b :: ('z, bool) view)"
  "keeps view_ok (panning_motion tk p :: ('z, bool) view)"
  unfolding canvas_button_press_def canvas_button_release_def begin_panning_def end_panning_def panning_motion_def split_beta
  by (intro keeps_intros keeps_other; simp)+

lemma keeps_scroll [keeps_intros]: "keeps view_ok (canvas_scroll_event tk d :: ('z, bool) view)"
  unfolding canvas_scroll_event_def by (cases d) (auto intro!: keeps_intros keeps_other)

lemma keeps_tooltip [keeps_intros]: "keeps view_ok (canvas_tooltip_cb is :: ('z, bool) view)"
  unfolding canvas_tooltip_cb_def by (intro keeps_intros)

lemma keeps_node_release [keeps_intros]: "keeps view_ok (on_node_button_release_event i b :: ('z, bool) view)"
  unfolding on_node_button_release_event_def by (intro keeps_intros)

lemma keeps_ignore [keeps_intros]: "keeps P m \<Longrightarrow> keeps P (ignore m)"
  unfolding ignore_def by (intro keeps_intros)

lemma select_snd:
  fixes w :: "'z view_world_scheme"
  assumes "view_ok w" "\<And>i. n = Some i \<Longrightarrow> has_key (nodes w) i"
  shows "view_ok (snd (select_node (case n of None \<Rightarrow> No_Node | Some i \<Rightarrow> View i) w))"
proof -
  have "node_arg (case n of None \<Rightarrow> No_Node | Some i \<Rightarrow> View i) w = (Inr n, w)" by (cases n) (simp_all add: node_arg_def)
  from select_node_ok [OF assms(1) this assms(2)] show ?thesis by (metis snd_conv)
qed

lemma snd_ignore: "snd (ignore m w) = snd (m w)"
  by (simp add: ignore_def sbind_def split: prod.split sum.split)

lemma snd_seq_ret: "snd (seq m (ret x) w) = snd (m w)"
  by (simp add: sbind_def split: prod.split sum.split)

lemma press_ok:
  fixes w :: "'z view_world_scheme"
  assumes "view_ok w"
  shows "view_ok (snd (on_root_button_press_event b w))"
    and "has_key (nodes w) i \<Longrightarrow> view_ok (snd (on_node_button_press_event tk i b p w))"
proof -
  show "view_ok (snd (on_root_button_press_event b w))"
    using select_snd [OF assms, of None] assms by (simp add: on_root_button_press_event_def snd_seq_ret)
  assume "has_key (nodes w) i"
  then have "view_ok (snd (select_node (View i) w))" using select_snd [OF assms, of "Some i"] by simp
  moreover have "view_ok (snd (popup_node_menu w))"
    unfolding popup_node_menu_def by (rule keeps_snd [OF keeps_signal assms])
  moreover have "view_ok (snd (begin_node_drag tk i p w))" by (rule keeps_snd [OF keeps_begin_drag assms])
  ultimately show "view_ok (snd (on_node_button_press_event tk i b p w))"
    using assms by (simp add: on_node_button_press_event_def snd_seq_ret)
qed

section \<open>The invariant over all events\<close>

lemma call_ok: "view_ok (snd (m w)) \<Longrightarrow> view_ok (call m w)"
  by (cases "m w") (auto simp: call_def body_ok_cong [of "_\<lparr>raised := _\<rparr>"] split: sum.split)

lemma fold_call: "\<forall>m \<in> set ms. keeps view_ok m \<Longrightarrow> view_ok w \<Longrightarrow> view_ok (fold call ms w)"
  by (induction ms arbitrary: w) (simp_all add: call_ok keeps_snd)

text \<open>The simulator gives samples of nodes that it has.\<close>

definition event_in :: "'z view_world_scheme \<Rightarrow> gui_event \<Rightarrow> bool" where
  "event_in w e \<longleftrightarrow> (case e of Model ts ds \<Rightarrow> samples_in (length (net_nodes (net w))) [ts] [ds] | _ \<Rightarrow> True)"

fun events_in :: "toolkit \<Rightarrow> 'z view_world_scheme \<Rightarrow> gui_event list \<Rightarrow> bool" where
  "events_in tk w [] \<longleftrightarrow> True"
| "events_in tk w (e # es) \<longleftrightarrow> event_in w e \<and> events_in tk (deliver tk e w) es"

text \<open>But for a selection, a mode and a period, the handlers keep the invariant from any state.\<close>

lemma keeps_handlers:
  fixes w :: "'z view_world_scheme"
  assumes "\<And>b. e \<noteq> Root_Press b" "\<And>i b p. e \<noteq> Node_Press i b p" "\<And>m. e \<noteq> Mode m" "\<And>ts ds. e \<noteq> Model ts ds"
  shows "\<forall>m \<in> set (handlers tk e w). keeps view_ok m"
  using assms by (cases e) (auto simp: handlers_def intro!: keeps_intros)

lemma deliver_ok:
  fixes w :: "'z view_world_scheme"
  assumes ok: "view_ok w" and e: "event_in w e"
  shows "view_ok (deliver tk e w)"
proof -
  have single: "handlers tk e w = [m] \<Longrightarrow> view_ok (snd (m w)) \<Longrightarrow> view_ok (deliver tk e w)" for m
    by (simp add: deliver_def call_ok)
  consider (press) b where "e = Root_Press b" | (node) i b p where "e = Node_Press i b p" | (mode) m where "e = Mode m"
    | (period) ts ds where "e = Model ts ds" | (kept) "\<forall>m \<in> set (handlers tk e w). keeps view_ok m"
    using keeps_handlers [of e tk w] by metis
  then show ?thesis
  proof cases
    case press
    then show ?thesis using press_ok(1) [OF ok] by (intro single [of "ignore (on_root_button_press_event b)"]) (simp_all add: handlers_def snd_ignore)
  next
    case node
    then show ?thesis using press_ok(2) [OF ok, of i] ok
      by (cases "has_key (nodes w) i") (auto simp: handlers_def deliver_def snd_ignore call_ok)
  next
    case mode
    then show ?thesis using mode_ok [OF ok] by (intro single [of "set_show_transmissions_mode m"]) (simp_all add: handlers_def)
  next
    case period
    with e have "view_ok (snd (update_model ts ds w))" by (intro update_model_ok [OF ok]) (simp add: event_in_def)
    with period show ?thesis by (intro single [of "update_model ts ds"]) (simp_all add: handlers_def)
  next
    case kept
    then show ?thesis unfolding deliver_def using ok by (rule fold_call)
  qed
qed

lemma run_events_ok: "view_ok w \<Longrightarrow> events_in tk w es \<Longrightarrow> view_ok (run_events tk es w)"
  by (induction es arbitrary: w) (simp_all add: run_events_def deliver_ok)

text \<open>Claim C5. Over every sequence of events, whatever their handlers raise: exactly the selected node is marked as
selected, the simulator records the transmissions of the nodes that the mode asks for, the lock is free
between two events, and links and nodes stay well-formed. The window is one outside of an IPython shell, under which
\<open>start\<close> fails before the main loop.\<close>

theorem events_keep_view_ok:
  fixes w :: "'z view_world_scheme"
  assumes "view_ok w" and "events_in tk w es"
  shows "view_ok (run_events tk es w)"
  using assms by (rule run_events_ok)

section \<open>Panning\<close>

lemma run_events_simps [simp]:
  "run_events tk [] w = w" "run_events tk (e # es) w = run_events tk es (deliver tk e w)"
  "run_events tk (es @ fs) w = run_events tk fs (run_events tk es w)"
  by (simp_all add: run_events_def)

lemma press_run:
  fixes w :: "'z view_world_scheme"
  shows "deliver tk (Canvas_Press 2 p) w = w\<lparr>panning := Some \<lparr> initial_mouse_pos = p, initial_canvas_pos = (h_value w, v_value w) \<rparr>,
    pan_handlers := pan_handlers w + 1\<rparr>"
  by (simp add: deliver_def handlers_def call_def ignore_def canvas_button_press_def begin_panning_def sbind_assoc)

lemma release_run:
  fixes w :: "'z view_world_scheme"
  shows "panning w = Some s \<Longrightarrow> deliver tk (Canvas_Release 2) w = w\<lparr>pan_handlers := pan_handlers w - 1, panning := None\<rparr>"
  by (simp add: deliver_def handlers_def call_def ignore_def canvas_button_release_def end_panning_def sbind_assoc)

lemma motion_run:
  fixes w :: "'z view_world_scheme"
  shows "pan_handlers w = 0 \<Longrightarrow> deliver tk (Canvas_Motion q) w = w"
    "pan_handlers w = 1 \<Longrightarrow> panning w = None \<Longrightarrow> deliver tk (Canvas_Motion q) w = w\<lparr>raised := raised w @ [AssertionError]\<rparr>"
    "pan_handlers w = 1 \<Longrightarrow> panning w = Some s \<Longrightarrow> deliver tk (Canvas_Motion q) w =
       w\<lparr>h_value := clamp_h tk (fst (initial_canvas_pos s) - (fst q - fst (initial_mouse_pos s))),
         v_value := clamp_v tk (snd (initial_canvas_pos s) - (snd q - snd (initial_mouse_pos s)))\<rparr>"
  by (simp_all add: deliver_def handlers_def call_def ignore_def panning_motion_def sbind_assoc split_beta)

lemma motions_idle: "pan_handlers w = 0 \<Longrightarrow> run_events tk (map Canvas_Motion qs) w = w"
  by (induction qs) (simp_all add: motion_run)

lemma motions_pan:
  fixes w :: "'z view_world_scheme"
  assumes "pan_handlers w = 1" "panning w = Some s"
  shows "\<exists>h v. run_events tk (map Canvas_Motion qs) w = w\<lparr>h_value := h, v_value := v\<rparr>"
  using assms
proof (induction qs arbitrary: w)
  case Nil
  show ?case by (rule exI [of _ "h_value w"], rule exI [of _ "v_value w"]) simp
next
  case (Cons q qs)
  let ?w = "deliver tk (Canvas_Motion q) w"
  have "pan_handlers ?w = 1" "panning ?w = Some s" by (simp_all add: motion_run(3) [OF Cons.prems] Cons.prems)
  from Cons.IH [OF this] obtain h v where "run_events tk (map Canvas_Motion qs) ?w = ?w\<lparr>h_value := h, v_value := v\<rparr>" by blast
  then have "run_events tk (map Canvas_Motion (q # qs)) w = w\<lparr>h_value := h, v_value := v\<rparr>"
    by (simp add: motion_run(3) [OF Cons.prems])
  then show ?case by blast
qed

text \<open>Claim C27. The canvas follows the mouse: from the press of the middle button to the last motion the adjustments have
moved by as much as the mouse, whatever the motions between; after the release motions do nothing, and
no exception has been printed.\<close>

theorem panning_follows_mouse:
  fixes w :: "'z view_world_scheme"
  assumes "panning w = None" and "pan_handlers w = 0"
  shows "let v = run_events tk (Canvas_Press 2 p # map Canvas_Motion ps @ [Canvas_Motion q]) w;
             u = run_events tk (Canvas_Release 2 # map Canvas_Motion qs) v
    in h_value v = clamp_h tk (h_value w - (fst q - fst p)) \<and> v_value v = clamp_v tk (v_value w - (snd q - snd p))
     \<and> u = w\<lparr>h_value := h_value v, v_value := v_value v\<rparr>"
proof -
  let ?s = "\<lparr> initial_mouse_pos = p, initial_canvas_pos = (h_value w, v_value w) \<rparr>"
  let ?w = "w\<lparr>panning := Some ?s, pan_handlers := 1\<rparr>"
  obtain h v where m: "run_events tk (map Canvas_Motion ps) ?w = ?w\<lparr>h_value := h, v_value := v\<rparr>"
    using motions_pan [of ?w ?s tk ps] by auto
  define x where "x = run_events tk (Canvas_Press 2 p # map Canvas_Motion ps @ [Canvas_Motion q]) w"
  have x: "x = ?w\<lparr>h_value := clamp_h tk (h_value w - (fst q - fst p)), v_value := clamp_v tk (v_value w - (snd q - snd p))\<rparr>"
    by (simp add: x_def press_run assms(2) m [simplified] motion_run(3) [of _ ?s])
  define u where "u = run_events tk (Canvas_Release 2 # map Canvas_Motion qs) x"
  have "u = x\<lparr>pan_handlers := 0, panning := None\<rparr>"
    by (simp add: u_def x release_run [of _ ?s] motions_idle)
  then have "u = w\<lparr>h_value := h_value x, v_value := v_value x\<rparr>" unfolding x using assms
    by (intro view_world.equality) simp_all
  then show ?thesis unfolding x_def [symmetric] u_def [symmetric] Let_def by (simp add: x)
qed

text \<open>A second press of the middle button before the release (a double click) connects a second handler, and the release
disconnects the last one only: from then on each motion of the mouse fails the assertion of the handler
that was left.\<close>

theorem double_press_leaves_handler:
  fixes w :: "'z view_world_scheme"
  assumes "pan_handlers w = 0"
  shows "raised (run_events tk ([Canvas_Press 2 p, Canvas_Press 2 q, Canvas_Release 2] @ map Canvas_Motion qs) w)
    = raised w @ replicate (length qs) AssertionError"
proof -
  have motions: "pan_handlers v = 1 \<Longrightarrow> panning v = None \<Longrightarrow>
      raised (run_events tk (map Canvas_Motion qs) v) = raised v @ replicate (length qs) AssertionError" for v :: "'z view_world_scheme"
    by (induction qs arbitrary: v) (simp_all add: motion_run(2))
  show ?thesis using assms by (simp add: press_run release_run motions)
qed

section \<open>Dragging\<close>

lemma with_lock_read:
  fixes w :: "'z view_world_scheme"
  assumes "\<not> locked w" "m (w\<lparr>locked := True\<rparr>) = (r, w\<lparr>locked := True\<rparr>)"
  shows "with_lock m w = (r, w)"
proof -
  have "w\<lparr>locked := True\<rparr>\<lparr>locked := False\<rparr> = w" using assms(1) by (intro view_world.equality) simp_all
  then show ?thesis using with_lock_run [of w m, OF assms] by (simp only:)
qed

lemma begin_drag_run:
  fixes w :: "'z view_world_scheme"
  assumes "\<not> locked w" "i < length (net_nodes (net w))" "mobility (net_nodes (net w) ! i) = Some pos" "dragging w = None"
  shows "begin_node_drag tk i a w = (Inr (), w\<lparr>dragging := Some \<lparr> drag_node = i, canvas0 = from_pixels tk (zoom w) a, sim0 = pos \<rparr>,
         drag_handlers := drag_handlers w @ [i]\<rparr>)"
proof -
  let ?m = "sbind (sim_node i) (\<lambda>n. case mobility n of
         None \<Rightarrow> ret None
       | Some p \<Rightarrow> sbind (gets dragging) (\<lambda>d. ret (if d \<noteq> None then None else Some p))) :: ('z, point option) view"
  have "?m (w\<lparr>locked := True\<rparr>) = (Inr (Some pos), w\<lparr>locked := True\<rparr>)"
    using assms(2-4) by (simp add: sim_node_def sbind_assoc)
  from with_lock_read [of w ?m, OF assms(1) this] show ?thesis
    unfolding begin_node_drag_def by (simp add: sbind_ret)
qed

lemma scene_ok_cong:
  assumes "nodes v = nodes w" "channels v = channels w" "links v = links w"
  shows "scene_ok v = scene_ok w"
proof -
  have "end_at v e = end_at w e" "end_links v e = end_links w e" for e
    using assms by (auto simp: end_at_def end_links_def split: end_point.split)
  then show ?thesis using assms by (simp add: scene_ok_def link_ok_def)
qed

lemma set_mobility_scene: "scene_ok (snd (set_mobility i p w)) = scene_ok w"
  by (rule scene_ok_cong) (simp_all add: set_mobility_def)

lemma drag_motion_run:
  fixes w :: "'z view_world_scheme"
  assumes "\<not> locked w" "scene_ok w" "map_of (nodes w) i = Some n" "i < length (net_nodes (net w))"
    and "mobility (net_nodes (net w) ! i) = Some pos" "dragging w = Some st"
    and new: "new = (fst (sim0 st) + transform_distance_canvas_to_simulation (fst (from_pixels tk (zoom w) b) - fst (canvas0 st)),
        snd (sim0 st) + transform_distance_canvas_to_simulation (snd (from_pixels tk (zoom w) b) - snd (canvas0 st)))"
  obtains v where "node_drag_motion tk i b w = (Inr True, v)" "scene_ok v" "raised v = raised w"
    "mobility (net_nodes (net v) ! i) = Some new" "end_at v (Node_End i) = Some (transform_point_simulation_to_canvas new)"
proof -
  let ?l = "w\<lparr>locked := True\<rparr>"
  let ?u = "snd (set_mobility i new ?l)"
  have "scene_ok ?l" using assms(2) scene_ok_cong [of ?l w] by simp
  then have "scene_ok ?u" by (simp only: set_mobility_scene)
  moreover have "map_of (nodes ?u) i = Some n" using assms(3) by (simp add: set_mobility_def)
  ultimately obtain v where v: "set_position i (transform_point_simulation_to_canvas new) ?u = (Inr (), v)" "scene_ok v" "redraws ?u v"
    "map_of (nodes v) = (map_of (nodes ?u))(i \<mapsto> moved (transform_point_simulation_to_canvas new) n)"
    by (rule set_position_ok)
  have mob: "set_mobility i new ?l = (Inr (), ?u)" by (simp add: set_mobility_def)
  let ?v = "v\<lparr>locked := False\<rparr>"
  have run: "node_drag_motion tk i b w = (Inr True, ?v)"
    unfolding node_drag_motion_def
    by (rule with_lock_run [OF assms(1)])
       (use assms(4-6) in \<open>simp add: new [symmetric] sim_node_def sbind_assoc split_beta Let_def sbind_ret [of "set_mobility _ _", OF mob]
          sbind_ret [of "set_position _ _", OF v(1)]\<close>)
  have "raised v = raised w" "net v = net ?u" using v(3) by (auto simp: redraws_def set_mobility_def)
  moreover have "scene_ok ?v" using v(2) scene_ok_cong [of ?v v] by simp
  ultimately show thesis
    using assms(4) v(4) by (intro that [OF run]) (simp_all add: set_mobility_def end_at_def moved_def)
qed

text \<open>Claim C20. Dragging: after the press of the middle button on a node and a motion of the mouse, the mobility model has
the node as far from where it was as the mouse has moved, in metres, and the node is drawn there, with
all links still at their ends.\<close>

theorem drag_moves_node:
  fixes w :: "'z view_world_scheme"
  assumes "view_ok w" and "has_key (nodes w) i" and "mobility (net_nodes (net w) ! i) = Some pos"
    and "dragging w = None" and "drag_handlers w = []"
  shows "let v = run_events tk [Node_Press i 2 a, Node_Motion b] w;
             ca = from_pixels tk (zoom w) a; cb = from_pixels tk (zoom w) b;
             new = (fst pos + transform_distance_canvas_to_simulation (fst cb - fst ca),
                    snd pos + transform_distance_canvas_to_simulation (snd cb - snd ca))
    in mobility (net_nodes (net v) ! i) = Some new \<and> end_at v (Node_End i) = Some (transform_point_simulation_to_canvas new)
     \<and> scene_ok v \<and> raised v = raised w"
proof -
  obtain n where n: "map_of (nodes w) i = Some n" using assms(2) by auto
  have ok: "\<not> locked w" "scene_ok w" "i < length (net_nodes (net w))"
    using assms(1) n unfolding body_ok_def scan_ok_def known_def by blast+
  let ?st = "\<lparr> drag_node = i, canvas0 = from_pixels tk (zoom w) a, sim0 = pos \<rparr>"
  let ?w = "w\<lparr>dragging := Some ?st, drag_handlers := [i]\<rparr>"
  have press: "deliver tk (Node_Press i 2 a) w = ?w"
    using begin_drag_run [OF ok(1,3) assms(3,4), of tk a] n assms(5)
    by (simp add: deliver_def handlers_def call_def ignore_def on_node_button_press_event_def sbind_assoc sbind_ret)
  have "scene_ok ?w" using ok(2) scene_ok_cong [of ?w w] by simp
  then obtain v where v: "node_drag_motion tk i b ?w = (Inr True, v)" "scene_ok v" "raised v = raised w"
    "mobility (net_nodes (net v) ! i) = Some (fst pos + transform_distance_canvas_to_simulation (fst (from_pixels tk (zoom w) b) - fst (from_pixels tk (zoom w) a)),
        snd pos + transform_distance_canvas_to_simulation (snd (from_pixels tk (zoom w) b) - snd (from_pixels tk (zoom w) a)))"
    "end_at v (Node_End i) = Some (transform_point_simulation_to_canvas
       (fst pos + transform_distance_canvas_to_simulation (fst (from_pixels tk (zoom w) b) - fst (from_pixels tk (zoom w) a)),
        snd pos + transform_distance_canvas_to_simulation (snd (from_pixels tk (zoom w) b) - snd (from_pixels tk (zoom w) a))))"
    using drag_motion_run [of ?w i n pos ?st _ tk b] ok n assms(3) by auto
  then have "deliver tk (Node_Motion b) ?w = v"
    by (simp add: deliver_def handlers_def call_def ignore_def sbind_ret)
  then show ?thesis using v(2-5) press by (simp add: Let_def)
qed

section \<open>A first state\<close>

text \<open>A window in the mode it starts with, with an object for each node of the network.\<close>

definition view_start :: "network \<Rightarrow> view_world" where
  "view_start N = arrow_world.extend (arrow_start N)
     \<lparr> locked = False, under_ipython = False, has_shell = False, shell_selected = None, selected_node = None,
       show_mode = Show_All, nodes_of_interest = [0..<length (net_nodes N)], panning = None, pan_handlers = 0, dragging = None, drag_handlers = [],
       follow_node = None, information_windows = [], updated_windows = [], raised = [] \<rparr>
     \<lparr>nodes := map (\<lambda>i. (i, new_node)) [0..<length (net_nodes N)]\<rparr>"

lemma view_start_ok: "view_ok (view_start N)"
proof -
  have "map_of (map (\<lambda>i. (i, new_node)) [0..<n]) i = (if i < n then Some new_node else None)" for i n
    using map_of_map_restrict [of "\<lambda>_. new_node" "[0..<n]"] by (simp add: restrict_map_def)
  then show ?thesis
    by (auto simp: body_ok_def view_start_def arrow_world.extend_def arrow_start_def scan_ok_def scene_ok_def known_def marked_def
        samples_in_def end_links_def new_node_def Let_def split: end_point.split if_splits)
qed

lemma view_start_simps [simp]:
  "net (view_start N) = N" "panning (view_start N) = None" "pan_handlers (view_start N) = 0" "dragging (view_start N) = None"
  "drag_handlers (view_start N) = []" "raised (view_start N) = []" "h_value (view_start N) = 0" "v_value (view_start N) = 0"
  "zoom (view_start N) = 1"
  by (simp_all add: view_start_def arrow_world.extend_def arrow_start_def)

theorem events_keep_view_ok_witness:
  "view_ok (run_events plain_toolkit [Model [\<lparr> transmitter = 0, receiver = 1, tx_bytes = 9 \<rparr>] [], Node_Press 0 1 (0, 0),
     Mode Show_Selected, Canvas_Motion (1, 1), Refresh_View, Root_Press 1] (view_start sample_network))"
  by (rule events_keep_view_ok [OF view_start_ok]) (simp add: event_in_def samples_in_def sample_network_def)

theorem panning_follows_mouse_witness:
  "h_value (run_events plain_toolkit [Canvas_Press 2 (10, 10), Canvas_Motion (500, 0), Canvas_Motion (7, 30)] (view_start sample_network)) = 3"
  using panning_follows_mouse [of "view_start sample_network" plain_toolkit "(10, 10)" "[(500, 0)]" "(7, 30)" "[]"]
  by (simp add: Let_def plain_toolkit_def del: run_events_simps)

theorem double_press_leaves_handler_witness:
  "raised (run_events plain_toolkit ([Canvas_Press 2 (0, 0), Canvas_Press 2 (0, 0), Canvas_Release 2] @ map Canvas_Motion [(1, 1), (2, 2)])
     (view_start sample_network)) = [AssertionError, AssertionError]"
  using double_press_leaves_handler [of "view_start sample_network" plain_toolkit "(0, 0)" "(0, 0)" "[(1, 1), (2, 2)]"]
  by (simp del: run_events_simps)

theorem drag_moves_node_witness:
  "mobility (net_nodes (net (run_events plain_toolkit [Node_Press 0 2 (0, 0), Node_Motion (15, 30)] (view_start sample_network))) ! 0) = Some (6, 12)"
proof -
  have "has_key (nodes (view_start sample_network)) 0" "mobility (net_nodes (net (view_start sample_network)) ! 0) = Some (1, 2)"
    by (simp_all add: view_start_def arrow_world.extend_def arrow_start_def sample_network_def)
  from drag_moves_node [OF view_start_ok this, of plain_toolkit "(0, 0)" "(15, 30)"] show ?thesis
    by (simp add: Let_def plain_toolkit_def transform_distance_canvas_to_simulation_def PIXELS_PER_METER_def del: run_events_simps)
qed

end
