(* ===== verification/Viz_Tables.thy ===== *)
theory Viz_Tables
  imports Viz_Events
begin

text \<open>
  The plugins of the visualizer that show tables: \<^verbatim>\<open>plugins/interface_statistics.py\<close>,
  \<^verbatim>\<open>plugins/ipv4_routing_table.py\<close>, \<^verbatim>\<open>plugins/olsr.py\<close> and \<^verbatim>\<open>plugins/show_last_packets.py\<close>. What the
  simulator answers is an argument; a table is the list of its rows, with numbers where the code
  shows their texts. The packing of the windows is left out.
\<close>

section \<open>Names of interfaces\<close>

text \<open>\<open>Names.FindName\<close> of the device, or its number.\<close>

definition interface_name :: "string \<Rightarrow> nat \<Rightarrow> string" where
  "interface_name found i = (if found = [] then ''(interface '' @ show_nat i @ '')'' else found)"

text \<open>In the routing tables: the name found for the device of an interface, None without a device.\<close>

definition route_interface_name :: "(nat \<Rightarrow> string option) \<Rightarrow> nat \<Rightarrow> string" where
  "route_interface_name names i = (case names i of None \<Rightarrow> ''lo'' | Some found \<Rightarrow> interface_name found i)"

section \<open>Interface statistics\<close>

record iface_stats =
  transmittedPackets :: nat
  transmittedBytes :: nat
  receivedPackets :: nat
  receivedBytes :: nat

record net_dev_stats =
  txPackets :: nat
  txBytes :: nat
  rxPackets :: nat
  rxBytes :: nat
  txPacketRate :: rat
  rxPacketRate :: rat
  txBitRate :: rat
  rxBitRate :: rat

definition NODE_STATISTICS_MEMORY :: nat where "NODE_STATISTICS_MEMORY = 10"

type_synonym statistics = "(nat, iface_stats list list) dict"

definition collect_node :: "nat \<times> iface_stats list \<Rightarrow> statistics \<Rightarrow> statistics" where
  "collect_node s d = (case s of (node, stats) \<Rightarrow>
     AList.update node (snd (trim_window (int NODE_STATISTICS_MEMORY) (dget_or [] node d @ [stats]))) d)"

definition simulation_periodic_update :: "(nat \<times> iface_stats list) list \<Rightarrow> statistics \<Rightarrow> statistics" where
  "simulation_periodic_update nodes_statistics d = fold collect_node nodes_statistics d"

definition rate :: "rat \<Rightarrow> nat \<Rightarrow> nat \<Rightarrow> rat" where
  "rate k new old = (of_nat new - of_nat old) / k"

definition out_stat :: "rat \<Rightarrow> iface_stats list \<Rightarrow> nat \<Rightarrow> iface_stats \<Rightarrow> py_error + net_dev_stats" where
  "out_stat k first iface s =
     (if length first \<le> iface then Inl IndexError
      else if k = 0 then Inl ZeroDivisionError
      else let f = first ! iface in Inr \<lparr> txPackets = transmittedPackets s, txBytes = transmittedBytes s,
        rxPackets = receivedPackets s, rxBytes = receivedBytes s,
        txPacketRate = rate k (transmittedPackets s) (transmittedPackets f),
        rxPacketRate = rate k (receivedPackets s) (receivedPackets f),
        txBitRate = rate k (transmittedBytes s * 8) (transmittedBytes f * 8),
        rxBitRate = rate k (receivedBytes s * 8) (receivedBytes f * 8) \<rparr>)"

definition get_interface_statistics :: "rat \<Rightarrow> statistics \<Rightarrow> nat \<Rightarrow> py_error + net_dev_stats list" where
  "get_interface_statistics period d node = (case map_of d node of
       None \<Rightarrow> Inr []
     | Some raw \<Rightarrow>
         if length raw < NODE_STATISTICS_MEMORY then Inr []
         else if length raw \<noteq> NODE_STATISTICS_MEMORY then Inl AssertionError
         else rmap (\<lambda>(iface, s). out_stat (period * of_nat (NODE_STATISTICS_MEMORY - 1)) (hd raw) iface s)
           (enumerate 0 (last raw)))"

text \<open>The rows are set one by one on an emptied table.\<close>

definition interface_rows :: "(nat \<Rightarrow> string) \<Rightarrow> rat \<Rightarrow> statistics \<Rightarrow> nat \<Rightarrow> py_error + (string \<times> net_dev_stats) list" where
  "interface_rows find_name period d node = rbind (get_interface_statistics period d node) (\<lambda>stats.
     Inr (map (\<lambda>(i, s). (interface_name (find_name i) i, s)) (enumerate 0 stats)))"

text \<open>The samples of a node over some periods.\<close>

definition samples_of :: "nat \<Rightarrow> (nat \<times> iface_stats list) list list \<Rightarrow> iface_stats list list" where
  "samples_of i us = map snd (filter (\<lambda>(node, _). node = i) (concat us))"

definition collected :: "(nat \<times> iface_stats list) list list \<Rightarrow> statistics" where
  "collected us = fold simulation_periodic_update us []"

lemma fold_concat_lists: "fold (fold f) us d = fold f (concat us) d"
  by (induction us arbitrary: d) simp_all

lemma collect_lookup:
  "map_of (collect_node (node, s) d) i = (if i = node then Some (drop (length (dget_or [] node d) + 1 - 10) (dget_or [] node d @ [s]))
     else map_of d i)"
  by (simp add: collect_node_def update_conv' trim_window_value NODE_STATISTICS_MEMORY_def del: drop_append)

lemma collect_history:
  assumes "dget_or [] i d = drop (length xs - 10) xs" "map_of d i = None \<longleftrightarrow> xs = []"
  shows "map_of (fold collect_node ss d) i = (let ys = xs @ map snd (filter (\<lambda>(node, _). node = i) ss)
     in if ys = [] then None else Some (drop (length ys - 10) ys))"
  using assms
proof (induction ss arbitrary: d xs)
  case Nil
  then show ?case by (auto simp: dget_or_def split: option.splits)
next
  case (Cons s ss)
  obtain node x where s: "s = (node, x)" by fastforce
  show ?case
  proof (cases "node = i")
    case True
    have "drop (length (drop (length xs - 10) xs) + 1 - 10) (drop (length xs - 10) xs @ [x]) = drop (length (xs @ [x]) - 10) (xs @ [x])"
    proof (cases "length xs < 10")
      case False
      then have "Suc (length xs - 10) = length xs - 9" by arith
      with False show ?thesis by simp
    qed simp
    then have "dget_or [] i (collect_node s d) = drop (length (xs @ [x]) - 10) (xs @ [x])" "map_of (collect_node s d) i \<noteq> None"
      using Cons.prems(1) True by (simp_all add: s dget_or_def [of _ _ "collect_node _ _"] collect_lookup del: drop_append length_append)
    then show ?thesis using Cons.IH [of "collect_node s d" "xs @ [x]"] True by (simp add: s del: drop_append)
  next
    case False
    then have "dget_or [] i (collect_node s d) = drop (length xs - 10) xs" "map_of (collect_node s d) i = None \<longleftrightarrow> xs = []"
      using Cons.prems by (simp_all add: s dget_or_def collect_lookup)
    then show ?thesis using Cons.IH [of "collect_node s d" xs] False by (simp add: s)
  qed
qed

lemma collected_history:
  "map_of (collected us) i = (let xs = samples_of i us in if xs = [] then None else Some (drop (length xs - 10) xs))"
proof -
  have "collected us = fold collect_node (concat us) []"
    unfolding collected_def fold_concat_lists [symmetric] by (simp add: simulation_periodic_update_def [abs_def])
  then show ?thesis using collect_history [of i "[]" "[]" "concat us"] by (simp add: samples_of_def dget_or_def)
qed

text \<open>The rates shown for a node: nothing before its tenth sample; then for every interface the counters of the last
sample, and their growth since the sample nine periods before it, per second of those nine periods.\<close>

theorem interface_rates:
  assumes "0 < period" and "length (last (samples_of i us)) \<le> length (samples_of i us ! (length (samples_of i us) - 10))"
  shows "get_interface_statistics period (collected us) i =
    (let xs = samples_of i us; first = xs ! (length xs - 10); now = last xs
     in if length xs < 10 then Inr []
        else Inr (map (\<lambda>j. \<lparr> txPackets = transmittedPackets (now ! j), txBytes = transmittedBytes (now ! j),
            rxPackets = receivedPackets (now ! j), rxBytes = receivedBytes (now ! j),
            txPacketRate = rate (9 * period) (transmittedPackets (now ! j)) (transmittedPackets (first ! j)),
            rxPacketRate = rate (9 * period) (receivedPackets (now ! j)) (receivedPackets (first ! j)),
            txBitRate = rate (9 * period) (transmittedBytes (now ! j) * 8) (transmittedBytes (first ! j) * 8),
            rxBitRate = rate (9 * period) (receivedBytes (now ! j) * 8) (receivedBytes (first ! j) * 8) \<rparr>) [0..<length now]))"
proof (cases "length (samples_of i us) < 10")
  case True
  then show ?thesis
    by (simp add: get_interface_statistics_def collected_history Let_def NODE_STATISTICS_MEMORY_def split: option.split)
next
  case False
  let ?xs = "samples_of i us"
  let ?raw = "drop (length ?xs - 10) ?xs" and ?first = "?xs ! (length ?xs - 10)" and ?now = "last ?xs"
  have raw: "length ?raw = 10" "hd ?raw = ?first" "last ?raw = ?now" "?xs \<noteq> []"
    using False by (auto simp: hd_drop_conv_nth last_drop)
  have "enumerate 0 ?now = map (\<lambda>j. (j, ?now ! j)) [0..<length ?now]" by (auto intro: nth_equalityI simp: nth_enumerate_eq)
  then have "rmap (\<lambda>(iface, s). out_stat (period * 9) ?first iface s) (enumerate 0 ?now)
      = rmap (\<lambda>j. out_stat (period * 9) ?first j (?now ! j)) [0..<length ?now]" by (simp add: rmap_map)
  also have "\<dots> = Inr (map (\<lambda>j. \<lparr> txPackets = transmittedPackets (?now ! j), txBytes = transmittedBytes (?now ! j),
            rxPackets = receivedPackets (?now ! j), rxBytes = receivedBytes (?now ! j),
            txPacketRate = rate (9 * period) (transmittedPackets (?now ! j)) (transmittedPackets (?first ! j)),
            rxPacketRate = rate (9 * period) (receivedPackets (?now ! j)) (receivedPackets (?first ! j)),
            txBitRate = rate (9 * period) (transmittedBytes (?now ! j) * 8) (transmittedBytes (?first ! j) * 8),
            rxBitRate = rate (9 * period) (receivedBytes (?now ! j) * 8) (receivedBytes (?first ! j) * 8) \<rparr>) [0..<length ?now])"
    using assms by (intro rmap_total) (simp add: out_stat_def Let_def mult.commute)
  finally show ?thesis using False raw
    by (simp add: get_interface_statistics_def collected_history Let_def NODE_STATISTICS_MEMORY_def)
qed

definition ten_samples :: "(nat \<times> iface_stats list) list list" where
  "ten_samples = map (\<lambda>n. [(0, [\<lparr> transmittedPackets = n, transmittedBytes = 100 * n, receivedPackets = 0, receivedBytes = 0 \<rparr>])]) [0..<12]"

theorem interface_rates_witness:
  "map_option (map txPacketRate) (case get_interface_statistics (1 / 10) (collected ten_samples) 0 of Inl _ \<Rightarrow> None | Inr s \<Rightarrow> Some s) = Some [10]"
proof -
  have s: "samples_of 0 ten_samples
      = map (\<lambda>n. [\<lparr> transmittedPackets = n, transmittedBytes = 100 * n, receivedPackets = 0, receivedBytes = 0 \<rparr>]) [0..<12]"
    by (simp add: samples_of_def ten_samples_def upt_rec)
  show ?thesis
    using interface_rates [of "1 / 10" 0 ten_samples, unfolded s] by (simp add: Let_def last_map rate_def)
qed

section \<open>Routing tables\<close>

record route =
  dest :: string
  gateway :: string
  route_interface :: nat

datatype routing = Static_Routing "route list" | Global_Routing "route list" | List_Routing "(routing \<times> int) list" | Other_Routing

text \<open>A global routing protocol counts only in a list, and a list in a list does not.\<close>

fun listed_protocol :: "routing \<times> int \<Rightarrow> (route list \<times> string \<times> int) list" where
  "listed_protocol (Static_Routing rs, prio) = [(rs, ''static'', prio)]"
| "listed_protocol (Global_Routing rs, prio) = [(rs, ''global'', prio)]"
| "listed_protocol (_, prio) = []"

fun routing_protocols :: "routing \<Rightarrow> (route list \<times> string \<times> int) list" where
  "routing_protocols (Static_Routing rs) = [(rs, ''static'', 0)]"
| "routing_protocols (List_Routing ps) = concat (map listed_protocol ps)"
| "routing_protocols _ = []"

type_synonym ipv4_row = "string \<times> string \<times> string \<times> string \<times> int"

definition ipv4_row :: "(nat \<Rightarrow> string option) \<Rightarrow> string \<Rightarrow> int \<Rightarrow> route \<Rightarrow> ipv4_row" where
  "ipv4_row names kind prio r = (dest r, gateway r, route_interface_name names (route_interface r), kind, prio)"

text \<open>A node without IPv4 raises; without a protocol that is shown the table stays as it was.\<close>

definition update_ipv4_table :: "(nat \<Rightarrow> string option) \<Rightarrow> routing option option \<Rightarrow> (ipv4_row list, unit) proc" where
  "update_ipv4_table names ipv4 = (case ipv4 of
       None \<Rightarrow> fail AttributeError
     | Some None \<Rightarrow> ret ()
     | Some (Some r) \<Rightarrow> if routing_protocols r = [] then ret ()
         else seq (modify (\<lambda>_. []))
           (sfor (\<lambda>(rs, kind, prio). sfor (\<lambda>r. modify (\<lambda>rows. rows @ [ipv4_row names kind prio r])) rs) (routing_protocols r)))"

record olsr_route =
  dest_addr :: string
  next_addr :: string
  olsr_interface :: nat
  distance :: nat

type_synonym olsr_row = "string \<times> string \<times> string \<times> nat"

definition olsr_row :: "(nat \<Rightarrow> string option) \<Rightarrow> olsr_route \<Rightarrow> olsr_row" where
  "olsr_row names r = (dest_addr r, next_addr r, route_interface_name names (olsr_interface r), distance r)"

text \<open>Without IPv4 the row of the first route is made, and its name cannot be found.\<close>

definition update_olsr_table :: "(nat \<Rightarrow> string option) option \<Rightarrow> olsr_route list option \<Rightarrow> (olsr_row list, unit) proc" where
  "update_olsr_table ipv4 olsr = (case olsr of
       None \<Rightarrow> ret ()
     | Some routes \<Rightarrow> seq (modify (\<lambda>_. [])) (sfor (\<lambda>r. case ipv4 of
           None \<Rightarrow> fail AttributeError
         | Some names \<Rightarrow> modify (\<lambda>rows. rows @ [olsr_row names r])) routes))"

lemma append_rows: "sfor (\<lambda>r. modify (\<lambda>rows. rows @ [f r])) rs rows = (Inr (), rows @ map f rs)"
  by (induction rs arbitrary: rows) simp_all

lemma ipv4_table_rows:
  assumes "routing_protocols r \<noteq> []"
  shows "update_ipv4_table names (Some (Some r)) rows =
    (Inr (), concat (map (\<lambda>(rs, kind, prio). map (ipv4_row names kind prio) rs) (routing_protocols r)))"
proof -
  have "sfor (\<lambda>(rs, kind, prio). sfor (\<lambda>r. modify (\<lambda>rows. rows @ [ipv4_row names kind prio r])) rs) ps rows
      = (Inr (), rows @ concat (map (\<lambda>(rs, kind, prio). map (ipv4_row names kind prio) rs) ps))" for ps rows
    by (induction ps arbitrary: rows) (auto simp: append_rows sbind_ret [of "sfor _ _", OF append_rows])
  then show ?thesis using assms by (simp add: update_ipv4_table_def)
qed

lemma olsr_table_rows: "update_olsr_table (Some names) (Some routes) rows = (Inr (), map (olsr_row names) routes)"
  by (simp add: update_olsr_table_def append_rows)

section \<open>Last packets\<close>

record packet_sample =
  packet_time :: rat
  packet_device :: "(string \<times> nat) option"
  packet_size :: nat
  packet_contents :: string

text \<open>A device has the name found for it and its number.\<close>

definition packet_row :: "packet_sample \<Rightarrow> rat \<times> string \<times> nat \<times> string" where
  "packet_row s = (packet_time s, (case packet_device s of None \<Rightarrow> ''(unknown)'' | Some (found, i) \<Rightarrow> interface_name found i),
     packet_size s, packet_contents s)"

definition update_packet_list :: "packet_sample list \<Rightarrow> ((rat \<times> string \<times> nat \<times> string) list, unit) proc" where
  "update_packet_list samples = seq (modify (\<lambda>_. [])) (sfor (\<lambda>s. modify (\<lambda>rows. rows @ [packet_row s])) samples)"

lemma packet_list_rows: "update_packet_list samples rows = (Inr (), map packet_row samples)"
  by (simp add: update_packet_list_def append_rows)

text \<open>The registered types of the simulator are numbers; a type has a parent or not. The search goes up until it finds a header
or trailer; it ends where parents come to an end.\<close>

partial_function (option) type_is_good :: "(nat \<Rightarrow> nat option) \<Rightarrow> nat set \<Rightarrow> nat \<Rightarrow> bool option" where
  "type_is_good parent tops t = (if t \<in> tops then Some True
     else case parent t of None \<Rightarrow> Some False | Some p \<Rightarrow> type_is_good parent tops p)"

record type_id_config =
  type_name :: string
  type_selected :: bool
  typeid :: nat

fun packet_types :: "(nat \<Rightarrow> nat option) \<Rightarrow> nat set \<Rightarrow> (nat \<Rightarrow> string) \<Rightarrow> nat list \<Rightarrow> type_id_config list option" where
  "packet_types parent tops names [] = Some []"
| "packet_types parent tops names (t # ts) = Option.bind (type_is_good parent tops t) (\<lambda>good.
     Option.bind (packet_types parent tops names ts) (\<lambda>cs.
       Some (if good \<and> t \<notin> tops then \<lparr> type_name = names t, type_selected = True, typeid = t \<rparr> # cs else cs)))"

text \<open>The types below a header or trailer.\<close>

definition parent_rel :: "(nat \<Rightarrow> nat option) \<Rightarrow> (nat \<times> nat) set" where
  "parent_rel parent = {(t, p). parent t = Some p}"

lemma type_is_good_iff:
  assumes "\<And>t p. parent t = Some p \<Longrightarrow> height p < (height t :: nat)"
  shows "type_is_good parent tops t = Some (\<exists>p \<in> tops. (t, p) \<in> (parent_rel parent)\<^sup>*)"
proof (induction "height t" arbitrary: t rule: less_induct)
  case less
  show ?case
  proof (cases "t \<in> tops")
    case True
    then show ?thesis by (subst type_is_good.simps) auto
  next
    case False
    have up: "(t, q) \<in> (parent_rel parent)\<^sup>* \<longleftrightarrow> q = t \<or> (\<exists>p. parent t = Some p \<and> (p, q) \<in> (parent_rel parent)\<^sup>*)" for q
    proof
      assume "(t, q) \<in> (parent_rel parent)\<^sup>*"
      then show "q = t \<or> (\<exists>p. parent t = Some p \<and> (p, q) \<in> (parent_rel parent)\<^sup>*)"
        by (cases rule: converse_rtranclE) (auto simp: parent_rel_def)
    qed (auto simp: parent_rel_def intro: converse_rtrancl_into_rtrancl)
    show ?thesis
    proof (cases "parent t")
      case None
      then show ?thesis using False up by (subst type_is_good.simps) auto
    next
      case (Some p)
      then have "type_is_good parent tops p = Some (\<exists>q \<in> tops. (p, q) \<in> (parent_rel parent)\<^sup>*)" using less assms by blast
      then show ?thesis using False Some up by (subst type_is_good.simps) auto
    qed
  qed
qed

text \<open>When the parents of every type come to an end, the search for packet types ends; the filter offers exactly the
registered types below a header or a trailer, but not these themselves, in order and all selected.\<close>

theorem packet_types_complete:
  assumes "\<And>t p. parent t = Some p \<Longrightarrow> height p < (height t :: nat)"
  shows "packet_types parent tops names ts = Some (map (\<lambda>t. \<lparr> type_name = names t, type_selected = True, typeid = t \<rparr>)
    (filter (\<lambda>t. t \<notin> tops \<and> (\<exists>p \<in> tops. (t, p) \<in> (parent_rel parent)\<^sup>*)) ts))"
  by (induction ts) (simp_all add: type_is_good_iff [of parent height, OF assms])

theorem packet_types_complete_witness:
  "packet_types (\<lambda>t. if t = 0 then None else Some (t div 2)) {1} (\<lambda>_. []) [0, 1, 2]
     = Some [\<lparr> type_name = [], type_selected = True, typeid = 2 \<rparr>]"
proof -
  let ?parent = "\<lambda>t. if t = 0 then None else Some (t div 2) :: nat option"
  have "(0, 1) \<notin> (parent_rel ?parent)\<^sup>*"
  proof
    assume "(0, 1) \<in> (parent_rel ?parent)\<^sup>*"
    then show False by (cases rule: converse_rtranclE) (simp_all add: parent_rel_def)
  qed
  moreover have "(2, 1) \<in> (parent_rel ?parent)\<^sup>*" by (rule r_into_rtrancl) (simp add: parent_rel_def)
  moreover have "packet_types ?parent {1} (\<lambda>_. []) [0, 1, 2] = Some (map (\<lambda>t. \<lparr> type_name = [], type_selected = True, typeid = t \<rparr>)
    (filter (\<lambda>t. t \<notin> {1} \<and> (\<exists>p \<in> {1}. (t, p) \<in> (parent_rel ?parent)\<^sup>*)) [0, 1, 2]))"
    by (rule packet_types_complete [of _ id]) (auto split: if_splits)
  ultimately show ?thesis by simp
qed

section \<open>The capture filter\<close>

text \<open>The filter of the window: its types, the button AND, the options object that the window keeps, and the options that
the simulator was given last. The tool kit sets the tick of an edited cell before it calls the handler,
and the button before \<open>toggled\<close>.\<close>

datatype capture_mode = Headers_And | Headers_Or

record capture_options =
  capture_mode :: "capture_mode option"
  num_last_packets :: nat
  headers :: "nat list"

record filter_world = view_world +
  packet_filter_list :: "type_id_config list"
  op_AND_active :: bool
  packet_capture_options :: capture_options
  sim_capture_options :: "capture_options option"

type_synonym ('z, 'a) filter_proc = "('z filter_world_scheme, 'a) proc"

definition update_capture_options :: "('z, unit) filter_proc" where
  "update_capture_options = seq (modify (\<lambda>w. w\<lparr>packet_capture_options :=
       \<lparr> capture_mode = Some (if op_AND_active w then Headers_And else Headers_Or), num_last_packets = 100,
         headers = map typeid (filter type_selected (packet_filter_list w)) \<rparr>\<rparr>))
     (with_lock (modify (\<lambda>w. w\<lparr>sim_capture_options := Some (packet_capture_options w)\<rparr>)))"

definition select_all :: "bool \<Rightarrow> ('z, unit) filter_proc" where
  "select_all b = modify (\<lambda>w. w\<lparr>packet_filter_list := map (\<lambda>c. c\<lparr>type_selected := b\<rparr>) (packet_filter_list w)\<rparr>)"

definition sel_all_cb :: "('z, unit) filter_proc" where "sel_all_cb = seq (select_all True) update_capture_options"
definition sel_none_cb :: "('z, unit) filter_proc" where "sel_none_cb = seq (select_all False) update_capture_options"

definition cell_edited :: "nat \<Rightarrow> bool \<Rightarrow> ('z, unit) filter_proc" where
  "cell_edited i b = seq (modify (\<lambda>w. w\<lparr>packet_filter_list :=
       (packet_filter_list w)[i := (packet_filter_list w ! i)\<lparr>type_selected := b\<rparr>]\<rparr>)) update_capture_options"

definition and_toggled :: "bool \<Rightarrow> ('z, unit) filter_proc" where
  "and_toggled b = seq (modify (\<lambda>w. w\<lparr>op_AND_active := b\<rparr>)) update_capture_options"

datatype filter_event = Sel_All | Sel_None | Cell nat bool | And_Button bool

definition filter_handler :: "filter_event \<Rightarrow> ('z, unit) filter_proc" where
  "filter_handler e = (case e of Sel_All \<Rightarrow> sel_all_cb | Sel_None \<Rightarrow> sel_none_cb | Cell i b \<Rightarrow> cell_edited i b
     | And_Button b \<Rightarrow> and_toggled b)"

definition run_filter :: "filter_event list \<Rightarrow> ('z, unit) filter_proc" where
  "run_filter es = sfor filter_handler es"

definition capture_agrees :: "'z filter_world_scheme \<Rightarrow> bool" where
  "capture_agrees w \<longleftrightarrow> \<not> locked w \<and> sim_capture_options w = Some
     \<lparr> capture_mode = Some (if op_AND_active w then Headers_And else Headers_Or), num_last_packets = 100,
       headers = map typeid (filter type_selected (packet_filter_list w)) \<rparr>"

lemma update_capture_run:
  fixes w :: "'z filter_world_scheme"
  assumes "\<not> locked w"
  shows "fst (update_capture_options w) = Inr ()" "capture_agrees (snd (update_capture_options w))"
    "packet_filter_list (snd (update_capture_options w)) = packet_filter_list w"
    "op_AND_active (snd (update_capture_options w)) = op_AND_active w"
  using assms by (simp_all add: update_capture_options_def with_lock_def lock_acquire_def lock_release_def finally_do_def sbind_assoc
      capture_agrees_def)

lemma ticked_types: "map typeid (cs[i := (cs ! i)\<lparr>type_selected := b\<rparr>]) = map typeid cs"
proof (cases "i < length cs")
  case True
  then show ?thesis by (intro nth_equalityI) (auto simp: nth_list_update)
qed (simp add: list_update_beyond)

definition filter_edit :: "filter_event \<Rightarrow> 'z filter_world_scheme \<Rightarrow> 'z filter_world_scheme" where
  "filter_edit e w = (case e of
       Sel_All \<Rightarrow> w\<lparr>packet_filter_list := map (\<lambda>c. c\<lparr>type_selected := True\<rparr>) (packet_filter_list w)\<rparr>
     | Sel_None \<Rightarrow> w\<lparr>packet_filter_list := map (\<lambda>c. c\<lparr>type_selected := False\<rparr>) (packet_filter_list w)\<rparr>
     | Cell i b \<Rightarrow> w\<lparr>packet_filter_list := (packet_filter_list w)[i := (packet_filter_list w ! i)\<lparr>type_selected := b\<rparr>]\<rparr>
     | And_Button b \<Rightarrow> w\<lparr>op_AND_active := b\<rparr>)"

lemma filter_handler_edits:
  fixes w :: "'z filter_world_scheme"
  shows "filter_handler e w = update_capture_options (filter_edit e w)"
    "locked (filter_edit e w) = locked w" "map typeid (packet_filter_list (filter_edit e w)) = map typeid (packet_filter_list w)"
  by (cases e; simp add: filter_edit_def filter_handler_def sel_all_cb_def sel_none_cb_def select_all_def cell_edited_def
      and_toggled_def ticked_types comp_def)+

lemma filter_handler_run:
  fixes w :: "'z filter_world_scheme"
  assumes "\<not> locked w"
  shows "fst (filter_handler e w) = Inr ()" "capture_agrees (snd (filter_handler e w))"
    "map typeid (packet_filter_list (snd (filter_handler e w))) = map typeid (packet_filter_list w)"
proof -
  have "\<not> locked (filter_edit e w)" using assms filter_handler_edits(2) [of e w] by simp
  from update_capture_run [OF this] show "fst (filter_handler e w) = Inr ()" "capture_agrees (snd (filter_handler e w))"
    "map typeid (packet_filter_list (snd (filter_handler e w))) = map typeid (packet_filter_list w)"
    unfolding filter_handler_edits(1) by (simp_all only: filter_handler_edits(3))
qed

text \<open>Once the window has given its options to the simulator, these agree with what the window shows after
every sequence of clicks: the mode of the buttons and exactly the ticked types, in order; the types offered stay the
same, and the lock is free.\<close>

theorem capture_follows_filter:
  fixes w :: "'z filter_world_scheme"
  assumes "capture_agrees w"
  shows "\<exists>v. run_filter es w = (Inr (), v) \<and> capture_agrees v \<and> map typeid (packet_filter_list v) = map typeid (packet_filter_list w)"
  using assms
proof (induction es arbitrary: w)
  case (Cons e es)
  let ?u = "snd (filter_handler e w)"
  have l: "\<not> locked w" using Cons.prems by (simp add: capture_agrees_def)
  obtain v where v: "run_filter es ?u = (Inr (), v)" "capture_agrees v"
    "map typeid (packet_filter_list v) = map typeid (packet_filter_list ?u)"
    using Cons.IH [OF filter_handler_run(2) [OF l]] by blast
  have "filter_handler e w = (Inr (), ?u)" using filter_handler_run(1) [OF l, of e] by (cases "filter_handler e w") simp
  then have "run_filter (e # es) w = (Inr (), v)" using v(1) by (simp add: run_filter_def sbind_ret [of "filter_handler _"])
  then show ?case using v(2,3) filter_handler_run(3) [OF l, of e] by auto
qed (simp add: run_filter_def)

definition filter_start :: filter_world where
  "filter_start = view_world.extend (view_start sample_network)
     \<lparr> packet_filter_list = map (\<lambda>i. \<lparr> type_name = [], type_selected = True, typeid = i \<rparr>) [4, 7], op_AND_active = False,
       packet_capture_options = \<lparr> capture_mode = Some Headers_Or, num_last_packets = 100, headers = [4, 7] \<rparr>,
       sim_capture_options = Some \<lparr> capture_mode = Some Headers_Or, num_last_packets = 100, headers = [4, 7] \<rparr> \<rparr>"

lemma filter_start_agrees: "capture_agrees filter_start"
  by (simp add: capture_agrees_def filter_start_def view_start_def view_world.extend_def arrow_world.extend_def arrow_start_def)

theorem capture_follows_filter_witness:
  "\<exists>v. run_filter [Cell 0 False, And_Button True] filter_start = (Inr (), v) \<and> capture_agrees v
     \<and> map typeid (packet_filter_list v) = [4, 7]"
  using capture_follows_filter [OF filter_start_agrees, of "[Cell 0 False, And_Button True]"]
  by (simp add: filter_start_def view_world.extend_def)

end
