(* ===== verification/Viz_Wifi.thy ===== *)
theory Viz_Wifi
  imports Viz_Scene
begin

text \<open>
  \<^verbatim>\<open>src/visualizer/visualizer/plugins/wifi_intrastructure_link.py\<close>: the links between the stations
  of infrastructure networks and their access points. A link is its place in the list of all links
  made; \<open>Node.links\<close> has wired links, which \<^verbatim>\<open>Viz_Scene\<close> keeps, and wifi links, which are kept here
  under the node. The simulation gives the wifi devices of each node, whether a device is up, and the
  BSSID it is associated with, as it is printed.
\<close>

section \<open>The world\<close>

datatype mac = Sta_Mac | Ap_Mac | Other_Mac

record air_device =
  is_wifi :: bool
  dev_mac :: mac
  dev_address :: string

record wifi_link =
  sta :: "nat option"
  ap :: "nat option"
  wifi_shown :: bool
  wifi_line :: "(point \<times> point) option"

text \<open>A station: its device (the node and the number of the device there), the node and the link.\<close>

record wifi_world = scene +
  air :: "nat \<Rightarrow> air_device list"
  link_up :: "nat \<times> nat \<Rightarrow> bool"
  bssid_of :: "nat \<times> nat \<Rightarrow> string"
  wifi_links :: "wifi_link list"
  wifi_registered :: "nat \<Rightarrow> nat list"
  access_points :: "(string, nat) dict"
  stations :: "((nat \<times> nat) \<times> nat \<times> nat) list"

type_synonym ('z, 'a) wifi = "('z wifi_world_scheme, 'a) proc"

section \<open>WifiLink\<close>

definition the_link :: "nat \<Rightarrow> ('z, wifi_link) wifi" where
  "the_link k = gets (\<lambda>w. wifi_links w ! k)"

definition upd_link :: "nat \<Rightarrow> (wifi_link \<Rightarrow> wifi_link) \<Rightarrow> ('z, unit) wifi" where
  "upd_link k f = modify (\<lambda>w. w\<lparr>wifi_links := (wifi_links w)[k := f (wifi_links w ! k)]\<rparr>)"

text \<open>\<open>add_link\<close> and \<open>remove_link\<close> of a node for wifi links.\<close>

definition wifi_add_link :: "nat \<Rightarrow> nat \<Rightarrow> ('z, unit) wifi" where
  "wifi_add_link a k = modify (\<lambda>w. w\<lparr>wifi_registered := (wifi_registered w)(a := wifi_registered w a @ [k])\<rparr>)"

definition wifi_remove_link :: "nat \<Rightarrow> nat \<Rightarrow> ('z, unit) wifi" where
  "wifi_remove_link a k = sbind (gets (\<lambda>w. wifi_registered w a)) (\<lambda>ks.
     if k \<in> set ks then modify (\<lambda>w. w\<lparr>wifi_registered := (wifi_registered w)(a := remove1 k ks)\<rparr>) else fail ValueError)"

definition wifi_update_points :: "nat \<Rightarrow> ('z, unit) wifi" where
  "wifi_update_points k = sbind (the_link k) (\<lambda>l. case ap l of
       None \<Rightarrow> ret ()
     | Some a \<Rightarrow> (case sta l of
         None \<Rightarrow> fail AttributeError
       | Some s \<Rightarrow> sbind (end_position (Node_End s)) (\<lambda>p. sbind (end_position (Node_End a)) (\<lambda>q.
           upd_link k (\<lambda>l. l\<lparr>wifi_line := Some (p, q)\<rparr>)))))"

definition set_ap :: "nat \<Rightarrow> nat option \<Rightarrow> ('z, unit) wifi" where
  "set_ap k a = sbind (the_link k) (\<lambda>l.
     if a = ap l then ret ()
     else seq (case ap l of None \<Rightarrow> ret () | Some old \<Rightarrow> wifi_remove_link old k)
         (seq (upd_link k (\<lambda>l. l\<lparr>ap := a\<rparr>))
         (seq (case a of
             None \<Rightarrow> upd_link k (\<lambda>l. l\<lparr>wifi_shown := False\<rparr>)
           | Some new \<Rightarrow> seq (wifi_add_link new k) (upd_link k (\<lambda>l. l\<lparr>wifi_shown := True\<rparr>)))
           (wifi_update_points k))))"

text \<open>The call \<open>set_ap(None)\<close> at the end of \<open>__init__\<close> finds None already set and does not hide the new link.\<close>

definition new_wifi_link :: "nat \<Rightarrow> ('z, nat) wifi" where
  "new_wifi_link i = sbind (gets (\<lambda>w. length (wifi_links w))) (\<lambda>k.
     seq (modify (\<lambda>w. w\<lparr>wifi_links := wifi_links w @ [\<lparr> sta = Some i, ap = None, wifi_shown = True, wifi_line = None \<rparr>]\<rparr>))
    (seq (set_ap k None) (ret k)))"

text \<open>\<open>destroy\<close> removes the canvas item and forgets the ends, but stays registered at the access point.\<close>

definition destroy_link :: "nat \<Rightarrow> ('z, unit) wifi" where
  "destroy_link k = upd_link k (\<lambda>l. l\<lparr>sta := None, ap := None, wifi_shown := False, wifi_line := None\<rparr>)"

section \<open>WifiLinkMonitor\<close>

definition scan_wifi_device :: "nat \<Rightarrow> nat \<Rightarrow> air_device \<Rightarrow> ('z, unit) wifi" where
  "scan_wifi_device i j d =
     (if \<not> is_wifi d then ret ()
      else (case dev_mac d of
          Sta_Mac \<Rightarrow> sbind (new_wifi_link i) (\<lambda>k. modify (\<lambda>w. w\<lparr>stations := stations w @ [((i, j), i, k)]\<rparr>))
        | Ap_Mac \<Rightarrow> modify (\<lambda>w. w\<lparr>access_points := AList.update (dev_address d) i (access_points w)\<rparr>)
        | Other_Mac \<Rightarrow> ret ()))"

definition scan_wifi_node :: "nat \<Rightarrow> ('z, unit) wifi" where
  "scan_wifi_node i = sbind (sim_node i) (\<lambda>_. sbind (gets (\<lambda>w. air w i)) (\<lambda>ds.
     sfor (\<lambda>(j, d). scan_wifi_device i j d) (enumerate 0 ds)))"

definition scan_wifi :: "('z, unit) wifi" where
  "scan_wifi = sbind (gets stations) (\<lambda>old.
     seq (sfor (\<lambda>(dev, node, k). destroy_link k) old)
    (seq (modify (\<lambda>w. w\<lparr>access_points := [], stations := []\<rparr>))
    (sbind (gets (\<lambda>w. dkeys (nodes w))) (sfor scan_wifi_node))))"

definition no_bssid :: string where "no_bssid = ''00:00:00:00:00:00''"

definition update_station :: "(nat \<times> nat) \<times> nat \<times> nat \<Rightarrow> ('z, unit) wifi" where
  "update_station s = (case s of (dev, node, k) \<Rightarrow> sbind (gets (\<lambda>w. link_up w dev)) (\<lambda>up.
     if \<not> up then set_ap k None
     else sbind (gets (\<lambda>w. bssid_of w dev)) (\<lambda>bssid.
       if bssid = no_bssid then set_ap k None
       else sbind (gets (\<lambda>w. map_of (access_points w) bssid)) (\<lambda>a.
         sbind (need a) (\<lambda>a. set_ap k (Some a))))))"

definition wifi_periodic_update :: "('z, unit) wifi" where
  "wifi_periodic_update = sbind (gets stations) (sfor update_station)"

definition wifi_update_view :: "('z, unit) wifi" where
  "wifi_update_view = sbind (gets stations) (sfor (\<lambda>(dev, node, k). wifi_update_points k))"

section \<open>Links and their registration\<close>

definition link_ids :: "'z wifi_world_scheme \<Rightarrow> nat list" where
  "link_ids w = map (\<lambda>(dev, node, k). k) (stations w)"

text \<open>A live link has its station, and is registered once at its access point and nowhere else; both are on the
canvas.\<close>

definition live_ok :: "'z wifi_world_scheme \<Rightarrow> nat \<Rightarrow> nat \<Rightarrow> bool" where
  "live_ok w node k \<longleftrightarrow> k < length (wifi_links w) \<and> sta (wifi_links w ! k) = Some node \<and> has_key (nodes w) node
     \<and> (\<forall>a. count_list (wifi_registered w a) k = (if ap (wifi_links w ! k) = Some a then 1 else 0))
     \<and> (\<forall>a. ap (wifi_links w ! k) = Some a \<longrightarrow> has_key (nodes w) a)"

definition wifi_ok :: "'z wifi_world_scheme \<Rightarrow> bool" where
  "wifi_ok w \<longleftrightarrow> distinct (link_ids w) \<and> (\<forall>(dev, node, k) \<in> set (stations w). live_ok w node k)
     \<and> (\<forall>b a. map_of (access_points w) b = Some a \<longrightarrow> has_key (nodes w) a)
     \<and> (\<forall>a. \<forall>k \<in> set (wifi_registered w a). k < length (wifi_links w))"

text \<open>A change to one link and its registration.\<close>

definition relinked :: "nat \<Rightarrow> 'z wifi_world_scheme \<Rightarrow> 'z wifi_world_scheme \<Rightarrow> bool" where
  "relinked k w v \<longleftrightarrow> (\<exists>l r. v = w\<lparr>wifi_links := (wifi_links w)[k := l], wifi_registered := r\<rparr>
     \<and> (\<forall>a j. j \<noteq> k \<longrightarrow> count_list (r a) j = count_list (wifi_registered w a) j))"

lemma relinked_fields:
  assumes "relinked k w v"
  shows "nodes v = nodes w" "stations v = stations w" "access_points v = access_points w" "link_up v = link_up w"
    "bssid_of v = bssid_of w" "length (wifi_links v) = length (wifi_links w)"
    "\<And>j. j \<noteq> k \<Longrightarrow> wifi_links v ! j = wifi_links w ! j"
    "\<And>a j. j \<noteq> k \<Longrightarrow> count_list (wifi_registered v a) j = count_list (wifi_registered w a) j" "links v = links w"
    "channels v = channels w"
  using assms unfolding relinked_def by auto

lemma place_of_key: "has_key (nodes w) i \<Longrightarrow> end_position (Node_End i) w = (Inr (the (end_at w (Node_End i))), w)"
  by (auto simp: end_position_def sbind_the_node end_at_def)

lemma count_remove1: "x \<in> set xs \<Longrightarrow> count_list (remove1 x xs) y = (if y = x then count_list xs y - 1 else count_list xs y)"
proof (induction xs)
  case (Cons z xs)
  then show ?case by (auto simp: count_list_0_iff [symmetric] dest: count_notin)
qed simp

text \<open>What a live link looks like after \<open>set_ap\<close>: unchanged when it had the access point, else joined to the new one.\<close>

definition joined :: "'z wifi_world_scheme \<Rightarrow> nat option \<Rightarrow> wifi_link \<Rightarrow> wifi_link" where
  "joined w a l = (if a = ap l then l else l\<lparr>ap := a, wifi_shown := a \<noteq> None,
     wifi_line := (case a of None \<Rightarrow> wifi_line l
       | Some i \<Rightarrow> Some (the (end_at w (Node_End (the (sta l)))), the (end_at w (Node_End i))))\<rparr>)"

lemma set_ap_ok:
  fixes w :: "'z wifi_world_scheme"
  assumes live: "live_ok w node k" and a: "\<And>i. a = Some i \<Longrightarrow> has_key (nodes w) i"
  obtains v where "set_ap k a w = (Inr (), v)" "relinked k w v" "live_ok v node k"
    "wifi_links v ! k = joined w a (wifi_links w ! k)"
proof (cases "a = ap (wifi_links w ! k)")
  case True
  have "relinked k w w" unfolding relinked_def
    by (rule exI [of _ "wifi_links w ! k"], rule exI [of _ "wifi_registered w"]) simp
  then show thesis using live True by (intro that [of w]) (simp_all add: set_ap_def the_link_def joined_def)
next
  case False
  let ?l = "wifi_links w ! k"
  have k: "k < length (wifi_links w)" "sta ?l = Some node" "has_key (nodes w) node" using live by (simp_all add: live_ok_def)
  have cnt: "count_list (wifi_registered w b) k = (if ap ?l = Some b then 1 else 0)" for b using live by (simp add: live_ok_def)
  define r where "r = (case ap ?l of None \<Rightarrow> wifi_registered w
     | Some b \<Rightarrow> (wifi_registered w)(b := remove1 k (wifi_registered w b)))"
  have mem: "k \<in> set (wifi_registered w b)" if "ap ?l = Some b" for b
    using cnt [of b] that count_list_0_iff [of "wifi_registered w b" k] by auto
  let ?u = "w\<lparr>wifi_registered := r\<rparr>"
  have rm: "(case ap ?l of None \<Rightarrow> ret () | Some old \<Rightarrow> wifi_remove_link old k) w = (Inr (), ?u)"
  proof (cases "ap ?l")
    case (Some b)
    then show ?thesis using mem [OF Some] by (simp add: wifi_remove_link_def r_def)
  qed (simp add: r_def)
  have r: "count_list (r b) j = (if j = k then 0 else count_list (wifi_registered w b) j)" for b j
  proof (cases "ap ?l")
    case None
    then show ?thesis using cnt [of b] by (simp add: r_def)
  next
    case (Some c)
    then show ?thesis using cnt [of b] mem [OF Some] by (cases "b = c") (simp_all add: r_def count_remove1)
  qed
  define v where "v = w\<lparr>wifi_links := (wifi_links w)[k := joined w a ?l],
    wifi_registered := (case a of None \<Rightarrow> r | Some i \<Rightarrow> r(i := r i @ [k]))\<rparr>"
  have same: "end_at v' e = end_at w e" if "nodes v' = nodes w" "channels v' = channels w" for v' :: "'z wifi_world_scheme" and e
    using that by (simp add: end_at_def split: end_point.split)
  have run: "set_ap k a w = (Inr (), v)"
  proof (cases a)
    case None
    then show ?thesis using False k(1)
      by (simp add: set_ap_def the_link_def sbind_ret [of "case_option _ _ _", OF rm] upd_link_def wifi_update_points_def v_def
          joined_def)
  next
    case (Some i)
    have pos: "end_position (Node_End j) v' = (Inr (the (end_at w (Node_End j))), v')"
      if "has_key (nodes w) j" "nodes v' = nodes w" "channels v' = channels w" for v' :: "'z wifi_world_scheme" and j
      using place_of_key [of v' j] that same [OF that(2,3)] by simp
    show ?thesis using False k a [OF Some] Some
      by (simp add: sbind_assoc set_ap_def the_link_def sbind_ret [of "case_option _ _ _", OF rm] upd_link_def wifi_add_link_def
          wifi_update_points_def sbind_ret [OF pos] v_def joined_def)
  qed
  have "relinked k w v" unfolding relinked_def v_def
    by (rule exI [of _ "joined w a ?l"], rule exI [of _ "case a of None \<Rightarrow> r | Some i \<Rightarrow> r(i := r i @ [k])"])
       (auto simp: r split: option.split)
  moreover have "live_ok v node k"
    using k a r by (auto simp: live_ok_def v_def joined_def split: option.splits)
  ultimately show thesis using run k(1) by (intro that [of v]) (simp_all add: v_def)
qed

section \<open>A scan\<close>

text \<open>A scan forgets the old links; it keeps the invariant, whatever a device is, and whether it ends or not.\<close>

definition scanned_in :: "(nat, node_view) dict \<Rightarrow> 'z wifi_world_scheme \<Rightarrow> bool" where
  "scanned_in N w \<longleftrightarrow> wifi_ok w \<and> nodes w = N"

lemma new_link_run:
  "new_wifi_link i w = (Inr (length (wifi_links w)),
     w\<lparr>wifi_links := wifi_links w @ [\<lparr> sta = Some i, ap = None, wifi_shown = True, wifi_line = None \<rparr>]\<rparr>)"
  by (simp add: sbind_assoc new_wifi_link_def set_ap_def the_link_def)

lemma live_ok_later:
  fixes w v :: "'z wifi_world_scheme"
  assumes "live_ok w n k" "nodes v = nodes w" "wifi_registered v = wifi_registered w" "wifi_links v = wifi_links w @ ls"
  shows "live_ok v n k"
  using assms by (auto simp: live_ok_def nth_append)

lemma keeps_scan_device:
  assumes i: "has_key N i"
  shows "keeps (scanned_in N) (scan_wifi_device i j d :: ('z, unit) wifi)"
proof (rule keepsI)
  fix w :: "'z wifi_world_scheme" assume w: "scanned_in N w"
  show "scanned_in N (snd (scan_wifi_device i j d w))"
  proof (cases "is_wifi d \<and> dev_mac d = Sta_Mac")
    case True
    let ?k = "length (wifi_links w)"
    let ?v = "w\<lparr>wifi_links := wifi_links w @ [\<lparr> sta = Some i, ap = None, wifi_shown = True, wifi_line = None \<rparr>],
      stations := stations w @ [((i, j), i, ?k)]\<rparr>"
    have run: "snd (scan_wifi_device i j d w) = ?v"
      using True by (simp add: scan_wifi_device_def sbind_ret [of "new_wifi_link _", OF new_link_run])
    have old: "live_ok ?v n k" if "live_ok w n k" for n k by (rule live_ok_later [OF that]) simp_all
    have fresh: "?k \<notin> set (wifi_registered w a)" for a using w by (auto simp: scanned_in_def wifi_ok_def)
    have new: "live_ok ?v i ?k" using i w fresh by (auto simp: live_ok_def scanned_in_def)
    have "k < ?k" if "(dev, n, k) \<in> set (stations w)" for dev n k using w that by (auto simp: scanned_in_def wifi_ok_def live_ok_def)
    then have "distinct (link_ids ?v)" using w by (auto simp: scanned_in_def wifi_ok_def link_ids_def)
    then have "wifi_ok ?v" using w old new by (auto simp: scanned_in_def wifi_ok_def intro: less_SucI)
    then show ?thesis using w unfolding run by (simp add: scanned_in_def)
  next
    case False
    have other: "scanned_in N (w\<lparr>access_points := AList.update (dev_address d) i (access_points w)\<rparr>)"
      using w i by (auto simp: scanned_in_def wifi_ok_def link_ids_def live_ok_def update_conv')
    show ?thesis using False w other by (cases "dev_mac d") (auto simp: scan_wifi_device_def)
  qed
qed

lemma keeps_scan_node:
  assumes "has_key N i"
  shows "keeps (scanned_in N) (scan_wifi_node i :: ('z, unit) wifi)"
  unfolding scan_wifi_node_def split_beta
  by (intro keeps_sbind keeps_sfor keeps_scan_device [OF assms] keeps_base) (simp add: keeps_def sim_node_def)

lemma destroy_run:
  fixes w :: "'z wifi_world_scheme"
  shows "\<exists>ls. sfor (\<lambda>(dev, node, k). destroy_link k) ss w = (Inr (), w\<lparr>wifi_links := ls\<rparr>) \<and> length ls = length (wifi_links w)"
proof (induction ss arbitrary: w)
  case Nil
  show ?case by (rule exI [of _ "wifi_links w"]) simp
next
  case (Cons s ss)
  obtain dev node k where s: "s = (dev, node, k)" by (metis prod.exhaust)
  let ?w = "snd (destroy_link k w)"
  obtain ls where ls: "sfor (\<lambda>(dev, node, k). destroy_link k) ss ?w = (Inr (), ?w\<lparr>wifi_links := ls\<rparr>)"
    "length ls = length (wifi_links ?w)" using Cons.IH by blast
  have d: "destroy_link k w = (Inr (), ?w)" by (simp add: destroy_link_def upd_link_def)
  have "sfor (\<lambda>(dev, node, k). destroy_link k) (s # ss) w = (Inr (), ?w\<lparr>wifi_links := ls\<rparr>)"
    by (simp add: s sbind_ret [of "destroy_link k", OF d] ls(1))
  moreover have "?w\<lparr>wifi_links := ls\<rparr> = w\<lparr>wifi_links := ls\<rparr>" "length (wifi_links ?w) = length (wifi_links w)"
    by (simp_all add: destroy_link_def upd_link_def)
  ultimately show ?case using ls(2) by (intro exI [of _ ls]) (simp only: simp_thms)
qed

lemma scan_wifi_ok:
  fixes w :: "'z wifi_world_scheme"
  assumes "\<forall>a. \<forall>k \<in> set (wifi_registered w a). k < length (wifi_links w)"
  shows "wifi_ok (snd (scan_wifi w))"
proof -
  obtain ls where ls: "sfor (\<lambda>(dev, node, k). destroy_link k) (stations w) w = (Inr (), w\<lparr>wifi_links := ls\<rparr>)"
    "length ls = length (wifi_links w)" using destroy_run by blast
  let ?w = "w\<lparr>wifi_links := ls, access_points := [], stations := []\<rparr>"
  have "scanned_in (nodes w) ?w" using assms ls(2) by (simp add: scanned_in_def wifi_ok_def link_ids_def)
  moreover have "keeps (scanned_in (nodes w)) (sfor scan_wifi_node (dkeys (nodes w)) :: ('z, unit) wifi)"
    by (intro keeps_sfor keeps_scan_node) (simp only: has_key_iff)
  ultimately have "scanned_in (nodes w) (snd (sfor scan_wifi_node (dkeys (nodes w)) ?w))" by (rule keeps_snd [rotated])
  then show ?thesis by (simp add: scan_wifi_def sbind_ret [of "sfor _ _", OF ls(1)] scanned_in_def)
qed

section \<open>A period\<close>

definition target :: "'z wifi_world_scheme \<Rightarrow> nat \<times> nat \<Rightarrow> nat option" where
  "target w dev = (if \<not> link_up w dev \<or> bssid_of w dev = no_bssid then None else map_of (access_points w) (bssid_of w dev))"

text \<open>The access point of a station that is up is known.\<close>

definition associated :: "'z wifi_world_scheme \<Rightarrow> nat \<times> nat \<Rightarrow> bool" where
  "associated w dev \<longleftrightarrow> \<not> link_up w dev \<or> bssid_of w dev = no_bssid \<or> has_key (access_points w) (bssid_of w dev)"

lemma update_station_run:
  "update_station (dev, node, k) w = (if associated w dev then set_ap k (target w dev) w else (Inl KeyError, w))"
  by (auto simp: update_station_def associated_def target_def need_def)

lemma live_ok_other:
  fixes w :: "'z wifi_world_scheme"
  assumes "relinked k w v" "j \<noteq> k"
  shows "live_ok v node j \<longleftrightarrow> live_ok w node j"
  using relinked_fields [OF assms(1)] assms(2) by (simp add: live_ok_def)

lemma relinked_same:
  fixes w :: "'z wifi_world_scheme"
  assumes "relinked k w v"
  shows "end_at v = end_at w" "target v = target w" "associated v = associated w" "joined v = joined w"
proof -
  note f = relinked_fields [OF assms]
  show end_at: "end_at v = end_at w" using f by (auto simp: end_at_def fun_eq_iff split: end_point.split)
  show "target v = target w" "associated v = associated w" using f by (auto simp: target_def associated_def fun_eq_iff)
  show "joined v = joined w" unfolding fun_eq_iff joined_def end_at by blast
qed

lemma update_stations_ok:
  fixes w :: "'z wifi_world_scheme"
  assumes "distinct (map (\<lambda>(dev, node, k). k) ss)" "\<forall>(dev, node, k) \<in> set ss. live_ok w node k \<and> associated w dev"
    and "\<forall>b a. map_of (access_points w) b = Some a \<longrightarrow> has_key (nodes w) a"
  shows "\<exists>v. sfor update_station ss w = (Inr (), v)
    \<and> nodes v = nodes w \<and> stations v = stations w \<and> access_points v = access_points w \<and> length (wifi_links v) = length (wifi_links w)
    \<and> (\<forall>d n j. (d, n, j) \<in> set ss \<longrightarrow> live_ok v n j \<and> wifi_links v ! j = joined w (target w d) (wifi_links w ! j))
    \<and> (\<forall>j. j \<notin> (\<lambda>(dev, node, k). k) ` set ss \<longrightarrow> wifi_links v ! j = wifi_links w ! j
          \<and> (\<forall>a. count_list (wifi_registered v a) j = count_list (wifi_registered w a) j))"
  using assms
proof (induction ss arbitrary: w)
  case (Cons s ss)
  obtain dev node k where s: "s = (dev, node, k)" by (metis prod.exhaust)
  have live: "live_ok w node k" "associated w dev" using Cons.prems(2) s by simp_all
  have t: "\<And>i. target w dev = Some i \<Longrightarrow> has_key (nodes w) i"
    using Cons.prems(3) by (auto simp: target_def split: if_splits)
  obtain u where u: "set_ap k (target w dev) w = (Inr (), u)" "relinked k w u" "live_ok u node k"
    "wifi_links u ! k = joined w (target w dev) (wifi_links w ! k)"
    using set_ap_ok [OF live(1) t] by blast
  note f = relinked_fields [OF u(2)] and same = relinked_same [OF u(2)]
  have k: "k \<notin> (\<lambda>(dev, node, k). k) ` set ss" using Cons.prems(1) s by simp
  have "live_ok u n j \<and> associated u d" if "(d, n, j) \<in> set ss" for d n j
  proof -
    have "j \<noteq> k" using that k by force
    then show ?thesis using Cons.prems(2) that live_ok_other [OF u(2)] same(3) by fastforce
  qed
  then have "\<forall>(dev, node, k) \<in> set ss. live_ok u node k \<and> associated u dev" by blast
  moreover have "distinct (map (\<lambda>(dev, node, k). k) ss)" using Cons.prems(1) s by simp
  moreover have "\<forall>b a. map_of (access_points u) b = Some a \<longrightarrow> has_key (nodes u) a" using Cons.prems(3) f(1,3) by simp
  ultimately obtain v where v: "sfor update_station ss u = (Inr (), v)" "nodes v = nodes u" "stations v = stations u"
    "access_points v = access_points u" "length (wifi_links v) = length (wifi_links u)"
    "\<And>d n j. (d, n, j) \<in> set ss \<Longrightarrow> live_ok v n j \<and> wifi_links v ! j = joined u (target u d) (wifi_links u ! j)"
    "\<And>j. j \<notin> (\<lambda>(dev, node, k). k) ` set ss \<Longrightarrow> wifi_links v ! j = wifi_links u ! j
          \<and> (\<forall>a. count_list (wifi_registered v a) j = count_list (wifi_registered u a) j)"
    using Cons.IH [of u] by blast
  have "sfor update_station (s # ss) w = (Inr (), v)"
    using live(2) by (simp add: s update_station_run sbind_ret [of "update_station _"] u(1) v(1))
  moreover have "live_ok v n j \<and> wifi_links v ! j = joined w (target w d) (wifi_links w ! j)" if "(d, n, j) \<in> set (s # ss)" for d n j
  proof (cases "(d, n, j) \<in> set ss")
    case True
    then have "j \<noteq> k" using k by force
    then show ?thesis using v(6) [OF True] same f(7) by simp
  next
    case False
    then have "(d, n, j) = (dev, node, k)" using that s by simp
    then show ?thesis using u(3,4) v(2,5) v(7) [OF k] by (simp add: live_ok_def)
  qed
  moreover have "wifi_links v ! j = wifi_links w ! j \<and> (\<forall>a. count_list (wifi_registered v a) j = count_list (wifi_registered w a) j)"
    if "j \<notin> (\<lambda>(dev, node, k). k) ` set (s # ss)" for j
    using that v(7) [of j] f(7,8) [of j] s by auto
  ultimately show ?case using v(2-5) f(1-3,6) by (intro exI [of _ v]) auto
qed simp

text \<open>What can happen to the view between a period and the update of the view: nodes and channels move.\<close>

definition moved :: "'z wifi_world_scheme \<Rightarrow> 'z wifi_world_scheme \<Rightarrow> bool" where
  "moved w v \<longleftrightarrow> wifi_links v = wifi_links w \<and> stations v = stations w \<and> (\<forall>i. has_key (nodes v) i \<longleftrightarrow> has_key (nodes w) i)"

text \<open>A link as it is drawn: from its station to its access point, or as it was while it has none.\<close>

definition line_redrawn :: "'z wifi_world_scheme \<Rightarrow> wifi_link \<Rightarrow> wifi_link" where
  "line_redrawn w l = (case ap l of None \<Rightarrow> l | Some a \<Rightarrow>
     l\<lparr>wifi_line := Some (the (end_at w (Node_End (the (sta l)))), the (end_at w (Node_End a)))\<rparr>)"

lemma line_redrawn_cong:
  fixes u w :: "'z wifi_world_scheme"
  shows "end_at u = end_at w \<Longrightarrow> line_redrawn u = line_redrawn w"
  by (rule ext) (simp add: line_redrawn_def split: option.split)

definition drawable :: "'z wifi_world_scheme \<Rightarrow> nat \<Rightarrow> bool" where
  "drawable w k \<longleftrightarrow> k < length (wifi_links w) \<and> (\<forall>a. ap (wifi_links w ! k) = Some a \<longrightarrow>
     has_key (nodes w) a \<and> (\<exists>s. sta (wifi_links w ! k) = Some s \<and> has_key (nodes w) s))"

lemma wifi_points_run:
  "drawable w k \<Longrightarrow>
     wifi_update_points k w = (Inr (), w\<lparr>wifi_links := (wifi_links w)[k := line_redrawn w (wifi_links w ! k)]\<rparr>)"
  by (auto simp: drawable_def wifi_update_points_def the_link_def line_redrawn_def upd_link_def sbind_ret [OF place_of_key]
      split: option.split)

lemma wifi_view_run:
  fixes w :: "'z wifi_world_scheme"
  assumes "distinct (map (\<lambda>(dev, node, k). k) ss)" "\<forall>(dev, node, k) \<in> set ss. drawable w k"
  shows "\<exists>ls. sfor (\<lambda>(dev, node, k). wifi_update_points k) ss w = (Inr (), w\<lparr>wifi_links := ls\<rparr>)
    \<and> (\<forall>(dev, node, k) \<in> set ss. ls ! k = line_redrawn w (wifi_links w ! k))
    \<and> (\<forall>k. k \<notin> (\<lambda>(dev, node, k). k) ` set ss \<longrightarrow> ls ! k = wifi_links w ! k)"
  using assms
proof (induction ss arbitrary: w)
  case Nil
  show ?case by (rule exI [of _ "wifi_links w"]) simp
next
  case (Cons s ss)
  obtain dev node k where s: "s = (dev, node, k)" by (metis prod.exhaust)
  have k: "drawable w k" "k \<notin> (\<lambda>(dev, node, k). k) ` set ss" using Cons.prems s by auto
  let ?u = "w\<lparr>wifi_links := (wifi_links w)[k := line_redrawn w (wifi_links w ! k)]\<rparr>"
  have same: "end_at ?u = end_at w" by (auto simp: end_at_def fun_eq_iff split: end_point.split)
  have other: "wifi_links ?u ! j = wifi_links w ! j" if "j \<noteq> k" for j using that by simp
  have "drawable ?u j" if "(d, n, j) \<in> set ss" for d n j
  proof -
    have "j \<noteq> k" using that k(2) by force
    then show ?thesis using Cons.prems(2) that by (fastforce simp: drawable_def)
  qed
  then have "\<forall>(dev, node, k) \<in> set ss. drawable ?u k" by blast
  moreover have "distinct (map (\<lambda>(dev, node, k). k) ss)" using Cons.prems(1) s by simp
  ultimately obtain ls where ls: "sfor (\<lambda>(dev, node, k). wifi_update_points k) ss ?u = (Inr (), ?u\<lparr>wifi_links := ls\<rparr>)"
    "\<forall>(dev, node, k) \<in> set ss. ls ! k = line_redrawn ?u (wifi_links ?u ! k)"
    "\<And>j. j \<notin> (\<lambda>(dev, node, k). k) ` set ss \<Longrightarrow> ls ! j = wifi_links ?u ! j"
    using Cons.IH [of ?u] by blast
  have "sfor (\<lambda>(dev, node, k). wifi_update_points k) (s # ss) w = (Inr (), w\<lparr>wifi_links := ls\<rparr>)"
    by (simp add: s sbind_ret [of "wifi_update_points _", OF wifi_points_run [OF k(1)]] ls(1))
  moreover have "ls ! j = line_redrawn w (wifi_links w ! j)" if "(d, n, j) \<in> set (s # ss)" for d n j
  proof (cases "(d, n, j) \<in> set ss")
    case True
    then have "j \<noteq> k" using k(2) by force
    moreover have "ls ! j = line_redrawn ?u (wifi_links ?u ! j)" using True ls(2) by fast
    ultimately show ?thesis using other [of j] line_redrawn_cong [OF same] by simp
  next
    case False
    then have "j = k" using that s by simp
    then show ?thesis using ls(3) [OF k(2)] k(1) by (simp add: drawable_def)
  qed
  moreover have "ls ! j = wifi_links w ! j" if "j \<notin> (\<lambda>(dev, node, k). k) ` set (s # ss)" for j
    using that ls(3) [of j] other [of j] s by auto
  ultimately show ?case by (intro exI [of _ ls]) blast
qed

text \<open>Claim C26. A period of the wifi monitor and the update of the view after it, when the access point of every station
that is up is known. The period returns; every link then leads from its station to the access point the station is
associated with, or to none when it is down or without one, and is registered once at that access point and nowhere
else; only a link whose access point has changed is drawn anew by the period itself. The update of the view, wherever the
nodes have moved in between, returns and draws every link that has an access point from the place of its station to the
place of its access point.\<close>

theorem wifi_links_follow:
  fixes w :: "'z wifi_world_scheme"
  assumes "wifi_ok w" and "\<forall>(dev, node, k) \<in> set (stations w). associated w dev"
  shows "\<exists>v. wifi_periodic_update w = (Inr (), v) \<and> wifi_ok v \<and> stations v = stations w \<and> nodes v = nodes w
    \<and> (\<forall>(dev, node, k) \<in> set (stations w). sta (wifi_links v ! k) = Some node \<and> ap (wifi_links v ! k) = target w dev
        \<and> wifi_links v ! k = joined w (target w dev) (wifi_links w ! k)
        \<and> (\<forall>a. count_list (wifi_registered v a) k = (if target w dev = Some a then 1 else 0)))
    \<and> (\<forall>u. moved v u \<longrightarrow> (\<exists>x. wifi_update_view u = (Inr (), x)
        \<and> (\<forall>(dev, node, k) \<in> set (stations w). \<forall>a. target w dev = Some a \<longrightarrow>
            wifi_line (wifi_links x ! k) = Some (the (end_at u (Node_End node)), the (end_at u (Node_End a))))))"
proof -
  have w: "distinct (map (\<lambda>(dev, node, k). k) (stations w))" "\<forall>(dev, node, k) \<in> set (stations w). live_ok w node k \<and> associated w dev"
    "\<forall>b a. map_of (access_points w) b = Some a \<longrightarrow> has_key (nodes w) a"
    using assms by (auto simp: wifi_ok_def link_ids_def)
  obtain v where v: "sfor update_station (stations w) w = (Inr (), v)" "nodes v = nodes w" "stations v = stations w"
    "access_points v = access_points w" "length (wifi_links v) = length (wifi_links w)"
    "\<And>d n j. (d, n, j) \<in> set (stations w) \<Longrightarrow> live_ok v n j \<and> wifi_links v ! j = joined w (target w d) (wifi_links w ! j)"
    "\<And>j. j \<notin> (\<lambda>(dev, node, k). k) ` set (stations w) \<Longrightarrow>
          (\<forall>a. count_list (wifi_registered v a) j = count_list (wifi_registered w a) j)"
    using update_stations_ok [OF w] by blast
  have "j < length (wifi_links v)" if "j \<in> set (wifi_registered v a)" for j a
  proof (cases "j \<in> (\<lambda>(dev, node, k). k) ` set (stations w)")
    case True
    then show ?thesis using v(6) by (auto simp: live_ok_def)
  next
    case False
    then have "j \<in> set (wifi_registered w a)" using v(7) that by (metis count_list_0_iff)
    then show ?thesis using assms(1) v(5) by (simp add: wifi_ok_def)
  qed
  then have ok: "wifi_ok v" using w v by (auto simp: wifi_ok_def link_ids_def)
  have "ap (joined w a l) = a" for a l by (simp add: joined_def)
  then have link: "sta (wifi_links v ! k) = Some node" "ap (wifi_links v ! k) = target w dev"
      "count_list (wifi_registered v a) k = (if target w dev = Some a then 1 else 0)"
    if "(dev, node, k) \<in> set (stations w)" for dev node k a
    using v(6) [OF that] by (auto simp: live_ok_def)
  have view: "\<exists>x. wifi_update_view u = (Inr (), x)
        \<and> (\<forall>(dev, node, k) \<in> set (stations w). \<forall>a. target w dev = Some a \<longrightarrow>
            wifi_line (wifi_links x ! k) = Some (the (end_at u (Node_End node)), the (end_at u (Node_End a))))"
    if u: "moved v u" for u
  proof -
    have "\<forall>(dev, node, k) \<in> set (stations w). drawable u k"
      using v(6) u by (fastforce simp: live_ok_def drawable_def moved_def)
    from wifi_view_run [OF w(1) this] obtain ls where
      "sfor (\<lambda>(dev, node, k). wifi_update_points k) (stations w) u = (Inr (), u\<lparr>wifi_links := ls\<rparr>)"
      and ls: "\<forall>(dev, node, k) \<in> set (stations w). ls ! k = line_redrawn u (wifi_links v ! k)" using u by (auto simp: moved_def)
    moreover have "stations u = stations w" using u v(3) by (simp add: moved_def)
    ultimately have "wifi_update_view u = (Inr (), u\<lparr>wifi_links := ls\<rparr>)" by (simp add: wifi_update_view_def)
    moreover have "wifi_line (ls ! k) = Some (the (end_at u (Node_End node)), the (end_at u (Node_End a)))"
      if "(dev, node, k) \<in> set (stations w)" "target w dev = Some a" for dev node k a
      using ls that link(1,2) [OF that(1)] by (auto simp: line_redrawn_def)
    ultimately show ?thesis by (intro exI [of _ "u\<lparr>wifi_links := ls\<rparr>"]) auto
  qed
  have "wifi_periodic_update w = (Inr (), v)" using v(1) by (simp add: wifi_periodic_update_def)
  then show ?thesis using v(2,3,6) ok link view by (intro exI [of _ v]) (auto simp del: split_paired_All)
qed

text \<open>An access point that the last scan has not seen ends the period with a \<open>KeyError\<close>.\<close>

lemma unknown_access_point:
  fixes w :: "'z wifi_world_scheme"
  assumes "stations w = (dev, node, k) # ss" "\<not> associated w dev"
  shows "wifi_periodic_update w = (Inl KeyError, w)"
  using assms by (simp add: wifi_periodic_update_def update_station_run sbind_def)

text \<open>A station and an access point.\<close>

definition wifi_pair :: wifi_world where
  "wifi_pair = \<lparr> traits_table = [], warned_types = [], plugins = [], plugin_modules = [], plugins_loaded = False, sys_path = [],
     plugin_errors = [], net = \<lparr> net_nodes = [], channel_owners = (\<lambda>_. []) \<rparr>,
     nodes = [(0, new_node), (1, new_node\<lparr>center := (3, 4)\<rparr>)], channels = [], links = [], canvas_bounds = None,
     air = (\<lambda>_. []), link_up = (\<lambda>_. True), bssid_of = (\<lambda>_. ''00:00:00:00:00:01''),
     wifi_links = [\<lparr> sta = Some 0, ap = None, wifi_shown = True, wifi_line = None \<rparr>], wifi_registered = (\<lambda>_. []),
     access_points = [(''00:00:00:00:00:01'', 1)], stations = [((0, 0), 0, 0)] \<rparr>"

lemma wifi_pair_ok: "wifi_ok wifi_pair" "\<forall>(dev, node, k) \<in> set (stations wifi_pair). associated wifi_pair dev"
  by (simp_all add: wifi_ok_def wifi_pair_def live_ok_def link_ids_def associated_def)

text \<open>The station has moved when the view is updated.\<close>

definition station_moved :: "wifi_world \<Rightarrow> wifi_world" where
  "station_moved v = v\<lparr>nodes := [(0, new_node\<lparr>center := (9, 9)\<rparr>), (1, new_node\<lparr>center := (3, 4)\<rparr>)]\<rparr>"

theorem wifi_links_follow_witness:
  "\<exists>v x. wifi_periodic_update wifi_pair = (Inr (), v) \<and> ap (wifi_links v ! 0) = Some 1
     \<and> wifi_line (wifi_links v ! 0) = Some ((0, 0), (3, 4))
     \<and> wifi_update_view (station_moved v) = (Inr (), x) \<and> wifi_line (wifi_links x ! 0) = Some ((9, 9), (3, 4))"
proof -
  have t: "target wifi_pair (0, 0) = Some 1" by (simp add: target_def wifi_pair_def no_bssid_def)
  obtain v where v: "wifi_periodic_update wifi_pair = (Inr (), v)" "nodes v = nodes wifi_pair" "stations v = stations wifi_pair"
    and link: "wifi_links v ! 0 = joined wifi_pair (Some 1) (wifi_links wifi_pair ! 0)"
    and view: "\<forall>u. moved v u \<longrightarrow> (\<exists>x. wifi_update_view u = (Inr (), x) \<and>
      wifi_line (wifi_links x ! 0) = Some (the (end_at u (Node_End 0)), the (end_at u (Node_End 1))))"
    using wifi_links_follow [OF wifi_pair_ok] t by (auto simp: wifi_pair_def)
  have "moved v (station_moved v)" using v(2) by (simp add: moved_def station_moved_def wifi_pair_def)
  with view obtain x where "wifi_update_view (station_moved v) = (Inr (), x)"
    "wifi_line (wifi_links x ! 0) = Some ((9, 9), (3, 4))"
    by (auto simp: end_at_def station_moved_def)
  moreover have "ap (wifi_links v ! 0) = Some 1" "wifi_line (wifi_links v ! 0) = Some ((0, 0), (3, 4))"
    unfolding link by (simp_all add: joined_def wifi_pair_def end_at_def)
  ultimately show ?thesis using v(1) by blast
qed

end
