(* ===== verification/Viz_Hud.thy ===== *)
theory Viz_Hud
  imports Viz_Base
begin

text \<open>
  \<^verbatim>\<open>src/visualizer/visualizer/hud.py\<close>: the axes at the edges of the canvas, their divisions and
  the pool of labels. The canvas gives the corners of what is visible; a path is its list of
  segments and the text of a label the number it shows. The loops over the ticks end only for a
  positive division: they are partial, and shown to end.
\<close>

section \<open>Divisions\<close>

text \<open>\<open>rint(math.log10(q))\<close>: the logarithm is that of the real numbers.\<close>

definition rint :: "rat \<Rightarrow> int" where "rint x = \<lfloor>x + 1 / 2\<rfloor>"

definition rint_log10 :: "rat \<Rightarrow> int" where
  "rint_log10 q = \<lfloor>log 10 (of_rat q) + 1 / 2\<rfloor>"

text \<open>A power of ten, or twice or half of it, whichever is closest.\<close>

definition nearest_division :: "rat \<Rightarrow> rat" where
  "nearest_division q = (let d = 10 powi rint_log10 q in
     if \<bar>d / 2 - q\<bar> < \<bar>d - q\<bar> then d / 2
     else if \<bar>d * 2 - q\<bar> < \<bar>d - q\<bar> then d * 2 else d)"

definition first_tick :: "rat \<Rightarrow> rat \<Rightarrow> rat" where
  "first_tick xi d = d * of_int \<lceil>xi / d\<rceil> - d"

text \<open>The loop carries the number of divisions it aims at along.\<close>

fun division_loop :: "rat \<Rightarrow> rat \<Rightarrow> rat \<Rightarrow> rat \<Rightarrow> nat list \<Rightarrow> rat \<Rightarrow> rat \<times> rat \<Rightarrow> rat \<times> rat" where
  "division_loop xi dx text_width q [] ndiv r = r"
| "division_loop xi dx text_width q (n # ns) ndiv r =
     (let d = nearest_division q; x0 = first_tick xi d
      in division_loop xi dx text_width q ns (if 1 < n then of_int (rint (dx / text_width)) else ndiv) (x0, d))"

definition compute_divisions :: "rat \<Rightarrow> rat \<Rightarrow> py_error + rat \<times> rat" where
  "compute_divisions xi xf =
     (if \<not> xi < xf then Inl AssertionError
      else let dx = xf - xi; ndiv = 5; text_width = dx / ndiv / 2
        in Inr (division_loop xi dx text_width (dx / ndiv) [0..<5] ndiv (0, 0)))"

section \<open>Labels\<close>

record hud_label =
  lab_id :: nat
  lab_visible :: bool
  font_size :: int
  lab_value :: rat
  lab_x :: rat
  lab_y :: rat

type_synonym segment = "(rat \<times> rat) \<times> (rat \<times> rat)"

record axes =
  labels :: "hud_label list"
  next_label :: nat
  visible :: bool
  lines_shown :: bool
  axis_width :: rat
  hlines :: "segment list"
  vlines :: "segment list"

definition set_visible :: "bool \<Rightarrow> axes \<Rightarrow> axes" where
  "set_visible v a = (let a = a\<lparr>visible := v, lines_shown := v\<rparr> in
     if v then a else a\<lparr>labels := map (\<lambda>l. l\<lparr>lab_visible := False\<rparr>) (labels a)\<rparr>)"

text \<open>The first unused label, or a new one.\<close>

definition get_label :: "hud_label list \<Rightarrow> axes \<Rightarrow> hud_label \<times> hud_label list \<times> axes" where
  "get_label unused a = (case unused of
       [] \<Rightarrow> (\<lparr> lab_id = next_label a, lab_visible = True, font_size = 0, lab_value = 0, lab_x = 0, lab_y = 0 \<rparr>,
           [], a\<lparr>next_label := next_label a + 1\<rparr>)
     | l # ls \<Rightarrow> (l\<lparr>lab_visible := True\<rparr>, ls, a))"

fun label_ticks :: "(rat \<Rightarrow> hud_label \<Rightarrow> hud_label) \<Rightarrow> rat list \<Rightarrow> hud_label list \<Rightarrow> axes \<Rightarrow> hud_label list \<times> axes" where
  "label_ticks f [] unused a = (unused, a)"
| "label_ticks f (x # xs) unused a = (case get_label unused a of (l, unused, a) \<Rightarrow>
     label_ticks f xs unused (a\<lparr>labels := labels a @ [f x l]\<rparr>))"

partial_function (option) ticks :: "rat \<Rightarrow> rat \<Rightarrow> rat \<Rightarrow> rat list option" where
  "ticks x d xf = (if x < xf then Option.bind (ticks (x + d) d xf) (\<lambda>xs. Some (x # xs)) else Some [])"

definition int_trunc :: "rat \<Rightarrow> int" where
  "int_trunc x = (if 0 \<le> x then \<lfloor>x\<rfloor> else \<lceil>x\<rceil>)"

definition h_label :: "rat \<Rightarrow> rat \<Rightarrow> rat \<Rightarrow> hud_label \<Rightarrow> hud_label" where
  "h_label zoom y x l = l\<lparr>font_size := int_trunc (12 / zoom), lab_value := x, lab_x := PIXELS_PER_METER * x, lab_y := y\<rparr>"

definition v_label :: "rat \<Rightarrow> rat \<Rightarrow> rat \<Rightarrow> hud_label \<Rightarrow> hud_label" where
  "v_label zoom x y l = l\<lparr>font_size := int_trunc (12 / zoom), lab_value := y, lab_x := x, lab_y := PIXELS_PER_METER * y\<rparr>"

text \<open>The axes: divisions, ticks, labels and the path; an exception leaves what has been done.\<close>

type_synonym drawing = "((py_error + unit) \<times> hud_label list \<times> axes) option"

definition h_axis :: "rat \<Rightarrow> rat \<times> rat \<Rightarrow> rat \<times> rat \<Rightarrow> hud_label list \<Rightarrow> axes \<Rightarrow> drawing" where
  "h_axis zoom p1 p2 unused a = (case (p1, p2) of ((x1, y1), (x2, y2)) \<Rightarrow>
     let offset = 10 / zoom; line_width = 5 / zoom; yc = y2 - line_width / 2; a = a\<lparr>axis_width := line_width\<rparr>
     in case compute_divisions (x1 / PIXELS_PER_METER) (x2 / PIXELS_PER_METER) of
          Inl e \<Rightarrow> Some (Inl e, unused, a)
        | Inr (x0, d) \<Rightarrow> Option.bind (ticks x0 d (x2 / PIXELS_PER_METER)) (\<lambda>xs.
            case label_ticks (h_label zoom (yc - offset)) xs unused a of (unused, a) \<Rightarrow>
              Some (Inr (), unused, a\<lparr>hlines := ((x1, yc), (x2, yc)) #
                map (\<lambda>x. ((PIXELS_PER_METER * x, yc - offset), (PIXELS_PER_METER * x, yc))) xs\<rparr>)))"

definition v_axis :: "rat \<Rightarrow> rat \<times> rat \<Rightarrow> rat \<times> rat \<Rightarrow> hud_label list \<Rightarrow> axes \<Rightarrow> drawing" where
  "v_axis zoom p1 p2 unused a = (case (p1, p2) of ((x1, y1), (x2, y2)) \<Rightarrow>
     let offset = 10 / zoom; line_width = 5 / zoom; xc = x1 + line_width / 2
     in case compute_divisions (y1 / PIXELS_PER_METER) (y2 / PIXELS_PER_METER) of
          Inl e \<Rightarrow> Some (Inl e, unused, a)
        | Inr (y0, d) \<Rightarrow> Option.bind (ticks y0 d (y2 / PIXELS_PER_METER)) (\<lambda>ys.
            case label_ticks (v_label zoom (xc + offset)) ys unused a of (unused, a) \<Rightarrow>
              Some (Inr (), unused, a\<lparr>vlines := ((xc, y1), (xc, y2)) #
                map (\<lambda>y. ((xc, PIXELS_PER_METER * y), (xc + offset, PIXELS_PER_METER * y))) ys\<rparr>)))"

definition update_view :: "rat option \<Rightarrow> rat \<times> rat \<Rightarrow> rat \<times> rat \<Rightarrow> axes \<Rightarrow> ((py_error + unit) \<times> axes) option" where
  "update_view zoom p1 p2 a = (case zoom of
       None \<Rightarrow> Some (Inr (), a)
     | Some z \<Rightarrow>
       let unused = map (\<lambda>l. l\<lparr>lab_visible := False\<rparr>) (labels a); a = a\<lparr>labels := []\<rparr>
       in if z = 0 then Some (Inl ZeroDivisionError, a)
          else Option.bind (h_axis z p1 p2 unused a) (\<lambda>(r, unused, a). case r of
              Inl e \<Rightarrow> Some (Inl e, a)
            | Inr _ \<Rightarrow> Option.bind (v_axis z p1 p2 unused a) (\<lambda>(r, unused, a). case r of
                  Inl e \<Rightarrow> Some (Inl e, a)
                | Inr _ \<Rightarrow> Some (Inr (), a\<lparr>labels := labels a @ unused\<rparr>))))"

text \<open>A change of an adjustment redraws visible axes.\<close>

definition adjustment_changed :: "rat option \<Rightarrow> rat \<times> rat \<Rightarrow> rat \<times> rat \<Rightarrow> axes \<Rightarrow> ((py_error + unit) \<times> axes) option" where
  "adjustment_changed zoom p1 p2 a = (if visible a then update_view zoom p1 p2 a else Some (Inr (), a))"

definition new_axes :: axes where
  "new_axes = \<lparr> labels = [], next_label = 0, visible = True, lines_shown = True, axis_width = 0, hlines = [], vlines = [] \<rparr>"

section \<open>Facts on divisions\<close>

text \<open>The power of ten is within a factor of the square root of ten.\<close>

lemma rint_log10_bounds:
  assumes "0 < q"
  shows "10 powi (2 * rint_log10 q - 1) \<le> q\<^sup>2" "q\<^sup>2 < 10 powi (2 * rint_log10 q + 1)"
proof -
  let ?k = "rint_log10 q" and ?q = "real_of_rat q"
  have q: "0 < ?q" using assms by simp
  have k: "of_int ?k \<le> log 10 ?q + 1 / 2" "log 10 ?q + 1 / 2 < of_int ?k + 1"
    unfolding rint_log10_def by linarith+
  have l: "log 10 (?q\<^sup>2) = 2 * log 10 ?q" using q by (simp add: log_nat_power)
  have pw: "(10::real) powi m = 10 powr of_int m" for m by (simp add: powr_real_of_int')
  have "of_int (2 * ?k - 1) \<le> log 10 (?q\<^sup>2)" "log 10 (?q\<^sup>2) < of_int (2 * ?k + 1)" using k l by simp_all
  then have r: "10 powi (2 * ?k - 1) \<le> ?q\<^sup>2" "?q\<^sup>2 < 10 powi (2 * ?k + 1)"
    unfolding pw using q by (simp_all add: le_log_iff log_less_iff)
  have of_powi: "real_of_rat (10 powi m) = 10 powi m" for m
    by (simp add: power_int_def of_rat_power of_rat_inverse of_rat_divide)
  have "real_of_rat (10 powi (2 * ?k - 1)) \<le> real_of_rat (q\<^sup>2)" "real_of_rat (q\<^sup>2) < real_of_rat (10 powi (2 * ?k + 1))"
    using r by (simp_all only: of_powi of_rat_power)
  then show "10 powi (2 * rint_log10 q - 1) \<le> q\<^sup>2" "q\<^sup>2 < 10 powi (2 * rint_log10 q + 1)"
    by (simp_all only: of_rat_less_eq of_rat_less)
qed

lemma power_around:
  assumes "0 < q"
  shows "(10 powi rint_log10 q)\<^sup>2 \<le> 10 * q\<^sup>2" "q\<^sup>2 < 10 * (10 powi rint_log10 q)\<^sup>2"
proof -
  let ?k = "rint_log10 q"
  have "(10 :: rat) powi (2 * ?k) = (10 powi ?k)\<^sup>2" by (simp add: power2_eq_square power_int_add [symmetric])
  then have "(10 :: rat) powi (2 * ?k - 1) = (10 powi ?k)\<^sup>2 / 10" "(10 :: rat) powi (2 * ?k + 1) = (10 powi ?k)\<^sup>2 * 10"
    by (simp_all add: power_int_diff power_int_add)
  with rint_log10_bounds [OF assms]
  show "(10 powi ?k)\<^sup>2 \<le> 10 * q\<^sup>2" "q\<^sup>2 < 10 * (10 powi ?k)\<^sup>2" by simp_all
qed

lemma division_bounds:
  assumes q: "0 < q"
  shows "0 < nearest_division q" "3 / 5 * nearest_division q < q" "q < 8 / 5 * nearest_division q"
proof -
  define p :: rat where "p = 10 powi rint_log10 q"
  have p: "0 < p" "p\<^sup>2 \<le> 10 * q\<^sup>2" "q\<^sup>2 < 10 * p\<^sup>2" using power_around [OF q] by (simp_all add: p_def)
  have lo: "3 / 10 * p < q"
  proof (rule ccontr)
    assume "\<not> 3 / 10 * p < q"
    then have "q\<^sup>2 \<le> (3 / 10 * p)\<^sup>2" using q by (intro power_mono) simp_all
    moreover have "0 < p\<^sup>2" using p(1) by simp
    ultimately show False using p(2) by (simp add: power2_eq_square)
  qed
  have hi: "q < 16 / 5 * p"
  proof (rule ccontr)
    assume "\<not> q < 16 / 5 * p"
    then have "(16 / 5 * p)\<^sup>2 \<le> q\<^sup>2" using p(1) by (intro power_mono) simp_all
    moreover have "0 < p\<^sup>2" using p(1) by simp
    ultimately show False using p(3) by (simp add: power2_eq_square)
  qed
  have "0 < nearest_division q \<and> 3 / 5 * nearest_division q < q \<and> q < 8 / 5 * nearest_division q"
    using lo hi p(1) q unfolding nearest_division_def p_def [symmetric] Let_def
    by (auto simp: abs_if split: if_splits)
  then show "0 < nearest_division q" "3 / 5 * nearest_division q < q" "q < 8 / 5 * nearest_division q" by blast+
qed

text \<open>The passes of the loop do not differ: the number of divisions that they update is never looked at.\<close>

lemma division_loop_stable:
  "division_loop xi dx tw q ns ndiv r = (if ns = [] then r else (first_tick xi (nearest_division q), nearest_division q))"
  by (induction ns arbitrary: ndiv r) (simp_all add: Let_def)

lemma compute_divisions_value:
  "compute_divisions xi xf = (if xi < xf then Inr (first_tick xi (nearest_division ((xf - xi) / 5)), nearest_division ((xf - xi) / 5))
     else Inl AssertionError)"
  by (simp add: compute_divisions_def division_loop_stable Let_def)

lemma first_tick_bounds: "0 < d \<Longrightarrow> xi - d \<le> first_tick xi d" "0 < d \<Longrightarrow> first_tick xi d < xi"
proof -
  assume d: "0 < d"
  define c :: rat where "c = of_int \<lceil>xi / d\<rceil>"
  have "xi / d \<le> c" "c < xi / d + 1" unfolding c_def by linarith+
  then have "xi / d * d \<le> c * d" "c * d < (xi / d + 1) * d"
    using d mult_right_mono mult_strict_right_mono less_imp_le by blast+
  then have "xi \<le> d * of_int \<lceil>xi / d\<rceil>" "d * of_int \<lceil>xi / d\<rceil> < xi + d"
    using d unfolding c_def by (simp_all add: algebra_simps)
  then show "xi - d \<le> first_tick xi d" "first_tick xi d < xi" by (simp_all add: first_tick_def)
qed

section \<open>Ticks\<close>

text \<open>With a positive division the loop ends, after as many ticks as fit.\<close>

lemma ticks_value:
  assumes d: "0 < d" and n: "(xf - x) / d \<le> of_nat n" "n = 0 \<or> of_nat (n - 1) < (xf - x) / d"
  shows "ticks x d xf = Some (map (\<lambda>j. x + of_nat j * d) [0..<n])"
  using n
proof (induction n arbitrary: x)
  case 0
  then have "xf \<le> x" using d by (simp add: divide_le_0_iff)
  then show ?case by (simp add: ticks.simps [of x])
next
  case (Suc n)
  have x: "x < xf" 
  proof -
    have "0 \<le> rat_of_nat (Suc n - 1)" by simp
    also have "\<dots> < (xf - x) / d" using Suc.prems(2) by simp
    finally show ?thesis using d by (simp add: zero_less_divide_iff)
  qed
  have s: "(xf - (x + d)) / d = (xf - x) / d - 1" using d by (simp add: field_simps)
  have "ticks (x + d) d xf = Some (map (\<lambda>j. x + d + of_nat j * d) [0..<n])"
  proof (rule Suc.IH)
    show "(xf - (x + d)) / d \<le> of_nat n" using Suc.prems(1) unfolding s by simp
    show "n = 0 \<or> of_nat (n - 1) < (xf - (x + d)) / d" using Suc.prems(2) unfolding s by (cases n) simp_all
  qed
  moreover have "map (\<lambda>j. x + of_nat j * d) [0..<Suc n] = x # map (\<lambda>j. x + d + of_nat j * d) [0..<n]"
    by (simp add: upt_conv_Cons map_Suc_upt [symmetric] algebra_simps del: upt_Suc)
  ultimately show ?case using x by (simp add: ticks.simps [of x] del: upt_Suc)
qed

lemma axis_ticks_all:
  assumes "xi < xf"
  shows "\<exists>x0 d n. compute_divisions xi xf = Inr (x0, d) \<and> ticks x0 d xf = Some (map (\<lambda>j. x0 + of_nat j * d) [0..<n])
    \<and> (\<exists>k. d = 10 powi k \<or> d = 10 powi k * 2 \<or> d = 10 powi k * 5)
    \<and> 4 \<le> n \<and> n \<le> 9 \<and> xi - d \<le> x0 \<and> x0 < xi \<and> x0 + of_nat (n - 1) * d < xf \<and> xf \<le> x0 + of_nat (n - 1) * d + d"
proof -
  define d where "d = nearest_division ((xf - xi) / 5)"
  define x0 where "x0 = first_tick xi d"
  define n where "n = nat \<lceil>(xf - x0) / d\<rceil>"
  have d: "0 < d" "3 * d < xf - xi" "xf - xi < 8 * d"
    using division_bounds [of "(xf - xi) / 5"] assms by (simp_all add: d_def)
  have x0: "xi - d \<le> x0" "x0 < xi" using first_tick_bounds [OF d(1)] by (simp_all add: x0_def)
  have r: "3 < (xf - x0) / d" "(xf - x0) / d < 9" using d x0 by (simp_all add: pos_less_divide_eq pos_divide_less_eq)
  then have n: "4 \<le> n" "n \<le> 9" "(xf - x0) / d \<le> of_nat n" "of_nat (n - 1) < (xf - x0) / d"
    unfolding n_def by (linarith, linarith, linarith, simp add: of_nat_diff, linarith)
  have t: "ticks x0 d xf = Some (map (\<lambda>j. x0 + of_nat j * d) [0..<n])"
    using ticks_value [OF d(1) n(3)] n(4) by blast
  have "x0 + of_nat (n - 1) * d < xf" using n(4) d(1) by (simp add: pos_less_divide_eq)
  moreover have "of_nat n * d = of_nat (n - 1) * d + d" using n(1) by (cases n) (simp_all add: algebra_simps)
  then have "xf \<le> x0 + of_nat (n - 1) * d + d" using n(3) d(1) by (simp add: pos_divide_le_eq)
  moreover have "compute_divisions xi xf = Inr (x0, d)" using assms by (simp add: compute_divisions_value d_def x0_def)
  moreover have "\<exists>k. d = 10 powi k \<or> d = 10 powi k * 2 \<or> d = 10 powi k * 5"
  proof -
    have "(10 :: rat) powi (k - 1) * 5 = 10 powi k / 2" for k by (simp add: power_int_diff)
    then show ?thesis unfolding d_def nearest_division_def Let_def by metis
  qed
  ultimately show ?thesis using t n(1,2) x0 by (intro exI [of _ x0] exI [of _ d] exI [of _ n]) simp
qed

lemma axis_ticks_run:
  assumes "xi < xf"
  obtains x0 d xs where "compute_divisions xi xf = Inr (x0, d)" "ticks x0 d xf = Some xs" "4 \<le> length xs" "length xs \<le> 9"
proof -
  obtain x0 d n where "compute_divisions xi xf = Inr (x0, d)" "ticks x0 d xf = Some (map (\<lambda>j. x0 + of_nat j * d) [0..<n])"
    "4 \<le> n" "n \<le> 9" using axis_ticks_all [OF assms] by blast
  then show thesis using that [of x0 d "map (\<lambda>j. x0 + of_nat j * d) [0..<n]"] by simp
qed

text \<open>Claim C25. The axis of a non-empty range: the division is 1, 2 or 5 times a power of ten, the loop over the ticks
ends, and there are between 4 and 9 ticks, one division apart, from at most one division before the range up to
less than one before its end.\<close>

theorem axis_ticks:
  assumes "xi < xf"
  shows "\<exists>x0 d xs. compute_divisions xi xf = Inr (x0, d) \<and> ticks x0 d xf = Some xs
    \<and> (\<exists>k. d = 10 powi k \<or> d = 10 powi k * 2 \<or> d = 10 powi k * 5)
    \<and> 4 \<le> length xs \<and> length xs \<le> 9 \<and> xs = map (\<lambda>j. x0 + of_nat j * d) [0..<length xs]
    \<and> xi - d \<le> x0 \<and> x0 < xi \<and> last xs < xf \<and> xf \<le> last xs + d"
proof -
  obtain x0 d n where r: "compute_divisions xi xf = Inr (x0, d)" "ticks x0 d xf = Some (map (\<lambda>j. x0 + of_nat j * d) [0..<n])"
    "\<exists>k. d = 10 powi k \<or> d = 10 powi k * 2 \<or> d = 10 powi k * 5" "4 \<le> n" "n \<le> 9" "xi - d \<le> x0" "x0 < xi"
    "x0 + of_nat (n - 1) * d < xf" "xf \<le> x0 + of_nat (n - 1) * d + d"
    using axis_ticks_all [OF assms] by blast
  moreover have "last (map (\<lambda>j. x0 + of_nat j * d) [0..<n]) = x0 + of_nat (n - 1) * d"
    using r(4) by (subst last_map) simp_all
  ultimately show ?thesis by (intro exI [of _ x0] exI [of _ d]) simp
qed

theorem axis_ticks_witness:
  "\<exists>x0 d xs. compute_divisions 0 100 = Inr (x0, d) \<and> ticks x0 d 100 = Some xs \<and> 4 \<le> length xs \<and> length xs \<le> 9 \<and> x0 < 0"
  using axis_ticks [of 0 100] by fastforce

section \<open>The pool of labels\<close>

lemma label_ticks_pool:
  assumes "\<And>x l. lab_id (f x l) = lab_id l \<and> lab_visible (f x l) = lab_visible l"
    and "map lab_id (labels a) @ map lab_id unused = [0..<next_label a]"
  shows "case label_ticks f xs unused a of (rest, b) \<Rightarrow>
    map lab_id (labels b) @ map lab_id rest = [0..<next_label b]
    \<and> map lab_visible (labels b) = map lab_visible (labels a) @ replicate (length xs) True
    \<and> rest = drop (length xs) unused \<and> next_label b = max (next_label a) (length (labels a) + length xs)"
  using assms(2)
proof (induction xs arbitrary: unused a)
  case Nil
  have "next_label a = length (labels a) + length unused" using Nil by (metis diff_zero length_append length_map length_upt)
  with Nil show ?case by simp
next
  case (Cons x xs)
  have len: "next_label a = length (labels a) + length unused" using Cons.prems by (metis diff_zero length_append length_map length_upt)
  show ?case
  proof (cases unused)
    case Nil
    let ?a = "a\<lparr>next_label := next_label a + 1, labels := labels a @ [f x \<lparr> lab_id = next_label a, lab_visible = True, font_size = 0, lab_value = 0, lab_x = 0, lab_y = 0 \<rparr>]\<rparr>"
    have "map lab_id (labels ?a) @ map lab_id [] = [0..<next_label ?a]" using Cons.prems Nil assms(1) by simp
    from Cons.IH [OF this] show ?thesis using Nil len assms(1) by (auto simp: get_label_def split: prod.splits)
  next
    case (Cons l ls)
    let ?a = "a\<lparr>labels := labels a @ [f x (l\<lparr>lab_visible := True\<rparr>)]\<rparr>"
    have "map lab_id (labels ?a) @ map lab_id ls = [0..<next_label ?a]" using Cons.prems Cons assms(1) by simp
    from Cons.IH [OF this] show ?thesis using Cons len assms(1) by (auto simp: get_label_def split: prod.splits)
  qed
qed

lemma label_fields [simp]:
  "lab_id (h_label z y x l) = lab_id l" "lab_visible (h_label z y x l) = lab_visible l"
  "lab_id (v_label z y x l) = lab_id l" "lab_visible (v_label z y x l) = lab_visible l"
  by (simp_all add: h_label_def v_label_def)

text \<open>One axis: it takes as many labels as it has ticks, the unused ones first.\<close>

definition axis_done :: "hud_label list \<Rightarrow> axes \<Rightarrow> drawing \<Rightarrow> bool" where
  "axis_done unused a r \<longleftrightarrow> (\<exists>n rest b. r = Some (Inr (), rest, b) \<and> 4 \<le> n \<and> n \<le> 9
     \<and> map lab_id (labels b) @ map lab_id rest = [0..<next_label b]
     \<and> map lab_visible (labels b) = map lab_visible (labels a) @ replicate n True
     \<and> rest = drop n unused \<and> next_label b = max (next_label a) (length (labels a) + n))"

lemma axis_doneI:
  assumes f: "\<And>x l. lab_id (f x l) = lab_id l \<and> lab_visible (f x l) = lab_visible l"
    and ids: "map lab_id (labels a) @ map lab_id unused = [0..<next_label a]"
    and xs: "4 \<le> length xs" "length xs \<le> 9"
    and g: "\<And>b. labels (g b) = labels b \<and> next_label (g b) = next_label b"
  shows "axis_done unused a (case label_ticks f xs unused a of (rest, b) \<Rightarrow> Some (Inr (), rest, g b))"
  using label_ticks_pool [of f a unused xs, OF f ids] xs g unfolding axis_done_def
  by (auto split: prod.splits)

lemma h_axis_done:
  assumes "x1 < x2" and ids: "map lab_id (labels a) @ map lab_id unused = [0..<next_label a]"
  shows "axis_done unused a (h_axis z (x1, y1) (x2, y2) unused a)"
proof -
  have "x1 / PIXELS_PER_METER < x2 / PIXELS_PER_METER" using assms(1) by (simp add: PIXELS_PER_METER_def)
  from axis_ticks_run [OF this] obtain x0 d xs where
    xs: "compute_divisions (x1 / PIXELS_PER_METER) (x2 / PIXELS_PER_METER) = Inr (x0, d)"
    "ticks x0 d (x2 / PIXELS_PER_METER) = Some xs" "4 \<le> length xs" "length xs \<le> 9" by blast
  have "axis_done unused (a\<lparr>axis_width := 5 / z\<rparr>) (h_axis z (x1, y1) (x2, y2) unused a)"
    unfolding h_axis_def Let_def using xs ids
    by simp (rule axis_doneI; simp)
  then show ?thesis by (simp add: axis_done_def)
qed

lemma v_axis_done:
  assumes "y1 < y2" and ids: "map lab_id (labels a) @ map lab_id unused = [0..<next_label a]"
  shows "axis_done unused a (v_axis z (x1, y1) (x2, y2) unused a)"
proof -
  have "y1 / PIXELS_PER_METER < y2 / PIXELS_PER_METER" using assms(1) by (simp add: PIXELS_PER_METER_def)
  from axis_ticks_run [OF this] obtain y0 d ys where
    ys: "compute_divisions (y1 / PIXELS_PER_METER) (y2 / PIXELS_PER_METER) = Inr (y0, d)"
    "ticks y0 d (y2 / PIXELS_PER_METER) = Some ys" "4 \<le> length ys" "length ys \<le> 9" by blast
  show ?thesis unfolding v_axis_def Let_def using ys ids by simp (rule axis_doneI; simp)
qed

text \<open>Redrawing the axes of a non-empty canvas returns and loses no label: the labels made so far are kept, in
order, new ones are made only for ticks that go beyond them, exactly the labels of the ticks are visible, and as
there are at most 18 ticks no more than 18 labels are ever made.\<close>

theorem labels_reused:
  assumes "map lab_id (labels a) = [0..<next_label a]" and "next_label a \<le> 18"
    and "z \<noteq> 0" and "x1 < x2" and "y1 < y2"
  shows "\<exists>n b. update_view (Some z) (x1, y1) (x2, y2) a = Some (Inr (), b) \<and> 8 \<le> n \<and> n \<le> 18
    \<and> map lab_id (labels b) = [0..<next_label b] \<and> next_label b = max (next_label a) n \<and> next_label b \<le> 18
    \<and> map lab_visible (labels b) = replicate n True @ replicate (next_label b - n) False"
proof -
  let ?unused = "map (\<lambda>l. l\<lparr>lab_visible := False\<rparr>) (labels a)" and ?a = "a\<lparr>labels := []\<rparr>"
  have ids: "map lab_id (labels ?a) @ map lab_id ?unused = [0..<next_label ?a]" using assms(1) by (simp add: comp_def)
  obtain m r1 b1 where h: "h_axis z (x1, y1) (x2, y2) ?unused ?a = Some (Inr (), r1, b1)" "4 \<le> m" "m \<le> 9"
    "map lab_id (labels b1) @ map lab_id r1 = [0..<next_label b1]" "map lab_visible (labels b1) = replicate m True"
    "r1 = drop m ?unused" "next_label b1 = max (next_label a) m"
    using h_axis_done [OF assms(4) ids, of z y1 y2] unfolding axis_done_def by auto
  obtain n r2 b2 where v: "v_axis z (x1, y1) (x2, y2) r1 b1 = Some (Inr (), r2, b2)" "4 \<le> n" "n \<le> 9"
    "map lab_id (labels b2) @ map lab_id r2 = [0..<next_label b2]"
    "map lab_visible (labels b2) = map lab_visible (labels b1) @ replicate n True"
    "r2 = drop n r1" "next_label b2 = max (next_label b1) (length (labels b1) + n)"
    using v_axis_done [OF assms(5) h(4), of z x1 x2] unfolding axis_done_def by auto
  let ?b = "b2\<lparr>labels := labels b2 @ r2\<rparr>"
  have run: "update_view (Some z) (x1, y1) (x2, y2) a = Some (Inr (), ?b)"
    using assms(3) h(1) v(1) by (simp add: update_view_def)
  have len: "length (labels a) = next_label a" using assms(1) by (metis diff_zero length_map length_upt)
  have lb: "length (labels b1) = m" using h(5) by (metis length_map length_replicate)
  have r2: "r2 = drop (m + n) ?unused" using h(6) v(6) by (simp add: add.commute)
  have "map lab_visible r2 = replicate (next_label a - (m + n)) False"
    unfolding r2 by (simp add: drop_map comp_def map_replicate_const len)
  moreover have "next_label ?b = max (next_label a) (m + n)" using h(7) v(7) lb by simp
  moreover have "map lab_visible (labels ?b) = replicate (m + n) True @ map lab_visible r2"
    using v(5) h(5) by (simp add: replicate_add)
  moreover have "max (next_label a) (m + n) - (m + n) = next_label a - (m + n)" by simp
  ultimately have vis: "map lab_visible (labels ?b) = replicate (m + n) True @ replicate (next_label ?b - (m + n)) False"
    and nx: "next_label ?b = max (next_label a) (m + n)" by simp_all
  show ?thesis
    using run vis nx v(2-4) h(2,3) assms(2) by (intro exI [of _ "m + n"] exI [of _ ?b]) simp
qed

theorem labels_reused_witness:
  "\<exists>n b. update_view (Some 1) (0, 0) (300, 200) new_axes = Some (Inr (), b) \<and> 8 \<le> n \<and> n \<le> 18 \<and> next_label b = n
    \<and> map lab_visible (labels b) = replicate n True"
  using labels_reused [of new_axes 1 0 300 0 200] by (fastforce simp: new_axes_def)

text \<open>An empty range ends the redrawing with an assertion, and the labels that were in use are gone.\<close>

lemma empty_range_loses_labels:
  assumes "z \<noteq> 0" "x2 \<le> x1"
  shows "\<exists>b. update_view (Some z) (x1, y1) (x2, y2) a = Some (Inl AssertionError, b) \<and> labels b = []"
  using assms by (simp add: update_view_def h_axis_def compute_divisions_value Let_def PIXELS_PER_METER_def)

end
