(* ===== verification/Viz_Sim.thy ===== *)
theory Viz_Sim
  imports Transitions Complex_Main "HOL-Library.Multiset"
begin

text \<open>
  The two threads of \<^verbatim>\<open>src/visualizer/visualizer/core.py\<close>: \<open>SimulationThread.run\<close>, and the main
  thread with the main loop of the tool kit, \<open>update_view_timeout\<close>, \<open>update_model\<close>, the play
  button, the speed, the handlers that take the lock, and \<open>_quit\<close>, as one step relation over the
  lock, the event \<open>go\<close> and what they share. The main thread is a stack of frames, because
  \<open>update_view_timeout\<close> runs the main loop while the simulator is busy, as does a modal dialog.
  Running the simulator moves its clock, at most to the target, and may produce pause messages.
  A timer of the main loop is its number; its callback is not entered again while it runs.
\<close>

section \<open>The state\<close>

datatype holder = Main | Sim

text \<open>Where the simulation thread is in \<open>run\<close>.\<close>

datatype sim_pc = Test_Quit | Wait_Go | Clear_Go | Check_Quit | Take_Lock
  | Run_Until | Get_Messages | Post_Model | Drop_Lock | Ended

text \<open>What the main thread is in: \<open>update_view_timeout\<close> called by a timer, \<open>update_model\<close>, another handler that
takes the lock, a modal dialog, or \<open>_quit\<close>.\<close>

datatype frame =
    Try_Lock nat | Fetch nat | Refresh nat "string list" | Unlock nat "string list" | Tell nat "string list" | Decide nat
  | Model_Lock | Model_Emit
  | Handler_Lock | Handler_Body
  | Modal
  | Quit_Timer | Quit_Flag | Quit_Go | Quit_Join

text \<open>
  \<open>shown\<close> is the time of the last view; the messages produced, shown, and lost with a view that
  could not be drawn are kept to state what becomes of them.
\<close>

record gui =
  go :: bool
  quitting :: bool
  lock :: "holder option"
  target_time :: rat
  now :: rat
  shown :: rat
  sample_period :: rat
  sim :: sim_pc
  pausing :: "string list"
  pause_messages :: "string list"
  produced :: "string list"
  dialogs :: "string list"
  lost :: "string list"
  models :: nat
  sources :: "nat list"
  timer_id :: "nat option"
  next_id :: nat
  bad_removals :: nat
  playing :: bool
  frames :: "frame list"
  over :: bool

definition SAMPLE_PERIOD :: rat where "SAMPLE_PERIOD = 1 / 10"

section \<open>The simulation thread\<close>

inductive sim_step :: "gui \<Rightarrow> gui \<Rightarrow> bool" where
  test_quit: "sim s = Test_Quit \<Longrightarrow> sim_step s (s\<lparr>sim := (if quitting s then Ended else Wait_Go)\<rparr>)"
| wait_go: "sim s = Wait_Go \<Longrightarrow> go s \<Longrightarrow> sim_step s (s\<lparr>sim := Clear_Go\<rparr>)"
| clear_go: "sim s = Clear_Go \<Longrightarrow> sim_step s (s\<lparr>go := False, sim := Check_Quit\<rparr>)"
| check_quit: "sim s = Check_Quit \<Longrightarrow> sim_step s (s\<lparr>sim := (if quitting s then Ended else Take_Lock)\<rparr>)"
| take_lock: "sim s = Take_Lock \<Longrightarrow> lock s = None \<Longrightarrow> sim_step s (s\<lparr>lock := Some Sim, sim := Run_Until\<rparr>)"
| run_until: "sim s = Run_Until \<Longrightarrow> now s \<le> t \<Longrightarrow> t \<le> max (now s) (target_time s) \<Longrightarrow>
    sim_step s (s\<lparr>now := t, pausing := pausing s @ ms, produced := produced s @ ms, sim := Get_Messages\<rparr>)"
| get_messages: "sim s = Get_Messages \<Longrightarrow>
    sim_step s (s\<lparr>pause_messages := pause_messages s @ pausing s, pausing := [], sim := Post_Model\<rparr>)"
| post_model: "sim s = Post_Model \<Longrightarrow> sim_step s (s\<lparr>models := models s + 1, sim := Drop_Lock\<rparr>)"
| drop_lock: "sim s = Drop_Lock \<Longrightarrow> sim_step s (s\<lparr>lock := None, sim := Test_Quit\<rparr>)"

section \<open>Timers and the play button\<close>

definition source_remove :: "nat \<Rightarrow> gui \<Rightarrow> gui" where
  "source_remove i s = (if i \<in> set (sources s) then s\<lparr>sources := removeAll i (sources s)\<rparr>
     else s\<lparr>bad_removals := bad_removals s + 1\<rparr>)"

definition remove_timer :: "gui \<Rightarrow> gui" where
  "remove_timer s = (case timer_id s of None \<Rightarrow> s | Some i \<Rightarrow> source_remove i s)"

definition start_update_timer :: "gui \<Rightarrow> gui" where
  "start_update_timer s = (let s = remove_timer s
     in s\<lparr>sources := sources s @ [next_id s], timer_id := Some (next_id s), next_id := next_id s + 1\<rparr>)"

definition on_play_button_toggled :: "gui \<Rightarrow> gui" where
  "on_play_button_toggled s = (if playing s then start_update_timer s else remove_timer s)"

definition set_active :: "bool \<Rightarrow> gui \<Rightarrow> gui" where
  "set_active b s = (if playing s = b then s else on_play_button_toggled (s\<lparr>playing := b\<rparr>))"

definition speed_changed :: "rat \<Rightarrow> gui \<Rightarrow> gui" where
  "speed_changed v s = start_update_timer (s\<lparr>sample_period := SAMPLE_PERIOD * v\<rparr>)"

section \<open>The main thread\<close>

text \<open>\<open>update_view\<close> shows the time first; when it raises, the lock is released and the timer, whose callback
did not answer True, is gone.\<close>

inductive timeout_step :: "gui \<Rightarrow> gui \<Rightarrow> bool" where
  acquired: "frames s = Try_Lock i # fs \<Longrightarrow> lock s = None \<Longrightarrow>
    timeout_step s (s\<lparr>lock := Some Main, frames := Fetch i # fs\<rparr>)"
| fetch: "frames s = Fetch i # fs \<Longrightarrow>
    timeout_step s (s\<lparr>pause_messages := [], frames := Refresh i (pause_messages s) # fs\<rparr>)"
| refresh: "frames s = Refresh i ms # fs \<Longrightarrow>
    timeout_step s (s\<lparr>shown := now s, target_time := now s + sample_period s, frames := Unlock i ms # fs\<rparr>)"
| refresh_raises: "frames s = Refresh i ms # fs \<Longrightarrow>
    timeout_step s (s\<lparr>shown := now s, lost := lost s @ ms, lock := None, sources := removeAll i (sources s), frames := fs\<rparr>)"
| unlock: "frames s = Unlock i ms # fs \<Longrightarrow> timeout_step s (s\<lparr>lock := None, frames := Tell i ms # fs\<rparr>)"
| tell: "frames s = Tell i ms # fs \<Longrightarrow>
    timeout_step s ((if ms = [] then s else set_active False (s\<lparr>dialogs := dialogs s @ ms\<rparr>))\<lparr>frames := Decide i # fs\<rparr>)"
| decide: "frames s = Decide i # fs \<Longrightarrow>
    timeout_step s (if playing s then s\<lparr>go := True, frames := fs\<rparr>
      else s\<lparr>timer_id := None, sources := removeAll i (sources s), frames := fs\<rparr>)"

inductive model_step :: "gui \<Rightarrow> gui \<Rightarrow> bool" where
  model_lock: "frames s = Model_Lock # fs \<Longrightarrow> lock s = None \<Longrightarrow>
    model_step s (s\<lparr>lock := Some Main, frames := Model_Emit # fs\<rparr>)"
| model_emit: "frames s = Model_Emit # fs \<Longrightarrow> model_step s (s\<lparr>lock := None, frames := fs\<rparr>)"

inductive handler_step :: "gui \<Rightarrow> gui \<Rightarrow> bool" where
  handler_lock: "frames s = Handler_Lock # fs \<Longrightarrow> lock s = None \<Longrightarrow>
    handler_step s (s\<lparr>lock := Some Main, frames := Handler_Body # fs\<rparr>)"
| handler_body: "frames s = Handler_Body # fs \<Longrightarrow> handler_step s (s\<lparr>lock := None, frames := fs\<rparr>)"
| modal_closed: "frames s = Modal # fs \<Longrightarrow> handler_step s (s\<lparr>frames := fs\<rparr>)"

inductive quit_step :: "gui \<Rightarrow> gui \<Rightarrow> bool" where
  quit_timer: "frames s = Quit_Timer # fs \<Longrightarrow>
    quit_step s ((if timer_id s = None then s else (remove_timer s)\<lparr>timer_id := None\<rparr>)\<lparr>frames := Quit_Flag # fs\<rparr>)"
| quit_flag: "frames s = Quit_Flag # fs \<Longrightarrow> quit_step s (s\<lparr>quitting := True, frames := Quit_Go # fs\<rparr>)"
| quit_go: "frames s = Quit_Go # fs \<Longrightarrow> quit_step s (s\<lparr>go := True, frames := Quit_Join # fs\<rparr>)"
| quit_join: "frames s = Quit_Join # fs \<Longrightarrow> sim s = Ended \<Longrightarrow> quit_step s (s\<lparr>over := True, frames := fs\<rparr>)"

text \<open>The main loop takes an event, at the bottom, in a modal dialog, or while the view waits for the lock.\<close>

fun waits :: "frame \<Rightarrow> bool" where
  "waits (Try_Lock _) = True"
| "waits Modal = True"
| "waits _ = False"

definition in_loop :: "gui \<Rightarrow> bool" where
  "in_loop s = (case frames s of [] \<Rightarrow> \<not> over s | f # _ \<Rightarrow> waits f)"

fun timer_of :: "frame \<Rightarrow> nat option" where
  "timer_of (Try_Lock i) = Some i"
| "timer_of (Fetch i) = Some i"
| "timer_of (Refresh i _) = Some i"
| "timer_of (Unlock i _) = Some i"
| "timer_of (Tell i _) = Some i"
| "timer_of (Decide i) = Some i"
| "timer_of _ = None"

inductive dispatch :: "gui \<Rightarrow> gui \<Rightarrow> bool" where
  timer: "in_loop s \<Longrightarrow> i \<in> set (sources s) \<Longrightarrow> Some i \<notin> timer_of ` set (frames s) \<Longrightarrow>
    dispatch s (s\<lparr>frames := Try_Lock i # frames s\<rparr>)"
| idle: "in_loop s \<Longrightarrow> models s = Suc n \<Longrightarrow> dispatch s (s\<lparr>models := n, frames := Model_Lock # frames s\<rparr>)"
| handler: "in_loop s \<Longrightarrow> dispatch s (s\<lparr>frames := Handler_Lock # frames s\<rparr>)"
| dialog: "in_loop s \<Longrightarrow> dispatch s (s\<lparr>frames := Modal # frames s\<rparr>)"
| play: "in_loop s \<Longrightarrow> dispatch s (set_active (\<not> playing s) s)"
| speed: "in_loop s \<Longrightarrow> 1 / 100 \<le> v \<Longrightarrow> v \<le> 10 \<Longrightarrow> dispatch s (speed_changed v s)"
| quit_event: "in_loop s \<Longrightarrow> dispatch s (s\<lparr>frames := Quit_Timer # frames s\<rparr>)"

definition step :: "gui \<Rightarrow> gui \<Rightarrow> bool" where
  "step s t \<longleftrightarrow> sim_step s t \<or> timeout_step s t \<or> model_step s t \<or> handler_step s t \<or> quit_step s t \<or> dispatch s t"

text \<open>After \<open>start\<close>: the speed has been set, which starts a timer, and the thread begins.\<close>

definition gui_start :: gui where
  "gui_start = speed_changed 1 \<lparr> go = False, quitting = False, lock = None, target_time = 0, now = 0, shown = 0,
     sample_period = SAMPLE_PERIOD, sim = Test_Quit, pausing = [], pause_messages = [], produced = [], dialogs = [],
     lost = [], models = 0, sources = [], timer_id = None, next_id = 0, bad_removals = 0, playing = False,
     frames = [], over = False \<rparr>"

inductive_cases sim_stepE: "sim_step s t"
inductive_cases timeout_stepE: "timeout_step s t"
inductive_cases model_stepE: "model_step s t"
inductive_cases handler_stepE: "handler_step s t"
inductive_cases quit_stepE: "quit_step s t"
inductive_cases dispatchE: "dispatch s t"

lemmas step_cases = sim_stepE timeout_stepE model_stepE handler_stepE quit_stepE dispatchE

abbreviation reachable :: "gui \<Rightarrow> bool" where "reachable \<equiv> step\<^sup>*\<^sup>* gui_start"

section \<open>The lock\<close>

fun holds :: "frame \<Rightarrow> bool" where
  "holds (Fetch _) = True"
| "holds (Refresh _ _) = True"
| "holds (Unlock _ _) = True"
| "holds Model_Emit = True"
| "holds Handler_Body = True"
| "holds _ = False"

definition sim_holds :: "sim_pc \<Rightarrow> bool" where
  "sim_holds pc \<longleftrightarrow> pc \<in> {Run_Until, Get_Messages, Post_Model, Drop_Lock}"

text \<open>Changes of timers leave everything else alone.\<close>

lemma timer_frame [simp]:
  "sim (remove_timer s) = sim s" "lock (remove_timer s) = lock s" "frames (remove_timer s) = frames s"
  "go (remove_timer s) = go s" "quitting (remove_timer s) = quitting s" "over (remove_timer s) = over s"
  "now (remove_timer s) = now s" "shown (remove_timer s) = shown s" "target_time (remove_timer s) = target_time s"
  "sample_period (remove_timer s) = sample_period s" "pausing (remove_timer s) = pausing s"
  "pause_messages (remove_timer s) = pause_messages s" "produced (remove_timer s) = produced s"
  "dialogs (remove_timer s) = dialogs s" "lost (remove_timer s) = lost s" "models (remove_timer s) = models s"
  "playing (remove_timer s) = playing s"
  by (simp_all add: remove_timer_def source_remove_def split: option.split)

lemma start_timer_frame [simp]:
  "sim (start_update_timer s) = sim s" "lock (start_update_timer s) = lock s" "frames (start_update_timer s) = frames s"
  "go (start_update_timer s) = go s" "quitting (start_update_timer s) = quitting s" "over (start_update_timer s) = over s"
  "now (start_update_timer s) = now s" "shown (start_update_timer s) = shown s"
  "target_time (start_update_timer s) = target_time s" "sample_period (start_update_timer s) = sample_period s"
  "pausing (start_update_timer s) = pausing s" "pause_messages (start_update_timer s) = pause_messages s"
  "produced (start_update_timer s) = produced s" "dialogs (start_update_timer s) = dialogs s"
  "lost (start_update_timer s) = lost s" "models (start_update_timer s) = models s" "playing (start_update_timer s) = playing s"
  by (simp_all add: start_update_timer_def Let_def)

lemma set_active_frame [simp]:
  "sim (set_active b s) = sim s" "lock (set_active b s) = lock s" "frames (set_active b s) = frames s"
  "go (set_active b s) = go s" "quitting (set_active b s) = quitting s" "over (set_active b s) = over s"
  "now (set_active b s) = now s" "shown (set_active b s) = shown s" "target_time (set_active b s) = target_time s"
  "sample_period (set_active b s) = sample_period s" "pausing (set_active b s) = pausing s"
  "pause_messages (set_active b s) = pause_messages s" "produced (set_active b s) = produced s"
  "dialogs (set_active b s) = dialogs s" "lost (set_active b s) = lost s" "models (set_active b s) = models s"
  "playing (set_active b s) = b"
  by (simp_all add: set_active_def on_play_button_toggled_def)

lemma speed_frame [simp]:
  "sim (speed_changed v s) = sim s" "lock (speed_changed v s) = lock s" "frames (speed_changed v s) = frames s"
  "go (speed_changed v s) = go s" "quitting (speed_changed v s) = quitting s" "over (speed_changed v s) = over s"
  "now (speed_changed v s) = now s" "shown (speed_changed v s) = shown s" "target_time (speed_changed v s) = target_time s"
  "sample_period (speed_changed v s) = SAMPLE_PERIOD * v" "pausing (speed_changed v s) = pausing s"
  "pause_messages (speed_changed v s) = pause_messages s" "produced (speed_changed v s) = produced s"
  "dialogs (speed_changed v s) = dialogs s" "lost (speed_changed v s) = lost s" "models (speed_changed v s) = models s"
  by (simp_all add: speed_changed_def)

text \<open>The lock belongs to the thread that is inside, on the main thread to the frame on top; the frames below
wait in the main loop; \<open>_quit\<close> that waits for the thread has set the flag, and the event if the thread is
before it; the main loop is left after the thread has ended.\<close>

definition sync_ok :: "gui \<Rightarrow> bool" where
  "sync_ok s \<longleftrightarrow> (lock s = Some Sim \<longleftrightarrow> sim_holds (sim s))
     \<and> (lock s = Some Main \<longleftrightarrow> frames s \<noteq> [] \<and> holds (hd (frames s)))
     \<and> (\<forall>f \<in> set (tl (frames s)). waits f)
     \<and> (frames s \<noteq> [] \<and> hd (frames s) = Quit_Go \<longrightarrow> quitting s)
     \<and> (frames s \<noteq> [] \<and> hd (frames s) = Quit_Join \<longrightarrow> quitting s \<and> (sim s = Wait_Go \<longrightarrow> go s))
     \<and> (over s \<longrightarrow> sim s = Ended)"

lemma waits_not_holds: "waits f \<Longrightarrow> \<not> holds f \<and> f \<noteq> Quit_Go \<and> f \<noteq> Quit_Join"
  by (cases f) simp_all

lemma sync_start: "sync_ok gui_start"
  by (simp add: sync_ok_def gui_start_def sim_holds_def)

lemma sync_top: "frames s = f # fs \<Longrightarrow> sync_ok s \<longleftrightarrow> (lock s = Some Sim \<longleftrightarrow> sim_holds (sim s)) \<and> (lock s = Some Main \<longleftrightarrow> holds f)
    \<and> (\<forall>f \<in> set fs. waits f) \<and> (f = Quit_Go \<longrightarrow> quitting s) \<and> (f = Quit_Join \<longrightarrow> quitting s \<and> (sim s = Wait_Go \<longrightarrow> go s))
    \<and> (over s \<longrightarrow> sim s = Ended)"
  by (auto simp: sync_ok_def)

lemma sync_loop: "\<forall>f \<in> set (frames s). waits f \<Longrightarrow>
    sync_ok s \<longleftrightarrow> (lock s = Some Sim \<longleftrightarrow> sim_holds (sim s)) \<and> lock s \<noteq> Some Main \<and> (over s \<longrightarrow> sim s = Ended)"
  by (cases "frames s") (auto simp: sync_ok_def dest: waits_not_holds)

lemma sync_in_loop: "sync_ok s \<Longrightarrow> in_loop s \<Longrightarrow> \<forall>f \<in> set (frames s). waits f"
  by (cases "frames s") (auto simp: sync_ok_def in_loop_def)

lemma sync_timeout: "sync_ok s \<Longrightarrow> timeout_step s t \<Longrightarrow> sync_ok t"
proof (erule timeout_stepE)
  fix i ms fs
  assume ok: "sync_ok s"
  show "frames s = Refresh i ms # fs \<Longrightarrow>
    t = s\<lparr>shown := now s, lost := lost s @ ms, lock := None, sources := removeAll i (sources s), frames := fs\<rparr> \<Longrightarrow> sync_ok t"
    using ok sync_top [of s "Refresh i ms" fs] sync_loop [of t] by auto
  show "frames s = Decide i # fs \<Longrightarrow> t = (if playing s then s\<lparr>go := True, frames := fs\<rparr>
      else s\<lparr>timer_id := None, sources := removeAll i (sources s), frames := fs\<rparr>) \<Longrightarrow> sync_ok t"
    using ok sync_top [of s "Decide i" fs] sync_loop [of t] by auto
qed (auto simp: sync_top)

lemma sync_step: "sync_ok s \<Longrightarrow> step s t \<Longrightarrow> sync_ok t"
  unfolding step_def
proof (elim disjE)
  assume ok: "sync_ok s"
  show "sim_step s t \<Longrightarrow> sync_ok t"
    using ok by (elim sim_stepE) (auto simp: sync_ok_def sim_holds_def)
  show "timeout_step s t \<Longrightarrow> sync_ok t" by (rule sync_timeout [OF ok])
  show "model_step s t \<Longrightarrow> sync_ok t"
    using ok sync_loop [of t] by (elim model_stepE) (auto simp: sync_top)
  show "handler_step s t \<Longrightarrow> sync_ok t"
    using ok sync_loop [of t] by (elim handler_stepE) (auto simp: sync_top)
  show "quit_step s t \<Longrightarrow> sync_ok t"
    using ok sync_loop [of t] by (elim quit_stepE) (auto simp: sync_top)
  show "dispatch s t \<Longrightarrow> sync_ok t"
    using ok sync_in_loop [OF ok] sync_loop [of s] sync_loop [of t] by (elim dispatchE) (auto simp: sync_top)
qed

interpretation sync: invariant_system step sync_ok
  by unfold_locales (rule sync_step)

lemma reachable_sync: "reachable s \<Longrightarrow> sync_ok s"
  using sync.inv_run sync_start by blast

text \<open>Claim C21. The simulator and what the threads share are used under mutual exclusion: in every reachable
state the simulation thread and the main thread are not both between the acquisition and the release of the
lock, and at most one frame of the main thread is.\<close>

theorem lock_is_exclusive:
  assumes "step\<^sup>*\<^sup>* gui_start s"
  shows "\<not> (sim_holds (sim s) \<and> (\<exists>f \<in> set (frames s). holds f)) \<and> length (filter holds (frames s)) \<le> 1"
proof -
  note ok = reachable_sync [OF assms]
  show ?thesis
  proof (cases "frames s")
    case (Cons f fs)
    then have "filter holds fs = []" using ok by (auto simp: sync_top filter_empty_conv dest: waits_not_holds)
    then show ?thesis using ok Cons by (auto simp: sync_top filter_empty_conv)
  qed simp
qed

text \<open>The steps of the main thread in a callback.\<close>

definition main_step :: "gui \<Rightarrow> gui \<Rightarrow> bool" where
  "main_step s t \<longleftrightarrow> timeout_step s t \<or> model_step s t \<or> handler_step s t \<or> quit_step s t"

lemma sim_can_step:
  assumes "sim s \<noteq> Ended" "sim s = Wait_Go \<longrightarrow> go s" "sim s = Take_Lock \<longrightarrow> lock s = None"
  shows "\<exists>t. sim_step s t"
proof (cases "sim s")
  case Run_Until
  then show ?thesis using run_until [of s "now s"] by auto
qed (use assms in \<open>auto intro: sim_step.intros\<close>)

fun needs_lock :: "frame \<Rightarrow> bool" where
  "needs_lock (Try_Lock _) = True"
| "needs_lock Model_Lock = True"
| "needs_lock Handler_Lock = True"
| "needs_lock _ = False"

lemma main_can_step:
  assumes "frames s = f # fs" "f \<noteq> Quit_Join" "needs_lock f \<longrightarrow> lock s = None"
  shows "\<exists>t. main_step s t"
  using assms unfolding main_step_def
  by (cases f) (auto intro: timeout_step.intros model_step.intros handler_step.intros quit_step.intros)

text \<open>Claim C6. No deadlock: in every reachable state in which the main thread is in a callback, it can go on
with it or the simulation thread can take a step; in particular no callback waits for a lock that the main
thread itself holds, and \<open>_quit\<close> never joins a thread that waits for ever.\<close>

theorem callbacks_never_stuck:
  assumes "step\<^sup>*\<^sup>* gui_start s" and "frames s \<noteq> []"
  shows "(\<exists>t. main_step s t) \<or> (\<exists>t. sim_step s t)"
proof -
  obtain f fs where f: "frames s = f # fs" using assms(2) by (cases "frames s") auto
  note ok = reachable_sync [OF assms(1), unfolded sync_top [OF f]]
  consider "f = Quit_Join" | "needs_lock f" "lock s \<noteq> None" | "f \<noteq> Quit_Join" "needs_lock f \<longrightarrow> lock s = None"
    by (cases "f = Quit_Join"; cases "lock s = None") auto
  then show ?thesis
  proof cases
    case 1
    show ?thesis
    proof (cases "sim s = Ended")
      case True
      then show ?thesis using f 1 quit_join unfolding main_step_def by blast
    next
      case False
      have "lock s \<noteq> Some Main" using ok 1 by simp
      then have "sim s = Take_Lock \<longrightarrow> lock s = None" using ok by (cases "lock s") (auto simp: sim_holds_def intro: holder.exhaust)
      with False ok 1 show ?thesis using sim_can_step [of s] by blast
    qed
  next
    case 2
    then have "lock s \<noteq> Some Main" using ok by (cases f) auto
    with 2 ok have "sim_holds (sim s)" by (cases "lock s") (auto intro: holder.exhaust)
    then show ?thesis using sim_can_step [of s] by (auto simp: sim_holds_def)
  next
    case 3
    then show ?thesis using main_can_step [OF f] by blast
  qed
qed

section \<open>Quitting\<close>

text \<open>How far the simulation thread is from its end once it has been told to quit.\<close>

fun to_end :: "sim_pc \<Rightarrow> nat" where
  "to_end Take_Lock = 6"
| "to_end Run_Until = 5"
| "to_end Get_Messages = 4"
| "to_end Post_Model = 3"
| "to_end Drop_Lock = 2"
| "to_end Wait_Go = 3"
| "to_end Clear_Go = 2"
| "to_end Check_Quit = 1"
| "to_end Test_Quit = 1"
| "to_end Ended = 0"

definition joining :: "gui \<Rightarrow> bool" where
  "joining s \<longleftrightarrow> sync_ok s \<and> frames s \<noteq> [] \<and> hd (frames s) = Quit_Join"

definition join_step :: "gui \<Rightarrow> gui \<Rightarrow> bool" where
  "join_step s t \<longleftrightarrow> joining s \<and> sim s \<noteq> Ended \<and> step s t"

lemma join_step_sim:
  assumes "join_step s t"
  shows "sim_step s t" "frames t = frames s" "to_end (sim t) < to_end (sim s)" "joining t"
proof -
  obtain fs where f: "frames s = Quit_Join # fs" using assms unfolding join_step_def joining_def by (cases "frames s") auto
  have s: "sync_ok s" "sim s \<noteq> Ended" "step s t" using assms by (auto simp: join_step_def joining_def)
  have "\<not> dispatch s t" using f by (auto elim!: dispatchE simp: in_loop_def)
  moreover have "\<not> timeout_step s t" "\<not> model_step s t" "\<not> handler_step s t" "\<not> quit_step s t"
    using f s(2) by (auto elim: timeout_stepE model_stepE handler_stepE quit_stepE)
  ultimately show *: "sim_step s t" using s(3) unfolding step_def by blast
  show fr: "frames t = frames s" using * by (auto elim: sim_stepE)
  show "to_end (sim t) < to_end (sim s)" using * s(1) f by (auto simp: sync_top elim!: sim_stepE)
  show "joining t" using sync_step [OF s(1,3)] fr f by (simp add: joining_def)
qed

interpretation join: weighted_system join_step "\<lambda>s. to_end (sim s)"
  by unfold_locales (rule join_step_sim(3))

lemma join_run: "join_step\<^sup>*\<^sup>* s t \<Longrightarrow> joining s \<Longrightarrow> joining t \<and> frames t = frames s"
  by (induction rule: rtranclp_induct) (auto dest: join_step_sim)

lemma join_step_exists:
  assumes "joining s" "sim s \<noteq> Ended"
  shows "\<exists>t. join_step s t"
proof -
  obtain fs where f: "frames s = Quit_Join # fs" using assms(1) unfolding joining_def by (cases "frames s") auto
  have ok: "sync_ok s" using assms(1) by (simp add: joining_def)
  have "sim s = Take_Lock \<longrightarrow> lock s = None"
    using ok f by (cases "lock s") (auto simp: sync_top sim_holds_def intro: holder.exhaust)
  with ok f assms(2) obtain t where "sim_step s t" using sim_can_step [of s] by (auto simp: sync_top)
  with assms show ?thesis unfolding join_step_def step_def by blast
qed

text \<open>Claim C7. Quitting ends: from every reachable state in which \<open>_quit\<close> is in \<open>join\<close>, there are at most six
steps until the simulation thread has ended, whatever happens they are its own, and they lead to its end:
the wake-up of a thread that waits for \<open>go\<close>, or is about to, is not lost.\<close>

theorem quit_joins:
  assumes "step\<^sup>*\<^sup>* gui_start s" and "frames s = Quit_Join # fs"
  shows "(\<exists>t. join_step\<^sup>*\<^sup>* s t \<and> sim t = Ended \<and> frames t = frames s)
    \<and> (\<forall>n t. (join_step ^^ n) s t \<longrightarrow> n \<le> 6)
    \<and> (\<forall>t. join_step s t \<longrightarrow> sim_step s t)"
proof (intro conjI allI impI)
  have j: "joining s" using reachable_sync [OF assms(1)] assms(2) by (simp add: joining_def)
  obtain t where t: "join_step\<^sup>*\<^sup>* s t" "\<not> (\<exists>u. join_step t u)" using join.run_ends by blast
  with join_run [OF t(1) j] join_step_exists [of t]
  show "\<exists>t. join_step\<^sup>*\<^sup>* s t \<and> sim t = Ended \<and> frames t = frames s" by blast
next
  fix n t assume "(join_step ^^ n) s t"
  then have "n + to_end (sim t) \<le> to_end (sim s)" by (rule join.run_bound)
  also have "\<dots> \<le> 6" by (cases "sim s") simp_all
  finally show "n \<le> 6" by simp
qed (rule join_step_sim(1))

section \<open>Pause messages\<close>

text \<open>The messages that the frame on top has taken.\<close>

fun taken :: "frame \<Rightarrow> string list" where
  "taken (Refresh _ ms) = ms"
| "taken (Unlock _ ms) = ms"
| "taken (Tell _ ms) = ms"
| "taken _ = []"

definition in_hand :: "gui \<Rightarrow> string list" where
  "in_hand s = (case frames s of [] \<Rightarrow> [] | f # _ \<Rightarrow> taken f)"

definition messages_ok :: "gui \<Rightarrow> bool" where
  "messages_ok s \<longleftrightarrow> sync_ok s
     \<and> (sim s \<noteq> Get_Messages \<longrightarrow> pausing s = [])
     \<and> mset (produced s) = mset (dialogs s) + mset (lost s) + mset (in_hand s) + mset (pause_messages s) + mset (pausing s)
     \<and> (lost s = [] \<longrightarrow> produced s = dialogs s @ in_hand s @ pause_messages s @ pausing s)"

lemma waits_taken: "waits f \<Longrightarrow> taken f = []"
  by (cases f) simp_all

lemma in_hand_loop: "\<forall>f \<in> set (frames s). waits f \<Longrightarrow> in_hand s = []"
  by (auto simp: in_hand_def waits_taken split: list.split)

lemma in_hand_top: "frames s = f # fs \<Longrightarrow> in_hand s = taken f"
  by (simp add: in_hand_def)

lemma in_hand_frames: "frames t = frames s \<Longrightarrow> in_hand t = in_hand s"
  by (simp add: in_hand_def)

lemma messages_step: "messages_ok s \<Longrightarrow> step s t \<Longrightarrow> messages_ok t"
proof -
  assume m: "messages_ok s" and st: "step s t"
  then have ok: "sync_ok s" "sync_ok t" using sync_step by (auto simp: messages_ok_def)
  have below: "\<forall>f \<in> set fs. waits f" if "frames s = f # fs" for f fs using ok(1) that by (simp add: sync_top)
  have pop: "in_hand t = []" if "frames s = f # frames t" for f using below [OF that] in_hand_loop by blast
  from st show ?thesis unfolding step_def
  proof (elim disjE)
    show "sim_step s t \<Longrightarrow> messages_ok t"
      using m ok by (elim sim_stepE) (auto simp: messages_ok_def in_hand_def sim_holds_def)
    show "timeout_step s t \<Longrightarrow> messages_ok t"
      using m ok(2) pop by (elim timeout_stepE) (auto simp: messages_ok_def in_hand_top ac_simps)
    show "model_step s t \<Longrightarrow> messages_ok t"
      using m ok(2) pop by (elim model_stepE) (auto simp: messages_ok_def in_hand_top)
    show "handler_step s t \<Longrightarrow> messages_ok t"
      using m ok(2) pop by (elim handler_stepE) (auto simp: messages_ok_def in_hand_top)
    show "quit_step s t \<Longrightarrow> messages_ok t"
      using m ok(2) pop by (elim quit_stepE) (auto simp: messages_ok_def in_hand_top)
    show "dispatch s t \<Longrightarrow> messages_ok t"
      using m ok(2) sync_in_loop [OF ok(1)] in_hand_loop [of s] in_hand_frames [of t s]
      by (elim dispatchE) (auto simp: messages_ok_def in_hand_top)
  qed
qed

interpretation messages: invariant_system step messages_ok
  by unfold_locales (rule messages_step)

lemma messages_start: "messages_ok gui_start"
  using sync_start by (simp add: messages_ok_def in_hand_def) (simp add: gui_start_def)

text \<open>Claim C22. No pause message is lost or shown twice: in every reachable state the messages that the
simulator has produced are, as a multiset, those shown, those in the hands of the view, those waiting for
it, and those lost with a view that could not be drawn; without such a view they are shown in the order in
which they were produced.\<close>

theorem pause_messages_conserved:
  assumes "step\<^sup>*\<^sup>* gui_start s"
  shows "mset (produced s) = mset (dialogs s) + mset (lost s) + mset (in_hand s) + mset (pause_messages s) + mset (pausing s)
    \<and> (lost s = [] \<longrightarrow> (\<exists>rest. produced s = dialogs s @ rest))"
proof -
  have "messages_ok s" by (rule messages.inv_run [OF assms messages_start])
  then show ?thesis unfolding messages_ok_def by blast
qed

section \<open>Time\<close>

definition time_ok :: "gui \<Rightarrow> bool" where
  "time_ok s \<longleftrightarrow> shown s \<le> now s \<and> now s \<le> max (shown s) (target_time s) \<and> target_time s \<le> shown s + 1
     \<and> 0 < sample_period s \<and> sample_period s \<le> 1"

lemma time_step: "time_ok s \<Longrightarrow> step s t \<Longrightarrow> time_ok t"
proof -
  assume ok: "time_ok s" and st: "step s t"
  from st show ?thesis unfolding step_def
  proof (elim disjE)
    show "sim_step s t \<Longrightarrow> time_ok t" using ok by (elim sim_stepE) (auto simp: time_ok_def)
    show "timeout_step s t \<Longrightarrow> time_ok t" using ok by (elim timeout_stepE) (auto simp: time_ok_def)
    show "model_step s t \<Longrightarrow> time_ok t" using ok by (elim model_stepE) (auto simp: time_ok_def)
    show "handler_step s t \<Longrightarrow> time_ok t" using ok by (elim handler_stepE) (auto simp: time_ok_def)
    show "quit_step s t \<Longrightarrow> time_ok t" using ok by (elim quit_stepE) (auto simp: time_ok_def)
    show "dispatch s t \<Longrightarrow> time_ok t" using ok by (elim dispatchE) (auto simp: time_ok_def SAMPLE_PERIOD_def)
  qed
qed

interpretation time: invariant_system step time_ok
  by unfold_locales (rule time_step)

text \<open>Claim C23. The simulation is never behind the view and at most one second, the longest sample period,
ahead of it.\<close>

theorem view_keeps_up:
  assumes "step\<^sup>*\<^sup>* gui_start s"
  shows "shown s \<le> now s \<and> now s \<le> shown s + 1"
proof -
  have "time_ok gui_start" by (simp add: time_ok_def) (simp add: gui_start_def SAMPLE_PERIOD_def)
  then have "time_ok s" by (rule time.inv_run [OF assms])
  then show ?thesis by (auto simp: time_ok_def)
qed

section \<open>Timers left behind\<close>

lemma gui_start_value: "gui_start = \<lparr> go = False, quitting = False, lock = None, target_time = 0, now = 0, shown = 0,
     sample_period = 1 / 10, sim = Test_Quit, pausing = [], pause_messages = [], produced = [], dialogs = [],
     lost = [], models = 0, sources = [0], timer_id = Some 0, next_id = 1, bad_removals = 0, playing = False,
     frames = [], over = False \<rparr>"
  by (simp add: gui_start_def speed_changed_def start_update_timer_def remove_timer_def SAMPLE_PERIOD_def)

lemmas timer_defs = speed_changed_def start_update_timer_def remove_timer_def source_remove_def set_active_def
  on_play_button_toggled_def SAMPLE_PERIOD_def

text \<open>One call of \<open>update_view_timeout\<close> while the simulation thread is idle.\<close>

lemma timeout_run:
  assumes "frames s = Try_Lock i # fs" "lock s = None" "pause_messages s = []"
  shows "step\<^sup>*\<^sup>* s (let s = s\<lparr>lock := None, pause_messages := [], shown := now s, target_time := now s + sample_period s,
        frames := Decide i # fs\<rparr>
     in if playing s then s\<lparr>go := True, frames := fs\<rparr> else s\<lparr>timer_id := None, sources := removeAll i (sources s), frames := fs\<rparr>)"
proof -
  let ?a = "s\<lparr>lock := Some Main, frames := Fetch i # fs\<rparr>" and ?b = "s\<lparr>lock := Some Main, pause_messages := [], frames := Refresh i [] # fs\<rparr>"
  let ?s = "\<lambda>l f. s\<lparr>lock := l, pause_messages := [], shown := now s, target_time := now s + sample_period s, frames := f # fs\<rparr>"
  have t: "timeout_step u v \<Longrightarrow> step u v" for u v by (simp add: step_def)
  have "timeout_step s ?a" using assms acquired by simp
  moreover have "timeout_step ?a ?b" using assms fetch [of ?a i fs] by simp
  moreover have "timeout_step ?b (?s (Some Main) (Unlock i []))" using refresh [of ?b i "[]" fs] by simp
  ultimately have 1: "step\<^sup>*\<^sup>* s (?s (Some Main) (Unlock i []))"
    by (meson t converse_rtranclp_into_rtranclp rtranclp.rtrancl_refl)
  have e: "?s None (Tell i []) = (?s (Some Main) (Unlock i []))\<lparr>lock := None, frames := Tell i [] # fs\<rparr>"
    by (rule gui.equality) simp_all
  have "timeout_step (?s (Some Main) (Unlock i [])) (?s None (Tell i []))" unfolding e by (rule unlock) simp
  moreover have "timeout_step (?s None (Tell i [])) (?s None (Decide i))"
    using tell [of "?s None (Tell i [])" i "[]" fs] by simp
  ultimately have "step\<^sup>*\<^sup>* s (?s None (Decide i))"
    using 1 by (meson t rtranclp.rtrancl_into_rtrancl)
  moreover have "step (?s None (Decide i)) (if playing (?s None (Decide i)) then (?s None (Decide i))\<lparr>go := True, frames := fs\<rparr>
      else (?s None (Decide i))\<lparr>timer_id := None, sources := removeAll i (sources (?s None (Decide i))), frames := fs\<rparr>)"
    unfolding step_def by (rule disjI2, rule disjI1, rule decide) simp
  ultimately show ?thesis unfolding Let_def by (rule rtranclp.rtrancl_into_rtrancl)
qed

text \<open>Two timers can be alive at once, for ever while the simulation plays: when the speed is changed
while the view waits for the simulator in a pause, the view forgets the new timer, and pressing play starts
another.\<close>

theorem two_timers:
  "\<exists>s. step\<^sup>*\<^sup>* gui_start s \<and> playing s \<and> frames s = [] \<and> sources s = [1, 2] \<and> timer_id s = Some 2"
proof -
  let ?s1 = "gui_start\<lparr>frames := [Try_Lock 0]\<rparr>"
  let ?s2 = "speed_changed 1 ?s1"
  let ?s2' = "?s2\<lparr>lock := None, pause_messages := [], shown := now ?s2, target_time := now ?s2 + sample_period ?s2,
       frames := [Decide 0]\<rparr>"
  let ?s3 = "?s2'\<lparr>timer_id := None, sources := removeAll 0 (sources ?s2'), frames := []\<rparr>"
  let ?s4 = "set_active (\<not> playing ?s3) ?s3"
  have "step gui_start ?s1" using timer [of gui_start 0] by (simp add: step_def in_loop_def gui_start_value)
  moreover have "step ?s1 ?s2" using speed [of ?s1 1] by (simp add: step_def in_loop_def)
  ultimately have to_s2: "step\<^sup>*\<^sup>* gui_start ?s2" by (meson converse_rtranclp_into_rtranclp rtranclp.rtrancl_refl)
  have s2: "frames ?s2 = [Try_Lock 0]" "lock ?s2 = None" "pause_messages ?s2 = []" "playing ?s2 = False"
    by (simp_all add: gui_start_value timer_defs)
  have "step\<^sup>*\<^sup>* ?s2 ?s3" using timeout_run [OF s2(1-3)] s2(4) unfolding Let_def by simp
  moreover have "step ?s3 ?s4" using play [of ?s3] by (simp add: step_def in_loop_def gui_start_value)
  ultimately have "step\<^sup>*\<^sup>* gui_start ?s4" using to_s2 by (meson rtranclp.rtrancl_into_rtrancl rtranclp_trans)
  moreover have "playing ?s4 \<and> frames ?s4 = [] \<and> sources ?s4 = [1, 2] \<and> timer_id ?s4 = Some 2"
    by (simp add: gui_start_value timer_defs Let_def)
  ultimately show ?thesis by blast
qed

text \<open>Starting, stopping and starting the simulation again removes a timer that does not exist any more.\<close>

lemma stale_timer_removed: "\<exists>s. step\<^sup>*\<^sup>* gui_start s \<and> frames s = [] \<and> bad_removals s = 1"
proof -
  let ?on = "set_active True gui_start" and ?off = "set_active False (set_active True gui_start)"
  have "step gui_start ?on" using play [of gui_start] by (simp add: step_def in_loop_def gui_start_value)
  moreover have "step ?on ?off" using play [of ?on] by (simp add: step_def in_loop_def gui_start_value)
  moreover have "step ?off (set_active True ?off)" using play [of ?off] by (simp add: step_def in_loop_def gui_start_value)
  ultimately have "step\<^sup>*\<^sup>* gui_start (set_active True ?off)" by (meson converse_rtranclp_into_rtranclp rtranclp.rtrancl_refl)
  moreover have "frames (set_active True ?off) = [] \<and> bad_removals (set_active True ?off) = 1"
    by (simp add: gui_start_value timer_defs Let_def)
  ultimately show ?thesis by blast
qed

section \<open>Sample states\<close>

text \<open>The simulation plays: the view has given a first sample, the simulator has run to it with a message, and
the timer has called the view again, which waits for the lock.\<close>

definition playing_state :: gui where
  "playing_state = (let s = set_active True gui_start in s\<lparr>target_time := 1 / 10, go := True\<rparr>)"

lemma playing_reachable: "step\<^sup>*\<^sup>* gui_start playing_state"
proof -
  let ?a = "set_active True gui_start"
  let ?b = "?a\<lparr>frames := [Try_Lock 1]\<rparr>"
  have "step gui_start ?a" using play [of gui_start] by (simp add: step_def in_loop_def gui_start_value)
  moreover have "step ?a ?b"
    using timer [of ?a 1] by (simp add: step_def in_loop_def gui_start_value timer_defs Let_def)
  ultimately have "step\<^sup>*\<^sup>* gui_start ?b" by (meson rtranclp.rtrancl_into_rtrancl rtranclp.rtrancl_refl)
  moreover have b: "frames ?b = [Try_Lock 1]" "lock ?b = None" "pause_messages ?b = []" "playing ?b = True"
    by (simp_all add: gui_start_value timer_defs Let_def)
  note timeout_run [OF b(1-3)]
  moreover have "(let s = ?b\<lparr>lock := None, pause_messages := [], shown := now ?b, target_time := now ?b + sample_period ?b, frames := [Decide 1]\<rparr>
     in if playing s then s\<lparr>go := True, frames := []\<rparr> else s\<lparr>timer_id := None, sources := removeAll 1 (sources s), frames := []\<rparr>)
     = playing_state"
    by (simp add: playing_state_def gui_start_value timer_defs Let_def)
  ultimately show ?thesis by (metis rtranclp_trans)
qed

definition busy_state :: gui where
  "busy_state = playing_state\<lparr>go := False, lock := Some Sim, sim := Get_Messages, now := 1 / 10, pausing := [''stop''],
     produced := [''stop''], frames := [Try_Lock 1]\<rparr>"

lemma busy_reachable: "step\<^sup>*\<^sup>* gui_start busy_state"
proof -
  let ?s = "\<lambda>pc. playing_state\<lparr>sim := pc\<rparr>" and ?g = "\<lambda>pc. playing_state\<lparr>go := False, sim := pc\<rparr>"
  let ?r = "playing_state\<lparr>go := False, lock := Some Sim, sim := Run_Until\<rparr>"
  let ?n = "?r\<lparr>now := 1 / 10, pausing := pausing ?r @ [''stop''], produced := produced ?r @ [''stop''], sim := Get_Messages\<rparr>"
  have v: "sim playing_state = Test_Quit" "quitting playing_state = False" "go playing_state = True" "lock playing_state = None"
    "now playing_state = 0" "target_time playing_state = 1 / 10" "frames playing_state = []" "pausing playing_state = []"
    "produced playing_state = []" "sources playing_state = [1]" "over playing_state = False"
    by (simp_all add: playing_state_def gui_start_value timer_defs Let_def)
  have "sim_step playing_state (?s Wait_Go)" using test_quit [of playing_state] v by simp
  moreover have "sim_step (?s Wait_Go) (?s Clear_Go)" using wait_go [of "?s Wait_Go"] v by simp
  moreover have "sim_step (?s Clear_Go) (?g Check_Quit)" using clear_go [of "?s Clear_Go"] by simp
  moreover have "sim_step (?g Check_Quit) (?g Take_Lock)" using check_quit [of "?g Check_Quit"] v by simp
  moreover have "sim_step (?g Take_Lock) ?r" using take_lock [of "?g Take_Lock"] v by simp
  moreover have "sim_step ?r ?n" using run_until [of ?r "1 / 10" "[''stop'']"] v by simp
  moreover have t: "sim_step u v \<Longrightarrow> step u v" for u v by (simp add: step_def)
  ultimately have n: "step\<^sup>*\<^sup>* playing_state ?n" by (meson converse_rtranclp_into_rtranclp rtranclp.rtrancl_refl)
  have "dispatch ?n (?n\<lparr>frames := Try_Lock 1 # frames ?n\<rparr>)" by (rule timer) (simp_all add: in_loop_def v)
  then have "step ?n (?n\<lparr>frames := Try_Lock 1 # frames ?n\<rparr>)" unfolding step_def by blast
  moreover have "?n\<lparr>frames := Try_Lock 1 # frames ?n\<rparr> = busy_state" by (simp add: busy_state_def v)
  ultimately have "step ?n busy_state" by simp
  with n playing_reachable show ?thesis by (meson rtranclp.rtrancl_into_rtrancl rtranclp_trans)
qed

lemma busy_simps [simp]:
  "frames busy_state = [Try_Lock 1]" "sim busy_state = Get_Messages" "lock busy_state = Some Sim"
  "produced busy_state = [''stop'']" "pausing busy_state = [''stop'']" "dialogs busy_state = []" "now busy_state = 1 / 10"
  by (simp_all add: busy_state_def playing_state_def gui_start_value timer_defs Let_def)

text \<open>The main thread in \<open>_quit\<close>, before the simulation thread has looked at anything.\<close>

definition quit_state :: gui where
  "quit_state = (remove_timer gui_start)\<lparr>timer_id := None, quitting := True, go := True, frames := [Quit_Join]\<rparr>"

lemma quit_reachable: "step\<^sup>*\<^sup>* gui_start quit_state"
proof -
  let ?a = "gui_start\<lparr>frames := [Quit_Timer]\<rparr>" and ?b = "(remove_timer gui_start)\<lparr>timer_id := None, frames := [Quit_Flag]\<rparr>"
  let ?c = "?b\<lparr>quitting := True, frames := [Quit_Go]\<rparr>"
  have "step gui_start ?a" using quit_event [of gui_start] by (simp add: step_def in_loop_def gui_start_value)
  moreover have "quit_step ?a ?b" using quit_timer [of ?a "[]"] by (simp add: gui_start_value timer_defs)
  moreover have "quit_step ?b ?c" using quit_flag [of ?b "[]"] by simp
  moreover have "quit_step ?c quit_state" using quit_go [of ?c "[]"] by (simp add: quit_state_def gui_start_value timer_defs)
  moreover have t: "quit_step u v \<Longrightarrow> step u v" for u v by (simp add: step_def)
  ultimately show ?thesis by (meson converse_rtranclp_into_rtranclp rtranclp.rtrancl_refl)
qed

theorem lock_is_exclusive_witness:
  "sim_holds (sim busy_state) \<and> \<not> (\<exists>f \<in> set (frames busy_state). holds f)"
  using lock_is_exclusive [OF busy_reachable] by (simp add: sim_holds_def)

theorem callbacks_never_stuck_witness:
  "(\<exists>t. main_step busy_state t) \<or> (\<exists>t. sim_step busy_state t)"
  using callbacks_never_stuck [OF busy_reachable] by simp

theorem quit_joins_witness:
  "\<exists>t. join_step\<^sup>*\<^sup>* quit_state t \<and> sim t = Ended \<and> frames t = [Quit_Join]"
  using quit_joins [OF quit_reachable, of "[]"] by (simp add: quit_state_def)

theorem pause_messages_conserved_witness:
  "mset (produced busy_state) = mset (pausing busy_state) \<and> (\<exists>rest. [''stop''] = dialogs busy_state @ rest)"
  using pause_messages_conserved [OF busy_reachable] by simp

theorem view_keeps_up_witness: "shown busy_state \<le> 1 / 10 \<and> 1 / 10 \<le> shown busy_state + 1"
  using view_keeps_up [OF busy_reachable] by simp

end
