(* ===== verification/Spec2Isabelle.thy ===== *)
theory Spec2Isabelle
  imports Ns3_Driver Flow_Monitor Console_View Find_Cycles Rad_Num Test_Run Style_Run Create_Module Grid_Window Viz_Tables Viz_Wifi Viz_Hud Viz_Sim
begin

text \<open>
  A verification library for the Python tools of ns-3: the test runner \<^verbatim>\<open>test.py\<close> with
  \<^verbatim>\<open>utils.py\<close>, the algorithms behind the binding generators \<^verbatim>\<open>bindings/python/topsort.py\<close> and
  \<^verbatim>\<open>bindings/python/rad_util.py\<close>, and the tools \<^verbatim>\<open>utils/check-style.py\<close>,
  \<^verbatim>\<open>utils/create-module.py\<close> and \<^verbatim>\<open>utils/grid.py\<close>, and the live visualizer
  \<^verbatim>\<open>src/visualizer/visualizer/\<close> with its files \<^verbatim>\<open>core.py\<close>, \<^verbatim>\<open>base.py\<close>, \<^verbatim>\<open>hud.py\<close> and \<^verbatim>\<open>svgitem.py\<close>,
  and \<^verbatim>\<open>src/flow-monitor/examples/flowmon-parse-results.py\<close>, which reports the flows of a simulation,
  and the front end \<^verbatim>\<open>ns3\<close>, which configures, builds and runs.

  \<^bold>\<open>How the parts interact.\<close> \<open>run_tests\<close> of \<^verbatim>\<open>test.py\<close> reads the lock file that configuring
  ns-3 leaves, builds, sets the environment, finds the examples with \<open>get_list_from_file\<close> of
  \<^verbatim>\<open>utils.py\<close>, asks the test runner for the suites, makes a list of jobs, hands them to worker
  threads over a queue, takes the finished jobs off a second queue, counts and prints them,
  appends them to an XML file, joins the threads, translates the file into reports and returns
  the exit code. \<^verbatim>\<open>topsort.py\<close> uses \<open>is_rotated\<close> of \<^verbatim>\<open>rad_util.py\<close>. The three tools stand alone: \<^verbatim>\<open>check-style.py\<close> diffs a file
  against its re-indented copy, edits the diff and patches a second copy with it;
  \<^verbatim>\<open>create-module.py\<close> fills templates into a new directory; \<^verbatim>\<open>grid.py\<close> reads a trace and shows it in
  a window whose handlers move the range shown. The visualizer scans the nodes, devices and channels of
  the C++ simulation into a scene of nodes and links, runs the simulator in a thread of its own for one
  sample period at a time, and between two periods, under a lock, moves the nodes and shows the
  transmissions; the handlers of the window select, drag, pan and zoom. The parser of the flow monitor reads the document that
  the C++ class \<open>FlowMonitor\<close> writes, and prints figures for each flow. The front end \<^verbatim>\<open>ns3\<close> reads the lock file, looks for CMake's cache,
  configures the project, makes the table of the names of its programs, finds the program or target that is meant,
  has CMake build it and runs it.

  \<^bold>\<open>Theories.\<close>
  \<^item> \<^verbatim>\<open>Py_Prelude\<close>: exceptions as \<open>py_error + 'a\<close>, loops that may raise (\<open>rfold\<close>, \<open>rmap\<close>),
    dictionaries in insertion order, slices, strings; the locales \<open>loop_invariant\<close>,
    \<open>total_loop\<close> and \<open>py_map\<close>. \<^verbatim>\<open>Os_Path\<close>: what is used of \<^verbatim>\<open>os.path\<close> and \<^verbatim>\<open>fnmatch\<close>.
    \<^verbatim>\<open>Transitions\<close>: invariants and weights of step relations as locales.
  \<^item> \<^verbatim>\<open>Config_Files\<close>: \<^verbatim>\<open>utils.py\<close>.
  \<^item> \<^verbatim>\<open>Test_Config\<close>, \<^verbatim>\<open>Test_Examples\<close>, \<^verbatim>\<open>Test_Jobs\<close>: \<^verbatim>\<open>test.py\<close> up to the list of jobs
    (\<open>read_ns3_config\<close>, \<open>make_paths\<close>, \<open>parse_examples_to_run_file\<close>, \<open>Job\<close>,
    \<open>run_job_synchronously\<close>, the choice of suites and examples).
  \<^item> \<^verbatim>\<open>Test_Workers\<close>: the queues, \<open>worker_thread.run\<close>, the main thread and \<open>sigint_hook\<close> as
    one step relation in which the threads interleave freely. \<^verbatim>\<open>Test_Collect\<close>: what the main
    thread does with each finished job, the summary and the exit code. \<^verbatim>\<open>Test_Report\<close>: the text
    and HTML reports. \<^verbatim>\<open>Test_Run\<close>: \<open>run_tests\<close> composed of these parts.
  \<^item> \<^verbatim>\<open>Topsort\<close>, \<^verbatim>\<open>Find_Cycles\<close>: \<^verbatim>\<open>topsort.py\<close>. \<^verbatim>\<open>Rad_Seq\<close>, \<^verbatim>\<open>Rad_Num\<close>: \<^verbatim>\<open>rad_util.py\<close>.
  \<^item> \<^verbatim>\<open>Py_State\<close>: procedures that change a state and may raise, with the contracts \<open>keeps\<close>,
    \<open>gives\<close> and \<open>raises\<close> and their rules. \<^verbatim>\<open>Check_Style\<close>, \<^verbatim>\<open>Style_Run\<close>: the patches of
    \<^verbatim>\<open>check-style.py\<close>, and its procedures over the files. \<^verbatim>\<open>Module_Text\<close>, \<^verbatim>\<open>Create_Module\<close>: the
    templates of \<^verbatim>\<open>create-module.py\<close>, and its procedures over a tree of files.
  \<^item> \<^verbatim>\<open>Grid_Data\<close>: the ranges, events and searches of \<^verbatim>\<open>grid.py\<close>, its stores, colours, reader and
    legend. \<^verbatim>\<open>Py2_Num\<close>: integers and floats of Python 2 with their divisions. \<^verbatim>\<open>Grid_Draw\<close>,
    \<^verbatim>\<open>Grid_Scale\<close>: the layout of \<open>TopLegendRenderer\<close>, \<open>TimelinesRenderer\<close> and \<open>ScaleRenderer\<close> and the
    cairo calls of their \<open>draw\<close>. \<^verbatim>\<open>Grid_View\<close>: \<open>GraphicRenderer\<close>, the widget's handlers and the
    callbacks of the window as a machine over the events of the tool kit; \<^verbatim>\<open>Grid_Window\<close>: its
    properties.
  \<^item> \<^verbatim>\<open>Viz_Base\<close>, \<^verbatim>\<open>Viz_Svg\<close>, \<^verbatim>\<open>Viz_Hud\<close>: \<^verbatim>\<open>base.py\<close>, \<^verbatim>\<open>svgitem.py\<close> and \<^verbatim>\<open>hud.py\<close> of the
    visualizer. \<^verbatim>\<open>Viz_Scene\<close>: \<open>Node\<close>, \<open>Channel\<close> and \<open>WiredLink\<close> of \<^verbatim>\<open>core.py\<close> as stores under keys;
    \<^verbatim>\<open>Viz_Scan\<close>: \<open>scan_topology\<close>; \<^verbatim>\<open>Viz_Arrows\<close>: the window of samples and the arrows; \<^verbatim>\<open>Viz_View\<close>: the
    handlers of the window as a machine over events, and what each of them keeps; \<^verbatim>\<open>Viz_Events\<close>: what
    holds over sequences of events; each extends the record of the one before. \<^verbatim>\<open>Viz_Sim\<close>: the
    simulation thread and the main loop as one step relation. \<^verbatim>\<open>Viz_Wifi\<close>, \<^verbatim>\<open>Viz_Tables\<close>: the plugins.
    \<^verbatim>\<open>Console_View\<close>: \<^verbatim>\<open>ipython_view.py\<close>, its history, completion, execution of lines and keys.
  \<^item> \<^verbatim>\<open>Xml_Element\<close>: elements of XML documents, for \<^verbatim>\<open>Test_Report\<close> and \<^verbatim>\<open>Flow_Monitor\<close>. \<^verbatim>\<open>Flow_Monitor\<close>: the
    classes and \<open>main\<close> of \<^verbatim>\<open>flowmon-parse-results.py\<close>, and the document that \<open>SerializeToXmlStream\<close> of the
    monitor, its classifiers, probes and histograms writes. \<^verbatim>\<open>Py_Number\<close>: numbers as texts.
  \<^item> \<^verbatim>\<open>Ns3_Programs\<close>: the tables of \<^verbatim>\<open>ns3\<close> (\<open>check_lock_data\<close>, \<open>get_program_shortcuts\<close>,
    \<open>get_target_to_build\<close>, \<open>search_cmake_cache\<close>). \<^verbatim>\<open>Ns3_Driver\<close>: its steps (\<open>clean_cmake_artifacts\<close>,
    \<open>configuration_step\<close>, \<open>build_step\<close>, \<open>run_step\<close>, \<open>sudo_step\<close>) and \<open>main\<close>, over a record of what the
    script sees of the system and does to it.

  \<^bold>\<open>State and operations.\<close> An object is a record with the fields of its class and a method is a
  function to the new record; a method that returns an object which its caller then changes
  (\<open>Timeline.get_range\<close>) takes the change as an argument. A generator is the list of what it
  yields together with how it ends. \<open>eval\<close>, \<open>exec\<close>, child processes, the file system, the XML
  parser and text extents are arguments of the definitions. A loop that may not end is
  \<open>partial_function (option)\<close> (\<open>float_range\<close>); every other loop is a total function, so that
  its termination is proved.

  \<^bold>\<open>What is shown.\<close> For the test runner: an exit code \<open>0\<close> implies that every job passed or was
  skipped, whatever the interleaving and interrupts; the threads cannot deadlock and every run
  is bounded by \<open>5\<close> steps a job and \<open>6\<close> a thread (the weight of a state: a job is put, taken,
  tested, run and collected; a break job is put and taken, a thread stops and is joined); the
  counters, the order independence of the summary, the choice of suites and examples, the
  environment; the text report tells every test, and the tags of the HTML report nest exactly
  in the absence of failures and skipped examples. For \<^verbatim>\<open>topsort.py\<close>: the order, the
  levels, the errors, and that \<open>find_cycles\<close> finds every simple cycle once. For \<^verbatim>\<open>rad_util.py\<close>:
  the functional contract of each function. For \<^verbatim>\<open>grid.py\<close>: what the searches select, that the
  reader loses nothing, the layout of the legend, the number of marks of a scale, the height of
  the drawing, that the parts of the window agree on the range shown and that its handlers refine
  gestures on an abstract view port, errors and the divisions of integers included. For \<^verbatim>\<open>check-style.py\<close>: what is written is
  parsed back, what the pass over trailing white space restores, that a check changes no file of
  the project, what an update in place leaves, and the exit status. For \<^verbatim>\<open>create-module.py\<close>: all or nothing whatever is refused, the tree created, and
  that no module is placed outside the source tree. For the visualizer: the links and places that a scan
  makes, and when it fails; that links follow the nodes they join, whatever events come; that selection,
  mode and the nodes the simulator records agree; that arrows are reused and not lost; dragging and
  panning; mutual exclusion, no deadlock, that quitting ends, that pause messages are conserved and that
  the simulation stays within a second of the view; the divisions of the axes; that wifi links lead to the
  access points of their stations and are drawn there, the rates of interfaces, and that the capture filter is what is ticked. For the flow monitor: that the parser
  reads what the simulator writes, and what \<open>main\<close> prints up to a flow that it cannot name. For \<^verbatim>\<open>ns3\<close>: what the name
  of a program stands for, that a dry run changes nothing, and when a failure ends the script.

  \<^bold>\<open>Interfaces.\<close> \<open>loop_invariant\<close> and \<open>total_loop\<close> (a loop body keeps a predicate, and does not
  raise) are interpreted by the example, job and cycle loops; \<open>py_map\<close> by dictionaries;
  \<open>invariant_system\<close> and \<open>weighted_system\<close> by the worker system and by the threads of the visualizer; \<open>retirement\<close> by both forms of
  the topological sort; \<open>bisection\<close> by both searches of \<^verbatim>\<open>grid.py\<close>, \<open>named_store\<close> by its four
  find-or-append methods.

  \<^bold>\<open>Limits.\<close> Integers are unbounded as in Python; floats are rational numbers without rounding.
  \<^verbatim>\<open>rad_util.py\<close>, \<^verbatim>\<open>topsort.py\<close> and \<^verbatim>\<open>grid.py\<close> are read as Python 2 (\<open>has_key\<close>, \<open>sort\<close> with
  a comparison, lists from \<open>map\<close> and \<open>zip\<close>, floor division), the other scripts as Python 3. Strings are lists of 8-bit characters. An exception inside the writing of a file
  loses the partial file. Not modelled: verbose output, the creation and removal of the output
  directory, the parsing of options, which are records; the colours, the quiet output, the password prompt and the
  changes of the environment in \<^verbatim>\<open>ns3\<close>, whose announced commands are values instead of texts; \<open>nice_units\<close>, \<open>random_vec\<close>, \<open>timestamp\<close>, \<open>pt2str\<close>, \<open>getmodule\<close>;
  the help texts of the tools; the packing of the widgets of \<^verbatim>\<open>grid.py\<close> and of the visualizer, its
  screenshots, the set-up of its shell, the menus and windows of its plugins, and the texts of its tooltips; the
  other tools of the repository and the simulator itself, which is C++. The simulator is to the visualizer
  a network of nodes with positions, devices and channels, and samples that it gives; the conversion
  between pixels and canvas, graphviz and the import of plugins are parameters. uncrustify, patch, git,
  \<^verbatim>\<open>difflib\<close> and the file system's refusals are parameters with named assumptions
  (\<open>writes_output_only\<close>, \<open>removals_contained\<close> and others).
\<close>

end
